(* ===== verification/Prelude.thy ===== *)
theory Prelude
  imports Main "HOL-Library.Word" "HOL-Library.While_Combinator"
begin

text \<open>
  What every component shares: the values of the Python runtime that the sources use.

  \<^item> A call that can raise returns \<open>exn + 'a\<close> (\<open>'a res\<close>): \<open>Inl\<close> carries the exception, \<open>Inr\<close>
    the returned value.  \<open>rbind\<close> is sequencing: the first exception ends the computation.
  \<^item> \<open>Diverges\<close> is not an exception of the code: it is the value of a loop that never ends.
    \<open>loop_while\<close> is the \<open>while\<close> statement over a state whose body may raise.
  \<^item> \<open>bytes\<close> are lists of 8-bit words; a Python \<open>dict\<close> is an association list in insertion order.
\<close>

section \<open>Results, exceptions and loops\<close>

datatype exn =
    ValueError
  | AssertionError
  | KeyError
  | IndexError
  | ZeroDivisionError
  | OverflowError
  | TypeError
  | SetError
  | DatabaseError
  | Diverges

type_synonym 'a res = "exn + 'a"

named_theorems res_simps \<open>how results, binds and guards evaluate\<close>
named_theorems res_elims \<open>what a successful bind says about its parts\<close>

definition rbind :: "'a res \<Rightarrow> ('a \<Rightarrow> 'b res) \<Rightarrow> 'b res" where
  "rbind m f = (case m of Inl e \<Rightarrow> Inl e | Inr x \<Rightarrow> f x)"

definition rguard :: "exn \<Rightarrow> bool \<Rightarrow> unit res" where
  "rguard e b = (if b then Inr () else Inl e)"

lemma rbind_simps [simp, res_simps]:
  "rbind (Inl e) f = Inl e"
  "rbind (Inr x) f = f x"
  by (simp_all add: rbind_def)

lemma rguard_simps [simp, res_simps]:
  "rguard e True = Inr ()"
  "rguard e False = Inl e"
  by (simp_all add: rguard_def)

lemma rguard_eq_Inr [simp, res_simps]: "rguard e b = Inr u \<longleftrightarrow> b"
  by (simp add: rguard_def)

lemma rguard_eq_Inl [simp, res_simps]: "rguard e b = Inl e' \<longleftrightarrow> \<not> b \<and> e' = e"
  by (auto simp: rguard_def)

lemma rbind_eq_Inr: "rbind m f = Inr y \<longleftrightarrow> (\<exists>x. m = Inr x \<and> f x = Inr y)"
  by (cases m) auto

lemma rbind_eq_Inl: "rbind m f = Inl e \<longleftrightarrow> m = Inl e \<or> (\<exists>x. m = Inr x \<and> f x = Inl e)"
  by (cases m) auto

lemma rbind_InrE [res_elims]:
  assumes "rbind m f = Inr y"
  obtains x where "m = Inr x" and "f x = Inr y"
  using assms by (auto simp: rbind_eq_Inr)

lemma rbind_split: "P (rbind m f) \<longleftrightarrow> (\<forall>e. m = Inl e \<longrightarrow> P (Inl e)) \<and> (\<forall>x. m = Inr x \<longrightarrow> P (f x))"
  by (cases m) auto

lemma rbind_assoc: "rbind (rbind m f) g = rbind m (\<lambda>x. rbind (f x) g)"
  by (cases m) auto

lemma rbind_Inr [simp]: "rbind m Inr = m"
  by (cases m) auto

lemma rbind_cong [fundef_cong]:
  assumes "m = m'" and "\<And>x. m' = Inr x \<Longrightarrow> f x = f' x"
  shows "rbind m f = rbind m' f'"
  using assms by (cases m') auto

primrec rmap :: "('a \<Rightarrow> 'b res) \<Rightarrow> 'a list \<Rightarrow> 'b list res" where
  "rmap f [] = Inr []"
| "rmap f (x # xs) = rbind (f x) (\<lambda>y. rbind (rmap f xs) (\<lambda>ys. Inr (y # ys)))"

lemma rmap_eq_Inr: "rmap f xs = Inr ys \<longleftrightarrow> list_all2 (\<lambda>x y. f x = Inr y) xs ys"
  by (induction xs arbitrary: ys) (auto simp: rbind_eq_Inr list_all2_Cons1)

lemma rmap_total: "(\<And>x. x \<in> set xs \<Longrightarrow> \<exists>y. f x = Inr y) \<Longrightarrow> \<exists>ys. rmap f xs = Inr ys"
  by (induction xs) fastforce+

lemma list_all2_in2: "list_all2 P xs ys \<Longrightarrow> y \<in> set ys \<Longrightarrow> \<exists>x \<in> set xs. P x y"
  by (induction rule: list_all2_induct) auto

primrec rfold :: "('s \<Rightarrow> 'a \<Rightarrow> 's res) \<Rightarrow> 's \<Rightarrow> 'a list \<Rightarrow> 's res" where
  "rfold f s [] = Inr s"
| "rfold f s (x # xs) = rbind (f s x) (\<lambda>s'. rfold f s' xs)"

lemma rfold_append: "rfold f s (xs @ ys) = rbind (rfold f s xs) (\<lambda>s'. rfold f s' ys)"
  by (induction xs arbitrary: s) (simp_all add: rbind_assoc)

lemma rfold_invariant:
  assumes "rfold f s xs = Inr s'" and "P s"
    and "\<And>s x s'. x \<in> set xs \<Longrightarrow> P s \<Longrightarrow> f s x = Inr s' \<Longrightarrow> P s'"
  shows "P s'"
  using assms
proof (induction xs arbitrary: s)
  case Nil
  then show ?case by simp
next
  case (Cons x xs)
  from Cons.prems(1) obtain t where t: "f s x = Inr t" and r: "rfold f t xs = Inr s'"
    by (auto simp: rbind_eq_Inr)
  have "P t" using Cons.prems t by auto
  then show ?case using Cons.IH [OF r] Cons.prems(3) by auto
qed

text \<open>
  \<open>while c(s): s = f(s)\<close>, where \<open>f\<close> may raise.  The loop runs by \<open>while_option\<close>; a run that never
  leaves the loop is \<open>Diverges\<close>.
\<close>

definition loop_while :: "('s \<Rightarrow> bool) \<Rightarrow> ('s \<Rightarrow> 's res) \<Rightarrow> 's \<Rightarrow> 's res" where
  "loop_while c f s =
     (case while_option (\<lambda>r. case r of Inl e \<Rightarrow> False | Inr t \<Rightarrow> c t)
                        (\<lambda>r. rbind r f) (Inr s) of
        None \<Rightarrow> Inl Diverges
      | Some r \<Rightarrow> r)"

lemma loop_while_unfold:
  "loop_while c f s = (if c s then rbind (f s) (loop_while c f) else Inr s)"
proof (cases "c s")
  case True
  show ?thesis
  proof (cases "f s")
    case (Inl e)
    with True show ?thesis
      by (simp add: loop_while_def while_option_unfold [where s = "Inr s"]
          while_option_unfold [where s = "Inl e"])
  next
    case (Inr t)
    with True show ?thesis
      by (simp add: loop_while_def while_option_unfold [where s = "Inr s"])
  qed
next
  case False
  then show ?thesis
    by (simp add: loop_while_def while_option_unfold [where s = "Inr s"])
qed

lemma loop_while_invariant:
  assumes step: "\<And>s t. P s \<Longrightarrow> c s \<Longrightarrow> f s = Inr t \<Longrightarrow> P t \<and> m t < (m s :: nat)"
    and "P s"
  shows "(\<exists>t. loop_while c f s = Inr t \<and> P t \<and> \<not> c t) \<or>
         (\<exists>e t. loop_while c f s = Inl e \<and> P t \<and> c t \<and> f t = Inl e)"
  using \<open>P s\<close>
proof (induction "m s" arbitrary: s rule: less_induct)
  case less
  show ?case
  proof (cases "c s")
    case False
    then show ?thesis using less.prems by (auto simp: loop_while_unfold [of c f s])
  next
    case True
    show ?thesis
    proof (cases "f s")
      case (Inl e)
      then show ?thesis using less.prems True by (auto simp: loop_while_unfold [of c f s])
    next
      case (Inr t)
      then have "P t" "m t < m s" using step less.prems True by auto
      then show ?thesis using less.hyps [of t] Inr True by (auto simp: loop_while_unfold [of c f s])
    qed
  qed
qed

lemma loop_while_total:
  assumes step: "\<And>s. P s \<Longrightarrow> c s \<Longrightarrow> \<exists>t. f s = Inr t \<and> P t \<and> m t < (m s :: nat)"
    and "P s"
  shows "\<exists>t. loop_while c f s = Inr t \<and> P t \<and> \<not> c t"
  using \<open>P s\<close>
proof (induction "m s" arbitrary: s rule: less_induct)
  case less
  show ?case
  proof (cases "c s")
    case True
    then obtain t where "f s = Inr t" "P t" "m t < m s" using step [OF less.prems] by blast
    then show ?thesis using less.hyps [of t] True by (simp add: loop_while_unfold [of c f s])
  qed (use less.prems in \<open>simp add: loop_while_unfold [of c f s]\<close>)
qed

lemma loop_while_rule:
  assumes "loop_while c f s = Inr t" and "P s" and "\<And>s t. P s \<Longrightarrow> c s \<Longrightarrow> f s = Inr t \<Longrightarrow> P t"
  shows "P t \<and> \<not> c t"
proof -
  let ?b = "\<lambda>r. case r of Inl e \<Rightarrow> False | Inr t \<Rightarrow> c t"
  have w: "while_option ?b (\<lambda>r. rbind r f) (Inr s) = Some (Inr t)"
    using assms(1) by (auto simp: loop_while_def split: option.splits)
  have "case (Inr t :: exn + _) of Inl e \<Rightarrow> True | Inr t \<Rightarrow> P t"
    by (rule while_option_rule [where P = "\<lambda>r. case r of Inl e \<Rightarrow> True | Inr t \<Rightarrow> P t", OF _ w])
      (use assms(2,3) in \<open>auto split: sum.splits simp: rbind_def\<close>)
  then show ?thesis using while_option_stop [OF w] by simp
qed

section \<open>Integer division and list access\<close>

text \<open>Python's \<open>//\<close> and \<open>%\<close> round towards minus infinity, like \<open>div\<close> and \<open>mod\<close>, and raise on a zero divisor.\<close>

definition rdiv :: "int \<Rightarrow> int \<Rightarrow> int res" where
  "rdiv a b = (if b = 0 then Inl ZeroDivisionError else Inr (a div b))"

definition rmod :: "int \<Rightarrow> int \<Rightarrow> int res" where
  "rmod a b = (if b = 0 then Inl ZeroDivisionError else Inr (a mod b))"

lemma rdiv_rmod_simps [simp]:
  "b \<noteq> 0 \<Longrightarrow> rdiv a b = Inr (a div b)"
  "b \<noteq> 0 \<Longrightarrow> rmod a b = Inr (a mod b)"
  "rdiv a b = Inr c \<longleftrightarrow> b \<noteq> 0 \<and> c = a div b"
  "rmod a b = Inr c \<longleftrightarrow> b \<noteq> 0 \<and> c = a mod b"
  by (auto simp: rdiv_def rmod_def)

text \<open>\<open>xs[i]\<close>, where a negative index counts from the end.\<close>

definition py_index :: "'a list \<Rightarrow> int \<Rightarrow> 'a res" where
  "py_index xs i =
     (if 0 \<le> i \<and> i < int (length xs) then Inr (xs ! nat i)
      else if - int (length xs) \<le> i \<and> i < 0 then Inr (xs ! nat (int (length xs) + i))
      else Inl IndexError)"

section \<open>Bytes\<close>

type_synonym byte = "8 word"
type_synonym bytes = "byte list"

text \<open>Python's \<open>b[i:j]\<close> with \<open>0 \<le> i \<le> j\<close>: never raises, cut at the end of the data.\<close>

definition slice :: "nat \<Rightarrow> nat \<Rightarrow> 'a list \<Rightarrow> 'a list" where
  "slice i j xs = take (j - i) (drop i xs)"

lemma length_slice: "length (slice i j xs) = min (j - i) (length xs - i)"
  by (simp add: slice_def min.commute)

lemma slice_append_mid:
  "length xs = i \<Longrightarrow> length ys = j - i \<Longrightarrow> slice i j (xs @ ys @ zs) = ys"
  by (simp add: slice_def)

text \<open>Python's order on \<open>bytes\<close>: lexicographic on the byte values.\<close>

fun bytes_less :: "bytes \<Rightarrow> bytes \<Rightarrow> bool" where
  "bytes_less xs [] = False"
| "bytes_less [] (y # ys) = True"
| "bytes_less (x # xs) (y # ys) = (x < y \<or> x = y \<and> bytes_less xs ys)"

lemma bytes_less_irrefl [simp]: "\<not> bytes_less xs xs"
  by (induction xs) auto

lemma bytes_less_trans: "bytes_less xs ys \<Longrightarrow> bytes_less ys zs \<Longrightarrow> bytes_less xs zs"
proof (induction xs zs arbitrary: ys rule: bytes_less.induct)
  case (2 y ys')
  then show ?case by auto
next
  case (3 x xs z zs)
  then show ?case by (cases ys) auto
qed (auto elim: bytes_less.elims)

lemma bytes_less_linear: "xs \<noteq> ys \<Longrightarrow> bytes_less xs ys \<or> bytes_less ys xs"
  by (induction xs ys rule: bytes_less.induct) (auto simp: neq_Nil_conv)

lemma bytes_less_asym: "bytes_less xs ys \<Longrightarrow> \<not> bytes_less ys xs"
  using bytes_less_trans bytes_less_irrefl by blast

lemma bytes_less_append:
  "length us = length vs \<Longrightarrow>
   bytes_less (us @ xs) (vs @ ys) \<longleftrightarrow> bytes_less us vs \<or> us = vs \<and> bytes_less xs ys"
proof (induction us vs rule: list_induct2)
  case Nil
  then show ?case by simp
qed auto

section \<open>Python dictionaries\<close>

text \<open>
  A \<open>dict\<close> keeps its keys in insertion order: storing under a key that is present keeps its
  position, a new key goes to the end, and \<open>del\<close> of a missing key raises \<open>KeyError\<close>.
\<close>

type_synonym ('k, 'v) dict = "('k \<times> 'v) list"

definition dict_get :: "('k, 'v) dict \<Rightarrow> 'k \<Rightarrow> 'v option" where
  "dict_get d k = map_of d k"

definition dict_getitem :: "('k, 'v) dict \<Rightarrow> 'k \<Rightarrow> 'v res" where
  "dict_getitem d k = (case dict_get d k of None \<Rightarrow> Inl KeyError | Some v \<Rightarrow> Inr v)"

definition dict_mem :: "('k, 'v) dict \<Rightarrow> 'k \<Rightarrow> bool" where
  "dict_mem d k = (dict_get d k \<noteq> None)"

fun dict_set :: "('k, 'v) dict \<Rightarrow> 'k \<Rightarrow> 'v \<Rightarrow> ('k, 'v) dict" where
  "dict_set [] k v = [(k, v)]"
| "dict_set ((k', v') # d) k v = (if k' = k then (k, v) # d else (k', v') # dict_set d k v)"

definition dict_pop :: "('k, 'v) dict \<Rightarrow> 'k \<Rightarrow> ('k, 'v) dict" where
  "dict_pop d k = filter (\<lambda>p. fst p \<noteq> k) d"

definition dict_del :: "('k, 'v) dict \<Rightarrow> 'k \<Rightarrow> ('k, 'v) dict res" where
  "dict_del d k = (if dict_mem d k then Inr (dict_pop d k) else Inl KeyError)"

definition dict_keys :: "('k, 'v) dict \<Rightarrow> 'k list" where
  "dict_keys d = map fst d"

definition dict_values :: "('k, 'v) dict \<Rightarrow> 'v list" where
  "dict_values d = map snd d"

definition dict_ok :: "('k, 'v) dict \<Rightarrow> bool" where
  "dict_ok d = distinct (dict_keys d)"

text \<open>What the components rely on in a dictionary, and that the insertion-ordered one provides it.\<close>

locale dict_laws =
  fixes get :: "'d \<Rightarrow> 'k \<Rightarrow> 'v option"
    and set_item :: "'d \<Rightarrow> 'k \<Rightarrow> 'v \<Rightarrow> 'd"
    and pop :: "'d \<Rightarrow> 'k \<Rightarrow> 'd"
    and ok :: "'d \<Rightarrow> bool"
    and empty :: 'd
  assumes get_empty: "get empty k = None"
    and get_set: "get (set_item d k v) k' = (if k' = k then Some v else get d k')"
    and get_pop: "get (pop d k) k' = (if k' = k then None else get d k')"
    and ok_empty: "ok empty"
    and ok_set: "ok d \<Longrightarrow> ok (set_item d k v)"
    and ok_pop: "ok d \<Longrightarrow> ok (pop d k)"
begin

lemma dom_set: "dom (get (set_item d k v)) = insert k (dom (get d))"
  by (auto simp: get_set dom_def split: if_splits)

lemma dom_pop: "dom (get (pop d k)) = dom (get d) - {k}"
  by (auto simp: get_pop dom_def split: if_splits)

lemma get_as_map: "get (set_item d k v) = (get d)(k \<mapsto> v)"
  by (auto simp: get_set fun_eq_iff)

lemma get_pop_as_map: "get (pop d k) = (get d)(k := None)"
  by (auto simp: get_pop fun_eq_iff)

lemma pop_set_absent: "get d k = None \<Longrightarrow> get (pop (set_item d k v) k) = get d"
  by (auto simp: get_pop_as_map get_as_map fun_eq_iff)

end

lemma dict_get_set: "dict_get (dict_set d k v) k' = (if k' = k then Some v else dict_get d k')"
  by (induction d) (auto simp: dict_get_def)

lemma dict_get_pop: "dict_get (dict_pop d k) k' = (if k' = k then None else dict_get d k')"
  by (induction d) (auto simp: dict_get_def dict_pop_def)

lemma keys_dict_set: "set (dict_keys (dict_set d k v)) = insert k (set (dict_keys d))"
  unfolding dict_keys_def by (induction d k v rule: dict_set.induct) auto

lemma dict_ok_set: "dict_ok d \<Longrightarrow> dict_ok (dict_set d k v)"
proof (induction d k v rule: dict_set.induct)
  case (1 k v)
  then show ?case by (simp add: dict_ok_def dict_keys_def)
next
  case (2 k' v' d k v)
  then show ?case using keys_dict_set [of d k v] by (auto simp: dict_ok_def dict_keys_def)
qed

lemma dict_ok_pop: "dict_ok d \<Longrightarrow> dict_ok (dict_pop d k)"
  by (auto simp: dict_ok_def dict_keys_def dict_pop_def distinct_map_filter)

interpretation dict: dict_laws dict_get dict_set dict_pop dict_ok "[]"
  by unfold_locales
     (simp_all add: dict_get_set dict_get_pop dict_ok_set dict_ok_pop,
      simp_all add: dict_get_def dict_ok_def dict_keys_def)

lemmas dict_simps = dict.get_empty dict.get_set dict.get_pop

lemma dict_mem_simps [simp]:
  "\<not> dict_mem [] k"
  "dict_mem (dict_set d k v) k' \<longleftrightarrow> k' = k \<or> dict_mem d k'"
  "dict_mem (dict_pop d k) k' \<longleftrightarrow> k' \<noteq> k \<and> dict_mem d k'"
  by (simp_all add: dict_mem_def dict_simps)

lemma dict_mem_iff: "dict_mem d k \<longleftrightarrow> k \<in> set (dict_keys d)"
  by (auto simp: dict_mem_def dict_get_def dict_keys_def map_of_eq_None_iff)

lemma dict_get_iff: "dict_ok d \<Longrightarrow> dict_get d k = Some v \<longleftrightarrow> (k, v) \<in> set d"
  by (simp add: dict_get_def dict_ok_def dict_keys_def)

lemma dict_set_new: "\<not> dict_mem d k \<Longrightarrow> dict_set d k v = d @ [(k, v)]"
  by (induction d k v rule: dict_set.induct) (auto simp: dict_mem_def dict_get_def split: if_splits)

lemma dict_pop_length: "dict_ok d \<Longrightarrow> dict_mem d k \<Longrightarrow> Suc (length (dict_pop d k)) = length d"
proof (induction d)
  case (Cons p d)
  have "dict_pop d k = d" if "k \<notin> fst ` set d"
    using that by (auto simp: dict_pop_def intro!: filter_True)
  then show ?case using Cons
    by (cases "fst p = k") (auto simp: dict_ok_def dict_keys_def dict_mem_iff dict_pop_def)
qed (simp add: dict_mem_def dict_get_def)

lemma dict_get_snoc:
  "dict_get d k = None \<Longrightarrow> dict_get (d @ [(k, v)]) k' = (if k' = k then Some v else dict_get d k')"
  by (induction d) (auto simp: dict_get_def split: if_splits)

lemma dict_set_length: "length (dict_set d k v) = (if dict_mem d k then length d else Suc (length d))"
  by (induction d k v rule: dict_set.induct) (auto simp: dict_mem_def dict_get_def)

lemma dict_get_filter: "dict_get (filter (\<lambda>p. P (fst p)) d) k = (if P k then dict_get d k else None)"
  by (induction d) (auto simp: dict_get_def)

end
