(* ===== verification/Ints.thy ===== *)
theory Ints
  imports Prelude
begin

text \<open>
  The fixed-width integers and byte strings that every protocol and block structure is made of:
  \<open>chives/util/struct_stream.py\<close>, \<open>chives/util/ints.py\<close> and \<open>chives/util/byte_types.py\<close>.

  The Python classes are subclasses of \<open>int\<close> and \<open>bytes\<close> whose constructor checks a range or a
  length.  A value is therefore a HOL \<open>int\<close> (or \<open>bytes\<close>) and the constructor is a function that
  returns it or raises.  A class is the record of its class attributes; \<open>parse_metadata_from_name\<close>
  computes them from the class name.  A binary stream is the list of bytes still to be read.
\<close>

section \<open>Big-endian integers\<close>

primrec be_encode :: "nat \<Rightarrow> int \<Rightarrow> bytes" where
  "be_encode 0 x = []"
| "be_encode (Suc n) x = be_encode n (x div 256) @ [word_of_int x]"

definition be_decode :: "bytes \<Rightarrow> int" where
  "be_decode bs = foldl (\<lambda>acc b. acc * 256 + uint b) 0 bs"

text \<open>\<open>int.to_bytes(length, "big", signed)\<close> and \<open>int.from_bytes(blob, "big", signed)\<close>.\<close>

definition to_bytes :: "nat \<Rightarrow> bool \<Rightarrow> int \<Rightarrow> bytes res" where
  "to_bytes n sgd x =
     (if sgd
      then (if - (2 ^ (8 * n)) \<le> 2 * x \<and> 2 * x < 2 ^ (8 * n)
            then Inr (be_encode n (x mod 256 ^ n)) else Inl OverflowError)
      else (if 0 \<le> x \<and> x < 2 ^ (8 * n) then Inr (be_encode n x) else Inl OverflowError))"

definition from_bytes :: "bool \<Rightarrow> bytes \<Rightarrow> int" where
  "from_bytes sgd bs =
     (let v = be_decode bs in
      if sgd \<and> 2 ^ (8 * length bs) \<le> 2 * v then v - 2 ^ (8 * length bs) else v)"

lemma length_be_encode [simp]: "length (be_encode n x) = n"
  by (induction n arbitrary: x) simp_all

lemma be_decode_snoc [simp]: "be_decode (bs @ [b]) = be_decode bs * 256 + uint b"
  by (simp add: be_decode_def)

lemma be_decode_Nil [simp]: "be_decode [] = 0"
  by (simp add: be_decode_def)

lemma be_decode_bounds: "0 \<le> be_decode bs \<and> be_decode bs < 256 ^ length bs"
proof (induction bs rule: rev_induct)
  case Nil
  then show ?case by simp
next
  case (snoc b bs)
  have "uint b < 256" "0 \<le> uint b" using uint_lt2p [of b] by auto
  then show ?case using snoc by auto
qed

lemma be_decode_encode: "0 \<le> x \<Longrightarrow> x < 256 ^ n \<Longrightarrow> be_decode (be_encode n x) = x"
proof (induction n arbitrary: x)
  case 0
  then show ?case by simp
next
  case (Suc n)
  have "x div 256 < 256 ^ n" using Suc.prems by (simp add: div_less_iff_less_mult)
  moreover have "0 \<le> x div 256" using Suc.prems by simp
  ultimately have "be_decode (be_encode n (x div 256)) = x div 256" by (rule Suc.IH [rotated])
  moreover have "uint (word_of_int x :: byte) = x mod 256" by (simp add: uint_word_of_int)
  ultimately show ?case by simp
qed

lemma be_encode_decode: "be_encode (length bs) (be_decode bs) = bs"
proof (induction bs rule: rev_induct)
  case Nil
  then show ?case by simp
next
  case (snoc b bs)
  have b: "uint b < 256" "0 \<le> uint b" using uint_lt2p [of b] by auto
  have "(be_decode bs * 256 + uint b) div 256 = be_decode bs" using b by simp
  moreover have "word_of_int (be_decode bs * 256 + uint b) = b"
  proof (rule word_uint_eqI)
    have "uint (word_of_int (be_decode bs * 256 + uint b) :: byte) = (be_decode bs * 256 + uint b) mod 256"
      by (subst uint_word_of_int) simp
    then show "uint (word_of_int (be_decode bs * 256 + uint b) :: byte) = uint b" using b by simp
  qed
  ultimately show ?case using snoc by simp
qed

lemma pow_256: "(256 :: int) ^ n = 2 ^ (8 * n)"
  by (simp add: power_mult)

lemma from_to_bytes: "to_bytes n sgd x = Inr bs \<Longrightarrow> length bs = n \<and> from_bytes sgd bs = x"
proof -
  assume a: "to_bytes n sgd x = Inr bs"
  show ?thesis
  proof (cases sgd)
    case False
    with a show ?thesis
      by (auto simp: to_bytes_def from_bytes_def be_decode_encode pow_256 split: if_splits)
  next
    case True
    let ?m = "2 ^ (8 * n) :: int"
    from a True have r: "- ?m \<le> 2 * x" "2 * x < ?m" and bs: "bs = be_encode n (x mod ?m)"
      by (auto simp: to_bytes_def pow_256 split: if_splits)
    have m: "0 < ?m" by simp
    have d: "be_decode bs = x mod ?m"
      using bs m by (simp add: be_decode_encode pow_256)
    have "x mod ?m = (if 0 \<le> x then x else x + ?m)"
    proof (cases "0 \<le> x")
      case True
      then show ?thesis using r by simp
    next
      case False
      then have "(x + ?m) mod ?m = x + ?m" using r by (intro mod_pos_pos_trivial) auto
      then show ?thesis using False by simp
    qed
    then show ?thesis using d r True bs by (auto simp: from_bytes_def Let_def)
  qed
qed

lemma to_from_bytes: "to_bytes (length bs) sgd (from_bytes sgd bs) = Inr bs"
proof -
  let ?m = "2 ^ (8 * length bs) :: int"
  have b: "0 \<le> be_decode bs" "be_decode bs < ?m" using be_decode_bounds [of bs] by (auto simp: pow_256)
  have m: "(be_decode bs - ?m) mod ?m = be_decode bs" using b by simp
  show ?thesis
    using b m be_encode_decode [of bs] by (auto simp: to_bytes_def from_bytes_def Let_def pow_256)
qed

section \<open>StructStream classes\<close>

record int_class =
  SIZE :: nat
  BITS :: nat
  SIGNED :: bool
  MAXIMUM_EXCLUSIVE :: int
  MINIMUM :: int

text \<open>\<open>str.partition("int")\<close>: what comes before and after the first occurrence.\<close>

fun partition_int :: "string \<Rightarrow> string \<times> string" where
  "partition_int [] = ([], [])"
| "partition_int (c # s) =
     (if take 3 (c # s) = ''int'' then ([], drop 3 (c # s))
      else (let (a, b) = partition_int s in (c # a, b)))"

definition digit_val :: "char \<Rightarrow> nat" where
  "digit_val c = of_char c - 48"

definition is_digit :: "char \<Rightarrow> bool" where
  "is_digit c = (48 \<le> (of_char c :: nat) \<and> (of_char c :: nat) \<le> 57)"

text \<open>
  \<open>int(s)\<close> on a string of decimal digits.  Python also accepts signs, blanks and underscores; a
  class name with one of these fails the comparison with \<open>expected_name\<close>, which raises the same
  \<open>ValueError\<close>.
\<close>

definition int_of_str :: "string \<Rightarrow> nat res" where
  "int_of_str s = (if s \<noteq> [] \<and> list_all is_digit s
                   then Inr (foldl (\<lambda>n c. n * 10 + digit_val c) 0 s) else Inl ValueError)"

fun str_of_nat :: "nat \<Rightarrow> string" where
  "str_of_nat n = (if n < 10 then [char_of (n + 48)] else str_of_nat (n div 10) @ [char_of (n mod 10 + 48)])"

declare str_of_nat.simps [simp del]

definition parse_metadata_from_name :: "string \<Rightarrow> int_class res" where
  "parse_metadata_from_name name =
     (let (name_signedness, name_bit_size) = partition_int name;
          sgd = (name_signedness \<noteq> ''u'')
      in rbind (int_of_str name_bit_size) (\<lambda>bits.
           if bits = 0 then Inl ValueError
           else if name \<noteq> (if sgd then [] else ''u'') @ ''int'' @ str_of_nat bits then Inl ValueError
           else if bits mod 8 \<noteq> 0 then Inl ValueError
           else Inr \<lparr>SIZE = bits div 8, BITS = bits, SIGNED = sgd,
                     MAXIMUM_EXCLUSIVE = (if sgd then 2 ^ (bits - 1) else 2 ^ bits),
                     MINIMUM = (if sgd then - (2 ^ (bits - 1)) else 0)\<rparr>))"

text \<open>\<open>StructStream.__init__\<close>, \<open>from_bytes\<close>, \<open>parse\<close>, \<open>__bytes__\<close> and \<open>stream\<close>.\<close>

definition struct_init :: "int_class \<Rightarrow> int \<Rightarrow> int res" where
  "struct_init cls v = (if MINIMUM cls \<le> v \<and> v < MAXIMUM_EXCLUSIVE cls then Inr v else Inl ValueError)"

definition struct_from_bytes :: "int_class \<Rightarrow> bytes \<Rightarrow> int res" where
  "struct_from_bytes cls blob =
     (if length blob \<noteq> SIZE cls then Inl ValueError
      else struct_init cls (from_bytes (SIGNED cls) blob))"

definition struct_parse :: "int_class \<Rightarrow> bytes \<Rightarrow> (int \<times> bytes) res" where
  "struct_parse cls f =
     (let read_bytes = take (SIZE cls) f in
      rbind (struct_from_bytes cls read_bytes) (\<lambda>v. Inr (v, drop (SIZE cls) f)))"

definition struct_bytes :: "int_class \<Rightarrow> int \<Rightarrow> bytes res" where
  "struct_bytes cls v = to_bytes (SIZE cls) (SIGNED cls) v"

definition struct_stream :: "int_class \<Rightarrow> int \<Rightarrow> bytes \<Rightarrow> bytes res" where
  "struct_stream cls v out = rbind (struct_bytes cls v) (\<lambda>bs. Inr (out @ bs))"

text \<open>The classes of \<open>ints.py\<close>: those built by the decorator, and \<open>int512\<close> written out there.\<close>

abbreviation unsigned_class :: "nat \<Rightarrow> int_class" where
  "unsigned_class n \<equiv> \<lparr>SIZE = n, BITS = 8 * n, SIGNED = False, MAXIMUM_EXCLUSIVE = 2 ^ (8 * n), MINIMUM = 0\<rparr>"

abbreviation signed_class :: "nat \<Rightarrow> int_class" where
  "signed_class n \<equiv> \<lparr>SIZE = n, BITS = 8 * n, SIGNED = True,
                      MAXIMUM_EXCLUSIVE = 2 ^ (8 * n - 1), MINIMUM = - (2 ^ (8 * n - 1))\<rparr>"

definition int8_class :: int_class where "int8_class = signed_class 1"
definition uint8_class :: int_class where "uint8_class = unsigned_class 1"
definition int16_class :: int_class where "int16_class = signed_class 2"
definition uint16_class :: int_class where "uint16_class = unsigned_class 2"
definition int32_class :: int_class where "int32_class = signed_class 4"
definition uint32_class :: int_class where "uint32_class = unsigned_class 4"
definition int64_class :: int_class where "int64_class = signed_class 8"
definition uint64_class :: int_class where "uint64_class = unsigned_class 8"
definition uint128_class :: int_class where "uint128_class = unsigned_class 16"

definition int512_class :: int_class where
  "int512_class = \<lparr>SIZE = 65, BITS = 512, SIGNED = True,
                    MAXIMUM_EXCLUSIVE = 2 ^ 512, MINIMUM = - (2 ^ 512) + 1\<rparr>"

definition uint8 :: "int \<Rightarrow> int res" where "uint8 = struct_init uint8_class"
definition uint16 :: "int \<Rightarrow> int res" where "uint16 = struct_init uint16_class"
definition uint32 :: "int \<Rightarrow> int res" where "uint32 = struct_init uint32_class"
definition uint64 :: "int \<Rightarrow> int res" where "uint64 = struct_init uint64_class"
definition uint128 :: "int \<Rightarrow> int res" where "uint128 = struct_init uint128_class"

lemmas int_class_defs = int8_class_def uint8_class_def int16_class_def uint16_class_def
  int32_class_def uint32_class_def int64_class_def uint64_class_def uint128_class_def int512_class_def

lemma uint_simps:
  "uint8 v = (if 0 \<le> v \<and> v < 2 ^ 8 then Inr v else Inl ValueError)"
  "uint16 v = (if 0 \<le> v \<and> v < 2 ^ 16 then Inr v else Inl ValueError)"
  "uint32 v = (if 0 \<le> v \<and> v < 2 ^ 32 then Inr v else Inl ValueError)"
  "uint64 v = (if 0 \<le> v \<and> v < 2 ^ 64 then Inr v else Inl ValueError)"
  "uint128 v = (if 0 \<le> v \<and> v < 2 ^ 128 then Inr v else Inl ValueError)"
  by (simp_all add: uint8_def uint16_def uint32_def uint64_def uint128_def struct_init_def int_class_defs)

lemma uint_in_range [simp]:
  "0 \<le> x \<Longrightarrow> x < 2 ^ 8 \<Longrightarrow> uint8 x = Inr x"
  "0 \<le> x \<Longrightarrow> x < 2 ^ 32 \<Longrightarrow> uint32 x = Inr x"
  "0 \<le> x \<Longrightarrow> x < 2 ^ 64 \<Longrightarrow> uint64 x = Inr x"
  "0 \<le> x \<Longrightarrow> x < 2 ^ 128 \<Longrightarrow> uint128 x = Inr x"
  by (simp_all add: uint_simps)

lemma uint_eq_Inr [simp]:
  "uint8 v = Inr w \<longleftrightarrow> w = v \<and> 0 \<le> v \<and> v < 2 ^ 8"
  "uint16 v = Inr w \<longleftrightarrow> w = v \<and> 0 \<le> v \<and> v < 2 ^ 16"
  "uint32 v = Inr w \<longleftrightarrow> w = v \<and> 0 \<le> v \<and> v < 2 ^ 32"
  "uint64 v = Inr w \<longleftrightarrow> w = v \<and> 0 \<le> v \<and> v < 2 ^ 64"
  "uint128 v = Inr w \<longleftrightarrow> w = v \<and> 0 \<le> v \<and> v < 2 ^ 128"
  by (auto simp: uint_simps)

section \<open>SizedBytes classes\<close>

text \<open>\<open>SizedBytes.__init__\<close>, \<open>parse\<close> and \<open>stream\<close>, for the class whose \<open>_size\<close> is \<open>n\<close>.\<close>

definition sized_init :: "nat \<Rightarrow> bytes \<Rightarrow> bytes res" where
  "sized_init n v = (if length v \<noteq> n then Inl ValueError else Inr v)"

definition sized_parse :: "nat \<Rightarrow> bytes \<Rightarrow> (bytes \<times> bytes) res" where
  "sized_parse n f = rbind (sized_init n (take n f)) (\<lambda>b. Inr (b, drop n f))"

definition sized_stream :: "bytes \<Rightarrow> bytes \<Rightarrow> bytes" where
  "sized_stream v out = out @ v"

abbreviation bytes32 :: "bytes \<Rightarrow> bytes res" where "bytes32 \<equiv> sized_init 32"
abbreviation bytes48 :: "bytes \<Rightarrow> bytes res" where "bytes48 \<equiv> sized_init 48"

section \<open>Codecs\<close>

text \<open>
  What a streamable field promises: a value in its domain is written to bytes from which, whatever
  follows, the value is read back, and whatever is read was written by the encoder.
\<close>

locale codec =
  fixes dom_ok :: "'a \<Rightarrow> bool"
    and enc :: "'a \<Rightarrow> bytes res"
    and dec :: "bytes \<Rightarrow> ('a \<times> bytes) res"
  assumes enc_total: "dom_ok v \<Longrightarrow> \<exists>bs. enc v = Inr bs"
    and dec_enc: "dom_ok v \<Longrightarrow> enc v = Inr bs \<Longrightarrow> dec (bs @ rest) = Inr (v, rest)"
    and enc_dec: "dec f = Inr (v, rest) \<Longrightarrow> dom_ok v \<and> (\<exists>bs. enc v = Inr bs \<and> f = bs @ rest)"
begin

lemma enc_inj:
  assumes v: "dom_ok v" and w: "dom_ok w" and eq: "enc v = enc w"
  shows "v = w"
proof -
  obtain bs where bs: "enc v = Inr bs" using enc_total [OF v] by blast
  have "dec (bs @ []) = Inr (v, [])" using v bs by (rule dec_enc)
  moreover have "dec (bs @ []) = Inr (w, [])" using w bs eq by (intro dec_enc) simp_all
  ultimately show ?thesis by simp
qed

lemma enc_prefix_free:
  assumes "dom_ok v" "dom_ok w" "enc v = Inr bs" "enc w = Inr (bs @ bs')"
  shows "v = w \<and> bs' = []"
  using dec_enc [OF assms(1,3), of bs'] dec_enc [OF assms(2,4), of "[]"] by simp

end

locale fixed_int =
  fixes cls :: int_class
  assumes range_fits:
    "MINIMUM cls \<le> v \<Longrightarrow> v < MAXIMUM_EXCLUSIVE cls \<Longrightarrow>
       (if SIGNED cls then - (2 ^ (8 * SIZE cls)) \<le> 2 * v \<and> 2 * v < 2 ^ (8 * SIZE cls)
        else 0 \<le> v \<and> v < 2 ^ (8 * SIZE cls))"
begin

abbreviation in_range :: "int \<Rightarrow> bool" where
  "in_range v \<equiv> MINIMUM cls \<le> v \<and> v < MAXIMUM_EXCLUSIVE cls"

lemma struct_bytes_total: "in_range v \<Longrightarrow> \<exists>bs. struct_bytes cls v = Inr bs"
  using range_fits [of v] by (auto simp: struct_bytes_def to_bytes_def split: if_splits)

lemma struct_parse_bytes:
  assumes "in_range v" and "struct_bytes cls v = Inr bs"
  shows "struct_parse cls (bs @ rest) = Inr (v, rest)"
  using assms from_to_bytes [of "SIZE cls" "SIGNED cls" v bs]
  by (auto simp: struct_bytes_def struct_parse_def struct_from_bytes_def struct_init_def)

lemma struct_from_bytes_bytes:
  "in_range v \<Longrightarrow> struct_bytes cls v = Inr bs \<Longrightarrow> struct_from_bytes cls bs = Inr v"
  using from_to_bytes [of "SIZE cls" "SIGNED cls" v bs]
  by (auto simp: struct_bytes_def struct_from_bytes_def struct_init_def)

lemma struct_bytes_parse:
  assumes "struct_parse cls f = Inr (v, rest)"
  shows "in_range v \<and> (\<exists>bs. struct_bytes cls v = Inr bs \<and> f = bs @ rest)"
proof -
  let ?b = "take (SIZE cls) f"
  from assms have len: "length ?b = SIZE cls" and v: "v = from_bytes (SIGNED cls) ?b"
    and r: "in_range v" and rest: "rest = drop (SIZE cls) f"
    by (auto simp: struct_parse_def struct_from_bytes_def struct_init_def rbind_eq_Inr
        split: if_splits)
  have "struct_bytes cls v = Inr ?b"
    using to_from_bytes [of ?b "SIGNED cls"] len v by (simp add: struct_bytes_def)
  then show ?thesis using r rest by auto
qed

sublocale codec in_range "struct_bytes cls" "struct_parse cls"
  using struct_bytes_total struct_parse_bytes struct_bytes_parse by unfold_locales blast+

end

interpretation int8: fixed_int int8_class by unfold_locales (auto simp: int8_class_def)
interpretation uint8: fixed_int uint8_class by unfold_locales (auto simp: uint8_class_def)
interpretation int16: fixed_int int16_class by unfold_locales (auto simp: int16_class_def)
interpretation uint16: fixed_int uint16_class by unfold_locales (auto simp: uint16_class_def)
interpretation int32: fixed_int int32_class by unfold_locales (auto simp: int32_class_def)
interpretation uint32: fixed_int uint32_class by unfold_locales (auto simp: uint32_class_def)
interpretation int64: fixed_int int64_class by unfold_locales (auto simp: int64_class_def)
interpretation uint64: fixed_int uint64_class by unfold_locales (auto simp: uint64_class_def)
interpretation uint128: fixed_int uint128_class by unfold_locales (auto simp: uint128_class_def)
interpretation int512: fixed_int int512_class by unfold_locales (auto simp: int512_class_def)

lemma sized_parse_iff: "sized_parse n f = Inr (v, rest) \<longleftrightarrow> length v = n \<and> f = v @ rest"
  by (auto simp: sized_parse_def sized_init_def rbind_eq_Inr)

interpretation sized: codec "\<lambda>v. length v = n" "\<lambda>v. Inr (sized_stream v [])" "sized_parse n" for n
  by unfold_locales (auto simp: sized_parse_iff sized_stream_def)

end
