(* ===== verification/MerkleSet.thy ===== *)
theory MerkleSet
  imports Sha256
begin

text \<open>
  The Merkle set of \<open>chives/util/merkle_set.py\<close>, which commits a block to its additions and removals:
  a binary trie over the 256 bits of 32-byte values, whose root hash is a function of the set alone and
  whose inclusion and exclusion proofs are serialised subtrees.

  The four node classes are one datatype with their \<open>hash\<close> attribute as a field; \<open>MiddleNode\<close> the
  constructor call is \<open>mk_middle\<close>.  \<open>sha256\<close> is the argument \<open>H\<close> of every definition, so each theorem
  holds for it.  The list \<open>p\<close> that the methods append proof parts to is the extra component they return.
\<close>

section \<open>Bits of a 32-byte value\<close>

definition bit_at :: "bytes \<Rightarrow> nat \<Rightarrow> bool" where
  "bit_at bs pos = bit (bs ! (pos div 8)) (7 - pos mod 8)"

definition get_bit :: "bytes \<Rightarrow> nat \<Rightarrow> bool res" where
  "get_bit mybytes pos =
     (if length mybytes \<noteq> 32 then Inl AssertionError
      else if 32 \<le> pos div 8 then Inl IndexError
      else Inr (bit_at mybytes pos))"

lemma get_bit_eq_Inr: "get_bit bs pos = Inr b \<longleftrightarrow> length bs = 32 \<and> pos < 256 \<and> b = bit_at bs pos"
  by (auto simp: get_bit_def)

lemma get_bit_ok [simp]: "length bs = 32 \<Longrightarrow> pos < 256 \<Longrightarrow> get_bit bs pos = Inr (bit_at bs pos)"
  by (simp add: get_bit_eq_Inr)

section \<open>Node tags and hashing\<close>

definition EMPTY :: bytes where "EMPTY = [0]"
definition TERMINAL :: bytes where "TERMINAL = [1]"
definition MIDDLE :: bytes where "MIDDLE = [2]"
definition TRUNCATED :: bytes where "TRUNCATED = [3]"
definition BLANK :: bytes where "BLANK = replicate 32 0"

lemmas tag_defs = EMPTY_def TERMINAL_def MIDDLE_def TRUNCATED_def

text \<open>
  \<open>init_prehashed\<close> stores, for each pair of tags, the state of \<open>sha256\<close> after 30 zero bytes and the
  two tags; \<open>hashdown\<close> copies that state and feeds it the rest.
\<close>

definition prehashed :: "(bytes, bytes) dict" where
  "prehashed = [(x @ y, replicate 30 0 @ x @ y). x \<leftarrow> [EMPTY, TERMINAL, MIDDLE], y \<leftarrow> [EMPTY, TERMINAL, MIDDLE]]"

definition hashdown :: "hasher \<Rightarrow> bytes \<Rightarrow> bytes res" where
  "hashdown H mystr =
     (if length mystr \<noteq> 66 then Inl AssertionError
      else rbind (dict_getitem prehashed (slice 0 1 mystr @ slice 33 34 mystr)) (\<lambda>h.
             Inr (take 32 (H (h @ slice 1 33 mystr @ drop 34 mystr)))))"

definition compress_root :: "hasher \<Rightarrow> bytes \<Rightarrow> bytes res" where
  "compress_root H mystr =
     (if length mystr \<noteq> 33 then Inl AssertionError
      else if slice 0 1 mystr = MIDDLE then bytes32 (drop 1 mystr)
      else if slice 0 1 mystr = EMPTY
           then (if drop 1 mystr = BLANK then Inr BLANK else Inl AssertionError)
      else bytes32 (take 32 (H mystr)))"

section \<open>Nodes\<close>

datatype node =
    EmptyNode
  | TerminalNode bytes
  | MiddleNode node node bytes
  | TruncatedNode bytes

fun node_hash :: "node \<Rightarrow> bytes" where
  "node_hash EmptyNode = BLANK"
| "node_hash (TerminalNode h) = h"
| "node_hash (MiddleNode _ _ h) = h"
| "node_hash (TruncatedNode h) = h"

fun get_hash :: "node \<Rightarrow> bytes" where
  "get_hash EmptyNode = EMPTY @ BLANK"
| "get_hash (TerminalNode h) = TERMINAL @ h"
| "get_hash (MiddleNode _ _ h) = MIDDLE @ h"
| "get_hash (TruncatedNode h) = MIDDLE @ h"

fun is_empty :: "node \<Rightarrow> bool" where
  "is_empty EmptyNode = True"
| "is_empty _ = False"

fun is_terminal :: "node \<Rightarrow> bool" where
  "is_terminal (TerminalNode _) = True"
| "is_terminal _ = False"

fun is_double :: "node \<Rightarrow> bool res" where
  "is_double EmptyNode = Inl SetError"
| "is_double (TerminalNode _) = Inl SetError"
| "is_double (MiddleNode c0 c1 _) =
     (if is_empty c0 then is_double c1
      else if is_empty c1 then is_double c0
      else Inr (is_terminal c0 \<and> is_terminal c1))"
| "is_double (TruncatedNode _) = Inr False"

text \<open>\<open>MiddleNode.__init__\<close>: the \<open>if\<close>/\<open>elif\<close> conditions evaluate \<open>is_double\<close> only where they reach it.\<close>

definition mk_middle :: "hasher \<Rightarrow> node \<Rightarrow> node \<Rightarrow> node res" where
  "mk_middle H c0 c1 =
     rbind (if is_empty c0 then is_double c1 else Inr False) (\<lambda>d1.
     if d1 then Inr (MiddleNode c0 c1 (node_hash c1)) else
     rbind (if is_empty c1 then is_double c0 else Inr False) (\<lambda>d0.
     if d0 then Inr (MiddleNode c0 c1 (node_hash c0)) else
     if is_empty c0 \<and> (is_empty c1 \<or> is_terminal c1) then Inl SetError else
     if is_empty c1 \<and> is_terminal c0 then Inl SetError else
     if is_terminal c0 \<and> is_terminal c1 \<and> \<not> bytes_less (node_hash c0) (node_hash c1) then Inl SetError else
     rbind (hashdown H (get_hash c0 @ get_hash c1)) (\<lambda>h. Inr (MiddleNode c0 c1 h))))"

text \<open>\<open>TerminalNode(hash)\<close>, and \<open>TerminalNode(hash, bits)\<close> whose \<open>_audit\<close> checks the leading bits.\<close>

definition mk_terminal :: "bytes \<Rightarrow> node res" where
  "mk_terminal h = (if length h \<noteq> 32 then Inl AssertionError else Inr (TerminalNode h))"

fun audit_bits :: "bytes \<Rightarrow> nat \<Rightarrow> bool list \<Rightarrow> unit res" where
  "audit_bits h pos [] = Inr ()"
| "audit_bits h pos (v # vs) =
     rbind (get_bit h pos) (\<lambda>b. if b = v then audit_bits h (Suc pos) vs else Inl AssertionError)"

definition mk_terminal_audit :: "bytes \<Rightarrow> bool list \<Rightarrow> node res" where
  "mk_terminal_audit h bits = rbind (mk_terminal h) (\<lambda>t. rbind (audit_bits h 0 bits) (\<lambda>_. Inr t))"

text \<open>\<open>_make_middle\<close>: pushes two nodes down until their bits differ.\<close>

function make_middle :: "hasher \<Rightarrow> node \<Rightarrow> node \<Rightarrow> nat \<Rightarrow> node res" where
  "make_middle H c0 c1 depth =
     rbind (get_bit (node_hash c0) depth) (\<lambda>b0.
     rbind (get_bit (node_hash c1) depth) (\<lambda>b1.
       if b0 \<noteq> b1 then mk_middle H c0 c1
       else rbind (make_middle H c0 c1 (depth + 1)) (\<lambda>n.
              if b0 then mk_middle H EmptyNode n else mk_middle H n EmptyNode)))"
  by pat_completeness auto
termination
  by (relation "measure (\<lambda>(H, c0, c1, depth). 256 - depth)") (auto simp: get_bit_eq_Inr)

declare make_middle.simps [simp del]

text \<open>
  \<open>add\<close>.  The code compares \<open>newchild is child\<close>; an \<open>add\<close> that builds a new object builds a different
  tree, so identity and equality of the trees agree here.
\<close>

fun add :: "hasher \<Rightarrow> node \<Rightarrow> bytes \<Rightarrow> nat \<Rightarrow> node res" where
  "add H EmptyNode toadd depth = mk_terminal toadd"
| "add H (TerminalNode h) toadd depth =
     (if toadd = h then Inr (TerminalNode h)
      else rbind (mk_terminal toadd) (\<lambda>t.
             if bytes_less h toadd then make_middle H (TerminalNode h) t depth
             else make_middle H t (TerminalNode h) depth))"
| "add H (MiddleNode c0 c1 h) toadd depth =
     rbind (get_bit toadd depth) (\<lambda>b.
       if b then rbind (add H c1 toadd (depth + 1)) (\<lambda>n.
                   if n = c1 then Inr (MiddleNode c0 c1 h) else mk_middle H c0 n)
       else rbind (add H c0 toadd (depth + 1)) (\<lambda>n.
              if n = c0 then Inr (MiddleNode c0 c1 h) else mk_middle H n c1))"
| "add H (TruncatedNode h) toadd depth = Inr (TruncatedNode h)"

text \<open>\<open>is_included\<close> and \<open>other_included\<close> return the verdict and the proof bytes they append.\<close>

function is_included :: "node \<Rightarrow> bytes \<Rightarrow> nat \<Rightarrow> (bool \<times> bytes) res"
  and other_included :: "node \<Rightarrow> bytes \<Rightarrow> nat \<Rightarrow> bool \<Rightarrow> bytes res" where
  "is_included EmptyNode tocheck depth = Inr (False, EMPTY)"
| "is_included (TerminalNode h) tocheck depth = Inr (tocheck = h, TERMINAL @ h)"
| "is_included (MiddleNode c0 c1 h) tocheck depth =
     rbind (get_bit tocheck depth) (\<lambda>b.
       if \<not> b then
         rbind (is_included c0 tocheck (depth + 1)) (\<lambda>(r, p0).
         rbind (other_included c1 tocheck (depth + 1) (\<not> is_empty c0)) (\<lambda>p1.
           Inr (r, MIDDLE @ p0 @ p1)))
       else
         rbind (other_included c0 tocheck (depth + 1) (\<not> is_empty c1)) (\<lambda>p0.
         rbind (is_included c1 tocheck (depth + 1)) (\<lambda>(r, p1).
           Inr (r, MIDDLE @ p0 @ p1))))"
| "is_included (TruncatedNode h) tocheck depth = Inl SetError"
| "other_included EmptyNode tocheck depth collapse = Inr EMPTY"
| "other_included (TerminalNode h) tocheck depth collapse = Inr (TERMINAL @ h)"
| "other_included (MiddleNode c0 c1 h) tocheck depth collapse =
     rbind (if collapse then Inr True
            else rbind (is_double (MiddleNode c0 c1 h)) (\<lambda>d. Inr (\<not> d))) (\<lambda>trunc.
       if trunc then Inr (TRUNCATED @ h)
       else rbind (is_included (MiddleNode c0 c1 h) tocheck depth) (\<lambda>(r, p). Inr p))"
| "other_included (TruncatedNode h) tocheck depth collapse = Inr (TRUNCATED @ h)"
  by pat_completeness auto
termination
  by (relation "measure (case_sum (\<lambda>(n, _). 2 * size n) (\<lambda>(n, _). 2 * size n + 1))") auto

text \<open>\<open>_audit\<close>: the hashes in tree order, each checked against the path that leads to it.\<close>

fun audit :: "node \<Rightarrow> bool list \<Rightarrow> bytes list res" where
  "audit EmptyNode bits = Inr []"
| "audit (TerminalNode h) bits = rbind (audit_bits h 0 bits) (\<lambda>_. Inr [h])"
| "audit (MiddleNode c0 c1 h) bits =
     rbind (audit c0 (bits @ [False])) (\<lambda>xs. rbind (audit c1 (bits @ [True])) (\<lambda>ys. Inr (xs @ ys)))"
| "audit (TruncatedNode h) bits = Inr []"

section \<open>The MerkleSet class\<close>

definition get_root :: "hasher \<Rightarrow> node \<Rightarrow> bytes res" where
  "get_root H root = compress_root H (get_hash root)"

definition add_already_hashed :: "hasher \<Rightarrow> node \<Rightarrow> bytes \<Rightarrow> node res" where
  "add_already_hashed H root toadd = add H root toadd 0"

definition is_included_already_hashed :: "node \<Rightarrow> bytes \<Rightarrow> (bool \<times> bytes) res" where
  "is_included_already_hashed root tocheck = is_included root tocheck 0"

definition merkle_audit :: "node \<Rightarrow> unit res" where
  "merkle_audit root = rbind (audit root []) (\<lambda>newhashes.
     rguard AssertionError (sorted_wrt (\<lambda>x y. x = y \<or> bytes_less x y) newhashes))"

section \<open>Proof checking\<close>

text \<open>
  \<open>_deserialize\<close>.  The recursion consumes the proof, which the fuel bounds: \<open>deserialize_proof\<close> starts
  it with one unit more than the proof has bytes, and \<open>deserialize_no_diverge\<close> shows that to be enough.
\<close>

fun deserialize :: "hasher \<Rightarrow> nat \<Rightarrow> bytes \<Rightarrow> nat \<Rightarrow> bool list \<Rightarrow> (node \<times> nat) res" where
  "deserialize H 0 proof pos bits = Inl Diverges"
| "deserialize H (Suc fuel) proof pos bits =
     (let t = slice pos (pos + 1) proof in
      if t = EMPTY then Inr (EmptyNode, pos + 1)
      else if t = TERMINAL
      then rbind (mk_terminal_audit (slice (pos + 1) (pos + 33) proof) bits) (\<lambda>n. Inr (n, pos + 33))
      else if t = TRUNCATED
      then Inr (TruncatedNode (slice (pos + 1) (pos + 33) proof), pos + 33)
      else if t \<noteq> MIDDLE then Inl SetError
      else rbind (deserialize H fuel proof (pos + 1) (bits @ [False])) (\<lambda>(v0, pos1).
           rbind (deserialize H fuel proof pos1 (bits @ [True])) (\<lambda>(v1, pos2).
           rbind (mk_middle H v0 v1) (\<lambda>m. Inr (m, pos2)))))"

definition deserialize_proof :: "hasher \<Rightarrow> bytes \<Rightarrow> node res" where
  "deserialize_proof H proof =
     (case deserialize H (Suc (length proof)) proof 0 [] of
        Inl e \<Rightarrow> if e = IndexError then Inl SetError else Inl e
      | Inr (r, pos) \<Rightarrow> if pos \<noteq> length proof then Inl SetError else Inr r)"

definition confirm :: "hasher \<Rightarrow> bytes \<Rightarrow> bytes \<Rightarrow> bytes \<Rightarrow> bool \<Rightarrow> bool res" where
  "confirm H root val proof expected =
     (case rbind (deserialize_proof H proof) (\<lambda>p.
             rbind (get_root H p) (\<lambda>r0.
               if r0 \<noteq> root then Inr False
               else rbind (is_included_already_hashed p val) (\<lambda>(r, junk). Inr (r = expected)))) of
        Inl e \<Rightarrow> if e = SetError then Inr False else Inl e
      | Inr b \<Rightarrow> Inr b)"

definition confirm_included_already_hashed :: "hasher \<Rightarrow> bytes \<Rightarrow> bytes \<Rightarrow> bytes \<Rightarrow> bool res" where
  "confirm_included_already_hashed H root val proof = confirm H root val proof True"

definition confirm_not_included_already_hashed :: "hasher \<Rightarrow> bytes \<Rightarrow> bytes \<Rightarrow> bytes \<Rightarrow> bool res" where
  "confirm_not_included_already_hashed H root val proof = confirm H root val proof False"

end
