(* ===== verification/MerkleSetCorrect.thy ===== *)
theory MerkleSetCorrect
  imports MerkleSet
begin

text \<open>
  Correctness of the Merkle set: the order of values is the order of their bits, insertion implements
  set insertion on well-formed trees, a well-formed tree is determined by its set of values, and proofs
  are complete and sound.
\<close>

section \<open>Order of values and order of bits\<close>

lemma byte_less_by_bit:
  fixes a b :: byte
  assumes i: "i < 8" and same: "\<And>j. j < i \<Longrightarrow> bit a (7 - j) = bit b (7 - j)"
    and a: "\<not> bit a (7 - i)" and b: "bit b (7 - i)"
  shows "a < b"
proof -
  let ?k = "7 - i"
  have high: "bit a (Suc ?k + n) = bit b (Suc ?k + n)" for n
  proof (cases "Suc ?k + n < 8")
    case True
    then have "7 - (7 - (Suc ?k + n)) = Suc ?k + n" "7 - (Suc ?k + n) < i" using i by auto
    then show ?thesis using same [of "7 - (Suc ?k + n)"] by simp
  next
    case False
    then show ?thesis using bit_imp_le_length [of a "Suc ?k + n"] bit_imp_le_length [of b "Suc ?k + n"] by auto
  qed
  have same_high: "drop_bit (Suc ?k) (uint a) = drop_bit (Suc ?k) (uint b)"
    by (rule bit_eqI) (use high in \<open>auto simp: bit_drop_bit_eq bit_uint_iff\<close>)
  have parts: "uint w = push_bit (Suc ?k) (drop_bit (Suc ?k) (uint w)) + take_bit (Suc ?k) (uint w)" for w :: byte
    by (simp only: bits_ident)
  have "take_bit (Suc ?k) (uint a) < 2 ^ ?k"
    using a i by (simp add: take_bit_Suc_from_most bit_uint_iff)
  moreover have "2 ^ ?k \<le> take_bit (Suc ?k) (uint b)"
    using b i by (simp add: take_bit_Suc_from_most bit_uint_iff)
  ultimately have "uint a < uint b"
    using parts [of a] parts [of b] unfolding same_high by linarith
  then show ?thesis by (simp add: word_less_def)
qed

lemma byte_eq_by_bits: "(\<And>j. j < 8 \<Longrightarrow> bit a (7 - j) = bit b (7 - j)) \<Longrightarrow> (a :: byte) = b"
proof (rule bit_word_eqI)
  fix n
  assume h: "\<And>j. j < 8 \<Longrightarrow> bit a (7 - j) = bit b (7 - j)" and "n < LENGTH(8)"
  then show "bit a n = bit b n" using h [of "7 - n"] by simp
qed

lemma bit_at_byte: "j < 8 \<Longrightarrow> bit_at bs (8 * k + j) = bit (bs ! k) (7 - j)"
  by (simp add: bit_at_def)

lemma nth_eq_by_bits: "(\<And>j. j < 8 \<Longrightarrow> bit_at a (8 * k + j) = bit_at b (8 * k + j)) \<Longrightarrow> a ! k = b ! k"
  by (rule byte_eq_by_bits) (simp add: bit_at_byte)

lemma eq_by_bits:
  assumes "length a = 32" "length b = 32" and "\<And>i. i < 256 \<Longrightarrow> bit_at a i = bit_at b i"
  shows "a = b"
  by (rule nth_equalityI) (use assms in \<open>auto intro!: nth_eq_by_bits\<close>)

lemma less_by_bit:
  assumes len: "length a = 32" "length b = 32" and d: "d < 256"
    and same: "\<And>i. i < d \<Longrightarrow> bit_at a i = bit_at b i"
    and "\<not> bit_at a d" "bit_at b d"
  shows "bytes_less a b"
proof -
  let ?k = "d div 8"
  have k: "?k < 32" using d by simp
  have "take ?k a = take ?k b"
    by (rule nth_equalityI) (use len k in \<open>auto intro!: nth_eq_by_bits same\<close>)
  moreover have "a ! ?k < b ! ?k"
  proof (rule byte_less_by_bit [of "d mod 8"])
    fix j assume j: "j < d mod 8"
    then have "8 * ?k + j < d" by (metis add_less_cancel_left mult_div_mod_eq)
    then show "bit (a ! ?k) (7 - j) = bit (b ! ?k) (7 - j)"
      using same [of "8 * ?k + j"] j by (simp add: bit_at_byte)
  qed (use assms in \<open>simp_all add: bit_at_def\<close>)
  moreover have "a = take ?k a @ a ! ?k # drop (Suc ?k) a" "b = take ?k b @ b ! ?k # drop (Suc ?k) b"
    using len k by (simp_all add: id_take_nth_drop [symmetric])
  ultimately show ?thesis
    using bytes_less_append [of "take ?k a" "take ?k b"] len by (metis bytes_less.simps(3) length_take)
qed

section \<open>Paths\<close>

definition matches :: "bool list \<Rightarrow> bytes \<Rightarrow> bool" where
  "matches pre x \<longleftrightarrow> length x = 32 \<and> length pre \<le> 256 \<and> (\<forall>i < length pre. bit_at x i = pre ! i)"

lemma matches_Nil [simp]: "matches [] x \<longleftrightarrow> length x = 32"
  by (simp add: matches_def)

lemma matches_snoc:
  "matches (pre @ [b]) x \<longleftrightarrow> matches pre x \<and> length pre < 256 \<and> bit_at x (length pre) = b"
  by (auto simp: matches_def nth_append less_Suc_eq)

lemma matches_length: "matches pre x \<Longrightarrow> length x = 32"
  by (simp add: matches_def)

lemma matches_bit: "matches pre x \<Longrightarrow> i < length pre \<Longrightarrow> bit_at x i = pre ! i"
  by (simp add: matches_def)

lemma matches_full: "matches pre x \<Longrightarrow> matches pre y \<Longrightarrow> length pre = 256 \<Longrightarrow> x = y"
  by (rule eq_by_bits) (auto simp: matches_def)

lemma matches_lt:
  assumes "matches pre x" "matches pre y" "x \<noteq> y"
  shows "length pre < 256"
proof (rule ccontr)
  assume "\<not> ?thesis"
  then have "length pre = 256" using assms(1) by (auto simp: matches_def)
  then show False using matches_full assms by blast
qed

lemma matches_agree: "matches pre x \<Longrightarrow> matches pre y \<Longrightarrow> i < length pre \<Longrightarrow> bit_at x i = bit_at y i"
  by (simp add: matches_def)

lemma matches_less:
  assumes "matches (pre @ [False]) x" "matches (pre @ [True]) y"
  shows "bytes_less x y"
proof (rule less_by_bit [of _ _ "length pre"])
  show "bit_at x i = bit_at y i" if "i < length pre" for i
    using assms that matches_agree [of pre x y i] by (simp add: matches_snoc)
qed (use assms in \<open>auto simp: matches_snoc matches_length\<close>)

lemma matches_less_iff:
  assumes "matches pre x" "matches pre y" "bit_at x (length pre) \<noteq> bit_at y (length pre)" "length pre < 256"
  shows "bytes_less x y \<longleftrightarrow> bit_at y (length pre)"
  using matches_less [of pre x y] matches_less [of pre y x] assms bytes_less_asym
  by (auto simp: matches_snoc)

lemma audit_bits_ok:
  "length h = 32 \<Longrightarrow>
   audit_bits h pos bits = Inr () \<longleftrightarrow> (\<forall>i < length bits. pos + i < 256 \<and> bit_at h (pos + i) = bits ! i)"
proof (induction bits arbitrary: pos)
  case Nil
  then show ?case by simp
next
  case (Cons v vs)
  then show ?case
    by (cases "pos < 256") (auto simp: All_less_Suc2 get_bit_def)
qed

lemma audit_matches:
  assumes "length h = 32" "length bits \<le> 256"
  shows "audit_bits h 0 bits = Inr () \<longleftrightarrow> matches bits h"
  using assms by (auto simp: audit_bits_ok matches_def)

section \<open>Well-formed trees\<close>

text \<open>The values a tree holds.\<close>

fun elems :: "node \<Rightarrow> bytes set" where
  "elems EmptyNode = {}"
| "elems (TerminalNode h) = {h}"
| "elems (MiddleNode c0 c1 _) = elems c0 \<union> elems c1"
| "elems (TruncatedNode _) = {}"

text \<open>
  A complete tree below the path \<open>pre\<close>: every terminal lies where its bits lead, every middle node is
  what the constructor builds from its children, and nothing is truncated.
\<close>

fun wf_node :: "hasher \<Rightarrow> bool list \<Rightarrow> node \<Rightarrow> bool" where
  "wf_node H pre EmptyNode = True"
| "wf_node H pre (TerminalNode h) = matches pre h"
| "wf_node H pre (MiddleNode c0 c1 h) =
     (wf_node H (pre @ [False]) c0 \<and> wf_node H (pre @ [True]) c1 \<and> mk_middle H c0 c1 = Inr (MiddleNode c0 c1 h))"
| "wf_node H pre (TruncatedNode h) = False"

text \<open>
  The shapes the constructor accepts: a middle node with an empty child has a middle node as the other
  child, so it always holds at least two values.
\<close>

definition good_children :: "node \<Rightarrow> node \<Rightarrow> bool" where
  "good_children c0 c1 \<longleftrightarrow>
     \<not> (is_empty c0 \<and> (is_empty c1 \<or> is_terminal c1)) \<and> \<not> (is_empty c1 \<and> is_terminal c0) \<and>
     (is_terminal c0 \<and> is_terminal c1 \<longrightarrow> bytes_less (node_hash c0) (node_hash c1))"

text \<open>A double is exactly two terminals, however deep below empty siblings.\<close>

fun doubled :: "node \<Rightarrow> bool" where
  "doubled (MiddleNode c0 c1 _) =
     (if is_empty c0 then doubled c1 else if is_empty c1 then doubled c0 else is_terminal c0 \<and> is_terminal c1)"
| "doubled _ = False"

text \<open>The string that is hashed for a middle node, and the digest the constructor stores.\<close>

definition preimage :: "node \<Rightarrow> node \<Rightarrow> bytes" where
  "preimage c0 c1 = replicate 30 0 @ [hd (get_hash c0), hd (get_hash c1)] @ tl (get_hash c0) @ tl (get_hash c1)"

definition middle_hash :: "hasher \<Rightarrow> node \<Rightarrow> node \<Rightarrow> bytes" where
  "middle_hash H c0 c1 =
     (if is_empty c0 \<and> doubled c1 then node_hash c1
      else if is_empty c1 \<and> doubled c0 then node_hash c0
      else H (preimage c0 c1))"

text \<open>The strings whose digests a tree is made of: those below collapsed chains of doubles included.\<close>

fun hashed :: "node \<Rightarrow> bytes set" where
  "hashed (MiddleNode c0 c1 _) =
     (if is_empty c0 \<and> doubled c1 \<or> is_empty c1 \<and> doubled c0 then {} else {preimage c0 c1}) \<union> hashed c0 \<union> hashed c1"
| "hashed _ = {}"

definition hashed_root :: "node \<Rightarrow> bytes set" where
  "hashed_root t = hashed t \<union> (case t of TerminalNode h \<Rightarrow> {TERMINAL @ h} | _ \<Rightarrow> {})"

text \<open>Every middle node below was built by the constructor, so \<open>is_double\<close> can be asked of it.\<close>

fun built :: "hasher \<Rightarrow> node \<Rightarrow> bool" where
  "built H EmptyNode = True"
| "built H (TerminalNode h) = (length h = 32)"
| "built H (MiddleNode c0 c1 h) = (built H c0 \<and> built H c1 \<and> mk_middle H c0 c1 = Inr (MiddleNode c0 c1 h))"
| "built H (TruncatedNode h) = True"

lemma wf_node_built: "wf_node H pre t \<Longrightarrow> built H t"
  by (induction H pre t rule: wf_node.induct) (auto dest: matches_length)

lemma get_hash_tag:
  "hd (get_hash t) = (case t of EmptyNode \<Rightarrow> 0 | TerminalNode _ \<Rightarrow> 1 | _ \<Rightarrow> 2)"
  "tl (get_hash t) = node_hash t"
  "length (get_hash t) = Suc (length (node_hash t))"
  by (cases t; simp add: tag_defs)+

lemma length_BLANK [simp]: "length BLANK = 32"
  by (simp add: BLANK_def)

lemma is_terminal_iff: "is_terminal t \<longleftrightarrow> (\<exists>h. t = TerminalNode h)"
  by (cases t) auto

lemma is_empty_iff: "is_empty t \<longleftrightarrow> t = EmptyNode"
  by (cases t) auto

text \<open>\<open>is_double\<close> answers on every middle node the constructor accepted.\<close>

lemma mk_middle_good:
  assumes "mk_middle H c0 c1 = Inr m"
  shows "good_children c0 c1 \<and> (\<exists>h. m = MiddleNode c0 c1 h)"
  using assms unfolding mk_middle_def good_children_def
  by (cases c0; cases c1) (auto simp: rbind_eq_Inr split: if_splits)

lemma is_double_built:
  "built H t \<Longrightarrow> \<not> is_empty t \<Longrightarrow> \<not> is_terminal t \<Longrightarrow> is_double t = Inr (doubled t)"
proof (induction t)
  case (MiddleNode c0 c1 h)
  then have "good_children c0 c1" using mk_middle_good by fastforce
  then show ?case using MiddleNode by (auto simp: good_children_def)
qed auto

lemma doubled_not_simple [simp]: "is_empty t \<Longrightarrow> \<not> doubled t" "is_terminal t \<Longrightarrow> \<not> doubled t"
  by (cases t; simp)+

context hash32
begin

lemma hashdown_children:
  assumes "length (node_hash c0) = 32" "length (node_hash c1) = 32"
  shows "hashdown H (get_hash c0 @ get_hash c1) = Inr (H (preimage c0 c1))"
proof -
  let ?s = "get_hash c0 @ get_hash c1"
  have len: "length ?s = 66" using assms by (simp add: get_hash_tag)
  have c0: "get_hash c0 = hd (get_hash c0) # node_hash c0" and c1: "get_hash c1 = hd (get_hash c1) # node_hash c1"
    using get_hash_tag(2,3) by (metis length_0_conv list.collapse nat.distinct(1))+
  have s: "?s = hd (get_hash c0) # node_hash c0 @ hd (get_hash c1) # node_hash c1" using c0 c1 by simp
  have "slice 0 1 ?s = [hd (get_hash c0)]" "slice 33 34 ?s = [hd (get_hash c1)]"
    "slice 1 33 ?s = node_hash c0" "drop 34 ?s = node_hash c1"
    unfolding s slice_def using assms by simp_all
  moreover have "dict_getitem prehashed [hd (get_hash c0), hd (get_hash c1)]
      = Inr (replicate 30 0 @ [hd (get_hash c0), hd (get_hash c1)])"
    by (simp add: dict_getitem_def dict_get_def prehashed_def tag_defs get_hash_tag(1) split: node.split)
  ultimately show ?thesis
    using len by (simp add: hashdown_def preimage_def get_hash_tag(2))
qed

text \<open>The constructor, in closed form: it accepts exactly the good shapes.\<close>

lemma mk_middle_eq:
  assumes b: "built H c0" "built H c1" and l: "length (node_hash c0) = 32" "length (node_hash c1) = 32"
  shows "mk_middle H c0 c1 =
    (if good_children c0 c1 then Inr (MiddleNode c0 c1 (middle_hash H c0 c1)) else Inl SetError)"
proof -
  note d = is_double_built [OF b(1)] is_double_built [OF b(2)] hashdown_children [OF l]
  show ?thesis
  proof (cases "is_empty c0"; cases "is_empty c1")
    assume "is_empty c0" "is_empty c1"
    then show ?thesis by (auto simp: mk_middle_def good_children_def is_empty_iff)
  next
    assume "is_empty c0" "\<not> is_empty c1"
    then show ?thesis using d
      by (cases "is_terminal c1") (auto simp: mk_middle_def good_children_def middle_hash_def is_empty_iff is_terminal_iff)
  next
    assume "\<not> is_empty c0" "is_empty c1"
    then show ?thesis using d
      by (cases "is_terminal c0") (auto simp: mk_middle_def good_children_def middle_hash_def is_empty_iff is_terminal_iff)
  next
    assume "\<not> is_empty c0" "\<not> is_empty c1"
    then show ?thesis using d by (auto simp: mk_middle_def good_children_def middle_hash_def)
  qed
qed

lemma wf_node_hash_length: "wf_node H pre t \<Longrightarrow> length (node_hash t) = 32"
proof (induction t arbitrary: pre)
  case (MiddleNode c0 c1 h)
  then have l: "length (node_hash c0) = 32" "length (node_hash c1) = 32" by auto
  have "h = middle_hash H c0 c1"
    using mk_middle_eq [OF _ _ l] MiddleNode.prems by (auto simp: wf_node_built split: if_splits)
  then show ?case using l by (simp add: middle_hash_def)
qed (auto dest: matches_length)

lemma wf_middle_iff:
  "wf_node H pre (MiddleNode c0 c1 h) \<longleftrightarrow>
     wf_node H (pre @ [False]) c0 \<and> wf_node H (pre @ [True]) c1 \<and> good_children c0 c1 \<and> h = middle_hash H c0 c1"
proof (cases "wf_node H (pre @ [False]) c0 \<and> wf_node H (pre @ [True]) c1")
  case True
  then have "mk_middle H c0 c1 =
      (if good_children c0 c1 then Inr (MiddleNode c0 c1 (middle_hash H c0 c1)) else Inl SetError)"
    by (intro mk_middle_eq) (auto intro: wf_node_built wf_node_hash_length)
  then show ?thesis using True by auto
qed auto

declare wf_node.simps(3) [simp del] wf_middle_iff [simp]

lemma mk_middle_wf:
  assumes "wf_node H (pre @ [False]) c0" "wf_node H (pre @ [True]) c1" "good_children c0 c1"
  shows "mk_middle H c0 c1 = Inr (MiddleNode c0 c1 (middle_hash H c0 c1))"
  using assms mk_middle_eq [of c0 c1] by (simp add: wf_node_built [of H _ c0] wf_node_built [of H _ c1] wf_node_hash_length)

lemma good_children_wf:
  assumes "wf_node H (pre @ [False]) c0" "wf_node H (pre @ [True]) c1"
    and "\<not> (is_empty c0 \<and> (is_empty c1 \<or> is_terminal c1))" "\<not> (is_empty c1 \<and> is_terminal c0)"
  shows "good_children c0 c1"
  using assms matches_less by (auto simp: good_children_def is_terminal_iff)

lemma wf_elems_match: "wf_node H pre t \<Longrightarrow> x \<in> elems t \<Longrightarrow> matches pre x"
proof (induction t arbitrary: pre)
  case (MiddleNode c0 c1 h)
  then show ?case using matches_snoc by fastforce
qed auto

lemma wf_elems_nonempty: "wf_node H pre t \<Longrightarrow> elems t = {} \<longleftrightarrow> is_empty t"
  by (induction t arbitrary: pre) (auto simp: good_children_def)

lemma wf_middle_depth:
  assumes "wf_node H pre (MiddleNode c0 c1 h)"
  shows "length pre < 256"
proof -
  have "elems c0 \<union> elems c1 \<noteq> {}"
    using assms wf_elems_nonempty [of "pre @ [False]" c0] wf_elems_nonempty [of "pre @ [True]" c1]
    by (auto simp: good_children_def)
  then obtain x where "x \<in> elems c0 \<or> x \<in> elems c1" by auto
  then show ?thesis
    using assms wf_elems_match [of "pre @ [False]" c0 x] wf_elems_match [of "pre @ [True]" c1 x]
    by (auto simp: matches_snoc)
qed

section \<open>Insertion\<close>

lemma make_middle_wf:
  assumes "matches pre a" "matches pre b" "bytes_less a b"
  shows "\<exists>m. make_middle H (TerminalNode a) (TerminalNode b) (length pre) = Inr m \<and> wf_node H pre m \<and>
     elems m = {a, b} \<and> \<not> is_empty m \<and> \<not> is_terminal m"
  using assms
proof (induction "256 - length pre" arbitrary: pre rule: less_induct)
  case less
  let ?n = "length pre"
  have ne: "a \<noteq> b" using less.prems by auto
  have lt: "?n < 256" using matches_lt [OF less.prems(1,2) ne] .
  have bits: "get_bit a ?n = Inr (bit_at a ?n)" "get_bit b ?n = Inr (bit_at b ?n)"
    using less.prems lt by (auto dest: matches_length)
  note unfold = make_middle.simps [of H "TerminalNode a" "TerminalNode b" ?n]
  show ?case
  proof (cases "bit_at a ?n = bit_at b ?n")
    case False
    then have ab: "\<not> bit_at a ?n" "bit_at b ?n" using matches_less_iff [OF less.prems(1,2) _ lt] less.prems(3) by auto
    have "wf_node H (pre @ [False]) (TerminalNode a)" "wf_node H (pre @ [True]) (TerminalNode b)"
      using less.prems ab lt by (auto simp: matches_snoc)
    moreover have "good_children (TerminalNode a) (TerminalNode b)" using less.prems by (simp add: good_children_def)
    ultimately show ?thesis using ab bits by (auto simp: unfold mk_middle_wf wf_middle_iff)
  next
    case True
    let ?b = "bit_at a ?n"
    have "matches (pre @ [?b]) a" "matches (pre @ [?b]) b" using less.prems lt True by (simp_all add: matches_snoc)
    moreover have "256 - length (pre @ [?b]) < 256 - ?n" using lt by (simp add: diff_less_mono2)
    ultimately obtain m where m: "make_middle H (TerminalNode a) (TerminalNode b) (Suc ?n) = Inr m"
      "wf_node H (pre @ [?b]) m" "elems m = {a, b}" "\<not> is_empty m" "\<not> is_terminal m"
      using less.hyps [of "pre @ [?b]"] less.prems(3) by auto
    have "good_children EmptyNode m" "good_children m EmptyNode" using m by (auto simp: good_children_def)
    then show ?thesis
      using m bits True mk_middle_wf [of pre EmptyNode m] mk_middle_wf [of pre m EmptyNode]
        wf_middle_iff [of pre EmptyNode m] wf_middle_iff [of pre m EmptyNode]
      by (cases ?b) (auto simp: unfold)
  qed
qed

lemma add_wf:
  assumes "wf_node H pre t" "matches pre x"
  shows "\<exists>t'. add H t x (length pre) = Inr t' \<and> wf_node H pre t' \<and> elems t' = insert x (elems t) \<and>
     \<not> is_empty t' \<and> (is_terminal t' \<longrightarrow> is_empty t \<or> is_terminal t)"
  using assms
proof (induction t arbitrary: pre)
  case EmptyNode
  then show ?case by (simp add: mk_terminal_def matches_length)
next
  case (TerminalNode h)
  show ?case
  proof (cases "x = h")
    case True
    then show ?thesis using TerminalNode by simp
  next
    case False
    then consider "bytes_less h x" | "\<not> bytes_less h x" "bytes_less x h" using bytes_less_linear by blast
    then show ?thesis
      using False TerminalNode make_middle_wf [of pre h x] make_middle_wf [of pre x h]
      by cases (auto simp: mk_terminal_def matches_length)
  qed
next
  case (MiddleNode c0 c1 h)
  let ?n = "length pre" and ?b = "bit_at x (length pre)"
  from MiddleNode.prems have w: "wf_node H (pre @ [False]) c0" "wf_node H (pre @ [True]) c1" "good_children c0 c1"
    and h: "h = middle_hash H c0 c1" by (simp_all add: wf_middle_iff)
  have bit: "get_bit x ?n = Inr ?b"
    using wf_middle_depth [OF MiddleNode.prems(1)] MiddleNode.prems(2) by (simp add: matches_length)
  show ?case
  proof (cases ?b)
    case False
    then have "matches (pre @ [False]) x"
      using wf_middle_depth [OF MiddleNode.prems(1)] MiddleNode.prems(2) by (simp add: matches_snoc)
    then obtain n where n: "add H c0 x (Suc ?n) = Inr n" "wf_node H (pre @ [False]) n"
      "elems n = insert x (elems c0)" "\<not> is_empty n" "is_terminal n \<longrightarrow> is_empty c0 \<or> is_terminal c0"
      using MiddleNode.IH(1) [OF w(1)] by auto
    have "good_children n c1"
      using good_children_wf [OF n(2) w(2)] n(4,5) w(3) by (auto simp: good_children_def)
    then show ?thesis
      using mk_middle_wf [OF n(2) w(2)] n w h bit False by (cases "n = c0") auto
  next
    case True
    then have "matches (pre @ [True]) x"
      using wf_middle_depth [OF MiddleNode.prems(1)] MiddleNode.prems(2) by (simp add: matches_snoc)
    then obtain n where n: "add H c1 x (Suc ?n) = Inr n" "wf_node H (pre @ [True]) n"
      "elems n = insert x (elems c1)" "\<not> is_empty n" "is_terminal n \<longrightarrow> is_empty c1 \<or> is_terminal c1"
      using MiddleNode.IH(2) [OF w(2)] by auto
    have "good_children c0 n"
      using good_children_wf [OF w(1) n(2)] n(4,5) w(3) by (auto simp: good_children_def)
    then show ?thesis
      using mk_middle_wf [OF w(1) n(2)] n w h bit True by (cases "n = c1") auto
  qed
next
  case (TruncatedNode h)
  then show ?case by simp
qed

section \<open>The tree is determined by its set\<close>

lemma wf_middle_two:
  "wf_node H pre t \<Longrightarrow> \<not> is_empty t \<Longrightarrow> \<not> is_terminal t \<Longrightarrow> \<exists>a b. a \<noteq> b \<and> a \<in> elems t \<and> b \<in> elems t"
proof (induction t arbitrary: pre)
  case (MiddleNode c0 c1 h)
  show ?case
  proof (cases "is_empty c0 \<or> is_empty c1")
    case True
    then consider "is_empty c0" "\<not> is_empty c1" "\<not> is_terminal c1" | "is_empty c1" "\<not> is_empty c0" "\<not> is_terminal c0"
      using MiddleNode.prems(1) by (auto simp: good_children_def)
    then show ?thesis
      using MiddleNode.IH(1) [of "pre @ [False]"] MiddleNode.IH(2) [of "pre @ [True]"] MiddleNode.prems(1)
      by cases auto
  next
    case False
    then obtain a b where ab: "a \<in> elems c0" "b \<in> elems c1"
      using MiddleNode.prems wf_elems_nonempty [of "pre @ [False]" c0] wf_elems_nonempty [of "pre @ [True]" c1] by auto
    then have "a \<noteq> b"
      using MiddleNode.prems wf_elems_match [of "pre @ [False]" c0 a] wf_elems_match [of "pre @ [True]" c1 b]
      by (auto simp: matches_snoc)
    then show ?thesis using ab by auto
  qed
qed auto

lemma wf_unique: "wf_node H pre t \<Longrightarrow> wf_node H pre u \<Longrightarrow> elems t = elems u \<Longrightarrow> t = u"
proof (induction t arbitrary: pre u)
  case EmptyNode
  then show ?case using wf_elems_nonempty [of pre u] by (simp add: is_empty_iff)
next
  case (TerminalNode a)
  then have one: "elems u = {a}" by simp
  have "is_empty u \<or> is_terminal u"
    using wf_middle_two [OF TerminalNode.prems(2)] unfolding one by auto
  then show ?case using one by (cases u) simp_all
next
  case (MiddleNode c0 c1 h)
  have two: "\<exists>a b. a \<noteq> b \<and> a \<in> elems u \<and> b \<in> elems u"
    using wf_middle_two [OF MiddleNode.prems(1)] MiddleNode.prems(3) by auto
  then obtain d0 d1 k where u: "u = MiddleNode d0 d1 k" using MiddleNode.prems(2) by (cases u) auto
  have m: "wf_node H (pre @ [False]) c0" "wf_node H (pre @ [True]) c1"
    "wf_node H (pre @ [False]) d0" "wf_node H (pre @ [True]) d1" and hk: "h = middle_hash H c0 c1" "k = middle_hash H d0 d1"
    using MiddleNode.prems u by simp_all
  note side = wf_elems_match [OF m(1)] wf_elems_match [OF m(2)] wf_elems_match [OF m(3)] wf_elems_match [OF m(4)]
  have "elems c0 = {x \<in> elems c0 \<union> elems c1. \<not> bit_at x (length pre)}"
    "elems c1 = {x \<in> elems c0 \<union> elems c1. bit_at x (length pre)}"
    "elems d0 = {x \<in> elems d0 \<union> elems d1. \<not> bit_at x (length pre)}"
    "elems d1 = {x \<in> elems d0 \<union> elems d1. bit_at x (length pre)}"
    using side by (auto simp: matches_snoc)
  then have "elems c0 = elems d0" "elems c1 = elems d1" using MiddleNode.prems(3) u by (metis elems.simps(3))+
  then have "c0 = d0" "c1 = d1" using MiddleNode.IH m by blast+
  then show ?case using u hk by simp
next
  case (TruncatedNode h)
  then show ?case by simp
qed

section \<open>Proofs are complete\<close>

text \<open>
  \<open>represents p pre n t\<close>: wherever the bytes \<open>p\<close> stand in a proof, \<open>_deserialize\<close> reads them at the path
  \<open>pre\<close> as the node \<open>n\<close>, which has the hash of \<open>t\<close>.
\<close>

definition represents :: "bytes \<Rightarrow> bool list \<Rightarrow> node \<Rightarrow> node \<Rightarrow> bool" where
  "represents p pre n t \<longleftrightarrow> built H n \<and> get_hash n = get_hash t \<and>
     (\<forall>q rest fuel. length p \<le> fuel \<longrightarrow>
        deserialize H fuel (q @ p @ rest) (length q) pre = Inr (n, length q + length p))"

lemma same_kind:
  assumes "get_hash n = get_hash t"
  shows "is_empty n \<longleftrightarrow> is_empty t" "is_terminal n \<longleftrightarrow> is_terminal t" "node_hash n = node_hash t"
  using assms by (cases n; cases t; simp add: tag_defs)+

lemma represents_Empty: "represents EMPTY pre EmptyNode EmptyNode"
proof -
  have "deserialize H fuel (q @ EMPTY @ rest) (length q) pre = Inr (EmptyNode, length q + 1)" if "0 < fuel" for fuel q rest
    using that by (cases fuel) (simp_all add: slice_def tag_defs)
  then show ?thesis by (auto simp: represents_def EMPTY_def)
qed

lemma represents_Terminal:
  assumes "matches pre h"
  shows "represents (TERMINAL @ h) pre (TerminalNode h) (TerminalNode h)"
proof -
  have l: "length h = 32" "length pre \<le> 256" using assms by (auto simp: matches_def)
  then have "mk_terminal_audit h pre = Inr (TerminalNode h)"
    using assms by (simp add: mk_terminal_audit_def mk_terminal_def audit_matches [THEN iffD2])
  then have "deserialize H fuel (q @ (TERMINAL @ h) @ rest) (length q) pre = Inr (TerminalNode h, length q + 33)"
    if "0 < fuel" for fuel q rest
    using that l by (cases fuel) (simp_all add: slice_def tag_defs)
  then show ?thesis using l by (auto simp: represents_def TERMINAL_def)
qed

lemma represents_Truncated:
  assumes "length h = 32"
  shows "represents (TRUNCATED @ h) pre (TruncatedNode h) (MiddleNode c0 c1 h)"
proof -
  have "deserialize H fuel (q @ (TRUNCATED @ h) @ rest) (length q) pre = Inr (TruncatedNode h, length q + 33)"
    if "0 < fuel" for fuel q rest
    using that assms by (cases fuel) (simp_all add: slice_def tag_defs)
  then show ?thesis using assms by (auto simp: represents_def TRUNCATED_def)
qed

lemma represents_Middle:
  assumes r0: "represents p0 (pre @ [False]) n0 c0" and r1: "represents p1 (pre @ [True]) n1 c1"
    and w: "wf_node H pre (MiddleNode c0 c1 h)"
    and d: "is_empty c0 \<longrightarrow> doubled n1 = doubled c1" "is_empty c1 \<longrightarrow> doubled n0 = doubled c0"
  shows "represents (MIDDLE @ p0 @ p1) pre (MiddleNode n0 n1 h) (MiddleNode c0 c1 h) \<and>
         doubled (MiddleNode n0 n1 h) = doubled (MiddleNode c0 c1 h)"
proof -
  note k0 = same_kind [of n0 c0] and k1 = same_kind [of n1 c1]
  have g: "get_hash n0 = get_hash c0" "get_hash n1 = get_hash c1" using r0 r1 by (simp_all add: represents_def)
  have l: "length (node_hash n0) = 32" "length (node_hash n1) = 32"
    using k0(3) k1(3) g w wf_node_hash_length [of "pre @ [False]" c0] wf_node_hash_length [of "pre @ [True]" c1] by auto
  have "good_children n0 n1" using w k0 k1 g by (auto simp: good_children_def)
  moreover have "middle_hash H n0 n1 = h" using w k0 k1 g d by (auto simp: middle_hash_def preimage_def)
  ultimately have mk: "mk_middle H n0 n1 = Inr (MiddleNode n0 n1 h)"
    using mk_middle_eq [OF _ _ l] r0 r1 by (simp add: represents_def)
  have "deserialize H fuel (q @ (MIDDLE @ p0 @ p1) @ rest) (length q) pre
      = Inr (MiddleNode n0 n1 h, length q + length (MIDDLE @ p0 @ p1))"
    if f: "length (MIDDLE @ p0 @ p1) \<le> fuel" for fuel q rest
  proof -
    obtain f' where f': "fuel = Suc f'" "length p0 \<le> f'" "length p1 \<le> f'" using f by (cases fuel) (auto simp: MIDDLE_def)
    let ?all = "q @ (MIDDLE @ p0 @ p1) @ rest"
    have "deserialize H f' ((q @ MIDDLE) @ p0 @ (p1 @ rest)) (length (q @ MIDDLE)) (pre @ [False])
        = Inr (n0, length (q @ MIDDLE) + length p0)"
      using r0 f'(2) unfolding represents_def by blast
    then have 0: "deserialize H f' ?all (length q + 1) (pre @ [False]) = Inr (n0, length q + 1 + length p0)"
      by (simp add: MIDDLE_def)
    have "deserialize H f' ((q @ MIDDLE @ p0) @ p1 @ rest) (length (q @ MIDDLE @ p0)) (pre @ [True])
        = Inr (n1, length (q @ MIDDLE @ p0) + length p1)"
      using r1 f'(3) unfolding represents_def by blast
    then have 1: "deserialize H f' ?all (length q + 1 + length p0) (pre @ [True]) = Inr (n1, length q + 1 + length p0 + length p1)"
      by (simp add: MIDDLE_def)
    have "slice (length q) (length q + 1) ?all = MIDDLE" by (simp add: slice_def MIDDLE_def)
    then show ?thesis using 0 1 mk f'(1) by (simp add: tag_defs)
  qed
  moreover have "doubled (MiddleNode n0 n1 h) = doubled (MiddleNode c0 c1 h)" using k0 k1 g d by auto
  ultimately show ?thesis using mk r0 r1 by (auto simp: represents_def)
qed

text \<open>\<open>is_included\<close> answers, and the proof it gives is read back as a node that gives the same answer.\<close>

definition included_ok :: "node \<Rightarrow> bytes \<Rightarrow> bool list \<Rightarrow> bool" where
  "included_ok t x pre \<longleftrightarrow>
     (\<exists>r p n. is_included t x (length pre) = Inr (r, p) \<and> (matches pre x \<longrightarrow> r = (x \<in> elems t)) \<and>
        represents p pre n t \<and> doubled n = doubled t \<and> is_included n x (length pre) = Inr (r, p))"

definition other_ok :: "node \<Rightarrow> bytes \<Rightarrow> bool list \<Rightarrow> bool \<Rightarrow> bool" where
  "other_ok t x pre c \<longleftrightarrow>
     (\<exists>p n. other_included t x (length pre) c = Inr p \<and> represents p pre n t \<and>
        (c \<or> doubled n = doubled t) \<and> other_included n x (length pre) c = Inr p)"

lemma included_ok_left:
  assumes w: "wf_node H pre (MiddleNode c0 c1 h)" and x: "length x = 32" and b: "\<not> bit_at x (length pre)"
    and i: "included_ok c0 x (pre @ [False])" and o: "other_ok c1 x (pre @ [True]) (\<not> is_empty c0)"
  shows "included_ok (MiddleNode c0 c1 h) x pre"
proof -
  let ?n = "length pre" and ?t = "MiddleNode c0 c1 h"
  have lt: "?n < 256" using wf_middle_depth w .
  have bit: "get_bit x ?n = Inr False" using lt x b by simp
  obtain r p0 n0 where i: "is_included c0 x (Suc ?n) = Inr (r, p0)" "matches (pre @ [False]) x \<longrightarrow> r = (x \<in> elems c0)"
    "represents p0 (pre @ [False]) n0 c0" "doubled n0 = doubled c0" "is_included n0 x (Suc ?n) = Inr (r, p0)"
    using i by (auto simp: included_ok_def)
  from o obtain p1 n1 where o: "other_included c1 x (Suc ?n) (\<not> is_empty c0) = Inr p1" "represents p1 (pre @ [True]) n1 c1"
    "\<not> is_empty c0 \<or> doubled n1 = doubled c1" "other_included n1 x (Suc ?n) (\<not> is_empty c0) = Inr p1"
    unfolding other_ok_def by (metis add.right_neutral add_Suc_right length_append_singleton)
  have e: "is_empty n0 = is_empty c0" using i(3) same_kind(1) [of n0 c0] by (simp add: represents_def)
  have v: "matches pre x \<longrightarrow> r = (x \<in> elems ?t)"
    using i(2) b lt w wf_elems_match [of "pre @ [True]" c1 x] by (auto simp: matches_snoc)
  have r: "represents (MIDDLE @ p0 @ p1) pre (MiddleNode n0 n1 h) ?t \<and> doubled (MiddleNode n0 n1 h) = doubled ?t"
    using represents_Middle [OF i(3) o(2) w] i(4) o(3) by blast
  have "is_included ?t x ?n = Inr (r, MIDDLE @ p0 @ p1)" "is_included (MiddleNode n0 n1 h) x ?n = Inr (r, MIDDLE @ p0 @ p1)"
    using i(1,5) o(1,4) e bit by simp_all
  then show ?thesis using v r unfolding included_ok_def by blast
qed

lemma included_ok_right:
  assumes w: "wf_node H pre (MiddleNode c0 c1 h)" and x: "length x = 32" and b: "bit_at x (length pre)"
    and i: "included_ok c1 x (pre @ [True])" and o: "other_ok c0 x (pre @ [False]) (\<not> is_empty c1)"
  shows "included_ok (MiddleNode c0 c1 h) x pre"
proof -
  let ?n = "length pre" and ?t = "MiddleNode c0 c1 h"
  have lt: "?n < 256" using wf_middle_depth w .
  have bit: "get_bit x ?n = Inr True" using lt x b by simp
  obtain r p1 n1 where i: "is_included c1 x (Suc ?n) = Inr (r, p1)" "matches (pre @ [True]) x \<longrightarrow> r = (x \<in> elems c1)"
    "represents p1 (pre @ [True]) n1 c1" "doubled n1 = doubled c1" "is_included n1 x (Suc ?n) = Inr (r, p1)"
    using i by (auto simp: included_ok_def)
  from o obtain p0 n0 where o: "other_included c0 x (Suc ?n) (\<not> is_empty c1) = Inr p0" "represents p0 (pre @ [False]) n0 c0"
    "\<not> is_empty c1 \<or> doubled n0 = doubled c0" "other_included n0 x (Suc ?n) (\<not> is_empty c1) = Inr p0"
    unfolding other_ok_def by (metis add.right_neutral add_Suc_right length_append_singleton)
  have e: "is_empty n1 = is_empty c1" using i(3) same_kind(1) [of n1 c1] by (simp add: represents_def)
  have v: "matches pre x \<longrightarrow> r = (x \<in> elems ?t)"
    using i(2) b lt w wf_elems_match [of "pre @ [False]" c0 x] by (auto simp: matches_snoc)
  have r: "represents (MIDDLE @ p0 @ p1) pre (MiddleNode n0 n1 h) ?t \<and> doubled (MiddleNode n0 n1 h) = doubled ?t"
    using represents_Middle [OF o(2) i(3) w] i(4) o(3) by blast
  have "is_included ?t x ?n = Inr (r, MIDDLE @ p0 @ p1)" "is_included (MiddleNode n0 n1 h) x ?n = Inr (r, MIDDLE @ p0 @ p1)"
    using i(1,5) o(1,4) e bit by simp_all
  then show ?thesis using v r unfolding included_ok_def by blast
qed

lemma other_ok_middle:
  assumes w: "wf_node H pre (MiddleNode c0 c1 h)" and inc: "included_ok (MiddleNode c0 c1 h) x pre"
  shows "other_ok (MiddleNode c0 c1 h) x pre c"
proof -
  let ?n = "length pre" and ?t = "MiddleNode c0 c1 h"
  have dbl: "is_double ?t = Inr (doubled ?t)" using is_double_built [OF wf_node_built [OF w]] by simp
  show ?thesis
  proof (cases "c \<or> \<not> doubled ?t")
    case True
    then have "other_included ?t x ?n c = Inr (TRUNCATED @ h)" using dbl by auto
    moreover have "represents (TRUNCATED @ h) pre (TruncatedNode h) ?t"
      using represents_Truncated wf_node_hash_length [OF w] by simp
    moreover have "c \<or> doubled (TruncatedNode h) = doubled ?t" using True by simp
    moreover have "other_included (TruncatedNode h) x ?n c = Inr (TRUNCATED @ h)" by simp
    ultimately show ?thesis unfolding other_ok_def by blast
  next
    case False
    obtain r p n where n: "is_included ?t x ?n = Inr (r, p)" "represents p pre n ?t" "doubled n = doubled ?t"
      "is_included n x ?n = Inr (r, p)" using inc by (auto simp: included_ok_def)
    obtain n0 n1 k where m: "n = MiddleNode n0 n1 k" using n(3) False by (cases n) auto
    have "is_double n = Inr (doubled n)" using is_double_built [of H n] n(2) m by (simp add: represents_def)
    then have "other_included n x ?n c = Inr p" using n(3,4) m False by simp
    moreover have "other_included ?t x ?n c = Inr p" using dbl False n(1) by simp
    ultimately show ?thesis using n unfolding other_ok_def by blast
  qed
qed

lemma proofs_complete:
  assumes "wf_node H pre t" "length x = 32"
  shows "included_ok t x pre \<and> (\<forall>c. other_ok t x pre c)"
  using assms
proof (induction t arbitrary: pre)
  case EmptyNode
  show ?case
    unfolding included_ok_def other_ok_def
    by (intro conjI allI exI [of _ False] exI [of _ EMPTY] exI [of _ EmptyNode]) (simp_all add: represents_Empty)
next
  case (TerminalNode h)
  then have "represents (TERMINAL @ h) pre (TerminalNode h) (TerminalNode h)" by (intro represents_Terminal) simp
  then show ?case
    unfolding included_ok_def other_ok_def
    by (intro conjI allI exI [of _ "x = h"] exI [of _ "TERMINAL @ h"] exI [of _ "TerminalNode h"]) simp_all
next
  case (MiddleNode c0 c1 h)
  then have "included_ok (MiddleNode c0 c1 h) x pre"
    by (cases "bit_at x (length pre)") (simp_all add: included_ok_left included_ok_right)
  then show ?case using other_ok_middle MiddleNode.prems by blast
next
  case (TruncatedNode h)
  then show ?case by simp
qed

lemma wf_is_included:
  assumes "wf_node H pre t" "matches pre x"
  shows "\<exists>p. is_included t x (length pre) = Inr (x \<in> elems t, p)"
  using proofs_complete [OF assms(1), of x] assms(2) by (auto simp: included_ok_def matches_length)

lemma get_root_wf: "wf_node H [] t \<Longrightarrow> \<exists>r. get_root H t = Inr r"
  using wf_node_hash_length [of "[]" t]
  by (cases t) (auto simp: get_root_def compress_root_def slice_def sized_init_def tag_defs)

lemma confirm_complete:
  assumes w: "wf_node H [] t" and x: "length x = 32" and p: "is_included_already_hashed t x = Inr (r, p)"
    and root: "get_root H t = Inr root"
  shows "r = (x \<in> elems t) \<and> confirm H root x p r = Inr True"
proof -
  obtain n where r: "r = (x \<in> elems t)" and n: "represents p [] n t" "is_included n x 0 = Inr (r, p)"
    using proofs_complete [OF w x] x p by (auto simp: included_ok_def is_included_already_hashed_def)
  have "deserialize H (Suc (length p)) ([] @ p @ []) (length []) [] = Inr (n, length [] + length p)"
    using n(1) unfolding represents_def by (elim conjE allE [where x = "[]"] allE [where x = "Suc (length p)"]) simp
  then have "deserialize_proof H p = Inr n" by (simp add: deserialize_proof_def)
  moreover have "get_root H n = Inr root" using n(1) root by (simp add: get_root_def represents_def)
  ultimately show ?thesis using r n(2) by (simp add: confirm_def is_included_already_hashed_def)
qed

section \<open>Proofs are sound\<close>

text \<open>What \<open>_deserialize\<close> can return at the path \<open>pre\<close>.\<close>

fun parsed :: "bool list \<Rightarrow> node \<Rightarrow> bool" where
  "parsed pre EmptyNode = True"
| "parsed pre (TerminalNode h) = matches pre h"
| "parsed pre (MiddleNode c0 c1 h) =
     (parsed (pre @ [False]) c0 \<and> parsed (pre @ [True]) c1 \<and> mk_middle H c0 c1 = Inr (MiddleNode c0 c1 h))"
| "parsed pre (TruncatedNode h) = (length h \<le> 32)"

lemma mk_terminal_audit_matches:
  "mk_terminal_audit h bits = Inr n \<Longrightarrow> n = TerminalNode h \<and> matches bits h"
proof -
  assume a: "mk_terminal_audit h bits = Inr n"
  then have l: "length h = 32" and b: "audit_bits h 0 bits = Inr ()" and n: "n = TerminalNode h"
    by (auto simp: mk_terminal_audit_def mk_terminal_def rbind_eq_Inr split: if_splits)
  have "\<forall>i < length bits. i < 256 \<and> bit_at h i = bits ! i" using b audit_bits_ok [OF l, of 0 bits] by simp
  moreover from this have "length bits \<le> 256" by (metis less_irrefl not_le)
  ultimately show ?thesis using n l by (simp add: matches_def)
qed

lemma deserialize_parsed: "deserialize H fuel pf pos bits = Inr (n, pos') \<Longrightarrow> parsed bits n"
proof (induction fuel arbitrary: pos bits n pos')
  case (Suc fuel)
  let ?t = "slice pos (pos + 1) pf"
  consider "?t = EMPTY" | "?t = TERMINAL" | "?t = TRUNCATED" | "?t = MIDDLE"
    using Suc.prems by (auto simp: Let_def split: if_splits)
  then show ?case
  proof cases
    case 2
    then have "mk_terminal_audit (slice (Suc pos) (pos + 33) pf) bits = Inr n"
      using Suc.prems by (auto simp: Let_def tag_defs rbind_eq_Inr)
    then show ?thesis using mk_terminal_audit_matches by fastforce
  next
    case 4
    then obtain v0 p1 v1 where v: "deserialize H fuel pf (pos + 1) (bits @ [False]) = Inr (v0, p1)"
      "deserialize H fuel pf p1 (bits @ [True]) = Inr (v1, pos')" "mk_middle H v0 v1 = Inr n"
      using Suc.prems by (auto simp: Let_def tag_defs rbind_eq_Inr)
    then show ?thesis using Suc.IH [OF v(1)] Suc.IH [OF v(2)] mk_middle_good [OF v(3)] by auto
  qed (use Suc.prems in \<open>auto simp: Let_def tag_defs length_slice\<close>)
qed simp

lemma parsed_built: "parsed pre t \<Longrightarrow> built H t"
  by (induction t arbitrary: pre) (auto dest: matches_length)

lemma hashdown_length: "hashdown H s = Inr h \<Longrightarrow> length s = 66 \<and> length h = 32"
  by (auto simp: hashdown_def rbind_eq_Inr split: if_splits)

text \<open>Unless it collapses a double, a middle node stores the digest of its two tagged children.\<close>

lemma mk_middle_hash:
  assumes m: "mk_middle H c0 c1 = Inr (MiddleNode c0 c1 h)" and b: "built H c0" "built H c1"
    and l: "length (node_hash c0) \<le> 32" "length (node_hash c1) \<le> 32"
    and nd: "\<not> (is_empty c0 \<and> doubled c1)" "\<not> (is_empty c1 \<and> doubled c0)"
  shows "h = H (preimage c0 c1) \<and> length (node_hash c0) = 32 \<and> length (node_hash c1) = 32"
proof -
  note d = is_double_built [OF b(1)] is_double_built [OF b(2)]
  have g: "good_children c0 c1" using mk_middle_good [OF m] by simp
  then have h: "hashdown H (get_hash c0 @ get_hash c1) = Inr h"
    using m nd d unfolding mk_middle_def good_children_def
    by (cases "is_empty c0"; cases "is_empty c1") (auto simp: rbind_eq_Inr split: if_splits)
  then have "length (get_hash c0 @ get_hash c1) = 66" using hashdown_length by blast
  then have "length (node_hash c0) = 32" "length (node_hash c1) = 32" using l by (auto simp: get_hash_tag(3))
  then show ?thesis using h hashdown_children by auto
qed

lemma parsed_hash_length: "parsed pre t \<Longrightarrow> length (node_hash t) \<le> 32"
proof (induction t arbitrary: pre)
  case (MiddleNode c0 c1 h)
  then have l: "length (node_hash c0) \<le> 32" "length (node_hash c1) \<le> 32" and b: "built H c0" "built H c1"
    using parsed_built by auto
  have m: "mk_middle H c0 c1 = Inr (MiddleNode c0 c1 h)" using MiddleNode.prems by simp
  show ?case
  proof (cases "(is_empty c0 \<and> doubled c1) \<or> (is_empty c1 \<and> doubled c0)")
    case True
    then have "h = node_hash c0 \<or> h = node_hash c1"
      using m is_double_built [OF b(1)] is_double_built [OF b(2)] unfolding mk_middle_def
      by (cases c0; cases c1) (auto split: if_splits)
    then show ?thesis using l by auto
  next
    case False
    then show ?thesis using mk_middle_hash [OF m b l] by simp
  qed
qed (auto dest: matches_length)

lemma parsed_middle_hash:
  assumes "parsed pre (MiddleNode c0 c1 h)" "\<not> doubled (MiddleNode c0 c1 h)"
  shows "h = H (preimage c0 c1) \<and> length (node_hash c0) = 32 \<and> length (node_hash c1) = 32 \<and>
         preimage c0 c1 \<in> hashed (MiddleNode c0 c1 h)"
proof -
  have "\<not> (is_empty c0 \<and> doubled c1)" "\<not> (is_empty c1 \<and> doubled c0)" using assms(2) by (auto split: if_splits)
  moreover have "built H c0" "built H c1" "length (node_hash c0) \<le> 32" "length (node_hash c1) \<le> 32"
    using assms(1) parsed_built parsed_hash_length by auto
  ultimately show ?thesis using mk_middle_hash assms(1) by auto
qed

lemma doubled_parsed:
  "parsed pre t \<Longrightarrow> doubled t \<Longrightarrow>
     wf_node H pre t \<and> (\<exists>a b. elems t = {a, b} \<and> node_hash t = H (preimage (TerminalNode a) (TerminalNode b)) \<and>
       preimage (TerminalNode a) (TerminalNode b) \<in> hashed t)"
proof (induction t arbitrary: pre)
  case (MiddleNode c0 c1 h)
  have p: "parsed (pre @ [False]) c0" "parsed (pre @ [True]) c1" "mk_middle H c0 c1 = Inr (MiddleNode c0 c1 h)"
    using MiddleNode.prems by simp_all
  have wf: "wf_node H pre (MiddleNode c0 c1 h)" if "wf_node H (pre @ [False]) c0" "wf_node H (pre @ [True]) c1"
    using that p(3) by (simp only: wf_node.simps(3))
  consider "is_empty c0" "doubled c1" | "\<not> is_empty c0" "is_empty c1" "doubled c0"
    | a b where "c0 = TerminalNode a" "c1 = TerminalNode b"
    using MiddleNode.prems(2) by (auto simp: is_terminal_iff split: if_splits)
  then show ?case
  proof cases
    case 1
    then have "h = node_hash c1" using p(3) is_double_built [OF parsed_built [OF p(2)]]
      by (cases c1) (auto simp: mk_middle_def is_empty_iff split: if_splits)
    then show ?thesis using MiddleNode.IH(2) [OF p(2) 1(2)] 1 wf by (auto simp: is_empty_iff)
  next
    case 2
    then have "h = node_hash c0" using p(3) is_double_built [OF parsed_built [OF p(1)]]
      by (cases c0) (auto simp: mk_middle_def is_empty_iff split: if_splits)
    then show ?thesis using MiddleNode.IH(1) [OF p(1) 2(3)] 2 wf by (auto simp: is_empty_iff)
  next
    case 3
    then have "h = H (preimage c0 c1)" using mk_middle_hash [OF p(3)] p by (auto dest: matches_length)
    moreover have "elems (MiddleNode c0 c1 h) = {a, b}" using 3 by auto
    moreover have "preimage c0 c1 \<in> hashed (MiddleNode c0 c1 h)" "wf_node H pre (MiddleNode c0 c1 h)" using 3 p wf by simp_all
    ultimately show ?thesis using 3 by (metis node_hash.simps(3))
  qed
qed auto

lemma preimage_inject:
  assumes "preimage c0 c1 = preimage d0 d1" "length (node_hash c0) = 32" "length (node_hash d0) = 32"
  shows "get_hash c0 = get_hash d0 \<and> get_hash c1 = get_hash d1"
proof -
  have cons: "get_hash t = hd (get_hash t) # node_hash t" for t
    using get_hash_tag(2,3) by (metis length_0_conv list.collapse nat.distinct(1))
  show ?thesis
    using assms cons [of c0] cons [of c1] cons [of d0] cons [of d1] by (auto simp: preimage_def get_hash_tag(2))
qed

lemma wf_parsed: "wf_node H pre t \<Longrightarrow> parsed pre t"
proof (induction t arbitrary: pre)
  case (MiddleNode c0 c1 h)
  then show ?case using mk_middle_wf [of pre c0 c1] by simp
qed auto

lemma middle_hash_string:
  assumes "parsed pre (MiddleNode c0 c1 h)"
  shows "\<exists>d0 d1. h = H (preimage d0 d1) \<and> preimage d0 d1 \<in> hashed (MiddleNode c0 c1 h)"
  using doubled_parsed [OF assms] parsed_middle_hash [OF assms]
  by (cases "doubled (MiddleNode c0 c1 h)") (auto simp del: hashed.simps doubled.simps)

lemma doubled_hashD:
  assumes "parsed pre n" "doubled n"
  obtains a b where "elems n = {a, b}" "node_hash n = H (preimage (TerminalNode a) (TerminalNode b))"
    "preimage (TerminalNode a) (TerminalNode b) \<in> hashed n" "length a = 32"
proof -
  obtain a b where ab: "elems n = {a, b}" "node_hash n = H (preimage (TerminalNode a) (TerminalNode b))"
    "preimage (TerminalNode a) (TerminalNode b) \<in> hashed n" using doubled_parsed [OF assms] by blast
  have "wf_node H pre n" using doubled_parsed [OF assms] by blast
  moreover have "a \<in> elems n" using ab(1) by simp
  ultimately have "matches pre a" by (rule wf_elems_match)
  then show thesis using that ab matches_length by blast
qed

text \<open>A digest of two terminals is never the digest of anything else.\<close>

lemma doubled_same_doubled:
  assumes n: "parsed pre n" "doubled n" and t: "parsed pre (MiddleNode c0 c1 h)" and eq: "node_hash n = h"
    and inj: "inj_on H (hashed n \<union> hashed (MiddleNode c0 c1 h))"
  shows "doubled (MiddleNode c0 c1 h)"
proof (rule ccontr)
  assume nd: "\<not> ?thesis"
  obtain a b where ab: "node_hash n = H (preimage (TerminalNode a) (TerminalNode b))"
    "preimage (TerminalNode a) (TerminalNode b) \<in> hashed n" "length a = 32" using doubled_hashD [OF n] by metis
  have pt: "h = H (preimage c0 c1)" "preimage c0 c1 \<in> hashed (MiddleNode c0 c1 h)" "length (node_hash c0) = 32"
    using parsed_middle_hash [OF t nd] by blast+
  have "preimage (TerminalNode a) (TerminalNode b) = preimage c0 c1"
    by (rule inj_onD [OF inj]) (use ab pt eq in auto)
  then have "get_hash c0 = get_hash (TerminalNode a)" "get_hash c1 = get_hash (TerminalNode b)"
    using preimage_inject [of "TerminalNode a" "TerminalNode b" c0 c1] ab(3) pt(3) by simp_all
  then have "is_terminal c0" "is_terminal c1"
    using same_kind(2) [of c0 "TerminalNode a"] same_kind(2) [of c1 "TerminalNode b"] by simp_all
  then show False using nd by (auto simp: is_terminal_iff)
qed

lemma doubled_same_hash:
  assumes n: "parsed pre n" "doubled n" and t: "parsed pre t" "doubled t" and eq: "node_hash n = node_hash t"
    and inj: "inj_on H (hashed n \<union> hashed t)"
  shows "elems n = elems t"
proof -
  obtain a b where ab: "elems n = {a, b}" "node_hash n = H (preimage (TerminalNode a) (TerminalNode b))"
    "preimage (TerminalNode a) (TerminalNode b) \<in> hashed n" "length a = 32" using doubled_hashD [OF n] by metis
  obtain a' b' where ab': "elems t = {a', b'}" "node_hash t = H (preimage (TerminalNode a') (TerminalNode b'))"
    "preimage (TerminalNode a') (TerminalNode b') \<in> hashed t" "length a' = 32" using doubled_hashD [OF t] by metis
  have "preimage (TerminalNode a) (TerminalNode b) = preimage (TerminalNode a') (TerminalNode b')"
    by (rule inj_onD [OF inj]) (use ab ab' eq in auto)
  then have "a = a' \<and> b = b'"
    using preimage_inject [of "TerminalNode a" "TerminalNode b" "TerminalNode a'" "TerminalNode b'"] ab(4) ab'(4)
    by (simp add: tag_defs)
  then show ?thesis using ab(1) ab'(1) by simp
qed

lemma included_sound:
  assumes "parsed pre n" "wf_node H pre t" "get_hash n = get_hash t" "inj_on H (hashed n \<union> hashed t)"
    and "is_included n x (length pre) = Inr (r, p)" "matches pre x"
  shows "r = (x \<in> elems t)"
  using assms
proof (induction n arbitrary: pre t r p)
  case EmptyNode
  then show ?case using same_kind(1) [of EmptyNode t] by (auto simp: is_empty_iff)
next
  case (TerminalNode h)
  then show ?case by (cases t) (auto simp: tag_defs)
next
  case (MiddleNode n0 n1 k)
  let ?n = "MiddleNode n0 n1 k" and ?d = "length pre"
  obtain c0 c1 where t: "t = MiddleNode c0 c1 k" using MiddleNode.prems(2,3) by (cases t) (auto simp: tag_defs)
  have pt: "parsed pre t" using wf_parsed MiddleNode.prems(2) .
  have inj: "inj_on H (hashed ?n \<union> hashed t)" "inj_on H (hashed t \<union> hashed ?n)"
    using MiddleNode.prems(4) by (simp_all add: Un_commute)
  have hash: "node_hash ?n = k" "node_hash t = k" using t by simp_all
  have dd: "doubled ?n = doubled t"
    using doubled_same_doubled [OF MiddleNode.prems(1) _ pt [unfolded t] hash(1) inj(1) [unfolded t]]
      doubled_same_doubled [OF pt _ MiddleNode.prems(1) hash(2) inj(2)] t by blast
  show ?case
  proof (cases "doubled ?n")
    case True
    then have "wf_node H pre ?n" "elems ?n = elems t"
      using doubled_parsed [OF MiddleNode.prems(1)] doubled_same_hash [OF MiddleNode.prems(1) _ pt _ _ inj(1)] dd hash by simp_all
    then show ?thesis using wf_is_included [of pre ?n x] MiddleNode.prems(5,6) by auto
  next
    case False
    have pn: "k = H (preimage n0 n1)" "preimage n0 n1 \<in> hashed ?n" "length (node_hash n0) = 32"
      using parsed_middle_hash [OF MiddleNode.prems(1) False] by auto
    have pt': "k = H (preimage c0 c1)" "preimage c0 c1 \<in> hashed t" "length (node_hash c0) = 32"
      using parsed_middle_hash [OF pt [unfolded t]] False dd t by auto
    have "preimage n0 n1 = preimage c0 c1" by (rule inj_onD [OF inj(1)]) (use pn pt' in auto)
    then have eqs: "get_hash n0 = get_hash c0" "get_hash n1 = get_hash c1"
      using preimage_inject pn(3) pt'(3) by blast+
    have sub: "inj_on H (hashed n0 \<union> hashed c0)" "inj_on H (hashed n1 \<union> hashed c1)"
      by (rule inj_on_subset [OF inj(1)], use t in auto)+
    obtain q where q: "is_included (if bit_at x ?d then n1 else n0) x (length (pre @ [bit_at x ?d])) = Inr (r, q)"
      using MiddleNode.prems(5,6) wf_middle_depth MiddleNode.prems(2) t
      by (auto simp: rbind_eq_Inr matches_length split: if_splits)
    have w: "wf_node H (pre @ [False]) c0" "wf_node H (pre @ [True]) c1" "length pre < 256"
      using MiddleNode.prems(2) t wf_middle_depth by auto
    have side: "x \<in> elems t \<longleftrightarrow> x \<in> elems (if bit_at x ?d then c1 else c0)"
      using wf_elems_match [OF w(1), of x] wf_elems_match [OF w(2), of x] t by (auto simp: matches_snoc)
    have m: "matches (pre @ [bit_at x ?d]) x" using MiddleNode.prems(6) w(3) by (simp add: matches_snoc)
    have p: "parsed (pre @ [False]) n0" "parsed (pre @ [True]) n1" using MiddleNode.prems(1) by simp_all
    show ?thesis
    proof (cases "bit_at x ?d")
      case True
      then show ?thesis using MiddleNode.IH(2) [OF p(2) w(2) eqs(2) sub(2)] q m side by simp
    next
      case False
      then show ?thesis using MiddleNode.IH(1) [OF p(1) w(1) eqs(1) sub(1)] q m side by simp
    qed
  qed
qed simp

lemma get_root_eq:
  assumes n: "parsed [] n" "\<forall>h. n \<noteq> TruncatedNode h" and t: "wf_node H [] t"
    and root: "get_root H n = Inr root" "get_root H t = Inr root"
    and inj: "inj_on H (hashed_root n \<union> hashed_root t)" and blank: "BLANK \<notin> H ` (hashed_root n \<union> hashed_root t)"
  shows "get_hash n = get_hash t"
proof -
  have shape: "root = BLANK \<and> is_empty m \<or> (\<exists>h. m = TerminalNode h \<and> root = H (TERMINAL @ h)) \<or>
      (\<exists>c0 c1 d0 d1. m = MiddleNode c0 c1 root \<and> root = H (preimage d0 d1) \<and> preimage d0 d1 \<in> hashed_root m)"
    if "parsed [] m" "\<forall>h. m \<noteq> TruncatedNode h" "get_root H m = Inr root" for m
    using that middle_hash_string [of "[]"]
    by (cases m) (auto simp: get_root_def compress_root_def slice_def sized_init_def tag_defs hashed_root_def
        rbind_eq_Inr split: if_splits simp del: hashed.simps)
  have "\<forall>h. t \<noteq> TruncatedNode h" using t by auto
  note sn = shape [OF n root(1)] and st = shape [OF wf_parsed [OF t] this root(2)]
  have ne: "TERMINAL @ h \<noteq> preimage d0 d1" for h d0 d1 by (simp add: preimage_def TERMINAL_def numeral_eq_Suc)
  have same: "u = v" if "H u = H v" "u \<in> hashed_root n \<union> hashed_root t" "v \<in> hashed_root n \<union> hashed_root t" for u v
    using inj_onD [OF inj] that by blast
  have nb: "H u \<noteq> BLANK" if "u \<in> hashed_root n \<union> hashed_root t" for u using blank that by (metis imageI)
  have tr: "TERMINAL @ h \<in> hashed_root (TerminalNode h)" for h by (simp add: hashed_root_def)
  from sn show ?thesis
  proof (elim disjE exE conjE)
    assume e: "root = BLANK" "is_empty n"
    have "is_empty t"
      using st nb tr e(1) by (elim disjE exE conjE) (simp, metis UnCI, metis UnCI)
    then show ?thesis using e(2) by (simp add: is_empty_iff)
  next
    fix h assume h: "n = TerminalNode h" "root = H (TERMINAL @ h)"
    then have r: "TERMINAL @ h \<in> hashed_root n" using tr by simp
    have "\<exists>h'. t = TerminalNode h' \<and> root = H (TERMINAL @ h')"
      using st nb [of "TERMINAL @ h"] same [of "TERMINAL @ h"] ne [of h] r h(2) by fastforce
    then show ?thesis using same [of "TERMINAL @ h"] tr r h by fastforce
  next
    fix c0 c1 d0 d1 assume m: "n = MiddleNode c0 c1 root" "root = H (preimage d0 d1)" "preimage d0 d1 \<in> hashed_root n"
    have "\<exists>c0 c1. t = MiddleNode c0 c1 root"
      using st nb [of "preimage d0 d1"] same [of "preimage d0 d1"] ne [of _ d0 d1] tr m(2,3) by fastforce
    then show ?thesis using m(1) by auto
  qed
qed

theorem confirm_sound:
  assumes t: "wf_node H [] t" and root: "get_root H t = Inr root" and x: "length x = 32"
    and des: "deserialize_proof H pf = Inr n"
    and inj: "inj_on H (hashed_root n \<union> hashed_root t)" and blank: "BLANK \<notin> H ` (hashed_root n \<union> hashed_root t)"
    and ok: "confirm H root x pf expected = Inr True"
  shows "expected = (x \<in> elems t)"
proof -
  obtain pos where "deserialize H (Suc (length pf)) pf 0 [] = Inr (n, pos)"
    using des by (auto simp: deserialize_proof_def split: sum.splits if_splits)
  then have p: "parsed [] n" by (rule deserialize_parsed)
  obtain r p where r: "get_root H n = Inr root" "is_included n x 0 = Inr (r, p)" "r = expected"
    using ok des by (auto simp: confirm_def is_included_already_hashed_def rbind_eq_Inr split: sum.splits if_splits)
  have nt: "\<forall>h. n \<noteq> TruncatedNode h" using r(2) by auto
  have "get_hash n = get_hash t" by (rule get_root_eq [OF p nt t r(1) root inj blank])
  moreover have "inj_on H (hashed n \<union> hashed t)" by (rule inj_on_subset [OF inj]) (auto simp: hashed_root_def)
  ultimately show ?thesis using included_sound [OF p t, of x r p] r x by simp
qed

end

section \<open>Reading a proof always ends\<close>

lemma is_double_no_diverge: "is_double t \<noteq> Inl Diverges"
  by (induction t) auto

lemma mk_middle_no_diverge: "mk_middle H c0 c1 \<noteq> Inl Diverges"
  using is_double_no_diverge
  by (auto simp: mk_middle_def hashdown_def rbind_eq_Inl dict_getitem_def split: if_splits option.splits)

lemma audit_bits_no_diverge: "audit_bits h pos bits \<noteq> Inl Diverges"
  by (induction bits arbitrary: pos) (auto simp: rbind_eq_Inl get_bit_def split: if_splits)

lemma mk_terminal_audit_no_diverge: "mk_terminal_audit h bits \<noteq> Inl Diverges"
  using audit_bits_no_diverge by (auto simp: mk_terminal_audit_def mk_terminal_def rbind_eq_Inl split: if_splits)

lemma deserialize_progress: "deserialize H fuel pf pos bits = Inr (n, pos') \<Longrightarrow> pos < pos'"
proof (induction fuel arbitrary: pos bits n pos')
  case (Suc fuel)
  then show ?case
    by (auto simp: Let_def rbind_eq_Inr split: if_splits)
      (metis Suc_lessD less_trans lessI)
qed simp

lemma deserialize_enough: "length pf - pos < fuel \<Longrightarrow> deserialize H fuel pf pos bits \<noteq> Inl Diverges"
proof (induction fuel arbitrary: pos bits)
  case (Suc fuel)
  show ?case
  proof (cases "slice pos (pos + 1) pf = MIDDLE")
    case True
    then have "pos < length pf" by (cases "pos < length pf") (auto simp: slice_def MIDDLE_def)
    then have l: "length pf - (pos + 1) < fuel" using Suc.prems by simp
    have "deserialize H fuel pf pos1 (bits @ [True]) \<noteq> Inl Diverges"
      if "deserialize H fuel pf (pos + 1) (bits @ [False]) = Inr (v, pos1)" for v pos1
      using deserialize_progress [OF that] l by (intro Suc.IH) simp
    then show ?thesis
      using True Suc.IH [OF l] mk_middle_no_diverge by (auto simp: Let_def tag_defs rbind_eq_Inl)
  next
    case False
    then show ?thesis using mk_terminal_audit_no_diverge by (auto simp: Let_def rbind_eq_Inl)
  qed
qed simp

lemma is_included_no_diverge:
  "is_included t x d \<noteq> Inl Diverges \<and> other_included t x d c \<noteq> Inl Diverges"
proof (induction t arbitrary: d c)
  case (MiddleNode c0 c1 h)
  then have "is_included (MiddleNode c0 c1 h) x d \<noteq> Inl Diverges"
    by (auto simp: rbind_eq_Inl get_bit_def split: if_splits)
  moreover have "is_double (MiddleNode c0 c1 h) \<noteq> Inl Diverges" by (rule is_double_no_diverge)
  ultimately show ?case by (auto simp: rbind_eq_Inl simp del: is_double.simps is_included.simps split: if_splits)
qed auto

lemma confirm_no_diverge: "confirm H root x pf expected \<noteq> Inl Diverges"
proof -
  have "deserialize_proof H pf \<noteq> Inl Diverges"
    using deserialize_enough [of pf 0 "Suc (length pf)" H "[]"]
    by (auto simp: deserialize_proof_def split: sum.splits if_splits)
  moreover have "get_root H n \<noteq> Inl Diverges" for n
    by (auto simp: get_root_def compress_root_def sized_init_def split: if_splits)
  ultimately show ?thesis
    using is_included_no_diverge
    by (auto simp: confirm_def is_included_already_hashed_def rbind_eq_Inl split: sum.splits if_splits)
qed

section \<open>The interface the consensus rules use\<close>

text \<open>
  What block validation and light wallets rely on: a set that is built by insertions, whose tree (and so
  whose root) is a function of the inserted values alone, and that answers membership.
\<close>

locale committed_set =
  fixes empty :: 't
    and ins :: "'t \<Rightarrow> 'a \<Rightarrow> 't res"
    and query :: "'t \<Rightarrow> 'a \<Rightarrow> (bool \<times> 'p) res"
    and root :: "'t \<Rightarrow> 'r res"
    and check :: "'r \<Rightarrow> 'a \<Rightarrow> 'p \<Rightarrow> bool \<Rightarrow> bool res"
    and content :: "'t \<Rightarrow> 'a set"
    and inv :: "'t \<Rightarrow> bool"
    and val :: "'a \<Rightarrow> bool"
  assumes inv_empty: "inv empty"
    and content_empty: "content empty = {}"
    and ins_ok: "inv t \<Longrightarrow> val x \<Longrightarrow> \<exists>t'. ins t x = Inr t' \<and> inv t' \<and> content t' = insert x (content t)"
    and canonical: "inv t \<Longrightarrow> inv u \<Longrightarrow> content t = content u \<Longrightarrow> t = u"
    and query_ok: "inv t \<Longrightarrow> val x \<Longrightarrow> \<exists>p. query t x = Inr (x \<in> content t, p)"
    and root_ok: "inv t \<Longrightarrow> \<exists>r. root t = Inr r"
    and check_ok: "inv t \<Longrightarrow> val x \<Longrightarrow> query t x = Inr (b, p) \<Longrightarrow> root t = Inr r \<Longrightarrow> check r x p b = Inr True"
begin

lemma ins_all_ok:
  "inv t \<Longrightarrow> list_all val xs \<Longrightarrow> \<exists>t'. rfold ins t xs = Inr t' \<and> inv t' \<and> content t' = content t \<union> set xs"
proof (induction xs arbitrary: t)
  case (Cons x xs)
  then obtain u where "ins t x = Inr u" "inv u" "content u = insert x (content t)" using ins_ok [of t x] by auto
  then show ?case using Cons by fastforce
qed simp

lemma ins_all_empty: "list_all val xs \<Longrightarrow> \<exists>t. rfold ins empty xs = Inr t \<and> inv t \<and> content t = set xs"
  using ins_all_ok [OF inv_empty] content_empty by fastforce

text \<open>The result depends on the set of values only: neither order nor repetition matters.\<close>

lemma ins_all_order:
  assumes "list_all val xs" "set ys = set xs"
  shows "rfold ins empty ys = rfold ins empty xs"
proof -
  have "list_all val ys" using assms by (simp add: list_all_iff)
  then show ?thesis using ins_all_empty [OF assms(1)] ins_all_empty [of ys] canonical assms(2) by auto
qed

lemma prove_and_check:
  assumes "list_all val xs" "val x" "rfold ins empty xs = Inr t"
  shows "\<exists>p r. query t x = Inr (x \<in> set xs, p) \<and> root t = Inr r \<and> check r x p (x \<in> set xs) = Inr True"
proof -
  have t: "inv t" "content t = set xs" using ins_all_empty [OF assms(1)] assms(3) by auto
  obtain p where p: "query t x = Inr (x \<in> set xs, p)" using query_ok [OF t(1) assms(2)] t(2) by auto
  obtain r where r: "root t = Inr r" using root_ok [OF t(1)] by auto
  show ?thesis using p r check_ok [OF t(1) assms(2) p r] by auto
qed

end

interpretation merkle: committed_set EmptyNode "add_already_hashed sha256" is_included_already_hashed
  "get_root sha256" "confirm sha256" elems "wf_node sha256 []" "\<lambda>x. length x = 32"
proof (unfold_locales, goal_cases)
  case (3 t x)
  then show ?case using sha.add_wf [of "[]" t x] by (auto simp: add_already_hashed_def)
next
  case (4 t u)
  then show ?case by (rule sha.wf_unique)
next
  case (5 t x)
  then show ?case using sha.wf_is_included [of "[]" t x] by (auto simp: is_included_already_hashed_def)
next
  case (6 t)
  then show ?case by (rule sha.get_root_wf)
next
  case (7 t x b p r)
  then show ?case using sha.confirm_complete by blast
qed simp_all

section \<open>Properties\<close>

text \<open>Building a Merkle set from any list of 32-byte values succeeds; the tree is well formed and holds
  exactly the listed values.\<close>

lemma merkle_add_all:
  assumes "list_all (\<lambda>x. length x = 32) xs"
  shows "\<exists>t. rfold (add_already_hashed sha256) EmptyNode xs = Inr t \<and> wf_node sha256 [] t \<and> elems t = set xs"
  using merkle.ins_all_empty assms by blast

text \<open>The tree, and so the root that a block commits to, depends only on the set of values: neither the
  order of the insertions nor repeated insertions change it.\<close>

lemma merkle_root_order_independent:
  assumes "list_all (\<lambda>x. length x = 32) xs" "set ys = set xs"
  shows "rbind (rfold (add_already_hashed sha256) EmptyNode ys) (get_root sha256)
       = rbind (rfold (add_already_hashed sha256) EmptyNode xs) (get_root sha256)"
  using merkle.ins_all_order [OF assms] by simp

lemma merkle_root_order_independent_witness:
  "rbind (rfold (add_already_hashed sha256) EmptyNode [replicate 32 5, replicate 32 0, replicate 32 5]) (get_root sha256)
   = rbind (rfold (add_already_hashed sha256) EmptyNode [replicate 32 0, replicate 32 5]) (get_root sha256)"
  by (rule merkle_root_order_independent) auto

text \<open>C18. Proofs are complete: for every value, present or not, the set answers correctly and gives a proof
  that the checker accepts against the root, for inclusion and for exclusion.\<close>

theorem merkle_proofs_complete:
  assumes "list_all (\<lambda>x. length x = 32) xs" "length x = 32"
    and "rfold (add_already_hashed sha256) EmptyNode xs = Inr t"
  shows "\<exists>p r. is_included_already_hashed t x = Inr (x \<in> set xs, p) \<and> get_root sha256 t = Inr r \<and>
           confirm sha256 r x p (x \<in> set xs) = Inr True"
  using merkle.prove_and_check assms by blast

theorem merkle_proofs_complete_witness:
  "\<exists>p r. is_included_already_hashed (TerminalNode (replicate 32 5)) (replicate 32 6) = Inr (False, p) \<and>
         get_root sha256 (TerminalNode (replicate 32 5)) = Inr r \<and> confirm sha256 r (replicate 32 6) p False = Inr True"
proof -
  have "(replicate 32 6 :: bytes) \<noteq> replicate 32 5" by (simp add: numeral_eq_Suc)
  then show ?thesis
    using merkle_proofs_complete [of "[replicate 32 5]" "replicate 32 6" "TerminalNode (replicate 32 5)"]
    by (simp add: add_already_hashed_def mk_terminal_def)
qed

text \<open>C17. Proofs are sound: when the checker accepts a proof of inclusion (exclusion) against the root of a
  set, the value is (is not) in that set, provided the hash has no collision among the strings hashed in
  the set and in the proof, and none of them hashes to the 32 zero bytes that stand for the empty set.\<close>

theorem merkle_proofs_sound:
  assumes "hash32 H" and "wf_node H [] t" and "get_root H t = Inr root" and "length x = 32"
    and "deserialize_proof H pf = Inr n"
    and "inj_on H (hashed_root n \<union> hashed_root t)" and "BLANK \<notin> H ` (hashed_root n \<union> hashed_root t)"
    and "confirm H root x pf expected = Inr True"
  shows "expected = (x \<in> elems t)"
  using hash32.confirm_sound assms by blast

definition witness_hash :: hasher where
  "witness_hash s = replicate 32 (7 :: byte)"

definition witness_tree :: node where
  "witness_tree = MiddleNode (TerminalNode (replicate 32 0)) (TerminalNode (replicate 32 128)) (replicate 32 7)"

definition witness_proof :: bytes where
  "witness_proof = MIDDLE @ TERMINAL @ replicate 32 0 @ TERMINAL @ replicate 32 128"

theorem merkle_proofs_sound_witness:
  "True = (replicate 32 128 \<in> elems witness_tree)"
proof (rule merkle_proofs_sound)
  show "hash32 witness_hash" by unfold_locales (simp add: witness_hash_def)
  show "deserialize_proof witness_hash witness_proof = Inr witness_tree" by code_simp
  show "wf_node witness_hash [] witness_tree"
    by (simp add: witness_tree_def matches_def bit_at_def) code_simp
  show "get_root witness_hash witness_tree = Inr (replicate 32 7)" by code_simp
  show "inj_on witness_hash (hashed_root witness_tree \<union> hashed_root witness_tree)"
    by (simp add: witness_tree_def hashed_root_def)
  show "BLANK \<notin> witness_hash ` (hashed_root witness_tree \<union> hashed_root witness_tree)"
    by (auto simp: witness_hash_def BLANK_def)
  show "confirm witness_hash (replicate 32 7) (replicate 32 128) witness_proof True = Inr True" by code_simp
qed simp

text \<open>C19. Checking a proof always ends, whatever bytes a peer sent.\<close>

theorem confirm_returns: "confirm H root x pf expected \<noteq> Inl Diverges"
  by (rule confirm_no_diverge)

text \<open>A proof that is cut off inside a terminal is not answered with \<open>False\<close>: the check raises an
  \<open>AssertionError\<close>, which \<open>_confirm\<close> does not catch.\<close>

lemma confirm_short_proof_raises:
  assumes "length bs < 32"
  shows "confirm H root x (TERMINAL @ bs) expected = Inl AssertionError"
  using assms by (simp add: confirm_def deserialize_proof_def slice_def tag_defs mk_terminal_audit_def mk_terminal_def)

lemma confirm_short_proof_raises_witness:
  "confirm sha256 BLANK BLANK (TERMINAL @ [1, 2, 3]) True = Inl AssertionError"
  by (rule confirm_short_proof_raises) simp

end
