(* ===== verification/Constants.thy ===== *)
theory Constants
  imports Ints
begin

text \<open>
  \<open>consensus/constants.py\<close> and \<open>consensus/default_constants.py\<close>: the parameters of a chain.  The record
  has the fields of the dataclass in its order; integer annotations are not enforced by a dataclass, so
  every numeric field is an \<open>int\<close>.
\<close>

record consensus_constants =
  SLOT_BLOCKS_TARGET :: int
  MIN_BLOCKS_PER_CHALLENGE_BLOCK :: int
  MAX_SUB_SLOT_BLOCKS :: int
  NUM_SPS_SUB_SLOT :: int
  SUB_SLOT_ITERS_STARTING :: int
  DIFFICULTY_CONSTANT_FACTOR :: int
  DIFFICULTY_STARTING :: int
  DIFFICULTY_CHANGE_MAX_FACTOR :: int
  SUB_EPOCH_BLOCKS :: int
  EPOCH_BLOCKS :: int
  SIGNIFICANT_BITS :: int
  DISCRIMINANT_SIZE_BITS :: int
  NUMBER_ZERO_BITS_PLOT_FILTER :: int
  MIN_PLOT_SIZE :: int
  MAX_PLOT_SIZE :: int
  SUB_SLOT_TIME_TARGET :: int
  NUM_SP_INTERVALS_EXTRA :: int
  MAX_FUTURE_TIME :: int
  NUMBER_OF_TIMESTAMPS :: int
  GENESIS_CHALLENGE :: bytes
  AGG_SIG_ME_ADDITIONAL_DATA :: bytes
  GENESIS_PRE_FARM_POOL_PUZZLE_HASH :: bytes
  GENESIS_PRE_FARM_FARMER_PUZZLE_HASH :: bytes
  GENESIS_PRE_FARM_COMMUNITY_PUZZLE_HASH :: bytes
  MAX_VDF_WITNESS_SIZE :: int
  MEMPOOL_BLOCK_BUFFER :: int
  MAX_COIN_AMOUNT :: int
  MAX_BLOCK_COST_CLVM :: int
  COST_PER_BYTE :: int
  WEIGHT_PROOF_THRESHOLD :: int
  WEIGHT_PROOF_RECENT_BLOCKS :: int
  MAX_BLOCK_COUNT_PER_REQUESTS :: int
  BLOCKS_CACHE_SIZE :: int
  NETWORK_TYPE :: int
  MAX_GENERATOR_SIZE :: int
  MAX_GENERATOR_REF_LIST_SIZE :: int
  POOL_SUB_SLOT_ITERS :: int
  SOFT_FORK_HEIGHT :: int

text \<open>A 32-byte constant given in hexadecimal by the source.\<close>

definition hex32 :: "int \<Rightarrow> bytes" where
  "hex32 n = be_encode 32 n"

definition DEFAULT_CONSTANTS :: consensus_constants where
  "DEFAULT_CONSTANTS = \<lparr>
     SLOT_BLOCKS_TARGET = 32,
     MIN_BLOCKS_PER_CHALLENGE_BLOCK = 16,
     MAX_SUB_SLOT_BLOCKS = 128,
     NUM_SPS_SUB_SLOT = 64,
     SUB_SLOT_ITERS_STARTING = 2 ^ 27,
     DIFFICULTY_CONSTANT_FACTOR = 2 ^ 57,
     DIFFICULTY_STARTING = 7,
     DIFFICULTY_CHANGE_MAX_FACTOR = 3,
     SUB_EPOCH_BLOCKS = 384,
     EPOCH_BLOCKS = 4608,
     SIGNIFICANT_BITS = 8,
     DISCRIMINANT_SIZE_BITS = 1024,
     NUMBER_ZERO_BITS_PLOT_FILTER = 9,
     MIN_PLOT_SIZE = 29,
     MAX_PLOT_SIZE = 31,
     SUB_SLOT_TIME_TARGET = 600,
     NUM_SP_INTERVALS_EXTRA = 3,
     MAX_FUTURE_TIME = 5 * 60,
     NUMBER_OF_TIMESTAMPS = 11,
     GENESIS_CHALLENGE = hex32 0xe3b0c44298fc1c149afbf4c8996fb92427ae41e4649b934ca495991b7852b855,
     AGG_SIG_ME_ADDITIONAL_DATA = hex32 0x69cfa80789667c51428eaf2f2126e6be944462ee5b59b8128e90b9a650f865c1,
     GENESIS_PRE_FARM_POOL_PUZZLE_HASH =
       hex32 0x6d13b5296e6e7e2307c79294053b2fc49899cdc0e105beb7d2d4fac875c94bd1,
     GENESIS_PRE_FARM_FARMER_PUZZLE_HASH =
       hex32 0x8fc4ed983203c84ec9f15eedafc96cb8646825bc1049e05209005453285135a5,
     GENESIS_PRE_FARM_COMMUNITY_PUZZLE_HASH =
       hex32 0x4e7d87c3752c0b4a1f25ec7ac5c10f347c39406e6753220043f28e5a450e0388,
     MAX_VDF_WITNESS_SIZE = 64,
     MEMPOOL_BLOCK_BUFFER = 50,
     MAX_COIN_AMOUNT = 2 ^ 64 - 1,
     MAX_BLOCK_COST_CLVM = 11000000000,
     COST_PER_BYTE = 12000,
     WEIGHT_PROOF_THRESHOLD = 2,
     WEIGHT_PROOF_RECENT_BLOCKS = 1000,
     MAX_BLOCK_COUNT_PER_REQUESTS = 32,
     BLOCKS_CACHE_SIZE = 4608 + 128 * 4,
     NETWORK_TYPE = 0,
     MAX_GENERATOR_SIZE = 1000000,
     MAX_GENERATOR_REF_LIST_SIZE = 512,
     POOL_SUB_SLOT_ITERS = 36718720,
     SOFT_FORK_HEIGHT = 2300000 \<rparr>"

text \<open>
  What the consensus code relies on in its constants: the relations the comments of \<open>constants.py\<close> and
  \<open>default_constants.py\<close> ask for, as far as the theorems need them.
\<close>

definition constants_ok :: "consensus_constants \<Rightarrow> bool" where
  "constants_ok c \<longleftrightarrow>
     0 < NUM_SP_INTERVALS_EXTRA c \<and> NUM_SP_INTERVALS_EXTRA c < NUM_SPS_SUB_SLOT c \<and>
     NUM_SPS_SUB_SLOT c \<le> 255 \<and>
     1 < MIN_BLOCKS_PER_CHALLENGE_BLOCK c \<and> MIN_BLOCKS_PER_CHALLENGE_BLOCK c < 2 ^ 8 \<and>
     0 < SUB_EPOCH_BLOCKS c \<and> 0 < EPOCH_BLOCKS c \<and> EPOCH_BLOCKS c mod SUB_EPOCH_BLOCKS c = 0 \<and>
     1 < DIFFICULTY_CHANGE_MAX_FACTOR c \<and> 0 < SIGNIFICANT_BITS c \<and> 0 < SUB_SLOT_TIME_TARGET c \<and>
     0 < SUB_SLOT_ITERS_STARTING c \<and> SUB_SLOT_ITERS_STARTING c < 2 ^ 64 \<and>
     SUB_SLOT_ITERS_STARTING c mod NUM_SPS_SUB_SLOT c = 0 \<and>
     0 < DIFFICULTY_STARTING c \<and> DIFFICULTY_STARTING c < 2 ^ 64"

lemma default_constants_ok: "constants_ok DEFAULT_CONSTANTS"
  by (simp add: constants_ok_def DEFAULT_CONSTANTS_def)

end
