(* ===== verification/Floats.thy ===== *)
theory Floats
  imports Prelude
begin

text \<open>
  Python's \<open>float\<close> where the consensus code uses it: the block rewards are products of decimal
  literals, and fee rates are quotients of integers.  A non-negative double is its 53-bit significand and
  its exponent; every operation returns the correctly rounded exact result (round to nearest, ties to
  even), as IEEE 754 requires of \<open>*\<close> and as Python documents for \<open>int / int\<close>.  The values that occur
  stay far inside the exponent range, so neither overflow nor subnormal numbers are modelled.
\<close>

section \<open>Bit lengths\<close>

function bit_length_pos :: "int \<Rightarrow> nat" where
  "bit_length_pos x = (if x \<le> 0 then 0 else Suc (bit_length_pos (x div 2)))"
  by pat_completeness auto
termination
  by (relation "measure nat") auto

declare bit_length_pos.simps [simp del]

text \<open>\<open>int.bit_length\<close>: the bits of the absolute value.\<close>

definition bit_length :: "int \<Rightarrow> nat" where
  "bit_length x = bit_length_pos \<bar>x\<bar>"

lemma bit_length_pos_bounds: "0 < x \<Longrightarrow> 2 ^ (bit_length_pos x - 1) \<le> x \<and> x < 2 ^ bit_length_pos x"
proof (induction x rule: bit_length_pos.induct)
  case (1 x)
  have eq: "bit_length_pos x = Suc (bit_length_pos (x div 2))" using 1(2) bit_length_pos.simps [of x] by simp
  show ?case
  proof (cases "x div 2 = 0")
    case True
    then have "x = 1" using 1(2) by auto
    then show ?thesis using bit_length_pos.simps [of 0] eq by simp
  next
    case False
    then have pos: "0 < x div 2" using 1(2) by auto
    then have ih: "2 ^ (bit_length_pos (x div 2) - 1) \<le> x div 2" "x div 2 < 2 ^ bit_length_pos (x div 2)"
      using 1 by auto
    obtain k where k: "bit_length_pos (x div 2) = Suc k" using pos bit_length_pos.simps [of "x div 2"] by auto
    have "2 ^ k * 2 \<le> x" "x < 2 ^ Suc k * 2" using ih k by auto
    then show ?thesis using eq k by simp
  qed
qed

lemma bit_length_bounds: "0 < x \<Longrightarrow> 2 ^ (bit_length x - 1) \<le> x \<and> x < 2 ^ bit_length x"
  using bit_length_pos_bounds [of x] by (simp add: bit_length_def)

lemma bit_length_pos_iff [simp]: "0 < bit_length x \<longleftrightarrow> x \<noteq> 0"
  using bit_length_pos.simps [of "\<bar>x\<bar>"] by (auto simp: bit_length_def)

lemma bit_length_0 [simp]: "bit_length 0 = 0"
  by (simp add: bit_length_def bit_length_pos.simps)

section \<open>Doubles\<close>

text \<open>\<open>Double m e\<close> is \<open>m * 2 ^ e\<close>; a nonzero value has \<open>2 ^ 52 \<le> m < 2 ^ 53\<close>.\<close>

datatype double = Double (significand: int) (exponent: int)

definition pow2 :: "int \<Rightarrow> int" where
  "pow2 e = 2 ^ nat e"

text \<open>Round the fraction \<open>p / q\<close> to the nearest integer, ties to even.\<close>

definition round_half_even :: "int \<Rightarrow> int \<Rightarrow> int" where
  "round_half_even p q =
     (let d = p div q; r = p mod q in
      if 2 * r < q \<or> (2 * r = q \<and> even d) then d else d + 1)"

text \<open>\<open>p / q\<close> scaled by \<open>2 ^ s\<close>, as a numerator and a denominator.\<close>

definition scaled :: "int \<Rightarrow> int \<Rightarrow> int \<Rightarrow> int \<times> int" where
  "scaled p q s = (if 0 \<le> s then (p * pow2 s, q) else (p, q * pow2 (- s)))"

definition fl_ratio :: "int \<Rightarrow> int \<Rightarrow> double" where
  "fl_ratio p q =
     (if p = 0 then Double 0 0 else
      let s0 = 53 - (int (bit_length p) - int (bit_length q));
          (n0, d0) = scaled p q s0;
          s = (if n0 div d0 < 2 ^ 53 then s0 else s0 - 1);
          (n, d) = scaled p q s;
          m = round_half_even n d
      in if m = 2 ^ 53 then Double (2 ^ 52) (1 - s) else Double m (- s))"

text \<open>\<open>int / int\<close>, \<open>float(int)\<close>, \<open>float * float\<close> and \<open>int(float)\<close> on non-negative values.\<close>

definition fl_div :: "int \<Rightarrow> int \<Rightarrow> double res" where
  "fl_div p q = (if q = 0 then Inl ZeroDivisionError else Inr (fl_ratio p q))"

definition fl_of_int :: "int \<Rightarrow> double" where
  "fl_of_int n = fl_ratio n 1"

fun fl_mul :: "double \<Rightarrow> double \<Rightarrow> double" where
  "fl_mul (Double m1 e1) (Double m2 e2) =
     (case fl_ratio (m1 * m2) 1 of Double m e \<Rightarrow> if m = 0 then Double 0 0 else Double m (e + e1 + e2))"

fun fl_trunc :: "double \<Rightarrow> int" where
  "fl_trunc (Double m e) = (if 0 \<le> e then m * pow2 e else m div pow2 (- e))"

text \<open>Comparison of non-negative doubles.\<close>

fun fl_less :: "double \<Rightarrow> double \<Rightarrow> bool" where
  "fl_less (Double m1 e1) (Double m2 e2) =
     (if e1 \<le> e2 then m1 < m2 * pow2 (e2 - e1) else m1 * pow2 (e1 - e2) < m2)"

abbreviation fl_le :: "double \<Rightarrow> double \<Rightarrow> bool" where
  "fl_le x y \<equiv> \<not> fl_less y x"

section \<open>Normal doubles and their order\<close>

definition fl_normal :: "double \<Rightarrow> bool" where
  "fl_normal x \<longleftrightarrow> x = Double 0 0 \<or> 2 ^ 52 \<le> significand x \<and> significand x < 2 ^ 53"

lemma pow2_pos [simp]: "0 < pow2 e"
  by (simp add: pow2_def)

lemma pow2_ge_2: "0 < e \<Longrightarrow> 2 \<le> pow2 e"
proof -
  assume "0 < e"
  then obtain n where "nat e = Suc n" by (cases "nat e") auto
  then show ?thesis by (simp add: pow2_def)
qed

text \<open>On normal doubles the comparison is lexicographic: exponent first.\<close>

lemma fl_less_normal:
  assumes "fl_normal x" "fl_normal y"
  shows "fl_less x y \<longleftrightarrow>
         (if x = Double 0 0 then y \<noteq> Double 0 0
          else y \<noteq> Double 0 0 \<and> (exponent x < exponent y \<or> exponent x = exponent y \<and> significand x < significand y))"
proof -
  obtain m1 e1 m2 e2 where xy: "x = Double m1 e1" "y = Double m2 e2" by (cases x; cases y) auto
  have up: "m < n * pow2 e" if "m < 2 ^ 53" "2 ^ 52 \<le> n" "0 < e" for m n e :: int
  proof -
    have "2 ^ 52 * 2 \<le> n * pow2 e" using that pow2_ge_2 [OF that(3)] by (intro mult_mono) auto
    then show ?thesis using that(1) by simp
  qed
  consider (z) "x = Double 0 0 \<or> y = Double 0 0"
    | (nz) "2 ^ 52 \<le> m1" "m1 < 2 ^ 53" "2 ^ 52 \<le> m2" "m2 < 2 ^ 53" "x \<noteq> Double 0 0" "y \<noteq> Double 0 0"
    using assms xy by (auto simp: fl_normal_def)
  then show ?thesis
  proof cases
    case z
    then show ?thesis
      using assms xy by (auto simp: fl_normal_def zero_less_mult_iff mult_less_0_iff) (auto simp: pow2_def)
  next
    case nz
    consider "e1 < e2" | "e1 = e2" | "e2 < e1" by linarith
    then show ?thesis
    proof cases
      case 1
      then show ?thesis using nz up [of m1 m2 "e2 - e1"] xy by simp
    next
      case 2
      then show ?thesis using nz xy by (simp add: pow2_def)
    next
      case 3
      then show ?thesis using nz up [of m2 m1 "e1 - e2"] xy by simp
    qed
  qed
qed

declare fl_less.simps [simp del]

lemma fl_less_irrefl: "fl_normal x \<Longrightarrow> \<not> fl_less x x"
  by (simp add: fl_less_normal)

lemma fl_less_trans:
  "fl_normal x \<Longrightarrow> fl_normal y \<Longrightarrow> fl_normal z \<Longrightarrow> fl_less x y \<Longrightarrow> fl_less y z \<Longrightarrow> fl_less x z"
  by (auto simp: fl_less_normal split: if_splits)

lemma fl_less_linear:
  "fl_normal x \<Longrightarrow> fl_normal y \<Longrightarrow> x \<noteq> y \<Longrightarrow> fl_less x y \<or> fl_less y x"
  by (cases x; cases y) (auto simp: fl_less_normal)

text \<open>A quotient of a non-negative and a positive integer is a normal double.\<close>

lemma round_bounds:
  assumes "0 < d" "a * d \<le> n" "n < b * d"
  shows "a \<le> round_half_even n d \<and> round_half_even n d \<le> b"
proof -
  have "a * d div d \<le> n div d" using assms(1,2) by (intro zdiv_mono1)
  then have "a \<le> n div d" using assms(1) by simp
  moreover have "n div d < b"
  proof (rule ccontr)
    assume "\<not> n div d < b"
    then have "b * d \<le> n div d * d" using assms(1) by (intro mult_right_mono) auto
    also have "\<dots> \<le> n" using assms(1) by (simp add: minus_mod_eq_div_mult [symmetric])
    finally show False using assms(3) by simp
  qed
  ultimately show ?thesis by (auto simp: round_half_even_def Let_def)
qed

lemma scaled_pos: "0 < p \<Longrightarrow> 0 < q \<Longrightarrow> scaled p q s = (n, d) \<Longrightarrow> 0 < n \<and> 0 < d"
  by (auto simp: scaled_def split: if_splits)

lemma scaled_half:
  assumes "scaled p q s = (n0, d0)" "scaled p q (s - 1) = (n, d)"
  shows "n0 = 2 * n \<and> d0 = d \<or> n = n0 \<and> d = 2 * d0"
proof (cases "0 < s")
  case True
  then have "nat s = Suc (nat (s - 1))" by simp
  then show ?thesis using assms True by (auto simp: scaled_def pow2_def)
next
  case False
  then have "nat (1 - s) = Suc (nat (- s))" by simp
  then show ?thesis using assms False by (auto simp: scaled_def pow2_def split: if_splits)
qed

lemma scaled_range:
  assumes "0 < p" "0 < q" "scaled p q (53 - (int (bit_length p) - int (bit_length q))) = (n, d)"
  shows "2 ^ 52 * d \<le> n \<and> n < 2 ^ 54 * d"
proof -
  obtain a b where ab: "bit_length p = Suc a" "bit_length q = Suc b"
    using assms(1,2) bit_length_pos_iff by (metis gr0_conv_Suc less_irrefl)
  have p: "2 ^ a \<le> p" "p < 2 ^ Suc a" and q: "2 ^ b \<le> q" "q < 2 ^ Suc b"
    using bit_length_bounds [OF assms(1)] bit_length_bounds [OF assms(2)] ab by auto
  show ?thesis
  proof (cases "a \<le> 53 + b")
    case True
    define k where "k = 53 + b - a"
    have nd: "n = p * 2 ^ k" "d = q"
      using assms(3) ab True by (auto simp: scaled_def pow2_def k_def nat_diff_distrib nat_add_distrib split: if_splits)
    have "2 ^ 52 * q \<le> 2 ^ (53 + b)" using q(2) by (simp add: power_add)
    also have "\<dots> = 2 ^ a * 2 ^ k" using True by (simp add: k_def flip: power_add)
    also have "\<dots> \<le> p * 2 ^ k" using p(1) by simp
    finally have lo: "2 ^ 52 * q \<le> p * 2 ^ k" .
    have "p * 2 ^ k < 2 ^ Suc a * 2 ^ k" using p(2) by (simp del: power_Suc)
    also have "\<dots> = 2 ^ (54 + b)" using True by (simp add: k_def flip: power_add power_Suc)
    also have "\<dots> \<le> 2 ^ 54 * q" using q(1) by (simp add: power_add)
    finally show ?thesis using lo nd by simp
  next
    case False
    define k where "k = a - b - 53"
    have nd: "n = p" "d = q * 2 ^ k"
      using assms(3) ab False by (auto simp: scaled_def pow2_def k_def nat_diff_distrib split: if_splits)
    have ka: "2 ^ (53 + b) * 2 ^ k = (2 :: int) ^ a" using False by (simp add: k_def flip: power_add)
    have "2 ^ 52 * (q * 2 ^ k) \<le> 2 ^ 52 * (2 ^ Suc b * 2 ^ k)" using q(2) by simp
    also have "\<dots> = 2 ^ a" using ka by (simp add: power_add)
    finally have lo: "2 ^ 52 * (q * 2 ^ k) \<le> p" using p(1) by simp
    have "p < 2 ^ 54 * (2 ^ b * 2 ^ k)" using p(2) ka by (simp add: power_add)
    also have "\<dots> \<le> 2 ^ 54 * (q * 2 ^ k)" using q(1) by simp
    finally show ?thesis using lo nd by simp
  qed
qed

lemma fl_ratio_normal:
  assumes "0 \<le> p" "0 < q"
  shows "fl_normal (fl_ratio p q)"
proof (cases "p = 0")
  case True
  then show ?thesis by (simp add: fl_ratio_def fl_normal_def)
next
  case False
  then have p: "0 < p" using assms by simp
  define s0 where "s0 = 53 - (int (bit_length p) - int (bit_length q))"
  obtain n0 d0 where sc0: "scaled p q s0 = (n0, d0)" by fastforce
  define s where "s = (if n0 div d0 < 2 ^ 53 then s0 else s0 - 1)"
  obtain n d where sc: "scaled p q s = (n, d)" by fastforce
  have r0: "2 ^ 52 * d0 \<le> n0" "n0 < 2 ^ 54 * d0"
    using scaled_range [OF p assms(2)] sc0 by (simp_all add: s0_def)
  have d: "0 < d" "0 < d0" using scaled_pos [OF p assms(2)] sc sc0 by blast+
  have "2 ^ 52 * d \<le> n \<and> n < 2 ^ 53 * d"
  proof (cases "n0 div d0 < 2 ^ 53")
    case True
    then have "n0 < 2 ^ 53 * d0"
      using d(2) mult_right_mono [of "2 ^ 53" "n0 div d0" d0] zdiv_mono1 [of "2 ^ 53 * d0" n0 d0]
      by (cases "n0 < 2 ^ 53 * d0") auto
    then show ?thesis using r0 sc sc0 True by (simp add: s_def)
  next
    case False
    then have "2 ^ 53 * d0 \<le> n0 div d0 * d0" using d(2) by (intro mult_right_mono) auto
    also have "\<dots> \<le> n0" using d(2) by (simp add: minus_mod_eq_div_mult [symmetric])
    finally have "2 ^ 53 * d0 \<le> n0" .
    moreover have "n0 = 2 * n \<and> d0 = d \<or> n = n0 \<and> d = 2 * d0"
      using scaled_half [OF sc0] sc False by (simp add: s_def)
    ultimately show ?thesis using r0 by auto
  qed
  then have r: "2 ^ 52 \<le> round_half_even n d" "round_half_even n d \<le> 2 ^ 53"
    using round_bounds [OF d(1)] by auto
  have "fl_ratio p q = (if round_half_even n d = 2 ^ 53 then Double (2 ^ 52) (1 - s) else Double (round_half_even n d) (- s))"
    unfolding fl_ratio_def Let_def s0_def [symmetric] sc0 prod.case s_def [symmetric] sc using False by simp
  then show ?thesis using r by (auto simp: fl_normal_def)
qed

end
