(* ===== verification/PotIterations.thy ===== *)
theory PotIterations
  imports Constants Floats
begin

unbundle bit_operations_syntax

text \<open>
  Proof-of-time arithmetic: \<open>consensus/pot_iterations.py\<close>, \<open>consensus/pos_quality.py\<close>,
  \<open>consensus/deficit.py\<close> and \<open>util/significant_bits.py\<close>.  The signage point at index \<open>i\<close> of a sub-slot of
  \<open>ssi\<close> iterations lies at \<open>i * (ssi / NUM_SPS_SUB_SLOT)\<close>; a block found there is infused
  \<open>NUM_SP_INTERVALS_EXTRA\<close> intervals and \<open>required_iters\<close> later, in the next sub-slot when that runs over
  the end (an overflow block).
\<close>

section \<open>Significant bits\<close>

definition truncate_to_significant_bits :: "int \<Rightarrow> int \<Rightarrow> int" where
  "truncate_to_significant_bits input_x num_significant_bits =
     (let x = \<bar>input_x\<bar> in
      if num_significant_bits > int (bit_length x) then input_x
      else
        let lower = nat (int (bit_length x) - num_significant_bits);
            msk = (push_bit (bit_length x) 1 - 1) - (push_bit lower 1 - 1)
        in if input_x < 0 then - (x AND msk) else x AND msk)"

text \<open>The loop \<open>for i in range(n, n + k)\<close> that returns at the first set bit.\<close>

primrec first_bit_from :: "int \<Rightarrow> nat \<Rightarrow> nat \<Rightarrow> nat option" where
  "first_bit_from x 0 i = None"
| "first_bit_from x (Suc k) i =
     (if (x AND push_bit i 1) > 0 then Some i else first_bit_from x k (Suc i))"

definition count_significant_bits :: "int \<Rightarrow> int" where
  "count_significant_bits input_x =
     (case first_bit_from input_x (bit_length input_x) 0 of
        Some i \<Rightarrow> int (bit_length input_x) - int i
      | None \<Rightarrow> 0)"

section \<open>Signage and infusion points\<close>

definition is_overflow_block :: "consensus_constants \<Rightarrow> int \<Rightarrow> bool res" where
  "is_overflow_block constants signage_point_index =
     (if signage_point_index \<ge> NUM_SPS_SUB_SLOT constants then Inl ValueError
      else Inr (signage_point_index \<ge> NUM_SPS_SUB_SLOT constants - NUM_SP_INTERVALS_EXTRA constants))"

definition calculate_sp_interval_iters :: "consensus_constants \<Rightarrow> int \<Rightarrow> int res" where
  "calculate_sp_interval_iters constants sub_slot_iters =
     (if NUM_SPS_SUB_SLOT constants = 0 then Inl ZeroDivisionError
      else if sub_slot_iters mod NUM_SPS_SUB_SLOT constants \<noteq> 0 then Inl AssertionError
      else uint64 (sub_slot_iters div NUM_SPS_SUB_SLOT constants))"

definition calculate_sp_iters :: "consensus_constants \<Rightarrow> int \<Rightarrow> int \<Rightarrow> int res" where
  "calculate_sp_iters constants sub_slot_iters signage_point_index =
     (if signage_point_index \<ge> NUM_SPS_SUB_SLOT constants then Inl ValueError
      else rbind (calculate_sp_interval_iters constants sub_slot_iters) (\<lambda>i.
           uint64 (i * signage_point_index)))"

definition calculate_ip_iters :: "consensus_constants \<Rightarrow> int \<Rightarrow> int \<Rightarrow> int \<Rightarrow> int res" where
  "calculate_ip_iters constants sub_slot_iters signage_point_index required_iters =
     rbind (calculate_sp_iters constants sub_slot_iters signage_point_index) (\<lambda>sp_iters.
     rbind (calculate_sp_interval_iters constants sub_slot_iters) (\<lambda>sp_interval_iters.
       if sp_interval_iters = 0 then Inl ZeroDivisionError
       else if sp_iters mod sp_interval_iters \<noteq> 0 \<or> sp_iters \<ge> sub_slot_iters then Inl ValueError
       else if required_iters \<ge> sp_interval_iters \<or> required_iters = 0 then Inl ValueError
       else uint64 ((sp_iters + NUM_SP_INTERVALS_EXTRA constants * sp_interval_iters + required_iters)
                    mod sub_slot_iters)))"

text \<open>
  \<open>_expected_plot_size(k)\<close>.  For \<open>k < 1\<close> Python's \<open>2 ** (k - 1)\<close> is a float and the product lies strictly
  between \<open>-1\<close> and \<open>1\<close>, so that \<open>uint64\<close> makes it \<open>0\<close>.
\<close>

definition expected_plot_size :: "int \<Rightarrow> int res" where
  "expected_plot_size k = (if k < 1 then Inr 0 else uint64 ((2 * k + 1) * 2 ^ nat (k - 1)))"

definition calculate_iterations_quality ::
  "(bytes \<Rightarrow> bytes) \<Rightarrow> int \<Rightarrow> bytes \<Rightarrow> int \<Rightarrow> int \<Rightarrow> bytes \<Rightarrow> int res" where
  "calculate_iterations_quality std_hash difficulty_constant_factor quality_string plot_k difficulty
       cc_sp_output_hash =
     (let sp_quality_string = std_hash (quality_string @ cc_sp_output_hash) in
      rbind (expected_plot_size plot_k) (\<lambda>plot_size.
        if plot_size = 0 then Inl ZeroDivisionError
        else rbind (uint64 (difficulty * difficulty_constant_factor * from_bytes False sp_quality_string
                            div (2 ^ 256 * plot_size))) (\<lambda>iters.
             Inr (max iters 1))))"

section \<open>Deficits\<close>

text \<open>\<open>prev_deficit\<close> is \<open>prev_b.deficit\<close>, or \<open>None\<close> for a missing previous block.\<close>

definition calculate_deficit ::
  "consensus_constants \<Rightarrow> int \<Rightarrow> int option \<Rightarrow> bool \<Rightarrow> int \<Rightarrow> int res" where
  "calculate_deficit constants height prev_deficit overflow num_finished_sub_slots =
     (if height = 0 then uint8 (MIN_BLOCKS_PER_CHALLENGE_BLOCK constants - 1)
      else case prev_deficit of
        None \<Rightarrow> Inl AssertionError
      | Some d \<Rightarrow>
          if d = MIN_BLOCKS_PER_CHALLENGE_BLOCK constants then
            if overflow then
              if num_finished_sub_slots > 0 then uint8 (d - 1) else uint8 d
            else uint8 (d - 1)
          else if d = 0 then
            if num_finished_sub_slots = 0 then uint8 0
            else if num_finished_sub_slots = 1 then
              if overflow then uint8 (MIN_BLOCKS_PER_CHALLENGE_BLOCK constants)
              else uint8 (MIN_BLOCKS_PER_CHALLENGE_BLOCK constants - 1)
            else uint8 (MIN_BLOCKS_PER_CHALLENGE_BLOCK constants - 1)
          else uint8 (d - 1))"

section \<open>Arithmetic of significant bits\<close>

lemma bit_length_le: "0 \<le> x \<Longrightarrow> x < 2 ^ n \<Longrightarrow> bit_length x \<le> n"
proof (rule ccontr)
  assume x: "0 \<le> x" "x < 2 ^ n" and "\<not> bit_length x \<le> n"
  then have n: "n \<le> bit_length x - 1" and "0 < bit_length x" by auto
  then have "2 ^ (bit_length x - 1) \<le> x" using bit_length_bounds [of x] x(1) by auto
  moreover have "(2 :: int) ^ n \<le> 2 ^ (bit_length x - 1)" using n by simp
  ultimately show False using x(2) by linarith
qed

lemma bit_length_unique: "2 ^ n \<le> x \<Longrightarrow> x < 2 ^ Suc n \<Longrightarrow> bit_length x = Suc n"
proof (rule antisym)
  assume x: "2 ^ n \<le> x" "x < 2 ^ Suc n"
  have pos: "0 < x" using x(1) by (rule less_le_trans [rotated]) simp
  then show "bit_length x \<le> Suc n" using bit_length_le [of x "Suc n"] x(2) by simp
  have "(2 :: int) ^ n < 2 ^ bit_length x" using bit_length_bounds [OF pos] x(1) by linarith
  then show "Suc n \<le> bit_length x" by simp
qed

lemma and_high_mask:
  fixes x :: int
  assumes "0 \<le> x" "x < 2 ^ b" "l \<le> b"
  shows "x AND ((push_bit b 1 - 1) - (push_bit l 1 - 1)) = x div 2 ^ l * 2 ^ l"
proof -
  have m: "(push_bit b 1 - 1) - (push_bit l 1 - 1) = push_bit l (mask (b - l) :: int)"
    using \<open>l \<le> b\<close> by (simp add: push_bit_eq_mult mask_eq_exp_minus_1 algebra_simps flip: power_add)
  have tk: "take_bit b x = x" using assms by (simp add: take_bit_int_eq_self)
  have "x AND push_bit l (mask (b - l)) = push_bit l (take_bit (b - l) (drop_bit l x))"
    by (rule bit_eqI) (auto simp: bit_simps)
  also have "take_bit (b - l) (drop_bit l x) = drop_bit l x"
    using tk \<open>l \<le> b\<close> by (metis drop_bit_take_bit)
  finally show ?thesis unfolding m by (simp add: push_bit_eq_mult drop_bit_eq_div)
qed

text \<open>The reference: clear the low bits below the top \<open>n\<close>.\<close>

lemma truncate_eq:
  assumes "0 \<le> x" "0 \<le> n" "n \<le> int (bit_length x)"
  shows "truncate_to_significant_bits x n =
         x div 2 ^ (bit_length x - nat n) * 2 ^ (bit_length x - nat n)"
proof (cases "x = 0")
  case True
  then show ?thesis by (simp add: truncate_to_significant_bits_def)
next
  case False
  then have pos: "0 < x" using assms by simp
  have l: "nat (int (bit_length x) - n) = bit_length x - nat n" using assms by simp
  show ?thesis
    using assms pos and_high_mask [of x "bit_length x" "bit_length x - nat n"] bit_length_bounds [OF pos]
    by (simp add: truncate_to_significant_bits_def l Let_def)
qed

lemma truncate_big:
  "int (bit_length x) < n \<Longrightarrow> truncate_to_significant_bits x n = x"
  by (simp add: truncate_to_significant_bits_def bit_length_def)

lemma truncate_bounds:
  assumes "0 < x" "0 < n"
  shows "0 < truncate_to_significant_bits x n \<and> truncate_to_significant_bits x n \<le> x \<and>
         x < 2 * truncate_to_significant_bits x n"
proof (cases "int (bit_length x) < n")
  case True
  then show ?thesis using assms by (simp add: truncate_big)
next
  case False
  define l where "l = bit_length x - nat n"
  have t: "truncate_to_significant_bits x n = x div 2 ^ l * 2 ^ l"
    using truncate_eq [of x n] False assms by (simp add: l_def)
  have lb: "l \<le> bit_length x - 1" using assms by (simp add: l_def)
  then have "(2 :: int) ^ l \<le> 2 ^ (bit_length x - 1)" by simp
  also have "\<dots> \<le> x" using bit_length_bounds assms by simp
  finally have le: "2 ^ l \<le> x" .
  have q: "0 < x div 2 ^ l" using le by (simp add: pos_imp_zdiv_pos_iff)
  have split: "x = x div 2 ^ l * 2 ^ l + x mod 2 ^ l" by (simp only: div_mult_mod_eq)
  have m: "0 \<le> x mod 2 ^ l" "x mod 2 ^ l < 2 ^ l" by simp_all
  have "2 ^ l \<le> x div 2 ^ l * 2 ^ l" using q by (simp add: mult_le_cancel_right1)
  then show ?thesis using t split m q by (smt (verit) zero_less_power mult_pos_pos)
qed

lemma and_single_bit [simp]: "(0 :: int) < x AND 2 ^ i \<longleftrightarrow> bit x i"
proof -
  have "x AND 2 ^ i = (if bit x i then 2 ^ i else 0)"
    by (rule bit_eqI) (auto simp: bit_simps)
  then show ?thesis by simp
qed

lemma first_bit_from_Some:
  assumes "first_bit_from x k i = Some j"
  shows "bit x j \<and> i \<le> j \<and> j < i + k \<and> (\<forall>m. i \<le> m \<and> m < j \<longrightarrow> \<not> bit x m)"
  using assms
proof (induction k arbitrary: i)
  case (Suc k)
  show ?case
  proof (cases "bit x i")
    case False
    then have "first_bit_from x k (Suc i) = Some j" using Suc.prems by simp
    from Suc.IH [OF this] show ?thesis using False
      by (auto simp: Suc_le_eq) (metis le_neq_implies_less)
  qed (use Suc.prems in auto)
qed simp

lemma count_significant_le:
  assumes "2 ^ l dvd x" "l \<le> bit_length x"
  shows "count_significant_bits x \<le> int (bit_length x) - int l"
proof (cases "first_bit_from x (bit_length x) 0")
  case None
  then show ?thesis using assms by (simp add: count_significant_bits_def)
next
  case (Some i)
  have "\<not> i < l"
  proof
    assume "i < l"
    obtain y where "x = push_bit l y" using assms(1) by (auto simp: dvd_def push_bit_eq_mult mult.commute)
    then have "\<not> bit x i" using \<open>i < l\<close> by (simp add: bit_simps)
    then show False using first_bit_from_Some [OF Some] by simp
  qed
  then show ?thesis using Some by (simp add: count_significant_bits_def)
qed

section \<open>The wrap around the end of a sub-slot\<close>

lemma infusion_wrap:
  fixes k i N E r :: int
  defines "s \<equiv> k * i + E * k + r"
  assumes "0 < k" "0 \<le> i" "i < N" "0 < E" "E < N" "0 < r" "r < k"
  shows "s mod (k * N) = s - (if N - E \<le> i then k * N else 0) \<and> 0 < s mod (k * N) \<and>
         s mod (k * N) < k * N \<and> (s mod (k * N) < k * i \<longleftrightarrow> N - E \<le> i)"
proof (cases "N - E \<le> i")
  case True
  then have "k * N \<le> k * (i + E)" using assms by (intro mult_left_mono) simp_all
  moreover have "k * (i + E + 1) \<le> k * (N + N)" "k * (E + 1) \<le> k * N"
    using assms by (intro mult_left_mono; simp)+
  ultimately have b: "0 < s - k * N" "s - k * N < k * N" "s - k * N < k * i"
    using assms by (simp_all add: s_def algebra_simps)
  then have "(s - k * N) mod (k * N) = s - k * N" by (intro mod_pos_pos_trivial) auto
  then show ?thesis using True b by simp
next
  case False
  then have "k * (i + E + 1) \<le> k * N" using assms by (intro mult_left_mono) simp_all
  moreover have "k * i < s" using assms mult_pos_pos [of E k] unfolding s_def by linarith
  moreover have "0 \<le> k * i" using assms by simp
  moreover have "s < k * (i + E + 1)" using assms by (simp add: s_def algebra_simps)
  ultimately have "0 < s" "s < k * N" "k * i < s" by linarith+
  then show ?thesis using False by simp
qed

section \<open>Properties\<close>

text \<open>Truncating a positive integer to its top \<open>n\<close> significant bits (\<open>n > 0\<close>) gives an integer
  that \<open>count_significant_bits\<close> accepts as having at most \<open>n\<close> of them; it is positive, at most the
  input and more than half of it, and truncating again changes nothing.\<close>

lemma truncate_significant_bits:
  assumes "0 < x" and "0 < n"
  shows "count_significant_bits (truncate_to_significant_bits x n) \<le> n \<and>
         0 < truncate_to_significant_bits x n \<and>
         truncate_to_significant_bits x n \<le> x \<and> x < 2 * truncate_to_significant_bits x n \<and>
         truncate_to_significant_bits (truncate_to_significant_bits x n) n = truncate_to_significant_bits x n"
proof (cases "int (bit_length x) < n")
  case True
  have "count_significant_bits x \<le> int (bit_length x)"
    using count_significant_le [of 0 x] by simp
  then show ?thesis using True assms by (simp add: truncate_big)
next
  case False
  define t l where "t = truncate_to_significant_bits x n" and "l = bit_length x - nat n"
  have t: "t = x div 2 ^ l * 2 ^ l"
    using truncate_eq [of x n] False assms by (simp add: l_def t_def)
  have tb: "0 < t" "t \<le> x" "x < 2 * t" using truncate_bounds [OF assms] by (simp_all add: t_def)
  obtain b where b: "bit_length x = Suc b" using assms(1) bit_length_pos_iff [of x] by (cases "bit_length x") auto
  have xb: "2 ^ b \<le> x" "x < 2 ^ Suc b" using bit_length_bounds [OF assms(1)] b by auto
  have lb: "l \<le> b" using b assms by (simp add: l_def)
  have "2 ^ (b - l) \<le> x div 2 ^ l"
  proof -
    have "(2 :: int) ^ b div 2 ^ l \<le> x div 2 ^ l" using xb(1) by (intro zdiv_mono1) simp_all
    then show ?thesis using lb by (simp add: power_diff)
  qed
  then have "(2 :: int) ^ (b - l) * 2 ^ l \<le> t" using t by simp
  then have "2 ^ b \<le> t" using lb by (simp flip: power_add)
  then have bt: "bit_length t = Suc b" using bit_length_unique [of b t] xb(2) tb by simp
  have "count_significant_bits t \<le> int (Suc b) - int l"
    using count_significant_le [of l t] t bt lb by simp
  moreover have nl: "int (Suc b) - int l = n" using False assms b by (simp add: l_def)
  moreover have "truncate_to_significant_bits t n = t"
    using truncate_eq [of t n] tb(1) assms(2) bt False b t by (simp add: l_def)
  ultimately show ?thesis using tb by (simp add: t_def)
qed

text \<open>The infusion point.  On constants that fit together, \<open>calculate_ip_iters\<close> returns, for a
  sub-slot of a multiple of \<open>NUM_SPS_SUB_SLOT\<close> iterations, exactly when the signage point index is in
  range and \<open>0 < required_iters < sp_interval\<close>; the infusion point then lies strictly inside the
  sub-slot, between \<open>EXTRA\<close> and \<open>EXTRA + 1\<close> intervals after the signage point, and it wraps into the next
  sub-slot precisely for the blocks that \<open>is_overflow_block\<close> calls overflow blocks.\<close>

lemma infusion_point:
  assumes "constants_ok c" and "0 < k" and "k * NUM_SPS_SUB_SLOT c < 2 ^ 64"
    and "0 \<le> i" and "0 \<le> r"
  shows "calculate_ip_iters c (k * NUM_SPS_SUB_SLOT c) i r =
         (if i < NUM_SPS_SUB_SLOT c \<and> 0 < r \<and> r < k then
            Inr (i * k + NUM_SP_INTERVALS_EXTRA c * k + r
                 - (if is_overflow_block c i = Inr True then k * NUM_SPS_SUB_SLOT c else 0))
          else Inl ValueError) \<and>
         (\<forall>ip. calculate_ip_iters c (k * NUM_SPS_SUB_SLOT c) i r = Inr ip \<longrightarrow>
            0 < ip \<and> ip < k * NUM_SPS_SUB_SLOT c \<and>
            (ip < i * k \<longleftrightarrow> is_overflow_block c i = Inr True))"
proof -
  define N E where "N = NUM_SPS_SUB_SLOT c" and "E = NUM_SP_INTERVALS_EXTRA c"
  have c: "0 < E" "E < N" using assms(1) by (simp_all add: constants_ok_def N_def E_def)
  have k64: "k < 2 ^ 64" using assms(2,3) c by (smt (verit) N_def mult_le_cancel_left1)
  have int: "calculate_sp_interval_iters c (k * N) = Inr k"
    using c assms(2) k64 by (simp add: calculate_sp_interval_iters_def flip: N_def)
  have ki: "k * i < k * N \<and> k * i < 2 ^ 64" if "i < N"
    using that assms(2,3) by (smt (verit) N_def mult_strict_left_mono)
  have sp: "calculate_sp_iters c (k * N) i = Inr (k * i)" if "i < N"
    using that ki assms(2,4) by (simp add: calculate_sp_iters_def int flip: N_def)
  show ?thesis
  proof (cases "i < N \<and> 0 < r \<and> r < k")
    case False
    then have "calculate_ip_iters c (k * N) i r = Inl ValueError"
      using sp int assms(2,5)
      by (cases "i < N") (auto simp: calculate_ip_iters_def, simp add: calculate_sp_iters_def N_def)
    then show ?thesis using False by (simp flip: N_def)
  next
    case True
    have ki': "k * i < k * N" "k * i < 2 ^ 64" using ki True by simp_all
    have sp: "calculate_sp_iters c (k * N) i = Inr (k * i)" using sp True by simp
    define s where "s = k * i + E * k + r"
    have range: "s mod (k * N) = s - (if N - E \<le> i then k * N else 0)" "0 < s mod (k * N)"
      "s mod (k * N) < k * N" "s mod (k * N) < k * i \<longleftrightarrow> N - E \<le> i"
      using infusion_wrap [of k i N E r, folded s_def] True c assms(2,4) by blast+
    have b64: "s mod (k * N) < 2 ^ 64" using range(3) assms(3) unfolding N_def by linarith
    have ov: "is_overflow_block c i = Inr (N - E \<le> i)"
      using True by (simp add: is_overflow_block_def flip: N_def E_def)
    have "calculate_ip_iters c (k * N) i r = Inr (s mod (k * N))"
      using True ki'(1) range(2) b64
      by (simp add: calculate_ip_iters_def sp int flip: s_def E_def)
    then show ?thesis using True range ov by (simp add: s_def mult.commute flip: N_def E_def)
  qed
qed

lemma infusion_point_witness:
  "calculate_ip_iters DEFAULT_CONSTANTS (2000 * NUM_SPS_SUB_SLOT DEFAULT_CONSTANTS) 62 5 = Inr 2005 \<and>
   is_overflow_block DEFAULT_CONSTANTS 62 = Inr True"
  using infusion_point [of DEFAULT_CONSTANTS 2000 62 5, OF default_constants_ok]
  by (simp add: DEFAULT_CONSTANTS_def is_overflow_block_def)

text \<open>The deficit of every block stays between \<open>0\<close> and \<open>MIN_BLOCKS_PER_CHALLENGE_BLOCK\<close>: from a
  previous deficit in this range \<open>calculate_deficit\<close> always returns, and in the range.  It is a fresh
  \<open>MIN_BLOCKS_PER_CHALLENGE_BLOCK\<close> only for an overflow block (one that cannot pay it down yet), and it
  rises only when a zero deficit meets the end of a sub-slot; otherwise it drops by one.\<close>

lemma deficit_range:
  assumes "constants_ok c" and "0 \<le> d" and "d \<le> MIN_BLOCKS_PER_CHALLENGE_BLOCK c" and "0 \<le> n"
  shows "\<exists>d'. calculate_deficit c h (Some d) overflow n = Inr d' \<and>
              0 \<le> d' \<and> d' \<le> MIN_BLOCKS_PER_CHALLENGE_BLOCK c \<and>
              (d' = MIN_BLOCKS_PER_CHALLENGE_BLOCK c \<longrightarrow> overflow) \<and>
              (h \<noteq> 0 \<and> d' > d \<longrightarrow> d = 0 \<and> n > 0) \<and>
              (h \<noteq> 0 \<and> d' < d \<longrightarrow> d' = d - 1)"
  using assms by (auto simp: calculate_deficit_def constants_ok_def)

lemma deficit_range_witness:
  "\<exists>d'. calculate_deficit DEFAULT_CONSTANTS 9 (Some 16) True 0 = Inr d' \<and> d' = 16"
proof -
  have "calculate_deficit DEFAULT_CONSTANTS 9 (Some 16) True 0 = Inr 16"
    by (simp add: calculate_deficit_def DEFAULT_CONSTANTS_def)
  then show ?thesis
    using deficit_range [of DEFAULT_CONSTANTS 16 0 9 True, OF default_constants_ok]
    by (simp add: DEFAULT_CONSTANTS_def)
qed

end
