(* ===== verification/Rewards.thy ===== *)
theory Rewards
  imports Ints Floats Sha256
begin

text \<open>
  The money supply: the block reward schedule of \<open>chives/consensus/block_rewards.py\<close>, the coins of
  \<open>chives/types/blockchain_format/coin.py\<close> and the reward coins of \<open>chives/consensus/coinbase.py\<close>.
  The schedule is computed in floating point by the code and is modelled so; the theorems show that it is
  the exact integer schedule.
\<close>

section \<open>Block rewards\<close>

definition mojo_per_chives :: int where
  "mojo_per_chives = 100000000"

definition blocks_per_year :: int where
  "blocks_per_year = 1681920"

abbreviation "fl_0_45 \<equiv> fl_ratio 45 100"
abbreviation "fl_0_9 \<equiv> fl_ratio 9 10"
abbreviation "fl_0_55 \<equiv> fl_ratio 55 100"
abbreviation "fl_0_1 \<equiv> fl_ratio 1 10"
abbreviation "fl_0_5 \<equiv> fl_ratio 1 2"
abbreviation "fl_0_25 \<equiv> fl_ratio 1 4"
abbreviation "fl_0_125 \<equiv> fl_ratio 1 8"

text \<open>\<open>uint64(int(a * n * b * 100 * _mojo_per_chives))\<close>, the products taken from the left.\<close>

definition reward_product :: "double \<Rightarrow> double \<Rightarrow> double \<Rightarrow> int res" where
  "reward_product a n b =
     uint64 (fl_trunc (fl_mul (fl_mul (fl_mul (fl_mul a n) b) (fl_of_int 100)) (fl_of_int mojo_per_chives)))"

definition calculate_pool_reward :: "int \<Rightarrow> int res" where
  "calculate_pool_reward height =
     (if height > 2600000 then
        (if height = 0 then reward_product (fl_ratio 7 8) (fl_of_int 0) fl_0_45
         else if height < 3 * blocks_per_year then reward_product (fl_ratio 7 8) (fl_of_int 2) fl_0_45
         else if height < 6 * blocks_per_year then reward_product (fl_ratio 7 8) (fl_of_int 1) fl_0_45
         else if height < 9 * blocks_per_year then reward_product (fl_ratio 7 8) fl_0_5 fl_0_45
         else if height < 12 * blocks_per_year then reward_product (fl_ratio 7 8) fl_0_25 fl_0_45
         else reward_product (fl_ratio 7 8) fl_0_125 fl_0_45)
      else
        (if height = 0 then reward_product (fl_ratio 7 8) (fl_of_int 0) fl_0_9
         else if height < 3 * blocks_per_year then reward_product (fl_ratio 7 8) (fl_of_int 2) fl_0_9
         else if height < 6 * blocks_per_year then reward_product (fl_ratio 7 8) (fl_of_int 1) fl_0_9
         else if height < 9 * blocks_per_year then reward_product (fl_ratio 7 8) fl_0_5 fl_0_9
         else if height < 12 * blocks_per_year then reward_product (fl_ratio 7 8) fl_0_25 fl_0_9
         else reward_product (fl_ratio 7 8) fl_0_125 fl_0_9))"

definition calculate_base_farmer_reward :: "int \<Rightarrow> int res" where
  "calculate_base_farmer_reward height =
     (if height > 2600000 then
        (if height = 0 then reward_product (fl_ratio 1 8) (fl_of_int 0) fl_0_45
         else if height < 3 * blocks_per_year then reward_product (fl_ratio 1 8) (fl_of_int 2) fl_0_45
         else if height < 6 * blocks_per_year then reward_product (fl_ratio 1 8) (fl_of_int 1) fl_0_45
         else if height < 9 * blocks_per_year then reward_product (fl_ratio 1 8) fl_0_5 fl_0_45
         else if height < 12 * blocks_per_year then reward_product (fl_ratio 1 8) fl_0_25 fl_0_45
         else reward_product (fl_ratio 1 8) fl_0_125 fl_0_45)
      else
        (if height = 0 then reward_product (fl_ratio 1 8) (fl_of_int 0) fl_0_9
         else if height < 3 * blocks_per_year then reward_product (fl_ratio 1 8) (fl_of_int 2) fl_0_9
         else if height < 6 * blocks_per_year then reward_product (fl_ratio 1 8) (fl_of_int 1) fl_0_9
         else if height < 9 * blocks_per_year then reward_product (fl_ratio 1 8) fl_0_5 fl_0_9
         else if height < 12 * blocks_per_year then reward_product (fl_ratio 1 8) fl_0_25 fl_0_9
         else reward_product (fl_ratio 1 8) fl_0_125 fl_0_9))"

text \<open>\<open>uint64(int(a * n * 100 * _mojo_per_chives))\<close>; at height 0 the factor 100 is missing in the code.\<close>

definition community_product :: "double \<Rightarrow> double \<Rightarrow> int res" where
  "community_product a n =
     uint64 (fl_trunc (fl_mul (fl_mul (fl_mul a n) (fl_of_int 100)) (fl_of_int mojo_per_chives)))"

definition community_product_genesis :: "double \<Rightarrow> int res" where
  "community_product_genesis a =
     uint64 (fl_trunc (fl_mul (fl_mul a (fl_of_int 0)) (fl_of_int mojo_per_chives)))"

definition calculate_base_community_reward :: "int \<Rightarrow> int res" where
  "calculate_base_community_reward height =
     (if height > 2600000 then
        (if height = 0 then community_product_genesis fl_0_55
         else if height < 3 * blocks_per_year then community_product fl_0_55 (fl_of_int 2)
         else if height < 6 * blocks_per_year then community_product fl_0_55 (fl_of_int 1)
         else if height < 9 * blocks_per_year then community_product fl_0_55 fl_0_5
         else if height < 12 * blocks_per_year then community_product fl_0_55 fl_0_25
         else community_product fl_0_55 fl_0_125)
      else
        (if height = 0 then community_product_genesis fl_0_1
         else if height < 3 * blocks_per_year then community_product fl_0_1 (fl_of_int 2)
         else if height < 6 * blocks_per_year then community_product fl_0_1 (fl_of_int 1)
         else if height < 9 * blocks_per_year then community_product fl_0_1 fl_0_5
         else if height < 12 * blocks_per_year then community_product fl_0_1 fl_0_25
         else community_product fl_0_1 fl_0_125))"

section \<open>Coins\<close>

record coin =
  parent_coin_info :: bytes
  puzzle_hash :: bytes
  amount :: int

text \<open>
  \<open>Coin.get_hash\<close> and \<open>Coin.name\<close>.  \<open>int_to_bytes\<close> is \<open>clvm.casts.int_to_bytes\<close>, a parameter.
\<close>

definition coin_name :: "hasher \<Rightarrow> (int \<Rightarrow> bytes) \<Rightarrow> coin \<Rightarrow> bytes" where
  "coin_name std_hash int_to_bytes c =
     std_hash (parent_coin_info c @ puzzle_hash c @ int_to_bytes (amount c))"

text \<open>\<open>Coin(parent, puzzle_hash, amount)\<close>: the dataclass fields are checked by \<open>Streamable\<close>.\<close>

definition mk_coin :: "bytes \<Rightarrow> bytes \<Rightarrow> int \<Rightarrow> coin res" where
  "mk_coin parent ph amt =
     rbind (bytes32 parent) (\<lambda>p. rbind (bytes32 ph) (\<lambda>h. rbind (uint64 amt) (\<lambda>a.
       Inr \<lparr>parent_coin_info = p, puzzle_hash = h, amount = a\<rparr>)))"

text \<open>\<open>hash_coin_ids\<close>: a single id is hashed alone, several are concatenated in descending order.\<close>

fun insert_desc :: "bytes \<Rightarrow> bytes list \<Rightarrow> bytes list" where
  "insert_desc x [] = [x]"
| "insert_desc x (y # ys) = (if bytes_less x y then y # insert_desc x ys else x # y # ys)"

definition sort_desc :: "bytes list \<Rightarrow> bytes list" where
  "sort_desc xs = foldr insert_desc xs []"

definition hash_coin_ids :: "hasher \<Rightarrow> bytes list \<Rightarrow> bytes" where
  "hash_coin_ids std_hash coin_ids =
     (case coin_ids of [c] \<Rightarrow> std_hash c | _ \<Rightarrow> std_hash (concat (sort_desc coin_ids)))"

section \<open>Reward coins\<close>

definition pool_parent_id :: "int \<Rightarrow> bytes \<Rightarrow> bytes res" where
  "pool_parent_id block_height genesis_challenge =
     rbind (to_bytes 16 False block_height) (\<lambda>h. bytes32 (take 16 genesis_challenge @ h))"

definition farmer_parent_id :: "int \<Rightarrow> bytes \<Rightarrow> bytes res" where
  "farmer_parent_id block_height genesis_challenge =
     rbind (to_bytes 16 False block_height) (\<lambda>h. bytes32 (drop 16 genesis_challenge @ h))"

definition community_parent_id :: "int \<Rightarrow> bytes \<Rightarrow> bytes res" where
  "community_parent_id block_height genesis_challenge =
     rbind (to_bytes 16 False block_height) (\<lambda>h. bytes32 (drop 16 genesis_challenge @ h))"

definition create_pool_coin :: "int \<Rightarrow> bytes \<Rightarrow> int \<Rightarrow> bytes \<Rightarrow> coin res" where
  "create_pool_coin block_height ph reward genesis_challenge =
     rbind (pool_parent_id block_height genesis_challenge) (\<lambda>parent_id. mk_coin parent_id ph reward)"

definition create_farmer_coin :: "int \<Rightarrow> bytes \<Rightarrow> int \<Rightarrow> bytes \<Rightarrow> coin res" where
  "create_farmer_coin block_height ph reward genesis_challenge =
     rbind (farmer_parent_id block_height genesis_challenge) (\<lambda>parent_id. mk_coin parent_id ph reward)"

definition create_community_coin :: "int \<Rightarrow> bytes \<Rightarrow> int \<Rightarrow> bytes \<Rightarrow> coin res" where
  "create_community_coin block_height ph reward genesis_challenge =
     rbind (community_parent_id block_height genesis_challenge) (\<lambda>parent_id. mk_coin parent_id ph reward)"

section \<open>The schedule in closed form\<close>

text \<open>The halving factor in units of an eighth, and the shares in permille of the block reward.\<close>

definition period_units :: "int \<Rightarrow> int" where
  "period_units height =
     (if height = 0 then 0
      else if height < 3 * blocks_per_year then 16
      else if height < 6 * blocks_per_year then 8
      else if height < 9 * blocks_per_year then 4
      else if height < 12 * blocks_per_year then 2
      else 1)"

definition block_reward :: "int \<Rightarrow> int" where
  "block_reward height = period_units height * (100 * mojo_per_chives div 8)"

definition community_percent :: "int \<Rightarrow> int" where
  "community_percent height = (if height > 2600000 then 55 else 10)"

text \<open>The floating-point products, evaluated: each is the exact amount.\<close>

lemma pool_products:
  "reward_product (fl_ratio 7 8) (fl_of_int 2) fl_0_45 = Inr 7875000000"
  "reward_product (fl_ratio 7 8) (fl_of_int 1) fl_0_45 = Inr 3937500000"
  "reward_product (fl_ratio 7 8) fl_0_5 fl_0_45 = Inr 1968750000"
  "reward_product (fl_ratio 7 8) fl_0_25 fl_0_45 = Inr 984375000"
  "reward_product (fl_ratio 7 8) fl_0_125 fl_0_45 = Inr 492187500"
  "reward_product (fl_ratio 7 8) (fl_of_int 0) fl_0_9 = Inr 0"
  "reward_product (fl_ratio 7 8) (fl_of_int 2) fl_0_9 = Inr 15750000000"
  by code_simp+

lemma farmer_products:
  "reward_product (fl_ratio 1 8) (fl_of_int 2) fl_0_45 = Inr 1125000000"
  "reward_product (fl_ratio 1 8) (fl_of_int 1) fl_0_45 = Inr 562500000"
  "reward_product (fl_ratio 1 8) fl_0_5 fl_0_45 = Inr 281250000"
  "reward_product (fl_ratio 1 8) fl_0_25 fl_0_45 = Inr 140625000"
  "reward_product (fl_ratio 1 8) fl_0_125 fl_0_45 = Inr 70312500"
  "reward_product (fl_ratio 1 8) (fl_of_int 0) fl_0_9 = Inr 0"
  "reward_product (fl_ratio 1 8) (fl_of_int 2) fl_0_9 = Inr 2250000000"
  by code_simp+

lemma community_products:
  "community_product fl_0_55 (fl_of_int 2) = Inr 11000000000"
  "community_product fl_0_55 (fl_of_int 1) = Inr 5500000000"
  "community_product fl_0_55 fl_0_5 = Inr 2750000000"
  "community_product fl_0_55 fl_0_25 = Inr 1375000000"
  "community_product fl_0_55 fl_0_125 = Inr 687500000"
  "community_product_genesis fl_0_1 = Inr 0"
  "community_product fl_0_1 (fl_of_int 2) = Inr 2000000000"
  by code_simp+

lemmas schedule_defs = block_reward_def period_units_def community_percent_def blocks_per_year_def mojo_per_chives_def

lemma pool_reward_eq:
  "calculate_pool_reward h = Inr (block_reward h * (100 - community_percent h) * 7 div 800)"
  unfolding calculate_pool_reward_def schedule_defs by (simp add: pool_products)

lemma farmer_reward_eq:
  "calculate_base_farmer_reward h = Inr (block_reward h * (100 - community_percent h) div 800)"
  unfolding calculate_base_farmer_reward_def schedule_defs by (simp add: farmer_products)

lemma community_reward_eq:
  "calculate_base_community_reward h = Inr (block_reward h * community_percent h div 100)"
  unfolding calculate_base_community_reward_def schedule_defs by (simp add: community_products)

text \<open>What the three functions pay out together for the block at a height.\<close>

definition total_reward :: "int \<Rightarrow> int res" where
  "total_reward h = rbind (calculate_pool_reward h) (\<lambda>p. rbind (calculate_base_farmer_reward h) (\<lambda>f.
     rbind (calculate_base_community_reward h) (\<lambda>c. Inr (p + f + c))))"

lemma total_reward_eq: "total_reward h = Inr (block_reward h)"
  unfolding total_reward_def pool_reward_eq farmer_reward_eq community_reward_eq
  unfolding schedule_defs by simp

lemma block_reward_antimono: "0 < h \<Longrightarrow> h \<le> h' \<Longrightarrow> block_reward h' \<le> block_reward h"
  unfolding schedule_defs by auto

lemma sum_block_reward_const:
  "(\<And>h. a \<le> h \<Longrightarrow> h < b \<Longrightarrow> block_reward h = c) \<Longrightarrow> a \<le> b \<Longrightarrow> (\<Sum>h \<in> {a..<b}. block_reward h) = (b - a) * c"
  by simp

lemma sum_int_concat:
  "a \<le> b \<Longrightarrow> b \<le> c \<Longrightarrow> (\<Sum>h \<in> {a..<c}. f h) = (\<Sum>h \<in> {a..<b}. f h) + (\<Sum>h \<in> {b..<c}. f h)" for a b c :: int
  by (simp add: ivl_disj_un_two(3) flip: sum.union_disjoint)

lemma sum_block_reward:
  "(\<Sum>h \<in> {0..<12 * blocks_per_year}. block_reward h) = 189215980000000000"
proof -
  let ?y = "blocks_per_year" and ?s = "\<lambda>a b. \<Sum>h \<in> {a..<b}. block_reward h"
  have y: "?y = 1681920" by (simp add: blocks_per_year_def)
  have "?s 0 (12 * ?y) = ?s 0 1 + ?s 1 (3 * ?y) + ?s (3 * ?y) (6 * ?y) + ?s (6 * ?y) (9 * ?y) + ?s (9 * ?y) (12 * ?y)"
    using sum_int_concat [of 0 1 "3 * ?y" block_reward] sum_int_concat [of 0 "3 * ?y" "6 * ?y" block_reward]
      sum_int_concat [of 0 "6 * ?y" "9 * ?y" block_reward] sum_int_concat [of 0 "9 * ?y" "12 * ?y" block_reward] y by simp
  moreover have "?s 0 1 = (1 - 0) * 0" "?s 1 (3 * ?y) = (3 * ?y - 1) * 20000000000"
    "?s (3 * ?y) (6 * ?y) = (6 * ?y - 3 * ?y) * 10000000000" "?s (6 * ?y) (9 * ?y) = (9 * ?y - 6 * ?y) * 5000000000"
    "?s (9 * ?y) (12 * ?y) = (12 * ?y - 9 * ?y) * 2500000000"
    by (rule sum_block_reward_const; simp add: schedule_defs)+
  ultimately show ?thesis by (simp add: y)
qed

section \<open>Reward coins are unique per height\<close>

lemma to_bytes_inject: "to_bytes n s x = Inr bs \<Longrightarrow> to_bytes n s y = Inr bs \<Longrightarrow> x = y"
  using from_to_bytes by metis

lemma parent_id_inject:
  assumes "rbind (to_bytes 16 False h) (\<lambda>b. bytes32 (g @ b)) = Inr p"
    and "rbind (to_bytes 16 False h') (\<lambda>b. bytes32 (g @ b)) = Inr p"
  shows "h = h'"
proof -
  obtain b b' where b: "to_bytes 16 False h = Inr b" "to_bytes 16 False h' = Inr b'" "p = g @ b" "p = g @ b'"
    using assms by (auto simp: rbind_eq_Inr sized_init_def split: if_splits)
  then show ?thesis using to_bytes_inject by auto
qed

lemma mk_coin_eq_Inr:
  "mk_coin p ph a = Inr c \<longleftrightarrow> length p = 32 \<and> length ph = 32 \<and> 0 \<le> a \<and> a < 2 ^ 64 \<and>
     c = \<lparr>parent_coin_info = p, puzzle_hash = ph, amount = a\<rparr>"
  by (auto simp: mk_coin_def rbind_eq_Inr sized_init_def)

lemma create_coin_parent:
  "create_pool_coin h ph r g = Inr c \<Longrightarrow> pool_parent_id h g = Inr (parent_coin_info c)"
  "create_farmer_coin h ph r g = Inr c \<Longrightarrow> farmer_parent_id h g = Inr (parent_coin_info c)"
  "create_community_coin h ph r g = Inr c \<Longrightarrow> community_parent_id h g = Inr (parent_coin_info c)"
  by (auto simp: create_pool_coin_def create_farmer_coin_def create_community_coin_def rbind_eq_Inr mk_coin_eq_Inr)

section \<open>Properties\<close>


text \<open>The supply: the blocks of the first twelve years pay out 1,892,159,800 coins in total, which is
  less than \<open>2 ^ 64\<close> mojos, and the block reward never rises from one height to the next.\<close>

lemma supply_first_twelve_years:
  "(\<Sum>h \<in> {0..<12 * blocks_per_year}. projr (total_reward h)) = 1892159800 * mojo_per_chives"
  using sum_block_reward by (simp add: total_reward_eq mojo_per_chives_def)

text \<open>Reward coins of the same kind at different heights have different parent ids, so no two of them
  are the same coin.\<close>

lemma reward_parent_ids_unique:
  assumes "h \<noteq> h'"
  shows "(\<nexists>c r r' ph ph'. create_pool_coin h ph r g = Inr c \<and> create_pool_coin h' ph' r' g = Inr c) \<and>
         (\<nexists>c r r' ph ph'. create_farmer_coin h ph r g = Inr c \<and> create_farmer_coin h' ph' r' g = Inr c) \<and>
         (\<nexists>c r r' ph ph'. create_community_coin h ph r g = Inr c \<and> create_community_coin h' ph' r' g = Inr c)"
  using assms create_coin_parent parent_id_inject
  unfolding pool_parent_id_def farmer_parent_id_def community_parent_id_def by metis

lemma reward_parent_ids_unique_witness:
  "\<nexists>c r r' ph ph'. create_pool_coin 5 ph r (replicate 32 0) = Inr c \<and> create_pool_coin 6 ph' r' (replicate 32 0) = Inr c"
  using reward_parent_ids_unique [of 5 6 "replicate 32 0"] by simp

text \<open>The farmer coin and the community coin of one block have the same parent id, so they are one and
  the same coin when puzzle hash and amount agree: above height 2600000, with both rewards paid to one
  puzzle hash, fees of 98.75 coins make two reward claims collapse into one.\<close>

lemma farmer_community_collision:
  assumes "2600000 < h" "h < 3 * blocks_per_year"
  shows "\<exists>f c. calculate_base_farmer_reward h = Inr f \<and> calculate_base_community_reward h = Inr c \<and>
           create_farmer_coin h ph (f + 9875000000) g = create_community_coin h ph c g"
  using assms unfolding farmer_reward_eq community_reward_eq
  by (simp add: create_farmer_coin_def create_community_coin_def farmer_parent_id_def community_parent_id_def schedule_defs)

lemma farmer_community_collision_witness:
  "\<exists>f c. calculate_base_farmer_reward 2600001 = Inr f \<and> calculate_base_community_reward 2600001 = Inr c \<and>
     create_farmer_coin 2600001 (replicate 32 1) (f + 9875000000) (replicate 32 2)
       = create_community_coin 2600001 (replicate 32 1) c (replicate 32 2)"
  by (rule farmer_community_collision) (simp_all add: blocks_per_year_def)

end
