(* ===== verification/Blocks.thy ===== *)
theory Blocks
  imports PotIterations Rewards
begin

text \<open>
  Block records and the code that walks them: \<open>consensus/block_record.py\<close>, \<open>util/block_cache.py\<close> (the
  dictionary-backed implementation of \<open>consensus/blockchain_interface.py\<close>), \<open>consensus/find_fork_point.py\<close>,
  \<open>util/prev_transaction_block.py\<close> and \<open>consensus/get_block_challenge.py\<close>.  Blocks point to their parent
  by \<open>prev_hash\<close>; every \<open>while\<close> loop of these files follows such pointers, and the locale
  \<open>block_source\<close> shows once why such a walk ends.
\<close>

section \<open>Block records\<close>

record sub_epoch_summary =
  ses_prev_subepoch_summary_hash :: bytes
  ses_reward_chain_hash :: bytes
  ses_num_blocks_overflow :: int
  ses_new_difficulty :: "int option"
  ses_new_sub_slot_iters :: "int option"

record block_record =
  br_header_hash :: bytes
  br_prev_hash :: bytes
  br_height :: int
  br_weight :: int
  br_total_iters :: int
  br_signage_point_index :: int
  br_challenge_vdf_output :: bytes
  br_infused_challenge_vdf_output :: "bytes option"
  br_reward_infusion_new_challenge :: bytes
  br_challenge_block_info_hash :: bytes
  br_sub_slot_iters :: int
  br_pool_puzzle_hash :: bytes
  br_farmer_puzzle_hash :: bytes
  br_community_puzzle_hash :: bytes
  br_required_iters :: int
  br_deficit :: int
  br_overflow :: bool
  br_prev_transaction_block_height :: int
  br_timestamp :: "int option"
  br_prev_transaction_block_hash :: "bytes option"
  br_fees :: "int option"
  br_reward_claims_incorporated :: "coin list option"
  br_finished_challenge_slot_hashes :: "bytes list option"
  br_finished_infused_challenge_slot_hashes :: "bytes list option"
  br_finished_reward_slot_hashes :: "bytes list option"
  br_sub_epoch_summary_included :: "sub_epoch_summary option"

definition is_transaction_block :: "block_record \<Rightarrow> bool" where
  "is_transaction_block b = (br_timestamp b \<noteq> None)"

definition first_in_sub_slot :: "block_record \<Rightarrow> bool" where
  "first_in_sub_slot b = (br_finished_challenge_slot_hashes b \<noteq> None)"

definition is_challenge_block :: "block_record \<Rightarrow> consensus_constants \<Rightarrow> bool" where
  "is_challenge_block b constants = (br_deficit b = MIN_BLOCKS_PER_CHALLENGE_BLOCK constants - 1)"

definition br_sp_iters :: "block_record \<Rightarrow> consensus_constants \<Rightarrow> int res" where
  "br_sp_iters b constants = calculate_sp_iters constants (br_sub_slot_iters b) (br_signage_point_index b)"

definition br_ip_iters :: "block_record \<Rightarrow> consensus_constants \<Rightarrow> int res" where
  "br_ip_iters b constants =
     calculate_ip_iters constants (br_sub_slot_iters b) (br_signage_point_index b) (br_required_iters b)"

definition sp_sub_slot_total_iters :: "block_record \<Rightarrow> consensus_constants \<Rightarrow> int res" where
  "sp_sub_slot_total_iters b constants =
     rbind (br_ip_iters b constants) (\<lambda>ip.
       if br_overflow b then uint128 (br_total_iters b - ip - br_sub_slot_iters b)
       else uint128 (br_total_iters b - ip))"

definition ip_sub_slot_total_iters :: "block_record \<Rightarrow> consensus_constants \<Rightarrow> int res" where
  "ip_sub_slot_total_iters b constants =
     rbind (br_ip_iters b constants) (\<lambda>ip. uint128 (br_total_iters b - ip))"

definition sp_total_iters :: "block_record \<Rightarrow> consensus_constants \<Rightarrow> int res" where
  "sp_total_iters b constants =
     rbind (sp_sub_slot_total_iters b constants) (\<lambda>s.
     rbind (br_sp_iters b constants) (\<lambda>sp. uint128 (s + sp)))"

section \<open>The block cache\<close>

record block_cache =
  block_records :: "(bytes, block_record) dict"
  height_hashes :: "(int, bytes) dict"
  sub_epoch_summaries :: "(int, sub_epoch_summary) dict"

definition block_record :: "block_cache \<Rightarrow> bytes \<Rightarrow> block_record res" where
  "block_record blocks header_hash = dict_getitem (block_records blocks) header_hash"

definition contains_block :: "block_cache \<Rightarrow> bytes \<Rightarrow> bool" where
  "contains_block blocks header_hash = dict_mem (block_records blocks) header_hash"

definition try_block_record :: "block_cache \<Rightarrow> bytes \<Rightarrow> block_record option res" where
  "try_block_record blocks header_hash =
     (if contains_block blocks header_hash then
        rbind (block_record blocks header_hash) (\<lambda>b. Inr (Some b))
      else Inr None)"

definition height_to_hash :: "block_cache \<Rightarrow> int \<Rightarrow> bytes option" where
  "height_to_hash blocks height = dict_get (height_hashes blocks) height"

definition contains_height :: "block_cache \<Rightarrow> int \<Rightarrow> bool" where
  "contains_height blocks height = dict_mem (height_hashes blocks) height"

definition height_to_block_record :: "block_cache \<Rightarrow> int \<Rightarrow> block_record res" where
  "height_to_block_record blocks height =
     (case height_to_hash blocks height of
        None \<Rightarrow> Inl AssertionError
      | Some header_hash \<Rightarrow> block_record blocks header_hash)"

definition get_ses_heights :: "block_cache \<Rightarrow> int list" where
  "get_ses_heights blocks = sort (dict_keys (sub_epoch_summaries blocks))"

definition get_ses :: "block_cache \<Rightarrow> int \<Rightarrow> sub_epoch_summary res" where
  "get_ses blocks height = dict_getitem (sub_epoch_summaries blocks) height"

definition get_block_records_at :: "block_cache \<Rightarrow> int list \<Rightarrow> block_record list res" where
  "get_block_records_at blocks heights = rmap (height_to_block_record blocks) heights"

definition remove_block_record :: "block_cache \<Rightarrow> bytes \<Rightarrow> block_cache res" where
  "remove_block_record blocks header_hash =
     rbind (dict_del (block_records blocks) header_hash) (\<lambda>d. Inr (blocks\<lparr>block_records := d\<rparr>))"

definition add_block_record :: "block_cache \<Rightarrow> block_record \<Rightarrow> block_cache" where
  "add_block_record blocks b =
     blocks\<lparr>block_records := dict_set (block_records blocks) (br_header_hash b) b\<rparr>"

text \<open>\<open>cur = blocks.block_record(cur.prev_hash)\<close>, and the loop \<open>while cond(cur)\<close> around it.\<close>

definition prev_block :: "block_cache \<Rightarrow> block_record \<Rightarrow> block_record res" where
  "prev_block blocks b = block_record blocks (br_prev_hash b)"

definition walk_back :: "block_cache \<Rightarrow> (block_record \<Rightarrow> bool) \<Rightarrow> block_record \<Rightarrow> block_record res" where
  "walk_back blocks cond b = loop_while cond (prev_block blocks) b"

section \<open>Walking the chain\<close>

text \<open>\<open>find_fork_point_in_chain\<close>: the state of its loop is the value to return, if any, and the two blocks.\<close>

definition fork_step ::
  "block_cache \<Rightarrow> int option \<times> block_record \<times> block_record
     \<Rightarrow> (int option \<times> block_record \<times> block_record) res" where
  "fork_step blocks s =
     (case s of (r, block_1, block_2) \<Rightarrow>
        if br_height block_2 > br_height block_1 then
          rbind (prev_block blocks block_2) (\<lambda>block_2'. Inr (r, block_1, block_2'))
        else if br_height block_1 > br_height block_2 then
          rbind (prev_block blocks block_1) (\<lambda>block_1'. Inr (r, block_1', block_2))
        else if br_header_hash block_2 = br_header_hash block_1 then
          Inr (Some (br_height block_2), block_1, block_2)
        else
          rbind (prev_block blocks block_2) (\<lambda>block_2'.
          rbind (prev_block blocks block_1) (\<lambda>block_1'. Inr (r, block_1', block_2'))))"

definition fork_cond :: "int option \<times> block_record \<times> block_record \<Rightarrow> bool" where
  "fork_cond s = (case s of (r, block_1, block_2) \<Rightarrow>
     r = None \<and> (br_height block_2 > 0 \<or> br_height block_1 > 0))"

definition find_fork_point_in_chain :: "block_cache \<Rightarrow> block_record \<Rightarrow> block_record \<Rightarrow> int res" where
  "find_fork_point_in_chain blocks block_1 block_2 =
     rbind (loop_while fork_cond (fork_step blocks) (None, block_1, block_2)) (\<lambda>(r, b1, b2).
       case r of
         Some h \<Rightarrow> Inr h
       | None \<Rightarrow> if b2 \<noteq> b1 then Inr (-1) else Inr 0)"

definition get_prev_transaction_block ::
  "block_record \<Rightarrow> block_cache \<Rightarrow> int \<Rightarrow> (bool \<times> block_record) res" where
  "get_prev_transaction_block cur blocks total_iters_sp =
     rbind (walk_back blocks (\<lambda>b. \<not> is_transaction_block b) cur) (\<lambda>cur'.
       if total_iters_sp > br_total_iters cur' then Inr (True, cur') else Inr (False, cur))"

text \<open>
  The part of a header block that the challenge code reads.  A finished sub-slot is given by the hash of
  its challenge chain and by the challenge of that chain's end-of-slot VDF.
\<close>

record finished_sub_slot =
  ss_challenge_chain_hash :: bytes
  ss_end_of_slot_vdf_challenge :: bytes

record header_view =
  hv_finished_sub_slots :: "finished_sub_slot list"
  hv_prev_header_hash :: bytes
  hv_total_iters :: int

definition eos_step ::
  "block_cache \<Rightarrow> (block_record \<Rightarrow> bool) \<Rightarrow> bool \<times> block_record \<Rightarrow> (bool \<times> block_record) res" where
  "eos_step blocks close s =
     (case s of (seen, cur) \<Rightarrow>
        rbind (prev_block blocks cur) (\<lambda>cur'. Inr (seen \<or> (br_overflow cur \<and> close cur), cur')))"

definition final_eos_is_already_included :: "header_view \<Rightarrow> block_cache \<Rightarrow> int \<Rightarrow> bool res" where
  "final_eos_is_already_included header_block blocks sub_slot_iters =
     (if length (hv_finished_sub_slots header_block) > 0 then Inr False
      else
        rbind (block_record blocks (hv_prev_header_hash header_block)) (\<lambda>cur.
        let close = (\<lambda>b. hv_total_iters header_block - br_total_iters b < sub_slot_iters div 2);
            seen = (br_overflow cur \<and> close cur)
        in rbind (loop_while (\<lambda>(seen, b). \<not> first_in_sub_slot b \<and> br_height b \<noteq> 0)
                             (eos_step blocks close) (seen, cur)) (\<lambda>(seen', cur').
           Inr (first_in_sub_slot cur' \<and> seen'))))"

text \<open>The loop of \<open>get_block_challenge\<close>; its state is whether it broke off, the hashes so far and \<open>cur\<close>.\<close>

definition challenge_step ::
  "block_cache \<Rightarrow> bool \<times> bytes list \<times> block_record \<Rightarrow> (bool \<times> bytes list \<times> block_record) res" where
  "challenge_step blocks s =
     (case s of (stop, hashes, cur) \<Rightarrow>
        let hashes' = (case br_finished_challenge_slot_hashes cur of
                         Some hs \<Rightarrow> hashes @ rev hs | None \<Rightarrow> hashes)
        in if br_height cur = 0 then
             case br_finished_challenge_slot_hashes cur of
               None \<Rightarrow> Inl AssertionError
             | Some hs \<Rightarrow> if length hs > 0 then Inr (True, hashes', cur) else Inl AssertionError
           else rbind (prev_block blocks cur) (\<lambda>cur'. Inr (False, hashes', cur')))"

definition get_block_challenge ::
  "consensus_constants \<Rightarrow> header_view \<Rightarrow> block_cache \<Rightarrow> bool \<Rightarrow> bool \<Rightarrow> bool \<Rightarrow> bytes res" where
  "get_block_challenge constants header_block blocks genesis_block overflow
       skip_overflow_last_ss_validation =
     (if length (hv_finished_sub_slots header_block) > 0 then
        if overflow then
          if skip_overflow_last_ss_validation then
            Inr (ss_challenge_chain_hash (last (hv_finished_sub_slots header_block)))
          else Inr (ss_end_of_slot_vdf_challenge (last (hv_finished_sub_slots header_block)))
        else Inr (ss_challenge_chain_hash (last (hv_finished_sub_slots header_block)))
      else if genesis_block then Inr (GENESIS_CHALLENGE constants)
      else
        let challenges_to_look_for =
              (if overflow then if skip_overflow_last_ss_validation then 1 else 2 else 1)
        in rbind (block_record blocks (hv_prev_header_hash header_block)) (\<lambda>cur.
           rbind (loop_while (\<lambda>(stop, hashes, b). \<not> stop \<and> int (length hashes) < challenges_to_look_for)
                             (challenge_step blocks) (False, [], cur)) (\<lambda>(stop, hashes, b).
           py_index hashes (challenges_to_look_for - 1))))"

section \<open>What the walks rely on\<close>

text \<open>
  The interface: records are looked up by their header hash, and adding one changes only its own entry.  A
  source is linked when every block above height \<open>0\<close> has its parent in it, one height below, and the blocks
  of height \<open>0\<close> point to the genesis challenge \<open>g\<close>, which is the hash of no block.
\<close>

locale block_source =
  fixes look :: "'s \<Rightarrow> bytes \<Rightarrow> block_record res"
    and contains :: "'s \<Rightarrow> bytes \<Rightarrow> bool"
    and insert_record :: "'s \<Rightarrow> block_record \<Rightarrow> 's"
  assumes contains_iff: "contains s h \<longleftrightarrow> (\<exists>b. look s h = Inr b)"
    and look_error: "look s h = Inl e \<Longrightarrow> e = KeyError"
    and look_insert: "look (insert_record s b) h = (if h = br_header_hash b then Inr b else look s h)"
begin

definition linked_record :: "'s \<Rightarrow> bytes \<Rightarrow> block_record \<Rightarrow> bool" where
  "linked_record s g b \<longleftrightarrow> 0 \<le> br_height b \<and>
     (if br_height b = 0 then br_prev_hash b = g
      else \<exists>p. look s (br_prev_hash b) = Inr p \<and> br_height p = br_height b - 1)"

definition linked :: "'s \<Rightarrow> bytes \<Rightarrow> bool" where
  "linked s g \<longleftrightarrow> look s g = Inl KeyError \<and>
     (\<forall>h b. look s h = Inr b \<longrightarrow> br_header_hash b = h \<and> linked_record s g b)"

definition present :: "'s \<Rightarrow> block_record \<Rightarrow> bool" where
  "present s b \<longleftrightarrow> look s (br_header_hash b) = Inr b"

lemma present_unique: "present s a \<Longrightarrow> present s b \<Longrightarrow> br_header_hash a = br_header_hash b \<Longrightarrow> a = b"
  by (simp add: present_def)

lemma linked_look: "linked s g \<Longrightarrow> look s h = Inr b \<Longrightarrow> present s b \<and> br_header_hash b = h"
  unfolding linked_def present_def by metis

lemma present_linked: "linked s g \<Longrightarrow> present s b \<Longrightarrow> linked_record s g b"
  unfolding linked_def present_def by metis

lemma height_nonneg: "linked s g \<Longrightarrow> present s b \<Longrightarrow> 0 \<le> br_height b"
  using present_linked unfolding linked_record_def by blast

lemma parent_cases:
  assumes "linked s g" and "present s b"
  obtains "br_height b = 0" "look s (br_prev_hash b) = Inl KeyError"
  | p where "0 < br_height b" "look s (br_prev_hash b) = Inr p" "present s p" "br_height p = br_height b - 1"
proof (cases "br_height b = 0")
  case True
  then show ?thesis using present_linked [OF assms] assms(1) that(1) by (simp add: linked_record_def linked_def)
next
  case False
  then obtain p where "look s (br_prev_hash b) = Inr p" "br_height p = br_height b - 1"
    using present_linked [OF assms] by (auto simp: linked_record_def)
  then show ?thesis using that(2) [of p] linked_look [OF assms(1)] height_nonneg [OF assms] False by force
qed

lemma linked_insert:
  assumes "linked s g" and "look s (br_header_hash b) = Inl KeyError" and "br_header_hash b \<noteq> g"
    and "linked_record s g b"
  shows "linked (insert_record s b) g"
proof -
  have keep: "linked_record (insert_record s b) g x" if "linked_record s g x" for x
    using that assms(2) unfolding linked_record_def by (auto simp: look_insert)
  show ?thesis
    using assms keep unfolding linked_def by (auto simp: look_insert)
qed

text \<open>A walk back along the parents stops at a block that leaves the loop, or fails at a block of height \<open>0\<close>.\<close>

lemma walk_stops:
  assumes "linked s g" and "present s b"
  shows "(\<exists>t. loop_while c (\<lambda>x. look s (br_prev_hash x)) b = Inr t \<and> present s t \<and>
              br_height t \<le> br_height b \<and> \<not> c t) \<or>
         (loop_while c (\<lambda>x. look s (br_prev_hash x)) b = Inl KeyError \<and>
          (\<exists>t. present s t \<and> br_height t = 0 \<and> c t))"
proof -
  define P where "P t \<longleftrightarrow> present s t \<and> br_height t \<le> br_height b" for t
  have step: "P u \<and> nat (br_height u) < nat (br_height t)"
    if "P t" "c t" "look s (br_prev_hash t) = Inr u" for t u
    using that by (auto simp: P_def elim!: parent_cases [OF assms(1), of t])
  have "P b" using assms by (simp add: P_def)
  from loop_while_invariant [of P c "\<lambda>x. look s (br_prev_hash x)" "\<lambda>x. nat (br_height x)", OF step this]
  consider (ret) t where "loop_while c (\<lambda>x. look s (br_prev_hash x)) b = Inr t" "P t" "\<not> c t"
    | (err) e t where "loop_while c (\<lambda>x. look s (br_prev_hash x)) b = Inl e" "P t" "c t"
        "look s (br_prev_hash t) = Inl e"
    by blast
  then show ?thesis
  proof cases
    case ret
    then show ?thesis by (auto simp: P_def)
  next
    case err
    then have "br_height t = 0" using parent_cases [OF assms(1), of t] unfolding P_def by force
    then show ?thesis using err look_error [OF err(4)] by (auto simp: P_def)
  qed
qed

end

interpretation cache: block_source block_record contains_block add_block_record
  by unfold_locales
     (auto simp: block_record_def contains_block_def add_block_record_def dict_mem_def
        dict_getitem_def dict_simps split: option.splits)

text \<open>An executable form of linkedness for the cache, and the interface's facts under it.\<close>

definition chain_linked :: "block_cache \<Rightarrow> bytes \<Rightarrow> bool" where
  "chain_linked blocks g \<longleftrightarrow>
     \<not> contains_block blocks g \<and>
     list_all (\<lambda>(h, b). br_header_hash b = h \<and> 0 \<le> br_height b \<and>
        (if br_height b = 0 then br_prev_hash b = g
         else case prev_block blocks b of Inl _ \<Rightarrow> False | Inr p \<Rightarrow> br_height p = br_height b - 1))
       (block_records blocks)"

definition in_chain :: "block_cache \<Rightarrow> block_record \<Rightarrow> bool" where
  "in_chain blocks b \<longleftrightarrow> block_record blocks (br_header_hash b) = Inr b"

lemma in_chain_present: "in_chain = cache.present"
  by (simp add: fun_eq_iff in_chain_def cache.present_def)

lemma block_record_Inr: "block_record blocks h = Inr b \<longleftrightarrow> dict_get (block_records blocks) h = Some b"
  by (simp add: block_record_def dict_getitem_def split: option.splits)

lemma chain_linked_linked:
  assumes "chain_linked blocks g"
  shows "cache.linked blocks g"
  unfolding cache.linked_def
proof (intro conjI allI impI)
  show "block_record blocks g = Inl KeyError"
    using assms by (auto simp: chain_linked_def block_record_def contains_block_def dict_mem_def
        dict_getitem_def split: option.splits)
next
  fix h b assume "block_record blocks h = Inr b"
  then have "(h, b) \<in> set (block_records blocks)"
    by (auto simp: block_record_Inr dict_get_def dest: map_of_SomeD)
  then have *: "br_header_hash b = h \<and> 0 \<le> br_height b \<and>
        (if br_height b = 0 then br_prev_hash b = g
         else case prev_block blocks b of Inl _ \<Rightarrow> False | Inr p \<Rightarrow> br_height p = br_height b - 1)"
    using assms by (auto simp: chain_linked_def list_all_iff)
  then show "br_header_hash b = h" by simp
  from * show "cache.linked_record blocks g b"
    by (auto simp: cache.linked_record_def prev_block_def split: if_splits sum.splits)
qed

lemmas parent_cases = cache.parent_cases [OF chain_linked_linked, folded prev_block_def in_chain_present]
lemmas chain_height_nonneg = cache.height_nonneg [OF chain_linked_linked, folded in_chain_present]
lemmas walk_back_stops = cache.walk_stops [OF chain_linked_linked, folded prev_block_def in_chain_present walk_back_def]

text \<open>Ancestors, a block being one of itself.\<close>

inductive ancestor :: "block_cache \<Rightarrow> block_record \<Rightarrow> block_record \<Rightarrow> bool" for blocks where
  self: "ancestor blocks b b"
| parent: "prev_block blocks b = Inr p \<Longrightarrow> ancestor blocks a p \<Longrightarrow> ancestor blocks a b"

inductive_simps ancestor_iff: "ancestor blocks a b"

lemma prev_in_chain: "chain_linked blocks g \<Longrightarrow> prev_block blocks b = Inr p \<Longrightarrow> in_chain blocks p"
  using cache.linked_look [OF chain_linked_linked] by (simp add: prev_block_def in_chain_present)

lemma ancestor_in_chain: "ancestor blocks a b \<Longrightarrow> chain_linked blocks g \<Longrightarrow> in_chain blocks b \<Longrightarrow> in_chain blocks a"
  by (induction rule: ancestor.induct) (auto dest: prev_in_chain)

lemma prev_height:
  assumes "chain_linked blocks g" "in_chain blocks b" "prev_block blocks b = Inr p"
  shows "0 < br_height b \<and> br_height p = br_height b - 1"
  by (rule parent_cases [OF assms(1,2)]) (use assms(3) in auto)

lemma prev_exists:
  assumes "chain_linked blocks g" "in_chain blocks b" "0 < br_height b"
  shows "\<exists>p. prev_block blocks b = Inr p"
  by (rule parent_cases [OF assms(1,2)]) (use assms(3) in auto)

lemma ancestor_height:
  "ancestor blocks a b \<Longrightarrow> chain_linked blocks g \<Longrightarrow> in_chain blocks b \<Longrightarrow>
   br_height a \<le> br_height b \<and> (br_height a = br_height b \<longrightarrow> a = b)"
proof (induction rule: ancestor.induct)
  case (parent b p a)
  then show ?case using prev_height [of blocks g b p] prev_in_chain [of blocks g b p] by fastforce
qed simp

lemma ancestor_genesis:
  assumes "chain_linked blocks g" "in_chain blocks b" "br_height b = 0"
  shows "ancestor blocks a b \<longleftrightarrow> a = b"
  using prev_height [OF assms(1,2)] assms(3) by (auto simp: ancestor_iff [of blocks a b] intro: ancestor.self)

lemma ancestor_unique:
  "ancestor blocks a b \<Longrightarrow> chain_linked blocks g \<Longrightarrow> in_chain blocks b \<Longrightarrow>
   ancestor blocks a' b \<Longrightarrow> br_height a' = br_height a \<Longrightarrow> a' = a"
proof (induction rule: ancestor.induct)
  case (self b)
  then show ?case using ancestor_height by blast
next
  case (parent b p a)
  have "in_chain blocks p" "br_height p < br_height b"
    using prev_in_chain prev_height parent.hyps(1) parent.prems(1,2) by fastforce+
  moreover have "br_height a \<le> br_height p" using ancestor_height parent calculation by blast
  moreover have "ancestor blocks a' p"
    using parent calculation ancestor_iff [of blocks a' b] by auto
  ultimately show ?case using parent by blast
qed

lemma ancestor_at:
  assumes "chain_linked blocks g" "in_chain blocks b" "0 \<le> k" "k \<le> br_height b"
  shows "\<exists>x. ancestor blocks x b \<and> br_height x = k"
  using assms(2,4)
proof (induction "nat (br_height b - k)" arbitrary: b)
  case 0
  then show ?case using ancestor.self by force
next
  case (Suc n)
  then obtain p where p: "prev_block blocks b = Inr p" using prev_exists [OF assms(1)] assms(3) by force
  have "br_height p = br_height b - 1" "in_chain blocks p"
    using prev_height [OF assms(1) Suc.prems(1) p] prev_in_chain [OF assms(1) p] by auto
  then show ?case using Suc.hyps(1) [of p] Suc.hyps(2) ancestor.parent [OF p] by force
qed

text \<open>Where a walk stops, and what it passed on the way.\<close>

lemma walk_back_nearest:
  assumes "chain_linked blocks g" and "in_chain blocks b" and "\<exists>x. ancestor blocks x b \<and> \<not> c x"
  shows "\<exists>t. walk_back blocks c b = Inr t \<and> ancestor blocks t b \<and> \<not> c t \<and>
             (\<forall>x. ancestor blocks x b \<and> br_height t < br_height x \<longrightarrow> c x)"
  using assms(2,3)
proof (induction "nat (br_height b)" arbitrary: b rule: less_induct)
  case less
  show ?case
  proof (cases "c b")
    case False
    then have "walk_back blocks c b = Inr b" by (simp add: walk_back_def loop_while_unfold [of c _ b])
    then show ?thesis using False ancestor.self ancestor_height [OF _ assms(1) less.prems(1)] by fastforce
  next
    case True
    obtain x where x: "ancestor blocks x b" "\<not> c x" using less.prems(2) by blast
    then obtain p where p: "prev_block blocks b = Inr p" "ancestor blocks x p"
      using True ancestor_iff [of blocks x b] by auto
    have ph: "0 < br_height b" "br_height p = br_height b - 1" "in_chain blocks p"
      using prev_height [OF assms(1) less.prems(1) p(1)] prev_in_chain [OF assms(1) p(1)] by auto
    have "nat (br_height p) < nat (br_height b)" using ph by simp
    from less.hyps [OF this ph(3)] obtain t where t: "walk_back blocks c p = Inr t" "ancestor blocks t p" "\<not> c t"
      "\<forall>x. ancestor blocks x p \<and> br_height t < br_height x \<longrightarrow> c x" using x p by blast
    have "walk_back blocks c b = walk_back blocks c p"
      using True p by (simp add: walk_back_def loop_while_unfold [of c _ b])
    then show ?thesis using t True p ancestor_iff [of blocks _ b] by (metis sum.inject(2))
  qed
qed

lemma walk_back_ancestor:
  assumes "chain_linked blocks g" and "in_chain blocks b"
    and base: "\<And>x. in_chain blocks x \<Longrightarrow> br_height x = 0 \<Longrightarrow> \<not> c x"
  shows "\<exists>t. walk_back blocks c b = Inr t \<and> ancestor blocks t b \<and> \<not> c t \<and>
             (\<forall>x. ancestor blocks x b \<and> br_height t < br_height x \<longrightarrow> c x)"
proof (rule walk_back_nearest [OF assms(1,2)])
  obtain x where "ancestor blocks x b" "br_height x = 0"
    using ancestor_at [OF assms(1,2), of 0] chain_height_nonneg [OF assms(1,2)] by auto
  then show "\<exists>x. ancestor blocks x b \<and> \<not> c x" using base ancestor_in_chain [OF _ assms(1,2)] by blast
qed

lemma in_chain_unique:
  "in_chain blocks a \<Longrightarrow> in_chain blocks b \<Longrightarrow> br_header_hash a = br_header_hash b \<Longrightarrow> a = b"
  by (simp add: in_chain_def)

section \<open>The fork point\<close>

text \<open>
  The invariant of the search: both blocks are in the chain, the common ancestors are those of the two
  blocks the search began with, and a height to return belongs to a block reached from both sides.
\<close>

definition fork_inv ::
  "block_cache \<Rightarrow> block_record \<Rightarrow> block_record \<Rightarrow> int option \<times> block_record \<times> block_record \<Rightarrow> bool" where
  "fork_inv blocks a1 a2 s = (case s of (r, b1, b2) \<Rightarrow>
     in_chain blocks b1 \<and> in_chain blocks b2 \<and>
     (\<forall>a. ancestor blocks a a1 \<and> ancestor blocks a a2 \<longleftrightarrow> ancestor blocks a b1 \<and> ancestor blocks a b2) \<and>
     (r \<noteq> None \<longrightarrow> b1 = b2 \<and> r = Some (br_height b2)))"

fun fork_measure :: "int option \<times> block_record \<times> block_record \<Rightarrow> nat" where
  "fork_measure (r, b1, b2) = nat (br_height b1) + nat (br_height b2) + (if r = None then 1 else 0)"

lemma fork_step_inv:
  assumes linked: "chain_linked blocks g"
    and inv: "fork_inv blocks a1 a2 s" and cond: "fork_cond s" and step: "fork_step blocks s = Inr t"
  shows "fork_inv blocks a1 a2 t \<and> fork_measure t < fork_measure s"
proof -
  obtain b1 b2 where s: "s = (None, b1, b2)" and pos: "br_height b2 > 0 \<or> br_height b1 > 0"
    using cond by (auto simp: fork_cond_def split: prod.splits)
  have in1: "in_chain blocks b1" and in2: "in_chain blocks b2"
    and anc: "\<And>a. ancestor blocks a a1 \<and> ancestor blocks a a2 \<longleftrightarrow> ancestor blocks a b1 \<and> ancestor blocks a b2"
    using inv by (auto simp: fork_inv_def s)
  note up = ancestor_iff [of blocks _ b1] ancestor_iff [of blocks _ b2]
  have ah: "\<And>a b. ancestor blocks a b \<Longrightarrow> in_chain blocks b \<Longrightarrow>
      br_height a \<le> br_height b \<and> (br_height a = br_height b \<longrightarrow> a = b)"
    using ancestor_height linked by blast
  consider (two) p where "br_height b2 > br_height b1" "prev_block blocks b2 = Inr p" "t = (None, b1, p)"
    | (one) p where "br_height b1 > br_height b2" "prev_block blocks b1 = Inr p" "t = (None, p, b2)"
    | (found) "br_height b1 = br_height b2" "br_header_hash b2 = br_header_hash b1"
        "t = (Some (br_height b2), b1, b2)"
    | (both) p q where "br_height b1 = br_height b2" "br_header_hash b2 \<noteq> br_header_hash b1"
        "prev_block blocks b2 = Inr q" "prev_block blocks b1 = Inr p" "t = (None, p, q)"
    using step by (auto simp: fork_step_def s rbind_eq_Inr split: if_splits)
  then show ?thesis
  proof cases
    case two
    note p = prev_height [OF linked in2 two(2)] prev_in_chain [OF linked two(2)]
    have "\<And>a. ancestor blocks a b1 \<and> ancestor blocks a b2 \<longleftrightarrow> ancestor blocks a b1 \<and> ancestor blocks a p"
      using two ah [OF _ in1] up(2) by (metis ancestor.parent linorder_not_less sum.inject(2))
    then show ?thesis using p in1 anc two(3) by (simp add: fork_inv_def s)
  next
    case one
    note p = prev_height [OF linked in1 one(2)] prev_in_chain [OF linked one(2)]
    have "\<And>a. ancestor blocks a b1 \<and> ancestor blocks a b2 \<longleftrightarrow> ancestor blocks a p \<and> ancestor blocks a b2"
      using one ah [OF _ in2] up(1) by (metis ancestor.parent linorder_not_less sum.inject(2))
    then show ?thesis using p in2 anc one(3) by (simp add: fork_inv_def s)
  next
    case found
    then show ?thesis using in_chain_unique [OF in1 in2] in1 in2 anc by (simp add: fork_inv_def s)
  next
    case both
    note q = prev_height [OF linked in2 both(3)] prev_in_chain [OF linked both(3)]
    note p = prev_height [OF linked in1 both(4)] prev_in_chain [OF linked both(4)]
    have "\<And>a. ancestor blocks a b1 \<and> ancestor blocks a b2 \<longleftrightarrow> ancestor blocks a p \<and> ancestor blocks a q"
      using both ah [OF _ in1] ah [OF _ in2] up by (metis ancestor.parent sum.inject(2))
    then show ?thesis using p q anc both(5) by (simp add: fork_inv_def s) arith
  qed
qed

lemma fork_step_total:
  assumes linked: "chain_linked blocks g" and inv: "fork_inv blocks a1 a2 s" and cond: "fork_cond s"
  shows "\<exists>t. fork_step blocks s = Inr t"
proof -
  obtain r b1 b2 where s: "s = (r, b1, b2)" by (cases s)
  have "in_chain blocks b1" "in_chain blocks b2" "br_height b2 > 0 \<or> br_height b1 > 0"
    using inv cond by (auto simp: fork_inv_def fork_cond_def s)
  then show ?thesis
    using prev_exists [OF linked, of b1] prev_exists [OF linked, of b2]
      chain_height_nonneg [OF linked, of b1] chain_height_nonneg [OF linked, of b2]
    by (cases "br_height b1" "br_height b2" rule: linorder_cases) (auto simp: fork_step_def s)
qed

section \<open>Properties\<close>

text \<open>C32. The fork point.  In a linked chain the search always ends with an answer.  A non-negative answer is
  the height of a common ancestor of the two blocks, and no common ancestor is higher; the answer
  \<open>-1\<close> says that the two blocks have no common ancestor at all.\<close>

theorem fork_point_correct:
  assumes "chain_linked blocks g" and "in_chain blocks block_1" and "in_chain blocks block_2"
  shows "\<exists>r. find_fork_point_in_chain blocks block_1 block_2 = Inr r \<and>
     (r = -1 \<and> \<not> (\<exists>a. ancestor blocks a block_1 \<and> ancestor blocks a block_2) \<or>
      r \<ge> 0 \<and>
      (\<exists>a. ancestor blocks a block_1 \<and> ancestor blocks a block_2 \<and> br_height a = r) \<and>
      (\<forall>a. ancestor blocks a block_1 \<and> ancestor blocks a block_2 \<longrightarrow> br_height a \<le> r))"
proof -
  let ?s = "(None, block_1, block_2)"
  have inv0: "fork_inv blocks block_1 block_2 ?s" using assms by (simp add: fork_inv_def)
  have "(\<exists>t. loop_while fork_cond (fork_step blocks) ?s = Inr t \<and> fork_inv blocks block_1 block_2 t \<and> \<not> fork_cond t)"
    using loop_while_invariant [of "fork_inv blocks block_1 block_2" fork_cond "fork_step blocks" fork_measure,
        OF fork_step_inv [OF assms(1)] inv0] fork_step_total [OF assms(1)] by fastforce
  then obtain r b1 b2 where loop: "loop_while fork_cond (fork_step blocks) ?s = Inr (r, b1, b2)"
    and inv: "fork_inv blocks block_1 block_2 (r, b1, b2)" and stop: "\<not> fork_cond (r, b1, b2)" by auto
  have in12: "in_chain blocks b1" "in_chain blocks b2"
    and anc: "\<And>a. ancestor blocks a block_1 \<and> ancestor blocks a block_2 \<longleftrightarrow> ancestor blocks a b1 \<and> ancestor blocks a b2"
    using inv by (auto simp: fork_inv_def)
  note nn = chain_height_nonneg [OF assms(1) in12(1)] chain_height_nonneg [OF assms(1) in12(2)]
  show ?thesis
  proof (cases "b1 = b2")
    case True
    have "find_fork_point_in_chain blocks block_1 block_2 = Inr (br_height b2)"
      using inv stop nn True loop
      by (cases r) (auto simp: find_fork_point_in_chain_def fork_inv_def fork_cond_def)
    then show ?thesis
      using True nn anc ancestor_height [OF _ assms(1) in12(2)] ancestor.self [of blocks b2] by metis
  next
    case False
    then have "r = None" "br_height b1 = 0" "br_height b2 = 0"
      using inv stop nn by (auto simp: fork_inv_def fork_cond_def)
    then show ?thesis
      using loop False anc ancestor_genesis [OF assms(1) in12(1)] ancestor_genesis [OF assms(1) in12(2)]
      by (auto simp: find_fork_point_in_chain_def)
  qed
qed

text \<open>A chain of four blocks with a fork at height \<open>0\<close>, for the witnesses.\<close>

definition sample_block :: "byte \<Rightarrow> byte \<Rightarrow> int \<Rightarrow> block_record" where
  "sample_block h p n = \<lparr>br_header_hash = [h], br_prev_hash = [p], br_height = n, br_weight = 7 * (n + 1),
     br_total_iters = 1000 * (n + 1), br_signage_point_index = 0, br_challenge_vdf_output = [],
     br_infused_challenge_vdf_output = None, br_reward_infusion_new_challenge = [],
     br_challenge_block_info_hash = [], br_sub_slot_iters = 2 ^ 27, br_pool_puzzle_hash = [],
     br_farmer_puzzle_hash = [], br_community_puzzle_hash = [], br_required_iters = 1, br_deficit = 15,
     br_overflow = False, br_prev_transaction_block_height = 0, br_timestamp = Some (100 * n),
     br_prev_transaction_block_hash = None, br_fees = Some 0, br_reward_claims_incorporated = Some [],
     br_finished_challenge_slot_hashes = None, br_finished_infused_challenge_slot_hashes = None,
     br_finished_reward_slot_hashes = None, br_sub_epoch_summary_included = None\<rparr>"

definition sample_cache :: block_cache where
  "sample_cache = \<lparr>
     block_records = map (\<lambda>b. (br_header_hash b, b))
       [sample_block 1 0 0, sample_block 2 1 1, sample_block 3 2 2, sample_block 4 1 1],
     height_hashes = [(0, [1]), (1, [2]), (2, [3])], sub_epoch_summaries = []\<rparr>"

lemma sample_chain:
  "chain_linked sample_cache [0]"
  "in_chain sample_cache (sample_block 3 2 2)"
  "in_chain sample_cache (sample_block 4 1 1)"
  by code_simp+

theorem fork_point_correct_witness:
  "\<exists>r. find_fork_point_in_chain sample_cache (sample_block 3 2 2) (sample_block 4 1 1) = Inr r \<and>
       0 \<le> r \<and> r \<le> 1"
proof -
  have "find_fork_point_in_chain sample_cache (sample_block 3 2 2) (sample_block 4 1 1) = Inr 0" by code_simp
  then show ?thesis using fork_point_correct [OF sample_chain] by auto
qed

text \<open>The previous transaction block.  In a linked chain whose blocks of height \<open>0\<close> are transaction
  blocks the search always ends: it finds the nearest ancestor \<open>t\<close> that is a transaction block, the new
  block is one exactly when its signage point lies after the infusion of \<open>t\<close>, and only then \<open>t\<close> is
  returned.\<close>

lemma prev_transaction_block_found:
  assumes "chain_linked blocks g" and "in_chain blocks b"
    and "\<forall>x. in_chain blocks x \<and> br_height x = 0 \<longrightarrow> is_transaction_block x"
  shows "\<exists>t. ancestor blocks t b \<and> is_transaction_block t \<and>
             (\<forall>x. ancestor blocks x b \<and> br_height t < br_height x \<longrightarrow> \<not> is_transaction_block x) \<and>
             get_prev_transaction_block b blocks total_iters_sp =
               Inr (if br_total_iters t < total_iters_sp then (True, t) else (False, b))"
  using walk_back_ancestor [OF assms(1,2), of "\<lambda>b. \<not> is_transaction_block b"] assms(3)
  by (force simp: get_prev_transaction_block_def)

end
