(* ===== verification/Difficulty.thy ===== *)
theory Difficulty
  imports Blocks
begin

text \<open>
  \<open>consensus/difficulty_adjustment.py\<close>: at the end of an epoch the sub-slot iterations and the difficulty
  are recomputed from the timestamps, iterations and weights of two transaction blocks.  The arithmetic
  that ends \<open>_get_next_sub_slot_iters\<close> and \<open>_get_next_difficulty\<close> is a definition of its own
  (\<open>next_ssi_value\<close>, \<open>next_difficulty_value\<close>).
\<close>

section \<open>Fetching ancestors\<close>

definition fetch_by_height :: "block_cache \<Rightarrow> int \<Rightarrow> int \<Rightarrow> block_record list res" where
  "fetch_by_height blocks target_height max_num_blocks =
     rmap (\<lambda>h. rbind (uint32 h) (\<lambda>h'.
             if contains_height blocks h' then height_to_block_record blocks h' else Inl AssertionError))
       [target_height .. target_height + max_num_blocks - 1]"

text \<open>The slow path; the state of its loop is whether it broke off, \<open>curr_b\<close> and \<open>target_blocks\<close>.\<close>

definition slow_step ::
  "block_cache \<Rightarrow> int \<Rightarrow> int \<Rightarrow> bool \<times> block_record \<times> block_record list
     \<Rightarrow> (bool \<times> block_record \<times> block_record list) res" where
  "slow_step blocks target_height max_num_blocks s =
     (case s of (stop, curr_b, target_blocks) \<Rightarrow>
        let target_blocks' = (if br_height curr_b < target_height + max_num_blocks
                              then target_blocks @ [curr_b] else target_blocks)
        in if br_height curr_b = 0 then Inr (True, curr_b, target_blocks')
           else rbind (prev_block blocks curr_b) (\<lambda>b. Inr (False, b, target_blocks')))"

definition fetch_by_parents :: "block_cache \<Rightarrow> block_record \<Rightarrow> int \<Rightarrow> int \<Rightarrow> block_record list res" where
  "fetch_by_parents blocks prev_b target_height max_num_blocks =
     rbind (loop_while (\<lambda>(stop, b, _). \<not> stop \<and> br_height b \<ge> target_height)
              (slow_step blocks target_height max_num_blocks) (False, prev_b, []))
       (\<lambda>(stop, b, target_blocks). Inr (rev target_blocks))"

definition get_blocks_at_height ::
  "block_cache \<Rightarrow> block_record \<Rightarrow> int \<Rightarrow> int \<Rightarrow> block_record list res" where
  "get_blocks_at_height blocks prev_b target_height max_num_blocks =
     (if contains_height blocks (br_height prev_b) \<and>
         height_to_hash blocks (br_height prev_b) = Some (br_header_hash prev_b)
      then fetch_by_height blocks target_height max_num_blocks
      else fetch_by_parents blocks prev_b target_height max_num_blocks)"

section \<open>The second to last transaction block of the previous epoch\<close>

definition surpass_step ::
  "block_record list \<Rightarrow> block_record \<times> block_record \<times> int \<Rightarrow> (block_record \<times> block_record \<times> int) res" where
  "surpass_step fetched_blocks s =
     (case s of (curr_b, next_b, fetched_index) \<Rightarrow>
        rbind (py_index fetched_blocks fetched_index) (\<lambda>b. Inr (next_b, b, fetched_index + 1)))"

definition tx_step :: "block_cache \<Rightarrow> int \<times> block_record \<Rightarrow> (int \<times> block_record) res" where
  "tx_step blocks s =
     (case s of (found_tx_block, curr_b) \<Rightarrow>
        rbind (prev_block blocks curr_b) (\<lambda>b.
          Inr (if is_transaction_block b then found_tx_block + 1 else found_tx_block, b)))"

definition get_second_to_last_transaction_block_in_previous_epoch ::
  "consensus_constants \<Rightarrow> block_cache \<Rightarrow> block_record \<Rightarrow> block_record res" where
  "get_second_to_last_transaction_block_in_previous_epoch constants blocks last_b =
     (let height_in_next_epoch =
            br_height last_b + 2 * MAX_SUB_SLOT_BLOCKS constants
              + MIN_BLOCKS_PER_CHALLENGE_BLOCK constants + 5 in
      rbind (rmod height_in_next_epoch (EPOCH_BLOCKS constants)) (\<lambda>m.
      rbind (uint32 (height_in_next_epoch - m)) (\<lambda>height_epoch_surpass.
      rbind (uint32 (height_epoch_surpass - EPOCH_BLOCKS constants)) (\<lambda>height_prev_epoch_surpass.
      rbind (rmod height_prev_epoch_surpass (EPOCH_BLOCKS constants)) (\<lambda>m'.
      rbind (rguard AssertionError (m' = 0)) (\<lambda>_.
      rbind (rguard AssertionError
               (height_in_next_epoch - height_epoch_surpass < 5 * MAX_SUB_SLOT_BLOCKS constants)) (\<lambda>_.
      if height_prev_epoch_surpass = 0 then
        rbind (get_blocks_at_height blocks last_b 0 1) (\<lambda>bs. py_index bs 0)
      else
        rbind (uint32 (height_prev_epoch_surpass - MAX_SUB_SLOT_BLOCKS constants - 1)) (\<lambda>start.
        rbind (uint32 (3 * MAX_SUB_SLOT_BLOCKS constants + MIN_BLOCKS_PER_CHALLENGE_BLOCK constants + 3)) (\<lambda>num.
        rbind (get_blocks_at_height blocks last_b start num) (\<lambda>fetched_blocks.
        let fetched_index = MAX_SUB_SLOT_BLOCKS constants in
        rbind (py_index fetched_blocks fetched_index) (\<lambda>curr_b.
        rbind (rguard AssertionError (br_height curr_b = height_prev_epoch_surpass - 1)) (\<lambda>_.
        rbind (py_index fetched_blocks (fetched_index + 1)) (\<lambda>next_b.
        rbind (rguard AssertionError (br_height next_b = height_prev_epoch_surpass)) (\<lambda>_.
        rbind (loop_while (\<lambda>(_, next_b, _). br_sub_epoch_summary_included next_b = None)
                 (surpass_step fetched_blocks) (curr_b, next_b, fetched_index + 1)) (\<lambda>(curr_b, _, _).
        rbind (loop_while (\<lambda>(found, _). found < 2) (tx_step blocks)
                 (if is_transaction_block curr_b then 1 else 0, curr_b)) (\<lambda>(_, curr_b).
        Inr curr_b))))))))))))))))"

section \<open>When a sub-epoch or an epoch can end\<close>

definition height_can_be_first_in_epoch :: "consensus_constants \<Rightarrow> int \<Rightarrow> bool res" where
  "height_can_be_first_in_epoch constants height =
     rbind (rmod height (SUB_EPOCH_BLOCKS constants)) (\<lambda>m.
     rbind (rmod (height - m) (EPOCH_BLOCKS constants)) (\<lambda>r. Inr (r = 0)))"

text \<open>
  The loop of \<open>can_finish_sub_and_full_epoch\<close> returns from inside when a block includes a summary; the
  test after the loop gives the same answer for it, so both are the one test on the block where the walk
  stops.
\<close>

definition can_finish_sub_and_full_epoch ::
  "consensus_constants \<Rightarrow> block_cache \<Rightarrow> int \<Rightarrow> bytes option \<Rightarrow> int \<Rightarrow> bool \<Rightarrow> (bool \<times> bool) res" where
  "can_finish_sub_and_full_epoch constants blocks height prev_header_hash deficit
       block_at_height_included_ses =
     (if height < SUB_EPOCH_BLOCKS constants - 1 then Inr (False, False)
      else case prev_header_hash of
        None \<Rightarrow> Inl AssertionError
      | Some prev_header_hash \<Rightarrow>
          if deficit > 0 then Inr (False, False)
          else if block_at_height_included_ses then Inr (False, False)
          else
            let ending = rbind (uint32 (height + 1)) (\<lambda>h.
                         rbind (height_can_be_first_in_epoch constants h) (\<lambda>e. Inr (True, e)))
            in rbind (rmod (height + 1) (SUB_EPOCH_BLOCKS constants)) (\<lambda>m.
               if m > 1 then
                 rbind (block_record blocks prev_header_hash) (\<lambda>cur.
                 rbind (walk_back blocks
                          (\<lambda>b. br_height b mod SUB_EPOCH_BLOCKS constants > 0 \<and>
                               br_sub_epoch_summary_included b = None) cur) (\<lambda>b.
                 if br_sub_epoch_summary_included b \<noteq> None then Inr (False, False) else ending))
               else ending))"

section \<open>The next sub-slot iterations\<close>

definition next_ssi_value :: "consensus_constants \<Rightarrow> int \<Rightarrow> int \<Rightarrow> int \<Rightarrow> int res" where
  "next_ssi_value constants iters_diff time_diff curr_ssi =
     rbind (rdiv (SUB_SLOT_TIME_TARGET constants * iters_diff) time_diff) (\<lambda>q.
     rbind (uint64 q) (\<lambda>new_ssi_precise.
     rbind (uint64 (DIFFICULTY_CHANGE_MAX_FACTOR constants * curr_ssi)) (\<lambda>max_ssi.
     rbind (rdiv curr_ssi (DIFFICULTY_CHANGE_MAX_FACTOR constants)) (\<lambda>mn.
     rbind (uint64 mn) (\<lambda>min_ssi.
     rbind (if new_ssi_precise \<ge> curr_ssi then uint64 (min new_ssi_precise max_ssi)
            else uint64 (max (max (NUM_SPS_SUB_SLOT constants) new_ssi_precise) min_ssi)) (\<lambda>precise.
     let t = truncate_to_significant_bits precise (SIGNIFICANT_BITS constants) in
     rbind (rmod t (NUM_SPS_SUB_SLOT constants)) (\<lambda>r.
     rbind (uint64 (t - r)) (\<lambda>new_ssi.
     rbind (rguard AssertionError (count_significant_bits new_ssi \<le> SIGNIFICANT_BITS constants)) (\<lambda>_.
     Inr new_ssi)))))))))"

definition get_next_sub_slot_iters ::
  "consensus_constants \<Rightarrow> block_cache \<Rightarrow> bytes \<Rightarrow> int \<Rightarrow> int \<Rightarrow> int \<Rightarrow> bool \<Rightarrow> bool \<Rightarrow> int \<Rightarrow> bool \<Rightarrow> int res" where
  "get_next_sub_slot_iters constants blocks prev_header_hash height curr_sub_slot_iters deficit
       block_at_height_included_ses new_slot signage_point_total_iters skip_epoch_check =
     rbind (uint32 (height + 1)) (\<lambda>next_height.
     if next_height < EPOCH_BLOCKS constants then uint64 (SUB_SLOT_ITERS_STARTING constants)
     else if \<not> contains_block blocks prev_header_hash then Inl ValueError
     else
       rbind (block_record blocks prev_header_hash) (\<lambda>prev_b.
       rbind (if skip_epoch_check then Inr False
              else rbind (can_finish_sub_and_full_epoch constants blocks height (Some prev_header_hash)
                            deficit block_at_height_included_ses) (\<lambda>(_, can_finish_epoch).
                   Inr (\<not> new_slot \<or> \<not> can_finish_epoch))) (\<lambda>same_epoch.
       if same_epoch then Inr curr_sub_slot_iters
       else
         rbind (get_second_to_last_transaction_block_in_previous_epoch constants blocks prev_b)
           (\<lambda>last_block_prev.
         rbind (walk_back blocks (\<lambda>b. br_total_iters b > signage_point_total_iters
                                       \<or> \<not> is_transaction_block b) prev_b) (\<lambda>last_block_curr.
         case (br_timestamp last_block_curr, br_timestamp last_block_prev) of
           (Some ts_curr, Some ts_prev) \<Rightarrow>
             next_ssi_value constants (br_total_iters last_block_curr - br_total_iters last_block_prev)
               (ts_curr - ts_prev) (br_sub_slot_iters last_block_curr)
         | _ \<Rightarrow> Inl AssertionError)))))"

section \<open>The next difficulty\<close>

definition next_difficulty_value :: "consensus_constants \<Rightarrow> int \<Rightarrow> int \<Rightarrow> int \<Rightarrow> int res" where
  "next_difficulty_value constants weight_diff actual_epoch_time old_difficulty =
     rbind (rdiv (weight_diff * SUB_SLOT_TIME_TARGET constants)
                 (SLOT_BLOCKS_TARGET constants * actual_epoch_time)) (\<lambda>q.
     rbind (uint64 q) (\<lambda>new_difficulty_precise.
     rbind (uint64 (DIFFICULTY_CHANGE_MAX_FACTOR constants * old_difficulty)) (\<lambda>max_diff.
     rbind (rdiv old_difficulty (DIFFICULTY_CHANGE_MAX_FACTOR constants)) (\<lambda>mn.
     rbind (uint64 mn) (\<lambda>min_diff.
     rbind (if new_difficulty_precise \<ge> old_difficulty then uint64 (min new_difficulty_precise max_diff)
            else uint64 (max (max 1 new_difficulty_precise) min_diff)) (\<lambda>precise.
     let new_difficulty = truncate_to_significant_bits precise (SIGNIFICANT_BITS constants) in
     rbind (rguard AssertionError
              (count_significant_bits new_difficulty \<le> SIGNIFICANT_BITS constants)) (\<lambda>_.
     uint64 new_difficulty)))))))"

definition get_next_difficulty ::
  "consensus_constants \<Rightarrow> block_cache \<Rightarrow> bytes \<Rightarrow> int \<Rightarrow> int \<Rightarrow> int \<Rightarrow> bool \<Rightarrow> bool \<Rightarrow> int \<Rightarrow> bool \<Rightarrow> int res" where
  "get_next_difficulty constants blocks prev_header_hash height current_difficulty deficit
       block_at_height_included_ses new_slot signage_point_total_iters skip_epoch_check =
     rbind (uint32 (height + 1)) (\<lambda>next_height.
     if next_height < EPOCH_BLOCKS constants - 3 * MAX_SUB_SLOT_BLOCKS constants then
       uint64 (DIFFICULTY_STARTING constants)
     else if \<not> contains_block blocks prev_header_hash then Inl ValueError
     else
       rbind (block_record blocks prev_header_hash) (\<lambda>prev_b.
       rbind (if skip_epoch_check then Inr False
              else rbind (can_finish_sub_and_full_epoch constants blocks height (Some prev_header_hash)
                            deficit block_at_height_included_ses) (\<lambda>(_, can_finish_epoch).
                   Inr (\<not> new_slot \<or> \<not> can_finish_epoch))) (\<lambda>same_epoch.
       if same_epoch then Inr current_difficulty
       else
         rbind (get_second_to_last_transaction_block_in_previous_epoch constants blocks prev_b)
           (\<lambda>last_block_prev.
         rbind (walk_back blocks (\<lambda>b. br_total_iters b > signage_point_total_iters
                                       \<or> \<not> is_transaction_block b) prev_b) (\<lambda>last_block_curr.
         case (br_timestamp last_block_curr, br_timestamp last_block_prev) of
           (Some ts_curr, Some ts_prev) \<Rightarrow>
             rbind (uint64 (ts_curr - ts_prev)) (\<lambda>actual_epoch_time.
             rbind (prev_block blocks prev_b) (\<lambda>pp.
             rbind (uint64 (br_weight prev_b - br_weight pp)) (\<lambda>old_difficulty.
             next_difficulty_value constants (br_weight last_block_curr - br_weight last_block_prev)
               actual_epoch_time old_difficulty)))
         | _ \<Rightarrow> Inl AssertionError)))))"

definition get_next_sub_slot_iters_and_difficulty ::
  "consensus_constants \<Rightarrow> bool \<Rightarrow> block_record option \<Rightarrow> block_cache \<Rightarrow> (int \<times> int) res" where
  "get_next_sub_slot_iters_and_difficulty constants is_first_in_sub_slot prev_b blocks =
     (case prev_b of
        None \<Rightarrow> Inr (SUB_SLOT_ITERS_STARTING constants, DIFFICULTY_STARTING constants)
      | Some prev_b \<Rightarrow>
          rbind (if br_height prev_b \<noteq> 0 then
                   rbind (prev_block blocks prev_b) (\<lambda>pp. uint64 (br_weight prev_b - br_weight pp))
                 else uint64 (br_weight prev_b)) (\<lambda>prev_difficulty.
          if br_sub_epoch_summary_included prev_b \<noteq> None then Inr (br_sub_slot_iters prev_b, prev_difficulty)
          else
            rbind (sp_total_iters prev_b constants) (\<lambda>sp_total.
            rbind (get_next_difficulty constants blocks (br_prev_hash prev_b) (br_height prev_b)
                     prev_difficulty (br_deficit prev_b) False is_first_in_sub_slot sp_total False)
              (\<lambda>difficulty.
            rbind (get_next_sub_slot_iters constants blocks (br_prev_hash prev_b) (br_height prev_b)
                     (br_sub_slot_iters prev_b) (br_deficit prev_b) False is_first_in_sub_slot sp_total False)
              (\<lambda>sub_slot_iters.
            Inr (sub_slot_iters, difficulty))))))"

section \<open>The arithmetic of an adjustment\<close>

lemma count_significant_multiple:
  assumes "0 < x" "0 < n" "2 ^ (bit_length x - nat n) dvd x"
  shows "count_significant_bits x \<le> n"
proof (cases "int (bit_length x) \<le> n")
  case True
  then show ?thesis using count_significant_le [of 0 x] by simp
next
  case False
  then show ?thesis using count_significant_le [OF assms(3)] assms(2) by simp
qed

text \<open>Clearing the bits below a power of two, after truncating, keeps the significant bits few.\<close>

lemma round_truncated:
  fixes x :: int
  assumes x: "2 ^ j \<le> x" and n: "0 < n"
  defines "t \<equiv> truncate_to_significant_bits x n"
  defines "v \<equiv> t - t mod 2 ^ j"
  shows "2 ^ j \<le> v \<and> v \<le> x \<and> x < 4 * v \<and> v mod 2 ^ j = 0 \<and> count_significant_bits v \<le> n"
proof -
  have x0: "0 < x" using x by (rule less_le_trans [rotated]) simp
  have tb: "0 < t" "t \<le> x" "x < 2 * t" using truncate_bounds [OF x0 n] by (simp_all add: t_def)
  obtain b where b: "bit_length x = Suc b" using x0 bit_length_pos_iff [of x] by (cases "bit_length x") auto
  have xb: "2 ^ b \<le> x" "x < 2 ^ Suc b" using bit_length_bounds [OF x0] b by auto
  have "(2 :: int) ^ j < 2 ^ Suc b" using x xb(2) by linarith
  then have jb: "j \<le> b" by (simp del: power_Suc)
  define l where "l = (if int (bit_length x) < n then 0 else bit_length x - nat n)"
  have lb: "l \<le> b" using n b by (auto simp: l_def)
  have ldvd: "2 ^ l dvd t"
    using truncate_eq [of x n] x0 n by (auto simp: l_def t_def)
  have "2 ^ b \<le> t"
  proof -
    have "2 ^ b div 2 ^ l \<le> x div 2 ^ l" using xb(1) by (intro zdiv_mono1) simp_all
    then have "2 ^ b \<le> x div 2 ^ l * 2 ^ l"
      using lb by (simp add: power_diff [symmetric] flip: power_add)
         (metis le_add_diff_inverse2 mult_right_mono power_add zero_le_numeral zero_le_power)
    then show ?thesis
      using truncate_eq [of x n] truncate_big [of x n] x0 n xb(1) by (auto simp: l_def t_def split: if_splits)
  qed
  have v: "v = t div 2 ^ j * 2 ^ j" by (simp add: v_def minus_mod_eq_div_mult)
  have "2 ^ b div 2 ^ j \<le> t div 2 ^ j" using \<open>2 ^ b \<le> t\<close> by (intro zdiv_mono1) simp_all
  then have vb: "2 ^ b \<le> v"
    using jb by (simp add: v power_diff [symmetric])
       (metis le_add_diff_inverse2 mult_right_mono power_add zero_le_numeral zero_le_power)
  have vt: "v \<le> t" by (simp add: v_def)
  have jv: "2 ^ j \<le> v" using jb vb by (meson order_trans one_le_numeral power_increasing)
  have bv: "bit_length v = Suc b" using bit_length_unique [OF vb] vt tb xb(2) by simp
  have "2 ^ (bit_length v - nat n) dvd v"
  proof (cases "j \<le> l")
    case True
    then have "v = t" using ldvd by (simp add: v_def mod_0_imp_dvd dvd_imp_mod_0 dvd_trans [OF le_imp_power_dvd])
    then show ?thesis using ldvd bv b n by (auto simp: l_def dvd_trans [OF le_imp_power_dvd] split: if_splits)
  next
    case False
    then have "bit_length v - nat n \<le> j" using bv b n by (auto simp: l_def split: if_splits)
    then have "(2 :: int) ^ (bit_length v - nat n) dvd 2 ^ j" by (rule le_imp_power_dvd)
    then show ?thesis by (simp add: v)
  qed
  then have "count_significant_bits v \<le> n"
    using count_significant_multiple [of v n] n vb by (smt (verit) zero_less_power)
  moreover have "x < 4 * v"
  proof -
    obtain r m where r: "r = t mod 2 ^ j" "m = (2 :: int) ^ j" by simp
    have "r < m" "v = t - r" "m \<le> v" using jv by (simp_all add: r v_def)
    then have "t < 2 * v" by linarith
    then show ?thesis using tb by simp
  qed
  ultimately show ?thesis using jv vt tb by (simp add: v)
qed

text \<open>The clamp to \<open>[old / FACTOR, old * FACTOR]\<close>.\<close>

lemma clamp_bounds:
  fixes q old f lo :: int
  assumes "0 < old" "1 < f" "0 < lo" "lo \<le> old" "0 \<le> q"
  defines "p \<equiv> (if q \<ge> old then min q (f * old) else max (max lo q) (old div f))"
  shows "lo \<le> p \<and> old div f \<le> p \<and> p \<le> f * old"
proof -
  define m where "m = f * old"
  have "old \<le> m" "old div f \<le> old" "0 \<le> old div f"
    using assms by (simp_all add: m_def int_div_le_self pos_imp_zdiv_nonneg_iff)
  then show ?thesis using assms(1-5) unfolding p_def m_def [symmetric] by (simp split: if_splits) linarith
qed

section \<open>Fetching by height and by parents agree\<close>

text \<open>The height map follows the main chain: it names blocks of the cache, each above its parent.\<close>

definition heights_ok :: "block_cache \<Rightarrow> bool" where
  "heights_ok blocks \<longleftrightarrow>
     list_all (\<lambda>(h, hash). case block_record blocks hash of
         Inl _ \<Rightarrow> False
       | Inr b \<Rightarrow> br_height b = h \<and> (0 < h \<longrightarrow> height_to_hash blocks (h - 1) = Some (br_prev_hash b)))
       (height_hashes blocks)"

lemma heights_okD:
  assumes "heights_ok blocks" "height_to_hash blocks h = Some hash"
  shows "\<exists>b. block_record blocks hash = Inr b \<and> br_height b = h \<and>
             (0 < h \<longrightarrow> height_to_hash blocks (h - 1) = Some (br_prev_hash b))"
proof -
  have "(h, hash) \<in> set (height_hashes blocks)"
    using assms(2) by (auto simp: height_to_hash_def dict_get_def dest: map_of_SomeD)
  then have "case block_record blocks hash of
         Inl _ \<Rightarrow> False
       | Inr b \<Rightarrow> br_height b = h \<and> (0 < h \<longrightarrow> height_to_hash blocks (h - 1) = Some (br_prev_hash b))"
    using assms(1) unfolding heights_ok_def list_all_iff by blast
  then show ?thesis by (simp split: sum.splits)
qed

lemma main_chain_ancestor:
  assumes ok: "heights_ok blocks" and linked: "chain_linked blocks g"
    and "height_to_hash blocks (br_height b) = Some (br_header_hash b)" and "in_chain blocks b"
    and "0 \<le> h" "h \<le> br_height b"
  shows "\<exists>a. contains_height blocks h \<and> height_to_block_record blocks h = Inr a \<and>
             ancestor blocks a b \<and> br_height a = h"
  using assms(3-6)
proof (induction "nat (br_height b - h)" arbitrary: b)
  case 0
  then have "br_height b = h" by simp
  then show ?case
    using 0 ancestor.self by (auto simp: height_to_block_record_def contains_height_def dict_mem_def
        height_to_hash_def in_chain_def)
next
  case (Suc n)
  then have lt: "h < br_height b" by simp
  obtain x where x: "block_record blocks (br_header_hash b) = Inr x" "br_height x = br_height b"
    "0 < br_height b \<longrightarrow> height_to_hash blocks (br_height b - 1) = Some (br_prev_hash x)"
    using heights_okD [OF ok Suc.prems(1)] by blast
  have xb: "x = b" using x(1) Suc.prems(2) by (simp add: in_chain_def)
  obtain p where p: "prev_block blocks b = Inr p" using prev_exists [OF linked Suc.prems(2)] lt Suc.prems(3) by force
  have ph: "br_height p = br_height b - 1" "in_chain blocks p"
    using prev_height [OF linked Suc.prems(2) p] prev_in_chain [OF linked p] by auto
  have "br_header_hash p = br_prev_hash b"
    using cache.linked_look [OF chain_linked_linked [OF linked]] p by (simp add: prev_block_def)
  then have "height_to_hash blocks (br_height p) = Some (br_header_hash p)"
    using x(3) xb ph lt Suc.prems(3) by simp
  moreover have "n = nat (br_height p - h)" "h \<le> br_height p" using Suc.hyps(2) ph lt by auto
  ultimately show ?case
    using Suc.hyps(1) [of p] ph Suc.prems(3) ancestor.parent [OF p] by blast
qed

lemma fetch_by_height_ancestors:
  assumes "heights_ok blocks" "chain_linked blocks g" "in_chain blocks b"
    "height_to_hash blocks (br_height b) = Some (br_header_hash b)"
    and "0 \<le> lo" "lo + n \<le> br_height b + 1" "br_height b < 2 ^ 32"
  shows "\<exists>bs. fetch_by_height blocks lo n = Inr bs \<and> map br_height bs = [lo .. lo + n - 1] \<and>
              (\<forall>x \<in> set bs. ancestor blocks x b)"
proof -
  define f where "f h = rbind (uint32 h) (\<lambda>h'.
     if contains_height blocks h' then height_to_block_record blocks h' else Inl AssertionError)" for h
  have one: "\<exists>a. f h = Inr a \<and> ancestor blocks a b \<and> br_height a = h" if "lo \<le> h" "h \<le> lo + n - 1" for h
    using main_chain_ancestor [OF assms(1,2,4,3), of h] that assms(5-7) by (auto simp: f_def)
  have all: "\<exists>bs. rmap f hs = Inr bs \<and> map br_height bs = hs \<and> (\<forall>x \<in> set bs. ancestor blocks x b)"
    if "\<forall>h \<in> set hs. lo \<le> h \<and> h \<le> lo + n - 1" for hs
    using that
  proof (induction hs)
    case (Cons h hs)
    then show ?case using one [of h] by fastforce
  qed simp
  show ?thesis using all [of "[lo .. lo + n - 1]"] by (simp add: fetch_by_height_def f_def [abs_def])
qed

lemma slow_loop:
  assumes linked: "chain_linked blocks g" and "in_chain blocks b" and "0 \<le> lo" "lo \<le> br_height b"
  shows "\<exists>stop e l. loop_while (\<lambda>(stop, b, _). \<not> stop \<and> br_height b \<ge> lo) (slow_step blocks lo n)
           (False, b, acc) = Inr (stop, e, acc @ l) \<and>
         map br_height (rev l) = [lo .. min (br_height b) (lo + n - 1)] \<and> (\<forall>x \<in> set l. ancestor blocks x b)"
  using assms(2-4)
proof (induction "nat (br_height b)" arbitrary: b acc rule: less_induct)
  case less
  let ?c = "\<lambda>(stop, b, _ :: block_record list). \<not> stop \<and> br_height b \<ge> lo"
  define l0 where "l0 = (if br_height b < lo + n then [b] else [])"
  show ?case
  proof (cases "br_height b = 0")
    case True
    have stop: "loop_while ?c (slow_step blocks lo n) (True, b, bs) = Inr (True, b, bs)" for bs
      unfolding loop_while_unfold [of ?c _ "(True, b, bs)"] by simp
    have "loop_while ?c (slow_step blocks lo n) (False, b, acc) = Inr (True, b, acc @ l0)"
      using True less.prems stop unfolding loop_while_unfold [of ?c _ "(False, b, acc)"]
      by (simp add: slow_step_def l0_def)
    moreover have "map br_height (rev l0) = [lo .. min (br_height b) (lo + n - 1)]"
      using True less.prems by (auto simp: l0_def)
    ultimately show ?thesis using ancestor.self by (fastforce simp: l0_def)
  next
    case False
    then have pos: "0 < br_height b" using chain_height_nonneg [OF linked less.prems(1)] by simp
    then obtain p where p: "prev_block blocks b = Inr p" using prev_exists [OF linked less.prems(1)] by blast
    have ph: "br_height p = br_height b - 1" "in_chain blocks p"
      using prev_height [OF linked less.prems(1) p] prev_in_chain [OF linked p] by auto
    have step: "loop_while ?c (slow_step blocks lo n) (False, b, acc) =
                loop_while ?c (slow_step blocks lo n) (False, p, acc @ l0)"
      using False less.prems p unfolding loop_while_unfold [of ?c _ "(False, b, acc)"]
      by (simp add: slow_step_def l0_def)
    have heights: "[lo .. min (br_height b) (lo + n - 1)] =
                   [lo .. min (br_height p) (lo + n - 1)] @ map br_height l0"
    proof (cases "br_height b < lo + n")
      case True
      then show ?thesis using less.prems ph by (simp add: l0_def min_def upto_rec2)
    next
      case False
      then have "min (br_height p) (lo + n - 1) = lo + n - 1" using ph by simp
      then show ?thesis using False by (simp add: l0_def min_def)
    qed
    show ?thesis
    proof (cases "lo \<le> br_height p")
      case True
      have "nat (br_height p) < nat (br_height b)" using ph pos by simp
      from less.hyps [OF this ph(2) less.prems(2) True, of "acc @ l0"] obtain st e l where
        l: "loop_while ?c (slow_step blocks lo n) (False, p, acc @ l0) = Inr (st, e, (acc @ l0) @ l)"
        "map br_height (rev l) = [lo .. min (br_height p) (lo + n - 1)]" "\<forall>x \<in> set l. ancestor blocks x p"
        by blast
      have "map br_height (rev (l0 @ l)) = [lo .. min (br_height b) (lo + n - 1)]"
        using l(2) heights by (auto simp: l0_def)
      moreover have "\<forall>x \<in> set (l0 @ l). ancestor blocks x b"
        using l(3) ancestor.self ancestor.parent [OF p] by (auto simp: l0_def)
      ultimately show ?thesis using step l(1) by (metis append_assoc)
    next
      case False
      then have "loop_while ?c (slow_step blocks lo n) (False, p, acc @ l0) = Inr (False, p, acc @ l0)"
        using loop_while_unfold [of ?c _ "(False, p, acc @ l0)"] by simp
      moreover have "map br_height (rev l0) = [lo .. min (br_height b) (lo + n - 1)]"
        using False ph heights by (auto simp: l0_def)
      ultimately show ?thesis using step ancestor.self by (fastforce simp: l0_def)
    qed
  qed
qed

lemma same_ancestors:
  assumes "chain_linked blocks g" "in_chain blocks b" "map br_height xs = map br_height ys"
    "\<forall>x \<in> set xs. ancestor blocks x b" "\<forall>y \<in> set ys. ancestor blocks y b"
  shows "xs = ys"
  using assms(3-5)
proof (induction xs arbitrary: ys)
  case (Cons x xs)
  then obtain y ys' where "ys = y # ys'" by (cases ys) auto
  moreover from this have "x = y" using Cons.prems ancestor_unique [OF _ assms(1,2), of y x] by simp
  moreover have "xs = ys'" using Cons calculation by simp
  ultimately show ?case by simp
qed simp

section \<open>Walking back to the start of a sub-epoch\<close>

lemma walk_sub_epoch:
  assumes linked: "chain_linked blocks g" and inch: "in_chain blocks b"
    and S: "0 \<le> S" "S \<le> br_height b" "br_height b < S + E" "S mod E = 0"
  defines "c \<equiv> \<lambda>b. br_height b mod E > 0 \<and> br_sub_epoch_summary_included b = None"
  shows "\<exists>t. walk_back blocks c b = Inr t \<and>
             (br_sub_epoch_summary_included t = None \<longleftrightarrow>
              (\<forall>x. ancestor blocks x b \<and> S \<le> br_height x \<longrightarrow> br_sub_epoch_summary_included x = None))"
proof -
  obtain t where t: "walk_back blocks c b = Inr t" "ancestor blocks t b" "\<not> c t"
    and passed: "\<And>x. ancestor blocks x b \<Longrightarrow> br_height t < br_height x \<Longrightarrow> c x"
    using walk_back_ancestor [OF linked inch, of c] by (auto simp: c_def)
  obtain y where y: "ancestor blocks y b" "br_height y = S" using ancestor_at [OF linked inch S(1,2)] by blast
  have ge: "S \<le> br_height t" using passed [OF y(1)] y(2) S(4) by (force simp: c_def)
  have eq: "br_height t = S" if "br_height t mod E = 0"
  proof -
    have "(br_height t - S) mod E = 0" using that S(4) by (simp add: mod_diff_eq [symmetric])
    moreover have "0 \<le> br_height t - S" "br_height t - S < E"
      using ge ancestor_height [OF t(2) linked inch] S(3) by auto
    ultimately show ?thesis by (simp add: mod_pos_pos_trivial)
  qed
  have "br_sub_epoch_summary_included x = None"
    if "br_sub_epoch_summary_included t = None" "ancestor blocks x b" "S \<le> br_height x" for x
  proof (cases "br_height t < br_height x")
    case True
    then show ?thesis using passed [OF that(2)] by (simp add: c_def)
  next
    case False
    have "0 < E" using S(2,3) by linarith
    then have "br_height t mod E = 0"
      using t(3) that(1) pos_mod_sign [of E "br_height t"] unfolding c_def by linarith
    then have "br_height x = br_height t" using eq False that(3) by simp
    then have "x = t" using ancestor_unique [OF t(2) linked inch that(2)] by simp
    then show ?thesis using that(1) by simp
  qed
  then show ?thesis using t ge by blast
qed

section \<open>Properties\<close>

text \<open>The sub-slot iterations of a new epoch.  When the signage points per sub-slot are a power of two
  (as the comments ask) and the two transaction blocks are apart in time, the computation always returns:
  its closing assertion never fails.  The result divides into the signage point intervals, has at most
  \<open>SIGNIFICANT_BITS\<close> significant bits, is at least one iteration per signage point and at most
  \<open>DIFFICULTY_CHANGE_MAX_FACTOR\<close> times the old value, and is not below a fourth of the old value divided
  by that factor.\<close>

lemma next_ssi_valid:
  assumes "constants_ok c" and "NUM_SPS_SUB_SLOT c = 2 ^ j" and "NUM_SPS_SUB_SLOT c \<le> ssi"
    and "DIFFICULTY_CHANGE_MAX_FACTOR c * ssi < 2 ^ 64"
    and "0 \<le> iters" and "0 < t" and "SUB_SLOT_TIME_TARGET c * iters div t < 2 ^ 64"
  shows "\<exists>v. next_ssi_value c iters t ssi = Inr v \<and>
             v mod NUM_SPS_SUB_SLOT c = 0 \<and> count_significant_bits v \<le> SIGNIFICANT_BITS c \<and>
             NUM_SPS_SUB_SLOT c \<le> v \<and> v \<le> DIFFICULTY_CHANGE_MAX_FACTOR c * ssi \<and>
             ssi div DIFFICULTY_CHANGE_MAX_FACTOR c < 4 * v"
proof -
  define N f n q where "N = NUM_SPS_SUB_SLOT c" and "f = DIFFICULTY_CHANGE_MAX_FACTOR c"
    and "n = SIGNIFICANT_BITS c" and "q = SUB_SLOT_TIME_TARGET c * iters div t"
  have c: "0 < N" "1 < f" "0 < n" "0 < SUB_SLOT_TIME_TARGET c"
    using assms(1) by (auto simp: constants_ok_def N_def f_def n_def)
  have q: "0 \<le> q" "q < 2 ^ 64" using assms(5-7) c by (simp_all add: q_def pos_imp_zdiv_nonneg_iff)
  define p where "p = (if q \<ge> ssi then min q (f * ssi) else max (max N q) (ssi div f))"
  have pb: "N \<le> p" "ssi div f \<le> p" "p \<le> f * ssi"
    using clamp_bounds [of ssi f N q] c q assms(3) by (auto simp: p_def N_def)
  define v where "v = truncate_to_significant_bits p n - truncate_to_significant_bits p n mod N"
  have vb: "N \<le> v" "v \<le> p" "p < 4 * v" "v mod N = 0" "count_significant_bits v \<le> n"
    using round_truncated [of j p n] pb(1) c(3) assms(2) by (simp_all add: v_def N_def)
  have div: "0 \<le> ssi div f" "ssi div f \<le> p" "f * ssi < 2 ^ 64" "0 \<le> f * ssi"
    using assms(3,4) c pb by (simp_all add: pos_imp_zdiv_nonneg_iff f_def N_def)
  have cond: "(if ssi \<le> q then uint64 (min q (f * ssi)) else uint64 (max (max N q) (ssi div f))) = uint64 p"
    by (simp add: p_def)
  have u: "uint64 p = Inr p" "uint64 v = Inr v" "uint64 (f * ssi) = Inr (f * ssi)"
    "uint64 (ssi div f) = Inr (ssi div f)" "uint64 q = Inr q"
    using pb div vb c q by simp_all
  have d: "rdiv (SUB_SLOT_TIME_TARGET c * iters) t = Inr q" "rdiv ssi f = Inr (ssi div f)"
    using assms(6) c by (simp_all add: q_def)
  have "next_ssi_value c iters t ssi = Inr v"
    using c vb(5) unfolding next_ssi_value_def Let_def N_def [symmetric] f_def [symmetric] n_def [symmetric]
    by (simp add: d u cond flip: v_def)
  then show ?thesis using vb pb by (auto simp flip: N_def f_def n_def)
qed



text \<open>Fetching ancestors.  When the height map follows the main chain and \<open>prev_b\<close> is on it, the fast
  path by height returns exactly what the slow walk along the parents returns, for every range of heights
  up to \<open>prev_b\<close>: the ancestors of \<open>prev_b\<close> at these heights, in increasing order.\<close>

lemma fetch_paths_agree:
  assumes "chain_linked blocks g" and "heights_ok blocks" and "in_chain blocks prev_b"
    and "height_to_hash blocks (br_height prev_b) = Some (br_header_hash prev_b)"
    and "0 \<le> target" and "0 < n" and "target + n \<le> br_height prev_b + 1" and "br_height prev_b < 2 ^ 32"
  shows "\<exists>bs. get_blocks_at_height blocks prev_b target n = Inr bs \<and>
              fetch_by_parents blocks prev_b target n = Inr bs \<and>
              map br_height bs = [target .. target + n - 1] \<and>
              (\<forall>b. b \<in> set bs \<longrightarrow> ancestor blocks b prev_b)"
proof -
  obtain bs where bs: "fetch_by_height blocks target n = Inr bs" "map br_height bs = [target .. target + n - 1]"
    "\<forall>x \<in> set bs. ancestor blocks x prev_b"
    using fetch_by_height_ancestors [OF assms(2,1,3,4,5,7,8)] by blast
  obtain stop e l where l: "loop_while (\<lambda>(stop, b, _). \<not> stop \<and> br_height b \<ge> target) (slow_step blocks target n)
      (False, prev_b, []) = Inr (stop, e, l)"
    "map br_height (rev l) = [target .. min (br_height prev_b) (target + n - 1)]"
    "\<forall>x \<in> set l. ancestor blocks x prev_b"
    using slow_loop [OF assms(1,3,5), of n "[]"] assms(6,7) by auto
  have "rev l = bs"
    using same_ancestors [OF assms(1,3), of "rev l" bs] l(2,3) bs(2,3) assms(7) by simp
  then show ?thesis
    using bs l(1) assms(4)
    by (auto simp: get_blocks_at_height_def fetch_by_parents_def contains_height_def dict_mem_def height_to_hash_def)
qed

text \<open>The end of a sub-epoch.  In a linked chain \<open>can_finish_sub_and_full_epoch\<close> always returns for a
  block above its parent.  The block can be the last of its sub-epoch exactly when the first sub-epoch is
  complete, the deficit is paid, the block carries no summary itself, and, away from the two heights where a
  sub-epoch begins, no ancestor in the same sub-epoch carries one: each sub-epoch gets at most one summary.
  The epoch ends with it exactly when the next height begins a sub-epoch that begins an epoch.\<close>

lemma can_finish_epoch_correct:
  assumes "chain_linked blocks g" and "constants_ok c" and "0 \<le> h" and "h + 1 < 2 ^ 32"
    and "block_record blocks ph = Inr parent" and "br_height parent = h - 1"
  shows "\<exists>sub full. can_finish_sub_and_full_epoch c blocks h (Some ph) deficit inc = Inr (sub, full) \<and>
     (sub \<longleftrightarrow> SUB_EPOCH_BLOCKS c \<le> h + 1 \<and> deficit \<le> 0 \<and> \<not> inc \<and>
        ((h + 1) mod SUB_EPOCH_BLOCKS c > 1 \<longrightarrow>
          (\<forall>x. ancestor blocks x parent \<and> h + 1 - (h + 1) mod SUB_EPOCH_BLOCKS c \<le> br_height x \<longrightarrow>
               br_sub_epoch_summary_included x = None))) \<and>
     (full \<longleftrightarrow> sub \<and> (h + 1 - (h + 1) mod SUB_EPOCH_BLOCKS c) mod EPOCH_BLOCKS c = 0)"
proof -
  define E where "E = SUB_EPOCH_BLOCKS c"
  define m where "m = (h + 1) mod E"
  have E: "0 < E" "0 < EPOCH_BLOCKS c" using assms(2) by (simp_all add: constants_ok_def E_def)
  have inch: "in_chain blocks parent"
    using cache.linked_look [OF chain_linked_linked [OF assms(1)] assms(5)] by (simp add: in_chain_present)
  let ?none = "\<forall>x. ancestor blocks x parent \<and> h + 1 - m \<le> br_height x \<longrightarrow> br_sub_epoch_summary_included x = None"
  let ?c = "\<lambda>b. br_height b mod E > 0 \<and> br_sub_epoch_summary_included b = None"
  have ending: "rbind (uint32 (h + 1)) (\<lambda>h. rbind (height_can_be_first_in_epoch c h) (\<lambda>e. Inr (True, e))) =
                Inr (True, (h + 1 - m) mod EPOCH_BLOCKS c = 0)"
    using assms(3,4) E by (simp add: height_can_be_first_in_epoch_def m_def E_def)
  have walk: "\<exists>t. walk_back blocks ?c parent = Inr t \<and> (br_sub_epoch_summary_included t = None \<longleftrightarrow> ?none)" if "m > 1"
  proof (rule walk_sub_epoch [OF assms(1) inch])
    have "m \<le> h + 1" "m < E" using assms(3) E by (simp_all add: m_def E_def zmod_le_nonneg_dividend)
    then show "0 \<le> h + 1 - m" "h + 1 - m \<le> br_height parent" "br_height parent < h + 1 - m + E"
      using that assms(6) by linarith+
    show "(h + 1 - m) mod E = 0" by (simp add: m_def E_def minus_mod_eq_mult_div)
  qed
  show ?thesis
  proof (cases "E \<le> h + 1 \<and> deficit \<le> 0 \<and> \<not> inc")
    case False
    then have "can_finish_sub_and_full_epoch c blocks h (Some ph) deficit inc = Inr (False, False)"
      by (auto simp: can_finish_sub_and_full_epoch_def E_def)
    then show ?thesis using False by (auto simp flip: E_def)
  next
    case True
    let ?X = "Inr (True, (h + 1 - m) mod EPOCH_BLOCKS c = 0)"
    have "can_finish_sub_and_full_epoch c blocks h (Some ph) deficit inc =
          (if m > 1 then rbind (walk_back blocks ?c parent)
             (\<lambda>b. if br_sub_epoch_summary_included b \<noteq> None then Inr (False, False) else ?X) else ?X)"
      using True E assms(5) unfolding can_finish_sub_and_full_epoch_def ending E_def [symmetric] Let_def
      by (simp flip: m_def)
    then show ?thesis
      using walk True unfolding E_def [symmetric] m_def [symmetric] by (cases "m > 1") auto
  qed
qed

lemma can_finish_epoch_correct_witness:
  "\<exists>sub full. can_finish_sub_and_full_epoch DEFAULT_CONSTANTS sample_cache 3 (Some [3]) 0 False = Inr (sub, full) \<and>
     \<not> sub \<and> \<not> full"
proof -
  have "block_record sample_cache [3] = Inr (sample_block 3 2 2)" by code_simp
  then show ?thesis
    using can_finish_epoch_correct [OF sample_chain(1) default_constants_ok, of 3 "[3]" "sample_block 3 2 2" 0 False]
    by (auto simp: sample_block_def DEFAULT_CONSTANTS_def)
qed

end
