(* ===== verification/SubEpoch.thy ===== *)
theory SubEpoch
  imports Difficulty
begin

text \<open>
  \<open>consensus/make_sub_epoch_summary.py\<close>: the summary that the first block of a new sub-epoch carries.  Each
  summary commits to the hash of the one before it.
\<close>

section \<open>Hashing a summary\<close>

text \<open>The \<open>Streamable\<close> encoding: the fields in order, an \<open>Optional\<close> behind a presence byte.\<close>

definition optional_bytes :: "int_class \<Rightarrow> int option \<Rightarrow> bytes res" where
  "optional_bytes cls v =
     (case v of None \<Rightarrow> Inr [0] | Some x \<Rightarrow> rbind (struct_bytes cls x) (\<lambda>b. Inr (1 # b)))"

definition ses_bytes :: "sub_epoch_summary \<Rightarrow> bytes res" where
  "ses_bytes s =
     rbind (struct_bytes uint8_class (ses_num_blocks_overflow s)) (\<lambda>n.
     rbind (optional_bytes uint64_class (ses_new_difficulty s)) (\<lambda>d.
     rbind (optional_bytes uint64_class (ses_new_sub_slot_iters s)) (\<lambda>i.
     Inr (ses_prev_subepoch_summary_hash s @ ses_reward_chain_hash s @ n @ d @ i))))"

definition ses_get_hash :: "hasher \<Rightarrow> sub_epoch_summary \<Rightarrow> bytes res" where
  "ses_get_hash std_hash s = rbind (ses_bytes s) (\<lambda>b. Inr (std_hash b))"

section \<open>Making a summary\<close>

definition mk_ses ::
  "bytes \<Rightarrow> bytes \<Rightarrow> int \<Rightarrow> int option \<Rightarrow> int option \<Rightarrow> sub_epoch_summary res" where
  "mk_ses prev_hash reward_hash overflow difficulty ssi =
     rbind (bytes32 prev_hash) (\<lambda>p. rbind (bytes32 reward_hash) (\<lambda>r. rbind (uint8 overflow) (\<lambda>n.
     Inr \<lparr>ses_prev_subepoch_summary_hash = p, ses_reward_chain_hash = r, ses_num_blocks_overflow = n,
          ses_new_difficulty = difficulty, ses_new_sub_slot_iters = ssi\<rparr>)))"

definition make_sub_epoch_summary ::
  "hasher \<Rightarrow> consensus_constants \<Rightarrow> block_cache \<Rightarrow> int \<Rightarrow> block_record \<Rightarrow> int option \<Rightarrow> int option
     \<Rightarrow> sub_epoch_summary res" where
  "make_sub_epoch_summary std_hash constants blocks blocks_included_height prev_prev_block
       new_difficulty new_sub_slot_iters =
     rbind (rguard AssertionError (br_height prev_prev_block = blocks_included_height - 2)) (\<lambda>_.
     rbind (rdiv (blocks_included_height + MAX_SUB_SLOT_BLOCKS constants) (SUB_EPOCH_BLOCKS constants)) (\<lambda>q.
     if q \<le> 1 then mk_ses (GENESIS_CHALLENGE constants) (GENESIS_CHALLENGE constants) 0 None None
     else
       rbind (walk_back blocks (\<lambda>b. br_sub_epoch_summary_included b = None) prev_prev_block) (\<lambda>cur.
       case (br_finished_reward_slot_hashes cur, br_sub_epoch_summary_included cur) of
         (Some hashes, Some ses) \<Rightarrow>
           rbind (ses_get_hash std_hash ses) (\<lambda>prev_ses.
           rbind (py_index hashes (-1)) (\<lambda>reward_hash.
           rbind (rmod (br_height cur) (SUB_EPOCH_BLOCKS constants)) (\<lambda>m.
           mk_ses prev_ses reward_hash m new_difficulty new_sub_slot_iters)))
       | _ \<Rightarrow> Inl AssertionError)))"

text \<open>What \<open>next_sub_epoch_summary\<close> reads of its block; a finished sub-slot is given by two fields of its
  challenge chain.\<close>

record slot_view =
  sv_new_difficulty :: "int option"
  sv_subepoch_summary_hash :: "bytes option"

record block_view =
  bv_prev_header_hash :: bytes
  bv_signage_point_index :: int
  bv_total_iters :: int
  bv_finished_sub_slots :: "slot_view list"

definition soon_step ::
  "block_cache \<Rightarrow> bool \<times> block_record \<Rightarrow> (bool \<times> block_record) res" where
  "soon_step blocks s =
     (case s of (can_finish_epoch, cur) \<Rightarrow>
        rbind (prev_block blocks cur) (\<lambda>b.
        Inr (case br_sub_epoch_summary_included cur of
               Some ses \<Rightarrow> if ses_new_difficulty ses \<noteq> None then False else can_finish_epoch
             | None \<Rightarrow> can_finish_epoch, b)))"

text \<open>The branch for \<open>can_finish_soon\<close>: whether the epoch can end soon after \<open>prev_b\<close>.\<close>

definition can_finish_epoch_soon ::
  "consensus_constants \<Rightarrow> block_cache \<Rightarrow> block_record \<Rightarrow> bool res" where
  "can_finish_epoch_soon constants blocks prev_b =
     rbind (rbind (uint32 (br_height prev_b + 2)) (height_can_be_first_in_epoch constants)) (\<lambda>first.
     if first then
       if (br_height prev_b + 2) mod SUB_EPOCH_BLOCKS constants > 1 then
         rbind (loop_while (\<lambda>(_, b). br_height b mod SUB_EPOCH_BLOCKS constants > 0)
                  (soon_step blocks) (True, prev_b)) (\<lambda>(can_finish_epoch, cur).
         Inr (case br_sub_epoch_summary_included cur of
                Some ses \<Rightarrow> if ses_new_difficulty ses \<noteq> None then False else can_finish_epoch
              | None \<Rightarrow> can_finish_epoch))
       else Inr True
     else
       rbind (uint32 (br_height prev_b + MAX_SUB_SLOT_BLOCKS constants + 2))
             (height_can_be_first_in_epoch constants))"

definition next_sub_epoch_summary ::
  "hasher \<Rightarrow> consensus_constants \<Rightarrow> block_cache \<Rightarrow> int \<Rightarrow> block_view \<Rightarrow> bool
     \<Rightarrow> sub_epoch_summary option res" where
  "next_sub_epoch_summary std_hash constants blocks required_iters block can_finish_soon =
     rbind (try_block_record blocks (bv_prev_header_hash block)) (\<lambda>prev.
     case prev of
       None \<Rightarrow> Inr None
     | Some prev_b \<Rightarrow>
       if br_height prev_b = 0 then Inr None
       else if bv_finished_sub_slots block \<noteq> [] \<and>
               sv_new_difficulty (hd (bv_finished_sub_slots block)) \<noteq> None then Inr None
       else
         rbind (get_next_sub_slot_iters_and_difficulty constants (bv_finished_sub_slots block \<noteq> [])
                  (Some prev_b) blocks) (\<lambda>(sub_slot_iters, _).
         rbind (is_overflow_block constants (bv_signage_point_index block)) (\<lambda>overflow.
         if bv_finished_sub_slots block \<noteq> [] \<and>
            sv_subepoch_summary_hash (hd (bv_finished_sub_slots block)) \<noteq> None then Inr None
         else
           rbind (if can_finish_soon then
                    rbind (can_finish_epoch_soon constants blocks prev_b) (\<lambda>e. Inr (0, True, e))
                  else
                    rbind (uint32 (br_height prev_b + 1)) (\<lambda>h.
                    rbind (calculate_deficit constants h (Some (br_deficit prev_b)) overflow
                             (int (length (bv_finished_sub_slots block)))) (\<lambda>d.
                    rbind (can_finish_sub_and_full_epoch constants blocks h (Some (br_header_hash prev_b)) d False)
                      (\<lambda>(se, e). Inr (d, se, e))))) (\<lambda>(deficit, can_finish_se, can_finish_epoch).
           if \<not> can_finish_se then Inr None
           else
             rbind (if can_finish_epoch then
                      rbind (calculate_sp_iters constants sub_slot_iters (bv_signage_point_index block)) (\<lambda>sp.
                      rbind (calculate_ip_iters constants sub_slot_iters (bv_signage_point_index block)
                               required_iters) (\<lambda>ip.
                      rbind (uint32 (br_height prev_b + 1)) (\<lambda>h.
                      rbind (prev_block blocks prev_b) (\<lambda>pp.
                      rbind (uint64 (br_weight prev_b - br_weight pp)) (\<lambda>diff.
                      rbind (uint128 (bv_total_iters block - ip + sp - (if overflow then sub_slot_iters else 0)))
                        (\<lambda>sp_total.
                      rbind (get_next_difficulty constants blocks (bv_prev_header_hash block) h diff deficit
                               False True sp_total True) (\<lambda>nd.
                      rbind (get_next_sub_slot_iters constants blocks (bv_prev_header_hash block) h
                               sub_slot_iters deficit False True sp_total True) (\<lambda>ni.
                      Inr (Some nd, Some ni)))))))))
                    else Inr (None, None)) (\<lambda>(next_difficulty, next_sub_slot_iters).
             rbind (uint32 (br_height prev_b + 2)) (\<lambda>h2.
             rbind (make_sub_epoch_summary std_hash constants blocks h2 prev_b next_difficulty next_sub_slot_iters)
               (\<lambda>s. Inr (Some s))))))))"

section \<open>Properties\<close>

text \<open>The chain of summaries.  Past the first sub-epoch, in a linked chain where some ancestor carries a
  summary, the summary made for the next sub-epoch commits to
  the nearest ancestor that carries one: its hash is the hash of that ancestor's summary, its reward chain
  hash the last reward slot hash of that ancestor, and \<open>num_blocks_overflow\<close> how far into its sub-epoch
  that ancestor lies.\<close>

lemma summary_links_to_previous:
  assumes "chain_linked blocks g" and "in_chain blocks prev_b" and "0 < SUB_EPOCH_BLOCKS c"
    and "br_height prev_b = h - 2"
    and "(h + MAX_SUB_SLOT_BLOCKS c) div SUB_EPOCH_BLOCKS c > 1"
    and "\<exists>x. ancestor blocks x prev_b \<and> br_sub_epoch_summary_included x \<noteq> None"
    and "make_sub_epoch_summary std_hash c blocks h prev_b d i = Inr s"
  shows "\<exists>a ses. ancestor blocks a prev_b \<and> br_sub_epoch_summary_included a = Some ses \<and>
     (\<forall>x. ancestor blocks x prev_b \<and> br_height a < br_height x \<longrightarrow> br_sub_epoch_summary_included x = None) \<and>
     ses_get_hash std_hash ses = Inr (ses_prev_subepoch_summary_hash s) \<and>
     ses_num_blocks_overflow s = br_height a mod SUB_EPOCH_BLOCKS c \<and>
     ses_new_difficulty s = d \<and> ses_new_sub_slot_iters s = i"
proof -
  obtain a where a: "walk_back blocks (\<lambda>b. br_sub_epoch_summary_included b = None) prev_b = Inr a"
    "ancestor blocks a prev_b" "br_sub_epoch_summary_included a \<noteq> None"
    "\<forall>x. ancestor blocks x prev_b \<and> br_height a < br_height x \<longrightarrow> br_sub_epoch_summary_included x = None"
    using walk_back_nearest [OF assms(1,2), of "\<lambda>b. br_sub_epoch_summary_included b = None"] assms(6) by auto
  then show ?thesis
    using assms(3-5,7)
    by (auto simp: make_sub_epoch_summary_def mk_ses_def rbind_eq_Inr sized_init_def
        split: option.splits if_splits)
qed

definition sample_ses :: sub_epoch_summary where
  "sample_ses = \<lparr>ses_prev_subepoch_summary_hash = replicate 32 1, ses_reward_chain_hash = replicate 32 2,
     ses_num_blocks_overflow = 0, ses_new_difficulty = None, ses_new_sub_slot_iters = None\<rparr>"

definition sample_ses_block :: block_record where
  "sample_ses_block = (sample_block 2 1 1)\<lparr>br_sub_epoch_summary_included := Some sample_ses,
     br_finished_reward_slot_hashes := Some [replicate 32 3]\<rparr>"

definition sample_ses_cache :: block_cache where
  "sample_ses_cache = sample_cache\<lparr>block_records := map (\<lambda>b. (br_header_hash b, b))
     [sample_block 1 0 0, sample_ses_block, sample_block 3 2 2]\<rparr>"

definition sample_constants :: consensus_constants where
  "sample_constants = DEFAULT_CONSTANTS\<lparr>SUB_EPOCH_BLOCKS := 2, MAX_SUB_SLOT_BLOCKS := 1\<rparr>"

lemma summary_links_to_previous_witness:
  "\<exists>a. ancestor sample_ses_cache a (sample_block 3 2 2) \<and> br_sub_epoch_summary_included a \<noteq> None \<and>
       br_height a mod 2 = 1"
proof -
  let ?h = "\<lambda>_. replicate 32 9"
  have linked: "chain_linked sample_ses_cache [0]" "in_chain sample_ses_cache (sample_block 3 2 2)" by code_simp+
  have "prev_block sample_ses_cache (sample_block 3 2 2) = Inr sample_ses_block" by code_simp
  then have anc: "\<exists>x. ancestor sample_ses_cache x (sample_block 3 2 2) \<and> br_sub_epoch_summary_included x \<noteq> None"
    using ancestor.parent [OF _ ancestor.self] by (intro exI [of _ sample_ses_block]) (simp add: sample_ses_block_def)
  have "make_sub_epoch_summary ?h sample_constants sample_ses_cache 4 (sample_block 3 2 2) None None =
        Inr \<lparr>ses_prev_subepoch_summary_hash = replicate 32 9, ses_reward_chain_hash = replicate 32 3,
             ses_num_blocks_overflow = 1, ses_new_difficulty = None, ses_new_sub_slot_iters = None\<rparr>"
    by code_simp
  from summary_links_to_previous [OF linked _ _ _ anc this] show ?thesis
    by (force simp: sample_constants_def sample_block_def DEFAULT_CONSTANTS_def)
qed

end
