(* ===== verification/Streamable.thy ===== *)
theory Streamable
  imports Sha256
begin

text \<open>
  \<open>util/streamable.py\<close>: the serialisation that every protocol message, block and hash is built on.  The type
  annotation of a field is a value of \<open>ftype\<close>; the functions that \<open>function_to_stream_one_item\<close> and
  \<open>function_to_parse_one_item\<close> return for it are \<open>stream_item\<close> and \<open>parse_item\<close>, and a class is the list of its
  field types.  A binary stream is the list of bytes still to be read.  The BLS types are the byte strings of
  their library; \<open>accepts\<close> says which of them its \<open>from_bytes\<close> accepts.  A \<open>str\<close> is the list of its code points.
  \<open>SerializedProgram\<close> is a class with a \<open>parse\<close> of its own, which asks \<open>chia_rs.serialized_length\<close> where the program
  at the head of the stream ends; \<open>FProgram\<close> carries that function, and a program is its byte string.
\<close>

section \<open>Types and values\<close>

datatype ftype =
    FInt int_class
  | FSized nat
  | FElement nat
  | FBytes
  | FBool
  | FStr
  | FOptional ftype
  | FList ftype
  | FTuple "ftype list"
  | FClass "ftype list"
  | FProgram "bytes \<Rightarrow> nat res"

datatype fval =
    VInt int
  | VBytes bytes
  | VBool bool
  | VStr "nat list"
  | VNone
  | VList "fval list"
  | VTuple "fval list"
  | VObj "fval list"

text \<open>\<open>size_hints\<close>: the sizes of the BLS types.\<close>

definition PRIVATE_KEY_SIZE :: nat where "PRIVATE_KEY_SIZE = 32"
definition G1_SIZE :: nat where "G1_SIZE = 48"
definition G2_SIZE :: nat where "G2_SIZE = 96"

section \<open>UTF-8\<close>

text \<open>A code point that \<open>str.encode("utf-8")\<close> accepts: not a surrogate.\<close>

definition scalar :: "nat \<Rightarrow> bool" where
  "scalar c \<longleftrightarrow> c < 0xD800 \<or> 0xE000 \<le> c \<and> c < 0x110000"

definition byte_of :: "nat \<Rightarrow> byte" where
  "byte_of n = word_of_nat n"

definition utf8_char :: "nat \<Rightarrow> bytes" where
  "utf8_char c =
     (if c < 0x80 then [byte_of c]
      else if c < 0x800 then [byte_of (0xC0 + c div 64), byte_of (0x80 + c mod 64)]
      else if c < 0x10000 then
        [byte_of (0xE0 + c div 4096), byte_of (0x80 + c div 64 mod 64), byte_of (0x80 + c mod 64)]
      else [byte_of (0xF0 + c div 262144), byte_of (0x80 + c div 4096 mod 64), byte_of (0x80 + c div 64 mod 64),
            byte_of (0x80 + c mod 64)])"

definition utf8_encode :: "nat list \<Rightarrow> bytes res" where
  "utf8_encode s = (if list_all scalar s then Inr (concat (map utf8_char s)) else Inl ValueError)"

definition tail_byte :: "byte \<Rightarrow> bool" where
  "tail_byte b \<longleftrightarrow> 0x80 \<le> unat b \<and> unat b < 0xC0"

abbreviation tail_bits :: "byte \<Rightarrow> nat" where
  "tail_bits b \<equiv> unat b - 0x80"

text \<open>One code point, refusing truncated, overlong and surrogate sequences.\<close>

fun utf8_next :: "bytes \<Rightarrow> (nat \<times> bytes) option" where
  "utf8_next [] = None"
| "utf8_next (b # bs) =
     (let x = unat b in
      if x < 0x80 then Some (x, bs)
      else if 0xC0 \<le> x \<and> x < 0xE0 then
        (case bs of
           b1 # r \<Rightarrow>
             let c = (x - 0xC0) * 64 + tail_bits b1 in
             if tail_byte b1 \<and> 0x80 \<le> c then Some (c, r) else None
         | _ \<Rightarrow> None)
      else if 0xE0 \<le> x \<and> x < 0xF0 then
        (case bs of
           b1 # b2 # r \<Rightarrow>
             let c = (x - 0xE0) * 4096 + tail_bits b1 * 64 + tail_bits b2 in
             if tail_byte b1 \<and> tail_byte b2 \<and> 0x800 \<le> c \<and> scalar c then Some (c, r) else None
         | _ \<Rightarrow> None)
      else if 0xF0 \<le> x \<and> x < 0xF8 then
        (case bs of
           b1 # b2 # b3 # r \<Rightarrow>
             let c = (x - 0xF0) * 262144 + tail_bits b1 * 4096 + tail_bits b2 * 64 + tail_bits b3 in
             if tail_byte b1 \<and> tail_byte b2 \<and> tail_byte b3 \<and> 0x10000 \<le> c \<and> c < 0x110000 then Some (c, r) else None
         | _ \<Rightarrow> None)
      else None)"

lemma utf8_next_shorter: "utf8_next bs = Some (c, r) \<Longrightarrow> length r < length bs"
  by (cases bs) (auto simp: Let_def split: if_splits list.splits)

function utf8_decode :: "bytes \<Rightarrow> nat list res" where
  "utf8_decode bs =
     (if bs = [] then Inr []
      else case utf8_next bs of
             None \<Rightarrow> Inl ValueError
           | Some (c, r) \<Rightarrow> rbind (utf8_decode r) (\<lambda>s. Inr (c # s)))"
  by pat_completeness auto
termination
  by (relation "measure length") (auto simp: utf8_next_shorter)

declare utf8_decode.simps [simp del]

section \<open>Streaming and parsing\<close>

text \<open>\<open>f.read(n)\<close> followed by the assertion that \<open>n\<close> bytes came.\<close>

definition read_exactly :: "nat \<Rightarrow> bytes \<Rightarrow> (bytes \<times> bytes) res" where
  "read_exactly n f = (if length (take n f) = n then Inr (take n f, drop n f) else Inl AssertionError)"

definition parse_bool :: "bytes \<Rightarrow> (bool \<times> bytes) res" where
  "parse_bool f =
     rbind (read_exactly 1 f) (\<lambda>(b, rest).
     if b = [0] then Inr (False, rest) else if b = [1] then Inr (True, rest) else Inl ValueError)"

definition parse_uint32 :: "bytes \<Rightarrow> (int \<times> bytes) res" where
  "parse_uint32 f =
     rbind (read_exactly 4 f) (\<lambda>(b, rest).
     rbind (uint32 (from_bytes False b)) (\<lambda>v. Inr (v, rest)))"

definition write_uint32 :: "int \<Rightarrow> bytes res" where
  "write_uint32 v = to_bytes 4 False v"

definition parse_bytes :: "bytes \<Rightarrow> (bytes \<times> bytes) res" where
  "parse_bytes f = rbind (parse_uint32 f) (\<lambda>(list_size, rest). read_exactly (nat list_size) rest)"

definition parse_str :: "bytes \<Rightarrow> (nat list \<times> bytes) res" where
  "parse_str f = rbind (parse_bytes f) (\<lambda>(b, rest). rbind (utf8_decode b) (\<lambda>s. Inr (s, rest)))"

definition parse_size_hints :: "(bytes \<Rightarrow> bool) \<Rightarrow> nat \<Rightarrow> bytes \<Rightarrow> (bytes \<times> bytes) res" where
  "parse_size_hints accepts bytes_to_read f =
     rbind (read_exactly bytes_to_read f) (\<lambda>(b, rest). if accepts b then Inr (b, rest) else Inl ValueError)"

definition stream_bytes :: "bytes \<Rightarrow> bytes res" where
  "stream_bytes item =
     rbind (uint32 (int (length item))) (\<lambda>n. rbind (write_uint32 n) (\<lambda>h. Inr (h @ item)))"

definition stream_str :: "nat list \<Rightarrow> bytes res" where
  "stream_str item = rbind (utf8_encode item) stream_bytes"

definition stream_bool :: "bool \<Rightarrow> bytes res" where
  "stream_bool item = to_bytes 1 False (if item then 1 else 0)"

fun parse_item :: "(bytes \<Rightarrow> bool) \<Rightarrow> ftype \<Rightarrow> bytes \<Rightarrow> (fval \<times> bytes) res"
  and parse_fields :: "(bytes \<Rightarrow> bool) \<Rightarrow> ftype list \<Rightarrow> bytes \<Rightarrow> (fval list \<times> bytes) res"
  and parse_elements :: "(bytes \<Rightarrow> bool) \<Rightarrow> ftype \<Rightarrow> nat \<Rightarrow> bytes \<Rightarrow> (fval list \<times> bytes) res" where
  "parse_item acc (FInt cls) f = rbind (struct_parse cls f) (\<lambda>(v, r). Inr (VInt v, r))"
| "parse_item acc (FSized n) f = rbind (sized_parse n f) (\<lambda>(v, r). Inr (VBytes v, r))"
| "parse_item acc (FElement n) f = rbind (parse_size_hints acc n f) (\<lambda>(v, r). Inr (VBytes v, r))"
| "parse_item acc FBytes f = rbind (parse_bytes f) (\<lambda>(v, r). Inr (VBytes v, r))"
| "parse_item acc FBool f = rbind (parse_bool f) (\<lambda>(v, r). Inr (VBool v, r))"
| "parse_item acc FStr f = rbind (parse_str f) (\<lambda>(v, r). Inr (VStr v, r))"
| "parse_item acc (FOptional t) f =
     rbind (read_exactly 1 f) (\<lambda>(b, r).
     if b = [0] then Inr (VNone, r) else if b = [1] then parse_item acc t r else Inl ValueError)"
| "parse_item acc (FList t) f =
     rbind (parse_uint32 f) (\<lambda>(list_size, r).
     rbind (parse_elements acc t (nat list_size) r) (\<lambda>(vs, r'). Inr (VList vs, r')))"
| "parse_item acc (FTuple ts) f = rbind (parse_fields acc ts f) (\<lambda>(vs, r). Inr (VTuple vs, r))"
| "parse_item acc (FClass ts) f = rbind (parse_fields acc ts f) (\<lambda>(vs, r). Inr (VObj vs, r))"
| "parse_item acc (FProgram serialized_length) f =
     rbind (serialized_length f) (\<lambda>n. Inr (VBytes (take n f), drop n f))"
| "parse_fields acc [] f = Inr ([], f)"
| "parse_fields acc (t # ts) f =
     rbind (parse_item acc t f) (\<lambda>(v, r). rbind (parse_fields acc ts r) (\<lambda>(vs, r'). Inr (v # vs, r')))"
| "parse_elements acc t 0 f = Inr ([], f)"
| "parse_elements acc t (Suc n) f =
     rbind (parse_item acc t f) (\<lambda>(v, r). rbind (parse_elements acc t n r) (\<lambda>(vs, r'). Inr (v # vs, r')))"

fun stream_item :: "ftype \<Rightarrow> fval \<Rightarrow> bytes res"
  and stream_fields :: "ftype list \<Rightarrow> fval list \<Rightarrow> bytes res"
  and stream_elements :: "ftype \<Rightarrow> fval list \<Rightarrow> bytes res" where
  "stream_item (FInt cls) v = (case v of VInt x \<Rightarrow> struct_bytes cls x | _ \<Rightarrow> Inl TypeError)"
| "stream_item (FSized n) v = (case v of VBytes b \<Rightarrow> Inr (sized_stream b []) | _ \<Rightarrow> Inl TypeError)"
| "stream_item (FElement n) v = (case v of VBytes b \<Rightarrow> Inr b | _ \<Rightarrow> Inl TypeError)"
| "stream_item FBytes v = (case v of VBytes b \<Rightarrow> stream_bytes b | _ \<Rightarrow> Inl TypeError)"
| "stream_item FBool v = (case v of VBool b \<Rightarrow> stream_bool b | _ \<Rightarrow> Inl TypeError)"
| "stream_item FStr v = (case v of VStr s \<Rightarrow> stream_str s | _ \<Rightarrow> Inl TypeError)"
| "stream_item (FOptional t) v =
     (if v = VNone then Inr [0] else rbind (stream_item t v) (\<lambda>b. Inr ([1] @ b)))"
| "stream_item (FList t) v =
     (case v of
        VList vs \<Rightarrow>
          rbind (uint32 (int (length vs))) (\<lambda>n. rbind (write_uint32 n) (\<lambda>h.
          rbind (stream_elements t vs) (\<lambda>b. Inr (h @ b))))
      | _ \<Rightarrow> Inl TypeError)"
| "stream_item (FTuple ts) v =
     (case v of
        VTuple vs \<Rightarrow> rbind (rguard AssertionError (length ts = length vs)) (\<lambda>_. stream_fields ts vs)
      | _ \<Rightarrow> Inl TypeError)"
| "stream_item (FClass ts) v = (case v of VObj vs \<Rightarrow> stream_fields ts vs | _ \<Rightarrow> Inl TypeError)"
| "stream_item (FProgram serialized_length) v = (case v of VBytes b \<Rightarrow> Inr b | _ \<Rightarrow> Inl TypeError)"
| "stream_fields [] vs = Inr []"
| "stream_fields (t # ts) vs =
     (case vs of
        [] \<Rightarrow> Inr []
      | v # vs' \<Rightarrow> rbind (stream_item t v) (\<lambda>b. rbind (stream_fields ts vs') (\<lambda>bs. Inr (b @ bs))))"
| "stream_elements t [] = Inr []"
| "stream_elements t (v # vs) =
     rbind (stream_item t v) (\<lambda>b. rbind (stream_elements t vs) (\<lambda>bs. Inr (b @ bs)))"

text \<open>\<open>Streamable.parse\<close>, \<open>from_bytes\<close>, \<open>__bytes__\<close> and \<open>get_hash\<close> of a class.\<close>

definition streamable_parse :: "(bytes \<Rightarrow> bool) \<Rightarrow> ftype list \<Rightarrow> bytes \<Rightarrow> (fval \<times> bytes) res" where
  "streamable_parse acc ftypes f = parse_item acc (FClass ftypes) f"

definition streamable_from_bytes :: "(bytes \<Rightarrow> bool) \<Rightarrow> ftype list \<Rightarrow> bytes \<Rightarrow> fval res" where
  "streamable_from_bytes acc ftypes blob =
     rbind (streamable_parse acc ftypes blob) (\<lambda>(parsed, rest).
     rbind (rguard AssertionError (rest = [])) (\<lambda>_. Inr parsed))"

definition streamable_bytes :: "ftype list \<Rightarrow> fval \<Rightarrow> bytes res" where
  "streamable_bytes ftypes v = stream_item (FClass ftypes) v"

definition streamable_get_hash :: "hasher \<Rightarrow> ftype list \<Rightarrow> fval \<Rightarrow> bytes res" where
  "streamable_get_hash H ftypes v = rbind (streamable_bytes ftypes v) (\<lambda>b. bytes32 (H b))"

section \<open>Well-formed types and values\<close>

definition int_classes :: "int_class list" where
  "int_classes = [int8_class, uint8_class, int16_class, uint16_class, int32_class, uint32_class, int64_class,
     uint64_class, uint128_class, int512_class]"

fun is_optional :: "ftype \<Rightarrow> bool" where
  "is_optional (FOptional t) = True"
| "is_optional _ = False"

text \<open>
  What \<open>serialized_length\<close> promises: it finds a program that lies within the data, depends on that program only,
  and finds it again whatever bytes follow.
\<close>

definition program_law :: "(bytes \<Rightarrow> nat res) \<Rightarrow> bool" where
  "program_law serialized_length \<longleftrightarrow>
     (\<forall>f n. serialized_length f = Inr n \<longrightarrow> n \<le> length f \<and> serialized_length (take n f) = Inr n) \<and>
     (\<forall>p r. serialized_length p = Inr (length p) \<longrightarrow> serialized_length (p @ r) = Inr (length p))"

text \<open>Python flattens \<open>Optional[Optional[T]]\<close>.\<close>

fun wf_type :: "ftype \<Rightarrow> bool" where
  "wf_type (FInt cls) = (cls \<in> set int_classes)"
| "wf_type (FOptional t) = (\<not> is_optional t \<and> wf_type t)"
| "wf_type (FList t) = wf_type t"
| "wf_type (FTuple ts) = list_all wf_type ts"
| "wf_type (FClass ts) = list_all wf_type ts"
| "wf_type (FProgram serialized_length) = program_law serialized_length"
| "wf_type _ = True"

fun has_type :: "(bytes \<Rightarrow> bool) \<Rightarrow> ftype \<Rightarrow> fval \<Rightarrow> bool"
  and have_types :: "(bytes \<Rightarrow> bool) \<Rightarrow> ftype list \<Rightarrow> fval list \<Rightarrow> bool" where
  "has_type acc (FInt cls) v = (case v of VInt x \<Rightarrow> MINIMUM cls \<le> x \<and> x < MAXIMUM_EXCLUSIVE cls | _ \<Rightarrow> False)"
| "has_type acc (FSized n) v = (case v of VBytes b \<Rightarrow> length b = n | _ \<Rightarrow> False)"
| "has_type acc (FElement n) v = (case v of VBytes b \<Rightarrow> length b = n \<and> acc b | _ \<Rightarrow> False)"
| "has_type acc FBytes v = (case v of VBytes b \<Rightarrow> length b < 2 ^ 32 | _ \<Rightarrow> False)"
| "has_type acc FBool v = (case v of VBool b \<Rightarrow> True | _ \<Rightarrow> False)"
| "has_type acc FStr v =
     (case v of VStr s \<Rightarrow> list_all scalar s \<and> length (concat (map utf8_char s)) < 2 ^ 32 | _ \<Rightarrow> False)"
| "has_type acc (FOptional t) v = (v = VNone \<or> has_type acc t v)"
| "has_type acc (FList t) v =
     (case v of VList vs \<Rightarrow> length vs < 2 ^ 32 \<and> list_all (has_type acc t) vs | _ \<Rightarrow> False)"
| "has_type acc (FTuple ts) v = (case v of VTuple vs \<Rightarrow> have_types acc ts vs | _ \<Rightarrow> False)"
| "has_type acc (FClass ts) v = (case v of VObj vs \<Rightarrow> have_types acc ts vs | _ \<Rightarrow> False)"
| "has_type acc (FProgram serialized_length) v =
     (case v of VBytes b \<Rightarrow> serialized_length b = Inr (length b) | _ \<Rightarrow> False)"
| "have_types acc [] vs = (vs = [])"
| "have_types acc (t # ts) vs = (case vs of [] \<Rightarrow> False | v # vs' \<Rightarrow> has_type acc t v \<and> have_types acc ts vs')"

lemma none_has_no_type: "\<not> is_optional t \<Longrightarrow> \<not> has_type acc t VNone"
  by (cases t) auto

lemma have_types_length: "have_types acc ts vs \<Longrightarrow> length ts = length vs"
  by (induction ts arbitrary: vs) (auto split: list.splits)

section \<open>UTF-8 round trips\<close>

lemma unat_byte_of [simp]: "n < 256 \<Longrightarrow> unat (byte_of n) = n"
  by (simp add: byte_of_def unat_of_nat take_bit_nat_eq_self)

lemma byte_of_unat [simp]: "byte_of (unat b) = b"
  by (simp add: byte_of_def)

lemma tail_byte_of: "x < 64 \<Longrightarrow> tail_byte (byte_of (0x80 + x))"
  by (simp add: tail_byte_def)

lemma utf8_next_char:
  assumes "scalar c"
  shows "utf8_next (utf8_char c @ rest) = Some (c, rest)"
proof -
  have "c < 0x80 \<or> 0x80 \<le> c \<and> c < 0x800 \<or> 0x800 \<le> c \<and> c < 0x10000 \<or> 0x10000 \<le> c \<and> c < 0x110000"
    using assms by (auto simp: scalar_def)
  then consider "c < 0x80" | "0x80 \<le> c" "c < 0x800" | "0x800 \<le> c" "c < 0x10000" | "0x10000 \<le> c" "c < 0x110000"
    by blast
  then show ?thesis
  proof cases
    case 2
    have "c div 64 < 32" using 2 by (simp add: less_mult_imp_div_less)
    then show ?thesis using 2 by (simp add: utf8_char_def tail_byte_of Let_def)
  next
    case 3
    have "c div 64 = 64 * (c div 4096) + c div 64 mod 64"
      using mult_div_mod_eq [of 64 "c div 64"] by (simp add: div_mult2_eq [symmetric])
    then have eq: "c div 4096 * 4096 + c div 64 mod 64 * 64 + c mod 64 = c" using mult_div_mod_eq [of 64 c] by linarith
    have "c div 4096 < 16" "c div 64 mod 64 < 64" using 3 by (simp_all add: less_mult_imp_div_less)
    then show ?thesis using 3 assms eq by (simp add: utf8_char_def tail_byte_of Let_def)
  next
    case 4
    have "c div 64 = 64 * (c div 4096) + c div 64 mod 64"
      using mult_div_mod_eq [of 64 "c div 64"] by (simp add: div_mult2_eq [symmetric])
    moreover have "c div 4096 = 64 * (c div 262144) + c div 4096 mod 64"
      using mult_div_mod_eq [of 64 "c div 4096"] by (simp add: div_mult2_eq [symmetric])
    ultimately have eq: "c div 262144 * 262144 + c div 4096 mod 64 * 4096 + c div 64 mod 64 * 64 + c mod 64 = c"
      using mult_div_mod_eq [of 64 c] by linarith
    have "c div 262144 < 8" "c div 64 mod 64 < 64" "c div 4096 mod 64 < 64" using 4 by (simp_all add: less_mult_imp_div_less)
    then show ?thesis using 4 eq by (simp add: utf8_char_def tail_byte_of Let_def)
  qed (simp add: utf8_char_def Let_def)
qed

lemma tail_byte_eq: "tail_byte b \<Longrightarrow> \<exists>x < 64. b = byte_of (0x80 + x) \<and> tail_bits b = x"
  by (rule exI [of _ "tail_bits b"]) (auto simp: tail_byte_def)

lemma unat_byte_less [simp]: "unat (b :: byte) < 256"
  using unsigned_less [of b, where 'a = nat] by simp

lemma utf8_char_next:
  assumes "utf8_next bs = Some (c, rest)"
  shows "scalar c \<and> bs = utf8_char c @ rest"
proof (cases bs)
  case (Cons b t)
  let ?x = "unat b"
  have x: "?x < 256" "byte_of ?x = b" by simp_all
  consider "?x < 0x80" | "0xC0 \<le> ?x" "?x < 0xE0" | "0xE0 \<le> ?x" "?x < 0xF0" | "0xF0 \<le> ?x" "?x < 0xF8"
    using assms Cons by (auto simp: Let_def split: if_splits)
  then show ?thesis
  proof cases
    case 1
    then show ?thesis using assms Cons x by (auto simp: Let_def utf8_char_def scalar_def)
  next
    case 2
    then obtain b1 where b1: "t = b1 # rest" "tail_byte b1" "c = (?x - 0xC0) * 64 + tail_bits b1" "0x80 \<le> c"
      using assms Cons by (auto simp: Let_def split: if_splits list.splits)
    obtain y where y: "y < 64" "b1 = byte_of (0x80 + y)" "tail_bits b1 = y" using tail_byte_eq [OF b1(2)] by blast
    have "c div 64 = ?x - 0xC0" "c mod 64 = y" "c < 0x800" using b1(3) y 2 by simp_all
    then show ?thesis using Cons b1(1,4) y 2 x by (simp add: utf8_char_def scalar_def)
  next
    case 3
    then obtain b1 b2 where b: "t = b1 # b2 # rest" "tail_byte b1" "tail_byte b2"
      "c = (?x - 0xE0) * 4096 + tail_bits b1 * 64 + tail_bits b2" "0x800 \<le> c" "scalar c"
      using assms Cons by (auto simp: Let_def split: if_splits list.splits)
    obtain y z where y: "y < 64" "b1 = byte_of (0x80 + y)" "tail_bits b1 = y"
      and z: "z < 64" "b2 = byte_of (0x80 + z)" "tail_bits b2 = z" using tail_byte_eq b(2,3) by metis
    define k where "k = (?x - 0xE0) * 64 + y"
    have c: "c = k * 64 + z" using b(4) y(3) z(3) by (simp add: k_def algebra_simps)
    have "c div 64 = k" "c mod 64 = z" using c z(1) by simp_all
    moreover have "k div 64 = ?x - 0xE0" "k mod 64 = y" using y(1) by (simp_all add: k_def)
    moreover have "c div 4096 = c div 64 div 64" by (simp add: div_mult2_eq [symmetric])
    moreover have "c < 0x10000" using c y(1) z(1) 3 by (simp add: k_def)
    ultimately show ?thesis using Cons b(1,5,6) y(1,2) z(2) 3 x by (simp add: utf8_char_def)
  next
    case 4
    then obtain b1 b2 b3 where b: "t = b1 # b2 # b3 # rest" "tail_byte b1" "tail_byte b2" "tail_byte b3"
      "c = (?x - 0xF0) * 262144 + tail_bits b1 * 4096 + tail_bits b2 * 64 + tail_bits b3" "0x10000 \<le> c" "c < 0x110000"
      using assms Cons by (auto simp: Let_def split: if_splits list.splits)
    obtain y z w where y: "y < 64" "b1 = byte_of (0x80 + y)" "tail_bits b1 = y"
      and z: "z < 64" "b2 = byte_of (0x80 + z)" "tail_bits b2 = z"
      and w: "w < 64" "b3 = byte_of (0x80 + w)" "tail_bits b3 = w" using tail_byte_eq b(2-4) by metis
    define k where "k = (?x - 0xF0) * 64 + y"
    define l where "l = k * 64 + z"
    have c: "c = l * 64 + w" using b(5) y(3) z(3) w(3) by (simp add: k_def l_def algebra_simps)
    have "c div 64 = l" "c mod 64 = w" using c w(1) by simp_all
    moreover have "l div 64 = k" "l mod 64 = z" using z(1) by (simp_all add: l_def)
    moreover have "k div 64 = ?x - 0xF0" "k mod 64 = y" using y(1) by (simp_all add: k_def)
    moreover have "c div 4096 = c div 64 div 64" "c div 262144 = c div 64 div 64 div 64"
      by (simp_all add: div_mult2_eq [symmetric])
    ultimately show ?thesis using Cons b(1,6,7) y(2) z(2) w(2) 4 x by (simp add: utf8_char_def scalar_def)
  qed
qed (use assms in simp)

lemma utf8_char_nonempty [simp]: "utf8_char c \<noteq> []"
  by (simp add: utf8_char_def)

lemma utf8_decode_encode:
  "list_all scalar s \<Longrightarrow> utf8_decode (concat (map utf8_char s)) = Inr s"
proof (induction s)
  case (Cons c s)
  then show ?case using utf8_next_char [of c] by (subst utf8_decode.simps) simp
qed (simp add: utf8_decode.simps)

lemma utf8_encode_decode:
  "utf8_decode bs = Inr s \<Longrightarrow> list_all scalar s \<and> concat (map utf8_char s) = bs"
proof (induction bs arbitrary: s rule: utf8_decode.induct)
  case (1 bs)
  show ?case
  proof (cases "bs = []")
    case False
    obtain c r where n: "utf8_next bs = Some (c, r)"
      using 1(2) False by (subst (asm) utf8_decode.simps) (auto split: option.splits)
    then obtain t where t: "utf8_decode r = Inr t" "s = c # t"
      using 1(2) False by (subst (asm) utf8_decode.simps) (auto simp: rbind_eq_Inr)
    then show ?thesis using 1(1) [OF False n refl t(1)] utf8_char_next [OF n] by auto
  qed (use 1(2) in \<open>simp add: utf8_decode.simps\<close>)
qed

section \<open>The fields one by one\<close>

lemma int_classes_fixed: "cls \<in> set int_classes \<Longrightarrow> fixed_int cls"
  using int8.fixed_int_axioms uint8.fixed_int_axioms int16.fixed_int_axioms uint16.fixed_int_axioms
    int32.fixed_int_axioms uint32.fixed_int_axioms int64.fixed_int_axioms uint64.fixed_int_axioms
    uint128.fixed_int_axioms int512.fixed_int_axioms by (auto simp: int_classes_def)

lemma read_exactly_iff: "read_exactly n f = Inr (b, r) \<longleftrightarrow> length b = n \<and> f = b @ r"
  by (auto simp: read_exactly_def)

lemma read_exactly_append [simp]: "length b = n \<Longrightarrow> read_exactly n (b @ r) = Inr (b, r)"
  by (simp add: read_exactly_iff)

lemma read_exactly_1 [simp]: "read_exactly (Suc 0) (b # r) = Inr ([b], r)"
  using read_exactly_append [of "[b]" 1 r] by simp

lemma write_uint32_eq: "write_uint32 v = struct_bytes uint32_class v"
  by (simp add: write_uint32_def struct_bytes_def uint32_class_def)

lemma parse_uint32_iff: "parse_uint32 f = Inr (v, r) \<longleftrightarrow> struct_parse uint32_class f = Inr (v, r)"
  by (auto simp: parse_uint32_def struct_parse_def struct_from_bytes_def read_exactly_def uint32_def rbind_eq_Inr
      uint32_class_def split: if_splits)

lemma uint32_written: "0 \<le> v \<Longrightarrow> v < 2 ^ 32 \<Longrightarrow> \<exists>h. write_uint32 v = Inr h \<and> (\<forall>r. parse_uint32 (h @ r) = Inr (v, r))"
  using uint32.struct_bytes_total [of v] uint32.struct_parse_bytes [of v]
  by (auto simp: write_uint32_eq parse_uint32_iff uint32_class_def)

lemma uint32_read: "parse_uint32 f = Inr (v, r) \<Longrightarrow> 0 \<le> v \<and> v < 2 ^ 32 \<and> (\<exists>h. write_uint32 v = Inr h \<and> f = h @ r)"
  using uint32.struct_bytes_parse [of f v r] by (auto simp: write_uint32_eq parse_uint32_iff uint32_class_def)

lemma bytes_written:
  assumes "length b < 2 ^ 32"
  shows "\<exists>e. stream_bytes b = Inr e \<and> (\<forall>r. parse_bytes (e @ r) = Inr (b, r))"
proof -
  obtain h where "write_uint32 (int (length b)) = Inr h" "\<forall>r. parse_uint32 (h @ r) = Inr (int (length b), r)"
    using uint32_written [of "int (length b)"] assms by auto
  then show ?thesis using assms by (auto simp: stream_bytes_def parse_bytes_def)
qed

lemma bytes_read:
  assumes "parse_bytes f = Inr (b, r)"
  shows "length b < 2 ^ 32 \<and> (\<exists>e. stream_bytes b = Inr e \<and> f = e @ r)"
proof -
  obtain n f' where n: "parse_uint32 f = Inr (n, f')" "read_exactly (nat n) f' = Inr (b, r)"
    using assms by (auto simp: parse_bytes_def rbind_eq_Inr split: prod.splits)
  then obtain h where h: "0 \<le> n" "n < 2 ^ 32" "write_uint32 n = Inr h" "f = h @ f'" using uint32_read by blast
  have b: "int (length b) = n" "f' = b @ r" using n(2) h(1) by (auto simp: read_exactly_iff)
  then show ?thesis using h by (auto simp: stream_bytes_def)
qed

lemma bool_written: "\<exists>e. stream_bool b = Inr e \<and> (\<forall>r. parse_bool (e @ r) = Inr (b, r))"
  by (auto simp: stream_bool_def parse_bool_def to_bytes_def)

lemma bool_read: "parse_bool f = Inr (b, r) \<Longrightarrow> \<exists>e. stream_bool b = Inr e \<and> f = e @ r"
  by (auto simp: stream_bool_def parse_bool_def to_bytes_def rbind_eq_Inr read_exactly_iff split: if_splits prod.splits)

lemma str_written:
  "list_all scalar s \<Longrightarrow> length (concat (map utf8_char s)) < 2 ^ 32 \<Longrightarrow>
   \<exists>e. stream_str s = Inr e \<and> (\<forall>r. parse_str (e @ r) = Inr (s, r))"
  using bytes_written [of "concat (map utf8_char s)"] utf8_decode_encode [of s]
  by (auto simp: stream_str_def parse_str_def utf8_encode_def)

lemma str_read:
  "parse_str f = Inr (s, r) \<Longrightarrow>
   list_all scalar s \<and> length (concat (map utf8_char s)) < 2 ^ 32 \<and> (\<exists>e. stream_str s = Inr e \<and> f = e @ r)"
  by (auto simp: stream_str_def parse_str_def utf8_encode_def rbind_eq_Inr split: prod.splits
      dest!: bytes_read utf8_encode_decode)

lemma int_written:
  assumes "cls \<in> set int_classes" "MINIMUM cls \<le> v" "v < MAXIMUM_EXCLUSIVE cls"
  shows "\<exists>b. struct_bytes cls v = Inr b \<and> (\<forall>r. struct_parse cls (b @ r) = Inr (v, r))"
  using fixed_int.struct_bytes_total [OF int_classes_fixed [OF assms(1)], of v]
    fixed_int.struct_parse_bytes [OF int_classes_fixed [OF assms(1)], of v] assms(2,3) by blast

lemma int_read:
  assumes "cls \<in> set int_classes" "struct_parse cls f = Inr (v, r)"
  shows "MINIMUM cls \<le> v \<and> v < MAXIMUM_EXCLUSIVE cls \<and> (\<exists>b. struct_bytes cls v = Inr b \<and> f = b @ r)"
  using fixed_int.struct_bytes_parse [OF int_classes_fixed [OF assms(1)] assms(2)] by blast

section \<open>Round trips\<close>

lemma sized_parse_append [simp]: "sized_parse (length v) (v @ r) = Inr (v, r)"
  by (simp add: sized_parse_iff)

lemma item_written:
  "wf_type t \<Longrightarrow> has_type acc t v \<Longrightarrow> \<exists>b. stream_item t v = Inr b \<and> (\<forall>r. parse_item acc t (b @ r) = Inr (v, r))"
  "list_all wf_type ts \<Longrightarrow> have_types acc ts vs \<Longrightarrow>
     \<exists>b. stream_fields ts vs = Inr b \<and> (\<forall>r. parse_fields acc ts (b @ r) = Inr (vs, r))"
  "wf_type t \<Longrightarrow> list_all (has_type acc t) vs \<Longrightarrow>
     \<exists>b. stream_elements t vs = Inr b \<and> (\<forall>r. parse_elements acc t (length vs) (b @ r) = Inr (vs, r))"
proof (induction t v and ts vs and t vs rule: stream_item_stream_fields_stream_elements.induct)
  case (1 cls v)
  then obtain x where "v = VInt x" "MINIMUM cls \<le> x" "x < MAXIMUM_EXCLUSIVE cls" "cls \<in> set int_classes"
    by (auto split: fval.splits)
  then show ?case using int_written [of cls x] by auto
next
  case (4 v)
  then obtain b where "v = VBytes b" "length b < 2 ^ 32" by (auto split: fval.splits)
  then show ?case using bytes_written [of b] by auto
next
  case (5 v)
  then obtain b where "v = VBool b" by (auto split: fval.splits)
  then show ?case using bool_written [of b] by auto
next
  case (6 v)
  then obtain s where "v = VStr s" "list_all scalar s" "length (concat (map utf8_char s)) < 2 ^ 32"
    by (auto split: fval.splits)
  then show ?case using str_written [of s] by auto
next
  case (7 t v)
  then show ?case using none_has_no_type [of t acc] by (cases "v = VNone") auto
next
  case (8 t v)
  then obtain vs where v: "v = VList vs" "length vs < 2 ^ 32" "list_all (has_type acc t) vs"
    by (auto split: fval.splits)
  obtain h where h: "write_uint32 (int (length vs)) = Inr h" "\<forall>r. parse_uint32 (h @ r) = Inr (int (length vs), r)"
    using uint32_written [of "int (length vs)"] v(2) by auto
  have "uint32 (int (length vs)) = Inr (int (length vs))" using v(2) by simp
  then obtain b where "stream_elements t vs = Inr b" "\<forall>r. parse_elements acc t (length vs) (b @ r) = Inr (vs, r)"
    using "8.IH" [OF v(1) _ h(1)] 8(2) v(3) by auto
  then show ?case using v h by auto
next
  case (9 ts v)
  then obtain vs where v: "v = VTuple vs" "have_types acc ts vs" by (auto split: fval.splits)
  then show ?case using 9 have_types_length [OF v(2)] by auto
next
  case (10 ts v)
  then show ?case by (auto split: fval.splits)
next
  case (13 t ts vs)
  then obtain w ws where v: "vs = w # ws" "has_type acc t w" "have_types acc ts ws" by (auto split: list.splits)
  obtain b where b: "stream_item t w = Inr b" "\<forall>r. parse_item acc t (b @ r) = Inr (w, r)" using "13.IH"(1) [OF v(1)] 13 v by auto
  obtain bs where "stream_fields ts ws = Inr bs" "\<forall>r. parse_fields acc ts (bs @ r) = Inr (ws, r)"
    using "13.IH"(2) [OF v(1) b(1)] 13(3) v(3) by auto
  then show ?case using v(1) b by auto
next
  case (15 t v vs)
  obtain b where b: "stream_item t v = Inr b" "\<forall>r. parse_item acc t (b @ r) = Inr (v, r)" using "15.IH"(1) 15 by auto
  obtain bs where "stream_elements t vs = Inr bs" "\<forall>r. parse_elements acc t (length vs) (bs @ r) = Inr (vs, r)"
    using "15.IH"(2) [OF b(1)] 15(3,4) by auto
  then show ?case using b by auto
qed (auto simp: program_law_def sized_stream_def sized_parse_iff parse_size_hints_def split: fval.splits)

lemma item_read:
  "wf_type t \<Longrightarrow> parse_item acc t f = Inr (v, r) \<Longrightarrow> has_type acc t v \<and> (\<exists>b. stream_item t v = Inr b \<and> f = b @ r)"
  "list_all wf_type ts \<Longrightarrow> parse_fields acc ts f = Inr (vs, r) \<Longrightarrow>
     have_types acc ts vs \<and> (\<exists>b. stream_fields ts vs = Inr b \<and> f = b @ r)"
  "wf_type t \<Longrightarrow> parse_elements acc t n f = Inr (vs, r) \<Longrightarrow>
     length vs = n \<and> list_all (has_type acc t) vs \<and> (\<exists>b. stream_elements t vs = Inr b \<and> f = b @ r)"
proof (induction acc t f and acc ts f and acc t n f arbitrary: v r and vs r and vs r
    rule: parse_item_parse_fields_parse_elements.induct)
  case (1 acc cls f)
  then obtain x where "v = VInt x" "struct_parse cls f = Inr (x, r)" "cls \<in> set int_classes"
    by (auto simp: rbind_eq_Inr split: prod.splits)
  then show ?case using int_read [of cls f x r] by auto
next
  case (7 acc t f)
  obtain b f' where b: "read_exactly 1 f = Inr (b, f')" using 7(3) by (auto simp: rbind_eq_Inr)
  then have f: "f = b @ f'" by (simp add: read_exactly_iff)
  consider "b = [0]" "v = VNone" "r = f'" | "b \<noteq> [0]" "b = [1]" "parse_item acc t f' = Inr (v, r)"
    using 7(3) b by (auto split: if_splits)
  then show ?case
  proof cases
    case 2
    then have "has_type acc t v \<and> (\<exists>b. stream_item t v = Inr b \<and> f' = b @ r)" using "7.IH" [OF b refl _ 2(2)] 7(2) by auto
    then show ?thesis using 2 f 7(2) none_has_no_type [of t acc] by auto
  qed (use f in auto)
next
  case (8 acc t f)
  obtain n f' vs where n: "parse_uint32 f = Inr (n, f')" "parse_elements acc t (nat n) f' = Inr (vs, r)" "v = VList vs"
    using 8(3) by (auto simp: rbind_eq_Inr split: prod.splits)
  have "length vs = nat n \<and> list_all (has_type acc t) vs \<and> (\<exists>b. stream_elements t vs = Inr b \<and> f' = b @ r)"
    using "8.IH" [OF n(1) refl] n(2) 8(2) by auto
  moreover obtain h where "0 \<le> n" "n < 2 ^ 32" "write_uint32 n = Inr h" "f = h @ f'" using uint32_read [OF n(1)] by blast
  ultimately show ?case using n(3) by auto
next
  case (9 acc ts f)
  then obtain vs where "parse_fields acc ts f = Inr (vs, r)" "v = VTuple vs" by (auto simp: rbind_eq_Inr split: prod.splits)
  then show ?case using 9 by (auto dest: have_types_length)
next
  case (10 acc ts f)
  then obtain vs where "parse_fields acc ts f = Inr (vs, r)" "v = VObj vs" by (auto simp: rbind_eq_Inr split: prod.splits)
  then show ?case using 10 by auto
next
  case (13 acc t ts f)
  then obtain w f' ws where w: "parse_item acc t f = Inr (w, f')" "parse_fields acc ts f' = Inr (ws, r)" "vs = w # ws"
    by (auto simp: rbind_eq_Inr split: prod.splits)
  then show ?case using "13.IH"(1) [of w f'] "13.IH"(2) [OF w(1) refl _ w(2)] 13(3) by auto
next
  case (15 acc t n f)
  then obtain w f' ws where w: "parse_item acc t f = Inr (w, f')" "parse_elements acc t n f' = Inr (ws, r)" "vs = w # ws"
    by (auto simp: rbind_eq_Inr split: prod.splits)
  then show ?case using "15.IH"(1) [of w f'] "15.IH"(2) [OF w(1) refl _ w(2)] 15(3) by auto
qed (auto simp: program_law_def rbind_eq_Inr sized_stream_def sized_parse_iff parse_size_hints_def read_exactly_iff
      split: prod.splits if_splits dest!: bytes_read bool_read str_read)

text \<open>Every well-formed type is a codec, so its encodings are injective and prefix-free.\<close>

definition typed :: "(bytes \<Rightarrow> bool) \<Rightarrow> ftype \<Rightarrow> fval \<Rightarrow> bool" where
  "typed acc t v \<longleftrightarrow> wf_type t \<and> has_type acc t v"

definition parse_wf :: "(bytes \<Rightarrow> bool) \<Rightarrow> ftype \<Rightarrow> bytes \<Rightarrow> (fval \<times> bytes) res" where
  "parse_wf acc t f = (if wf_type t then parse_item acc t f else Inl TypeError)"

interpretation item: codec "typed acc t" "stream_item t" "parse_wf acc t" for acc t
proof
  show "\<exists>bs. stream_item t v = Inr bs" if "typed acc t v" for v
    using that item_written(1) [of t acc v] by (auto simp: typed_def)
  show "parse_wf acc t (bs @ rest) = Inr (v, rest)" if "typed acc t v" "stream_item t v = Inr bs" for v bs rest
    using that item_written(1) [of t acc v] by (auto simp: typed_def parse_wf_def)
  show "typed acc t v \<and> (\<exists>bs. stream_item t v = Inr bs \<and> f = bs @ rest)" if "parse_wf acc t f = Inr (v, rest)" for f v rest
    using that item_read(1) [of t acc f v rest] by (auto simp: typed_def parse_wf_def split: if_splits)
qed

lemma object_roundtrip:
  assumes "list_all wf_type ftypes" and "has_type acc (FClass ftypes) v"
  shows "\<exists>b. streamable_bytes ftypes v = Inr b \<and> streamable_from_bytes acc ftypes b = Inr v"
proof -
  obtain b where "stream_item (FClass ftypes) v = Inr b" "\<forall>r. parse_item acc (FClass ftypes) (b @ r) = Inr (v, r)"
    using item_written(1) [of "FClass ftypes" acc v] assms by auto
  then have "parse_item acc (FClass ftypes) b = Inr (v, [])" "streamable_bytes ftypes v = Inr b"
    by (metis append_Nil2, simp only: streamable_bytes_def)
  then show ?thesis by (simp add: streamable_from_bytes_def streamable_parse_def del: parse_item.simps)
qed

section \<open>Properties\<close>

text \<open>C27. Streaming then parsing.  An object whose fields have their declared types is always written, and
  \<open>from_bytes\<close> reads the same object back from what was written.\<close>

theorem stream_roundtrip:
  assumes "list_all wf_type ftypes" and "has_type acc (FClass ftypes) v"
  shows "\<exists>b. streamable_bytes ftypes v = Inr b \<and> streamable_from_bytes acc ftypes b = Inr v"
  using assms by (rule object_roundtrip)

definition sample_fields :: "ftype list" where
  "sample_fields = [FSized 2, FInt uint32_class, FOptional (FInt uint8_class), FList (FTuple [FBool, FBytes]), FStr]"

definition sample_object :: fval where
  "sample_object = VObj [VBytes [1, 2], VInt 70000, VNone, VList [VTuple [VBool True, VBytes [7]]], VStr [65, 0x20AC]]"

theorem stream_roundtrip_witness:
  "\<exists>b. streamable_bytes sample_fields sample_object = Inr b \<and>
     streamable_from_bytes (\<lambda>_. True) sample_fields b = Inr sample_object"
proof (rule stream_roundtrip)
  show "list_all wf_type sample_fields" by (simp add: sample_fields_def int_classes_def)
  show "has_type (\<lambda>_. True) (FClass sample_fields) sample_object"
    by (simp add: sample_fields_def sample_object_def utf8_char_def scalar_def uint32_class_def uint8_class_def)
qed

text \<open>C28. Parsing then streaming.  Whatever bytes \<open>from_bytes\<close> accepts, the object it returns has the declared
  field types and is written back to exactly these bytes: no object has a second encoding.\<close>

theorem parse_canonical:
  assumes "list_all wf_type ftypes" and "streamable_from_bytes acc ftypes blob = Inr v"
  shows "has_type acc (FClass ftypes) v \<and> streamable_bytes ftypes v = Inr blob"
proof -
  have "parse_item acc (FClass ftypes) blob = Inr (v, [])"
    using assms(2) by (auto simp: streamable_from_bytes_def streamable_parse_def rbind_eq_Inr simp del: parse_item.simps)
  then show ?thesis using item_read(1) [of "FClass ftypes" acc blob v "[]"] assms(1) by (auto simp: streamable_bytes_def)
qed

theorem parse_canonical_witness:
  "has_type (\<lambda>_. True) (FClass [FBool, FOptional (FSized 1)]) (VObj [VBool True, VBytes [9]]) \<and>
   streamable_bytes [FBool, FOptional (FSized 1)] (VObj [VBool True, VBytes [9]]) = Inr [1, 1, 9]"
proof (rule parse_canonical)
  show "list_all wf_type [FBool, FOptional (FSized 1)]" by simp
  show "streamable_from_bytes (\<lambda>_. True) [FBool, FOptional (FSized 1)] [1, 1, 9] = Inr (VObj [VBool True, VBytes [9]])"
    by code_simp
qed

text \<open>If the hash function does not confuse the encodings of two objects of a class,
  equal hashes mean equal objects.\<close>

lemma hash_identifies:
  assumes "list_all wf_type ftypes" and "has_type acc (FClass ftypes) v" and "has_type acc (FClass ftypes) w"
    and "\<forall>b c. streamable_bytes ftypes v = Inr b \<and> streamable_bytes ftypes w = Inr c \<and> H b = H c \<longrightarrow> b = c"
    and "streamable_get_hash H ftypes v = Inr h" and "streamable_get_hash H ftypes w = Inr h"
  shows "v = w"
proof -
  obtain b c where bc: "streamable_bytes ftypes v = Inr b" "streamable_bytes ftypes w = Inr c" "H b = h" "H c = h"
    using assms(5,6) by (auto simp: streamable_get_hash_def rbind_eq_Inr sized_init_def split: if_splits)
  then have "b = c" using assms(4) by (metis (no_types))
  then have "streamable_bytes ftypes v = streamable_bytes ftypes w" using bc by simp
  moreover have "typed acc (FClass ftypes) v" "typed acc (FClass ftypes) w" using assms(1-3) by (simp_all add: typed_def)
  ultimately show ?thesis
    unfolding streamable_bytes_def by (intro item.enc_inj [of acc "FClass ftypes" v w])
qed

end
