(* ===== verification/BlockTypes.thy ===== *)
theory BlockTypes
  imports Streamable Rewards
begin

text \<open>
  The parts of a block: the dataclasses of \<open>types/blockchain_format/\<close>, \<open>types/full_block.py\<close>,
  \<open>types/unfinished_block.py\<close>, \<open>types/header_block.py\<close> and \<open>types/end_of_slot_bundle.py\<close>.  Each class is a record;
  \<open>x_fields\<close> are the declared types of its fields and \<open>x_val\<close> the object as a value of \<open>Streamable\<close>, from which
  its bytes and its hash follow.  Public keys and signatures are the byte strings of the BLS library.
\<close>

abbreviation FG1 :: ftype where "FG1 \<equiv> FElement G1_SIZE"
abbreviation FG2 :: ftype where "FG2 \<equiv> FElement G2_SIZE"
abbreviation F32 :: ftype where "F32 \<equiv> FSized 32"
abbreviation Fu8 :: ftype where "Fu8 \<equiv> FInt uint8_class"
abbreviation Fu32 :: ftype where "Fu32 \<equiv> FInt uint32_class"
abbreviation Fu64 :: ftype where "Fu64 \<equiv> FInt uint64_class"
abbreviation Fu128 :: ftype where "Fu128 \<equiv> FInt uint128_class"

definition opt_val :: "('a \<Rightarrow> fval) \<Rightarrow> 'a option \<Rightarrow> fval" where
  "opt_val f x = (case x of None \<Rightarrow> VNone | Some a \<Rightarrow> f a)"

definition coin_fields :: "ftype list" where
  "coin_fields = [F32, F32, Fu64]"

definition coin_val :: "coin \<Rightarrow> fval" where
  "coin_val c = VObj [VBytes (parent_coin_info c), VBytes (puzzle_hash c), VInt (amount c)]"

section \<open>Proofs of time\<close>

text \<open>\<open>ClassgroupElement\<close> holds one field, 100 bytes; \<open>from_bytes\<close> pads short data with zeros.\<close>

definition classgroup_fields :: "ftype list" where
  "classgroup_fields = [FSized 100]"

definition classgroup_from_bytes :: "bytes \<Rightarrow> bytes res" where
  "classgroup_from_bytes data =
     sized_init 100 (if length data < 100 then data @ replicate (100 - length data) 0 else data)"

definition get_default_element :: "bytes res" where
  "get_default_element = classgroup_from_bytes [8]"

record vdf_info =
  vi_challenge :: bytes
  vi_number_of_iterations :: int
  vi_output :: bytes

definition vdf_info_fields :: "ftype list" where
  "vdf_info_fields = [F32, Fu64, FClass classgroup_fields]"

definition vdf_info_val :: "vdf_info \<Rightarrow> fval" where
  "vdf_info_val i = VObj [VBytes (vi_challenge i), VInt (vi_number_of_iterations i), VObj [VBytes (vi_output i)]]"

record vdf_proof =
  vp_witness_type :: int
  vp_witness :: bytes
  vp_normalized_to_identity :: bool

definition vdf_proof_fields :: "ftype list" where
  "vdf_proof_fields = [Fu8, FBytes, FBool]"

definition vdf_proof_val :: "vdf_proof \<Rightarrow> fval" where
  "vdf_proof_val p = VObj [VInt (vp_witness_type p), VBytes (vp_witness p), VBool (vp_normalized_to_identity p)]"

section \<open>Proofs of space\<close>

record proof_of_space =
  pos_challenge :: bytes
  pos_pool_public_key :: "bytes option"
  pos_pool_contract_puzzle_hash :: "bytes option"
  pos_plot_public_key :: bytes
  pos_size :: int
  pos_proof :: bytes

definition proof_of_space_fields :: "ftype list" where
  "proof_of_space_fields = [F32, FOptional FG1, FOptional F32, FG1, Fu8, FBytes]"

definition proof_of_space_val :: "proof_of_space \<Rightarrow> fval" where
  "proof_of_space_val p =
     VObj [VBytes (pos_challenge p), opt_val VBytes (pos_pool_public_key p),
           opt_val VBytes (pos_pool_contract_puzzle_hash p), VBytes (pos_plot_public_key p), VInt (pos_size p),
           VBytes (pos_proof p)]"

record pool_target =
  pt_puzzle_hash :: bytes
  pt_max_height :: int

definition pool_target_fields :: "ftype list" where
  "pool_target_fields = [F32, Fu32]"

definition pool_target_val :: "pool_target \<Rightarrow> fval" where
  "pool_target_val t = VObj [VBytes (pt_puzzle_hash t), VInt (pt_max_height t)]"

section \<open>Foliage\<close>

record transactions_info =
  ti_generator_root :: bytes
  ti_generator_refs_root :: bytes
  ti_aggregated_signature :: bytes
  ti_fees :: int
  ti_cost :: int
  ti_reward_claims_incorporated :: "coin list"

definition transactions_info_fields :: "ftype list" where
  "transactions_info_fields = [F32, F32, FG2, Fu64, Fu64, FList (FClass coin_fields)]"

definition transactions_info_val :: "transactions_info \<Rightarrow> fval" where
  "transactions_info_val t =
     VObj [VBytes (ti_generator_root t), VBytes (ti_generator_refs_root t), VBytes (ti_aggregated_signature t),
           VInt (ti_fees t), VInt (ti_cost t), VList (map coin_val (ti_reward_claims_incorporated t))]"

record foliage_transaction_block =
  ft_prev_transaction_block_hash :: bytes
  ft_timestamp :: int
  ft_filter_hash :: bytes
  ft_additions_root :: bytes
  ft_removals_root :: bytes
  ft_transactions_info_hash :: bytes

definition foliage_transaction_block_fields :: "ftype list" where
  "foliage_transaction_block_fields = [F32, Fu64, F32, F32, F32, F32]"

definition foliage_transaction_block_val :: "foliage_transaction_block \<Rightarrow> fval" where
  "foliage_transaction_block_val f =
     VObj [VBytes (ft_prev_transaction_block_hash f), VInt (ft_timestamp f), VBytes (ft_filter_hash f),
           VBytes (ft_additions_root f), VBytes (ft_removals_root f), VBytes (ft_transactions_info_hash f)]"

record foliage_block_data =
  fd_unfinished_reward_block_hash :: bytes
  fd_pool_target :: pool_target
  fd_pool_signature :: "bytes option"
  fd_farmer_reward_puzzle_hash :: bytes
  fd_community_reward_puzzle_hash :: bytes
  fd_extension_data :: bytes

definition foliage_block_data_fields :: "ftype list" where
  "foliage_block_data_fields = [F32, FClass pool_target_fields, FOptional FG2, F32, F32, F32]"

definition foliage_block_data_val :: "foliage_block_data \<Rightarrow> fval" where
  "foliage_block_data_val d =
     VObj [VBytes (fd_unfinished_reward_block_hash d), pool_target_val (fd_pool_target d),
           opt_val VBytes (fd_pool_signature d), VBytes (fd_farmer_reward_puzzle_hash d),
           VBytes (fd_community_reward_puzzle_hash d), VBytes (fd_extension_data d)]"

record foliage =
  fo_prev_block_hash :: bytes
  fo_reward_block_hash :: bytes
  fo_foliage_block_data :: foliage_block_data
  fo_foliage_block_data_signature :: bytes
  fo_foliage_transaction_block_hash :: "bytes option"
  fo_foliage_transaction_block_signature :: "bytes option"

definition foliage_fields :: "ftype list" where
  "foliage_fields = [F32, F32, FClass foliage_block_data_fields, FG2, FOptional F32, FOptional FG2]"

definition foliage_val :: "foliage \<Rightarrow> fval" where
  "foliage_val f =
     VObj [VBytes (fo_prev_block_hash f), VBytes (fo_reward_block_hash f),
           foliage_block_data_val (fo_foliage_block_data f), VBytes (fo_foliage_block_data_signature f),
           opt_val VBytes (fo_foliage_transaction_block_hash f),
           opt_val VBytes (fo_foliage_transaction_block_signature f)]"

section \<open>Sub-slots\<close>

record challenge_block_info =
  cb_proof_of_space :: proof_of_space
  cb_challenge_chain_sp_vdf :: "vdf_info option"
  cb_challenge_chain_sp_signature :: bytes
  cb_challenge_chain_ip_vdf :: vdf_info

definition challenge_block_info_fields :: "ftype list" where
  "challenge_block_info_fields =
     [FClass proof_of_space_fields, FOptional (FClass vdf_info_fields), FG2, FClass vdf_info_fields]"

definition challenge_block_info_val :: "challenge_block_info \<Rightarrow> fval" where
  "challenge_block_info_val c =
     VObj [proof_of_space_val (cb_proof_of_space c), opt_val vdf_info_val (cb_challenge_chain_sp_vdf c),
           VBytes (cb_challenge_chain_sp_signature c), vdf_info_val (cb_challenge_chain_ip_vdf c)]"

record challenge_chain_sub_slot =
  cc_challenge_chain_end_of_slot_vdf :: vdf_info
  cc_infused_challenge_chain_sub_slot_hash :: "bytes option"
  cc_subepoch_summary_hash :: "bytes option"
  cc_new_sub_slot_iters :: "int option"
  cc_new_difficulty :: "int option"

definition challenge_chain_sub_slot_fields :: "ftype list" where
  "challenge_chain_sub_slot_fields =
     [FClass vdf_info_fields, FOptional F32, FOptional F32, FOptional Fu64, FOptional Fu64]"

definition challenge_chain_sub_slot_val :: "challenge_chain_sub_slot \<Rightarrow> fval" where
  "challenge_chain_sub_slot_val s =
     VObj [vdf_info_val (cc_challenge_chain_end_of_slot_vdf s),
           opt_val VBytes (cc_infused_challenge_chain_sub_slot_hash s), opt_val VBytes (cc_subepoch_summary_hash s),
           opt_val VInt (cc_new_sub_slot_iters s), opt_val VInt (cc_new_difficulty s)]"

record infused_challenge_chain_sub_slot =
  icc_infused_challenge_chain_end_of_slot_vdf :: vdf_info

definition infused_challenge_chain_sub_slot_fields :: "ftype list" where
  "infused_challenge_chain_sub_slot_fields = [FClass vdf_info_fields]"

definition infused_challenge_chain_sub_slot_val :: "infused_challenge_chain_sub_slot \<Rightarrow> fval" where
  "infused_challenge_chain_sub_slot_val s = VObj [vdf_info_val (icc_infused_challenge_chain_end_of_slot_vdf s)]"

record reward_chain_sub_slot =
  rc_end_of_slot_vdf :: vdf_info
  rc_challenge_chain_sub_slot_hash :: bytes
  rc_infused_challenge_chain_sub_slot_hash :: "bytes option"
  rc_deficit :: int

definition reward_chain_sub_slot_fields :: "ftype list" where
  "reward_chain_sub_slot_fields = [FClass vdf_info_fields, F32, FOptional F32, Fu8]"

definition reward_chain_sub_slot_val :: "reward_chain_sub_slot \<Rightarrow> fval" where
  "reward_chain_sub_slot_val s =
     VObj [vdf_info_val (rc_end_of_slot_vdf s), VBytes (rc_challenge_chain_sub_slot_hash s),
           opt_val VBytes (rc_infused_challenge_chain_sub_slot_hash s), VInt (rc_deficit s)]"

record sub_slot_proofs =
  sl_challenge_chain_slot_proof :: vdf_proof
  sl_infused_challenge_chain_slot_proof :: "vdf_proof option"
  sl_reward_chain_slot_proof :: vdf_proof

record end_of_sub_slot_bundle =
  es_challenge_chain :: challenge_chain_sub_slot
  es_infused_challenge_chain :: "infused_challenge_chain_sub_slot option"
  es_reward_chain :: reward_chain_sub_slot
  es_proofs :: sub_slot_proofs

section \<open>Blocks\<close>

record reward_chain_block_unfinished =
  ru_total_iters :: int
  ru_signage_point_index :: int
  ru_pos_ss_cc_challenge_hash :: bytes
  ru_proof_of_space :: proof_of_space
  ru_challenge_chain_sp_vdf :: "vdf_info option"
  ru_challenge_chain_sp_signature :: bytes
  ru_reward_chain_sp_vdf :: "vdf_info option"
  ru_reward_chain_sp_signature :: bytes

definition reward_chain_block_unfinished_fields :: "ftype list" where
  "reward_chain_block_unfinished_fields =
     [Fu128, Fu8, F32, FClass proof_of_space_fields, FOptional (FClass vdf_info_fields), FG2,
      FOptional (FClass vdf_info_fields), FG2]"

definition reward_chain_block_unfinished_val :: "reward_chain_block_unfinished \<Rightarrow> fval" where
  "reward_chain_block_unfinished_val r =
     VObj [VInt (ru_total_iters r), VInt (ru_signage_point_index r), VBytes (ru_pos_ss_cc_challenge_hash r),
           proof_of_space_val (ru_proof_of_space r), opt_val vdf_info_val (ru_challenge_chain_sp_vdf r),
           VBytes (ru_challenge_chain_sp_signature r), opt_val vdf_info_val (ru_reward_chain_sp_vdf r),
           VBytes (ru_reward_chain_sp_signature r)]"

record reward_chain_block =
  rb_weight :: int
  rb_height :: int
  rb_total_iters :: int
  rb_signage_point_index :: int
  rb_pos_ss_cc_challenge_hash :: bytes
  rb_proof_of_space :: proof_of_space
  rb_challenge_chain_sp_vdf :: "vdf_info option"
  rb_challenge_chain_sp_signature :: bytes
  rb_challenge_chain_ip_vdf :: vdf_info
  rb_reward_chain_sp_vdf :: "vdf_info option"
  rb_reward_chain_sp_signature :: bytes
  rb_reward_chain_ip_vdf :: vdf_info
  rb_infused_challenge_chain_ip_vdf :: "vdf_info option"
  rb_is_transaction_block :: bool

definition reward_chain_block_fields :: "ftype list" where
  "reward_chain_block_fields =
     [Fu128, Fu32, Fu128, Fu8, F32, FClass proof_of_space_fields, FOptional (FClass vdf_info_fields), FG2,
      FClass vdf_info_fields, FOptional (FClass vdf_info_fields), FG2, FClass vdf_info_fields,
      FOptional (FClass vdf_info_fields), FBool]"

definition reward_chain_block_val :: "reward_chain_block \<Rightarrow> fval" where
  "reward_chain_block_val r =
     VObj [VInt (rb_weight r), VInt (rb_height r), VInt (rb_total_iters r), VInt (rb_signage_point_index r),
           VBytes (rb_pos_ss_cc_challenge_hash r), proof_of_space_val (rb_proof_of_space r),
           opt_val vdf_info_val (rb_challenge_chain_sp_vdf r), VBytes (rb_challenge_chain_sp_signature r),
           vdf_info_val (rb_challenge_chain_ip_vdf r), opt_val vdf_info_val (rb_reward_chain_sp_vdf r),
           VBytes (rb_reward_chain_sp_signature r), vdf_info_val (rb_reward_chain_ip_vdf r),
           opt_val vdf_info_val (rb_infused_challenge_chain_ip_vdf r), VBool (rb_is_transaction_block r)]"

definition get_unfinished :: "reward_chain_block \<Rightarrow> reward_chain_block_unfinished" where
  "get_unfinished r =
     \<lparr>ru_total_iters = rb_total_iters r, ru_signage_point_index = rb_signage_point_index r,
      ru_pos_ss_cc_challenge_hash = rb_pos_ss_cc_challenge_hash r, ru_proof_of_space = rb_proof_of_space r,
      ru_challenge_chain_sp_vdf = rb_challenge_chain_sp_vdf r,
      ru_challenge_chain_sp_signature = rb_challenge_chain_sp_signature r,
      ru_reward_chain_sp_vdf = rb_reward_chain_sp_vdf r, ru_reward_chain_sp_signature = rb_reward_chain_sp_signature r\<rparr>"

record full_block =
  fb_finished_sub_slots :: "end_of_sub_slot_bundle list"
  fb_reward_chain_block :: reward_chain_block
  fb_challenge_chain_sp_proof :: "vdf_proof option"
  fb_challenge_chain_ip_proof :: vdf_proof
  fb_reward_chain_sp_proof :: "vdf_proof option"
  fb_reward_chain_ip_proof :: vdf_proof
  fb_infused_challenge_chain_ip_proof :: "vdf_proof option"
  fb_foliage :: foliage
  fb_foliage_transaction_block :: "foliage_transaction_block option"
  fb_transactions_info :: "transactions_info option"
  fb_transactions_generator :: "bytes option"
  fb_transactions_generator_ref_list :: "int list"

definition fb_prev_header_hash :: "full_block \<Rightarrow> bytes" where
  "fb_prev_header_hash b = fo_prev_block_hash (fb_foliage b)"

definition fb_height :: "full_block \<Rightarrow> int" where
  "fb_height b = rb_height (fb_reward_chain_block b)"

definition fb_weight :: "full_block \<Rightarrow> int" where
  "fb_weight b = rb_weight (fb_reward_chain_block b)"

definition fb_total_iters :: "full_block \<Rightarrow> int" where
  "fb_total_iters b = rb_total_iters (fb_reward_chain_block b)"

definition fb_header_hash :: "hasher \<Rightarrow> full_block \<Rightarrow> bytes res" where
  "fb_header_hash H b = streamable_get_hash H foliage_fields (foliage_val (fb_foliage b))"

definition fb_is_transaction_block :: "full_block \<Rightarrow> bool" where
  "fb_is_transaction_block b = (fb_foliage_transaction_block b \<noteq> None)"

text \<open>A Python \<open>set\<close> of coins: the coins without repeats, in the order of their first occurrence.\<close>

fun to_set :: "'a list \<Rightarrow> 'a list" where
  "to_set [] = []"
| "to_set (x # xs) = x # to_set (filter (\<lambda>y. y \<noteq> x) xs)"

definition get_included_reward_coins :: "full_block \<Rightarrow> coin list res" where
  "get_included_reward_coins b =
     (if \<not> fb_is_transaction_block b then Inr []
      else (case fb_transactions_info b of
              None \<Rightarrow> Inl AssertionError
            | Some t \<Rightarrow> Inr (to_set (ti_reward_claims_incorporated t))))"

definition proof_compact :: "vdf_proof \<Rightarrow> bool" where
  "proof_compact p \<longleftrightarrow> \<not> (vp_witness_type p \<noteq> 0 \<or> \<not> vp_normalized_to_identity p)"

definition is_fully_compactified :: "full_block \<Rightarrow> bool" where
  "is_fully_compactified b =
     (list_all (\<lambda>s. proof_compact (sl_challenge_chain_slot_proof (es_proofs s)) \<and>
                    (case sl_infused_challenge_chain_slot_proof (es_proofs s) of
                       None \<Rightarrow> True | Some p \<Rightarrow> proof_compact p)) (fb_finished_sub_slots b) \<and>
      (case fb_challenge_chain_sp_proof b of None \<Rightarrow> True | Some p \<Rightarrow> proof_compact p) \<and>
      proof_compact (fb_challenge_chain_ip_proof b))"

record unfinished_block =
  ub_finished_sub_slots :: "end_of_sub_slot_bundle list"
  ub_reward_chain_block :: reward_chain_block_unfinished
  ub_challenge_chain_sp_proof :: "vdf_proof option"
  ub_reward_chain_sp_proof :: "vdf_proof option"
  ub_foliage :: foliage
  ub_foliage_transaction_block :: "foliage_transaction_block option"
  ub_transactions_info :: "transactions_info option"
  ub_transactions_generator :: "bytes option"
  ub_transactions_generator_ref_list :: "int list"

definition ub_prev_header_hash :: "unfinished_block \<Rightarrow> bytes" where
  "ub_prev_header_hash b = fo_prev_block_hash (ub_foliage b)"

definition ub_partial_hash :: "hasher \<Rightarrow> unfinished_block \<Rightarrow> bytes res" where
  "ub_partial_hash H b =
     streamable_get_hash H reward_chain_block_unfinished_fields
       (reward_chain_block_unfinished_val (ub_reward_chain_block b))"

definition ub_is_transaction_block :: "unfinished_block \<Rightarrow> bool" where
  "ub_is_transaction_block b = (fo_foliage_transaction_block_hash (ub_foliage b) \<noteq> None)"

section \<open>The block types are well-formed\<close>

lemmas block_fields_defs = coin_fields_def classgroup_fields_def vdf_info_fields_def vdf_proof_fields_def
  proof_of_space_fields_def pool_target_fields_def transactions_info_fields_def
  foliage_transaction_block_fields_def foliage_block_data_fields_def foliage_fields_def
  challenge_block_info_fields_def challenge_chain_sub_slot_fields_def infused_challenge_chain_sub_slot_fields_def
  reward_chain_sub_slot_fields_def reward_chain_block_unfinished_fields_def reward_chain_block_fields_def

lemma block_fields_wf:
  "list_all wf_type coin_fields" "list_all wf_type vdf_info_fields" "list_all wf_type vdf_proof_fields"
  "list_all wf_type proof_of_space_fields" "list_all wf_type pool_target_fields"
  "list_all wf_type transactions_info_fields" "list_all wf_type foliage_transaction_block_fields"
  "list_all wf_type foliage_block_data_fields" "list_all wf_type foliage_fields"
  "list_all wf_type challenge_block_info_fields" "list_all wf_type challenge_chain_sub_slot_fields"
  "list_all wf_type infused_challenge_chain_sub_slot_fields" "list_all wf_type reward_chain_sub_slot_fields"
  "list_all wf_type reward_chain_block_unfinished_fields" "list_all wf_type reward_chain_block_fields"
  by (simp_all add: block_fields_defs int_classes_def)

text \<open>The values of different records are different, so that hashes of foliage or slots identify the records.\<close>

lemma opt_val_inj:
  assumes "\<And>x. f x \<noteq> VNone" "inj f" "opt_val f x = opt_val f y"
  shows "x = y"
  using assms(1) [symmetric] assms by (cases x; cases y) (auto simp: opt_val_def dest: injD)

lemma VBytes_inj: "inj VBytes" "VBytes b \<noteq> VNone" and VInt_inj: "inj VInt" "VInt i \<noteq> VNone"
  by (auto intro: injI)

lemma pool_target_val_inj: "pool_target_val x = pool_target_val y \<Longrightarrow> x = y"
  by (simp add: pool_target_val_def pool_target.equality)

lemma foliage_block_data_val_inj: "foliage_block_data_val x = foliage_block_data_val y \<Longrightarrow> x = y"
  using opt_val_inj [OF VBytes_inj(2,1)]
  by (intro foliage_block_data.equality) (auto simp: foliage_block_data_val_def dest: pool_target_val_inj)

lemma foliage_val_inj: "foliage_val x = foliage_val y \<Longrightarrow> x = y"
  using opt_val_inj [OF VBytes_inj(2,1)]
  by (intro foliage.equality) (auto simp: foliage_val_def dest: foliage_block_data_val_inj)

section \<open>Properties\<close>

abbreviation b32 :: "byte \<Rightarrow> bytes" where "b32 i \<equiv> replicate 32 i"

definition sample_vdf :: vdf_info where
  "sample_vdf = \<lparr>vi_challenge = b32 0, vi_number_of_iterations = 1, vi_output = replicate 100 0\<rparr>"

definition sample_vdf_proof :: vdf_proof where
  "sample_vdf_proof = \<lparr>vp_witness_type = 0, vp_witness = [], vp_normalized_to_identity = False\<rparr>"

definition sample_pos :: proof_of_space where
  "sample_pos = \<lparr>pos_challenge = b32 0, pos_pool_public_key = None, pos_pool_contract_puzzle_hash = Some (b32 1),
     pos_plot_public_key = replicate 48 0, pos_size = 32, pos_proof = []\<rparr>"

definition sample_foliage_data :: foliage_block_data where
  "sample_foliage_data = \<lparr>fd_unfinished_reward_block_hash = b32 0,
     fd_pool_target = \<lparr>pt_puzzle_hash = b32 1, pt_max_height = 0\<rparr>, fd_pool_signature = None,
     fd_farmer_reward_puzzle_hash = b32 2, fd_community_reward_puzzle_hash = b32 3, fd_extension_data = b32 0\<rparr>"

definition sample_foliage :: "bytes \<Rightarrow> bytes option \<Rightarrow> foliage" where
  "sample_foliage prev h = \<lparr>fo_prev_block_hash = prev, fo_reward_block_hash = b32 0, fo_foliage_block_data = sample_foliage_data,
     fo_foliage_block_data_signature = replicate 96 0, fo_foliage_transaction_block_hash = h,
     fo_foliage_transaction_block_signature = None\<rparr>"

definition sample_full_block :: full_block where
  "sample_full_block = \<lparr>fb_finished_sub_slots = [],
     fb_reward_chain_block = \<lparr>rb_weight = 2, rb_height = 2, rb_total_iters = 20, rb_signage_point_index = 0,
       rb_pos_ss_cc_challenge_hash = b32 0, rb_proof_of_space = sample_pos, rb_challenge_chain_sp_vdf = None,
       rb_challenge_chain_sp_signature = replicate 96 0, rb_challenge_chain_ip_vdf = sample_vdf,
       rb_reward_chain_sp_vdf = None, rb_reward_chain_sp_signature = replicate 96 0, rb_reward_chain_ip_vdf = sample_vdf,
       rb_infused_challenge_chain_ip_vdf = None, rb_is_transaction_block = True\<rparr>,
     fb_challenge_chain_sp_proof = None, fb_challenge_chain_ip_proof = sample_vdf_proof, fb_reward_chain_sp_proof = None,
     fb_reward_chain_ip_proof = sample_vdf_proof, fb_infused_challenge_chain_ip_proof = None,
     fb_foliage = sample_foliage (b32 1) None, fb_foliage_transaction_block = None, fb_transactions_info = None,
     fb_transactions_generator = None, fb_transactions_generator_ref_list = []\<rparr>"

text \<open>The header hash commits to the foliage.  Two blocks with the same header hash have the same foliage:
  the same parent, the same reward chain block hash and the same transaction block hash, unless the hash function
  maps the two encodings to the same value.  Proofs and transactions are not part of the encoding.\<close>

lemma header_hash_commits:
  assumes "has_type acc (FClass foliage_fields) (foliage_val (fb_foliage b))"
    and "has_type acc (FClass foliage_fields) (foliage_val (fb_foliage b'))"
    and "\<forall>x y. streamable_bytes foliage_fields (foliage_val (fb_foliage b)) = Inr x \<and>
           streamable_bytes foliage_fields (foliage_val (fb_foliage b')) = Inr y \<and> H x = H y \<longrightarrow> x = y"
    and "fb_header_hash H b = Inr h" and "fb_header_hash H b' = Inr h"
  shows "fb_foliage b = fb_foliage b'"
  using hash_identifies [OF block_fields_wf(9) assms(1-3)] assms(4,5) foliage_val_inj
  by (auto simp: fb_header_hash_def)

lemma header_hash_commits_witness:
  "fb_foliage (sample_full_block\<lparr>fb_challenge_chain_sp_proof := Some sample_vdf_proof\<rparr>) = fb_foliage sample_full_block"
proof (rule header_hash_commits [where H = "\<lambda>x. take 32 x" and acc = "\<lambda>_. True"])
  show "has_type (\<lambda>_. True) (FClass foliage_fields) (foliage_val (fb_foliage sample_full_block))" by code_simp
  then show "has_type (\<lambda>_. True) (FClass foliage_fields)
     (foliage_val (fb_foliage (sample_full_block\<lparr>fb_challenge_chain_sp_proof := Some sample_vdf_proof\<rparr>)))" by simp
  show "fb_header_hash (\<lambda>x. take 32 x) sample_full_block = Inr (b32 1)" by code_simp
  then show "fb_header_hash (\<lambda>x. take 32 x) (sample_full_block\<lparr>fb_challenge_chain_sp_proof := Some sample_vdf_proof\<rparr>) = Inr (b32 1)"
    by (simp add: fb_header_hash_def)
qed auto

end
