(* ===== verification/BlockRecords.thy ===== *)
theory BlockRecords
  imports SubEpoch BlockTypes
begin

text \<open>
  \<open>consensus/full_block_to_block_record.py\<close> and \<open>types/header_block.py\<close>: the record that the chain code keeps
  for a block.  The function takes a full block or a header block and reads the same fields of both.
\<close>

record header_block =
  hb_finished_sub_slots :: "end_of_sub_slot_bundle list"
  hb_reward_chain_block :: reward_chain_block
  hb_challenge_chain_sp_proof :: "vdf_proof option"
  hb_challenge_chain_ip_proof :: vdf_proof
  hb_reward_chain_sp_proof :: "vdf_proof option"
  hb_reward_chain_ip_proof :: vdf_proof
  hb_infused_challenge_chain_ip_proof :: "vdf_proof option"
  hb_foliage :: foliage
  hb_foliage_transaction_block :: "foliage_transaction_block option"
  hb_transactions_filter :: bytes
  hb_transactions_info :: "transactions_info option"

definition hb_prev_header_hash :: "header_block \<Rightarrow> bytes" where
  "hb_prev_header_hash b = fo_prev_block_hash (hb_foliage b)"

definition hb_height :: "header_block \<Rightarrow> int" where
  "hb_height b = rb_height (hb_reward_chain_block b)"

definition hb_weight :: "header_block \<Rightarrow> int" where
  "hb_weight b = rb_weight (hb_reward_chain_block b)"

definition hb_header_hash :: "hasher \<Rightarrow> header_block \<Rightarrow> bytes res" where
  "hb_header_hash H b = streamable_get_hash H foliage_fields (foliage_val (hb_foliage b))"

definition hb_total_iters :: "header_block \<Rightarrow> int" where
  "hb_total_iters b = rb_total_iters (hb_reward_chain_block b)"

definition hb_is_transaction_block :: "header_block \<Rightarrow> bool" where
  "hb_is_transaction_block b = rb_is_transaction_block (hb_reward_chain_block b)"

definition hb_first_in_sub_slot :: "header_block \<Rightarrow> bool" where
  "hb_first_in_sub_slot b = (length (hb_finished_sub_slots b) > 0)"

text \<open>\<open>get_block_header\<close>: \<open>bip158\<close> encodes the filter of the puzzle hashes of the new coins and the spent ids.\<close>

definition get_block_header ::
  "(bytes list \<Rightarrow> bytes) \<Rightarrow> full_block \<Rightarrow> coin list \<Rightarrow> bytes list \<Rightarrow> header_block res" where
  "get_block_header bip158 b tx_addition_coins removals_names =
     rbind (get_included_reward_coins b) (\<lambda>rewards.
     let byte_array_tx = (if fb_is_transaction_block b
                          then map puzzle_hash (tx_addition_coins @ rewards) @ removals_names else [])
     in Inr \<lparr>hb_finished_sub_slots = fb_finished_sub_slots b, hb_reward_chain_block = fb_reward_chain_block b,
             hb_challenge_chain_sp_proof = fb_challenge_chain_sp_proof b,
             hb_challenge_chain_ip_proof = fb_challenge_chain_ip_proof b,
             hb_reward_chain_sp_proof = fb_reward_chain_sp_proof b, hb_reward_chain_ip_proof = fb_reward_chain_ip_proof b,
             hb_infused_challenge_chain_ip_proof = fb_infused_challenge_chain_ip_proof b, hb_foliage = fb_foliage b,
             hb_foliage_transaction_block = fb_foliage_transaction_block b,
             hb_transactions_filter = bip158 byte_array_tx, hb_transactions_info = fb_transactions_info b\<rparr>)"

section \<open>A full block or a header block\<close>

datatype trunk_block = FullT full_block | HeaderT header_block

fun tb_finished_sub_slots :: "trunk_block \<Rightarrow> end_of_sub_slot_bundle list" where
  "tb_finished_sub_slots (FullT b) = fb_finished_sub_slots b"
| "tb_finished_sub_slots (HeaderT b) = hb_finished_sub_slots b"

fun tb_reward_chain_block :: "trunk_block \<Rightarrow> reward_chain_block" where
  "tb_reward_chain_block (FullT b) = fb_reward_chain_block b"
| "tb_reward_chain_block (HeaderT b) = hb_reward_chain_block b"

fun tb_foliage :: "trunk_block \<Rightarrow> foliage" where
  "tb_foliage (FullT b) = fb_foliage b"
| "tb_foliage (HeaderT b) = hb_foliage b"

fun tb_foliage_transaction_block :: "trunk_block \<Rightarrow> foliage_transaction_block option" where
  "tb_foliage_transaction_block (FullT b) = fb_foliage_transaction_block b"
| "tb_foliage_transaction_block (HeaderT b) = hb_foliage_transaction_block b"

fun tb_transactions_info :: "trunk_block \<Rightarrow> transactions_info option" where
  "tb_transactions_info (FullT b) = fb_transactions_info b"
| "tb_transactions_info (HeaderT b) = hb_transactions_info b"

definition tb_height :: "trunk_block \<Rightarrow> int" where
  "tb_height b = rb_height (tb_reward_chain_block b)"

definition tb_prev_header_hash :: "trunk_block \<Rightarrow> bytes" where
  "tb_prev_header_hash b = fo_prev_block_hash (tb_foliage b)"

definition tb_header_hash :: "hasher \<Rightarrow> trunk_block \<Rightarrow> bytes res" where
  "tb_header_hash H b = streamable_get_hash H foliage_fields (foliage_val (tb_foliage b))"

section \<open>The record of a block\<close>

definition slot_hashes ::
  "hasher \<Rightarrow> consensus_constants \<Rightarrow> trunk_block
     \<Rightarrow> (bytes list option \<times> bytes list option \<times> bytes list option) res" where
  "slot_hashes H constants b =
     (let slots = tb_finished_sub_slots b in
      if length slots > 0 then
        rbind (rmap (\<lambda>s. streamable_get_hash H challenge_chain_sub_slot_fields
                           (challenge_chain_sub_slot_val (es_challenge_chain s))) slots) (\<lambda>cc.
        rbind (rmap (\<lambda>s. streamable_get_hash H reward_chain_sub_slot_fields
                           (reward_chain_sub_slot_val (es_reward_chain s))) slots) (\<lambda>rc.
        rbind (rmap (\<lambda>s. streamable_get_hash H infused_challenge_chain_sub_slot_fields
                           (infused_challenge_chain_sub_slot_val s))
                 (map the (filter (\<lambda>x. x \<noteq> None) (map es_infused_challenge_chain slots)))) (\<lambda>icc.
        Inr (Some cc, Some rc, Some icc))))
      else if tb_height b = 0 then Inr (Some [GENESIS_CHALLENGE constants], Some [GENESIS_CHALLENGE constants], None)
      else Inr (None, None, None))"

definition header_block_to_sub_block_record ::
  "hasher \<Rightarrow> consensus_constants \<Rightarrow> int \<Rightarrow> trunk_block \<Rightarrow> int \<Rightarrow> bool \<Rightarrow> int \<Rightarrow> int \<Rightarrow> sub_epoch_summary option
     \<Rightarrow> block_record res" where
  "header_block_to_sub_block_record H constants required_iters b sub_slot_iters overflow deficit
       prev_transaction_block_height ses =
     (let rcb = tb_reward_chain_block b; fbd = fo_foliage_block_data (tb_foliage b);
          cbi = \<lparr>cb_proof_of_space = rb_proof_of_space rcb, cb_challenge_chain_sp_vdf = rb_challenge_chain_sp_vdf rcb,
                 cb_challenge_chain_sp_signature = rb_challenge_chain_sp_signature rcb,
                 cb_challenge_chain_ip_vdf = rb_challenge_chain_ip_vdf rcb\<rparr>
      in rbind (slot_hashes H constants b) (\<lambda>(cc, rc, icc).
         rbind (tb_header_hash H b) (\<lambda>header_hash.
         rbind (streamable_get_hash H reward_chain_block_fields (reward_chain_block_val rcb)) (\<lambda>rcb_hash.
         rbind (streamable_get_hash H challenge_block_info_fields (challenge_block_info_val cbi)) (\<lambda>cbi_hash.
         Inr \<lparr>br_header_hash = header_hash, br_prev_hash = tb_prev_header_hash b, br_height = tb_height b,
              br_weight = rb_weight rcb, br_total_iters = rb_total_iters rcb,
              br_signage_point_index = rb_signage_point_index rcb,
              br_challenge_vdf_output = vi_output (rb_challenge_chain_ip_vdf rcb),
              br_infused_challenge_vdf_output = map_option vi_output (rb_infused_challenge_chain_ip_vdf rcb),
              br_reward_infusion_new_challenge = rcb_hash, br_challenge_block_info_hash = cbi_hash,
              br_sub_slot_iters = sub_slot_iters, br_pool_puzzle_hash = pt_puzzle_hash (fd_pool_target fbd),
              br_farmer_puzzle_hash = fd_farmer_reward_puzzle_hash fbd,
              br_community_puzzle_hash = fd_community_reward_puzzle_hash fbd, br_required_iters = required_iters,
              br_deficit = deficit, br_overflow = overflow,
              br_prev_transaction_block_height = prev_transaction_block_height,
              br_timestamp = map_option ft_timestamp (tb_foliage_transaction_block b),
              br_prev_transaction_block_hash =
                map_option ft_prev_transaction_block_hash (tb_foliage_transaction_block b),
              br_fees = map_option ti_fees (tb_transactions_info b),
              br_reward_claims_incorporated = map_option ti_reward_claims_incorporated (tb_transactions_info b),
              br_finished_challenge_slot_hashes = cc, br_finished_infused_challenge_slot_hashes = icc,
              br_finished_reward_slot_hashes = rc, br_sub_epoch_summary_included = ses\<rparr>)))))"

text \<open>The last sub-epoch summary hash among the finished sub-slots.\<close>

definition found_ses_hash :: "trunk_block \<Rightarrow> bytes option" where
  "found_ses_hash b =
     foldl (\<lambda>found s. case cc_subepoch_summary_hash (es_challenge_chain s) of None \<Rightarrow> found | Some h \<Rightarrow> Some h)
       None (tb_finished_sub_slots b)"

definition ses_of_block ::
  "hasher \<Rightarrow> consensus_constants \<Rightarrow> block_cache \<Rightarrow> trunk_block \<Rightarrow> block_record option \<Rightarrow> sub_epoch_summary option res" where
  "ses_of_block H constants blocks b prev_b =
     (case found_ses_hash b of
        None \<Rightarrow> Inr None
      | Some found \<Rightarrow>
          if found = [] then Inr None
          else
            (case (prev_b, tb_finished_sub_slots b) of
               (Some p, first # _) \<Rightarrow>
                 rbind (block_record blocks (br_prev_hash p)) (\<lambda>pp.
                 rbind (make_sub_epoch_summary H constants blocks (tb_height b) pp
                          (cc_new_difficulty (es_challenge_chain first))
                          (cc_new_sub_slot_iters (es_challenge_chain first))) (\<lambda>ses.
                 rbind (ses_get_hash H ses) (\<lambda>h. if h \<noteq> found then Inl ValueError else Inr (Some ses))))
             | _ \<Rightarrow> Inl AssertionError))"

text \<open>\<open>while curr is not None and not curr.is_transaction_block: curr = blocks.try_block_record(curr.prev_hash)\<close>.\<close>

definition not_transaction :: "block_record option \<Rightarrow> bool" where
  "not_transaction cur = (case cur of None \<Rightarrow> False | Some b \<Rightarrow> \<not> is_transaction_block b)"

definition try_prev :: "block_cache \<Rightarrow> block_record option \<Rightarrow> block_record option res" where
  "try_prev blocks cur = (case cur of None \<Rightarrow> Inl AssertionError | Some b \<Rightarrow> try_block_record blocks (br_prev_hash b))"

definition prev_transaction_height :: "block_cache \<Rightarrow> bytes \<Rightarrow> int res" where
  "prev_transaction_height blocks prev_hash =
     rbind (try_block_record blocks prev_hash) (\<lambda>cur.
     rbind (loop_while not_transaction (try_prev blocks) cur) (\<lambda>cur'.
     Inr (case cur' of None \<Rightarrow> 0 | Some b \<Rightarrow> br_height b)))"

definition block_to_block_record ::
  "hasher \<Rightarrow> consensus_constants \<Rightarrow> block_cache \<Rightarrow> int \<Rightarrow> trunk_block \<Rightarrow> int option \<Rightarrow> block_record res" where
  "block_to_block_record H constants blocks required_iters b sub_slot_iters =
     rbind (try_block_record blocks (tb_prev_header_hash b)) (\<lambda>prev_b.
     rbind (rguard AssertionError (tb_height b > 0 \<longrightarrow> prev_b \<noteq> None)) (\<lambda>_.
     rbind (case sub_slot_iters of
              Some i \<Rightarrow> Inr i
            | None \<Rightarrow> rbind (get_next_sub_slot_iters_and_difficulty constants (length (tb_finished_sub_slots b) > 0)
                              prev_b blocks) (\<lambda>(ssi, _). Inr ssi)) (\<lambda>ssi.
     rbind (is_overflow_block constants (rb_signage_point_index (tb_reward_chain_block b))) (\<lambda>overflow.
     rbind (calculate_deficit constants (tb_height b) (map_option br_deficit prev_b) overflow
              (int (length (tb_finished_sub_slots b)))) (\<lambda>deficit.
     rbind (ses_of_block H constants blocks b prev_b) (\<lambda>ses.
     rbind (prev_transaction_height blocks (tb_prev_header_hash b)) (\<lambda>prev_tb_height.
     header_block_to_sub_block_record H constants required_iters b ssi overflow deficit prev_tb_height ses)))))))"

end
