(* ===== verification/BlockBytes.thy ===== *)
theory BlockBytes
  imports BlockRecords
begin

text \<open>
  The bytes of a whole block and of a block record: \<open>bytes(block)\<close>, \<open>FullBlock.from_bytes\<close>, \<open>bytes(record)\<close> and
  \<open>BlockRecord.from_bytes\<close>, as the block store and the network use them.  \<open>x_of\<close> is the object
  that \<open>Streamable.parse\<close> makes of the parsed fields, in their order.
\<close>

section \<open>Field types and values of the composite classes\<close>

definition sub_slot_proofs_fields :: "ftype list" where
  "sub_slot_proofs_fields = [FClass vdf_proof_fields, FOptional (FClass vdf_proof_fields), FClass vdf_proof_fields]"

definition sub_slot_proofs_val :: "sub_slot_proofs \<Rightarrow> fval" where
  "sub_slot_proofs_val s =
     VObj [vdf_proof_val (sl_challenge_chain_slot_proof s),
           opt_val vdf_proof_val (sl_infused_challenge_chain_slot_proof s), vdf_proof_val (sl_reward_chain_slot_proof s)]"

definition end_of_sub_slot_bundle_fields :: "ftype list" where
  "end_of_sub_slot_bundle_fields =
     [FClass challenge_chain_sub_slot_fields, FOptional (FClass infused_challenge_chain_sub_slot_fields),
      FClass reward_chain_sub_slot_fields, FClass sub_slot_proofs_fields]"

definition end_of_sub_slot_bundle_val :: "end_of_sub_slot_bundle \<Rightarrow> fval" where
  "end_of_sub_slot_bundle_val s =
     VObj [challenge_chain_sub_slot_val (es_challenge_chain s),
           opt_val infused_challenge_chain_sub_slot_val (es_infused_challenge_chain s),
           reward_chain_sub_slot_val (es_reward_chain s), sub_slot_proofs_val (es_proofs s)]"

definition full_block_fields :: "(bytes \<Rightarrow> nat res) \<Rightarrow> ftype list" where
  "full_block_fields serialized_length =
     [FList (FClass end_of_sub_slot_bundle_fields), FClass reward_chain_block_fields,
      FOptional (FClass vdf_proof_fields), FClass vdf_proof_fields, FOptional (FClass vdf_proof_fields),
      FClass vdf_proof_fields, FOptional (FClass vdf_proof_fields), FClass foliage_fields,
      FOptional (FClass foliage_transaction_block_fields), FOptional (FClass transactions_info_fields),
      FOptional (FProgram serialized_length), FList Fu32]"

definition full_block_val :: "full_block \<Rightarrow> fval" where
  "full_block_val b =
     VObj [VList (map end_of_sub_slot_bundle_val (fb_finished_sub_slots b)),
           reward_chain_block_val (fb_reward_chain_block b), opt_val vdf_proof_val (fb_challenge_chain_sp_proof b),
           vdf_proof_val (fb_challenge_chain_ip_proof b), opt_val vdf_proof_val (fb_reward_chain_sp_proof b),
           vdf_proof_val (fb_reward_chain_ip_proof b), opt_val vdf_proof_val (fb_infused_challenge_chain_ip_proof b),
           foliage_val (fb_foliage b), opt_val foliage_transaction_block_val (fb_foliage_transaction_block b),
           opt_val transactions_info_val (fb_transactions_info b), opt_val VBytes (fb_transactions_generator b),
           VList (map VInt (fb_transactions_generator_ref_list b))]"

definition sub_epoch_summary_fields :: "ftype list" where
  "sub_epoch_summary_fields = [F32, F32, Fu8, FOptional Fu64, FOptional Fu64]"

definition sub_epoch_summary_val :: "sub_epoch_summary \<Rightarrow> fval" where
  "sub_epoch_summary_val s =
     VObj [VBytes (ses_prev_subepoch_summary_hash s), VBytes (ses_reward_chain_hash s), VInt (ses_num_blocks_overflow s),
           opt_val VInt (ses_new_difficulty s), opt_val VInt (ses_new_sub_slot_iters s)]"

definition block_record_fields :: "ftype list" where
  "block_record_fields =
     [F32, F32, Fu32, Fu128, Fu128, Fu8, FClass classgroup_fields, FOptional (FClass classgroup_fields), F32, F32, Fu64,
      F32, F32, F32, Fu64, Fu8, FBool, Fu32, FOptional Fu64, FOptional F32, FOptional Fu64,
      FOptional (FList (FClass coin_fields)), FOptional (FList F32), FOptional (FList F32), FOptional (FList F32),
      FOptional (FClass sub_epoch_summary_fields)]"

definition classgroup_val :: "bytes \<Rightarrow> fval" where
  "classgroup_val b = VObj [VBytes b]"

definition bytes_list_val :: "bytes list \<Rightarrow> fval" where
  "bytes_list_val bs = VList (map VBytes bs)"

definition coin_list_val :: "coin list \<Rightarrow> fval" where
  "coin_list_val cs = VList (map coin_val cs)"

definition block_record_val :: "block_record \<Rightarrow> fval" where
  "block_record_val b =
     VObj [VBytes (br_header_hash b), VBytes (br_prev_hash b), VInt (br_height b), VInt (br_weight b),
           VInt (br_total_iters b), VInt (br_signage_point_index b), classgroup_val (br_challenge_vdf_output b),
           opt_val classgroup_val (br_infused_challenge_vdf_output b), VBytes (br_reward_infusion_new_challenge b),
           VBytes (br_challenge_block_info_hash b), VInt (br_sub_slot_iters b), VBytes (br_pool_puzzle_hash b),
           VBytes (br_farmer_puzzle_hash b), VBytes (br_community_puzzle_hash b), VInt (br_required_iters b),
           VInt (br_deficit b), VBool (br_overflow b), VInt (br_prev_transaction_block_height b),
           opt_val VInt (br_timestamp b), opt_val VBytes (br_prev_transaction_block_hash b), opt_val VInt (br_fees b),
           opt_val coin_list_val (br_reward_claims_incorporated b),
           opt_val bytes_list_val (br_finished_challenge_slot_hashes b),
           opt_val bytes_list_val (br_finished_infused_challenge_slot_hashes b),
           opt_val bytes_list_val (br_finished_reward_slot_hashes b),
           opt_val sub_epoch_summary_val (br_sub_epoch_summary_included b)]"

section \<open>Objects from parsed fields\<close>

fun as_bytes :: "fval \<Rightarrow> bytes" where "as_bytes (VBytes b) = b" | "as_bytes _ = []"
fun as_int :: "fval \<Rightarrow> int" where "as_int (VInt i) = i" | "as_int _ = 0"
fun as_bool :: "fval \<Rightarrow> bool" where "as_bool (VBool b) = b" | "as_bool _ = False"
fun as_list :: "fval \<Rightarrow> fval list" where "as_list (VList vs) = vs" | "as_list _ = []"
fun obj_fields :: "fval \<Rightarrow> fval list" where "obj_fields (VObj vs) = vs" | "obj_fields _ = []"

definition as_opt :: "(fval \<Rightarrow> 'a) \<Rightarrow> fval \<Rightarrow> 'a option" where
  "as_opt f v = (if v = VNone then None else Some (f v))"

abbreviation fld :: "fval \<Rightarrow> nat \<Rightarrow> fval" where "fld v i \<equiv> obj_fields v ! i"

definition coin_of :: "fval \<Rightarrow> coin" where
  "coin_of v = \<lparr>parent_coin_info = as_bytes (fld v 0), puzzle_hash = as_bytes (fld v 1), amount = as_int (fld v 2)\<rparr>"

definition vdf_info_of :: "fval \<Rightarrow> vdf_info" where
  "vdf_info_of v = \<lparr>vi_challenge = as_bytes (fld v 0), vi_number_of_iterations = as_int (fld v 1),
     vi_output = as_bytes (fld (fld v 2) 0)\<rparr>"

definition vdf_proof_of :: "fval \<Rightarrow> vdf_proof" where
  "vdf_proof_of v = \<lparr>vp_witness_type = as_int (fld v 0), vp_witness = as_bytes (fld v 1),
     vp_normalized_to_identity = as_bool (fld v 2)\<rparr>"

definition proof_of_space_of :: "fval \<Rightarrow> proof_of_space" where
  "proof_of_space_of v = \<lparr>pos_challenge = as_bytes (fld v 0), pos_pool_public_key = as_opt as_bytes (fld v 1),
     pos_pool_contract_puzzle_hash = as_opt as_bytes (fld v 2), pos_plot_public_key = as_bytes (fld v 3),
     pos_size = as_int (fld v 4), pos_proof = as_bytes (fld v 5)\<rparr>"

definition pool_target_of :: "fval \<Rightarrow> pool_target" where
  "pool_target_of v = \<lparr>pt_puzzle_hash = as_bytes (fld v 0), pt_max_height = as_int (fld v 1)\<rparr>"

definition transactions_info_of :: "fval \<Rightarrow> transactions_info" where
  "transactions_info_of v = \<lparr>ti_generator_root = as_bytes (fld v 0), ti_generator_refs_root = as_bytes (fld v 1),
     ti_aggregated_signature = as_bytes (fld v 2), ti_fees = as_int (fld v 3), ti_cost = as_int (fld v 4),
     ti_reward_claims_incorporated = map coin_of (as_list (fld v 5))\<rparr>"

definition foliage_transaction_block_of :: "fval \<Rightarrow> foliage_transaction_block" where
  "foliage_transaction_block_of v = \<lparr>ft_prev_transaction_block_hash = as_bytes (fld v 0), ft_timestamp = as_int (fld v 1),
     ft_filter_hash = as_bytes (fld v 2), ft_additions_root = as_bytes (fld v 3),
     ft_removals_root = as_bytes (fld v 4), ft_transactions_info_hash = as_bytes (fld v 5)\<rparr>"

definition foliage_block_data_of :: "fval \<Rightarrow> foliage_block_data" where
  "foliage_block_data_of v = \<lparr>fd_unfinished_reward_block_hash = as_bytes (fld v 0),
     fd_pool_target = pool_target_of (fld v 1), fd_pool_signature = as_opt as_bytes (fld v 2),
     fd_farmer_reward_puzzle_hash = as_bytes (fld v 3), fd_community_reward_puzzle_hash = as_bytes (fld v 4),
     fd_extension_data = as_bytes (fld v 5)\<rparr>"

definition foliage_of :: "fval \<Rightarrow> foliage" where
  "foliage_of v = \<lparr>fo_prev_block_hash = as_bytes (fld v 0), fo_reward_block_hash = as_bytes (fld v 1),
     fo_foliage_block_data = foliage_block_data_of (fld v 2), fo_foliage_block_data_signature = as_bytes (fld v 3),
     fo_foliage_transaction_block_hash = as_opt as_bytes (fld v 4),
     fo_foliage_transaction_block_signature = as_opt as_bytes (fld v 5)\<rparr>"

definition challenge_chain_sub_slot_of :: "fval \<Rightarrow> challenge_chain_sub_slot" where
  "challenge_chain_sub_slot_of v = \<lparr>cc_challenge_chain_end_of_slot_vdf = vdf_info_of (fld v 0),
     cc_infused_challenge_chain_sub_slot_hash = as_opt as_bytes (fld v 1),
     cc_subepoch_summary_hash = as_opt as_bytes (fld v 2), cc_new_sub_slot_iters = as_opt as_int (fld v 3),
     cc_new_difficulty = as_opt as_int (fld v 4)\<rparr>"

definition infused_challenge_chain_sub_slot_of :: "fval \<Rightarrow> infused_challenge_chain_sub_slot" where
  "infused_challenge_chain_sub_slot_of v = \<lparr>icc_infused_challenge_chain_end_of_slot_vdf = vdf_info_of (fld v 0)\<rparr>"

definition reward_chain_sub_slot_of :: "fval \<Rightarrow> reward_chain_sub_slot" where
  "reward_chain_sub_slot_of v = \<lparr>rc_end_of_slot_vdf = vdf_info_of (fld v 0),
     rc_challenge_chain_sub_slot_hash = as_bytes (fld v 1),
     rc_infused_challenge_chain_sub_slot_hash = as_opt as_bytes (fld v 2), rc_deficit = as_int (fld v 3)\<rparr>"

definition sub_slot_proofs_of :: "fval \<Rightarrow> sub_slot_proofs" where
  "sub_slot_proofs_of v = \<lparr>sl_challenge_chain_slot_proof = vdf_proof_of (fld v 0),
     sl_infused_challenge_chain_slot_proof = as_opt vdf_proof_of (fld v 1),
     sl_reward_chain_slot_proof = vdf_proof_of (fld v 2)\<rparr>"

definition end_of_sub_slot_bundle_of :: "fval \<Rightarrow> end_of_sub_slot_bundle" where
  "end_of_sub_slot_bundle_of v = \<lparr>es_challenge_chain = challenge_chain_sub_slot_of (fld v 0),
     es_infused_challenge_chain = as_opt infused_challenge_chain_sub_slot_of (fld v 1),
     es_reward_chain = reward_chain_sub_slot_of (fld v 2), es_proofs = sub_slot_proofs_of (fld v 3)\<rparr>"

definition reward_chain_block_of :: "fval \<Rightarrow> reward_chain_block" where
  "reward_chain_block_of v = \<lparr>rb_weight = as_int (fld v 0), rb_height = as_int (fld v 1), rb_total_iters = as_int (fld v 2),
     rb_signage_point_index = as_int (fld v 3), rb_pos_ss_cc_challenge_hash = as_bytes (fld v 4),
     rb_proof_of_space = proof_of_space_of (fld v 5), rb_challenge_chain_sp_vdf = as_opt vdf_info_of (fld v 6),
     rb_challenge_chain_sp_signature = as_bytes (fld v 7), rb_challenge_chain_ip_vdf = vdf_info_of (fld v 8),
     rb_reward_chain_sp_vdf = as_opt vdf_info_of (fld v 9), rb_reward_chain_sp_signature = as_bytes (fld v 10),
     rb_reward_chain_ip_vdf = vdf_info_of (fld v 11),
     rb_infused_challenge_chain_ip_vdf = as_opt vdf_info_of (fld v 12), rb_is_transaction_block = as_bool (fld v 13)\<rparr>"

definition full_block_of :: "fval \<Rightarrow> full_block" where
  "full_block_of v = \<lparr>fb_finished_sub_slots = map end_of_sub_slot_bundle_of (as_list (fld v 0)),
     fb_reward_chain_block = reward_chain_block_of (fld v 1),
     fb_challenge_chain_sp_proof = as_opt vdf_proof_of (fld v 2), fb_challenge_chain_ip_proof = vdf_proof_of (fld v 3),
     fb_reward_chain_sp_proof = as_opt vdf_proof_of (fld v 4), fb_reward_chain_ip_proof = vdf_proof_of (fld v 5),
     fb_infused_challenge_chain_ip_proof = as_opt vdf_proof_of (fld v 6), fb_foliage = foliage_of (fld v 7),
     fb_foliage_transaction_block = as_opt foliage_transaction_block_of (fld v 8),
     fb_transactions_info = as_opt transactions_info_of (fld v 9),
     fb_transactions_generator = as_opt as_bytes (fld v 10),
     fb_transactions_generator_ref_list = map as_int (as_list (fld v 11))\<rparr>"

definition sub_epoch_summary_of :: "fval \<Rightarrow> sub_epoch_summary" where
  "sub_epoch_summary_of v = \<lparr>ses_prev_subepoch_summary_hash = as_bytes (fld v 0), ses_reward_chain_hash = as_bytes (fld v 1),
     ses_num_blocks_overflow = as_int (fld v 2), ses_new_difficulty = as_opt as_int (fld v 3),
     ses_new_sub_slot_iters = as_opt as_int (fld v 4)\<rparr>"

definition block_record_of :: "fval \<Rightarrow> block_record" where
  "block_record_of v = \<lparr>br_header_hash = as_bytes (fld v 0), br_prev_hash = as_bytes (fld v 1), br_height = as_int (fld v 2),
     br_weight = as_int (fld v 3), br_total_iters = as_int (fld v 4), br_signage_point_index = as_int (fld v 5),
     br_challenge_vdf_output = as_bytes (fld (fld v 6) 0),
     br_infused_challenge_vdf_output = as_opt (\<lambda>w. as_bytes (fld w 0)) (fld v 7),
     br_reward_infusion_new_challenge = as_bytes (fld v 8), br_challenge_block_info_hash = as_bytes (fld v 9),
     br_sub_slot_iters = as_int (fld v 10), br_pool_puzzle_hash = as_bytes (fld v 11),
     br_farmer_puzzle_hash = as_bytes (fld v 12), br_community_puzzle_hash = as_bytes (fld v 13),
     br_required_iters = as_int (fld v 14), br_deficit = as_int (fld v 15), br_overflow = as_bool (fld v 16),
     br_prev_transaction_block_height = as_int (fld v 17), br_timestamp = as_opt as_int (fld v 18),
     br_prev_transaction_block_hash = as_opt as_bytes (fld v 19), br_fees = as_opt as_int (fld v 20),
     br_reward_claims_incorporated = as_opt (\<lambda>w. map coin_of (as_list w)) (fld v 21),
     br_finished_challenge_slot_hashes = as_opt (\<lambda>w. map as_bytes (as_list w)) (fld v 22),
     br_finished_infused_challenge_slot_hashes = as_opt (\<lambda>w. map as_bytes (as_list w)) (fld v 23),
     br_finished_reward_slot_hashes = as_opt (\<lambda>w. map as_bytes (as_list w)) (fld v 24),
     br_sub_epoch_summary_included = as_opt sub_epoch_summary_of (fld v 25)\<rparr>"

section \<open>The bytes of blocks and block records\<close>

definition full_block_bytes :: "(bytes \<Rightarrow> nat res) \<Rightarrow> full_block \<Rightarrow> bytes res" where
  "full_block_bytes serialized_length b = streamable_bytes (full_block_fields serialized_length) (full_block_val b)"

definition full_block_from_bytes ::
  "(bytes \<Rightarrow> bool) \<Rightarrow> (bytes \<Rightarrow> nat res) \<Rightarrow> bytes \<Rightarrow> full_block res" where
  "full_block_from_bytes accepts serialized_length blob =
     rbind (streamable_from_bytes accepts (full_block_fields serialized_length) blob) (\<lambda>v. Inr (full_block_of v))"

definition block_record_bytes :: "block_record \<Rightarrow> bytes res" where
  "block_record_bytes b = streamable_bytes block_record_fields (block_record_val b)"

definition block_record_from_bytes :: "bytes \<Rightarrow> block_record res" where
  "block_record_from_bytes blob =
     rbind (streamable_from_bytes (\<lambda>_. True) block_record_fields blob) (\<lambda>v. Inr (block_record_of v))"

definition summary_from_bytes :: "bytes \<Rightarrow> sub_epoch_summary res" where
  "summary_from_bytes blob =
     rbind (streamable_from_bytes (\<lambda>_. True) sub_epoch_summary_fields blob) (\<lambda>v. Inr (sub_epoch_summary_of v))"

text \<open>The summary's bytes that the sub-epoch code hashes are those of \<open>Streamable\<close>.\<close>

lemma ses_bytes_streamable: "ses_bytes s = streamable_bytes sub_epoch_summary_fields (sub_epoch_summary_val s)"
  by (auto simp: ses_bytes_def streamable_bytes_def sub_epoch_summary_fields_def sub_epoch_summary_val_def opt_val_def
      sized_stream_def optional_bytes_def rbind_def split: sum.splits option.splits)

section \<open>Building an object from its own fields\<close>

named_theorems of_val \<open>a class's constructor inverts its field values\<close>

lemma as_opt_val [of_val]:
  assumes "\<And>x. g (f x) = x" "\<And>x. f x \<noteq> VNone"
  shows "as_opt g (opt_val f o') = o'"
  using assms by (cases o') (auto simp: as_opt_def opt_val_def)

lemma as_opt_bytes [of_val]: "as_opt as_bytes (opt_val VBytes o') = o'" "as_opt as_int (opt_val VInt x) = x"
  by (simp_all add: as_opt_val)

lemma leaf_of_val [of_val]:
  "coin_of (coin_val c) = c" "vdf_info_of (vdf_info_val i) = i" "vdf_proof_of (vdf_proof_val p) = p"
  "proof_of_space_of (proof_of_space_val q) = q" "pool_target_of (pool_target_val t) = t"
  "foliage_transaction_block_of (foliage_transaction_block_val f) = f"
  by (simp_all add: coin_of_def coin_val_def vdf_info_of_def vdf_info_val_def vdf_proof_of_def vdf_proof_val_def
      proof_of_space_of_def proof_of_space_val_def pool_target_of_def pool_target_val_def
      foliage_transaction_block_of_def foliage_transaction_block_val_def as_opt_bytes)

lemma val_not_None [simp]:
  "vdf_info_val i \<noteq> VNone" "vdf_proof_val p \<noteq> VNone" "infused_challenge_chain_sub_slot_val s \<noteq> VNone"
  "foliage_transaction_block_val f \<noteq> VNone" "transactions_info_val t \<noteq> VNone" "sub_epoch_summary_val e \<noteq> VNone"
  "classgroup_val c \<noteq> VNone" "bytes_list_val l \<noteq> VNone" "coin_list_val m \<noteq> VNone"
  by (simp_all add: vdf_info_val_def vdf_proof_val_def infused_challenge_chain_sub_slot_val_def
      foliage_transaction_block_val_def transactions_info_val_def sub_epoch_summary_val_def classgroup_val_def
      bytes_list_val_def coin_list_val_def)

lemma map_of_val [of_val]: "map as_bytes (map VBytes bs) = bs" "map as_int (map VInt is') = is'" "map coin_of (map coin_val cs) = cs"
  by (simp_all add: leaf_of_val comp_def)

lemma part_of_val [of_val]:
  "transactions_info_of (transactions_info_val t) = t" "foliage_block_data_of (foliage_block_data_val d) = d"
  "challenge_chain_sub_slot_of (challenge_chain_sub_slot_val s) = s"
  "infused_challenge_chain_sub_slot_of (infused_challenge_chain_sub_slot_val k) = k"
  "reward_chain_sub_slot_of (reward_chain_sub_slot_val r) = r" "sub_slot_proofs_of (sub_slot_proofs_val q) = q"
  "sub_epoch_summary_of (sub_epoch_summary_val e) = e"
  by (simp_all add: transactions_info_of_def transactions_info_val_def foliage_block_data_of_def foliage_block_data_val_def
      challenge_chain_sub_slot_of_def challenge_chain_sub_slot_val_def infused_challenge_chain_sub_slot_of_def
      infused_challenge_chain_sub_slot_val_def reward_chain_sub_slot_of_def reward_chain_sub_slot_val_def
      sub_slot_proofs_of_def sub_slot_proofs_val_def sub_epoch_summary_of_def sub_epoch_summary_val_def of_val
      del: map_map)

lemma block_parts_of_val [of_val]:
  "foliage_of (foliage_val f) = f" "end_of_sub_slot_bundle_of (end_of_sub_slot_bundle_val s) = s"
  "reward_chain_block_of (reward_chain_block_val r) = r"
  by (simp_all add: foliage_of_def foliage_val_def end_of_sub_slot_bundle_of_def end_of_sub_slot_bundle_val_def
      reward_chain_block_of_def reward_chain_block_val_def of_val)

lemma map_slots_of_val [of_val]: "map end_of_sub_slot_bundle_of (map end_of_sub_slot_bundle_val ss) = ss"
  by (simp add: of_val comp_def)

lemma full_block_of_val: "full_block_of (full_block_val b) = b"
  by (simp add: full_block_of_def full_block_val_def of_val del: map_map)

lemma list_opt_of_val [of_val]:
  "as_opt (\<lambda>w. as_bytes (fld w 0)) (opt_val classgroup_val x) = x"
  "as_opt (\<lambda>w. map as_bytes (as_list w)) (opt_val bytes_list_val y) = y"
  "as_opt (\<lambda>w. map coin_of (as_list w)) (opt_val coin_list_val z) = z"
  by (auto intro!: as_opt_val simp: classgroup_val_def bytes_list_val_def coin_list_val_def of_val comp_def)

lemma block_record_of_val: "block_record_of (block_record_val b) = b"
  by (simp add: block_record_of_def block_record_val_def of_val classgroup_val_def [of "br_challenge_vdf_output b"]
      del: map_map)

section \<open>Round trips\<close>

lemma composite_fields_wf:
  "list_all wf_type sub_slot_proofs_fields" "list_all wf_type end_of_sub_slot_bundle_fields"
  "list_all wf_type sub_epoch_summary_fields" "list_all wf_type block_record_fields"
  by (simp_all add: sub_slot_proofs_fields_def end_of_sub_slot_bundle_fields_def sub_epoch_summary_fields_def
      block_record_fields_def block_fields_wf classgroup_fields_def int_classes_def)

lemma full_block_fields_wf: "program_law serialized_length \<Longrightarrow> list_all wf_type (full_block_fields serialized_length)"
  by (simp add: full_block_fields_def block_fields_wf composite_fields_wf int_classes_def)

text \<open>A block and a record whose fields are in range.\<close>

definition block_typed :: "(bytes \<Rightarrow> bool) \<Rightarrow> (bytes \<Rightarrow> nat res) \<Rightarrow> full_block \<Rightarrow> bool" where
  "block_typed accepts serialized_length b = has_type accepts (FClass (full_block_fields serialized_length)) (full_block_val b)"

definition record_typed :: "block_record \<Rightarrow> bool" where
  "record_typed b = has_type (\<lambda>_. True) (FClass block_record_fields) (block_record_val b)"

lemma full_block_bytes_roundtrip:
  assumes "program_law serialized_length" "block_typed accepts serialized_length b"
  shows "\<exists>bs. full_block_bytes serialized_length b = Inr bs \<and>
    full_block_from_bytes accepts serialized_length bs = Inr b"
  using object_roundtrip [OF full_block_fields_wf [OF assms(1)], of accepts "full_block_val b"] assms(2)
  by (auto simp: block_typed_def full_block_bytes_def full_block_from_bytes_def full_block_of_val)

lemma block_record_bytes_roundtrip:
  assumes "record_typed b"
  shows "\<exists>bs. block_record_bytes b = Inr bs \<and> block_record_from_bytes bs = Inr b"
  using object_roundtrip [OF composite_fields_wf(4), of "\<lambda>_. True" "block_record_val b"] assms
  by (auto simp: record_typed_def block_record_bytes_def block_record_from_bytes_def block_record_of_val)

lemma summary_roundtrip:
  assumes "has_type (\<lambda>_. True) (FClass sub_epoch_summary_fields) (sub_epoch_summary_val s)"
  shows "\<exists>bs. ses_bytes s = Inr bs \<and> summary_from_bytes bs = Inr s"
  using object_roundtrip [OF composite_fields_wf(3) assms]
  by (auto simp: ses_bytes_streamable summary_from_bytes_def of_val)

text \<open>A length function for the witnesses: a program is an atom of one byte.\<close>

definition one_byte_programs :: "bytes \<Rightarrow> nat res" where
  "one_byte_programs f = (if f = [] then Inl ValueError else Inr 1)"

lemma one_byte_programs_law: "program_law one_byte_programs"
  by (auto simp: program_law_def one_byte_programs_def take_Suc neq_Nil_conv split: if_splits)

end
