(* ===== verification/FullBlockUtils.thy ===== *)
theory FullBlockUtils
  imports BlockBytes
begin

text \<open>
  \<open>util/full_block_utils.py\<close>: \<open>generator_from_block\<close> finds the transactions generator in the bytes of a block
  without parsing the block, by skipping over the fields before it.  Slicing never raises, reading \<open>buf[0]\<close> of an
  empty buffer does.  It is compared with \<open>FullBlock.from_bytes\<close>.
\<close>

section \<open>Skipping fields\<close>

definition first_byte :: "bytes \<Rightarrow> byte res" where
  "first_byte buf = py_index buf 0"

primrec skip_times :: "nat \<Rightarrow> (bytes \<Rightarrow> bytes res) \<Rightarrow> bytes \<Rightarrow> bytes res" where
  "skip_times 0 skip_item buf = Inr buf"
| "skip_times (Suc n) skip_item buf = rbind (skip_item buf) (skip_times n skip_item)"

definition skip_list :: "(bytes \<Rightarrow> bytes res) \<Rightarrow> bytes \<Rightarrow> bytes res" where
  "skip_list skip_item buf = skip_times (nat (from_bytes False (take 4 buf))) skip_item (drop 4 buf)"

definition skip_bytes :: "bytes \<Rightarrow> bytes res" where
  "skip_bytes buf =
     (let n = from_bytes False (take 4 buf) in
      rbind (rguard AssertionError (n \<ge> 0)) (\<lambda>_. Inr (drop (nat n) (drop 4 buf))))"

definition skip_optional :: "(bytes \<Rightarrow> bytes res) \<Rightarrow> bytes \<Rightarrow> bytes res" where
  "skip_optional skip_item buf =
     rbind (first_byte buf) (\<lambda>b.
     if b = 0 then Inr (drop 1 buf)
     else rbind (rguard AssertionError (b = 1)) (\<lambda>_. skip_item (drop 1 buf)))"

definition skip_bytes32 :: "bytes \<Rightarrow> bytes res" where "skip_bytes32 buf = Inr (drop 32 buf)"
definition skip_uint32 :: "bytes \<Rightarrow> bytes res" where "skip_uint32 buf = Inr (drop 4 buf)"
definition skip_uint64 :: "bytes \<Rightarrow> bytes res" where "skip_uint64 buf = Inr (drop 8 buf)"
definition skip_uint128 :: "bytes \<Rightarrow> bytes res" where "skip_uint128 buf = Inr (drop 16 buf)"
definition skip_uint8 :: "bytes \<Rightarrow> bytes res" where "skip_uint8 buf = Inr (drop 1 buf)"

definition skip_bool :: "bytes \<Rightarrow> bytes res" where
  "skip_bool buf =
     rbind (first_byte buf) (\<lambda>b. rbind (rguard AssertionError (b = 0 \<or> b = 1)) (\<lambda>_. Inr (drop 1 buf)))"

definition skip_vdf_info :: "bytes \<Rightarrow> bytes res" where
  "skip_vdf_info buf = Inr (drop (32 + 8 + 100) buf)"

definition skip_vdf_proof :: "bytes \<Rightarrow> bytes res" where
  "skip_vdf_proof buf = rbind (skip_uint8 buf) (\<lambda>buf. rbind (skip_bytes buf) (\<lambda>buf. skip_bool buf))"

definition skip_challenge_chain_sub_slot :: "bytes \<Rightarrow> bytes res" where
  "skip_challenge_chain_sub_slot buf =
     rbind (skip_vdf_info buf) (\<lambda>buf. rbind (skip_optional skip_bytes32 buf) (\<lambda>buf.
     rbind (skip_optional skip_bytes32 buf) (\<lambda>buf. rbind (skip_optional skip_uint64 buf) (\<lambda>buf.
     skip_optional skip_uint64 buf))))"

definition skip_infused_challenge_chain :: "bytes \<Rightarrow> bytes res" where
  "skip_infused_challenge_chain buf = skip_vdf_info buf"

definition skip_reward_chain_sub_slot :: "bytes \<Rightarrow> bytes res" where
  "skip_reward_chain_sub_slot buf =
     rbind (skip_vdf_info buf) (\<lambda>buf. rbind (skip_bytes32 buf) (\<lambda>buf.
     rbind (skip_optional skip_bytes32 buf) (\<lambda>buf. skip_uint8 buf)))"

definition skip_sub_slot_proofs :: "bytes \<Rightarrow> bytes res" where
  "skip_sub_slot_proofs buf =
     rbind (skip_vdf_proof buf) (\<lambda>buf. rbind (skip_optional skip_vdf_proof buf) (\<lambda>buf. skip_vdf_proof buf))"

definition skip_end_of_sub_slot_bundle :: "bytes \<Rightarrow> bytes res" where
  "skip_end_of_sub_slot_bundle buf =
     rbind (skip_challenge_chain_sub_slot buf) (\<lambda>buf. rbind (skip_optional skip_infused_challenge_chain buf) (\<lambda>buf.
     rbind (skip_reward_chain_sub_slot buf) (\<lambda>buf. skip_sub_slot_proofs buf)))"

definition skip_g1_element :: "bytes \<Rightarrow> bytes res" where "skip_g1_element buf = Inr (drop G1_SIZE buf)"
definition skip_g2_element :: "bytes \<Rightarrow> bytes res" where "skip_g2_element buf = Inr (drop G2_SIZE buf)"

definition skip_proof_of_space :: "bytes \<Rightarrow> bytes res" where
  "skip_proof_of_space buf =
     rbind (skip_bytes32 buf) (\<lambda>buf. rbind (skip_optional skip_g1_element buf) (\<lambda>buf.
     rbind (skip_optional skip_bytes32 buf) (\<lambda>buf. rbind (skip_g1_element buf) (\<lambda>buf.
     rbind (skip_uint8 buf) (\<lambda>buf. skip_bytes buf)))))"

definition skip_reward_chain_block :: "bytes \<Rightarrow> bytes res" where
  "skip_reward_chain_block buf =
     rbind (skip_uint128 buf) (\<lambda>buf. rbind (skip_uint32 buf) (\<lambda>buf. rbind (skip_uint128 buf) (\<lambda>buf.
     rbind (skip_uint8 buf) (\<lambda>buf. rbind (skip_bytes32 buf) (\<lambda>buf. rbind (skip_proof_of_space buf) (\<lambda>buf.
     rbind (skip_optional skip_vdf_info buf) (\<lambda>buf. rbind (skip_g2_element buf) (\<lambda>buf.
     rbind (skip_vdf_info buf) (\<lambda>buf. rbind (skip_optional skip_vdf_info buf) (\<lambda>buf.
     rbind (skip_g2_element buf) (\<lambda>buf. rbind (skip_vdf_info buf) (\<lambda>buf.
     rbind (skip_optional skip_vdf_info buf) (\<lambda>buf. skip_bool buf)))))))))))))"

definition skip_pool_target :: "bytes \<Rightarrow> bytes res" where
  "skip_pool_target buf = Inr (drop (32 + 4) buf)"

definition skip_foliage_block_data :: "bytes \<Rightarrow> bytes res" where
  "skip_foliage_block_data buf =
     rbind (skip_bytes32 buf) (\<lambda>buf. rbind (skip_pool_target buf) (\<lambda>buf.
     rbind (skip_optional skip_g2_element buf) (\<lambda>buf. rbind (skip_bytes32 buf) (\<lambda>buf.
     rbind (skip_bytes32 buf) (\<lambda>buf. skip_bytes32 buf)))))"

definition skip_foliage :: "bytes \<Rightarrow> bytes res" where
  "skip_foliage buf =
     rbind (skip_bytes32 buf) (\<lambda>buf. rbind (skip_bytes32 buf) (\<lambda>buf. rbind (skip_foliage_block_data buf) (\<lambda>buf.
     rbind (skip_g2_element buf) (\<lambda>buf. rbind (skip_optional skip_bytes32 buf) (\<lambda>buf.
     skip_optional skip_g2_element buf)))))"

definition skip_foliage_transaction_block :: "bytes \<Rightarrow> bytes res" where
  "skip_foliage_transaction_block buf = Inr (drop (32 + 8 + 32 + 32 + 32 + 32) buf)"

definition skip_coin :: "bytes \<Rightarrow> bytes res" where
  "skip_coin buf = Inr (drop (32 + 32 + 8) buf)"

definition skip_transactions_info :: "bytes \<Rightarrow> bytes res" where
  "skip_transactions_info buf = skip_list skip_coin (drop (32 + 32 + G2_SIZE + 8 + 8) buf)"

text \<open>The fields before the generator.\<close>

definition skip_to_generator :: "bytes \<Rightarrow> bytes res" where
  "skip_to_generator buf =
     rbind (skip_list skip_end_of_sub_slot_bundle buf) (\<lambda>buf. rbind (skip_reward_chain_block buf) (\<lambda>buf.
     rbind (skip_optional skip_vdf_proof buf) (\<lambda>buf. rbind (skip_vdf_proof buf) (\<lambda>buf.
     rbind (skip_optional skip_vdf_proof buf) (\<lambda>buf. rbind (skip_vdf_proof buf) (\<lambda>buf.
     rbind (skip_optional skip_vdf_proof buf) (\<lambda>buf. rbind (skip_foliage buf) (\<lambda>buf.
     rbind (skip_optional skip_foliage_transaction_block buf) (\<lambda>buf.
     skip_optional skip_transactions_info buf)))))))))"

definition generator_from_block :: "(bytes \<Rightarrow> nat res) \<Rightarrow> bytes \<Rightarrow> bytes option res" where
  "generator_from_block serialized_length buf =
     rbind (skip_to_generator buf) (\<lambda>buf.
     rbind (first_byte buf) (\<lambda>b.
     if b = 0 then Inr None
     else rbind (serialized_length (drop 1 buf)) (\<lambda>len. Inr (Some (take len (drop 1 buf))))))"

section \<open>Skipping an encoded value\<close>

text \<open>\<open>skips acc t sk\<close>: \<open>sk\<close> drops the encoding of any value of type \<open>t\<close> from the head of a buffer.\<close>

definition skips :: "(bytes \<Rightarrow> bool) \<Rightarrow> ftype \<Rightarrow> (bytes \<Rightarrow> bytes res) \<Rightarrow> bool" where
  "skips acc t sk \<longleftrightarrow> (\<forall>v b r. has_type acc t v \<longrightarrow> stream_item t v = Inr b \<longrightarrow> sk (b @ r) = Inr r)"

definition skips_fields :: "(bytes \<Rightarrow> bool) \<Rightarrow> ftype list \<Rightarrow> (bytes \<Rightarrow> bytes res) \<Rightarrow> bool" where
  "skips_fields acc ts sk \<longleftrightarrow> (\<forall>vs b r. have_types acc ts vs \<longrightarrow> stream_fields ts vs = Inr b \<longrightarrow> sk (b @ r) = Inr r)"

named_theorems skips_intros \<open>which skip function drops which type\<close>

lemma first_byte_Cons [simp]: "first_byte (b # bs) = Inr b"
  by (simp add: first_byte_def py_index_def)

text \<open>Types whose encodings all have one length.\<close>

fun fixed_size :: "ftype \<Rightarrow> nat option" and fixed_sizes :: "ftype list \<Rightarrow> nat option" where
  "fixed_size (FInt cls) = Some (SIZE cls)"
| "fixed_size (FSized n) = Some n"
| "fixed_size (FElement n) = Some n"
| "fixed_size (FClass ts) = fixed_sizes ts"
| "fixed_size _ = None"
| "fixed_sizes [] = Some 0"
| "fixed_sizes (t # ts) =
     (case (fixed_size t, fixed_sizes ts) of (Some m, Some n) \<Rightarrow> Some (m + n) | _ \<Rightarrow> None)"

lemma fixed_size_length:
  "fixed_size t = Some n \<Longrightarrow> has_type acc t v \<Longrightarrow> stream_item t v = Inr b \<Longrightarrow> length b = n"
  "fixed_sizes ts = Some n \<Longrightarrow> have_types acc ts vs \<Longrightarrow> stream_fields ts vs = Inr b \<Longrightarrow> length b = n"
proof (induction t and ts arbitrary: n v b and n vs b rule: fixed_size_fixed_sizes.induct)
  case (1 cls)
  then show ?case by (auto simp: struct_bytes_def dest: from_to_bytes split: fval.splits)
qed (auto simp: sized_stream_def rbind_eq_Inr split: fval.splits list.splits option.splits)

lemma skips_fixed: "fixed_size t = Some n \<Longrightarrow> skips acc t (\<lambda>buf. Inr (drop n buf))"
  by (auto simp: skips_def dest: fixed_size_length(1))

lemma skips_fields_Cons:
  assumes "skips acc t sk" "skips_fields acc ts sk'"
  shows "skips_fields acc (t # ts) (\<lambda>buf. rbind (sk buf) sk')"
  using assms by (auto simp: skips_fields_def skips_def rbind_eq_Inr split: list.splits)

lemma skips_fields_one: "skips acc t sk \<Longrightarrow> skips_fields acc [t] sk"
  by (auto simp: skips_fields_def skips_def rbind_eq_Inr split: list.splits)

lemma skips_class: "skips_fields acc ts sk \<Longrightarrow> skips acc (FClass ts) sk"
  by (auto simp: skips_fields_def skips_def split: fval.splits)

lemma skips_optional [skips_intros]:
  assumes "skips acc t sk"
  shows "skips acc (FOptional t) (skip_optional sk)"
  unfolding skips_def
proof (intro allI impI)
  fix v b r
  assume v: "has_type acc (FOptional t) v" "stream_item (FOptional t) v = Inr b"
  show "skip_optional sk (b @ r) = Inr r"
  proof (cases "v = VNone")
    case False
    then obtain c where "stream_item t v = Inr c" "b = 1 # c" using v(2) by (auto simp: rbind_eq_Inr)
    then show ?thesis using assms v(1) False by (simp add: skips_def skip_optional_def)
  qed (use v(2) in \<open>auto simp: skip_optional_def\<close>)
qed

lemma counted_prefix:
  assumes "uint32 (int n) = Inr m" "write_uint32 m = Inr h"
  shows "length h = 4" "nat (from_bytes False h) = n" "0 \<le> from_bytes False h"
  using assms from_to_bytes [of 4 False m h] by (auto simp: write_uint32_def)

lemma skips_bytes [skips_intros]: "skips acc FBytes skip_bytes"
  unfolding skips_def
proof (intro allI impI)
  fix v b r
  assume "has_type acc FBytes v" "stream_item FBytes v = Inr b"
  then obtain x m h where x: "uint32 (int (length x)) = Inr m" "write_uint32 m = Inr h" "b = h @ x"
    by (auto simp: stream_bytes_def rbind_eq_Inr split: fval.splits)
  then show "skip_bytes (b @ r) = Inr r" using counted_prefix [OF x(1,2)] by (simp add: skip_bytes_def)
qed

lemma skips_bool [skips_intros]: "skips acc FBool skip_bool"
proof -
  have "b = [0] \<or> b = [1]" if "stream_bool x = Inr b" for x b
    using that from_to_bytes [of 1 False _ b] by (auto simp: stream_bool_def to_bytes_def split: if_splits)
  then show ?thesis by (fastforce simp: skips_def skip_bool_def split: fval.splits)
qed

lemma skip_times_elements:
  assumes "skips acc t sk" "list_all (has_type acc t) vs" "stream_elements t vs = Inr b"
  shows "skip_times (length vs) sk (b @ r) = Inr r"
  using assms(2,3)
proof (induction vs arbitrary: b)
  case (Cons v vs)
  then obtain b1 b2 where "stream_item t v = Inr b1" "stream_elements t vs = Inr b2" "b = b1 @ b2"
    by (auto simp: rbind_eq_Inr)
  then show ?case using Cons assms(1) by (auto simp: skips_def)
qed simp

lemma skips_list [skips_intros]:
  assumes "skips acc t sk"
  shows "skips acc (FList t) (skip_list sk)"
  unfolding skips_def
proof (intro allI impI)
  fix v b r
  assume "has_type acc (FList t) v" "stream_item (FList t) v = Inr b"
  then obtain vs m h c where x: "uint32 (int (length vs)) = Inr m" "write_uint32 m = Inr h" "b = h @ c"
      "stream_elements t vs = Inr c" "list_all (has_type acc t) vs"
    by (auto simp: rbind_eq_Inr split: fval.splits)
  then show "skip_list sk (b @ r) = Inr r"
    using counted_prefix [OF x(1,2)] skip_times_elements [OF assms x(5,4)] by (simp add: skip_list_def)
qed

lemma skips_leaves [skips_intros]:
  "skips acc F32 skip_bytes32" "skips acc Fu8 skip_uint8" "skips acc Fu32 skip_uint32" "skips acc Fu64 skip_uint64"
  "skips acc Fu128 skip_uint128" "skips acc FG1 skip_g1_element" "skips acc FG2 skip_g2_element"
  "skips acc (FClass vdf_info_fields) skip_vdf_info" "skips acc (FClass pool_target_fields) skip_pool_target"
  "skips acc (FClass foliage_transaction_block_fields) skip_foliage_transaction_block"
  "skips acc (FClass coin_fields) skip_coin"
  by (rule skips_fixed [THEN back_subst [where P = "skips acc _"]],
      simp add: int_class_defs vdf_info_fields_def classgroup_fields_def pool_target_fields_def
        foliage_transaction_block_fields_def coin_fields_def,
      simp add: fun_eq_iff skip_bytes32_def skip_uint8_def skip_uint32_def skip_uint64_def skip_uint128_def
        skip_g1_element_def skip_g2_element_def skip_vdf_info_def skip_pool_target_def
        skip_foliage_transaction_block_def skip_coin_def)+

lemma skips_transactions_info [skips_intros]: "skips acc (FClass transactions_info_fields) skip_transactions_info"
  unfolding skips_def
proof (intro allI impI)
  fix v b r
  let ?ts = "[F32, F32, FG2, Fu64, Fu64]"
  assume v: "has_type acc (FClass transactions_info_fields) v" "stream_item (FClass transactions_info_fields) v = Inr b"
  then obtain a1 a2 a3 a4 a5 l where vs: "v = VObj [a1, a2, a3, a4, a5, l]"
      "have_types acc ?ts [a1, a2, a3, a4, a5]" "has_type acc (FList (FClass coin_fields)) l"
    by (auto simp: transactions_info_fields_def split: fval.splits list.splits)
  obtain c d where cd: "stream_fields ?ts [a1, a2, a3, a4, a5] = Inr c"
      "stream_item (FList (FClass coin_fields)) l = Inr d" "b = c @ d"
    using v(2) by (auto simp: transactions_info_fields_def vs(1) rbind_eq_Inr simp del: stream_item.simps(1-9,11))
  have "length c = 32 + 32 + G2_SIZE + 8 + 8"
    by (rule fixed_size_length(2) [OF _ vs(2) cd(1)]) (simp add: int_class_defs)
  then show "skip_transactions_info (b @ r) = Inr r"
    using skips_list [OF skips_leaves(11), of acc] vs(3) cd(2,3) by (simp add: skips_def skip_transactions_info_def)
qed

lemma skips_vdf_proof [skips_intros]: "skips acc (FClass vdf_proof_fields) skip_vdf_proof"
  unfolding vdf_proof_fields_def skip_vdf_proof_def [abs_def]
  by (intro skips_class skips_fields_Cons skips_fields_one skips_intros)

lemma skips_slots [skips_intros]:
  "skips acc (FClass challenge_chain_sub_slot_fields) skip_challenge_chain_sub_slot"
  "skips acc (FClass infused_challenge_chain_sub_slot_fields) skip_infused_challenge_chain"
  "skips acc (FClass reward_chain_sub_slot_fields) skip_reward_chain_sub_slot"
  "skips acc (FClass sub_slot_proofs_fields) skip_sub_slot_proofs"
  unfolding challenge_chain_sub_slot_fields_def skip_challenge_chain_sub_slot_def [abs_def]
    infused_challenge_chain_sub_slot_fields_def skip_infused_challenge_chain_def [abs_def]
    reward_chain_sub_slot_fields_def skip_reward_chain_sub_slot_def [abs_def]
    sub_slot_proofs_fields_def skip_sub_slot_proofs_def [abs_def]
  by (intro skips_class skips_fields_Cons skips_fields_one skips_intros)+

lemma skips_bundle [skips_intros]:
  "skips acc (FClass end_of_sub_slot_bundle_fields) skip_end_of_sub_slot_bundle"
  unfolding end_of_sub_slot_bundle_fields_def skip_end_of_sub_slot_bundle_def [abs_def]
  by (intro skips_class skips_fields_Cons skips_fields_one skips_intros)

lemma skips_pos [skips_intros]: "skips acc (FClass proof_of_space_fields) skip_proof_of_space"
  unfolding proof_of_space_fields_def skip_proof_of_space_def [abs_def]
  by (intro skips_class skips_fields_Cons skips_fields_one skips_intros)

lemma skips_reward_chain_block [skips_intros]: "skips acc (FClass reward_chain_block_fields) skip_reward_chain_block"
  unfolding reward_chain_block_fields_def skip_reward_chain_block_def [abs_def]
  by (intro skips_class skips_fields_Cons skips_fields_one skips_intros)

lemma skips_foliage_data [skips_intros]: "skips acc (FClass foliage_block_data_fields) skip_foliage_block_data"
  unfolding foliage_block_data_fields_def skip_foliage_block_data_def [abs_def]
  by (intro skips_class skips_fields_Cons skips_fields_one skips_intros)

lemma skips_foliage [skips_intros]: "skips acc (FClass foliage_fields) skip_foliage"
  unfolding foliage_fields_def skip_foliage_def [abs_def]
  by (intro skips_class skips_fields_Cons skips_fields_one skips_intros)

definition fields_before_generator :: "ftype list" where
  "fields_before_generator =
     [FList (FClass end_of_sub_slot_bundle_fields), FClass reward_chain_block_fields,
      FOptional (FClass vdf_proof_fields), FClass vdf_proof_fields, FOptional (FClass vdf_proof_fields),
      FClass vdf_proof_fields, FOptional (FClass vdf_proof_fields), FClass foliage_fields,
      FOptional (FClass foliage_transaction_block_fields), FOptional (FClass transactions_info_fields)]"

lemma skips_to_generator: "skips_fields acc fields_before_generator skip_to_generator"
  unfolding fields_before_generator_def skip_to_generator_def [abs_def]
  by (intro skips_fields_Cons skips_fields_one skips_intros)

lemma full_block_fields_split:
  "full_block_fields sl = fields_before_generator @ [FOptional (FProgram sl), FList Fu32]"
  by (simp add: full_block_fields_def fields_before_generator_def)

lemma have_types_append:
  "have_types acc (ts @ us) vs \<Longrightarrow>
   have_types acc ts (take (length ts) vs) \<and> have_types acc us (drop (length ts) vs)"
  by (induction ts arbitrary: vs) (auto split: list.splits)

lemma stream_fields_append:
  "stream_fields (ts @ us) vs = Inr b \<Longrightarrow> length ts \<le> length vs \<Longrightarrow>
   \<exists>c d. stream_fields ts (take (length ts) vs) = Inr c \<and> stream_fields us (drop (length ts) vs) = Inr d \<and> b = c @ d"
  by (induction ts arbitrary: vs b) (fastforce simp: rbind_eq_Inr split: list.splits)+

lemma optional_program_read:
  assumes "program_law sl" "has_type acc (FOptional (FProgram sl)) v" "stream_item (FOptional (FProgram sl)) v = Inr c"
  shows "rbind (first_byte (c @ r)) (\<lambda>b. if b = 0 then Inr None
      else rbind (sl (drop 1 (c @ r))) (\<lambda>len. Inr (Some (take len (drop 1 (c @ r)))))) = Inr (as_opt as_bytes v)"
proof (cases "v = VNone")
  case False
  then obtain p where p: "v = VBytes p" "sl p = Inr (length p)" "c = 1 # p"
    using assms(2,3) by (auto split: fval.splits)
  then show ?thesis using assms(1) by (simp add: program_law_def as_opt_def)
qed (use assms(3) in \<open>auto simp: as_opt_def\<close>)

lemma generator_found:
  assumes "program_law serialized_length" and "full_block_from_bytes accepts serialized_length blob = Inr b"
  shows "generator_from_block serialized_length blob = Inr (fb_transactions_generator b)"
proof -
  let ?sl = serialized_length and ?ts = fields_before_generator
  obtain v where v: "streamable_from_bytes accepts (full_block_fields ?sl) blob = Inr v" "b = full_block_of v"
    using assms(2) by (auto simp: full_block_from_bytes_def rbind_eq_Inr)
  then have "parse_item accepts (FClass (full_block_fields ?sl)) blob = Inr (v, [])"
    by (auto simp: streamable_from_bytes_def streamable_parse_def rbind_eq_Inr simp del: parse_item.simps)
  then have "has_type accepts (FClass (full_block_fields ?sl)) v" "stream_item (FClass (full_block_fields ?sl)) v = Inr blob"
    using item_read(1) [of "FClass (full_block_fields ?sl)" accepts blob v "[]"] full_block_fields_wf [OF assms(1)] by auto
  then obtain vs where vs: "v = VObj vs" "have_types accepts (full_block_fields ?sl) vs"
      "stream_fields (full_block_fields ?sl) vs = Inr blob"
    by (auto split: fval.splits)
  have len: "length vs = 12" "length ?ts = 10"
    using have_types_length [OF vs(2)] by (simp_all add: full_block_fields_def fields_before_generator_def)
  have ty: "have_types accepts ?ts (take 10 vs)" "have_types accepts [FOptional (FProgram ?sl), FList Fu32] (drop 10 vs)"
    using have_types_append [of accepts ?ts _ vs] vs(2) len(2) by (simp_all only: full_block_fields_split)
  obtain c d where cd: "stream_fields ?ts (take 10 vs) = Inr c"
      "stream_fields [FOptional (FProgram ?sl), FList Fu32] (drop 10 vs) = Inr d" "blob = c @ d"
    using stream_fields_append [of ?ts "[FOptional (FProgram ?sl), FList Fu32]" vs blob] vs(3) len
    unfolding full_block_fields_split by (auto simp del: stream_fields.simps)
  obtain g l where gl: "drop 10 vs = [g, l]" "g = vs ! 10"
    using len(1) by (auto simp: list_eq_iff_nth_eq intro: that [of "vs ! 10" "vs ! 11"] simp: less_Suc_eq numeral_eq_Suc)
  obtain e f where ef: "stream_item (FOptional (FProgram ?sl)) g = Inr e" "d = e @ f"
    using cd(2) gl(1) by (auto simp: rbind_eq_Inr simp del: stream_item.simps)
  have "skip_to_generator blob = Inr (e @ f)"
    using skips_to_generator [of accepts] ty(1) cd(1,3) ef(2) by (simp add: skips_fields_def)
  moreover have "fb_transactions_generator b = as_opt as_bytes g"
    using v(2) vs(1) gl(2) by (simp add: full_block_of_def)
  moreover have "has_type accepts (FOptional (FProgram ?sl)) g" using ty(2) gl(1) by simp
  ultimately show ?thesis
    using optional_program_read [OF assms(1) _ ef(1)] by (simp add: generator_from_block_def)
qed

section \<open>Properties\<close>

text \<open>C24. The cheap parser agrees with the full one.  Of any bytes that \<open>FullBlock.from_bytes\<close> accepts,
  \<open>generator_from_block\<close> returns, without parsing the rest, exactly the transactions generator of the parsed block
  (\<open>None\<close> if it has none).\<close>

theorem generator_from_block_correct:
  assumes "program_law serialized_length" and "full_block_from_bytes accepts serialized_length blob = Inr b"
  shows "generator_from_block serialized_length blob = Inr (fb_transactions_generator b)"
  using assms by (rule generator_found)

lemma sample_block_typed:
  "block_typed (\<lambda>_. True) one_byte_programs (sample_full_block\<lparr>fb_transactions_generator := Some [0x80]\<rparr>)"
  by (simp add: block_typed_def full_block_fields_def full_block_val_def sample_full_block_def sample_foliage_def
      sample_foliage_data_def sample_pos_def sample_vdf_def sample_vdf_proof_def opt_val_def one_byte_programs_def
      reward_chain_block_fields_def reward_chain_block_val_def proof_of_space_fields_def proof_of_space_val_def
      vdf_info_fields_def vdf_info_val_def vdf_proof_fields_def vdf_proof_val_def foliage_fields_def foliage_val_def
      foliage_block_data_fields_def foliage_block_data_val_def pool_target_fields_def pool_target_val_def
      classgroup_fields_def int_class_defs G1_SIZE_def G2_SIZE_def)

theorem generator_from_block_correct_witness:
  "\<exists>blob. full_block_from_bytes (\<lambda>_. True) one_byte_programs blob =
       Inr (sample_full_block\<lparr>fb_transactions_generator := Some [0x80]\<rparr>) \<and>
     generator_from_block one_byte_programs blob = Inr (Some [0x80])"
proof -
  obtain blob where
    "full_block_from_bytes (\<lambda>_. True) one_byte_programs blob =
       Inr (sample_full_block\<lparr>fb_transactions_generator := Some [0x80]\<rparr>)"
    using full_block_bytes_roundtrip [OF one_byte_programs_law sample_block_typed] by blast
  then show ?thesis using generator_from_block_correct [OF one_byte_programs_law] by fastforce
qed

end
