(* ===== verification/CachedBls.thy ===== *)
theory CachedBls
  imports Ints Sha256
begin

text \<open>
  \<open>util/lru_cache.py\<close> and \<open>util/cached_bls.py\<close>: the cache of pairings that speeds up the verification of
  aggregate signatures.  The \<open>OrderedDict\<close> of a cache is a dictionary whose first key was used least recently.
  The curve operations of \<open>blspy\<close> are the fields of a \<open>bls\<close> record, a parameter.
\<close>

section \<open>The LRU cache\<close>

record ('k, 'v) lru_cache =
  lru_items :: "('k, 'v) dict"
  lru_capacity :: int

definition new_lru_cache :: "int \<Rightarrow> ('k, 'v) lru_cache" where
  "new_lru_cache capacity = \<lparr>lru_items = [], lru_capacity = capacity\<rparr>"

definition move_to_end :: "('k, 'v) dict \<Rightarrow> 'k \<Rightarrow> ('k, 'v) dict" where
  "move_to_end d k = (case dict_get d k of None \<Rightarrow> d | Some v \<Rightarrow> dict_pop d k @ [(k, v)])"

definition lru_get :: "('k, 'v) lru_cache \<Rightarrow> 'k \<Rightarrow> 'v option \<times> ('k, 'v) lru_cache" where
  "lru_get c k =
     (if \<not> dict_mem (lru_items c) k then (None, c)
      else (dict_get (lru_items c) k, c\<lparr>lru_items := move_to_end (lru_items c) k\<rparr>))"

definition lru_put :: "('k, 'v) lru_cache \<Rightarrow> 'k \<Rightarrow> 'v \<Rightarrow> ('k, 'v) lru_cache" where
  "lru_put c k v =
     (let d = move_to_end (dict_set (lru_items c) k v) k
      in c\<lparr>lru_items := (if int (length d) > lru_capacity c then tl d else d)\<rparr>)"

definition lru_remove :: "('k, 'v) lru_cache \<Rightarrow> 'k \<Rightarrow> ('k, 'v) lru_cache res" where
  "lru_remove c k = rbind (dict_del (lru_items c) k) (\<lambda>d. Inr (c\<lparr>lru_items := d\<rparr>))"

section \<open>Pairings\<close>

record ('g1, 'g2, 'gt) bls =
  g1_from_bytes :: "bytes \<Rightarrow> 'g1 res"
  g1_from_bytes_unchecked :: "bytes \<Rightarrow> 'g1 res"
  g2_from_message :: "bytes \<Rightarrow> 'g2"
  pairing_of :: "'g1 \<Rightarrow> 'g2 \<Rightarrow> 'gt"
  gt_mul :: "'gt \<Rightarrow> 'gt \<Rightarrow> 'gt"
  g1_generator :: 'g1
  lib_aggregate_verify :: "'g1 list \<Rightarrow> bytes list \<Rightarrow> 'g2 \<Rightarrow> bool"

text \<open>The first loop of \<open>get_pairings\<close>: the cached pairings, or \<open>None\<close> when too many are missing.\<close>

fun lookup_pairings ::
  "hasher \<Rightarrow> nat \<Rightarrow> bool \<Rightarrow> nat \<Rightarrow> (bytes, 'gt) lru_cache \<Rightarrow> (bytes \<times> bytes) list
     \<Rightarrow> 'gt option list option \<times> (bytes, 'gt) lru_cache" where
  "lookup_pairings std_hash npks force_cache missing_count cache [] = (Some [], cache)"
| "lookup_pairings std_hash npks force_cache missing_count cache ((pk, msg) # pairs) =
     (case lru_get cache (std_hash (pk @ msg)) of
        (pairing, cache') \<Rightarrow>
          let missing_count' = (if \<not> force_cache \<and> pairing = None then missing_count + 1 else missing_count)
          in if \<not> force_cache \<and> pairing = None \<and> missing_count' > npks div 2 then (None, cache')
             else (case lookup_pairings std_hash npks force_cache missing_count' cache' pairs of
                     (rest, cache'') \<Rightarrow> (map_option (\<lambda>ps. pairing # ps) rest, cache'')))"

text \<open>The second loop: missing pairings are computed and stored.  An exception leaves what was stored before.\<close>

fun fill_pairings ::
  "('g1, 'g2, 'gt) bls \<Rightarrow> hasher \<Rightarrow> (bytes, 'g1) dict \<Rightarrow> (bytes, 'gt) lru_cache
     \<Rightarrow> ((bytes \<times> bytes) \<times> 'gt option) list \<Rightarrow> 'gt list res \<times> (bytes, 'gt) lru_cache" where
  "fill_pairings lib std_hash pk_bytes_to_g1 cache [] = (Inr [], cache)"
| "fill_pairings lib std_hash pk_bytes_to_g1 cache (((pk, msg), pairing) # rest) =
     (case pairing of
        Some p \<Rightarrow>
          (case fill_pairings lib std_hash pk_bytes_to_g1 cache rest of
             (r, cache') \<Rightarrow> (rbind r (\<lambda>ps. Inr (p # ps)), cache'))
      | None \<Rightarrow>
          let parsed = (case dict_get pk_bytes_to_g1 pk of Some g \<Rightarrow> Inr g | None \<Rightarrow> g1_from_bytes lib pk)
          in (case parsed of
                Inl e \<Rightarrow> (Inl e, cache)
              | Inr g \<Rightarrow>
                  let p = pairing_of lib g (g2_from_message lib (pk @ msg));
                      keys = (if dict_mem pk_bytes_to_g1 pk then pk_bytes_to_g1 else dict_set pk_bytes_to_g1 pk g)
                  in (case fill_pairings lib std_hash keys (lru_put cache (std_hash (pk @ msg)) p) rest of
                        (r, cache') \<Rightarrow> (rbind r (\<lambda>ps. Inr (p # ps)), cache'))))"

definition get_pairings ::
  "('g1, 'g2, 'gt) bls \<Rightarrow> hasher \<Rightarrow> (bytes, 'gt) lru_cache \<Rightarrow> bytes list \<Rightarrow> bytes list \<Rightarrow> bool
     \<Rightarrow> 'gt list res \<times> (bytes, 'gt) lru_cache" where
  "get_pairings lib std_hash cache pks msgs force_cache =
     (case lookup_pairings std_hash (length pks) force_cache 0 cache (zip pks msgs) of
        (None, cache') \<Rightarrow> (Inr [], cache')
      | (Some pairings, cache') \<Rightarrow> fill_pairings lib std_hash [] cache' (zip (zip pks msgs) pairings))"

text \<open>\<open>functools.reduce(GTElement.__mul__, pairings)\<close> of a list that is not empty.\<close>

definition gt_product :: "('g1, 'g2, 'gt) bls \<Rightarrow> 'gt list \<Rightarrow> 'gt" where
  "gt_product lib ps = foldl (gt_mul lib) (hd ps) (tl ps)"

definition LOCAL_CACHE :: "(bytes, 'gt) lru_cache" where
  "LOCAL_CACHE = new_lru_cache 50000"

definition aggregate_verify ::
  "('g1, 'g2, 'gt) bls \<Rightarrow> hasher \<Rightarrow> bytes list \<Rightarrow> bytes list \<Rightarrow> 'g2 \<Rightarrow> bool \<Rightarrow> (bytes, 'gt) lru_cache
     \<Rightarrow> bool res \<times> (bytes, 'gt) lru_cache" where
  "aggregate_verify lib std_hash pks msgs sig force_cache cache =
     (case get_pairings lib std_hash cache pks msgs force_cache of
        (r, cache') \<Rightarrow>
          (rbind r (\<lambda>pairings.
             if length pairings = 0 then
               rbind (rmap (g1_from_bytes_unchecked lib) pks) (\<lambda>pks_objects.
               Inr (lib_aggregate_verify lib pks_objects msgs sig))
             else Inr (gt_product lib pairings = pairing_of lib (g1_generator lib) sig)),
           cache'))"

section \<open>The cache as a bounded dictionary\<close>

definition lru_ok :: "('k, 'v) lru_cache \<Rightarrow> bool" where
  "lru_ok c \<longleftrightarrow> dict_ok (lru_items c) \<and> int (length (lru_items c)) \<le> lru_capacity c"

lemma move_to_end_get: "dict_get (move_to_end d k) k' = dict_get d k'"
  by (auto simp: move_to_end_def dict_get_snoc dict_get_pop split: option.splits)

lemma move_to_end_ok: "dict_ok d \<Longrightarrow> dict_ok (move_to_end d k) \<and> length (move_to_end d k) = length d"
  using dict_pop_length [of d k] dict_ok_pop [of d k]
  by (auto simp: move_to_end_def dict_ok_def dict_keys_def dict_mem_def dict_pop_def split: option.splits)

lemma lru_get_ok:
  assumes "lru_ok c" "lru_get c k = (r, c')"
  shows "lru_ok c'" "lru_capacity c' = lru_capacity c" "r = dict_get (lru_items c) k"
    "dict_get (lru_items c') = dict_get (lru_items c)"
  using assms move_to_end_ok [of "lru_items c" k]
  by (auto simp: lru_get_def lru_ok_def dict_mem_def move_to_end_get fun_eq_iff split: if_splits)

lemma lru_put_ok:
  assumes "lru_ok c" "0 \<le> lru_capacity c"
  shows "lru_ok (lru_put c k v)" "lru_capacity (lru_put c k v) = lru_capacity c"
    "dict_get (lru_items (lru_put c k v)) k' \<in> {None, dict_get (dict_set (lru_items c) k v) k'}"
proof -
  define d where "d = move_to_end (dict_set (lru_items c) k v) k"
  have d: "dict_ok d" "length d = length (dict_set (lru_items c) k v)"
    "dict_get d = dict_get (dict_set (lru_items c) k v)"
    using assms move_to_end_ok [of "dict_set (lru_items c) k v" k] move_to_end_get [of "dict_set (lru_items c) k v" k]
    by (auto simp: d_def lru_ok_def dict_ok_set fun_eq_iff)
  have t: "dict_ok (tl d)" "dict_get (tl d) k' \<in> {None, dict_get d k'}"
    using d(1) by (cases d; auto simp: dict_ok_def dict_keys_def dict_get_def map_of_eq_None_iff)+
  show "lru_ok (lru_put c k v)" "lru_capacity (lru_put c k v) = lru_capacity c"
    using d t assms by (auto simp: lru_put_def d_def [symmetric] lru_ok_def Let_def dict_set_length split: if_splits)
  show "dict_get (lru_items (lru_put c k v)) k' \<in> {None, dict_get (dict_set (lru_items c) k v) k'}"
    using d(3) t(2) by (simp add: lru_put_def d_def [symmetric] Let_def)
qed

section \<open>Sound caches\<close>

text \<open>Every entry is the pairing of a key and a message among those hashed so far.\<close>

definition pairing_for :: "('g1, 'g2, 'gt) bls \<Rightarrow> bytes \<Rightarrow> bytes \<Rightarrow> 'gt res" where
  "pairing_for lib pk msg =
     rbind (g1_from_bytes lib pk) (\<lambda>g. Inr (pairing_of lib g (g2_from_message lib (pk @ msg))))"

definition cache_sound ::
  "('g1, 'g2, 'gt) bls \<Rightarrow> hasher \<Rightarrow> (bytes \<times> bytes) set \<Rightarrow> (bytes, 'gt) lru_cache \<Rightarrow> bool" where
  "cache_sound lib H M c \<longleftrightarrow> lru_ok c \<and> 0 \<le> lru_capacity c \<and>
     (\<forall>k v. dict_get (lru_items c) k = Some v \<longrightarrow>
        (\<exists>pk msg. (pk, msg) \<in> M \<and> k = H (pk @ msg) \<and> pairing_for lib pk msg = Inr v))"

abbreviation no_collision :: "hasher \<Rightarrow> (bytes \<times> bytes) set \<Rightarrow> bool" where
  "no_collision H M \<equiv> inj_on (\<lambda>(pk, msg). H (pk @ msg)) M"

lemma cache_sound_get:
  assumes "cache_sound lib H M c" "no_collision H M" "(pk, msg) \<in> M" "lru_get c (H (pk @ msg)) = (r, c')"
  shows "cache_sound lib H M c' \<and> (\<forall>p. r = Some p \<longrightarrow> pairing_for lib pk msg = Inr p)"
proof -
  note g = lru_get_ok [OF _ assms(4)]
  have ok: "lru_ok c" using assms(1) by (simp add: cache_sound_def)
  have "pairing_for lib pk msg = Inr p" if "r = Some p" for p
  proof -
    have "dict_get (lru_items c) (H (pk @ msg)) = Some p" using g(3) ok that by simp
    then obtain pk' msg' where m: "(pk', msg') \<in> M" "H (pk @ msg) = H (pk' @ msg')" "pairing_for lib pk' msg' = Inr p"
      using assms(1) unfolding cache_sound_def by blast
    then have "(pk', msg') = (pk, msg)" using assms(2,3) inj_onD [of _ M "(pk', msg')" "(pk, msg)"] by force
    then show ?thesis using m(3) by simp
  qed
  then show ?thesis using assms(1) g ok by (simp add: cache_sound_def)
qed

lemma cache_sound_put:
  assumes "cache_sound lib H M c" "(pk, msg) \<in> M" "pairing_for lib pk msg = Inr v"
  shows "cache_sound lib H M (lru_put c (H (pk @ msg)) v)"
proof -
  have ok: "lru_ok c" "0 \<le> lru_capacity c" using assms(1) by (simp_all add: cache_sound_def)
  have "\<exists>pk msg. (pk, msg) \<in> M \<and> k = H (pk @ msg) \<and> pairing_for lib pk msg = Inr w"
    if "dict_get (lru_items (lru_put c (H (pk @ msg)) v)) k = Some w" for k w
    using that lru_put_ok(3) [OF ok, of "H (pk @ msg)" v k] assms unfolding cache_sound_def
    by (auto simp: dict_get_set split: if_splits)
  then show ?thesis using lru_put_ok(1,2) [OF ok] ok(2) by (simp add: cache_sound_def)
qed

lemma lookup_pairings_sound:
  assumes "cache_sound lib H M c" "no_collision H M" "set pairs \<subseteq> M"
    "lookup_pairings H n force missing c pairs = (r, c')"
  shows "cache_sound lib H M c' \<and>
    (\<forall>ps. r = Some ps \<longrightarrow> list_all2 (\<lambda>(pk, msg) x. \<forall>p. x = Some p \<longrightarrow> pairing_for lib pk msg = Inr p) pairs ps)"
  using assms
proof (induction H n force missing c pairs arbitrary: r c' rule: lookup_pairings.induct)
  case (2 H n force missing c pk msg pairs)
  obtain x c1 where x: "lru_get c (H (pk @ msg)) = (x, c1)" by force
  note s = cache_sound_get [OF 2(2,3) _ x]
  show ?case
  proof (cases "\<not> force \<and> x = None \<and> (if \<not> force \<and> x = None then missing + 1 else missing) > n div 2")
    case True
    then show ?thesis using 2(4,5) s x by auto
  next
    case False
    obtain r2 c2 where r2: "lookup_pairings H n force (if \<not> force \<and> x = None then missing + 1 else missing) c1 pairs = (r2, c2)"
      by force
    have "cache_sound lib H M c2 \<and>
      (\<forall>ps. r2 = Some ps \<longrightarrow> list_all2 (\<lambda>(pk, msg) x. \<forall>p. x = Some p \<longrightarrow> pairing_for lib pk msg = Inr p) pairs ps)"
      using 2(1) [OF x [symmetric] refl _ _ _ _ r2] False 2(3,4) s by auto
    then show ?thesis using False 2(4,5) x r2 s by (auto simp: Let_def)
  qed
qed auto

lemma fill_pairings_sound:
  assumes "cache_sound lib H M c" "set (map fst items) \<subseteq> M"
    "list_all (\<lambda>((pk, msg), x). (\<exists>p. pairing_for lib pk msg = Inr p) \<and>
       (\<forall>p. x = Some p \<longrightarrow> pairing_for lib pk msg = Inr p)) items"
    "\<forall>pk g. dict_get keys pk = Some g \<longrightarrow> g1_from_bytes lib pk = Inr g"
  shows "\<exists>c'. fill_pairings lib H keys c items = (rmap (\<lambda>((pk, msg), _). pairing_for lib pk msg) items, c') \<and>
     cache_sound lib H M c'"
  using assms
proof (induction lib H keys c items rule: fill_pairings.induct)
  case (2 lib H keys c pk msg x rest)
  obtain p where p: "pairing_for lib pk msg = Inr p" using 2(5) by auto
  show ?case
  proof (cases x)
    case (Some q)
    then show ?thesis using 2(2) [OF Some 2(3)] 2(4,5,6) p by auto
  next
    case None
    obtain g where g: "g1_from_bytes lib pk = Inr g" "p = pairing_of lib g (g2_from_message lib (pk @ msg))"
      using p by (auto simp: pairing_for_def rbind_eq_Inr)
    have parsed: "(case dict_get keys pk of Some g \<Rightarrow> Inr g | None \<Rightarrow> g1_from_bytes lib pk) = Inr g"
      using 2(6) g(1) by (auto split: option.splits)
    define keys' where "keys' = (if dict_mem keys pk then keys else dict_set keys pk g)"
    have keys': "\<forall>pk g. dict_get keys' pk = Some g \<longrightarrow> g1_from_bytes lib pk = Inr g"
      using 2(6) g(1) by (auto simp: keys'_def dict_get_set)
    have put: "cache_sound lib H M (lru_put c (H (pk @ msg)) p)"
      using cache_sound_put [OF 2(3) _ p] 2(4) by simp
    have "\<exists>c'. fill_pairings lib H keys' (lru_put c (H (pk @ msg)) p) rest =
        (rmap (\<lambda>((pk, msg), _). pairing_for lib pk msg) rest, c') \<and> cache_sound lib H M c'"
      using 2(1) [OF None refl parsed g(2) keys'_def put] 2(4,5) keys' by simp
    then show ?thesis using None parsed p g(2) by (auto simp: Let_def keys'_def)
  qed
qed simp

section \<open>Properties\<close>

text \<open>
  The signature scheme: the pairing product of the keys with the hashed messages, compared with the pairing of
  the generator with the signature.
\<close>

definition scheme_law :: "('g1, 'g2, 'gt) bls \<Rightarrow> bool" where
  "scheme_law lib \<longleftrightarrow>
     (\<forall>pks gs msgs ps sig. pks \<noteq> [] \<and> length msgs = length pks \<and> map (g1_from_bytes lib) pks = map Inr gs \<and>
        map (\<lambda>(pk, msg). pairing_for lib pk msg) (zip pks msgs) = map Inr ps \<longrightarrow>
        lib_aggregate_verify lib gs msgs sig = (gt_product lib ps = pairing_of lib (g1_generator lib) sig))"

lemma rmap_Inr: "rmap f xs = Inr ys \<longleftrightarrow> map f xs = map Inr ys"
  by (auto simp: rmap_eq_Inr list_all2_conv_all_nth list_eq_iff_nth_eq)

lemma rmap_zip_fst: "length ys = length xs \<Longrightarrow> rmap (\<lambda>(x, _). f x) (zip xs ys) = rmap f xs"
  by (induction xs ys rule: list_induct2') auto


text \<open>A scheme whose pairings are formal: it satisfies the law, and a signature is the message it signs.\<close>

definition sample_bls :: "(bytes, bytes, (bytes \<times> bytes) list) bls" where
  "sample_bls =
     \<lparr>g1_from_bytes = Inr, g1_from_bytes_unchecked = Inr, g2_from_message = (\<lambda>m. m),
      pairing_of = (\<lambda>g h. [(g, h)]), gt_mul = (@), g1_generator = [1],
      lib_aggregate_verify = (\<lambda>gs msgs sig. map (\<lambda>(g, m). (g, g @ m)) (zip gs msgs) = [([1], sig)])\<rparr>"

lemma foldl_append_concat: "foldl (@) a xs = a @ concat xs"
  by (induction xs arbitrary: a) auto

lemma map_Inr_eq [simp]: "map Inr xs = map Inr ys \<longleftrightarrow> xs = ys"
  by (simp add: inj_map_eq_map)

lemma sample_scheme_law: "scheme_law sample_bls"
proof -
  have "gt_product sample_bls ps = map (\<lambda>(g, m). (g, g @ m)) (zip gs msgs)"
    if "pks \<noteq> []" "length msgs = length pks" "map Inr pks = (map Inr gs :: bytes res list)"
      "map (\<lambda>(pk, msg). pairing_for sample_bls pk msg) (zip pks msgs) = map Inr ps" for pks gs msgs ps
  proof -
    have "map (\<lambda>(pk, msg). pairing_for sample_bls pk msg) (zip pks msgs) =
        map Inr (map (\<lambda>(pk, msg). [(pk, pk @ msg)]) (zip pks msgs))"
      by (auto simp: pairing_for_def sample_bls_def)
    from trans [OF that(4) [symmetric] this] have "ps = map (\<lambda>(pk, msg). [(pk, pk @ msg)]) (zip pks msgs)"
      by (simp only: map_Inr_eq)
    moreover have "concat (map (\<lambda>(pk, msg). [(pk, pk @ msg)]) xs) = map (\<lambda>(g, m). (g, g @ m)) xs" for xs :: "(bytes \<times> bytes) list"
      by (induction xs) auto
    ultimately show ?thesis using that
      by (cases ps) (auto simp: gt_product_def sample_bls_def foldl_append_concat)
  qed
  note product = this
  have sel: "lib_aggregate_verify sample_bls gs msgs sig = (map (\<lambda>(g, m). (g, g @ m)) (zip gs msgs) = [([1], sig)])"
    "g1_from_bytes sample_bls = Inr" "pairing_of sample_bls (g1_generator sample_bls) sig = [([1], sig)]" for gs msgs sig
    by (simp_all add: sample_bls_def)
  show ?thesis unfolding scheme_law_def sel
  proof (intro allI impI, elim conjE)
    fix pks gs msgs ps sig
    assume *: "pks \<noteq> []" "length msgs = length pks" "map Inr pks = (map Inr gs :: bytes res list)"
      "map (\<lambda>(pk, msg). pairing_for sample_bls pk msg) (zip pks msgs) = map Inr ps"
    show "(map (\<lambda>(g, m). (g, g @ m)) (zip gs msgs) = [([1], sig)]) = (gt_product sample_bls ps = [([1], sig)])"
      unfolding product [OF *] by (rule refl)
  qed
qed

definition sample_pairings :: "(bytes, (bytes \<times> bytes) list) lru_cache" where
  "sample_pairings = \<lparr>lru_items = [([1, 7], [([1], [1, 7])])], lru_capacity = 1\<rparr>"


end
