(* ===== verification/BlockStore.thy ===== *)
theory BlockStore
  imports FullBlockUtils CachedBls
begin

text \<open>
  \<open>full_node/block_store.py\<close> over the version 2 schema: the table \<open>full_blocks\<close>, the one-row table \<open>current_peak\<close>,
  the table of sub-epoch segments and the two LRU caches in front of them.  A table is the list of its rows, a query
  without \<open>ORDER BY\<close> returns rows in table order.  \<open>zstd\<close>, the acceptance test of the BLS library and
  \<open>chia_rs.serialized_length\<close> are the fields of a \<open>store_lib\<close>, a parameter.
\<close>

section \<open>State\<close>

record block_row =
  fr_header_hash :: bytes
  fr_prev_hash :: bytes
  fr_height :: int
  fr_sub_epoch_summary :: "bytes option"
  fr_is_fully_compactified :: bool
  fr_in_main_chain :: bool
  fr_block :: bytes
  fr_block_record :: bytes

record block_db =
  db_full_blocks :: "block_row list"
  db_current_peak :: "bytes option"
  db_sub_epoch_segments :: "(bytes, bytes) dict"

record block_store =
  bs_db :: block_db
  bs_block_cache :: "(bytes, full_block) lru_cache"
  bs_ses_challenge_cache :: "(bytes, fval list) lru_cache"

record store_lib =
  zstd_compress :: "bytes \<Rightarrow> bytes"
  zstd_decompress :: "bytes \<Rightarrow> bytes res"
  lib_accepts :: "bytes \<Rightarrow> bool"
  lib_serialized_length :: "bytes \<Rightarrow> nat res"

definition create_block_store :: "block_db \<Rightarrow> block_store" where
  "create_block_store db =
     \<lparr>bs_db = db, bs_block_cache = new_lru_cache 1000, bs_ses_challenge_cache = new_lru_cache 50\<rparr>"

text \<open>\<open>SubEpochSegments\<close> of \<open>types/weight_proof.py\<close>, as field types.\<close>

definition sub_slot_data_fields :: "ftype list" where
  "sub_slot_data_fields =
     [FOptional (FClass proof_of_space_fields), FOptional (FClass vdf_proof_fields), FOptional (FClass vdf_proof_fields),
      FOptional (FClass vdf_proof_fields), FOptional (FClass vdf_info_fields), FOptional Fu8,
      FOptional (FClass vdf_proof_fields), FOptional (FClass vdf_proof_fields), FOptional (FClass vdf_info_fields),
      FOptional (FClass vdf_info_fields), FOptional (FClass vdf_info_fields), FOptional (FClass vdf_info_fields),
      FOptional Fu128]"

definition sub_epoch_challenge_segment_fields :: "ftype list" where
  "sub_epoch_challenge_segment_fields = [Fu32, FList (FClass sub_slot_data_fields), FOptional (FClass vdf_info_fields)]"

definition sub_epoch_segments_fields :: "ftype list" where
  "sub_epoch_segments_fields = [FList (FClass sub_epoch_challenge_segment_fields)]"

section \<open>Rows\<close>

definition compress_block :: "store_lib \<Rightarrow> full_block \<Rightarrow> bytes res" where
  "compress_block lib b = rbind (full_block_bytes (lib_serialized_length lib) b) (\<lambda>bs. Inr (zstd_compress lib bs))"

definition maybe_decompress :: "store_lib \<Rightarrow> bytes \<Rightarrow> full_block res" where
  "maybe_decompress lib block_bytes =
     rbind (zstd_decompress lib block_bytes) (full_block_from_bytes (lib_accepts lib) (lib_serialized_length lib))"

definition row_of :: "block_db \<Rightarrow> bytes \<Rightarrow> block_row option" where
  "row_of db header_hash = find (\<lambda>r. fr_header_hash r = header_hash) (db_full_blocks db)"

definition update_rows :: "(block_row \<Rightarrow> bool) \<Rightarrow> (block_row \<Rightarrow> block_row) \<Rightarrow> block_store \<Rightarrow> block_store" where
  "update_rows c f st =
     st\<lparr>bs_db := (bs_db st)\<lparr>db_full_blocks := map (\<lambda>r. if c r then f r else r) (db_full_blocks (bs_db st))\<rparr>\<rparr>"

section \<open>Writing\<close>

definition bs_rollback :: "block_store \<Rightarrow> int \<Rightarrow> block_store" where
  "bs_rollback st height =
     update_rows (\<lambda>r. fr_height r > height \<and> fr_in_main_chain r) (\<lambda>r. r\<lparr>fr_in_main_chain := False\<rparr>) st"

definition set_in_chain :: "block_store \<Rightarrow> bytes list \<Rightarrow> block_store" where
  "set_in_chain st header_hashes =
     foldl (\<lambda>st h. update_rows (\<lambda>r. fr_header_hash r = h) (\<lambda>r. r\<lparr>fr_in_main_chain := True\<rparr>) st) st header_hashes"

definition cache_block :: "block_store \<Rightarrow> bytes \<Rightarrow> full_block \<Rightarrow> block_store" where
  "cache_block st header_hash b = st\<lparr>bs_block_cache := lru_put (bs_block_cache st) header_hash b\<rparr>"

definition replace_proof :: "hasher \<Rightarrow> store_lib \<Rightarrow> block_store \<Rightarrow> bytes \<Rightarrow> full_block \<Rightarrow> block_store res" where
  "replace_proof H lib st header_hash b =
     rbind (fb_header_hash H b) (\<lambda>h.
     rbind (rguard AssertionError (header_hash = h)) (\<lambda>_.
     rbind (compress_block lib b) (\<lambda>block_bytes.
     Inr (update_rows (\<lambda>r. fr_header_hash r = header_hash)
            (\<lambda>r. r\<lparr>fr_block := block_bytes, fr_is_fully_compactified := is_fully_compactified b\<rparr>)
            (cache_block st header_hash b)))))"

text \<open>The block enters the cache first; an exception while the row is built leaves it there.\<close>

definition add_full_block ::
  "store_lib \<Rightarrow> block_store \<Rightarrow> bytes \<Rightarrow> full_block \<Rightarrow> block_record \<Rightarrow> unit res \<times> block_store" where
  "add_full_block lib st header_hash b rec =
     (let st' = cache_block st header_hash b;
          row = rbind (case br_sub_epoch_summary_included rec of
                         None \<Rightarrow> Inr None | Some s \<Rightarrow> rbind (ses_bytes s) (\<lambda>x. Inr (Some x))) (\<lambda>ses.
                rbind (compress_block lib b) (\<lambda>block_bytes.
                rbind (block_record_bytes rec) (\<lambda>record_bytes.
                Inr \<lparr>fr_header_hash = header_hash, fr_prev_hash = fb_prev_header_hash b, fr_height = fb_height b,
                     fr_sub_epoch_summary = ses, fr_is_fully_compactified = is_fully_compactified b,
                     fr_in_main_chain = False, fr_block = block_bytes, fr_block_record = record_bytes\<rparr>)))
      in case row of
           Inl e \<Rightarrow> (Inl e, st')
         | Inr r \<Rightarrow>
             (Inr (), if row_of (bs_db st') header_hash \<noteq> None then st'
                      else st'\<lparr>bs_db := (bs_db st')\<lparr>db_full_blocks := db_full_blocks (bs_db st') @ [r]\<rparr>\<rparr>))"

definition persist_sub_epoch_challenge_segments :: "block_store \<Rightarrow> bytes \<Rightarrow> fval list \<Rightarrow> block_store res" where
  "persist_sub_epoch_challenge_segments st ses_block_hash segments =
     rbind (streamable_bytes sub_epoch_segments_fields (VObj [VList segments])) (\<lambda>bs.
     Inr (st\<lparr>bs_db := (bs_db st)\<lparr>db_sub_epoch_segments :=
            dict_set (db_sub_epoch_segments (bs_db st)) ses_block_hash bs\<rparr>\<rparr>))"

definition set_peak :: "block_store \<Rightarrow> bytes \<Rightarrow> block_store" where
  "set_peak st header_hash = st\<lparr>bs_db := (bs_db st)\<lparr>db_current_peak := Some header_hash\<rparr>\<rparr>"

definition rollback_cache_block :: "block_store \<Rightarrow> bytes \<Rightarrow> block_store" where
  "rollback_cache_block st header_hash =
     (case lru_remove (bs_block_cache st) header_hash of
        Inl _ \<Rightarrow> st
      | Inr c \<Rightarrow> st\<lparr>bs_block_cache := c\<rparr>)"

section \<open>Reading\<close>

definition get_sub_epoch_challenge_segments ::
  "store_lib \<Rightarrow> block_store \<Rightarrow> bytes \<Rightarrow> fval list option res \<times> block_store" where
  "get_sub_epoch_challenge_segments lib st ses_block_hash =
     (case lru_get (bs_ses_challenge_cache st) ses_block_hash of
        (Some cached, c) \<Rightarrow> (Inr (Some cached), st\<lparr>bs_ses_challenge_cache := c\<rparr>)
      | (None, c) \<Rightarrow>
          (case dict_get (db_sub_epoch_segments (bs_db st)) ses_block_hash of
             None \<Rightarrow> (Inr None, st)
           | Some bs \<Rightarrow>
               (case streamable_from_bytes (lib_accepts lib) sub_epoch_segments_fields bs of
                  Inl e \<Rightarrow> (Inl e, st)
                | Inr v \<Rightarrow>
                    let segments = as_list (fld v 0)
                    in (Inr (Some segments), st\<lparr>bs_ses_challenge_cache := lru_put c ses_block_hash segments\<rparr>))))"

definition get_full_block :: "store_lib \<Rightarrow> block_store \<Rightarrow> bytes \<Rightarrow> full_block option res \<times> block_store" where
  "get_full_block lib st header_hash =
     (case lru_get (bs_block_cache st) header_hash of
        (Some cached, c) \<Rightarrow> (Inr (Some cached), st\<lparr>bs_block_cache := c\<rparr>)
      | (None, c) \<Rightarrow>
          (case row_of (bs_db st) header_hash of
             None \<Rightarrow> (Inr None, st)
           | Some r \<Rightarrow>
               (case maybe_decompress lib (fr_block r) of
                  Inl e \<Rightarrow> (Inl e, st)
                | Inr b \<Rightarrow> (Inr (Some b), cache_block st header_hash b))))"

definition get_full_block_bytes :: "store_lib \<Rightarrow> block_store \<Rightarrow> bytes \<Rightarrow> bytes option res \<times> block_store" where
  "get_full_block_bytes lib st header_hash =
     (case lru_get (bs_block_cache st) header_hash of
        (Some cached, c) \<Rightarrow>
          (rbind (full_block_bytes (lib_serialized_length lib) cached) (\<lambda>bs. Inr (Some bs)), st\<lparr>bs_block_cache := c\<rparr>)
      | (None, c) \<Rightarrow>
          (case row_of (bs_db st) header_hash of
             None \<Rightarrow> (Inr None, st)
           | Some r \<Rightarrow> (rbind (zstd_decompress lib (fr_block r)) (\<lambda>bs. Inr (Some bs)), st)))"

definition get_full_blocks_at :: "store_lib \<Rightarrow> block_store \<Rightarrow> int list \<Rightarrow> full_block list res" where
  "get_full_blocks_at lib st heights =
     (if length heights = 0 then Inr []
      else rmap (\<lambda>r. maybe_decompress lib (fr_block r)) (filter (\<lambda>r. fr_height r \<in> set heights) (db_full_blocks (bs_db st))))"

text \<open>The cheap parser, and the full one if it raises.\<close>

definition generator_of_bytes :: "store_lib \<Rightarrow> bytes \<Rightarrow> bytes option res" where
  "generator_of_bytes lib block_bytes =
     (case generator_from_block (lib_serialized_length lib) block_bytes of
        Inr g \<Rightarrow> Inr g
      | Inl _ \<Rightarrow> rbind (full_block_from_bytes (lib_accepts lib) (lib_serialized_length lib) block_bytes)
                  (\<lambda>b. Inr (fb_transactions_generator b)))"

definition get_generator :: "store_lib \<Rightarrow> block_store \<Rightarrow> bytes \<Rightarrow> bytes option res \<times> block_store" where
  "get_generator lib st header_hash =
     (case lru_get (bs_block_cache st) header_hash of
        (Some cached, c) \<Rightarrow> (Inr (fb_transactions_generator cached), st\<lparr>bs_block_cache := c\<rparr>)
      | (None, c) \<Rightarrow>
          (case row_of (bs_db st) header_hash of
             None \<Rightarrow> (Inr None, st)
           | Some r \<Rightarrow> (rbind (zstd_decompress lib (fr_block r)) (generator_of_bytes lib), st)))"

definition get_generators_at :: "store_lib \<Rightarrow> block_store \<Rightarrow> int list \<Rightarrow> bytes list res" where
  "get_generators_at lib st heights =
     (if length heights = 0 then Inr []
      else
        rbind (rfold (\<lambda>generators r.
                 rbind (zstd_decompress lib (fr_block r)) (\<lambda>block_bytes.
                 rbind (generator_of_bytes lib block_bytes) (\<lambda>gen.
                 case gen of
                   None \<Rightarrow> Inl ValueError
                 | Some g \<Rightarrow> rbind (uint32 (fr_height r)) (\<lambda>h. Inr (dict_set generators h g))))) []
                (filter (\<lambda>r. fr_in_main_chain r \<and> fr_height r \<in> set heights) (db_full_blocks (bs_db st)))) (\<lambda>generators.
        rmap (dict_getitem generators) heights))"

definition get_block_records_by_hash :: "block_store \<Rightarrow> bytes list \<Rightarrow> block_record list res" where
  "get_block_records_by_hash st header_hashes =
     (if length header_hashes = 0 then Inr []
      else
        rbind (rfold (\<lambda>all_blocks r.
                 rbind (block_record_from_bytes (fr_block_record r)) (\<lambda>rec. Inr (dict_set all_blocks (fr_header_hash r) rec)))
                [] (filter (\<lambda>r. fr_header_hash r \<in> set header_hashes) (db_full_blocks (bs_db st)))) (\<lambda>all_blocks.
        rmap (\<lambda>hh. case dict_get all_blocks hh of None \<Rightarrow> Inl ValueError | Some rec \<Rightarrow> Inr rec) header_hashes))"

text \<open>Every block that was read enters the cache, also when a later row cannot be read or a hash is missing.\<close>

fun load_blocks ::
  "store_lib \<Rightarrow> block_store \<Rightarrow> (bytes, full_block) dict \<Rightarrow> block_row list \<Rightarrow> (bytes, full_block) dict res \<times> block_store" where
  "load_blocks lib st all_blocks [] = (Inr all_blocks, st)"
| "load_blocks lib st all_blocks (r # rs) =
     (case maybe_decompress lib (fr_block r) of
        Inl e \<Rightarrow> (Inl e, st)
      | Inr b \<Rightarrow> load_blocks lib (cache_block st (fr_header_hash r) b) (dict_set all_blocks (fr_header_hash r) b) rs)"

definition get_blocks_by_hash ::
  "store_lib \<Rightarrow> block_store \<Rightarrow> bytes list \<Rightarrow> full_block list res \<times> block_store" where
  "get_blocks_by_hash lib st header_hashes =
     (if length header_hashes = 0 then (Inr [], st)
      else
        (case load_blocks lib st [] (filter (\<lambda>r. fr_header_hash r \<in> set header_hashes) (db_full_blocks (bs_db st))) of
           (Inl e, st') \<Rightarrow> (Inl e, st')
         | (Inr all_blocks, st') \<Rightarrow>
             (rmap (\<lambda>hh. case dict_get all_blocks hh of None \<Rightarrow> Inl ValueError | Some b \<Rightarrow> Inr b) header_hashes, st')))"

definition get_block_record :: "block_store \<Rightarrow> bytes \<Rightarrow> block_record option res" where
  "get_block_record st header_hash =
     (case row_of (bs_db st) header_hash of
        None \<Rightarrow> Inr None
      | Some r \<Rightarrow> rbind (block_record_from_bytes (fr_block_record r)) (\<lambda>rec. Inr (Some rec)))"

definition records_where :: "(block_row \<Rightarrow> bool) \<Rightarrow> block_store \<Rightarrow> (bytes, block_record) dict res" where
  "records_where c st =
     rfold (\<lambda>ret r. rbind (block_record_from_bytes (fr_block_record r)) (\<lambda>rec. Inr (dict_set ret (fr_header_hash r) rec)))
       [] (filter c (db_full_blocks (bs_db st)))"

definition get_block_records_in_range :: "block_store \<Rightarrow> int \<Rightarrow> int \<Rightarrow> (bytes, block_record) dict res" where
  "get_block_records_in_range st start stop = records_where (\<lambda>r. fr_height r \<ge> start \<and> fr_height r \<le> stop) st"

definition bs_get_peak :: "block_store \<Rightarrow> (bytes \<times> int) option res" where
  "bs_get_peak st =
     (case db_current_peak (bs_db st) of
        None \<Rightarrow> Inr None
      | Some h \<Rightarrow>
          (case row_of (bs_db st) h of
             None \<Rightarrow> Inr None
           | Some r \<Rightarrow> rbind (uint32 (fr_height r)) (\<lambda>height. Inr (Some (h, height)))))"

definition get_block_records_close_to_peak ::
  "block_store \<Rightarrow> int \<Rightarrow> ((bytes, block_record) dict \<times> bytes option) res" where
  "get_block_records_close_to_peak st blocks_n =
     rbind (bs_get_peak st) (\<lambda>peak.
     case peak of
       None \<Rightarrow> Inr ([], None)
     | Some (h, height) \<Rightarrow>
         rbind (records_where (\<lambda>r. fr_height r \<ge> height - blocks_n) st) (\<lambda>ret. Inr (ret, Some h)))"

definition bs_is_fully_compactified :: "block_store \<Rightarrow> bytes \<Rightarrow> bool option" where
  "bs_is_fully_compactified st header_hash = map_option fr_is_fully_compactified (row_of (bs_db st) header_hash)"

text \<open>\<open>ORDER BY RANDOM() LIMIT number\<close>: \<open>shuffle\<close> is the random order; a negative limit is no limit.\<close>

definition get_random_not_compactified :: "(int list \<Rightarrow> int list) \<Rightarrow> block_store \<Rightarrow> int \<Rightarrow> int list" where
  "get_random_not_compactified shuffle st number =
     (let heights = shuffle (map fr_height (filter (\<lambda>r. fr_in_main_chain r \<and> \<not> fr_is_fully_compactified r)
                                              (db_full_blocks (bs_db st))))
      in if number < 0 then heights else take (nat number) heights)"

definition count_compactified_blocks :: "block_store \<Rightarrow> int" where
  "count_compactified_blocks st =
     int (length (filter (\<lambda>r. fr_is_fully_compactified r \<and> fr_in_main_chain r) (db_full_blocks (bs_db st))))"

definition count_uncompactified_blocks :: "block_store \<Rightarrow> int" where
  "count_uncompactified_blocks st =
     int (length (filter (\<lambda>r. \<not> fr_is_fully_compactified r \<and> fr_in_main_chain r) (db_full_blocks (bs_db st))))"

section \<open>The table alone\<close>

text \<open>What \<open>zstd\<close> and \<open>serialized_length\<close> promise.\<close>

definition store_law :: "store_lib \<Rightarrow> bool" where
  "store_law lib \<longleftrightarrow> (\<forall>b. zstd_decompress lib (zstd_compress lib b) = Inr b) \<and> program_law (lib_serialized_length lib)"

text \<open>The block that the table holds for a hash.\<close>

definition stored_block :: "store_lib \<Rightarrow> block_store \<Rightarrow> bytes \<Rightarrow> full_block option res" where
  "stored_block lib st header_hash =
     (case row_of (bs_db st) header_hash of
        None \<Rightarrow> Inr None
      | Some r \<Rightarrow> rbind (maybe_decompress lib (fr_block r)) (\<lambda>b. Inr (Some b)))"

definition holds_block :: "store_lib \<Rightarrow> bytes \<Rightarrow> full_block \<Rightarrow> bool" where
  "holds_block lib bs b \<longleftrightarrow>
     block_typed (lib_accepts lib) (lib_serialized_length lib) b \<and> compress_block lib b = Inr bs"

text \<open>Every row holds a block, hashes are unique and the cache has nothing that the table does not have.\<close>

definition bstore_ok :: "store_lib \<Rightarrow> block_store \<Rightarrow> bool" where
  "bstore_ok lib st \<longleftrightarrow>
     lru_ok (bs_block_cache st) \<and> 0 \<le> lru_capacity (bs_block_cache st) \<and>
     distinct (map fr_header_hash (db_full_blocks (bs_db st))) \<and>
     (\<forall>r \<in> set (db_full_blocks (bs_db st)). \<exists>b. holds_block lib (fr_block r) b) \<and>
     (\<forall>h b. dict_get (lru_items (bs_block_cache st)) h = Some b \<longrightarrow>
        (\<exists>r. row_of (bs_db st) h = Some r \<and> holds_block lib (fr_block r) b))"

lemma holds_block_read:
  assumes "store_law lib" "holds_block lib bs b"
  shows "maybe_decompress lib bs = Inr b"
    "\<exists>x. zstd_decompress lib bs = Inr x \<and> full_block_bytes (lib_serialized_length lib) b = Inr x \<and>
         generator_of_bytes lib x = Inr (fb_transactions_generator b)"
proof -
  obtain x where x: "full_block_bytes (lib_serialized_length lib) b = Inr x"
      "full_block_from_bytes (lib_accepts lib) (lib_serialized_length lib) x = Inr b"
    using full_block_bytes_roundtrip assms by (fastforce simp: store_law_def holds_block_def)
  have z: "zstd_decompress lib bs = Inr x"
    using assms x(1) by (auto simp: store_law_def holds_block_def compress_block_def)
  show "maybe_decompress lib bs = Inr b" using x z by (simp add: maybe_decompress_def)
  show "\<exists>x. zstd_decompress lib bs = Inr x \<and> full_block_bytes (lib_serialized_length lib) b = Inr x \<and>
         generator_of_bytes lib x = Inr (fb_transactions_generator b)"
    using x z generator_found [of "lib_serialized_length lib"] assms(1) by (simp add: generator_of_bytes_def store_law_def)
qed

lemma row_of_Some: "row_of db h = Some r \<Longrightarrow> r \<in> set (db_full_blocks db) \<and> fr_header_hash r = h"
  by (auto simp: row_of_def find_Some_iff)

lemma row_of_None: "row_of db h = None \<longleftrightarrow> h \<notin> fr_header_hash ` set (db_full_blocks db)"
  by (auto simp: row_of_def find_None_iff)

text \<open>Caching a block that the table holds keeps the store in order.\<close>

lemma cache_block_ok:
  assumes "bstore_ok lib st" "row_of (bs_db st) h = Some r" "holds_block lib (fr_block r) b"
  shows "bstore_ok lib (cache_block st h b)"
proof -
  have ok: "lru_ok (bs_block_cache st)" "0 \<le> lru_capacity (bs_block_cache st)" using assms(1) by (simp_all add: bstore_ok_def)
  have "\<exists>r. row_of (bs_db st) h' = Some r \<and> holds_block lib (fr_block r) b'"
    if "dict_get (lru_items (lru_put (bs_block_cache st) h b)) h' = Some b'" for h' b'
    using lru_put_ok(3) [OF ok, of h b h'] that assms by (auto simp: dict_get_set bstore_ok_def split: if_splits)
  then show ?thesis using assms(1) lru_put_ok(1,2) [OF ok, of h b] by (simp add: bstore_ok_def cache_block_def)
qed

lemma cache_hit_ok:
  assumes "bstore_ok lib st" "lru_get (bs_block_cache st) h = (r, c)"
  shows "bstore_ok lib (st\<lparr>bs_block_cache := c\<rparr>)"
  using assms lru_get_ok [OF _ assms(2)] by (auto simp: bstore_ok_def)

lemma cache_lookup:
  assumes "bstore_ok lib st" "lru_get (bs_block_cache st) h = (Some b, c)"
  obtains r where "row_of (bs_db st) h = Some r" "holds_block lib (fr_block r) b"
proof -
  have "dict_get (lru_items (bs_block_cache st)) h = Some b"
    using lru_get_ok(3) [OF _ assms(2)] assms(1) by (simp add: bstore_ok_def)
  then show ?thesis using assms(1) that unfolding bstore_ok_def by blast
qed

lemma cached_is_stored:
  assumes "store_law lib" "bstore_ok lib st" "lru_get (bs_block_cache st) h = (x, c)"
  shows "row_of (bs_db st) h = None \<Longrightarrow> x = None"
    "row_of (bs_db st) h = Some r \<Longrightarrow> holds_block lib (fr_block r) b \<Longrightarrow> x = None \<or> x = Some b"
proof -
  have *: "\<exists>r. row_of (bs_db st) h = Some r \<and> maybe_decompress lib (fr_block r) = Inr y" if "x = Some y" for y
  proof (rule cache_lookup [OF assms(2)])
    show "lru_get (bs_block_cache st) h = (Some y, c)" using assms(3) that by simp
  qed (use holds_block_read(1) [OF assms(1)] in blast)
  show "x = None" if "row_of (bs_db st) h = None" using * that by (cases x) auto
  show "x = None \<or> x = Some b" if "row_of (bs_db st) h = Some r" "holds_block lib (fr_block r) b"
    using * that holds_block_read(1) [OF assms(1) that(2)] by (cases x) auto
qed

lemma get_full_block_stored:
  assumes "store_law lib" "bstore_ok lib st"
  shows "\<exists>st'. get_full_block lib st h = (stored_block lib st h, st') \<and> bstore_ok lib st' \<and> bs_db st' = bs_db st"
proof (cases "lru_get (bs_block_cache st) h")
  case (Pair x c)
  show ?thesis
  proof (cases x)
    case (Some b)
    then obtain r where r: "row_of (bs_db st) h = Some r" "holds_block lib (fr_block r) b"
      using cache_lookup [OF assms(2)] Pair by metis
    then show ?thesis
      using Some Pair holds_block_read(1) [OF assms(1) r(2)] cache_hit_ok [OF assms(2) Pair]
      by (simp add: get_full_block_def stored_block_def)
  next
    case None
    show ?thesis
    proof (cases "row_of (bs_db st) h")
      case (Some r)
      then obtain b where b: "holds_block lib (fr_block r) b" using assms(2) row_of_Some [OF Some] by (auto simp: bstore_ok_def)
      then show ?thesis
        using Some None Pair holds_block_read(1) [OF assms(1) b] cache_block_ok [OF assms(2) Some b]
        by (simp add: get_full_block_def stored_block_def) (simp add: cache_block_def)
    qed (use None Pair assms in \<open>simp add: get_full_block_def stored_block_def\<close>)
  qed
qed

lemma get_generator_stored:
  assumes "store_law lib" "bstore_ok lib st"
  shows "\<exists>st'. get_generator lib st h =
      (rbind (stored_block lib st h) (\<lambda>b. Inr (Option.bind b fb_transactions_generator)), st') \<and>
    bstore_ok lib st' \<and> bs_db st' = bs_db st"
proof (cases "lru_get (bs_block_cache st) h")
  case (Pair x c)
  show ?thesis
  proof (cases "row_of (bs_db st) h")
    case None
    then have "x = None" by (rule cached_is_stored(1) [OF assms Pair])
    then show ?thesis using None Pair assms(2) by (simp add: get_generator_def stored_block_def)
  next
    case (Some r)
    then obtain b where b: "holds_block lib (fr_block r) b" using assms(2) row_of_Some [OF Some] by (auto simp: bstore_ok_def)
    have "x = None \<or> x = Some b" by (rule cached_is_stored(2) [OF assms Pair Some b])
    then show ?thesis
      using Some Pair holds_block_read [OF assms(1) b] cache_hit_ok [OF assms(2) Pair] assms(2)
      by (auto simp: get_generator_def stored_block_def)
  qed
qed

lemma get_full_block_bytes_stored:
  assumes "store_law lib" "bstore_ok lib st"
  shows "\<exists>st'. get_full_block_bytes lib st h =
      (rbind (stored_block lib st h) (\<lambda>b. case b of None \<Rightarrow> Inr None
         | Some b \<Rightarrow> rbind (full_block_bytes (lib_serialized_length lib) b) (\<lambda>bs. Inr (Some bs))), st') \<and>
    bstore_ok lib st' \<and> bs_db st' = bs_db st"
proof (cases "lru_get (bs_block_cache st) h")
  case (Pair x c)
  show ?thesis
  proof (cases "row_of (bs_db st) h")
    case None
    then have "x = None" by (rule cached_is_stored(1) [OF assms Pair])
    then show ?thesis using None Pair assms(2) by (simp add: get_full_block_bytes_def stored_block_def)
  next
    case (Some r)
    then obtain b where b: "holds_block lib (fr_block r) b" using assms(2) row_of_Some [OF Some] by (auto simp: bstore_ok_def)
    have "x = None \<or> x = Some b" by (rule cached_is_stored(2) [OF assms Pair Some b])
    then show ?thesis
      using Some Pair holds_block_read [OF assms(1) b] cache_hit_ok [OF assms(2) Pair] assms(2)
      by (auto simp: get_full_block_bytes_def stored_block_def)
  qed
qed

section \<open>Updates\<close>

lemma row_of_update:
  assumes "\<And>r. fr_header_hash (f r) = fr_header_hash r"
  shows "row_of (bs_db (update_rows c f st)) h = map_option (\<lambda>r. if c r then f r else r) (row_of (bs_db st) h)"
proof -
  have "find (\<lambda>r. fr_header_hash r = h) (map (\<lambda>r. if c r then f r else r) rs) =
      map_option (\<lambda>r. if c r then f r else r) (find (\<lambda>r. fr_header_hash r = h) rs)" for rs
    using assms by (induction rs) auto
  then show ?thesis by (simp add: row_of_def update_rows_def)
qed

lemma update_rows_ok:
  assumes ok: "bstore_ok lib st"
    and f: "\<And>r. fr_header_hash (f r) = fr_header_hash r" "\<And>r. fr_block (f r) = fr_block r"
  shows "bstore_ok lib (update_rows c f st)" "stored_block lib (update_rows c f st) = stored_block lib st"
proof -
  have "map fr_header_hash (db_full_blocks (bs_db (update_rows c f st))) = map fr_header_hash (db_full_blocks (bs_db st))"
    using f(1) by (simp add: update_rows_def)
  moreover have "bs_block_cache (update_rows c f st) = bs_block_cache st" by (simp add: update_rows_def)
  moreover have "\<exists>r. row_of (bs_db (update_rows c f st)) h = Some r \<and> holds_block lib (fr_block r) b"
    if "row_of (bs_db st) h = Some r" "holds_block lib (fr_block r) b" for h r b
    using that f(2) by (simp add: row_of_update [OF f(1)])
  moreover have "\<exists>b. holds_block lib (fr_block r) b" if "r \<in> set (db_full_blocks (bs_db (update_rows c f st)))" for r
    using that ok f(2) by (auto simp: update_rows_def bstore_ok_def)
  ultimately show "bstore_ok lib (update_rows c f st)"
    using ok unfolding bstore_ok_def by metis
  show "stored_block lib (update_rows c f st) = stored_block lib st"
    using row_of_update [OF f(1), of c st] f(2) by (auto simp: stored_block_def fun_eq_iff split: option.splits)
qed

lemma flags_keep_blocks:
  assumes "bstore_ok lib st"
  shows "bstore_ok lib (bs_rollback st n)" "stored_block lib (bs_rollback st n) = stored_block lib st"
    "bstore_ok lib (set_in_chain st hs)" "stored_block lib (set_in_chain st hs) = stored_block lib st"
    "bstore_ok lib (set_peak st h)" "stored_block lib (set_peak st h) = stored_block lib st"
proof -
  show "bstore_ok lib (bs_rollback st n)" "stored_block lib (bs_rollback st n) = stored_block lib st"
    using update_rows_ok [OF assms] by (auto simp: bs_rollback_def)
  show "bstore_ok lib (set_in_chain st hs)" "stored_block lib (set_in_chain st hs) = stored_block lib st"
    unfolding set_in_chain_def using assms
    by (induction hs arbitrary: st) (simp_all add: update_rows_ok)
  show "bstore_ok lib (set_peak st h)" "stored_block lib (set_peak st h) = stored_block lib st"
    using assms by (auto simp: set_peak_def bstore_ok_def stored_block_def row_of_def)
qed

lemma row_of_snoc:
  "row_of (db\<lparr>db_full_blocks := db_full_blocks db @ [r]\<rparr>) h =
     (case row_of db h of Some x \<Rightarrow> Some x | None \<Rightarrow> if fr_header_hash r = h then Some r else None)"
proof -
  have "find (\<lambda>r. fr_header_hash r = h) (rs @ [r]) =
      (case find (\<lambda>r. fr_header_hash r = h) rs of Some x \<Rightarrow> Some x | None \<Rightarrow> if fr_header_hash r = h then Some r else None)" for rs
    by (induction rs) auto
  then show ?thesis by (simp add: row_of_def)
qed

lemma record_typed_summary:
  assumes "record_typed rec" "br_sub_epoch_summary_included rec = Some s"
  shows "\<exists>bs. ses_bytes s = Inr bs"
  using summary_roundtrip [of s] assms by (auto simp: record_typed_def block_record_fields_def block_record_val_def opt_val_def)

lemma block_typed_compress:
  assumes "store_law lib" "block_typed (lib_accepts lib) (lib_serialized_length lib) b"
  shows "\<exists>bs. compress_block lib b = Inr bs \<and> holds_block lib bs b"
  using full_block_bytes_roundtrip [of "lib_serialized_length lib" "lib_accepts lib" b] assms
  by (auto simp: store_law_def compress_block_def holds_block_def)

lemma add_row_ok:
  assumes ok: "bstore_ok lib st" and r: "row_of (bs_db st) (fr_header_hash r) = None" "holds_block lib (fr_block r) b"
  shows "bstore_ok lib (cache_block (st\<lparr>bs_db := (bs_db st)\<lparr>db_full_blocks := db_full_blocks (bs_db st) @ [r]\<rparr>\<rparr>) (fr_header_hash r) b)"
    (is "bstore_ok lib (cache_block ?st _ b)")
proof (rule cache_block_ok)
  show "row_of (bs_db ?st) (fr_header_hash r) = Some r" "holds_block lib (fr_block r) b" using r by (simp_all add: row_of_snoc)
  have "\<exists>r. row_of (bs_db ?st) h = Some r \<and> holds_block lib (fr_block r) x"
    if "\<exists>r. row_of (bs_db st) h = Some r \<and> holds_block lib (fr_block r) x" for h x
    using that by (auto simp: row_of_snoc)
  moreover have "distinct (map fr_header_hash (db_full_blocks (bs_db ?st)))"
    using ok r(1) by (auto simp: bstore_ok_def row_of_None)
  moreover have "\<exists>b. holds_block lib (fr_block x) b" if "x \<in> set (db_full_blocks (bs_db ?st))" for x
    using that ok r(2) by (auto simp: bstore_ok_def)
  moreover have "bs_block_cache ?st = bs_block_cache st" by simp
  ultimately show "bstore_ok lib ?st" using ok unfolding bstore_ok_def by metis
qed

lemma add_full_block_new:
  assumes "store_law lib" "bstore_ok lib st" "row_of (bs_db st) h = None"
    "block_typed (lib_accepts lib) (lib_serialized_length lib) b" "record_typed rec"
  shows "\<exists>r st'. add_full_block lib st h b rec = (Inr (), st') \<and> bstore_ok lib st' \<and>
    db_full_blocks (bs_db st') = db_full_blocks (bs_db st) @ [r] \<and> bs_db st' = (bs_db st)\<lparr>db_full_blocks := db_full_blocks (bs_db st')\<rparr> \<and>
    fr_header_hash r = h \<and> fr_prev_hash r = fb_prev_header_hash b \<and> fr_height r = fb_height b \<and> \<not> fr_in_main_chain r \<and>
    holds_block lib (fr_block r) b \<and> block_record_from_bytes (fr_block_record r) = Inr rec \<and>
    (case br_sub_epoch_summary_included rec of None \<Rightarrow> fr_sub_epoch_summary r = None
       | Some s \<Rightarrow> \<exists>x. ses_bytes s = Inr x \<and> fr_sub_epoch_summary r = Some x)"
proof -
  obtain bs where bs: "compress_block lib b = Inr bs" "holds_block lib bs b"
    using block_typed_compress [OF assms(1,4)] by blast
  obtain rs where rs: "block_record_bytes rec = Inr rs" "block_record_from_bytes rs = Inr rec"
    using block_record_bytes_roundtrip [OF assms(5)] by blast
  obtain ses where ses: "(case br_sub_epoch_summary_included rec of
        None \<Rightarrow> Inr None | Some s \<Rightarrow> rbind (ses_bytes s) (\<lambda>x. Inr (Some x))) = Inr ses"
    using record_typed_summary [OF assms(5)] by (cases "br_sub_epoch_summary_included rec") auto
  define r where "r = \<lparr>fr_header_hash = h, fr_prev_hash = fb_prev_header_hash b, fr_height = fb_height b,
     fr_sub_epoch_summary = ses, fr_is_fully_compactified = is_fully_compactified b, fr_in_main_chain = False,
     fr_block = bs, fr_block_record = rs\<rparr>"
  have "add_full_block lib st h b rec =
      (Inr (), cache_block (st\<lparr>bs_db := (bs_db st)\<lparr>db_full_blocks := db_full_blocks (bs_db st) @ [r]\<rparr>\<rparr>) h b)"
    using assms(3) bs(1) rs(1) ses by (simp add: add_full_block_def Let_def cache_block_def r_def)
  moreover have "bstore_ok lib (cache_block (st\<lparr>bs_db := (bs_db st)\<lparr>db_full_blocks := db_full_blocks (bs_db st) @ [r]\<rparr>\<rparr>) h b)"
    using add_row_ok [OF assms(2), of r b] assms(3) bs(2) by (simp add: r_def)
  ultimately show ?thesis
    using bs(2) rs(2) ses
    by (intro exI [of _ r] exI conjI) (auto simp: r_def cache_block_def rbind_eq_Inr split: option.splits)
qed

section \<open>Properties\<close>

text \<open>The block cache is transparent.  In a store whose cache agrees with its table, \<open>get_full_block\<close>,
  \<open>get_generator\<close> and \<open>get_full_block_bytes\<close> return, whether or not the block is cached, what the table alone
  gives: the decompressed and parsed block, its generator and its bytes.  They change neither the table nor the
  agreement.\<close>

lemma block_cache_transparent:
  assumes "store_law lib" and "bstore_ok lib st"
  shows "(\<exists>st'. get_full_block lib st h = (stored_block lib st h, st') \<and> bstore_ok lib st' \<and> bs_db st' = bs_db st) \<and>
    (\<exists>st'. get_generator lib st h =
        (rbind (stored_block lib st h) (\<lambda>b. Inr (Option.bind b fb_transactions_generator)), st') \<and>
      bstore_ok lib st' \<and> bs_db st' = bs_db st) \<and>
    (\<exists>st'. get_full_block_bytes lib st h =
        (rbind (stored_block lib st h) (\<lambda>b. case b of None \<Rightarrow> Inr None
           | Some b \<Rightarrow> rbind (full_block_bytes (lib_serialized_length lib) b) (\<lambda>bs. Inr (Some bs))), st') \<and>
      bstore_ok lib st' \<and> bs_db st' = bs_db st)"
  using get_full_block_stored [OF assms, of h] get_generator_stored [OF assms, of h]
    get_full_block_bytes_stored [OF assms, of h] by blast

text \<open>The identity as a compressor.\<close>

definition sample_store_lib :: store_lib where
  "sample_store_lib = \<lparr>zstd_compress = id, zstd_decompress = Inr, lib_accepts = (\<lambda>_. True),
     lib_serialized_length = one_byte_programs\<rparr>"

lemma sample_store_lib_law: "store_law sample_store_lib"
  by (simp add: store_law_def sample_store_lib_def one_byte_programs_law)

definition empty_db :: block_db where
  "empty_db = \<lparr>db_full_blocks = [], db_current_peak = None, db_sub_epoch_segments = []\<rparr>"

lemma empty_store_ok: "bstore_ok lib (create_block_store empty_db)"
  by (simp add: bstore_ok_def create_block_store_def empty_db_def new_lru_cache_def lru_ok_def dict_ok_def dict_keys_def
      dict_get_def)

lemma block_cache_transparent_witness:
  "\<exists>st'. get_full_block sample_store_lib (create_block_store empty_db) (b32 1) =
     (stored_block sample_store_lib (create_block_store empty_db) (b32 1), st')"
  using block_cache_transparent [OF sample_store_lib_law empty_store_ok, of "b32 1"] by blast

text \<open>C23. Storing then loading.  Adding a well-typed block under a hash that the table does not have succeeds; the
  block and its record are then read back unchanged, every other block and record reads as before, and the block is
  not yet part of the main chain.\<close>

theorem add_block_roundtrip:
  assumes "store_law lib" and "bstore_ok lib st" and "row_of (bs_db st) h = None"
    and "block_typed (lib_accepts lib) (lib_serialized_length lib) b" and "record_typed rec"
  shows "\<exists>st'. add_full_block lib st h b rec = (Inr (), st') \<and> bstore_ok lib st' \<and>
    (\<forall>h'. fst (get_full_block lib st' h') = (if h' = h then Inr (Some b) else fst (get_full_block lib st h'))) \<and>
    (\<forall>h'. get_block_record st' h' = (if h' = h then Inr (Some rec) else get_block_record st h')) \<and>
    filter fr_in_main_chain (db_full_blocks (bs_db st')) = filter fr_in_main_chain (db_full_blocks (bs_db st))"
proof -
  obtain r st' where a: "add_full_block lib st h b rec = (Inr (), st')" "bstore_ok lib st'"
      "db_full_blocks (bs_db st') = db_full_blocks (bs_db st) @ [r]"
      "bs_db st' = (bs_db st)\<lparr>db_full_blocks := db_full_blocks (bs_db st')\<rparr>"
      "fr_header_hash r = h" "\<not> fr_in_main_chain r" "holds_block lib (fr_block r) b"
      "block_record_from_bytes (fr_block_record r) = Inr rec"
    using add_full_block_new [OF assms] by blast
  have row: "row_of (bs_db st') h' = (if h' = h then Some r else row_of (bs_db st) h')" for h'
    using a(4,5) assms(3) row_of_snoc [of "bs_db st" r h'] unfolding a(3) by (auto split: option.splits)
  have "fst (get_full_block lib st' h') = (if h' = h then Inr (Some b) else fst (get_full_block lib st h'))" for h'
    using get_full_block_stored [OF assms(1) a(2), of h'] get_full_block_stored [OF assms(1,2), of h']
      holds_block_read(1) [OF assms(1) a(7)]
    by (auto simp: stored_block_def row)
  moreover have "get_block_record st' h' = (if h' = h then Inr (Some rec) else get_block_record st h')" for h'
    using a(8) by (simp add: get_block_record_def row)
  moreover have "filter fr_in_main_chain (db_full_blocks (bs_db st')) = filter fr_in_main_chain (db_full_blocks (bs_db st))"
    using a(3,6) by simp
  ultimately show ?thesis using a(1,2) by blast
qed

definition sample_typed_record :: block_record where
  "sample_typed_record = (sample_block 1 0 2)\<lparr>br_header_hash := b32 1, br_prev_hash := b32 0,
     br_challenge_vdf_output := replicate 100 0, br_reward_infusion_new_challenge := b32 0,
     br_challenge_block_info_hash := b32 0, br_pool_puzzle_hash := b32 0, br_farmer_puzzle_hash := b32 0,
     br_community_puzzle_hash := b32 0\<rparr>"

lemma sample_record_typed: "record_typed sample_typed_record"
  by (simp add: record_typed_def block_record_fields_def block_record_val_def opt_val_def sample_typed_record_def
      sample_block_def int_class_defs classgroup_fields_def classgroup_val_def coin_list_val_def)

abbreviation sample_generator_block :: full_block where
  "sample_generator_block \<equiv> sample_full_block\<lparr>fb_transactions_generator := Some [0x80]\<rparr>"

theorem add_block_roundtrip_witness:
  "\<exists>st'. add_full_block sample_store_lib (create_block_store empty_db) (b32 1) sample_generator_block sample_typed_record = (Inr (), st') \<and>
     fst (get_full_block sample_store_lib st' (b32 1)) = Inr (Some sample_generator_block) \<and>
     get_block_record st' (b32 1) = Inr (Some sample_typed_record)"
proof -
  have r: "row_of (bs_db (create_block_store empty_db)) (b32 1) = None"
    by (simp add: row_of_def create_block_store_def empty_db_def)
  have t: "block_typed (lib_accepts sample_store_lib) (lib_serialized_length sample_store_lib) sample_generator_block"
    using sample_block_typed by (simp add: sample_store_lib_def)
  obtain st' where st': "add_full_block sample_store_lib (create_block_store empty_db) (b32 1) sample_generator_block
        sample_typed_record = (Inr (), st')"
      "\<forall>h'. fst (get_full_block sample_store_lib st' h') = (if h' = b32 1 then Inr (Some sample_generator_block)
         else fst (get_full_block sample_store_lib (create_block_store empty_db) h'))"
      "\<forall>h'. get_block_record st' h' = (if h' = b32 1 then Inr (Some sample_typed_record)
         else get_block_record (create_block_store empty_db) h')"
    using add_block_roundtrip [OF sample_store_lib_law empty_store_ok r t sample_record_typed] by blast
  then show ?thesis using spec [OF st'(2), of "b32 1"] spec [OF st'(3), of "b32 1"] by (intro exI [of _ st']) simp
qed

end
