(* ===== verification/HeightMap.thy ===== *)
theory HeightMap
  imports BlockStore
begin

text \<open>
  \<open>full_node/block_height_map.py\<close>: the hashes of the main chain in one byte buffer, 32 bytes for each height, and the
  serialised sub-epoch summaries by height.  The two cache files on disk are part of the state; a missing file is
  \<open>None\<close>.  The database is the one of the block store, version 2.
\<close>

section \<open>State and operations\<close>

record height_map =
  hm_height_to_hash :: bytes
  hm_sub_epoch_summaries :: "(int, bytes) dict"
  hm_dirty :: int
  hm_hash_file :: "bytes option"
  hm_ses_file :: "bytes option"

definition ses_cache_fields :: "ftype list" where
  "ses_cache_fields = [FList (FTuple [Fu32, FBytes])]"

text \<open>\<open>xs[i : i + len(ys)] = ys\<close> on a \<open>bytearray\<close>.\<close>

definition assign_slice :: "nat \<Rightarrow> 'a list \<Rightarrow> 'a list \<Rightarrow> 'a list" where
  "assign_slice i ys xs = take i xs @ ys @ drop (i + length ys) xs"

definition update_height :: "height_map \<Rightarrow> int \<Rightarrow> bytes \<Rightarrow> sub_epoch_summary option \<Rightarrow> height_map res" where
  "update_height hm height header_hash ses =
     (let idx = nat (height * 32) in
      rbind (rguard AssertionError (idx \<le> length (hm_height_to_hash hm))) (\<lambda>_.
      let hm' = hm\<lparr>hm_height_to_hash := assign_slice idx header_hash (hm_height_to_hash hm)\<rparr> in
      case ses of
        None \<Rightarrow> Inr hm'
      | Some s \<Rightarrow>
          rbind (ses_bytes s) (\<lambda>bs.
          Inr (hm'\<lparr>hm_sub_epoch_summaries := dict_set (hm_sub_epoch_summaries hm') height bs\<rparr>))))"

definition hm_maybe_flush :: "height_map \<Rightarrow> height_map res" where
  "hm_maybe_flush hm =
     (if hm_dirty hm < 1000 then Inr hm
      else
        rbind (rguard AssertionError (length (hm_height_to_hash hm) mod 32 = 0)) (\<lambda>_.
        rbind (streamable_bytes ses_cache_fields
                 (VObj [VList (map (\<lambda>(k, v). VTuple [VInt k, VBytes v]) (hm_sub_epoch_summaries hm))])) (\<lambda>ses_buf.
        Inr (hm\<lparr>hm_dirty := 0, hm_hash_file := Some (hm_height_to_hash hm), hm_ses_file := Some ses_buf\<rparr>))))"

definition hm_set_hash :: "height_map \<Rightarrow> int \<Rightarrow> bytes \<Rightarrow> height_map" where
  "hm_set_hash hm height block_hash =
     hm\<lparr>hm_height_to_hash := assign_slice (nat (height * 32)) block_hash (hm_height_to_hash hm), hm_dirty := hm_dirty hm + 1\<rparr>"

definition hm_get_hash :: "height_map \<Rightarrow> int \<Rightarrow> bytes res" where
  "hm_get_hash hm height =
     (let idx = nat (height * 32) in
      rbind (rguard AssertionError (idx + 32 \<le> length (hm_height_to_hash hm))) (\<lambda>_.
      bytes32 (slice idx (idx + 32) (hm_height_to_hash hm))))"

definition hm_contains_height :: "height_map \<Rightarrow> int \<Rightarrow> bool" where
  "hm_contains_height hm height = (height * 32 < int (length (hm_height_to_hash hm)))"

text \<open>\<open>del xs[i:]\<close>, where a negative index counts from the end.\<close>

definition delete_from :: "int \<Rightarrow> 'a list \<Rightarrow> 'a list" where
  "delete_from i xs = (if i \<ge> 0 then take (nat i) xs else take (nat (int (length xs) + i)) xs)"

definition hm_rollback :: "height_map \<Rightarrow> int \<Rightarrow> height_map res" where
  "hm_rollback hm fork_height =
     (let heights_to_delete = filter (\<lambda>h. h > fork_height) (dict_keys (hm_sub_epoch_summaries hm)) in
      rbind (rfold dict_del (hm_sub_epoch_summaries hm) heights_to_delete) (\<lambda>d.
      Inr (hm\<lparr>hm_sub_epoch_summaries := d,
              hm_height_to_hash := delete_from ((fork_height + 1) * 32) (hm_height_to_hash hm)\<rparr>)))"

definition hm_get_ses :: "height_map \<Rightarrow> int \<Rightarrow> sub_epoch_summary res" where
  "hm_get_ses hm height = rbind (dict_getitem (hm_sub_epoch_summaries hm) height) summary_from_bytes"

definition hm_get_ses_heights :: "height_map \<Rightarrow> int list" where
  "hm_get_ses_heights hm = sort (dict_keys (hm_sub_epoch_summaries hm))"

section \<open>Loading from the database\<close>

text \<open>The rows of a window, by header hash: height, previous hash and summary.\<close>

definition window_rows :: "block_db \<Rightarrow> int \<Rightarrow> int \<Rightarrow> (bytes, int \<times> bytes \<times> bytes option) dict" where
  "window_rows db window_end height =
     foldl (\<lambda>d r. dict_set d (fr_header_hash r) (fr_height r, fr_prev_hash r, fr_sub_epoch_summary r)) []
       (filter (\<lambda>r. fr_height r \<ge> window_end \<and> fr_height r < height) (db_full_blocks db))"

text \<open>The loop variables: whether the function has returned, the map, \<open>height\<close> and \<open>prev_hash\<close>.\<close>

type_synonym load_state = "bool \<times> height_map \<times> int \<times> bytes"

definition load_entry :: "(bytes, int \<times> bytes \<times> bytes option) dict \<Rightarrow> load_state \<Rightarrow> load_state res" where
  "load_entry ordered s =
     (case s of (_, hm, height, prev_hash) \<Rightarrow>
        case dict_get ordered prev_hash of
          None \<Rightarrow> Inl ValueError
        | Some (entry_height, entry_prev, entry_ses) \<Rightarrow>
            rbind (rguard AssertionError (height = entry_height + 1)) (\<lambda>_.
            let sums = hm_sub_epoch_summaries hm in
            rbind (case entry_ses of
                     None \<Rightarrow> Inr False
                   | Some e \<Rightarrow> rbind (hm_get_hash hm entry_height) (\<lambda>current.
                               Inr (current = prev_hash \<and> dict_get sums entry_height = Some e))) (\<lambda>found.
            let sums' = (case entry_ses of Some e \<Rightarrow> dict_set sums entry_height e | None \<Rightarrow> dict_pop sums entry_height)
            in if found then Inr (True, hm, entry_height, prev_hash)
               else Inr (False, hm_set_hash (hm\<lparr>hm_sub_epoch_summaries := sums'\<rparr>) entry_height prev_hash,
                         entry_height, entry_prev))))"

definition load_window :: "block_db \<Rightarrow> load_state \<Rightarrow> load_state res" where
  "load_window db s =
     (case s of (_, _, height, _) \<Rightarrow>
        let window_end = max 0 (height - 5000) in
        loop_while (\<lambda>(finished, _, height, _). \<not> finished \<and> height > window_end)
          (load_entry (window_rows db window_end height)) s)"

definition load_blocks_from :: "block_db \<Rightarrow> height_map \<Rightarrow> int \<Rightarrow> bytes \<Rightarrow> height_map res" where
  "load_blocks_from db hm height prev_hash =
     rbind (loop_while (\<lambda>(finished, _, height, _). \<not> finished \<and> height > 0) (load_window db) (False, hm, height, prev_hash))
       (\<lambda>(_, hm', _, _). Inr hm')"

definition read_ses_file :: "bytes option \<Rightarrow> (int, bytes) dict" where
  "read_ses_file f =
     (case f of
        None \<Rightarrow> []
      | Some bs \<Rightarrow>
          (case streamable_from_bytes (\<lambda>_. True) ses_cache_fields bs of
             Inl _ \<Rightarrow> []
           | Inr v \<Rightarrow> foldl (\<lambda>d t. case t of VTuple [VInt k, VBytes x] \<Rightarrow> dict_set d k x | _ \<Rightarrow> d) [] (as_list (fld v 0))))"

text \<open>The buffer has room for the heights up to the peak: cut, or filled up with zeros.\<close>

definition fit_buffer :: "nat \<Rightarrow> bytes \<Rightarrow> bytes" where
  "fit_buffer new_size buf =
     (if length buf > new_size then take new_size buf else buf @ replicate (new_size - length buf) 0)"

definition create_height_map :: "block_db \<Rightarrow> bytes option \<Rightarrow> bytes option \<Rightarrow> height_map res" where
  "create_height_map db hash_file ses_file =
     (let hm0 = \<lparr>hm_height_to_hash = [], hm_sub_epoch_summaries = [], hm_dirty = 0, hm_hash_file = hash_file,
                 hm_ses_file = ses_file\<rparr> in
      case Option.bind (db_current_peak db) (row_of db) of
        None \<Rightarrow> Inr hm0
      | Some row \<Rightarrow>
          let height = fr_height row; peak = fr_header_hash row;
              hm1 = hm0\<lparr>hm_height_to_hash := fit_buffer (nat ((height + 1) * 32))
                          (case hash_file of None \<Rightarrow> [] | Some bs \<Rightarrow> bs),
                        hm_sub_epoch_summaries := read_ses_file ses_file\<rparr>
          in rbind (hm_get_hash hm1 height) (\<lambda>current.
             if current \<noteq> peak then
               let hm2 = hm_set_hash hm1 height peak;
                   hm3 = (case fr_sub_epoch_summary row of
                            None \<Rightarrow> hm2
                          | Some e \<Rightarrow> hm2\<lparr>hm_sub_epoch_summaries := dict_set (hm_sub_epoch_summaries hm2) height e\<rparr>)
               in rbind (load_blocks_from db hm3 height (fr_prev_hash row)) hm_maybe_flush
             else Inr hm1))"

section \<open>The buffer as a list of hashes\<close>

text \<open>The abstract height map: the hash at each height.\<close>

definition hash_at :: "bytes \<Rightarrow> nat \<Rightarrow> bytes" where
  "hash_at buf k = slice (32 * k) (32 * k + 32) buf"

definition hashes :: "height_map \<Rightarrow> bytes list" where
  "hashes hm = map (hash_at (hm_height_to_hash hm)) [0..<length (hm_height_to_hash hm) div 32]"

definition hm_ok :: "height_map \<Rightarrow> bool" where
  "hm_ok hm \<longleftrightarrow> length (hm_height_to_hash hm) mod 32 = 0 \<and> dict_ok (hm_sub_epoch_summaries hm)"

lemma nth_eq_listI: "length xs = length ys \<Longrightarrow> (\<And>i. i < length xs \<Longrightarrow> xs ! i = ys ! i) \<Longrightarrow> xs = ys"
  by (simp add: list_eq_iff_nth_eq)

lemma hash_at_nth: "i < 32 \<Longrightarrow> 32 * k + i < length buf \<Longrightarrow> hash_at buf k ! i = buf ! (32 * k + i)"
  by (simp add: hash_at_def slice_def)

lemma length_hash_at: "32 * k + 32 \<le> length buf \<Longrightarrow> length (hash_at buf k) = 32"
  by (simp add: hash_at_def length_slice)

lemma length_assign: "i \<le> length xs \<Longrightarrow> length (assign_slice i ys xs) = max (i + length ys) (length xs)"
  by (simp add: assign_slice_def max_def)

lemma nth_assign:
  "i \<le> length xs \<Longrightarrow> j < max (i + length ys) (length xs) \<Longrightarrow> assign_slice i ys xs ! j =
     (if j < i then xs ! j else if j < i + length ys then ys ! (j - i) else xs ! j)"
  by (auto simp: assign_slice_def nth_append min_def less_diff_conv)

lemma hash_at_assign:
  assumes "length h = 32" "32 * m \<le> length buf" "32 * k + 32 \<le> length (assign_slice (32 * m) h buf)"
  shows "hash_at (assign_slice (32 * m) h buf) k = (if k = m then h else hash_at buf k)"
proof (rule nth_eq_listI)
  have len: "length (assign_slice (32 * m) h buf) = max (32 * m + 32) (length buf)"
    using assms(1,2) by (simp add: length_assign)
  have k: "k = m \<or> 32 * k + 32 \<le> length buf" using assms(2,3) len by (auto simp: max_def split: if_splits)
  then show "length (hash_at (assign_slice (32 * m) h buf) k) = length (if k = m then h else hash_at buf k)"
    using assms by (auto simp: length_hash_at)
  fix i
  assume "i < length (hash_at (assign_slice (32 * m) h buf) k)"
  then have i: "i < 32" using assms(3) by (simp add: length_hash_at)
  then have "hash_at (assign_slice (32 * m) h buf) k ! i = assign_slice (32 * m) h buf ! (32 * k + i)"
    using assms(3) by (intro hash_at_nth) auto
  then show "hash_at (assign_slice (32 * m) h buf) k ! i = (if k = m then h else hash_at buf k) ! i"
    using i k assms(1,2) hash_at_nth [of i k buf] nth_assign [OF assms(2), of "32 * k + i" h] by (cases k m rule: linorder_cases) auto
qed

lemma hash_at_take: "32 * k + 32 \<le> n \<Longrightarrow> hash_at (take n buf) k = hash_at buf k"
  by (simp add: hash_at_def slice_def drop_take min_def)

lemma mod32: "(n :: nat) mod 32 = 0 \<Longrightarrow> \<exists>m. n = 32 * m"
  by (metis mult_div_mod_eq add.right_neutral)

lemma get_hash_at:
  "0 \<le> k \<Longrightarrow> hm_get_hash hm k =
     (if nat k * 32 + 32 \<le> length (hm_height_to_hash hm) then Inr (hash_at (hm_height_to_hash hm) (nat k))
      else Inl AssertionError)"
  using length_hash_at [of "nat k" "hm_height_to_hash hm"]
  by (auto simp: hm_get_hash_def hash_at_def sized_init_def nat_mult_distrib mult.commute Let_def)

lemma update_hashes:
  assumes "hm_ok hm" "length h = 32" "0 \<le> k" "nat k \<le> length (hashes hm)" "length (hm_height_to_hash hm) = 32 * m"
  defines "buf \<equiv> assign_slice (nat (k * 32)) h (hm_height_to_hash hm)"
  shows "map (hash_at buf) [0..<length buf div 32] = (if nat k < m then (hashes hm)[nat k := h] else hashes hm @ [h])"
proof -
  have km: "nat k \<le> m" and idx: "nat (k * 32) = 32 * nat k" using assms by (auto simp: hashes_def nat_mult_distrib)
  then have len: "length buf div 32 = max (Suc (nat k)) m"
    using assms(2,5) by (auto simp: buf_def length_assign max_def)
  have at: "hash_at buf j = (if j = nat k then h else hash_at (hm_height_to_hash hm) j)" if "j < max (Suc (nat k)) m" for j
    using hash_at_assign [OF assms(2), of "nat k" "hm_height_to_hash hm" j] that km idx assms(2,5)
    by (auto simp: buf_def length_assign max_def split: if_splits)
  show ?thesis
    unfolding len using km assms(5) at by (intro nth_eq_listI) (auto simp: hashes_def nth_append nth_list_update max_def)
qed

lemma rfold_del:
  "distinct ks \<Longrightarrow> set ks \<subseteq> set (dict_keys d) \<Longrightarrow> rfold dict_del d ks = Inr (filter (\<lambda>p. fst p \<notin> set ks) d)"
proof (induction ks arbitrary: d)
  case (Cons k ks)
  have "dict_mem d k" using Cons.prems by (auto simp: dict_mem_iff)
  moreover have "set ks \<subseteq> set (dict_keys (dict_pop d k))" using Cons.prems by (force simp: dict_keys_def dict_pop_def)
  ultimately show ?case
    using Cons.IH [of "dict_pop d k"] Cons.prems(1) by (auto simp: dict_del_def dict_pop_def intro!: filter_cong)
qed simp

lemma rollback_summaries:
  assumes "dict_ok d"
  shows "rfold dict_del d (filter (\<lambda>h. h > f) (dict_keys d)) = Inr (filter (\<lambda>p. fst p \<le> (f :: int)) d)"
proof -
  have "filter (\<lambda>p. fst p \<notin> set (filter (\<lambda>h. h > f) (dict_keys d))) d = filter (\<lambda>p. fst p \<le> f) d"
    by (rule filter_cong) (auto simp: dict_keys_def not_le)
  then show ?thesis using rfold_del [of "filter (\<lambda>h. h > f) (dict_keys d)" d] assms by (auto simp: dict_ok_def)
qed

lemma rollback_hashes:
  assumes "hm_ok hm" "-1 \<le> f"
  shows "\<exists>hm'. hm_rollback hm f = Inr hm' \<and> hm_ok hm' \<and> hashes hm' = take (nat (f + 1)) (hashes hm) \<and>
    (\<forall>j. dict_get (hm_sub_epoch_summaries hm') j = (if j \<le> f then dict_get (hm_sub_epoch_summaries hm) j else None))"
proof -
  let ?buf = "hm_height_to_hash hm" and ?n = "nat (f + 1)"
  obtain m where m: "length ?buf = 32 * m" using assms(1) mod32 by (auto simp: hm_ok_def)
  have n: "nat ((f + 1) * 32) = 32 * ?n" "0 \<le> (f + 1) * 32" using assms(2) by (auto simp: nat_mult_distrib)
  have "map (hash_at (take (32 * ?n) ?buf)) [0..<length (take (32 * ?n) ?buf) div 32] = take ?n (hashes hm)"
    using m by (auto simp: hashes_def take_map min_def hash_at_take)
  moreover have "length (take (32 * ?n) ?buf) mod 32 = 0" using m by (simp add: min_def)
  moreover have "dict_ok (filter (\<lambda>p. fst p \<le> f) (hm_sub_epoch_summaries hm))"
    using assms(1) by (auto simp: hm_ok_def dict_ok_def dict_keys_def distinct_map_filter)
  ultimately show ?thesis
    using assms(1) n dict_get_filter [of "\<lambda>h. h \<le> f" "hm_sub_epoch_summaries hm"]
    by (auto simp: hm_rollback_def rollback_summaries hm_ok_def hashes_def delete_from_def)
qed

lemma update_height_hashes:
  assumes "hm_ok hm" "length h = 32" "0 \<le> k" "nat k \<le> length (hashes hm)"
    "\<forall>s. ses = Some s \<longrightarrow> (\<exists>bs. ses_bytes s = Inr bs)"
  shows "\<exists>hm'. update_height hm k h ses = Inr hm' \<and> hm_ok hm' \<and>
    hashes hm' = (if nat k < length (hashes hm) then (hashes hm)[nat k := h] else hashes hm @ [h]) \<and>
    (\<forall>j. dict_get (hm_sub_epoch_summaries hm') j =
       (case ses of Some s \<Rightarrow> if j = k then Some (projr (ses_bytes s)) else dict_get (hm_sub_epoch_summaries hm) j
        | None \<Rightarrow> dict_get (hm_sub_epoch_summaries hm) j))"
proof -
  let ?buf = "assign_slice (nat (k * 32)) h (hm_height_to_hash hm)"
  obtain m where m: "length (hm_height_to_hash hm) = 32 * m" using assms(1) mod32 by (auto simp: hm_ok_def)
  have len: "length (hashes hm) = m" using m by (simp add: hashes_def)
  have idx: "nat (k * 32) = 32 * nat k" "32 * nat k \<le> length (hm_height_to_hash hm)"
    using assms(3,4) m len by (auto simp: nat_mult_distrib)
  have "length ?buf mod 32 = 0" using idx assms(2) m by (simp add: length_assign max_def)
  then show ?thesis
    using update_hashes [OF assms(1-4) m] len idx assms(1,5)
    by (cases ses) (auto simp: update_height_def hm_ok_def hashes_def Let_def dict_ok_set dict_get_set)
qed

section \<open>Loading a chain\<close>

text \<open>The table holds a chain from the genesis block to the current peak.\<close>

definition stored_chain :: "block_db \<Rightarrow> block_row list \<Rightarrow> bool" where
  "stored_chain db chain \<longleftrightarrow>
     chain \<noteq> [] \<and> set chain \<subseteq> set (db_full_blocks db) \<and> distinct (map fr_header_hash (db_full_blocks db)) \<and>
     (\<forall>k < length chain. fr_height (chain ! k) = int k \<and> length (fr_header_hash (chain ! k)) = 32) \<and>
     (\<forall>k. Suc k < length chain \<longrightarrow> fr_prev_hash (chain ! Suc k) = fr_header_hash (chain ! k)) \<and>
     db_current_peak db = Some (fr_header_hash (last chain))"

lemma dict_get_rows:
  "distinct (map k rs) \<Longrightarrow> r \<in> set rs \<Longrightarrow> dict_get (foldl (\<lambda>d r. dict_set d (k r) (v r)) d rs) (k r) = Some (v r)"
proof (induction rs rule: rev_induct)
  case (snoc x xs)
  then have "r \<noteq> x \<Longrightarrow> k r \<noteq> k x" by (auto simp: image_iff)
  with snoc show ?case by (auto simp: dict_get_set)
qed simp

lemma window_lookup:
  assumes "distinct (map fr_header_hash (db_full_blocks db))" "r \<in> set (db_full_blocks db)" "a \<le> fr_height r" "fr_height r < b"
  shows "dict_get (window_rows db a b) (fr_header_hash r) = Some (fr_height r, fr_prev_hash r, fr_sub_epoch_summary r)"
  unfolding window_rows_def
  by (rule dict_get_rows [where v = "\<lambda>r. (fr_height r, fr_prev_hash r, fr_sub_epoch_summary r)"])
    (use assms in \<open>auto simp: distinct_map_filter\<close>)

lemma row_of_stored: "distinct (map fr_header_hash (db_full_blocks db)) \<Longrightarrow> r \<in> set (db_full_blocks db) \<Longrightarrow> row_of db (fr_header_hash r) = Some r"
proof -
  have "distinct (map fr_header_hash rs) \<Longrightarrow> r \<in> set rs \<Longrightarrow> find (\<lambda>x. fr_header_hash x = fr_header_hash r) rs = Some r" for rs
    by (induction rs) auto
  then show "distinct (map fr_header_hash (db_full_blocks db)) \<Longrightarrow> r \<in> set (db_full_blocks db) \<Longrightarrow> row_of db (fr_header_hash r) = Some r"
    by (simp add: row_of_def)
qed

text \<open>The loops keep: the heights from \<open>height\<close> up are set, the ones below are as they were in \<open>hm\<close>; the function
  returns early only at a height whose entry already was the chain's.\<close>

definition load_inv :: "block_row list \<Rightarrow> height_map \<Rightarrow> load_state \<Rightarrow> bool" where
  "load_inv chain hm0 s \<longleftrightarrow>
     (case s of (finished, hm, height, prev) \<Rightarrow>
        dict_ok (hm_sub_epoch_summaries hm) \<and>
        (\<forall>j. j < 0 \<or> int (length chain) \<le> j \<longrightarrow> dict_get (hm_sub_epoch_summaries hm) j = dict_get (hm_sub_epoch_summaries hm0) j) \<and>
        0 \<le> height \<and> nat height < length chain \<and> length (hm_height_to_hash hm) = 32 * length chain \<and>
        (\<forall>j < length chain. hash_at (hm_height_to_hash hm) j =
           (if nat height \<le> j then fr_header_hash (chain ! j) else hash_at (hm_height_to_hash hm0) j)) \<and>
        (\<forall>j < length chain. dict_get (hm_sub_epoch_summaries hm) (int j) =
           (if nat height \<le> j \<and> Suc j < length chain then fr_sub_epoch_summary (chain ! j)
            else dict_get (hm_sub_epoch_summaries hm0) (int j))) \<and>
        (if finished
         then Suc (nat height) < length chain \<and> hash_at (hm_height_to_hash hm0) (nat height) = fr_header_hash (chain ! nat height) \<and>
              fr_sub_epoch_summary (chain ! nat height) \<noteq> None \<and>
              dict_get (hm_sub_epoch_summaries hm0) height = fr_sub_epoch_summary (chain ! nat height)
         else 0 < height \<longrightarrow> prev = fr_header_hash (chain ! (nat height - 1))))"

lemma load_entry_step:
  assumes "stored_chain db chain" "load_inv chain hm0 (False, hm, height, prev)" "a < height" "0 \<le> a" "height \<le> b"
  shows "\<exists>t. load_entry (window_rows db a b) (False, hm, height, prev) = Inr t \<and> load_inv chain hm0 t \<and>
    nat (fst (snd (snd t))) < nat height"
proof -
  note inv = assms(2) [unfolded load_inv_def prod.case if_False]
  have inv_len: "length (hm_height_to_hash hm) = 32 * length chain" using inv by blast
  have inv_out: "dict_ok (hm_sub_epoch_summaries hm)" "\<And>j. j < 0 \<or> int (length chain) \<le> j \<Longrightarrow>
      dict_get (hm_sub_epoch_summaries hm) j = dict_get (hm_sub_epoch_summaries hm0) j" using inv by blast+
  define m where "m = nat height - 1"
  have h: "height = int (Suc m)" "nat height = Suc m" "Suc m < length chain" using assms(3,4) inv by (auto simp: m_def)
  have inv_at: "hash_at (hm_height_to_hash hm) j =
      (if Suc m \<le> j then fr_header_hash (chain ! j) else hash_at (hm_height_to_hash hm0) j)" if "j < length chain" for j
    using inv that unfolding h(2) by blast
  have inv_ses: "dict_get (hm_sub_epoch_summaries hm) (int j) =
      (if Suc m \<le> j \<and> Suc j < length chain then fr_sub_epoch_summary (chain ! j)
       else dict_get (hm_sub_epoch_summaries hm0) (int j))" if "j < length chain" for j
    using inv that unfolding h(2) by blast
  define r where "r = chain ! m"
  have r: "fr_height r = int m" "r \<in> set (db_full_blocks db)" "length (fr_header_hash r) = 32"
      "distinct (map fr_header_hash (db_full_blocks db))" "0 < m \<longrightarrow> fr_prev_hash r = fr_header_hash (chain ! (m - 1))"
    using assms(1) h(3) by (cases m; auto simp: stored_chain_def r_def)+
  have prev: "prev = fr_header_hash r" using inv h by (simp add: r_def)
  have look: "dict_get (window_rows db a b) prev = Some (int m, fr_prev_hash r, fr_sub_epoch_summary r)"
    using window_lookup [OF r(4,2), of a b] r(1) assms(3,5) h(1) prev by simp
  have hash: "hm_get_hash hm (int m) = Inr (hash_at (hm_height_to_hash hm0) m)"
    using inv h by (simp add: get_hash_at)
  let ?sums = "hm_sub_epoch_summaries hm"
  have sums: "dict_get ?sums (int m) = dict_get (hm_sub_epoch_summaries hm0) (int m)" using inv h by simp
  define sums' where "sums' = (case fr_sub_epoch_summary r of Some e \<Rightarrow> dict_set ?sums (int m) e | None \<Rightarrow> dict_pop ?sums (int m))"
  have sums': "dict_get sums' j = (if j = int m then fr_sub_epoch_summary r else dict_get ?sums j)" for j
    by (simp add: sums'_def dict_simps split: option.splits)
  have out: "dict_ok sums'" "\<And>j. j < 0 \<or> int (length chain) \<le> j \<Longrightarrow> dict_get sums' j = dict_get (hm_sub_epoch_summaries hm0) j"
    using inv_out h(3) by (simp add: sums'_def dict_ok_set dict_ok_pop split: option.splits, auto simp: sums')
  define hm' where "hm' = hm_set_hash (hm\<lparr>hm_sub_epoch_summaries := sums'\<rparr>) (int m) prev"
  have buf: "hm_height_to_hash hm' = assign_slice (32 * m) prev (hm_height_to_hash hm)"
    by (simp add: hm'_def hm_set_hash_def nat_mult_distrib mult.commute)
  have len: "length (hm_height_to_hash hm') = 32 * length chain"
    using inv_len h(3) prev r(3) unfolding buf by (simp add: length_assign max_def)
  have at: "hash_at (hm_height_to_hash hm') j = (if m \<le> j then fr_header_hash (chain ! j) else hash_at (hm_height_to_hash hm0) j)"
    if "j < length chain" for j
  proof -
    have "length prev = 32" "32 * m \<le> length (hm_height_to_hash hm)" using prev r(3) inv_len h(3) by simp_all
    moreover have "32 * j + 32 \<le> length (assign_slice (32 * m) prev (hm_height_to_hash hm))"
      using len that unfolding buf by linarith
    ultimately have "hash_at (hm_height_to_hash hm') j = (if j = m then prev else hash_at (hm_height_to_hash hm) j)"
      unfolding buf by (rule hash_at_assign)
    then show ?thesis using prev inv_at [OF that] by (cases j m rule: linorder_cases) (simp_all add: r_def)
  qed
  have ses: "dict_get (hm_sub_epoch_summaries hm') (int j) =
      (if m \<le> j \<and> Suc j < length chain then fr_sub_epoch_summary (chain ! j) else dict_get (hm_sub_epoch_summaries hm0) (int j))"
    if "j < length chain" for j
  proof -
    have "dict_get (hm_sub_epoch_summaries hm') (int j) = (if j = m then fr_sub_epoch_summary r else dict_get ?sums (int j))"
      using sums' by (simp add: hm'_def hm_set_hash_def)
    then show ?thesis using h(3) inv_ses [OF that] by (cases j m rule: linorder_cases) (simp_all add: r_def)
  qed
  have set: "load_inv chain hm0 (False, hm', int m, fr_prev_hash r)"
    using h(3) len at ses r(5) out by (simp add: load_inv_def) (simp add: hm'_def hm_set_hash_def)
  show ?thesis
  proof (cases "fr_sub_epoch_summary r \<noteq> None \<and> hash_at (hm_height_to_hash hm0) m = prev \<and>
      dict_get (hm_sub_epoch_summaries hm0) (int m) = fr_sub_epoch_summary r")
    case True
    then have "load_inv chain hm0 (True, hm, int m, prev)"
      using inv_len inv_out h(3) prev True by (simp add: load_inv_def inv_at inv_ses r_def) (auto simp: not_less_eq_eq le_antisym)
    then show ?thesis using True look hash h sums by (auto simp: load_entry_def Let_def)
  next
    case False
    have "load_entry (window_rows db a b) (False, hm, height, prev) = Inr (False, hm', int m, fr_prev_hash r)"
      using False look hash h sums unfolding load_entry_def hm'_def sums'_def
      by (cases "fr_sub_epoch_summary r") (auto simp: Let_def)
    then show ?thesis using set h by simp
  qed
qed

lemma load_window_step:
  assumes "stored_chain db chain" "load_inv chain hm0 (False, hm, height, prev)" "0 < height"
  shows "\<exists>t. load_window db (False, hm, height, prev) = Inr t \<and> load_inv chain hm0 t \<and> nat (fst (snd (snd t))) < nat height"
proof -
  define a where "a = max 0 (height - 5000)"
  have a: "0 \<le> a" "a < height" using assms(3) by (auto simp: a_def)
  let ?c = "\<lambda>(finished, _, h, _). \<not> finished \<and> h > a" and ?P = "\<lambda>s. load_inv chain hm0 s \<and> fst (snd (snd s)) \<le> height"
  let ?ht = "\<lambda>s :: load_state. nat (fst (snd (snd s)))"
  obtain t1 where t1: "load_entry (window_rows db a height) (False, hm, height, prev) = Inr t1" "load_inv chain hm0 t1" "?ht t1 < nat height"
    using load_entry_step [OF assms(1,2) a(2,1) order_refl] by blast
  have step: "\<exists>t. load_entry (window_rows db a height) s = Inr t \<and> ?P t \<and> ?ht t < ?ht s" if "?P s" "?c s" for s
  proof (cases s)
    case (fields finished hm' h' prev')
    then show ?thesis using load_entry_step [OF assms(1), of hm0 hm' h' prev' a height] that a(1) by (auto simp: le_nat_iff)
  qed
  have p1: "?P t1 \<and> ?ht t1 < nat height" using t1 by (auto simp: load_inv_def split: prod.splits)
  obtain t where t: "loop_while ?c (load_entry (window_rows db a height)) t1 = Inr t" "?P t \<and> ?ht t < nat height"
  proof -
    have "\<exists>t. loop_while ?c (load_entry (window_rows db a height)) t1 = Inr t \<and> (?P t \<and> ?ht t < nat height) \<and> \<not> ?c t"
      by (rule loop_while_total [where m = ?ht]) (use step p1 in fastforce)+
    then show ?thesis using that by blast
  qed
  moreover have "loop_while ?c (load_entry (window_rows db a height)) (False, hm, height, prev) =
      loop_while ?c (load_entry (window_rows db a height)) t1"
    using a(2) t1(1) by (subst loop_while_unfold) simp
  moreover have "load_window db (False, hm, height, prev) = loop_while ?c (load_entry (window_rows db a height)) (False, hm, height, prev)"
    by (simp only: load_window_def prod.case a_def Let_def)
  ultimately show ?thesis by (intro exI [of _ t]) simp
qed

lemma load_blocks_from_ok:
  assumes "stored_chain db chain" "load_inv chain hm0 (False, hm0, height, prev)"
  shows "\<exists>hm fin h p. load_blocks_from db hm0 height prev = Inr hm \<and> load_inv chain hm0 (fin, hm, h, p) \<and> (fin \<or> h = 0)"
proof -
  have "\<exists>t. loop_while (\<lambda>(finished, _, h, _). \<not> finished \<and> h > 0) (load_window db) (False, hm0, height, prev) = Inr t \<and>
      load_inv chain hm0 t \<and> \<not> (case t of (finished, _, h, _) \<Rightarrow> \<not> finished \<and> h > 0)"
    by (rule loop_while_total [where m = "\<lambda>s :: load_state. nat (fst (snd (snd s)))"])
      (use load_window_step [OF assms(1), of hm0] assms(2) in auto)
  then obtain fin hm h p where t: "loop_while (\<lambda>(finished, _, h, _). \<not> finished \<and> h > 0) (load_window db) (False, hm0, height, prev) =
      Inr (fin, hm, h, p)" "load_inv chain hm0 (fin, hm, h, p)" "fin \<or> h \<le> 0" by auto
  moreover have "0 \<le> h" using t(2) by (simp add: load_inv_def)
  ultimately show ?thesis by (auto simp: load_blocks_from_def)
qed

lemma flush_ok:
  assumes "hm_ok hm" "\<forall>(k, v) \<in> set (hm_sub_epoch_summaries hm). 0 \<le> k \<and> k < 2 ^ 32 \<and> length v < 2 ^ 32"
    "length (hm_sub_epoch_summaries hm) < 2 ^ 32"
  shows "\<exists>hm'. hm_maybe_flush hm = Inr hm' \<and> hm_height_to_hash hm' = hm_height_to_hash hm \<and>
    hm_sub_epoch_summaries hm' = hm_sub_epoch_summaries hm"
proof -
  let ?v = "VObj [VList (map (\<lambda>(k, v). VTuple [VInt k, VBytes v]) (hm_sub_epoch_summaries hm))]"
  have "list_all wf_type ses_cache_fields" by (simp add: ses_cache_fields_def int_classes_def)
  moreover have "has_type (\<lambda>_. True) (FClass ses_cache_fields) ?v"
    using assms(2,3) by (auto simp: ses_cache_fields_def list_all_iff int_class_defs)
  ultimately obtain b where "streamable_bytes ses_cache_fields ?v = Inr b" using object_roundtrip by blast
  then show ?thesis using assms(1) by (auto simp: hm_maybe_flush_def hm_ok_def)
qed

text \<open>What the hash file is trusted for: an entry that agrees with the chain means that all lower ones do.\<close>

definition initial_buffer :: "block_row list \<Rightarrow> bytes option \<Rightarrow> bytes" where
  "initial_buffer chain hash_file = fit_buffer (32 * length chain) (case hash_file of None \<Rightarrow> [] | Some bs \<Rightarrow> bs)"

definition trusted_file :: "block_row list \<Rightarrow> bytes option \<Rightarrow> bool" where
  "trusted_file chain hash_file \<longleftrightarrow>
     (\<forall>k < length chain. hash_at (initial_buffer chain hash_file) k = fr_header_hash (chain ! k) \<longrightarrow>
        (\<forall>j \<le> k. hash_at (initial_buffer chain hash_file) j = fr_header_hash (chain ! j)))"

definition peak_cached :: "block_row list \<Rightarrow> bytes option \<Rightarrow> bool" where
  "peak_cached chain hash_file \<longleftrightarrow>
     hash_at (initial_buffer chain hash_file) (length chain - 1) = fr_header_hash (last chain)"

lemma length_initial_buffer: "length (initial_buffer chain f) = 32 * length chain"
  by (auto simp: initial_buffer_def fit_buffer_def)

lemma dict_small:
  assumes "dict_ok d" "\<And>k v. dict_get d k = Some v \<Longrightarrow> 0 \<le> k \<and> k < int n"
  shows "length d \<le> n"
proof -
  have "set (dict_keys d) \<subseteq> {0..<int n}"
  proof
    fix k assume "k \<in> set (dict_keys d)"
    then have "dict_mem d k" by (simp add: dict_mem_iff)
    then show "k \<in> {0..<int n}" using assms(2) [of k] by (auto simp: dict_mem_def)
  qed
  then have "card (set (dict_keys d)) \<le> n" using card_mono [of "{0..<int n}"] by fastforce
  then show ?thesis using assms(1) distinct_card [of "dict_keys d"] by (simp add: dict_ok_def dict_keys_def)
qed

lemma create_loads:
  assumes "stored_chain db chain" "trusted_file chain hash_file" "\<not> peak_cached chain hash_file"
  shows "\<exists>hm. create_height_map db hash_file None = hm_maybe_flush hm \<and> hm_ok hm \<and>
    hashes hm = map fr_header_hash chain \<and>
    (\<forall>j. dict_get (hm_sub_epoch_summaries hm) j =
       (if 0 \<le> j \<and> j < int (length chain) then fr_sub_epoch_summary (chain ! nat j) else None))"
proof -
  define n where "n = length chain - 1"
  have n: "length chain = Suc n" "last chain = chain ! n" using assms(1) by (auto simp: n_def stored_chain_def last_conv_nth)
  define r where "r = chain ! n"
  note chain = assms(1) [unfolded stored_chain_def]
  have "r \<in> set chain" using n(1) by (simp add: r_def)
  then have "row_of db (fr_header_hash r) = Some r" using chain row_of_stored by blast
  moreover have "fr_height r = int n" "length (fr_header_hash r) = 32" using chain n(1) by (simp_all add: r_def)
  moreover have "fr_prev_hash r = fr_header_hash (chain ! (n - 1))" if "0 < n"
  proof -
    have "Suc (n - 1) < length chain" "Suc (n - 1) = n" using that n(1) by simp_all
    then show ?thesis using chain unfolding r_def by metis
  qed
  ultimately have r: "fr_height r = int n" "length (fr_header_hash r) = 32" "row_of db (fr_header_hash r) = Some r"
      "0 < n \<longrightarrow> fr_prev_hash r = fr_header_hash (chain ! (n - 1))" by simp_all
  define hm1 where "hm1 = \<lparr>hm_height_to_hash = initial_buffer chain hash_file, hm_sub_epoch_summaries = [], hm_dirty = 0,
      hm_hash_file = hash_file, hm_ses_file = None\<rparr>"
  define hm3 where "hm3 = (case fr_sub_epoch_summary r of
       None \<Rightarrow> hm_set_hash hm1 (int n) (fr_header_hash r)
     | Some e \<Rightarrow> (hm_set_hash hm1 (int n) (fr_header_hash r))\<lparr>hm_sub_epoch_summaries := dict_set [] (int n) e\<rparr>)"
  have len: "length (hm_height_to_hash hm1) = 32 * length chain" by (simp add: hm1_def length_initial_buffer)
  have "hm_get_hash hm1 (int n) = Inr (hash_at (initial_buffer chain hash_file) n)"
    using len n(1) by (simp add: get_hash_at) (simp add: hm1_def)
  moreover have "hash_at (initial_buffer chain hash_file) n \<noteq> fr_header_hash r"
    using assms(3) n by (simp add: peak_cached_def r_def)
  moreover have "db_current_peak db = Some (fr_header_hash r)" using assms(1) n by (simp add: stored_chain_def r_def)
  moreover have "nat ((int n + 1) * 32) = 32 * length chain" using n(1) by (simp add: nat_mult_distrib nat_add_distrib)
  ultimately have create: "create_height_map db hash_file None = rbind (load_blocks_from db hm3 (int n) (fr_prev_hash r)) hm_maybe_flush"
    using r(1,3) by (simp add: create_height_map_def hm3_def hm1_def read_ses_file_def initial_buffer_def hm_set_hash_def Let_def
        cong: option.case_cong)
  have buf3: "hm_height_to_hash hm3 = assign_slice (32 * n) (fr_header_hash r) (initial_buffer chain hash_file)"
    by (simp add: hm3_def hm_set_hash_def hm1_def nat_mult_distrib mult.commute split: option.splits)
  have len3: "length (hm_height_to_hash hm3) = 32 * length chain"
    using n(1) r(2) by (simp add: buf3 length_assign length_initial_buffer max_def)
  have at3: "hash_at (hm_height_to_hash hm3) j = (if j = n then fr_header_hash r else hash_at (initial_buffer chain hash_file) j)"
    if "j < length chain" for j
    unfolding buf3 by (rule hash_at_assign) (use that n(1) r(2) len3 in \<open>simp_all add: length_initial_buffer buf3\<close>)
  have ses3: "dict_get (hm_sub_epoch_summaries hm3) j = (if j = int n then fr_sub_epoch_summary r else None)" for j
    by (auto simp: hm3_def hm_set_hash_def hm1_def dict_get_def split: option.splits)
  have ok3: "dict_ok (hm_sub_epoch_summaries hm3)"
    by (auto simp: hm3_def hm_set_hash_def hm1_def dict_ok_def dict_keys_def split: option.splits)
  have "load_inv chain hm3 (False, hm3, int n, fr_prev_hash r)"
    using n(1) len3 at3 r(4) ok3 by (auto simp: load_inv_def r_def less_Suc_eq)
  then obtain hm fin h p where hm: "load_blocks_from db hm3 (int n) (fr_prev_hash r) = Inr hm"
      "load_inv chain hm3 (fin, hm, h, p)" "fin \<or> h = 0"
    using load_blocks_from_ok [OF assms(1)] by blast
  note inv = hm(2) [unfolded load_inv_def prod.case]
  have "\<not> fin" using inv ses3 [of h] n(1) by (auto split: if_splits)
  then have h: "h = 0" using hm(3) by simp
  have at: "hash_at (hm_height_to_hash hm) j = fr_header_hash (chain ! j)" if "j < length chain" for j
    using inv that h by simp
  have ses: "dict_get (hm_sub_epoch_summaries hm) j =
      (if 0 \<le> j \<and> j < int (length chain) then fr_sub_epoch_summary (chain ! nat j) else None)" for j
  proof (cases "0 \<le> j \<and> j < int (length chain)")
    case True
    then have "nat j < length chain" by (simp add: nat_less_iff)
    then have "dict_get (hm_sub_epoch_summaries hm) (int (nat j)) =
        (if Suc (nat j) < length chain then fr_sub_epoch_summary (chain ! nat j) else dict_get (hm_sub_epoch_summaries hm3) (int (nat j)))"
      using inv unfolding h by (metis (no_types, lifting) nat_zero_as_int zero_le nat_0)
    moreover have "Suc (nat j) < length chain \<or> j = int n" using True n(1) by auto
    ultimately show ?thesis using True ses3 [of j] n(1) by (auto simp: r_def)
  qed (use inv ses3 n(1) in auto)
  have "hm_ok hm" "hashes hm = map fr_header_hash chain"
    using inv at by (auto simp: hm_ok_def hashes_def intro!: nth_eq_listI)
  then show ?thesis using create hm(1) ses by auto
qed

lemma create_cached:
  assumes "stored_chain db chain" "trusted_file chain hash_file" "peak_cached chain hash_file"
  shows "\<exists>hm. create_height_map db hash_file None = Inr hm \<and> hashes hm = map fr_header_hash chain \<and>
    hm_sub_epoch_summaries hm = []"
proof -
  define n where "n = length chain - 1"
  define r where "r = chain ! n"
  have n: "length chain = Suc n" "last chain = r" using assms(1) by (auto simp: n_def r_def stored_chain_def last_conv_nth)
  note chain = assms(1) [unfolded stored_chain_def]
  have "r \<in> set chain" using n(1) by (simp add: r_def)
  then have row: "row_of db (fr_header_hash r) = Some r" using chain row_of_stored by blast
  have ht: "fr_height r = int n" using chain n(1) by (simp add: r_def)
  have peak: "db_current_peak db = Some (fr_header_hash r)" using chain n(2) by simp
  have all: "hash_at (initial_buffer chain hash_file) j = fr_header_hash (chain ! j)" if "j < length chain" for j
    using assms(2,3) that n by (auto simp: trusted_file_def peak_cached_def r_def)
  have size: "nat ((int n + 1) * 32) = 32 * length chain" using n(1) by (simp add: nat_mult_distrib nat_add_distrib)
  define hm1 where "hm1 = \<lparr>hm_height_to_hash = initial_buffer chain hash_file, hm_sub_epoch_summaries = [], hm_dirty = 0,
      hm_hash_file = hash_file, hm_ses_file = None\<rparr>"
  have "hm_get_hash hm1 (int n) = Inr (fr_header_hash r)"
    using all [of n] n(1) by (simp add: get_hash_at hm1_def length_initial_buffer r_def)
  then have "create_height_map db hash_file None = Inr hm1"
    using row ht peak size by (simp add: create_height_map_def hm1_def read_ses_file_def initial_buffer_def Let_def)
  moreover have "hashes hm1 = map fr_header_hash chain"
    using all by (auto simp: hashes_def hm1_def length_initial_buffer intro!: nth_eq_listI)
  ultimately show ?thesis by (auto simp: hm1_def)
qed

section \<open>Properties\<close>

text \<open>C25. The byte buffer implements a list of hashes.  \<open>contains_height\<close> and \<open>get_hash\<close> are the length test and the
  lookup of the list (with the assertion error past its end), \<open>update_height\<close> replaces the hash at a height or
  appends the next one and fails its assertion if heights would be skipped, and \<open>rollback\<close> keeps the heights up to
  the fork, none for \<open>-1\<close>, and drops the summaries above it.\<close>

theorem height_map_refines:
  assumes "hm_ok hm" and "0 \<le> k" and "length h = 32" and "-1 \<le> f"
    and "\<forall>s. ses = Some s \<longrightarrow> (\<exists>bs. ses_bytes s = Inr bs)"
  shows "hm_contains_height hm k = (nat k < length (hashes hm)) \<and>
    hm_get_hash hm k = (if nat k < length (hashes hm) then Inr (hashes hm ! nat k) else Inl AssertionError) \<and>
    (if nat k \<le> length (hashes hm)
     then \<exists>hm'. update_height hm k h ses = Inr hm' \<and> hm_ok hm' \<and>
            hashes hm' = (if nat k < length (hashes hm) then (hashes hm)[nat k := h] else hashes hm @ [h])
     else update_height hm k h ses = Inl AssertionError) \<and>
    (\<exists>hm'. hm_rollback hm f = Inr hm' \<and> hm_ok hm' \<and> hashes hm' = take (nat (f + 1)) (hashes hm) \<and>
      (\<forall>j. dict_get (hm_sub_epoch_summaries hm') j = (if j \<le> f then dict_get (hm_sub_epoch_summaries hm) j else None)))"
proof -
  obtain m where m: "length (hm_height_to_hash hm) = 32 * m" using assms(1) mod32 by (auto simp: hm_ok_def)
  have len: "length (hashes hm) = m" using m by (simp add: hashes_def)
  have "hm_contains_height hm k = (nat k < length (hashes hm))"
    using m len assms(2) by (auto simp: hm_contains_height_def)
  moreover have "hm_get_hash hm k = (if nat k < length (hashes hm) then Inr (hashes hm ! nat k) else Inl AssertionError)"
    using get_hash_at [OF assms(2), of hm] m len by (auto simp: hashes_def)
  moreover have "update_height hm k h ses = Inl AssertionError" if "\<not> nat k \<le> length (hashes hm)"
    using that m len assms(2) by (auto simp: update_height_def nat_mult_distrib Let_def)
  ultimately show ?thesis
    using update_height_hashes [OF assms(1,3,2) _ assms(5)] rollback_hashes [OF assms(1,4)] by auto
qed

definition sample_map :: height_map where
  "sample_map = \<lparr>hm_height_to_hash = b32 1 @ b32 2, hm_sub_epoch_summaries = [(1, [7])], hm_dirty = 0, hm_hash_file = None,
     hm_ses_file = None\<rparr>"

theorem height_map_refines_witness:
  "hm_contains_height sample_map 1 \<and> hm_get_hash sample_map 1 = Inr (b32 2) \<and>
   (\<exists>hm'. hm_rollback sample_map 0 = Inr hm' \<and> hashes hm' = [b32 1] \<and> dict_get (hm_sub_epoch_summaries hm') 1 = None)"
proof -
  have ok: "hm_ok sample_map" by (simp add: sample_map_def hm_ok_def dict_ok_def dict_keys_def)
  have hs: "hashes sample_map = [b32 1, b32 2]"
    by (simp add: hashes_def sample_map_def hash_at_def slice_def upt_rec)
  note r = height_map_refines [OF ok, of 1 "b32 3" 0 None]
  show ?thesis using r hs by auto
qed

text \<open>The height map is rebuilt from the database.  If the block table holds a linked chain up to the current
  peak, then loading it succeeds and gives the hash of the chain's block at every height, whatever hash file is found
  on disk, as long as an entry of the file that agrees with the chain agrees below it too (which is what the code
  assumes).  Unless the file already has the peak, the summaries of the chain are loaded as well, and no others.\<close>

lemma height_map_rebuilt:
  assumes "stored_chain db chain" and "trusted_file chain hash_file" and "length chain < 2 ^ 32"
    and "\<forall>r \<in> set chain. \<forall>e. fr_sub_epoch_summary r = Some e \<longrightarrow> length e < 2 ^ 32"
  shows "\<exists>hm. create_height_map db hash_file None = Inr hm \<and> hashes hm = map fr_header_hash chain \<and>
    (\<not> peak_cached chain hash_file \<longrightarrow>
      (\<forall>j. dict_get (hm_sub_epoch_summaries hm) j =
         (if 0 \<le> j \<and> j < int (length chain) then fr_sub_epoch_summary (chain ! nat j) else None)))"
proof (cases "peak_cached chain hash_file")
  case True
  then show ?thesis using create_cached [OF assms(1,2)] by auto
next
  case False
  then obtain hm where hm: "create_height_map db hash_file None = hm_maybe_flush hm" "hm_ok hm"
      "hashes hm = map fr_header_hash chain"
      "\<forall>j. dict_get (hm_sub_epoch_summaries hm) j =
         (if 0 \<le> j \<and> j < int (length chain) then fr_sub_epoch_summary (chain ! nat j) else None)"
    using create_loads [OF assms(1,2)] by blast
  have small: "0 \<le> k \<and> k < int (length chain) \<and> fr_sub_epoch_summary (chain ! nat k) = Some v"
    if "dict_get (hm_sub_epoch_summaries hm) k = Some v" for k v
    using that hm(4) by (auto split: if_splits)
  have d: "dict_ok (hm_sub_epoch_summaries hm)" using hm(2) by (simp add: hm_ok_def)
  have "length (hm_sub_epoch_summaries hm) \<le> length chain" by (rule dict_small [OF d]) (use small in blast)
  moreover have "0 \<le> k \<and> k < 2 ^ 32 \<and> length v < 2 ^ 32" if "(k, v) \<in> set (hm_sub_epoch_summaries hm)" for k v
    using small [of k v] that d assms(3,4) nth_mem [of "nat k" chain] by (auto simp: dict_get_iff nat_less_iff)
  ultimately obtain hm' where "hm_maybe_flush hm = Inr hm'" "hm_height_to_hash hm' = hm_height_to_hash hm"
      "hm_sub_epoch_summaries hm' = hm_sub_epoch_summaries hm"
    using flush_ok [OF hm(2)] assms(3) by fastforce
  then show ?thesis using hm False by (auto simp: hashes_def)
qed

definition sample_row :: "byte \<Rightarrow> byte \<Rightarrow> int \<Rightarrow> bytes option \<Rightarrow> block_row" where
  "sample_row h p n ses = \<lparr>fr_header_hash = b32 h, fr_prev_hash = b32 p, fr_height = n, fr_sub_epoch_summary = ses,
     fr_is_fully_compactified = False, fr_in_main_chain = True, fr_block = [], fr_block_record = []\<rparr>"

definition sample_block_db :: block_db where
  "sample_block_db = \<lparr>db_full_blocks = [sample_row 2 1 1 (Some [7]), sample_row 3 1 1 None, sample_row 1 0 0 None],
     db_current_peak = Some (b32 2), db_sub_epoch_segments = []\<rparr>"

lemma height_map_rebuilt_witness:
  "\<exists>hm. create_height_map sample_block_db None None = Inr hm \<and> hashes hm = [b32 1, b32 2] \<and>
     dict_get (hm_sub_epoch_summaries hm) 1 = Some [7]"
proof -
  let ?chain = "[sample_row 1 0 0 None, sample_row 2 1 1 (Some [7])]"
  have c: "stored_chain sample_block_db ?chain"
    by (auto simp: stored_chain_def sample_block_db_def sample_row_def less_Suc_eq)
  have z: "hash_at (initial_buffer ?chain None) k = b32 0" if "k < 2" for k
    using that by (auto simp: initial_buffer_def fit_buffer_def hash_at_def slice_def)
  have t: "trusted_file ?chain None" using z by (auto simp: trusted_file_def sample_row_def less_Suc_eq)
  have p: "\<not> peak_cached ?chain None" using z [of 1] by (simp add: peak_cached_def sample_row_def)
  obtain hm where hm: "create_height_map sample_block_db None None = Inr hm" "hashes hm = map fr_header_hash ?chain"
      "\<forall>j. dict_get (hm_sub_epoch_summaries hm) j =
         (if 0 \<le> j \<and> j < int (length ?chain) then fr_sub_epoch_summary (?chain ! nat j) else None)"
    using height_map_rebuilt [OF c t] p by (auto simp: sample_row_def)
  then show ?thesis using spec [OF hm(3), of 1] by (auto simp: sample_row_def)
qed

end
