(* ===== verification/CoinStore.thy ===== *)
theory CoinStore
  imports Rewards
begin

text \<open>
  \<open>full_node/coin_store.py\<close> and \<open>types/coin_record.py\<close>: the database of all coins of the current chain.  The
  table \<open>coin_record\<close> is the list of its rows in insertion order, with the columns of the version 2 schema;
  \<open>coin_name\<close> is its primary key, and a \<open>spent_index\<close> of \<open>0\<close> marks an unspent coin.  The SQL statements
  are operations on this list.  Coin ids are computed by \<open>name\<close>, the parameter for \<open>Coin.name\<close>.
\<close>

section \<open>Records and rows\<close>

record coin_record =
  cr_coin :: coin
  confirmed_block_index :: int
  spent_block_index :: int
  coinbase :: bool
  cr_timestamp :: int

definition cr_spent :: "coin_record \<Rightarrow> bool" where
  "cr_spent r = (spent_block_index r > 0)"

record coin_state =
  cs_coin :: coin
  cs_spent_height :: "int option"
  cs_created_height :: "int option"

definition cr_coin_state :: "coin_record \<Rightarrow> coin_state" where
  "cr_coin_state r = \<lparr>cs_coin = cr_coin r,
     cs_spent_height = (if cr_spent r then Some (spent_block_index r) else None),
     cs_created_height = (if confirmed_block_index r = 0 \<and> cr_timestamp r = 0 then None
                          else Some (confirmed_block_index r))\<rparr>"

record row =
  row_coin_name :: bytes
  row_confirmed_index :: int
  row_spent_index :: int
  row_coinbase :: bool
  row_puzzle_hash :: bytes
  row_coin_parent :: bytes
  row_amount :: bytes
  row_timestamp :: int

type_synonym table = "row list"

definition row_to_coin :: "row \<Rightarrow> coin res" where
  "row_to_coin r =
     rbind (bytes32 (row_coin_parent r)) (\<lambda>p.
     rbind (bytes32 (row_puzzle_hash r)) (\<lambda>h.
     rbind (struct_from_bytes uint64_class (row_amount r)) (\<lambda>a.
     mk_coin p h a)))"

definition row_to_coin_state :: "row \<Rightarrow> coin_state res" where
  "row_to_coin_state r =
     rbind (row_to_coin r) (\<lambda>c.
     Inr \<lparr>cs_coin = c, cs_spent_height = (if row_spent_index r \<noteq> 0 then Some (row_spent_index r) else None),
          cs_created_height = Some (row_confirmed_index r)\<rparr>)"

text \<open>\<open>CoinRecord(self.row_to_coin(row), row[0], row[1], row[2], row[6])\<close>.\<close>

definition row_to_record :: "row \<Rightarrow> coin_record res" where
  "row_to_record r =
     rbind (row_to_coin r) (\<lambda>c.
     Inr \<lparr>cr_coin = c, confirmed_block_index = row_confirmed_index r, spent_block_index = row_spent_index r,
          coinbase = row_coinbase r, cr_timestamp = row_timestamp r\<rparr>)"

section \<open>Writing\<close>

text \<open>The values bound to the parameters of \<open>INSERT INTO coin_record\<close>.\<close>

definition record_to_row :: "(coin \<Rightarrow> bytes) \<Rightarrow> coin_record \<Rightarrow> row res" where
  "record_to_row name r =
     rbind (struct_bytes uint64_class (amount (cr_coin r))) (\<lambda>a.
     Inr \<lparr>row_coin_name = name (cr_coin r), row_confirmed_index = confirmed_block_index r,
          row_spent_index = spent_block_index r, row_coinbase = coinbase r,
          row_puzzle_hash = puzzle_hash (cr_coin r), row_coin_parent = parent_coin_info (cr_coin r),
          row_amount = a, row_timestamp = cr_timestamp r\<rparr>)"

text \<open>One \<open>INSERT\<close>: the primary key must be new.\<close>

definition insert_row :: "table \<Rightarrow> row \<Rightarrow> table res" where
  "insert_row db r =
     (if row_coin_name r \<in> set (map row_coin_name db) then Inl DatabaseError else Inr (db @ [r]))"

definition add_coin_records :: "(coin \<Rightarrow> bytes) \<Rightarrow> coin_record list \<Rightarrow> table \<Rightarrow> table res" where
  "add_coin_records name records db =
     rbind (rmap (record_to_row name) records) (\<lambda>rows. rfold insert_row db rows)"

text \<open>One \<open>UPDATE ... SET spent_index=? WHERE coin_name=? AND spent_index=0\<close>, with the rows it changed.\<close>

definition spendable :: "bytes \<Rightarrow> row \<Rightarrow> bool" where
  "spendable cname r \<longleftrightarrow> row_coin_name r = cname \<and> row_spent_index r = 0"

definition update_spent :: "int \<Rightarrow> table \<times> nat \<Rightarrow> bytes \<Rightarrow> table \<times> nat" where
  "update_spent index s cname =
     (case s of (db, n) \<Rightarrow>
        (map (\<lambda>r. if spendable cname r then r\<lparr>row_spent_index := index\<rparr> else r) db,
         n + length (filter (spendable cname) db)))"

definition set_spent :: "bytes list \<Rightarrow> int \<Rightarrow> table \<Rightarrow> table res" where
  "set_spent coin_names index db =
     rbind (rguard AssertionError (coin_names = [] \<or> index > 0)) (\<lambda>_.
     if coin_names = [] then Inr db
     else case foldl (update_spent index) (db, 0) coin_names of
            (db', rowcount) \<Rightarrow> if rowcount \<noteq> length coin_names then Inl ValueError else Inr db')"

definition new_record :: "int \<Rightarrow> int \<Rightarrow> bool \<Rightarrow> coin \<Rightarrow> coin_record" where
  "new_record height timestamp cb c =
     \<lparr>cr_coin = c, confirmed_block_index = height, spent_block_index = 0, coinbase = cb, cr_timestamp = timestamp\<rparr>"

definition new_block ::
  "(coin \<Rightarrow> bytes) \<Rightarrow> int \<Rightarrow> int \<Rightarrow> coin list \<Rightarrow> coin list \<Rightarrow> bytes list \<Rightarrow> table
     \<Rightarrow> (coin_record list \<times> table) res" where
  "new_block name height timestamp included_reward_coins tx_additions tx_removals db =
     (let additions = map (new_record height timestamp False) tx_additions in
      rbind (if height = 0 then rguard AssertionError (length included_reward_coins = 0)
             else rguard AssertionError (length included_reward_coins \<ge> 2)) (\<lambda>_.
      let additions' = additions @ map (new_record height timestamp True) included_reward_coins in
      rbind (add_coin_records name additions' db) (\<lambda>db1.
      rbind (set_spent tx_removals height db1) (\<lambda>db2.
      Inr (additions', db2)))))"

section \<open>Rolling back\<close>

definition reverted_record :: "row \<Rightarrow> coin_record res" where
  "reverted_record r =
     rbind (row_to_coin r) (\<lambda>c.
     Inr \<lparr>cr_coin = c, confirmed_block_index = 0, spent_block_index = row_spent_index r,
          coinbase = row_coinbase r, cr_timestamp = 0\<rparr>)"

definition unspent_record :: "row \<Rightarrow> coin_record res" where
  "unspent_record r =
     rbind (row_to_coin r) (\<lambda>c.
     Inr \<lparr>cr_coin = c, confirmed_block_index = row_confirmed_index r, spent_block_index = 0,
          coinbase = row_coinbase r, cr_timestamp = row_timestamp r\<rparr>)"

text \<open>The changed records are collected in a dictionary by name: a first entry for a name stays.\<close>

definition rollback_to_block ::
  "(coin \<Rightarrow> bytes) \<Rightarrow> int \<Rightarrow> table \<Rightarrow> (coin_record list \<times> table) res" where
  "rollback_to_block name block_index db =
     rbind (rmap reverted_record (filter (\<lambda>r. row_confirmed_index r > block_index) db)) (\<lambda>reverted.
     let coin_changes = foldl (\<lambda>d r. dict_set d (name (cr_coin r)) r) [] reverted;
         kept = filter (\<lambda>r. \<not> row_confirmed_index r > block_index) db
     in rbind (rmap unspent_record (filter (\<lambda>r. row_spent_index r > block_index) kept)) (\<lambda>unspent.
        let coin_changes' = foldl (\<lambda>d r. if dict_mem d (name (cr_coin r)) then d
                                          else dict_set d (name (cr_coin r)) r) coin_changes unspent
        in Inr (dict_values coin_changes',
                map (\<lambda>r. if row_spent_index r > block_index then r\<lparr>row_spent_index := 0\<rparr> else r) kept)))"

section \<open>Queries\<close>

definition num_unspent :: "table \<Rightarrow> nat" where
  "num_unspent db = length (filter (\<lambda>r. row_spent_index r = 0) db)"

definition get_coin_record :: "bytes \<Rightarrow> table \<Rightarrow> coin_record option res" where
  "get_coin_record cname db =
     (case find (\<lambda>r. row_coin_name r = cname) db of
        None \<Rightarrow> Inr None
      | Some r \<Rightarrow> rbind (row_to_record r) (\<lambda>c. Inr (Some c)))"

definition MAX_SQLITE_PARAMETERS :: nat where
  "MAX_SQLITE_PARAMETERS = 900"

text \<open>\<open>chunks\<close> of \<open>util/chunks.py\<close>.\<close>

function chunks :: "nat \<Rightarrow> 'a list \<Rightarrow> 'a list list" where
  "chunks n xs = (if xs = [] then [] else take (max 1 n) xs # chunks n (drop (max 1 n) xs))"
  by pat_completeness auto
termination
  by (relation "measure (\<lambda>(n, xs). length xs)") auto

declare chunks.simps [simp del]

definition get_coin_records :: "bytes list \<Rightarrow> table \<Rightarrow> coin_record list res" where
  "get_coin_records names db =
     rmap row_to_record
       (concat (map (\<lambda>ns. filter (\<lambda>r. row_coin_name r \<in> set ns) db) (chunks MAX_SQLITE_PARAMETERS names)))"

definition get_coins_added_at_height :: "int \<Rightarrow> table \<Rightarrow> coin_record list res" where
  "get_coins_added_at_height height db =
     rmap row_to_record (filter (\<lambda>r. row_confirmed_index r = height) db)"

definition get_coins_removed_at_height :: "int \<Rightarrow> table \<Rightarrow> coin_record list res" where
  "get_coins_removed_at_height height db =
     (if height = 0 then Inr []
      else rmap row_to_record
             (filter (\<lambda>r. row_spent_index r \<noteq> 0) (filter (\<lambda>r. row_spent_index r = height) db)))"

text \<open>
  The queries below collect their rows in a Python \<open>set\<close>, so the order of the result is not specified; the model
  gives the rows in table order, each once.
\<close>

definition in_range :: "bool \<Rightarrow> int \<Rightarrow> int \<Rightarrow> row \<Rightarrow> bool" where
  "in_range include_spent_coins start_height end_height r \<longleftrightarrow>
     row_confirmed_index r \<ge> start_height \<and> row_confirmed_index r < end_height \<and>
     (include_spent_coins \<or> row_spent_index r = 0)"

definition get_coin_records_by_puzzle_hash ::
  "bool \<Rightarrow> bytes \<Rightarrow> int \<Rightarrow> int \<Rightarrow> table \<Rightarrow> coin_record list res" where
  "get_coin_records_by_puzzle_hash include_spent_coins ph start_height end_height db =
     rbind (rmap row_to_record
              (filter (\<lambda>r. row_puzzle_hash r = ph \<and> in_range include_spent_coins start_height end_height r) db))
       (\<lambda>rs. Inr (remdups rs))"

definition get_coin_records_by_puzzle_hashes ::
  "bool \<Rightarrow> bytes list \<Rightarrow> int \<Rightarrow> int \<Rightarrow> table \<Rightarrow> coin_record list res" where
  "get_coin_records_by_puzzle_hashes include_spent_coins puzzle_hashes start_height end_height db =
     rbind (rmap row_to_record
              (filter (\<lambda>r. row_puzzle_hash r \<in> set puzzle_hashes
                           \<and> in_range include_spent_coins start_height end_height r) db))
       (\<lambda>rs. Inr (remdups rs))"

definition get_coin_records_by_names ::
  "bool \<Rightarrow> bytes list \<Rightarrow> int \<Rightarrow> int \<Rightarrow> table \<Rightarrow> coin_record list res" where
  "get_coin_records_by_names include_spent_coins names start_height end_height db =
     rbind (rmap row_to_record
              (filter (\<lambda>r. row_coin_name r \<in> set names
                           \<and> in_range include_spent_coins start_height end_height r) db))
       (\<lambda>rs. Inr (remdups rs))"

definition get_coin_records_by_parent_ids ::
  "bool \<Rightarrow> bytes list \<Rightarrow> int \<Rightarrow> int \<Rightarrow> table \<Rightarrow> coin_record list res" where
  "get_coin_records_by_parent_ids include_spent_coins parent_ids start_height end_height db =
     rbind (rmap row_to_record
              (concat (map (\<lambda>ids. filter (\<lambda>r. row_coin_parent r \<in> set ids
                                               \<and> in_range include_spent_coins start_height end_height r) db)
                 (chunks MAX_SQLITE_PARAMETERS parent_ids))))
       (\<lambda>rs. Inr (remdups rs))"

definition touched_since :: "bool \<Rightarrow> int \<Rightarrow> row \<Rightarrow> bool" where
  "touched_since include_spent_coins min_height r \<longleftrightarrow>
     (row_confirmed_index r \<ge> min_height \<or> row_spent_index r \<ge> min_height) \<and>
     (include_spent_coins \<or> row_spent_index r = 0)"

definition get_coin_states_by_puzzle_hashes ::
  "bool \<Rightarrow> bytes list \<Rightarrow> int \<Rightarrow> table \<Rightarrow> coin_state list res" where
  "get_coin_states_by_puzzle_hashes include_spent_coins puzzle_hashes min_height db =
     rbind (rmap row_to_coin_state
              (concat (map (\<lambda>phs. filter (\<lambda>r. row_puzzle_hash r \<in> set phs
                                               \<and> touched_since include_spent_coins min_height r) db)
                 (chunks MAX_SQLITE_PARAMETERS puzzle_hashes))))
       (\<lambda>rs. Inr (remdups rs))"

definition get_coin_states_by_ids ::
  "bool \<Rightarrow> bytes list \<Rightarrow> int \<Rightarrow> table \<Rightarrow> coin_state list res" where
  "get_coin_states_by_ids include_spent_coins coin_ids min_height db =
     rbind (rmap row_to_coin_state
              (concat (map (\<lambda>ids. filter (\<lambda>r. row_coin_name r \<in> set ids
                                               \<and> touched_since include_spent_coins min_height r) db)
                 (chunks MAX_SQLITE_PARAMETERS coin_ids))))
       (\<lambda>rs. Inr (remdups rs))"

section \<open>What the statements do\<close>

definition row_ok :: "(coin \<Rightarrow> bytes) \<Rightarrow> row \<Rightarrow> bool" where
  "row_ok name r \<longleftrightarrow> (case row_to_coin r of Inl _ \<Rightarrow> False | Inr c \<Rightarrow> row_coin_name r = name c)"

definition coin_ok :: "coin \<Rightarrow> bool" where
  "coin_ok c \<longleftrightarrow> length (parent_coin_info c) = 32 \<and> length (puzzle_hash c) = 32 \<and> 0 \<le> amount c \<and> amount c < 2 ^ 64"

definition mark :: "bytes set \<Rightarrow> int \<Rightarrow> row \<Rightarrow> row" where
  "mark N index r = (if row_coin_name r \<in> N \<and> row_spent_index r = 0 then r\<lparr>row_spent_index := index\<rparr> else r)"

lemma row_name_mark [simp]: "row_coin_name (mark N i r) = row_coin_name r"
  by (simp add: mark_def)

lemma names_mark [simp]: "map row_coin_name (map (mark N i) db) = map row_coin_name db"
  by (simp add: comp_def)

lemma row_to_coin_spent [simp]: "row_to_coin (r\<lparr>row_spent_index := i\<rparr>) = row_to_coin r"
  by (simp add: row_to_coin_def)

lemma row_ok_spent [simp]: "row_ok name (r\<lparr>row_spent_index := i\<rparr>) = row_ok name r"
  by (simp add: row_ok_def split: sum.splits)

lemma row_ok_mark [simp]: "row_ok name (mark N i r) = row_ok name r"
  by (simp add: mark_def)

lemma insert_rows:
  "rfold insert_row db rows = Inr db' \<longleftrightarrow>
   db' = db @ rows \<and> distinct (map row_coin_name rows) \<and>
   set (map row_coin_name rows) \<inter> set (map row_coin_name db) = {}"
  by (induction rows arbitrary: db) (auto simp: insert_row_def)

lemma count_update:
  "index \<noteq> 0 \<Longrightarrow>
   length (filter (spendable n) db) +
   length (filter (\<lambda>r. row_coin_name r \<in> N \<and> row_spent_index r = 0)
     (map (\<lambda>r. if spendable n r then r\<lparr>row_spent_index := index\<rparr> else r) db)) =
   length (filter (\<lambda>r. row_coin_name r \<in> insert n N \<and> row_spent_index r = 0) db)"
  by (induction db) (auto simp: spendable_def)

lemma foldl_update_spent:
  assumes "index \<noteq> 0"
  shows "foldl (update_spent index) (db, k) ns =
         (map (mark (set ns) index) db,
          k + length (filter (\<lambda>r. row_coin_name r \<in> set ns \<and> row_spent_index r = 0) db))"
proof (induction ns arbitrary: db k)
  case Nil
  have "mark {} index = id" by (simp add: mark_def fun_eq_iff)
  then show ?case by simp
next
  case (Cons n ns)
  have "map (mark (set ns) index) (map (\<lambda>r. if spendable n r then r\<lparr>row_spent_index := index\<rparr> else r) db) =
        map (mark (set (n # ns)) index) db"
    using assms by (auto simp: mark_def spendable_def)
  moreover have "update_spent index (db, k) n =
    (map (\<lambda>r. if spendable n r then r\<lparr>row_spent_index := index\<rparr> else r) db, k + length (filter (spendable n) db))"
    by (simp add: update_spent_def)
  ultimately show ?case
    using count_update [OF assms, of n db "set ns"] by (simp add: Cons.IH del: map_map)
qed

lemma count_unspent_names:
  assumes "distinct (map row_coin_name db)"
  shows "length (filter (\<lambda>r. row_coin_name r \<in> set ns \<and> row_spent_index r = 0) db) = length ns \<longleftrightarrow>
         distinct ns \<and> set ns \<subseteq> row_coin_name ` {r \<in> set db. row_spent_index r = 0}"
proof -
  define xs where "xs = map row_coin_name (filter (\<lambda>r. row_coin_name r \<in> set ns \<and> row_spent_index r = 0) db)"
  have d: "distinct xs" using assms by (simp add: xs_def distinct_map_filter)
  have sub: "set xs = set ns \<inter> row_coin_name ` {r \<in> set db. row_spent_index r = 0}" by (auto simp: xs_def)
  have le: "length xs \<le> card (set ns)" "card (set ns) \<le> length ns"
    using sub card_mono [of "set ns" "set xs"] distinct_card [OF d] by (auto simp: card_length)
  have "length xs = length ns \<longleftrightarrow> distinct ns \<and> set ns \<subseteq> row_coin_name ` {r \<in> set db. row_spent_index r = 0}"
  proof
    assume "length xs = length ns"
    then have "card (set xs) = card (set ns)" "card (set ns) = length ns" using le d by (auto simp: distinct_card)
    then have "set xs = set ns" "distinct ns"
      using sub card_subset_eq [of "set ns" "set xs"] by (auto intro: card_distinct)
    then show "distinct ns \<and> set ns \<subseteq> row_coin_name ` {r \<in> set db. row_spent_index r = 0}" using sub by blast
  next
    assume a: "distinct ns \<and> set ns \<subseteq> row_coin_name ` {r \<in> set db. row_spent_index r = 0}"
    then have "set xs = set ns" using sub by blast
    then show "length xs = length ns" using d a by (metis distinct_card)
  qed
  then show ?thesis by (simp add: xs_def)
qed

lemma set_spent_eq:
  assumes "distinct (map row_coin_name db)" "0 < index"
  shows "set_spent ns index db =
         (if distinct ns \<and> set ns \<subseteq> row_coin_name ` {r \<in> set db. row_spent_index r = 0}
          then Inr (map (mark (set ns) index) db) else Inl ValueError)"
proof (cases "ns = []")
  case True
  moreover have "mark {} index = id" by (simp add: mark_def fun_eq_iff)
  ultimately show ?thesis by (simp add: set_spent_def)
next
  case False
  then show ?thesis
    using count_unspent_names [OF assms(1), of ns] assms(2) by (simp add: set_spent_def foldl_update_spent)
qed

lemma record_to_row_ok:
  assumes "coin_ok (cr_coin r)" "record_to_row name r = Inr w"
  shows "row_to_record w = Inr r" "row_ok name w" "row_coin_name w = name (cr_coin r)"
    "row_confirmed_index w = confirmed_block_index r" "row_spent_index w = spent_block_index r"
proof -
  obtain a where a: "struct_bytes uint64_class (amount (cr_coin r)) = Inr a"
    and w: "w = \<lparr>row_coin_name = name (cr_coin r), row_confirmed_index = confirmed_block_index r,
          row_spent_index = spent_block_index r, row_coinbase = coinbase r,
          row_puzzle_hash = puzzle_hash (cr_coin r), row_coin_parent = parent_coin_info (cr_coin r),
          row_amount = a, row_timestamp = cr_timestamp r\<rparr>"
    using assms(2) by (auto simp: record_to_row_def rbind_eq_Inr)
  have "struct_from_bytes uint64_class a = Inr (amount (cr_coin r))"
    using uint64.struct_from_bytes_bytes [OF _ a] assms(1) by (simp add: coin_ok_def uint64_class_def)
  then have c: "row_to_coin w = Inr (cr_coin r)"
    using assms(1) by (simp add: row_to_coin_def w mk_coin_def sized_init_def coin_ok_def)
  show "row_to_record w = Inr r" using c by (simp add: row_to_record_def w)
  show "row_ok name w" using c by (simp add: row_ok_def w)
qed (use assms(2) in \<open>auto simp: record_to_row_def rbind_eq_Inr\<close>)

lemma record_to_row_total: "coin_ok (cr_coin r) \<Longrightarrow> \<exists>w. record_to_row name r = Inr w"
  using uint64.struct_bytes_total [of "amount (cr_coin r)"]
  by (auto simp: record_to_row_def coin_ok_def uint64_class_def)

section \<open>Blocks applied to the store\<close>

record store_block =
  sb_height :: int
  sb_timestamp :: int
  sb_rewards :: "coin list"
  sb_additions :: "coin list"
  sb_removals :: "bytes list"

definition apply_block :: "(coin \<Rightarrow> bytes) \<Rightarrow> table \<Rightarrow> store_block \<Rightarrow> table res" where
  "apply_block name db b =
     rbind (new_block name (sb_height b) (sb_timestamp b) (sb_rewards b) (sb_additions b) (sb_removals b) db)
       (\<lambda>(_, db'). Inr db')"

definition store_block_ok :: "store_block \<Rightarrow> bool" where
  "store_block_ok b \<longleftrightarrow> list_all coin_ok (sb_rewards b) \<and> list_all coin_ok (sb_additions b)"

text \<open>What a block that is applied does to the table: new rows at its height, marks on spent rows.\<close>

lemma new_block_cases:
  assumes "new_block name h ts rewards adds rems db = Inr (out, db')"
    and "distinct (map row_coin_name db)" and "list_all coin_ok rewards" "list_all coin_ok adds" and "0 \<le> h"
  obtains rows where "list_all2 (\<lambda>r w. record_to_row name r = Inr w) out rows"
    "out = map (new_record h ts False) adds @ map (new_record h ts True) rewards"
    "distinct (map row_coin_name (db @ rows))"
    "db' = map (mark (set rems) h) (db @ rows)"
    "distinct rems" "set rems \<subseteq> row_coin_name ` {r \<in> set (db @ rows). row_spent_index r = 0}"
    "\<forall>w \<in> set rows. row_ok name w \<and> row_confirmed_index w = h \<and> row_spent_index w = 0" "rems = [] \<or> 0 < h"
proof -
  obtain rows where out: "out = map (new_record h ts False) adds @ map (new_record h ts True) rewards"
    and rows: "rmap (record_to_row name) out = Inr rows" and ins: "rfold insert_row db rows = Inr (db @ rows)"
    and sp: "set_spent rems h (db @ rows) = Inr db'"
    using assms(1)
    by (auto simp: new_block_def add_coin_records_def rbind_eq_Inr Let_def insert_rows split: if_splits)
  have l2: "list_all2 (\<lambda>r w. record_to_row name r = Inr w) out rows" using rows by (simp add: rmap_eq_Inr)
  have d: "distinct (map row_coin_name (db @ rows))" using ins assms(2) by (auto simp: insert_rows)
  have ok: "\<forall>r \<in> set out. coin_ok (cr_coin r) \<and> confirmed_block_index r = h \<and> spent_block_index r = 0"
    using assms(3,4) by (auto simp: out new_record_def list_all_iff)
  have new: "\<forall>w \<in> set rows. row_ok name w \<and> row_confirmed_index w = h \<and> row_spent_index w = 0"
  proof
    fix w assume "w \<in> set rows"
    then obtain r where "record_to_row name r = Inr w" "r \<in> set out" using list_all2_in2 [OF l2] by blast
    then show "row_ok name w \<and> row_confirmed_index w = h \<and> row_spent_index w = 0"
      using record_to_row_ok [of r name w] ok by simp
  qed
  have pos: "rems = [] \<or> 0 < h" using sp by (auto simp: set_spent_def rbind_eq_Inr)
  have sp': "distinct rems \<and> set rems \<subseteq> row_coin_name ` {r \<in> set (db @ rows). row_spent_index r = 0} \<and>
             db' = map (mark (set rems) h) (db @ rows)"
  proof (cases "rems = []")
    case True
    then show ?thesis using sp by (auto simp: set_spent_def mark_def map_idI)
  next
    case False
    then show ?thesis using sp pos set_spent_eq [OF d, of h rems] by (auto split: if_splits)
  qed
  show ?thesis using that [OF l2 out d _ _ _ new pos] sp' by blast
qed

section \<open>Unwinding\<close>

definition unwind :: "int \<Rightarrow> table \<Rightarrow> table" where
  "unwind k db = map (\<lambda>r. if row_spent_index r > k then r\<lparr>row_spent_index := 0\<rparr> else r)
                     (filter (\<lambda>r. \<not> row_confirmed_index r > k) db)"

text \<open>The rows of a store at height \<open>k\<close>: created and spent at heights up to \<open>k\<close>, never spent before created.\<close>

definition row_upto :: "int \<Rightarrow> row \<Rightarrow> bool" where
  "row_upto k r \<longleftrightarrow> 0 \<le> row_confirmed_index r \<and> row_confirmed_index r \<le> k \<and>
     (row_spent_index r = 0 \<or> row_confirmed_index r \<le> row_spent_index r \<and> row_spent_index r \<le> k)"

definition store_ok :: "(coin \<Rightarrow> bytes) \<Rightarrow> int \<Rightarrow> table \<Rightarrow> bool" where
  "store_ok name k db \<longleftrightarrow> distinct (map row_coin_name db) \<and> list_all (row_ok name) db \<and> list_all (row_upto k) db"

lemma unwind_id:
  assumes "list_all (row_upto k) db"
  shows "unwind k db = db"
proof -
  have "filter (\<lambda>r. \<not> row_confirmed_index r > k) db = db"
    using assms by (auto simp: list_all_iff row_upto_def filter_id_conv)
  moreover have "map (\<lambda>r. if row_spent_index r > k then r\<lparr>row_spent_index := 0\<rparr> else r) db = db"
    using assms by (intro map_idI) (auto simp: list_all_iff row_upto_def)
  ultimately show ?thesis by (simp add: unwind_def)
qed

lemma unwind_append: "unwind k (xs @ ys) = unwind k xs @ unwind k ys"
  by (simp add: unwind_def)

lemma unwind_mark:
  assumes "k < h"
  shows "unwind k (map (mark N h) db) = unwind k db"
proof (induction db)
  case (Cons r db)
  have "row_confirmed_index (mark N h r) = row_confirmed_index r" by (simp add: mark_def)
  moreover have "(if row_spent_index (mark N h r) > k then (mark N h r)\<lparr>row_spent_index := 0\<rparr> else mark N h r) =
                 (if row_spent_index r > k then r\<lparr>row_spent_index := 0\<rparr> else r)"
    using assms by (auto simp: mark_def intro: sym)
  ultimately show ?case using Cons by (simp add: unwind_def)
qed (simp add: unwind_def)

lemma unwind_new_rows: "\<forall>w \<in> set rows. k < row_confirmed_index w \<Longrightarrow> unwind k rows = []"
  by (auto simp: unwind_def filter_empty_conv)

lemma unwind_upto:
  assumes "list_all (row_upto p) db" "-1 \<le> k"
  shows "list_all (row_upto k) (unwind k db)"
  using assms by (auto simp: unwind_def row_upto_def list_all_iff)

lemma apply_block_keeps:
  assumes "apply_block name db b = Inr db'" "store_block_ok b" "store_ok name p db"
    "p < sb_height b" "-1 \<le> p"
  shows "store_ok name (sb_height b) db'" and "k < sb_height b \<Longrightarrow> unwind k db' = unwind k db"
proof -
  obtain out where nb: "new_block name (sb_height b) (sb_timestamp b) (sb_rewards b) (sb_additions b) (sb_removals b) db
      = Inr (out, db')"
    using assms(1) by (auto simp: apply_block_def rbind_eq_Inr)
  have pre: "distinct (map row_coin_name db)" "list_all coin_ok (sb_rewards b)" "list_all coin_ok (sb_additions b)"
    "0 \<le> sb_height b"
    using assms(2-5) by (auto simp: store_ok_def store_block_ok_def)
  obtain rows where r: "distinct (map row_coin_name (db @ rows))"
    "db' = map (mark (set (sb_removals b)) (sb_height b)) (db @ rows)"
    "\<forall>w \<in> set rows. row_ok name w \<and> row_confirmed_index w = sb_height b \<and> row_spent_index w = 0"
    using new_block_cases [OF nb pre] by metis
  have up: "row_upto (sb_height b) (mark (set (sb_removals b)) (sb_height b) w)" if "w \<in> set (db @ rows)" for w
    using that assms(3-5) r(3) pre(4) by (force simp: store_ok_def list_all_iff row_upto_def mark_def)
  show "store_ok name (sb_height b) db'"
    unfolding store_ok_def r(2) names_mark
    using r(1,3) assms(3) up by (auto simp: list_all_iff store_ok_def)
  show "unwind k db' = unwind k db" if "k < sb_height b"
    using unwind_mark [OF that] unwind_append unwind_new_rows [of rows k] r(2,3) that by simp
qed

lemma rollback_eq:
  assumes "list_all (row_ok name) db"
  shows "\<exists>changes. rollback_to_block name k db = Inr (changes, unwind k db)"
proof -
  have ok: "\<exists>c. row_to_coin r = Inr c" if "r \<in> set db" for r
    using assms that by (cases "row_to_coin r") (auto simp: list_all_iff row_ok_def)
  have "\<exists>ys. rmap reverted_record (filter (\<lambda>r. row_confirmed_index r > k) db) = Inr ys"
    by (rule rmap_total) (auto simp: reverted_record_def dest!: ok)
  moreover have "\<exists>ys. rmap unspent_record (filter (\<lambda>r. row_spent_index r > k)
      (filter (\<lambda>r. \<not> row_confirmed_index r > k) db)) = Inr ys"
    by (rule rmap_total) (auto simp: unspent_record_def dest!: ok)
  ultimately show ?thesis by (auto simp: rollback_to_block_def unwind_def Let_def)
qed

text \<open>The store under a node: blocks are added above the peak, and a reorganisation rolls back to a lower height.\<close>

inductive store_reach :: "(coin \<Rightarrow> bytes) \<Rightarrow> int \<Rightarrow> table \<Rightarrow> bool" for name where
  empty: "store_reach name (-1) []"
| block: "store_reach name p db \<Longrightarrow> p < sb_height b \<Longrightarrow> store_block_ok b \<Longrightarrow> apply_block name db b = Inr db' \<Longrightarrow>
     store_reach name (sb_height b) db'"
| rollback: "store_reach name p db \<Longrightarrow> -1 \<le> k \<Longrightarrow> k \<le> p \<Longrightarrow> rollback_to_block name k db = Inr (changes, db') \<Longrightarrow>
     store_reach name k db'"

lemma unwind_names: "distinct (map row_coin_name db) \<Longrightarrow> distinct (map row_coin_name (unwind k db))"
proof -
  assume d: "distinct (map row_coin_name db)"
  have "map row_coin_name (unwind k db) = map row_coin_name (filter (\<lambda>r. \<not> row_confirmed_index r > k) db)"
    by (auto simp: unwind_def)
  then show ?thesis using d by (simp add: distinct_map_filter)
qed

lemma unwind_rows_ok: "list_all (row_ok name) db \<Longrightarrow> list_all (row_ok name) (unwind k db)"
  by (auto simp: unwind_def list_all_iff)

lemma store_reach_ok: "store_reach name p db \<Longrightarrow> store_ok name p db \<and> -1 \<le> p"
proof (induction rule: store_reach.induct)
  case empty
  then show ?case by (simp add: store_ok_def)
next
  case (block p db b db')
  then show ?case using apply_block_keeps(1) by force
next
  case (rollback p db k changes db')
  then have "db' = unwind k db" using rollback_eq [of name db k] by (auto simp: store_ok_def)
  then show ?case
    using rollback unwind_names unwind_rows_ok unwind_upto by (auto simp: store_ok_def)
qed

section \<open>Looking up records\<close>

lemma find_mark:
  "find (\<lambda>r. row_coin_name r = n) (map (mark N h) db) = map_option (mark N h) (find (\<lambda>r. row_coin_name r = n) db)"
  by (induction db) auto

lemma find_append: "find P (xs @ ys) = (case find P xs of Some x \<Rightarrow> Some x | None \<Rightarrow> find P ys)"
  by (induction xs) auto

lemma find_SomeD: "find P xs = Some x \<Longrightarrow> x \<in> set xs \<and> P x"
  by (induction xs) (auto split: if_splits)

lemma find_rows:
  assumes "list_all2 (\<lambda>r w. record_to_row name r = Inr w) out rows" "\<forall>r \<in> set out. coin_ok (cr_coin r)"
  shows "rel_option (\<lambda>w r. row_to_record w = Inr r) (find (\<lambda>w. row_coin_name w = n) rows)
           (find (\<lambda>r. name (cr_coin r) = n) out)"
  using assms
proof (induction rows arbitrary: out rule: list.induct)
  case (Cons w rows)
  then obtain r out' where out: "out = r # out'" "record_to_row name r = Inr w"
    "list_all2 (\<lambda>r w. record_to_row name r = Inr w) out' rows" "coin_ok (cr_coin r)"
    by (auto simp: list_all2_Cons2)
  have w: "row_to_record w = Inr r" "row_coin_name w = name (cr_coin r)"
    using record_to_row_ok [OF out(4,2)] by auto
  show ?case
    using Cons.IH [OF out(3)] Cons.prems(2) w out(1) by (cases "name (cr_coin r) = n") auto
qed simp

lemma row_to_record_mark:
  assumes "row_to_record w = Inr r" "row_spent_index w = 0 \<or> row_coin_name w \<notin> N"
  shows "row_to_record (mark N h w) = Inr (if row_coin_name w \<in> N then r\<lparr>spent_block_index := h\<rparr> else r)"
  using assms by (auto simp: row_to_record_def mark_def rbind_eq_Inr)

lemma distinct_row_eq:
  "distinct (map row_coin_name db) \<Longrightarrow> r \<in> set db \<Longrightarrow> r' \<in> set db \<Longrightarrow> row_coin_name r = row_coin_name r' \<Longrightarrow> r = r'"
  by (auto simp: distinct_map dest: inj_onD)

lemma count_marked:
  assumes "distinct (map row_coin_name db)" "distinct ns" "h \<noteq> 0"
    "set ns \<subseteq> row_coin_name ` {r \<in> set db. row_spent_index r = 0}"
  shows "num_unspent (map (mark (set ns) h) db) + length ns = num_unspent db"
proof -
  have n: "length (filter (\<lambda>r. row_coin_name r \<in> set ns \<and> row_spent_index r = 0) db) = length ns"
    using count_unspent_names [OF assms(1)] assms(2,4) by blast
  have split: "length (filter (\<lambda>r. row_spent_index r = 0) (map (mark N h) xs)) +
      length (filter (\<lambda>r. row_coin_name r \<in> N \<and> row_spent_index r = 0) xs) =
      length (filter (\<lambda>r. row_spent_index r = 0) xs)" for N xs
    using assms(3) by (induction xs) (auto simp: mark_def)
  show ?thesis using split [of "set ns" db] n unfolding num_unspent_def by linarith
qed

lemma apply_blocks_keep:
  assumes "store_ok name p d" "k \<le> p" "-1 \<le> k" "list_all store_block_ok bs" "sorted_wrt (<) (p # map sb_height bs)"
    "rfold (apply_block name) d bs = Inr d'"
  shows "store_ok name (last (p # map sb_height bs)) d' \<and> unwind k d' = unwind k d"
  using assms
proof (induction bs arbitrary: p d)
  case (Cons b bs)
  obtain e where e: "apply_block name d b = Inr e" "rfold (apply_block name) e bs = Inr d'"
    using Cons.prems(6) by (auto simp: rbind_eq_Inr)
  have st: "store_ok name (sb_height b) e" "unwind k e = unwind k d"
    using apply_block_keeps [OF e(1) _ Cons.prems(1)] Cons.prems by auto
  then show ?case using Cons.IH [OF st(1) _ _ _ _ e(2)] Cons.prems by auto
qed simp

lemma rollback_restores:
  assumes "store_ok name k db" "-1 \<le> k" "list_all store_block_ok bs" "sorted_wrt (<) (k # map sb_height bs)"
    "rfold (apply_block name) db bs = Inr db'"
  shows "\<exists>changes. rollback_to_block name k db' = Inr (changes, db)"
proof -
  have "list_all (row_ok name) db'" "unwind k db' = db"
    using apply_blocks_keep [OF assms(1) order_refl assms(2-5)] unwind_id assms(1) by (auto simp: store_ok_def)
  then show ?thesis using rollback_eq by metis
qed

lemma store_ok_mono: "store_ok name p db \<Longrightarrow> p \<le> k \<Longrightarrow> store_ok name k db"
  by (auto simp: store_ok_def list_all_iff row_upto_def)

section \<open>Properties\<close>

text \<open>C21. Reorganisation.  From any store that a node can reach at height \<open>k\<close>, applying any sequence of
  blocks above \<open>k\<close> and then rolling back to \<open>k\<close> restores the table exactly: the coins the blocks created are
  gone and the coins they spent are unspent again.\<close>

theorem rollback_undoes_blocks:
  assumes "store_reach name k db" and "list_all store_block_ok bs"
    and "sorted_wrt (<) (k # map sb_height bs)" and "rfold (apply_block name) db bs = Inr db'"
  shows "\<exists>changes. rollback_to_block name k db' = Inr (changes, db)"
  using rollback_restores [OF _ _ assms(2-4)] store_reach_ok [OF assms(1)] by blast

text \<open>The store of a node.  In every store reached by adding blocks above the peak and rolling back, coin
  names are unique, every row decodes to the coin it is named after, no row was created above the peak, and
  a spent coin was spent no earlier than it was created and no later than the peak.\<close>

lemma store_invariant:
  assumes "store_reach name p db"
  shows "store_ok name p db"
  using store_reach_ok [OF assms] by simp

text \<open>The rows a block inserts, and the block as an insertion followed by the spends.\<close>

lemma new_block_rows:
  assumes "list_all coin_ok rewards" "list_all coin_ok adds" "0 < h"
  obtains rows out where "map row_coin_name rows = map name (adds @ rewards)"
    "\<forall>w \<in> set rows. row_spent_index w = 0"
    "\<And>db rems. new_block name h ts rewards adds rems db = (if 2 \<le> length rewards then
       rbind (rfold insert_row db rows) (\<lambda>d. rbind (set_spent rems h d) (\<lambda>d'. Inr (out, d'))) else Inl AssertionError)"
proof -
  define out where "out = map (new_record h ts False) adds @ map (new_record h ts True) rewards"
  have oo: "\<forall>r \<in> set out. coin_ok (cr_coin r)" using assms by (auto simp: out_def new_record_def list_all_iff)
  obtain rows where rows: "rmap (record_to_row name) out = Inr rows"
    using rmap_total [of out "record_to_row name"] record_to_row_total oo by blast
  then have l2: "list_all2 (\<lambda>r w. record_to_row name r = Inr w) out rows" by (simp add: rmap_eq_Inr)
  have "map row_coin_name rows = map (\<lambda>r. name (cr_coin r)) out"
    using l2 oo by (induction rule: list_all2_induct) (auto dest: record_to_row_ok(3))
  moreover have "\<forall>w \<in> set rows. row_spent_index w = 0"
  proof
    fix w assume "w \<in> set rows"
    then obtain r where "r \<in> set out" "record_to_row name r = Inr w" using list_all2_in2 [OF l2] by blast
    moreover from this have "spent_block_index r = 0" by (auto simp: out_def new_record_def)
    ultimately show "row_spent_index w = 0" using record_to_row_ok(5) [of r name w] oo by simp
  qed
  moreover have "new_block name h ts rewards adds rems db = (if 2 \<le> length rewards then
       rbind (rfold insert_row db rows) (\<lambda>d. rbind (set_spent rems h d) (\<lambda>d'. Inr (out, d'))) else Inl AssertionError)"
    for db rems
    using rows assms(3) by (simp add: new_block_def add_coin_records_def out_def rbind_assoc)
  ultimately show ?thesis using that [of rows out] by (simp add: out_def new_record_def comp_def)
qed

lemma new_block_iff:
  assumes "store_reach name p db" and "p < h" and "list_all coin_ok rewards" and "list_all coin_ok adds"
    and "0 < h"
  shows "((\<exists>out db'. new_block name h ts rewards adds rems db = Inr (out, db')) \<longleftrightarrow>
     2 \<le> length rewards \<and> distinct (map name (adds @ rewards)) \<and>
     (\<forall>c. c \<in> set (adds @ rewards) \<longrightarrow> name c \<notin> set (map row_coin_name db)) \<and>
     distinct rems \<and>
     (\<forall>n. n \<in> set rems \<longrightarrow> n \<in> name ` set (adds @ rewards) \<or>
            (\<exists>r. r \<in> set db \<and> row_coin_name r = n \<and> row_spent_index r = 0))) \<and>
    (\<forall>out db'. new_block name h ts rewards adds rems db = Inr (out, db') \<longrightarrow>
       num_unspent db' + length rems = num_unspent db + length adds + length rewards)"
proof -
  have ok: "distinct (map row_coin_name db)" using store_reach_ok [OF assms(1)] by (simp add: store_ok_def)
  obtain rows out where nm: "map row_coin_name rows = map name (adds @ rewards)"
    and z: "\<forall>w \<in> set rows. row_spent_index w = 0"
    and nb: "new_block name h ts rewards adds rems db = (if 2 \<le> length rewards then
       rbind (rfold insert_row db rows) (\<lambda>d. rbind (set_spent rems h d) (\<lambda>d'. Inr (out, d'))) else Inl AssertionError)"
    using new_block_rows [OF assms(3-5)] by metis
  have new: "{r \<in> set (db @ rows). row_spent_index r = 0} = {r \<in> set db. row_spent_index r = 0} \<union> set rows"
    and "filter (\<lambda>r. row_spent_index r = 0) rows = rows" using z by (auto simp: filter_id_conv)
  then have un: "row_coin_name ` {r \<in> set (db @ rows). row_spent_index r = 0} =
      row_coin_name ` {r \<in> set db. row_spent_index r = 0} \<union> name ` set (adds @ rewards)"
    and cnt: "num_unspent (db @ rows) = num_unspent db + length adds + length rewards"
    using arg_cong [OF nm, of length] arg_cong [OF nm, of set] unfolding new image_Un
    by (simp_all add: num_unspent_def image_Un)
  let ?ins = "distinct (map name (adds @ rewards)) \<and>
     (\<forall>c. c \<in> set (adds @ rewards) \<longrightarrow> name c \<notin> set (map row_coin_name db))"
  have ins: "rfold insert_row db rows = Inr d \<longleftrightarrow> d = db @ rows \<and> ?ins" for d
  proof -
    have "set (map name (adds @ rewards)) \<inter> set (map row_coin_name db) = {} \<longleftrightarrow>
          (\<forall>c. c \<in> set (adds @ rewards) \<longrightarrow> name c \<notin> set (map row_coin_name db))"
      unfolding set_map disjoint_iff Ball_def [symmetric] by (rule ball_simps(9))
    then show ?thesis unfolding insert_rows nm by blast
  qed
  have dis: "distinct (map row_coin_name (db @ rows))" if ?ins
    using that ok ins [of "db @ rows"] unfolding insert_rows by auto
  have sp: "set_spent rems h (db @ rows) = Inr d' \<longleftrightarrow>
     d' = map (mark (set rems) h) (db @ rows) \<and> distinct rems \<and>
     (\<forall>n. n \<in> set rems \<longrightarrow> n \<in> name ` set (adds @ rewards) \<or>
            (\<exists>r. r \<in> set db \<and> row_coin_name r = n \<and> row_spent_index r = 0))" if ?ins for d'
    using set_spent_eq [OF dis [OF that] assms(5), of rems] unfolding un by (auto split: if_splits)
  have fin: "num_unspent d' + length rems = num_unspent db + length adds + length rewards"
    if "?ins" "set_spent rems h (db @ rows) = Inr d'" for d'
    using set_spent_eq [OF dis [OF that(1)] assms(5), of rems] that(2) cnt assms(5)
      count_marked [OF dis [OF that(1)], of rems h] by (auto split: if_splits)
  have step: "new_block name h ts rewards adds rems db = Inr (out', d') \<longleftrightarrow>
    2 \<le> length rewards \<and> out' = out \<and> ?ins \<and> set_spent rems h (db @ rows) = Inr d'" for out' d'
    unfolding nb using ins by (cases "2 \<le> length rewards") (simp_all only: if_True if_False rbind_eq_Inr, blast+)
  show ?thesis unfolding step using sp fin by blast
qed

text \<open>C22. Double spends.  On a reachable store, a block above the peak with well-formed coins is accepted by
  \<open>new_block\<close> exactly when its reward coins are as many as the code asserts, all its new coins have
  fresh and different names, and its removals are different names, each of an unspent coin of the store or of a
  coin the block itself creates.  An accepted block changes the number of unspent coins by its new coins
  minus its removals.\<close>

theorem new_block_accepts:
  assumes "store_reach name p db" and "p < h" and "list_all coin_ok rewards" and "list_all coin_ok adds"
    and "0 < h"
  shows "((\<exists>out db'. new_block name h ts rewards adds rems db = Inr (out, db')) \<longleftrightarrow>
     2 \<le> length rewards \<and> distinct (map name (adds @ rewards)) \<and>
     (\<forall>c. c \<in> set (adds @ rewards) \<longrightarrow> name c \<notin> set (map row_coin_name db)) \<and>
     distinct rems \<and>
     (\<forall>n. n \<in> set rems \<longrightarrow> n \<in> name ` set (adds @ rewards) \<or>
            (\<exists>r. r \<in> set db \<and> row_coin_name r = n \<and> row_spent_index r = 0))) \<and>
    (\<forall>out db'. new_block name h ts rewards adds rems db = Inr (out, db') \<longrightarrow>
       num_unspent db' + length rems = num_unspent db + length adds + length rewards)"
  using new_block_iff [OF assms] .

text \<open>Lookups after a block.  When \<open>new_block\<close> succeeds on a reachable store, looking up a name gives
  the block's own record if the block created it, and what the store held before otherwise; in both cases a
  removed coin is now spent at the height of the block, and every other coin is unchanged.\<close>

lemma new_block_lookup:
  assumes "store_reach name p db" and "p < h" and "list_all coin_ok rewards" and "list_all coin_ok adds"
    and "new_block name h ts rewards adds rems db = Inr (out, db')"
    and "get_coin_record n db = Inr old"
  shows "get_coin_record n db' =
         Inr (map_option (\<lambda>r. if n \<in> set rems then r\<lparr>spent_block_index := h\<rparr> else r)
           (case old of Some r \<Rightarrow> Some r | None \<Rightarrow> find (\<lambda>r. name (cr_coin r) = n) out))"
proof -
  have ok: "distinct (map row_coin_name db)" "0 \<le> h"
    using store_reach_ok [OF assms(1)] assms(2) by (auto simp: store_ok_def)
  obtain rows where l2: "list_all2 (\<lambda>r w. record_to_row name r = Inr w) out rows"
    and out: "out = map (new_record h ts False) adds @ map (new_record h ts True) rewards"
    and dis: "distinct (map row_coin_name (db @ rows))"
    and db': "db' = map (mark (set rems) h) (db @ rows)"
    and sub: "set rems \<subseteq> row_coin_name ` {r \<in> set (db @ rows). row_spent_index r = 0}"
    by (rule new_block_cases [OF assms(5) ok(1) assms(3,4) ok(2)]) blast
  have oo: "\<forall>r \<in> set out. coin_ok (cr_coin r)" using assms(3,4) by (auto simp: out new_record_def list_all_iff)
  let ?f = "find (\<lambda>r. row_coin_name r = n)"
  have unsp: "row_spent_index w = 0 \<or> row_coin_name w \<notin> set rems" if "w \<in> set (db @ rows)" for w
  proof (cases "row_coin_name w \<in> set rems")
    case True
    then have "row_coin_name w \<in> row_coin_name ` {r \<in> set (db @ rows). row_spent_index r = 0}" using sub by blast
    then obtain r where "r \<in> set (db @ rows)" "row_spent_index r = 0" "row_coin_name r = row_coin_name w"
      unfolding image_iff by force
    then show ?thesis using distinct_row_eq [OF dis that, of r] by simp
  qed simp
  have marked: "row_to_record (mark (set rems) h w) = Inr (if n \<in> set rems then r\<lparr>spent_block_index := h\<rparr> else r)"
    if "?f (db @ rows) = Some w" "row_to_record w = Inr r" for w r
  proof -
    have "w \<in> set (db @ rows)" "row_coin_name w = n" using find_SomeD [OF that(1)] by auto
    then show ?thesis using row_to_record_mark [OF that(2) unsp] by simp
  qed
  have rel: "rel_option (\<lambda>w r. row_to_record w = Inr r) (?f (db @ rows))
      (case old of Some r \<Rightarrow> Some r | None \<Rightarrow> find (\<lambda>r. name (cr_coin r) = n) out)"
    using assms(6) find_rows [OF l2 oo, of n]
    by (auto simp: get_coin_record_def find_append rbind_eq_Inr split: option.splits)
  show ?thesis
    using rel marked unfolding get_coin_record_def db' find_mark
    by (cases "?f (db @ rows)"; cases old) (auto simp: option_rel_Some1)
qed

section \<open>Witnesses\<close>

definition sample_coin :: "byte \<Rightarrow> coin" where
  "sample_coin i = \<lparr>parent_coin_info = replicate 32 i, puzzle_hash = replicate 32 0, amount = 5\<rparr>"

definition sample_block_1 :: store_block where
  "sample_block_1 = \<lparr>sb_height = 1, sb_timestamp = 10, sb_rewards = [sample_coin 1, sample_coin 2],
     sb_additions = [sample_coin 3], sb_removals = []\<rparr>"

definition sample_block_2 :: store_block where
  "sample_block_2 = \<lparr>sb_height = 2, sb_timestamp = 20, sb_rewards = [sample_coin 4, sample_coin 5],
     sb_additions = [sample_coin 6], sb_removals = [replicate 32 3]\<rparr>"

definition table_of :: "table res \<Rightarrow> table" where
  "table_of t = (case t of Inl _ \<Rightarrow> [] | Inr db \<Rightarrow> db)"

definition sample_store :: table where
  "sample_store = table_of (apply_block parent_coin_info [] sample_block_1)"

lemma sample_store_applied: "apply_block parent_coin_info [] sample_block_1 = Inr sample_store"
  by code_simp

lemma sample_blocks_ok: "store_block_ok sample_block_1" "store_block_ok sample_block_2"
  by code_simp+

lemma sample_store_reached: "store_reach parent_coin_info 1 sample_store"
  using store_reach.block [OF store_reach.empty _ sample_blocks_ok(1) sample_store_applied]
  by (simp add: sample_block_1_def)

theorem rollback_undoes_blocks_witness:
  "\<exists>db'. rfold (apply_block parent_coin_info) sample_store [sample_block_2] = Inr db' \<and>
         (\<exists>changes. rollback_to_block parent_coin_info 1 db' = Inr (changes, sample_store))"
proof -
  have "\<not> isl (rfold (apply_block parent_coin_info) sample_store [sample_block_2])" by code_simp
  then obtain db' where db': "rfold (apply_block parent_coin_info) sample_store [sample_block_2] = Inr db'"
    by (cases "rfold (apply_block parent_coin_info) sample_store [sample_block_2]") simp_all
  then show ?thesis
    using rollback_undoes_blocks [OF sample_store_reached _ _ db'] sample_blocks_ok(2)
    by (simp add: sample_block_2_def)
qed

lemma store_invariant_witness: "store_ok parent_coin_info 1 sample_store"
  by (rule store_invariant [OF sample_store_reached])

theorem new_block_accepts_witness:
  "num_unspent sample_store = 3 \<and>
   (\<exists>out db'. new_block parent_coin_info 2 20 [sample_coin 4, sample_coin 5] [sample_coin 6] [replicate 32 3] sample_store
      = Inr (out, db') \<and> num_unspent db' = 5)"
proof -
  let ?r = "new_block parent_coin_info 2 20 [sample_coin 4, sample_coin 5] [sample_coin 6] [replicate 32 3] sample_store"
  have n: "num_unspent sample_store = 3" by code_simp
  have "\<not> isl ?r" by code_simp
  then obtain out db' where r: "?r = Inr (out, db')" by (cases ?r) auto
  have ok: "list_all coin_ok [sample_coin 4, sample_coin 5]" "list_all coin_ok [sample_coin 6]" by code_simp+
  have "num_unspent db' + length [replicate 32 (3 :: byte)] = num_unspent sample_store + 1 + 2"
    using new_block_accepts [OF sample_store_reached _ ok, of 2 20 "[replicate 32 3]"] r by simp
  then show ?thesis using n r by simp
qed

lemma new_block_lookup_witness:
  "\<exists>out db' old. new_block parent_coin_info 2 20 [sample_coin 4, sample_coin 5] [sample_coin 6] [replicate 32 3] sample_store
      = Inr (out, db') \<and> get_coin_record (replicate 32 3) sample_store = Inr (Some old) \<and>
    get_coin_record (replicate 32 3) db' = Inr (Some (old\<lparr>spent_block_index := 2\<rparr>))"
proof -
  let ?r = "new_block parent_coin_info 2 20 [sample_coin 4, sample_coin 5] [sample_coin 6] [replicate 32 3] sample_store"
  have "\<not> isl ?r" by code_simp
  then obtain out db' where r: "?r = Inr (out, db')" by (cases ?r) auto
  have ok: "list_all coin_ok [sample_coin 4, sample_coin 5]" "list_all coin_ok [sample_coin 6]" by code_simp+
  have g: "get_coin_record (replicate 32 3) sample_store =
     Inr (Some \<lparr>cr_coin = sample_coin 3, confirmed_block_index = 1, spent_block_index = 0, coinbase = False, cr_timestamp = 10\<rparr>)"
    by code_simp
  show ?thesis using new_block_lookup [OF sample_store_reached _ ok r g] r g by auto
qed

end
