(* ===== verification/Errors.thy ===== *)
theory Errors
  imports Prelude
begin

text \<open>
  The error codes of \<open>util/errors.py\<close>.  A member of the enumeration \<open>Err\<close> is identified by its value;
  \<open>err_members\<close> lists the members in declaration order, \<open>Err(value)\<close> and \<open>Err[name]\<close> look them up and raise on
  anything that is no member.  The members the other theories use are abbreviations.
\<close>

datatype err = Err (err_value: int)

definition err_members :: "(string \<times> int) list" where
  "err_members =
     [(''DOES_NOT_EXTEND'', -1),
      (''BAD_HEADER_SIGNATURE'', -2),
      (''MISSING_FROM_STORAGE'', -3),
      (''INVALID_PROTOCOL_MESSAGE'', -4),
      (''SELF_CONNECTION'', -5),
      (''INVALID_HANDSHAKE'', -6),
      (''INVALID_ACK'', -7),
      (''INCOMPATIBLE_PROTOCOL_VERSION'', -8),
      (''DUPLICATE_CONNECTION'', -9),
      (''BLOCK_NOT_IN_BLOCKCHAIN'', -10),
      (''NO_PROOF_OF_SPACE_FOUND'', -11),
      (''PEERS_DONT_HAVE_BLOCK'', -12),
      (''MAX_INBOUND_CONNECTIONS_REACHED'', -13),
      (''UNKNOWN'', 1),
      (''INVALID_BLOCK_SOLUTION'', 2),
      (''INVALID_COIN_SOLUTION'', 3),
      (''DUPLICATE_OUTPUT'', 4),
      (''DOUBLE_SPEND'', 5),
      (''UNKNOWN_UNSPENT'', 6),
      (''BAD_AGGREGATE_SIGNATURE'', 7),
      (''WRONG_PUZZLE_HASH'', 8),
      (''BAD_FARMER_COIN_AMOUNT'', 9),
      (''INVALID_CONDITION'', 10),
      (''ASSERT_MY_COIN_ID_FAILED'', 11),
      (''ASSERT_ANNOUNCE_CONSUMED_FAILED'', 12),
      (''ASSERT_HEIGHT_RELATIVE_FAILED'', 13),
      (''ASSERT_HEIGHT_ABSOLUTE_FAILED'', 14),
      (''ASSERT_SECONDS_ABSOLUTE_FAILED'', 15),
      (''COIN_AMOUNT_EXCEEDS_MAXIMUM'', 16),
      (''SEXP_ERROR'', 17),
      (''INVALID_FEE_LOW_FEE'', 18),
      (''MEMPOOL_CONFLICT'', 19),
      (''MINTING_COIN'', 20),
      (''EXTENDS_UNKNOWN_BLOCK'', 21),
      (''COINBASE_NOT_YET_SPENDABLE'', 22),
      (''BLOCK_COST_EXCEEDS_MAX'', 23),
      (''BAD_ADDITION_ROOT'', 24),
      (''BAD_REMOVAL_ROOT'', 25),
      (''INVALID_POSPACE_HASH'', 26),
      (''INVALID_COINBASE_SIGNATURE'', 27),
      (''INVALID_PLOT_SIGNATURE'', 28),
      (''TIMESTAMP_TOO_FAR_IN_PAST'', 29),
      (''TIMESTAMP_TOO_FAR_IN_FUTURE'', 30),
      (''INVALID_TRANSACTIONS_FILTER_HASH'', 31),
      (''INVALID_POSPACE_CHALLENGE'', 32),
      (''INVALID_POSPACE'', 33),
      (''INVALID_HEIGHT'', 34),
      (''INVALID_COINBASE_AMOUNT'', 35),
      (''INVALID_MERKLE_ROOT'', 36),
      (''INVALID_BLOCK_FEE_AMOUNT'', 37),
      (''INVALID_WEIGHT'', 38),
      (''INVALID_TOTAL_ITERS'', 39),
      (''BLOCK_IS_NOT_FINISHED'', 40),
      (''INVALID_NUM_ITERATIONS'', 41),
      (''INVALID_POT'', 42),
      (''INVALID_POT_CHALLENGE'', 43),
      (''INVALID_TRANSACTIONS_GENERATOR_HASH'', 44),
      (''INVALID_POOL_TARGET'', 45),
      (''INVALID_COINBASE_PARENT'', 46),
      (''INVALID_FEES_COIN_PARENT'', 47),
      (''RESERVE_FEE_CONDITION_FAILED'', 48),
      (''NOT_BLOCK_BUT_HAS_DATA'', 49),
      (''IS_TRANSACTION_BLOCK_BUT_NO_DATA'', 50),
      (''INVALID_PREV_BLOCK_HASH'', 51),
      (''INVALID_TRANSACTIONS_INFO_HASH'', 52),
      (''INVALID_FOLIAGE_BLOCK_HASH'', 53),
      (''INVALID_REWARD_COINS'', 54),
      (''INVALID_BLOCK_COST'', 55),
      (''NO_END_OF_SLOT_INFO'', 56),
      (''INVALID_PREV_CHALLENGE_SLOT_HASH'', 57),
      (''INVALID_SUB_EPOCH_SUMMARY_HASH'', 58),
      (''NO_SUB_EPOCH_SUMMARY_HASH'', 59),
      (''SHOULD_NOT_MAKE_CHALLENGE_BLOCK'', 60),
      (''SHOULD_MAKE_CHALLENGE_BLOCK'', 61),
      (''INVALID_CHALLENGE_CHAIN_DATA'', 62),
      (''INVALID_CC_EOS_VDF'', 65),
      (''INVALID_RC_EOS_VDF'', 66),
      (''INVALID_CHALLENGE_SLOT_HASH_RC'', 67),
      (''INVALID_PRIOR_POINT_RC'', 68),
      (''INVALID_DEFICIT'', 69),
      (''INVALID_SUB_EPOCH_SUMMARY'', 70),
      (''INVALID_PREV_SUB_EPOCH_SUMMARY_HASH'', 71),
      (''INVALID_REWARD_CHAIN_HASH'', 72),
      (''INVALID_SUB_EPOCH_OVERFLOW'', 73),
      (''INVALID_NEW_DIFFICULTY'', 74),
      (''INVALID_NEW_SUB_SLOT_ITERS'', 75),
      (''INVALID_CC_SP_VDF'', 76),
      (''INVALID_RC_SP_VDF'', 77),
      (''INVALID_CC_SIGNATURE'', 78),
      (''INVALID_RC_SIGNATURE'', 79),
      (''CANNOT_MAKE_CC_BLOCK'', 80),
      (''INVALID_RC_SP_PREV_IP'', 81),
      (''INVALID_RC_IP_PREV_IP'', 82),
      (''INVALID_IS_TRANSACTION_BLOCK'', 83),
      (''INVALID_URSB_HASH'', 84),
      (''OLD_POOL_TARGET'', 85),
      (''INVALID_POOL_SIGNATURE'', 86),
      (''INVALID_FOLIAGE_BLOCK_PRESENCE'', 87),
      (''INVALID_CC_IP_VDF'', 88),
      (''INVALID_RC_IP_VDF'', 89),
      (''IP_SHOULD_BE_NONE'', 90),
      (''INVALID_REWARD_BLOCK_HASH'', 91),
      (''INVALID_MADE_NON_OVERFLOW_INFUSIONS'', 92),
      (''NO_OVERFLOWS_IN_FIRST_SUB_SLOT_NEW_EPOCH'', 93),
      (''MEMPOOL_NOT_INITIALIZED'', 94),
      (''SHOULD_NOT_HAVE_ICC'', 95),
      (''SHOULD_HAVE_ICC'', 96),
      (''INVALID_ICC_VDF'', 97),
      (''INVALID_ICC_HASH_CC'', 98),
      (''INVALID_ICC_HASH_RC'', 99),
      (''INVALID_ICC_EOS_VDF'', 100),
      (''INVALID_SP_INDEX'', 101),
      (''TOO_MANY_BLOCKS'', 102),
      (''INVALID_CC_CHALLENGE'', 103),
      (''INVALID_PREFARM'', 104),
      (''ASSERT_SECONDS_RELATIVE_FAILED'', 105),
      (''BAD_COINBASE_SIGNATURE'', 106),
      (''NO_TRANSACTIONS_WHILE_SYNCING'', 108),
      (''ALREADY_INCLUDING_TRANSACTION'', 109),
      (''INCOMPATIBLE_NETWORK_ID'', 110),
      (''PRE_SOFT_FORK_MAX_GENERATOR_SIZE'', 111),
      (''INVALID_REQUIRED_ITERS'', 112),
      (''TOO_MANY_GENERATOR_REFS'', 113),
      (''ASSERT_MY_PARENT_ID_FAILED'', 114),
      (''ASSERT_MY_PUZZLEHASH_FAILED'', 115),
      (''ASSERT_MY_AMOUNT_FAILED'', 116),
      (''GENERATOR_RUNTIME_ERROR'', 117),
      (''INVALID_COST_RESULT'', 118),
      (''INVALID_TRANSACTIONS_GENERATOR_REFS_ROOT'', 119),
      (''FUTURE_GENERATOR_REFS'', 120),
      (''GENERATOR_REF_HAS_NO_GENERATOR'', 121),
      (''DOUBLE_SPEND_IN_FORK'', 122),
      (''INVALID_FEE_TOO_CLOSE_TO_ZERO'', 123),
      (''COIN_AMOUNT_NEGATIVE'', 124),
      (''INTERNAL_PROTOCOL_ERROR'', 125),
      (''INVALID_SPEND_BUNDLE'', 126),
      (''FAILED_GETTING_GENERATOR_MULTIPROCESSING'', 127),
      (''INVALID_COMMUNITY'', 999)]"

text \<open>\<open>Err(value)\<close> and \<open>Err[name]\<close>.\<close>

definition err_of_value :: "int \<Rightarrow> err res" where
  "err_of_value v = (if v \<in> set (map snd err_members) then Inr (Err v) else Inl ValueError)"

definition err_named :: "string \<Rightarrow> err res" where
  "err_named n = (case map_of err_members n of None \<Rightarrow> Inl KeyError | Some v \<Rightarrow> Inr (Err v))"

section \<open>The members the modelled code returns\<close>

abbreviation ASSERT_HEIGHT_ABSOLUTE_FAILED :: err where "ASSERT_HEIGHT_ABSOLUTE_FAILED \<equiv> Err 14"
abbreviation ASSERT_HEIGHT_RELATIVE_FAILED :: err where "ASSERT_HEIGHT_RELATIVE_FAILED \<equiv> Err 13"
abbreviation ASSERT_SECONDS_ABSOLUTE_FAILED :: err where "ASSERT_SECONDS_ABSOLUTE_FAILED \<equiv> Err 15"
abbreviation ASSERT_SECONDS_RELATIVE_FAILED :: err where "ASSERT_SECONDS_RELATIVE_FAILED \<equiv> Err 105"
abbreviation BAD_ADDITION_ROOT :: err where "BAD_ADDITION_ROOT \<equiv> Err 24"
abbreviation BAD_REMOVAL_ROOT :: err where "BAD_REMOVAL_ROOT \<equiv> Err 25"
abbreviation BAD_AGGREGATE_SIGNATURE :: err where "BAD_AGGREGATE_SIGNATURE \<equiv> Err 7"
abbreviation BLOCK_COST_EXCEEDS_MAX :: err where "BLOCK_COST_EXCEEDS_MAX \<equiv> Err 23"
abbreviation COIN_AMOUNT_EXCEEDS_MAXIMUM :: err where "COIN_AMOUNT_EXCEEDS_MAXIMUM \<equiv> Err 16"
abbreviation COIN_AMOUNT_NEGATIVE :: err where "COIN_AMOUNT_NEGATIVE \<equiv> Err 124"
abbreviation DOUBLE_SPEND :: err where "DOUBLE_SPEND \<equiv> Err 5"
abbreviation DOUBLE_SPEND_IN_FORK :: err where "DOUBLE_SPEND_IN_FORK \<equiv> Err 122"
abbreviation DUPLICATE_OUTPUT :: err where "DUPLICATE_OUTPUT \<equiv> Err 4"
abbreviation FUTURE_GENERATOR_REFS :: err where "FUTURE_GENERATOR_REFS \<equiv> Err 120"
abbreviation GENERATOR_REF_HAS_NO_GENERATOR :: err where "GENERATOR_REF_HAS_NO_GENERATOR \<equiv> Err 121"
abbreviation GENERATOR_RUNTIME_ERROR :: err where "GENERATOR_RUNTIME_ERROR \<equiv> Err 117"
abbreviation INVALID_BLOCK_COST :: err where "INVALID_BLOCK_COST \<equiv> Err 55"
abbreviation INVALID_BLOCK_FEE_AMOUNT :: err where "INVALID_BLOCK_FEE_AMOUNT \<equiv> Err 37"
abbreviation INVALID_FEE_LOW_FEE :: err where "INVALID_FEE_LOW_FEE \<equiv> Err 18"
abbreviation INVALID_FEE_TOO_CLOSE_TO_ZERO :: err where "INVALID_FEE_TOO_CLOSE_TO_ZERO \<equiv> Err 123"
abbreviation INVALID_FOLIAGE_BLOCK_HASH :: err where "INVALID_FOLIAGE_BLOCK_HASH \<equiv> Err 53"
abbreviation INVALID_HEIGHT :: err where "INVALID_HEIGHT \<equiv> Err 34"
abbreviation INVALID_PREV_BLOCK_HASH :: err where "INVALID_PREV_BLOCK_HASH \<equiv> Err 51"
abbreviation INVALID_REWARD_COINS :: err where "INVALID_REWARD_COINS \<equiv> Err 54"
abbreviation INVALID_SPEND_BUNDLE :: err where "INVALID_SPEND_BUNDLE \<equiv> Err 126"
abbreviation INVALID_TRANSACTIONS_FILTER_HASH :: err where "INVALID_TRANSACTIONS_FILTER_HASH \<equiv> Err 31"
abbreviation INVALID_TRANSACTIONS_GENERATOR_HASH :: err where "INVALID_TRANSACTIONS_GENERATOR_HASH \<equiv> Err 44"
abbreviation INVALID_TRANSACTIONS_GENERATOR_REFS_ROOT :: err where "INVALID_TRANSACTIONS_GENERATOR_REFS_ROOT \<equiv> Err 119"
abbreviation INVALID_TRANSACTIONS_INFO_HASH :: err where "INVALID_TRANSACTIONS_INFO_HASH \<equiv> Err 52"
abbreviation IS_TRANSACTION_BLOCK_BUT_NO_DATA :: err where "IS_TRANSACTION_BLOCK_BUT_NO_DATA \<equiv> Err 50"
abbreviation MEMPOOL_CONFLICT :: err where "MEMPOOL_CONFLICT \<equiv> Err 19"
abbreviation MEMPOOL_NOT_INITIALIZED :: err where "MEMPOOL_NOT_INITIALIZED \<equiv> Err 94"
abbreviation MINTING_COIN :: err where "MINTING_COIN \<equiv> Err 20"
abbreviation NOT_BLOCK_BUT_HAS_DATA :: err where "NOT_BLOCK_BUT_HAS_DATA \<equiv> Err 49"
abbreviation RESERVE_FEE_CONDITION_FAILED :: err where "RESERVE_FEE_CONDITION_FAILED \<equiv> Err 48"
abbreviation TOO_MANY_GENERATOR_REFS :: err where "TOO_MANY_GENERATOR_REFS \<equiv> Err 113"
abbreviation UNKNOWN :: err where "UNKNOWN \<equiv> Err 1"
abbreviation UNKNOWN_UNSPENT :: err where "UNKNOWN_UNSPENT \<equiv> Err 6"
abbreviation WRONG_PUZZLE_HASH :: err where "WRONG_PUZZLE_HASH \<equiv> Err 8"
abbreviation INVALID_CC_CHALLENGE :: err where "INVALID_CC_CHALLENGE \<equiv> Err 103"
abbreviation INVALID_CC_EOS_VDF :: err where "INVALID_CC_EOS_VDF \<equiv> Err 65"
abbreviation INVALID_CC_IP_VDF :: err where "INVALID_CC_IP_VDF \<equiv> Err 88"
abbreviation INVALID_CC_SIGNATURE :: err where "INVALID_CC_SIGNATURE \<equiv> Err 78"
abbreviation INVALID_CC_SP_VDF :: err where "INVALID_CC_SP_VDF \<equiv> Err 76"
abbreviation INVALID_CHALLENGE_SLOT_HASH_RC :: err where "INVALID_CHALLENGE_SLOT_HASH_RC \<equiv> Err 67"
abbreviation INVALID_COMMUNITY :: err where "INVALID_COMMUNITY \<equiv> Err 999"
abbreviation INVALID_DEFICIT :: err where "INVALID_DEFICIT \<equiv> Err 69"
abbreviation INVALID_FOLIAGE_BLOCK_PRESENCE :: err where "INVALID_FOLIAGE_BLOCK_PRESENCE \<equiv> Err 87"
abbreviation INVALID_ICC_EOS_VDF :: err where "INVALID_ICC_EOS_VDF \<equiv> Err 100"
abbreviation INVALID_ICC_HASH_CC :: err where "INVALID_ICC_HASH_CC \<equiv> Err 98"
abbreviation INVALID_ICC_HASH_RC :: err where "INVALID_ICC_HASH_RC \<equiv> Err 99"
abbreviation INVALID_ICC_VDF :: err where "INVALID_ICC_VDF \<equiv> Err 97"
abbreviation INVALID_IS_TRANSACTION_BLOCK :: err where "INVALID_IS_TRANSACTION_BLOCK \<equiv> Err 83"
abbreviation INVALID_NEW_DIFFICULTY :: err where "INVALID_NEW_DIFFICULTY \<equiv> Err 74"
abbreviation INVALID_NEW_SUB_SLOT_ITERS :: err where "INVALID_NEW_SUB_SLOT_ITERS \<equiv> Err 75"
abbreviation INVALID_PLOT_SIGNATURE :: err where "INVALID_PLOT_SIGNATURE \<equiv> Err 28"
abbreviation INVALID_POOL_SIGNATURE :: err where "INVALID_POOL_SIGNATURE \<equiv> Err 86"
abbreviation INVALID_POOL_TARGET :: err where "INVALID_POOL_TARGET \<equiv> Err 45"
abbreviation INVALID_POSPACE :: err where "INVALID_POSPACE \<equiv> Err 33"
abbreviation INVALID_PREFARM :: err where "INVALID_PREFARM \<equiv> Err 104"
abbreviation INVALID_PREV_CHALLENGE_SLOT_HASH :: err where "INVALID_PREV_CHALLENGE_SLOT_HASH \<equiv> Err 57"
abbreviation INVALID_RC_EOS_VDF :: err where "INVALID_RC_EOS_VDF \<equiv> Err 66"
abbreviation INVALID_RC_IP_VDF :: err where "INVALID_RC_IP_VDF \<equiv> Err 89"
abbreviation INVALID_RC_SIGNATURE :: err where "INVALID_RC_SIGNATURE \<equiv> Err 79"
abbreviation INVALID_RC_SP_VDF :: err where "INVALID_RC_SP_VDF \<equiv> Err 77"
abbreviation INVALID_REQUIRED_ITERS :: err where "INVALID_REQUIRED_ITERS \<equiv> Err 112"
abbreviation INVALID_REWARD_BLOCK_HASH :: err where "INVALID_REWARD_BLOCK_HASH \<equiv> Err 91"
abbreviation INVALID_SP_INDEX :: err where "INVALID_SP_INDEX \<equiv> Err 101"
abbreviation INVALID_SUB_EPOCH_SUMMARY :: err where "INVALID_SUB_EPOCH_SUMMARY \<equiv> Err 70"
abbreviation INVALID_SUB_EPOCH_SUMMARY_HASH :: err where "INVALID_SUB_EPOCH_SUMMARY_HASH \<equiv> Err 58"
abbreviation INVALID_TOTAL_ITERS :: err where "INVALID_TOTAL_ITERS \<equiv> Err 39"
abbreviation INVALID_URSB_HASH :: err where "INVALID_URSB_HASH \<equiv> Err 84"
abbreviation INVALID_WEIGHT :: err where "INVALID_WEIGHT \<equiv> Err 38"
abbreviation NO_OVERFLOWS_IN_FIRST_SUB_SLOT_NEW_EPOCH :: err where "NO_OVERFLOWS_IN_FIRST_SUB_SLOT_NEW_EPOCH \<equiv> Err 93"
abbreviation OLD_POOL_TARGET :: err where "OLD_POOL_TARGET \<equiv> Err 85"
abbreviation SHOULD_NOT_HAVE_ICC :: err where "SHOULD_NOT_HAVE_ICC \<equiv> Err 95"
abbreviation TIMESTAMP_TOO_FAR_IN_FUTURE :: err where "TIMESTAMP_TOO_FAR_IN_FUTURE \<equiv> Err 30"
abbreviation TIMESTAMP_TOO_FAR_IN_PAST :: err where "TIMESTAMP_TOO_FAR_IN_PAST \<equiv> Err 29"
abbreviation TOO_MANY_BLOCKS :: err where "TOO_MANY_BLOCKS \<equiv> Err 102"

lemma err_values_distinct: "distinct (map snd err_members)"
  by code_simp

end
