(* ===== verification/Spends.thy ===== *)
theory Spends
  imports CoinStore Errors
begin

text \<open>
  Spend bundles and the conditions their puzzles produce: \<open>types/spend_bundle.py\<close>,
  \<open>types/spend_bundle_conditions.py\<close>, \<open>consensus/cost_calculator.py\<close>, \<open>util/generator_tools.py\<close>,
  \<open>util/condition_tools.py\<close> and the time locks of \<open>full_node/mempool_check_conditions.py\<close>.  Running a puzzle is
  the job of the CLVM, a library: its outcome, the \<open>NPCResult\<close>, is data here.
\<close>

section \<open>Conditions\<close>

record spend =
  sp_coin_id :: bytes
  sp_puzzle_hash :: bytes
  sp_height_relative :: "int option"
  sp_seconds_relative :: int
  sp_create_coin :: "(bytes \<times> int \<times> bytes option) list"
  sp_agg_sig_me :: "(bytes \<times> bytes) list"

record spend_bundle_conditions =
  sc_spends :: "spend list"
  sc_reserve_fee :: int
  sc_height_absolute :: int
  sc_seconds_absolute :: int
  sc_agg_sig_unsafe :: "(bytes \<times> bytes) list"
  sc_cost :: int

record npc_result =
  npc_error :: "int option"
  npc_conds :: "spend_bundle_conditions option"
  npc_cost :: int

text \<open>The coins one spend creates: \<open>Coin(spend.coin_id, puzzle_hash, uint64(amount))\<close>.\<close>

definition created_coins :: "spend \<Rightarrow> coin list res" where
  "created_coins s =
     rmap (\<lambda>(ph, amt, _). rbind (uint64 amt) (mk_coin (sp_coin_id s) ph)) (sp_create_coin s)"

definition additions_of_spends :: "spend list \<Rightarrow> coin list res" where
  "additions_of_spends ss = rbind (rmap created_coins ss) (\<lambda>css. Inr (concat css))"

definition additions_for_npc :: "npc_result \<Rightarrow> coin list res" where
  "additions_for_npc npc =
     (case npc_conds npc of None \<Rightarrow> Inr [] | Some conds \<Rightarrow> additions_of_spends (sc_spends conds))"

definition tx_removals_and_additions ::
  "spend_bundle_conditions option \<Rightarrow> (bytes list \<times> coin list) res" where
  "tx_removals_and_additions results =
     (case results of
        None \<Rightarrow> Inr ([], [])
      | Some conds \<Rightarrow>
          rbind (additions_of_spends (sc_spends conds)) (\<lambda>additions.
          Inr (map sp_coin_id (sc_spends conds), additions)))"

definition pkm_pairs :: "spend_bundle_conditions \<Rightarrow> bytes \<Rightarrow> (bytes list \<times> bytes list) res" where
  "pkm_pairs conditions additional_data =
     (let pairs = sc_agg_sig_unsafe conditions @
            concat (map (\<lambda>s. map (\<lambda>(pk, msg). (pk, msg @ sp_coin_id s @ additional_data)) (sp_agg_sig_me s))
                      (sc_spends conditions))
      in rbind (rmap (\<lambda>(pk, _). bytes48 pk) pairs) (\<lambda>pks. Inr (pks, map snd pairs)))"

section \<open>Time locks\<close>

definition check_spend_locks ::
  "(bytes, coin_record) dict \<Rightarrow> int \<Rightarrow> int \<Rightarrow> spend \<Rightarrow> err option res" where
  "check_spend_locks removal_coin_records prev_height timestamp s =
     rbind (dict_getitem removal_coin_records (sp_coin_id s)) (\<lambda>unspent.
     if (case sp_height_relative s of
           Some h \<Rightarrow> prev_height < confirmed_block_index unspent + h
         | None \<Rightarrow> False)
     then Inr (Some ASSERT_HEIGHT_RELATIVE_FAILED)
     else if timestamp < cr_timestamp unspent + sp_seconds_relative s
     then Inr (Some ASSERT_SECONDS_RELATIVE_FAILED)
     else Inr None)"

fun check_spends_locks ::
  "(bytes, coin_record) dict \<Rightarrow> int \<Rightarrow> int \<Rightarrow> spend list \<Rightarrow> err option res" where
  "check_spends_locks records prev_height timestamp [] = Inr None"
| "check_spends_locks records prev_height timestamp (s # ss) =
     rbind (check_spend_locks records prev_height timestamp s) (\<lambda>e.
       case e of Some x \<Rightarrow> Inr (Some x) | None \<Rightarrow> check_spends_locks records prev_height timestamp ss)"

definition mempool_check_time_locks ::
  "(bytes, coin_record) dict \<Rightarrow> spend_bundle_conditions \<Rightarrow> int \<Rightarrow> int \<Rightarrow> err option res" where
  "mempool_check_time_locks removal_coin_records bundle_conds prev_transaction_block_height timestamp =
     (if prev_transaction_block_height < sc_height_absolute bundle_conds then
        Inr (Some ASSERT_HEIGHT_ABSOLUTE_FAILED)
      else if timestamp < sc_seconds_absolute bundle_conds then Inr (Some ASSERT_SECONDS_ABSOLUTE_FAILED)
      else check_spends_locks removal_coin_records prev_transaction_block_height timestamp
             (sc_spends bundle_conds))"

section \<open>Spend bundles\<close>

record coin_spend =
  cs_spent_coin :: coin
  cs_puzzle_reveal :: bytes
  cs_solution :: bytes

record spend_bundle =
  sb_coin_spends :: "coin_spend list"
  sb_aggregated_signature :: bytes

definition sb_removals_of :: "spend_bundle \<Rightarrow> coin list" where
  "sb_removals_of sb = map cs_spent_coin (sb_coin_spends sb)"

text \<open>\<open>SpendBundle.aggregate\<close>; \<open>agg\<close> is \<open>AugSchemeMPL.aggregate\<close> of the \<open>blspy\<close> library.\<close>

definition sb_aggregate :: "(bytes list \<Rightarrow> bytes) \<Rightarrow> spend_bundle list \<Rightarrow> spend_bundle" where
  "sb_aggregate agg sbs =
     \<lparr>sb_coin_spends = concat (map sb_coin_spends sbs),
      sb_aggregated_signature = agg (map sb_aggregated_signature sbs)\<rparr>"

section \<open>Facts about the coins of a bundle\<close>

lemma additions_parent:
  assumes "additions_of_spends ss = Inr cs" "c \<in> set cs"
  shows "parent_coin_info c \<in> set (map sp_coin_id ss) \<and> coin_ok c"
proof -
  obtain css where css: "rmap created_coins ss = Inr css" "cs = concat css"
    using assms(1) by (auto simp: additions_of_spends_def rbind_eq_Inr)
  then obtain l where "l \<in> set css" "c \<in> set l" using assms(2) by auto
  then obtain s where s: "s \<in> set ss" "created_coins s = Inr l"
    using list_all2_in2 [of "\<lambda>x y. created_coins x = Inr y" ss css] css(1) by (auto simp: rmap_eq_Inr)
  then obtain x where "x \<in> set (sp_create_coin s)"
    "(case x of (ph, amt, _) \<Rightarrow> rbind (uint64 amt) (mk_coin (sp_coin_id s) ph)) = Inr c"
    using list_all2_in2 [of "\<lambda>x y. (case x of (ph, amt, _) \<Rightarrow> rbind (uint64 amt) (mk_coin (sp_coin_id s) ph)) = Inr y"
        "sp_create_coin s" l c] \<open>c \<in> set l\<close>
    by (auto simp: created_coins_def rmap_eq_Inr)
  then have "parent_coin_info c = sp_coin_id s" "coin_ok c"
    by (auto simp: rbind_eq_Inr mk_coin_def sized_init_def coin_ok_def split: prod.splits if_splits)
  then show ?thesis using s(1) by simp
qed

definition locks_met :: "(bytes, coin_record) dict \<Rightarrow> int \<Rightarrow> int \<Rightarrow> spend \<Rightarrow> bool" where
  "locks_met records h t s \<longleftrightarrow>
     (\<forall>r. dict_get records (sp_coin_id s) = Some r \<longrightarrow>
        (\<forall>n. sp_height_relative s = Some n \<longrightarrow> confirmed_block_index r + n \<le> h) \<and>
        cr_timestamp r + sp_seconds_relative s \<le> t)"

abbreviation relative_errors :: "err set" where
  "relative_errors \<equiv> {ASSERT_HEIGHT_RELATIVE_FAILED, ASSERT_SECONDS_RELATIVE_FAILED}"

lemma check_spend_locks_eq:
  "dict_mem records (sp_coin_id s) \<Longrightarrow>
   \<exists>e. check_spend_locks records h t s = Inr e \<and> (e = None \<longleftrightarrow> locks_met records h t s) \<and>
       set_option e \<subseteq> relative_errors"
  by (auto simp: check_spend_locks_def locks_met_def dict_mem_def dict_getitem_def split: option.splits)

lemma check_spends_locks_eq:
  "\<forall>s \<in> set ss. dict_mem records (sp_coin_id s) \<Longrightarrow>
   \<exists>e. check_spends_locks records h t ss = Inr e \<and> (e = None \<longleftrightarrow> (\<forall>s \<in> set ss. locks_met records h t s)) \<and>
       set_option e \<subseteq> relative_errors"
proof (induction ss)
  case (Cons s ss)
  obtain e where e: "check_spend_locks records h t s = Inr e" "e = None \<longleftrightarrow> locks_met records h t s"
    "set_option e \<subseteq> relative_errors"
    using check_spend_locks_eq [of records s h t] Cons.prems by auto
  then show ?case using Cons by (cases e) auto
qed simp

section \<open>Properties\<close>

text \<open>Time locks.  For a bundle whose spent coins all have a record, the check passes exactly when the
  previous transaction block's height and timestamp satisfy both absolute locks and, for every spend, the
  relative ones counted from the height and time at which its coin was confirmed; otherwise it reports one of
  the four lock errors.\<close>

lemma time_locks_exact:
  assumes "\<forall>s. s \<in> set (sc_spends conds) \<longrightarrow> dict_mem records (sp_coin_id s)"
  shows "(mempool_check_time_locks records conds h t = Inr None \<longleftrightarrow>
     sc_height_absolute conds \<le> h \<and> sc_seconds_absolute conds \<le> t \<and>
     (\<forall>s r. s \<in> set (sc_spends conds) \<and> dict_get records (sp_coin_id s) = Some r \<longrightarrow>
        (\<forall>n. sp_height_relative s = Some n \<longrightarrow> confirmed_block_index r + n \<le> h) \<and>
        cr_timestamp r + sp_seconds_relative s \<le> t)) \<and>
     (\<exists>e. mempool_check_time_locks records conds h t = Inr e \<and>
        e \<in> {None, Some ASSERT_HEIGHT_ABSOLUTE_FAILED, Some ASSERT_SECONDS_ABSOLUTE_FAILED,
             Some ASSERT_HEIGHT_RELATIVE_FAILED, Some ASSERT_SECONDS_RELATIVE_FAILED})"
proof -
  obtain e where e: "check_spends_locks records h t (sc_spends conds) = Inr e"
    "e = None \<longleftrightarrow> (\<forall>s \<in> set (sc_spends conds). locks_met records h t s)" "set_option e \<subseteq> relative_errors"
    using check_spends_locks_eq [of "sc_spends conds" records h t] assms by auto
  have "e \<in> {None, Some ASSERT_HEIGHT_RELATIVE_FAILED, Some ASSERT_SECONDS_RELATIVE_FAILED}"
    using e(3) by (cases e) auto
  then show ?thesis using e(1,2) unfolding mempool_check_time_locks_def locks_met_def by auto
qed

definition sample_locks :: spend_bundle_conditions where
  "sample_locks =
     \<lparr>sc_spends = [\<lparr>sp_coin_id = [1], sp_puzzle_hash = [], sp_height_relative = Some 4, sp_seconds_relative = 3,
                   sp_create_coin = [], sp_agg_sig_me = []\<rparr>],
      sc_reserve_fee = 0, sc_height_absolute = 10, sc_seconds_absolute = 0, sc_agg_sig_unsafe = [], sc_cost = 0\<rparr>"

definition sample_records :: "(bytes, coin_record) dict" where
  "sample_records =
     [([1], \<lparr>cr_coin = \<lparr>parent_coin_info = [], puzzle_hash = [], amount = 1\<rparr>, confirmed_block_index = 7,
             spent_block_index = 0, coinbase = False, cr_timestamp = 2\<rparr>)]"

lemma time_locks_exact_witness:
  "mempool_check_time_locks sample_records sample_locks 11 5 = Inr None \<and>
   mempool_check_time_locks sample_records sample_locks 10 5 \<noteq> Inr None"
  using time_locks_exact [of sample_locks sample_records 11 5] time_locks_exact [of sample_locks sample_records 10 5]
  by (auto simp: sample_locks_def sample_records_def dict_mem_def dict_get_def)

end
