(* ===== verification/Mempool.thy ===== *)
theory Mempool
  imports Spends Floats
begin

text \<open>
  \<open>full_node/mempool.py\<close>, \<open>types/mempool_item.py\<close> and \<open>full_node/pending_tx_cache.py\<close>.  The pool keeps its items
  in four dictionaries that must agree: by name, by fee rate (a \<open>SortedDict\<close> of dictionaries, keyed by the
  double \<open>fee / cost\<close>), by the coins they create and by the coins they spend.  \<open>name\<close> stands for \<open>Coin.name\<close>.
\<close>

section \<open>Items\<close>

record mempool_item =
  mi_spend_bundle :: spend_bundle
  mi_fee :: int
  mi_npc_result :: npc_result
  mi_cost :: int
  mi_spend_bundle_name :: bytes
  mi_additions :: "coin list"
  mi_removals :: "coin list"
  mi_program :: bytes

definition fee_per_cost :: "mempool_item \<Rightarrow> double res" where
  "fee_per_cost i = fl_div (mi_fee i) (mi_cost i)"

definition item_less :: "mempool_item \<Rightarrow> mempool_item \<Rightarrow> bool res" where
  "item_less i j = rbind (fee_per_cost i) (\<lambda>x. rbind (fee_per_cost j) (\<lambda>y. Inr (fl_less x y)))"

section \<open>Sorted dictionaries\<close>

text \<open>\<open>SortedDict\<close>: a dictionary whose keys are kept in increasing order.\<close>

fun sorted_set :: "(double, 'v) dict \<Rightarrow> double \<Rightarrow> 'v \<Rightarrow> (double, 'v) dict" where
  "sorted_set [] k v = [(k, v)]"
| "sorted_set ((k', v') # d) k v =
     (if k' = k then (k, v) # d
      else if fl_less k k' then (k, v) # (k', v') # d
      else (k', v') # sorted_set d k v)"

section \<open>The pool\<close>

record mempool =
  mp_spends :: "(bytes, mempool_item) dict"
  mp_sorted_spends :: "(double, (bytes, mempool_item) dict) dict"
  mp_additions :: "(bytes, mempool_item) dict"
  mp_removals :: "(bytes, mempool_item) dict"
  mp_max_size_in_cost :: int
  mp_total_mempool_cost :: int

definition new_mempool :: "int \<Rightarrow> mempool" where
  "new_mempool max_size =
     \<lparr>mp_spends = [], mp_sorted_spends = [], mp_additions = [], mp_removals = [],
      mp_max_size_in_cost = max_size, mp_total_mempool_cost = 0\<rparr>"

definition at_full_capacity :: "mempool \<Rightarrow> int \<Rightarrow> bool" where
  "at_full_capacity p cost = (mp_total_mempool_cost p + cost > mp_max_size_in_cost p)"

text \<open>The two nested loops of \<open>get_min_fee_rate\<close>, over the items in increasing fee rate.\<close>

fun min_fee_rate_from :: "int \<Rightarrow> int \<Rightarrow> int \<Rightarrow> (double \<times> mempool_item) list \<Rightarrow> double res" where
  "min_fee_rate_from cost max_size current_cost [] = Inl ValueError"
| "min_fee_rate_from cost max_size current_cost ((fpc, item) # rest) =
     (let current_cost' = current_cost - mi_cost item in
      if current_cost' + cost \<le> max_size then Inr fpc
      else min_fee_rate_from cost max_size current_cost' rest)"

definition sorted_items :: "mempool \<Rightarrow> (double \<times> mempool_item) list" where
  "sorted_items p = concat (map (\<lambda>(fpc, d). map (Pair fpc) (dict_values d)) (mp_sorted_spends p))"

definition get_min_fee_rate :: "mempool \<Rightarrow> int \<Rightarrow> double res" where
  "get_min_fee_rate p cost =
     (if at_full_capacity p cost then
        min_fee_rate_from cost (mp_max_size_in_cost p) (mp_total_mempool_cost p) (sorted_items p)
      else Inr (Double 0 0))"

definition remove_from_pool :: "(coin \<Rightarrow> bytes) \<Rightarrow> mempool \<Rightarrow> mempool_item \<Rightarrow> mempool res" where
  "remove_from_pool name p item =
     rbind (rfold dict_del (mp_removals p) (map name (mi_removals item))) (\<lambda>rems.
     rbind (rfold dict_del (mp_additions p) (map name (mi_additions item))) (\<lambda>adds.
     rbind (dict_del (mp_spends p) (mi_spend_bundle_name item)) (\<lambda>sps.
     rbind (fee_per_cost item) (\<lambda>fpc.
     rbind (dict_getitem (mp_sorted_spends p) fpc) (\<lambda>d.
     rbind (dict_del d (mi_spend_bundle_name item)) (\<lambda>d'.
     let ss = sorted_set (mp_sorted_spends p) fpc d';
         ss' = (if length (dict_values d') = 0 then dict_pop ss fpc else ss);
         total = mp_total_mempool_cost p - mi_cost item
     in rbind (rguard AssertionError (total \<ge> 0)) (\<lambda>_.
        Inr (p\<lparr>mp_removals := rems, mp_additions := adds, mp_spends := sps, mp_sorted_spends := ss',
               mp_total_mempool_cost := total\<rparr>))))))))"

text \<open>The body of the eviction loop: the first item of the lowest fee rate goes.\<close>

definition evict_step :: "(coin \<Rightarrow> bytes) \<Rightarrow> mempool \<Rightarrow> mempool res" where
  "evict_step name p =
     rbind (py_index (mp_sorted_spends p) 0) (\<lambda>(fpc, val).
     rbind (py_index (dict_values val) 0) (\<lambda>to_remove.
     remove_from_pool name p to_remove))"

definition insert_item :: "(coin \<Rightarrow> bytes) \<Rightarrow> mempool \<Rightarrow> mempool_item \<Rightarrow> mempool res" where
  "insert_item name p item =
     rbind (fee_per_cost item) (\<lambda>fpc.
     let bucket = (case dict_get (mp_sorted_spends p) fpc of Some d \<Rightarrow> d | None \<Rightarrow> []) in
     Inr (p\<lparr>mp_spends := dict_set (mp_spends p) (mi_spend_bundle_name item) item,
            mp_sorted_spends := sorted_set (mp_sorted_spends p) fpc
                                  (dict_set bucket (mi_spend_bundle_name item) item),
            mp_additions := foldl (\<lambda>d a. dict_set d (name a) item) (mp_additions p) (mi_additions item),
            mp_removals := foldl (\<lambda>d c. dict_set d (name c) item) (mp_removals p) (mi_removals item),
            mp_total_mempool_cost := mp_total_mempool_cost p + mi_cost item\<rparr>))"

definition add_to_pool :: "(coin \<Rightarrow> bytes) \<Rightarrow> mempool \<Rightarrow> mempool_item \<Rightarrow> mempool res" where
  "add_to_pool name p item =
     rbind (loop_while (\<lambda>p. at_full_capacity p (mi_cost item)) (evict_step name) p) (\<lambda>p'.
     insert_item name p' item)"

section \<open>The cache of pending transactions\<close>

record pending_tx_cache =
  pc_max_total_cost :: int
  pc_cost :: int
  pc_txs :: "(bytes, mempool_item) dict"

definition new_pending_tx_cache :: "int \<Rightarrow> pending_tx_cache" where
  "new_pending_tx_cache cost_limit = \<lparr>pc_max_total_cost = cost_limit, pc_cost = 0, pc_txs = []\<rparr>"

definition pending_drop_step :: "pending_tx_cache \<Rightarrow> pending_tx_cache res" where
  "pending_drop_step c =
     rbind (py_index (dict_keys (pc_txs c)) 0) (\<lambda>first_in.
     rbind (dict_getitem (pc_txs c) first_in) (\<lambda>i.
     Inr (c\<lparr>pc_cost := pc_cost c - mi_cost i, pc_txs := dict_pop (pc_txs c) first_in\<rparr>)))"

definition pending_add :: "pending_tx_cache \<Rightarrow> mempool_item \<Rightarrow> pending_tx_cache res" where
  "pending_add c item =
     (if dict_mem (pc_txs c) (mi_spend_bundle_name item) then Inr c
      else loop_while (\<lambda>c. pc_cost c > pc_max_total_cost c) pending_drop_step
             (c\<lparr>pc_txs := dict_set (pc_txs c) (mi_spend_bundle_name item) item,
                pc_cost := pc_cost c + mi_cost item\<rparr>))"

definition pending_drain :: "pending_tx_cache \<Rightarrow> (bytes, mempool_item) dict \<times> pending_tx_cache" where
  "pending_drain c = (pc_txs c, c\<lparr>pc_txs := [], pc_cost := 0\<rparr>)"

section \<open>Dictionary lemmas\<close>

lemma dict_del_eq: "dict_mem d k \<Longrightarrow> dict_del d k = Inr (dict_pop d k)"
  by (simp add: dict_del_def)

lemma del_all:
  assumes "distinct ks" "\<forall>k \<in> set ks. dict_mem d k"
  shows "\<exists>d'. rfold dict_del d ks = Inr d' \<and>
              (\<forall>k. dict_get d' k = (if k \<in> set ks then None else dict_get d k)) \<and> (dict_ok d \<longrightarrow> dict_ok d')"
  using assms
proof (induction ks arbitrary: d)
  case (Cons k ks)
  have "\<forall>k' \<in> set ks. dict_mem (dict_pop d k) k'" using Cons.prems by auto
  from Cons.IH [OF _ this] obtain d' where "rfold dict_del (dict_pop d k) ks = Inr d'"
    "\<forall>k'. dict_get d' k' = (if k' \<in> set ks then None else dict_get (dict_pop d k) k')"
    "dict_ok (dict_pop d k) \<longrightarrow> dict_ok d'" using Cons.prems by auto
  then show ?case using Cons.prems by (auto simp: dict_del_eq dict_simps dict.ok_pop)
qed simp

lemma set_all:
  "dict_get (foldl (\<lambda>d a. dict_set d (f a) v) d xs) k = (if k \<in> f ` set xs then Some v else dict_get d k)"
  by (induction xs arbitrary: d) (auto simp: dict_simps)

lemma sorted_get: "dict_get (sorted_set d k v) k' = (if k' = k then Some v else dict_get d k')"
  by (induction d k v rule: sorted_set.induct) (auto simp: dict_get_def)

text \<open>Keys in increasing order; on normal doubles this makes them different.\<close>

definition keys_sorted :: "(double, 'v) dict \<Rightarrow> bool" where
  "keys_sorted d \<longleftrightarrow> list_all fl_normal (dict_keys d) \<and> sorted_wrt fl_less (dict_keys d)"

lemma sorted_keys: "set (dict_keys (sorted_set d k v)) = insert k (set (dict_keys d))"
  by (induction d k v rule: sorted_set.induct) (auto simp: dict_keys_def)

lemma keys_sorted_ok: "keys_sorted d \<Longrightarrow> dict_ok d"
proof (induction d)
  case (Cons p d)
  then have "fst p \<notin> fst ` set d"
    using fl_less_irrefl [of "fst p"] by (force simp: keys_sorted_def dict_keys_def list_all_iff)
  then show ?case using Cons by (auto simp: keys_sorted_def dict_keys_def dict_ok_def)
qed (simp add: dict_ok_def dict_keys_def)

lemma keys_sorted_set: "keys_sorted d \<Longrightarrow> fl_normal k \<Longrightarrow> keys_sorted (sorted_set d k v)"
proof (induction d k v rule: sorted_set.induct)
  case (2 k' v' d k v)
  have tl: "keys_sorted d" and k': "fl_normal k'" and lt: "\<forall>x \<in> set (dict_keys d). fl_less k' x"
    using 2(2) by (auto simp: keys_sorted_def dict_keys_def)
  consider "k' = k" | "k' \<noteq> k" "fl_less k k'" | "k' \<noteq> k" "\<not> fl_less k k'" by blast
  then show ?case
  proof cases
    case 1
    then show ?thesis using 2(2) by (simp add: keys_sorted_def dict_keys_def)
  next
    case 2
    have "\<forall>x \<in> set (dict_keys d). fl_less k x"
      using 2 lt fl_less_trans [OF \<open>fl_normal k\<close> k'] tl by (auto simp: keys_sorted_def list_all_iff)
    then show ?thesis using 2 \<open>fl_normal k\<close> \<open>keys_sorted ((k', v') # d)\<close> by (auto simp: keys_sorted_def dict_keys_def)
  next
    case 3
    then have "fl_less k' k" using fl_less_linear [OF k' \<open>fl_normal k\<close>] by blast
    moreover have "keys_sorted (sorted_set d k v)" using 2(1) 3 tl \<open>fl_normal k\<close> by blast
    ultimately show ?thesis
      using 3 k' lt sorted_keys [of d k v] by (auto simp: keys_sorted_def dict_keys_def)
  qed
qed (simp add: keys_sorted_def dict_keys_def)

lemma keys_sorted_pop: "keys_sorted d \<Longrightarrow> keys_sorted (dict_pop d k)"
proof -
  assume *: "keys_sorted d"
  have "dict_keys (dict_pop d k) = filter (\<lambda>x. x \<noteq> k) (dict_keys d)"
    by (simp add: dict_keys_def dict_pop_def filter_map comp_def)
  then show ?thesis using * by (auto simp: keys_sorted_def list_all_iff intro: sorted_wrt_filter)
qed

lemma sum_pop:
  assumes "dict_ok d" "dict_get d k = Some i"
  shows "sum_list (map f (dict_values (dict_pop d k))) = sum_list (map f (dict_values d)) - (f i :: int)"
  using assms
proof (induction d)
  case (Cons p d)
  show ?case
  proof (cases "fst p = k")
    case True
    then have "k \<notin> fst ` set d" using Cons.prems by (auto simp: dict_ok_def dict_keys_def)
    then have "dict_pop d k = d" by (auto simp: dict_pop_def filter_id_conv image_iff)
    then show ?thesis using True Cons.prems by (cases p) (auto simp: dict_pop_def dict_values_def dict_get_def)
  next
    case False
    then show ?thesis
      using Cons by (cases p) (auto simp: dict_pop_def dict_values_def dict_get_def dict_ok_def dict_keys_def)
  qed
qed (simp add: dict_get_def)

section \<open>The invariant of the pool\<close>

abbreviation item_name :: "mempool_item \<Rightarrow> bytes" where
  "item_name \<equiv> mi_spend_bundle_name"

definition item_ok :: "(coin \<Rightarrow> bytes) \<Rightarrow> mempool_item \<Rightarrow> bool" where
  "item_ok name i \<longleftrightarrow> 0 < mi_cost i \<and> 0 \<le> mi_fee i \<and>
     distinct (map name (mi_removals i)) \<and> distinct (map name (mi_additions i))"

definition in_pool :: "mempool \<Rightarrow> mempool_item \<Rightarrow> bool" where
  "in_pool p i \<longleftrightarrow> dict_get (mp_spends p) (item_name i) = Some i"

text \<open>An index from coin names to the items that touch them.\<close>

definition index_ok :: "mempool \<Rightarrow> (bytes, mempool_item) dict \<Rightarrow> (mempool_item \<Rightarrow> bytes set) \<Rightarrow> bool" where
  "index_ok p d f \<longleftrightarrow> (\<forall>c i. dict_get d c = Some i \<longleftrightarrow> in_pool p i \<and> c \<in> f i)"

definition rem_names :: "(coin \<Rightarrow> bytes) \<Rightarrow> mempool_item \<Rightarrow> bytes set" where
  "rem_names name i = name ` set (mi_removals i)"

definition add_names :: "(coin \<Rightarrow> bytes) \<Rightarrow> mempool_item \<Rightarrow> bytes set" where
  "add_names name i = name ` set (mi_additions i)"

definition by_fee :: "mempool \<Rightarrow> double \<Rightarrow> bytes \<Rightarrow> mempool_item option" where
  "by_fee p f n = (case dict_get (mp_sorted_spends p) f of None \<Rightarrow> None | Some d \<Rightarrow> dict_get d n)"

definition sorted_spends_ok :: "mempool \<Rightarrow> bool" where
  "sorted_spends_ok p \<longleftrightarrow> keys_sorted (mp_sorted_spends p) \<and>
     (\<forall>f d. dict_get (mp_sorted_spends p) f = Some d \<longrightarrow> d \<noteq> [] \<and> dict_ok d) \<and>
     (\<forall>f n i. by_fee p f n = Some i \<longleftrightarrow> in_pool p i \<and> item_name i = n \<and> fee_per_cost i = Inr f)"

definition pool_ok :: "(coin \<Rightarrow> bytes) \<Rightarrow> mempool \<Rightarrow> bool" where
  "pool_ok name p \<longleftrightarrow>
     dict_ok (mp_spends p) \<and> (\<forall>n i. dict_get (mp_spends p) n = Some i \<longrightarrow> item_name i = n \<and> item_ok name i) \<and>
     mp_total_mempool_cost p = sum_list (map mi_cost (dict_values (mp_spends p))) \<and>
     mp_total_mempool_cost p \<le> mp_max_size_in_cost p \<and>
     index_ok p (mp_removals p) (rem_names name) \<and> index_ok p (mp_additions p) (add_names name) \<and>
     sorted_spends_ok p"

lemma new_mempool_ok: "0 \<le> m \<Longrightarrow> pool_ok name (new_mempool m)"
  by (simp add: pool_ok_def new_mempool_def index_ok_def in_pool_def sorted_spends_ok_def by_fee_def
      keys_sorted_def dict_ok_def dict_keys_def dict_get_def dict_values_def)

lemma fee_per_cost_ok: "item_ok name i \<Longrightarrow> \<exists>f. fee_per_cost i = Inr f \<and> fl_normal f"
  using fl_ratio_normal [of "mi_fee i" "mi_cost i"] by (auto simp: fee_per_cost_def fl_div_def item_ok_def)

lemma costs_nonneg:
  assumes "pool_ok name p" "in_pool p i"
  shows "mi_cost i \<le> mp_total_mempool_cost p"
proof -
  have "i \<in> set (dict_values (mp_spends p))"
    using assms(2) by (force simp: in_pool_def dict_get_def dict_values_def dest: map_of_SomeD)
  moreover have "\<forall>j \<in> set (dict_values (mp_spends p)). 0 \<le> mi_cost j"
    using assms(1) dict_get_iff [of "mp_spends p"] unfolding pool_ok_def item_ok_def dict_values_def by force
  ultimately have "mi_cost i \<le> sum_list (map mi_cost (dict_values (mp_spends p)))"
    by (intro member_le_sum_list) (auto simp: image_iff)
  then show ?thesis using assms(1) by (simp add: pool_ok_def)
qed

section \<open>Removing an item\<close>

lemma index_remove:
  assumes "index_ok p d f" "in_pool p i"
    and "\<forall>c. dict_get d' c = (if c \<in> f i then None else dict_get d c)"
    and "\<forall>j. in_pool p' j \<longleftrightarrow> in_pool p j \<and> j \<noteq> i"
  shows "index_ok p' d' f"
  using assms unfolding index_ok_def by (metis option.distinct(1) option.inject)

lemma index_mem: "index_ok p d f \<Longrightarrow> in_pool p i \<Longrightarrow> \<forall>c \<in> f i. dict_mem d c"
  unfolding index_ok_def dict_mem_def by (metis option.distinct(1))

lemma sorted_remove:
  assumes "sorted_spends_ok p" "in_pool p i" "fee_per_cost i = Inr f" "fl_normal f"
    and "dict_get (mp_sorted_spends p) f = Some d"
    and ss: "mp_sorted_spends p' = (if dict_pop d (item_name i) = [] then dict_pop (sorted_set (mp_sorted_spends p) f []) f
                 else sorted_set (mp_sorted_spends p) f (dict_pop d (item_name i)))"
    and "\<forall>j. in_pool p' j \<longleftrightarrow> in_pool p j \<and> j \<noteq> i"
    and uniq: "\<And>j. in_pool p j \<Longrightarrow> item_name j = item_name i \<Longrightarrow> j = i"
  shows "sorted_spends_ok p'"
proof -
  have keys: "keys_sorted (mp_sorted_spends p')"
    using assms(1,4) unfolding ss sorted_spends_ok_def by (simp add: keys_sorted_set keys_sorted_pop)
  have get: "dict_get (mp_sorted_spends p') g =
      (if g = f then if dict_pop d (item_name i) = [] then None else Some (dict_pop d (item_name i))
       else dict_get (mp_sorted_spends p) g)" for g
    unfolding ss by (simp add: dict_simps sorted_get)
  have "by_fee p' g n = (if g = f \<and> n = item_name i then None else by_fee p g n)" for g n
    using assms(5) dict.get_pop [of d "item_name i" n]
    by (cases "dict_pop d (item_name i) = []") (auto simp: by_fee_def get dict.get_empty split: if_splits)
  moreover have "by_fee p g n = Some j \<longleftrightarrow> in_pool p j \<and> item_name j = n \<and> fee_per_cost j = Inr g" for g n j
    using assms(1) unfolding sorted_spends_ok_def by blast
  ultimately have bf: "by_fee p' g n = Some j \<longleftrightarrow> in_pool p' j \<and> item_name j = n \<and> fee_per_cost j = Inr g" for g n j
    using assms(2,3,7) uniq [of j] by auto
  have "d' \<noteq> [] \<and> dict_ok d'" if "dict_get (mp_sorted_spends p') g = Some d'" for g d'
    using that assms(1,5) unfolding get sorted_spends_ok_def by (auto simp: dict.ok_pop split: if_splits)
  then show ?thesis using keys bf unfolding sorted_spends_ok_def by blast
qed

lemma pool_unique: "pool_ok name p \<Longrightarrow> in_pool p i \<Longrightarrow> in_pool p j \<Longrightarrow> item_name i = item_name j \<Longrightarrow> i = j"
  by (simp add: in_pool_def)

lemma except_iff: "A' = (n \<noteq> m \<and> A) \<Longrightarrow> (A \<Longrightarrow> m = n \<Longrightarrow> i = j) \<Longrightarrow> (j = i \<Longrightarrow> n = m) \<Longrightarrow> A' = (A \<and> j \<noteq> i)"
  by auto

lemma remove_from_pool_ok:
  assumes ok: "pool_ok name p" and i: "in_pool p i"
  shows "\<exists>p'. remove_from_pool name p i = Inr p' \<and> pool_ok name p' \<and> (\<forall>j. in_pool p' j \<longleftrightarrow> in_pool p j \<and> j \<noteq> i) \<and>
              mp_max_size_in_cost p' = mp_max_size_in_cost p \<and>
              mp_total_mempool_cost p' = mp_total_mempool_cost p - mi_cost i \<and>
              mp_spends p' = dict_pop (mp_spends p) (item_name i)"
proof -
  have totals: "dict_ok (mp_spends p)" "mp_total_mempool_cost p = sum_list (map mi_cost (dict_values (mp_spends p)))"
      "mp_total_mempool_cost p \<le> mp_max_size_in_cost p"
    and items: "\<forall>n j. dict_get (mp_spends p) n = Some j \<longrightarrow> item_name j = n \<and> item_ok name j"
    using ok unfolding pool_ok_def by blast+
  have io: "item_ok name i" using items i unfolding in_pool_def by blast
  have ri: "index_ok p (mp_removals p) (rem_names name)" and ai: "index_ok p (mp_additions p) (add_names name)"
    and so: "sorted_spends_ok p" using ok by (auto simp: pool_ok_def)
  obtain f where f: "fee_per_cost i = Inr f" "fl_normal f" using fee_per_cost_ok [OF io] by blast
  have "\<forall>k \<in> set (map name (mi_removals i)). dict_mem (mp_removals p) k"
    using index_mem [OF ri i] by (simp add: rem_names_def)
  then obtain rems where rems: "rfold dict_del (mp_removals p) (map name (mi_removals i)) = Inr rems"
    "\<forall>c. dict_get rems c = (if c \<in> rem_names name i then None else dict_get (mp_removals p) c)"
    using del_all [of "map name (mi_removals i)" "mp_removals p"] io by (auto simp: item_ok_def rem_names_def)
  have "\<forall>k \<in> set (map name (mi_additions i)). dict_mem (mp_additions p) k"
    using index_mem [OF ai i] by (simp add: add_names_def)
  then obtain adds where adds: "rfold dict_del (mp_additions p) (map name (mi_additions i)) = Inr adds"
    "\<forall>c. dict_get adds c = (if c \<in> add_names name i then None else dict_get (mp_additions p) c)"
    using del_all [of "map name (mi_additions i)" "mp_additions p"] io by (auto simp: item_ok_def add_names_def)
  have "by_fee p f (item_name i) = Some i" using so i f by (auto simp: sorted_spends_ok_def)
  then obtain d where d: "dict_get (mp_sorted_spends p) f = Some d" "dict_get d (item_name i) = Some i"
    by (auto simp: by_fee_def split: option.splits)
  define p' where "p' = p\<lparr>mp_removals := rems, mp_additions := adds, mp_spends := dict_pop (mp_spends p) (item_name i),
     mp_sorted_spends := (if dict_pop d (item_name i) = [] then dict_pop (sorted_set (mp_sorted_spends p) f []) f
                 else sorted_set (mp_sorted_spends p) f (dict_pop d (item_name i))),
     mp_total_mempool_cost := mp_total_mempool_cost p - mi_cost i\<rparr>"
  have pos: "0 \<le> mp_total_mempool_cost p - mi_cost i" using costs_nonneg [OF ok i] by simp
  have dels: "dict_del (mp_spends p) (item_name i) = Inr (dict_pop (mp_spends p) (item_name i))"
    "dict_getitem (mp_sorted_spends p) f = Inr d" "dict_del d (item_name i) = Inr (dict_pop d (item_name i))"
    using i d by (simp_all add: dict_del_def dict_mem_def in_pool_def dict_getitem_def)
  have "remove_from_pool name p i = Inr p'"
    using pos unfolding remove_from_pool_def rems(1) adds(1) rbind_simps dels f(1) Let_def
    by (simp add: p'_def dict_values_def)
  moreover have mem: "\<forall>j. in_pool p' j \<longleftrightarrow> in_pool p j \<and> j \<noteq> i"
  proof
    fix j
    have "dict_get (mp_spends p') (item_name j) = (if item_name j = item_name i then None
      else dict_get (mp_spends p) (item_name j))" by (simp add: p'_def dict_simps)
    then have "in_pool p' j \<longleftrightarrow> item_name j \<noteq> item_name i \<and> in_pool p j" by (simp add: in_pool_def)
    then show "in_pool p' j \<longleftrightarrow> in_pool p j \<and> j \<noteq> i"
      by (rule except_iff) (rule pool_unique [OF ok i], assumption+, erule arg_cong)
  qed
  moreover have "pool_ok name p'"
    unfolding pool_ok_def
  proof (intro conjI)
    show "index_ok p' (mp_removals p') (rem_names name)"
      using index_remove [OF ri i rems(2) mem] by (simp add: p'_def)
    show "index_ok p' (mp_additions p') (add_names name)"
      using index_remove [OF ai i adds(2) mem] by (simp add: p'_def)
    show "sorted_spends_ok p'"
    proof (rule sorted_remove [OF so i f d(1) _ mem])
      show "mp_sorted_spends p' = (if dict_pop d (item_name i) = [] then dict_pop (sorted_set (mp_sorted_spends p) f []) f
          else sorted_set (mp_sorted_spends p) f (dict_pop d (item_name i)))" by (simp add: p'_def)
    qed (rule pool_unique [OF ok _ i])
    show "mp_total_mempool_cost p' = sum_list (map mi_cost (dict_values (mp_spends p')))"
      using totals sum_pop [of "mp_spends p" "item_name i" i mi_cost] i by (simp add: p'_def in_pool_def)
    show "dict_ok (mp_spends p')" using totals by (simp add: p'_def dict.ok_pop)
    show "mp_total_mempool_cost p' \<le> mp_max_size_in_cost p'" using totals io by (simp add: p'_def item_ok_def)
    show "\<forall>n j. dict_get (mp_spends p') n = Some j \<longrightarrow> item_name j = n \<and> item_ok name j"
      using items by (simp add: p'_def dict_simps)
  qed
  moreover have "mp_max_size_in_cost p' = mp_max_size_in_cost p"
    "mp_total_mempool_cost p' = mp_total_mempool_cost p - mi_cost i"
    "mp_spends p' = dict_pop (mp_spends p) (item_name i)" by (simp_all add: p'_def)
  ultimately show ?thesis by blast
qed

section \<open>Adding an item\<close>

lemma index_insert:
  assumes "index_ok p d f" "\<not> in_pool p i" "\<forall>j. in_pool p j \<longrightarrow> f j \<inter> f i = {}"
    and "\<forall>c. dict_get d' c = (if c \<in> f i then Some i else dict_get d c)"
    and "\<forall>j. in_pool p' j \<longleftrightarrow> in_pool p j \<or> j = i"
  shows "index_ok p' d' f"
  using assms unfolding index_ok_def by (metis disjoint_iff option.inject)

lemma sorted_insert:
  assumes so: "sorted_spends_ok p" and f: "fee_per_cost i = Inr f" "fl_normal f"
    and fresh: "\<And>j. in_pool p j \<Longrightarrow> item_name j \<noteq> item_name i"
    and ss: "mp_sorted_spends p' = sorted_set (mp_sorted_spends p) f
        (dict_set (case dict_get (mp_sorted_spends p) f of Some d \<Rightarrow> d | None \<Rightarrow> []) (item_name i) i)"
    and mem: "\<forall>j. in_pool p' j \<longleftrightarrow> in_pool p j \<or> j = i"
  shows "sorted_spends_ok p'"
proof -
  let ?b = "case dict_get (mp_sorted_spends p) f of Some d \<Rightarrow> d | None \<Rightarrow> []"
  have keys: "keys_sorted (mp_sorted_spends p')"
    using so f unfolding ss sorted_spends_ok_def by (simp add: keys_sorted_set)
  have get: "dict_get (mp_sorted_spends p') g =
      (if g = f then Some (dict_set ?b (item_name i) i) else dict_get (mp_sorted_spends p) g)" for g
    unfolding ss by (simp add: sorted_get)
  have "by_fee p' g n = (if g = f \<and> n = item_name i then Some i else by_fee p g n)" for g n
    by (auto simp: by_fee_def get dict_simps split: option.splits)
  moreover have "by_fee p g n = Some j \<longleftrightarrow> in_pool p j \<and> item_name j = n \<and> fee_per_cost j = Inr g" for g n j
    using so unfolding sorted_spends_ok_def by blast
  ultimately have bf: "by_fee p' g n = Some j \<longleftrightarrow> in_pool p' j \<and> item_name j = n \<and> fee_per_cost j = Inr g" for g n j
    using f mem fresh [of j] by auto
  have bok: "dict_ok ?b"
    using so by (auto simp: sorted_spends_ok_def dict_ok_def dict_keys_def split: option.splits)
  have "dict_set b k v \<noteq> []" for b :: "(bytes, mempool_item) dict" and k v
    by (cases b) (auto split: if_splits)
  then have "d' \<noteq> [] \<and> dict_ok d'" if "dict_get (mp_sorted_spends p') g = Some d'" for g d'
    using that so dict.ok_set [OF bok] unfolding get sorted_spends_ok_def by (auto split: if_splits)
  then show ?thesis using keys bf unfolding sorted_spends_ok_def by blast
qed

text \<open>What an item must not share with the pool it enters.\<close>

definition compatible :: "(coin \<Rightarrow> bytes) \<Rightarrow> mempool \<Rightarrow> mempool_item \<Rightarrow> bool" where
  "compatible name p i \<longleftrightarrow> (\<forall>j. in_pool p j \<longrightarrow> item_name j \<noteq> item_name i \<and>
     rem_names name j \<inter> rem_names name i = {} \<and> add_names name j \<inter> add_names name i = {})"

lemma insert_item_ok:
  assumes ok: "pool_ok name p" and io: "item_ok name i" and comp: "compatible name p i"
    and fits: "\<not> at_full_capacity p (mi_cost i)"
  shows "\<exists>p'. insert_item name p i = Inr p' \<and> pool_ok name p' \<and> (\<forall>j. in_pool p' j \<longleftrightarrow> in_pool p j \<or> j = i) \<and>
              mp_max_size_in_cost p' = mp_max_size_in_cost p"
proof -
  obtain f where f: "fee_per_cost i = Inr f" "fl_normal f" using fee_per_cost_ok [OF io] by blast
  define p' where "p' = p\<lparr>mp_spends := dict_set (mp_spends p) (item_name i) i,
     mp_sorted_spends := sorted_set (mp_sorted_spends p) f
        (dict_set (case dict_get (mp_sorted_spends p) f of Some d \<Rightarrow> d | None \<Rightarrow> []) (item_name i) i),
     mp_additions := foldl (\<lambda>d a. dict_set d (name a) i) (mp_additions p) (mi_additions i),
     mp_removals := foldl (\<lambda>d c. dict_set d (name c) i) (mp_removals p) (mi_removals i),
     mp_total_mempool_cost := mp_total_mempool_cost p + mi_cost i\<rparr>"
  have "insert_item name p i = Inr p'" using f by (simp add: insert_item_def p'_def Let_def)
  have names: "\<And>n j. dict_get (mp_spends p) n = Some j \<Longrightarrow> item_name j = n \<and> in_pool p j"
    using ok by (auto simp: pool_ok_def in_pool_def)
  have fresh: "\<not> dict_mem (mp_spends p) (item_name i)"
    using comp names [of "item_name i"]
    by (cases "dict_get (mp_spends p) (item_name i)") (auto simp: dict_mem_def compatible_def)
  have mem: "\<forall>j. in_pool p' j \<longleftrightarrow> in_pool p j \<or> j = i"
    using fresh by (auto simp: in_pool_def p'_def dict_simps dict_mem_def)
  have ni: "\<not> in_pool p i" using fresh by (auto simp: in_pool_def dict_mem_def)
  have "pool_ok name p'"
    unfolding pool_ok_def
  proof (intro conjI)
    show "index_ok p' (mp_removals p') (rem_names name)"
      using index_insert [of p "mp_removals p" "rem_names name" i "mp_removals p'" p'] ok ni comp mem
      by (auto simp: pool_ok_def compatible_def p'_def set_all rem_names_def)
    show "index_ok p' (mp_additions p') (add_names name)"
      using index_insert [of p "mp_additions p" "add_names name" i "mp_additions p'" p'] ok ni comp mem
      by (auto simp: pool_ok_def compatible_def p'_def set_all add_names_def)
    show "sorted_spends_ok p'"
      by (rule sorted_insert [OF _ f _ _ mem]) (use ok comp in \<open>auto simp: pool_ok_def compatible_def p'_def\<close>)
    show "mp_total_mempool_cost p' = sum_list (map mi_cost (dict_values (mp_spends p')))"
      using ok dict_set_new [OF fresh, of i] by (simp add: p'_def pool_ok_def dict_values_def)
    show "dict_ok (mp_spends p')" using ok by (simp add: p'_def pool_ok_def dict.ok_set)
    show "mp_total_mempool_cost p' \<le> mp_max_size_in_cost p'" using fits by (simp add: p'_def at_full_capacity_def)
    show "\<forall>n j. dict_get (mp_spends p') n = Some j \<longrightarrow> item_name j = n \<and> item_ok name j"
      using ok io by (auto simp: p'_def pool_ok_def dict_simps)
  qed
  then show ?thesis using \<open>insert_item name p i = Inr p'\<close> mem by (auto simp: p'_def)
qed

section \<open>Evicting the lowest fee rate\<close>

definition rate_le :: "mempool_item \<Rightarrow> mempool_item \<Rightarrow> bool" where
  "rate_le i j \<longleftrightarrow> item_less j i = Inr False"

lemma pool_item_ok: "pool_ok name p \<Longrightarrow> in_pool p i \<Longrightarrow> item_ok name i"
  unfolding pool_ok_def in_pool_def by blast

lemma evict_step_ok:
  assumes ok: "pool_ok name p" and ne: "mp_spends p \<noteq> []"
  shows "\<exists>k. in_pool p k \<and> evict_step name p = remove_from_pool name p k \<and> (\<forall>j. in_pool p j \<longrightarrow> rate_le k j)"
proof -
  have so: "sorted_spends_ok p" using ok by (simp add: pool_ok_def)
  have bf: "\<And>f n i. by_fee p f n = Some i \<longleftrightarrow> in_pool p i \<and> item_name i = n \<and> fee_per_cost i = Inr f"
    using so unfolding sorted_spends_ok_def by blast
  have found: "\<exists>f d. dict_get (mp_sorted_spends p) f = Some d \<and> fee_per_cost j = Inr f \<and> fl_normal f" if j: "in_pool p j" for j
  proof -
    obtain f where f: "fee_per_cost j = Inr f" "fl_normal f" using fee_per_cost_ok [OF pool_item_ok [OF ok j]] by blast
    then have "by_fee p f (item_name j) = Some j" using bf j by simp
    then show ?thesis using f by (auto simp: by_fee_def split: option.splits)
  qed
  obtain n i r where "mp_spends p = (n, i) # r" using ne by (cases "mp_spends p") auto
  then have "dict_get (mp_spends p) n = Some i" by (simp add: dict_get_def)
  then have "in_pool p i" using ok unfolding pool_ok_def in_pool_def by blast
  then obtain f d rest where ss: "mp_sorted_spends p = (f, d) # rest"
    using found [of i] by (cases "mp_sorted_spends p") (auto simp: dict_get_def)
  have "dict_get (mp_sorted_spends p) f = Some d" by (simp add: ss dict_get_def)
  then have d: "d \<noteq> []" "dict_ok d" using so unfolding sorted_spends_ok_def by blast+
  then obtain m k ds where mk: "d = (m, k) # ds" by (cases d) auto
  have k: "in_pool p k" "fee_per_cost k = Inr f"
    using bf [of f m k] by (simp_all add: by_fee_def ss mk dict_get_def)
  have "evict_step name p = remove_from_pool name p k"
    by (simp add: evict_step_def ss mk py_index_def dict_values_def)
  moreover have "rate_le k j" if j: "in_pool p j" for j
  proof -
    obtain g e where g: "dict_get (mp_sorted_spends p) g = Some e" "fee_per_cost j = Inr g" "fl_normal g"
      using found [OF j] by blast
    have ks: "keys_sorted (mp_sorted_spends p)" using so by (simp add: sorted_spends_ok_def)
    have "g = f \<or> fl_less f g"
      using g(1) ks by (force simp: ss keys_sorted_def dict_keys_def dict_get_def dest: map_of_SomeD split: if_splits)
    moreover have "fl_normal f" using ks by (simp add: ss keys_sorted_def dict_keys_def)
    ultimately have "\<not> fl_less g f" using fl_less_irrefl fl_less_trans [of g f g] g(3) by blast
    then show ?thesis using k(2) g(2) by (simp add: rate_le_def item_less_def)
  qed
  ultimately show ?thesis using k(1) by blast
qed

text \<open>The invariant of the eviction loop: what is left is part of the pool, and every item that went has a fee
  rate no higher than any that is left.\<close>

definition evict_inv :: "(coin \<Rightarrow> bytes) \<Rightarrow> mempool \<Rightarrow> mempool \<Rightarrow> bool" where
  "evict_inv name p q \<longleftrightarrow> pool_ok name q \<and> mp_max_size_in_cost q = mp_max_size_in_cost p \<and>
     (\<forall>j. in_pool q j \<longrightarrow> in_pool p j) \<and>
     (\<forall>j k. in_pool p j \<and> \<not> in_pool q j \<and> in_pool q k \<longrightarrow> rate_le j k)"

lemma evict_inv_refl: "pool_ok name p \<Longrightarrow> evict_inv name p p"
  unfolding evict_inv_def by blast

lemma evict_loop:
  assumes ok: "pool_ok name p" and fits: "cost \<le> mp_max_size_in_cost p"
  shows "\<exists>q. loop_while (\<lambda>p. at_full_capacity p cost) (evict_step name) p = Inr q \<and> evict_inv name p q \<and>
             \<not> at_full_capacity q cost"
proof -
  have step: "\<exists>t. evict_step name q = Inr t \<and> evict_inv name p t \<and> length (mp_spends t) < length (mp_spends q)"
    if inv: "evict_inv name p q" and full: "at_full_capacity q cost" for q
  proof -
    have qok: "pool_ok name q" and mx: "mp_max_size_in_cost q = mp_max_size_in_cost p" using inv by (auto simp: evict_inv_def)
    have "mp_spends q \<noteq> []"
      using qok full fits mx by (auto simp: pool_ok_def at_full_capacity_def dict_values_def)
    then obtain k where k: "in_pool q k" "evict_step name q = remove_from_pool name q k"
      "\<forall>j. in_pool q j \<longrightarrow> rate_le k j" using evict_step_ok [OF qok] by blast
    obtain t where t: "remove_from_pool name q k = Inr t" "pool_ok name t"
      "\<forall>j. in_pool t j \<longleftrightarrow> in_pool q j \<and> j \<noteq> k" "mp_max_size_in_cost t = mp_max_size_in_cost q"
      "mp_spends t = dict_pop (mp_spends q) (item_name k)"
      using remove_from_pool_ok [OF qok k(1)] by blast
    have "(item_name k, k) \<in> set (mp_spends q)"
      using k(1) by (auto simp: in_pool_def dict_get_def dest: map_of_SomeD)
    then have "length (mp_spends t) < length (mp_spends q)"
      unfolding t(5) dict_pop_def by (rule length_filter_less) simp
    moreover have "evict_inv name p t"
      using inv t k(1,3) unfolding evict_inv_def by metis
    ultimately show ?thesis using k(2) t(1) by auto
  qed
  show ?thesis by (rule loop_while_total [of "evict_inv name p", OF step evict_inv_refl [OF ok]])
qed

lemma compatible_sub: "compatible name p i \<Longrightarrow> (\<And>j. in_pool q j \<Longrightarrow> in_pool p j) \<Longrightarrow> compatible name q i"
  unfolding compatible_def by blast

lemma add_to_pool_ok:
  assumes ok: "pool_ok name p" and io: "item_ok name i" and comp: "compatible name p i"
    and fits: "mi_cost i \<le> mp_max_size_in_cost p"
  shows "\<exists>q p'. evict_inv name p q \<and> add_to_pool name p i = Inr p' \<and> pool_ok name p' \<and>
           (\<forall>j. in_pool p' j \<longleftrightarrow> in_pool q j \<or> j = i) \<and> mp_max_size_in_cost p' = mp_max_size_in_cost p \<and>
           (\<not> at_full_capacity p (mi_cost i) \<longrightarrow> q = p)"
proof -
  obtain q where q: "loop_while (\<lambda>p. at_full_capacity p (mi_cost i)) (evict_step name) p = Inr q"
    "evict_inv name p q" "\<not> at_full_capacity q (mi_cost i)" using evict_loop [OF ok fits] by blast
  have qok: "pool_ok name q" and mx: "mp_max_size_in_cost q = mp_max_size_in_cost p" and sub: "\<And>j. in_pool q j \<Longrightarrow> in_pool p j"
    using q(2) unfolding evict_inv_def by blast+
  obtain p' where "insert_item name q i = Inr p'" "pool_ok name p'" "\<forall>j. in_pool p' j \<longleftrightarrow> in_pool q j \<or> j = i"
    "mp_max_size_in_cost p' = mp_max_size_in_cost q"
    using insert_item_ok [OF qok io compatible_sub [OF comp sub] q(3)] by blast
  moreover have "\<not> at_full_capacity p (mi_cost i) \<Longrightarrow> q = p"
    using q(1) by (simp add: loop_while_unfold [of _ _ p])
  ultimately show ?thesis using q(1,2) mx by (auto simp: add_to_pool_def)
qed

section \<open>The fee rate needed to get in\<close>

lemma evict_step_items:
  assumes ok: "pool_ok name p" and ne: "mp_spends p \<noteq> []"
  shows "\<exists>k f t. in_pool p k \<and> fee_per_cost k = Inr f \<and> evict_step name p = Inr t \<and> remove_from_pool name p k = Inr t \<and>
           sorted_items p = (f, k) # sorted_items t \<and> (\<forall>j. in_pool p j \<longrightarrow> rate_le k j)"
proof -
  obtain k where k: "in_pool p k" "evict_step name p = remove_from_pool name p k" "\<forall>j. in_pool p j \<longrightarrow> rate_le k j"
    using evict_step_ok [OF ok ne] by blast
  obtain t where t: "remove_from_pool name p k = Inr t" using remove_from_pool_ok [OF ok k(1)] by blast
  have so: "sorted_spends_ok p" using ok by (simp add: pool_ok_def)
  obtain f d rest m i ds where ss: "mp_sorted_spends p = (f, d) # rest" "d = (m, i) # ds" "remove_from_pool name p i = Inr t"
    using k(2) t unfolding evict_step_def
    by (cases "mp_sorted_spends p"; cases "snd (hd (mp_sorted_spends p))")
       (auto simp: py_index_def dict_values_def split: prod.splits)
  have i: "in_pool p i" "item_name i = m" "fee_per_cost i = Inr f"
  proof -
    have "by_fee p f m = Some i" by (simp add: by_fee_def ss dict_get_def)
    then show "in_pool p i" "item_name i = m" "fee_per_cost i = Inr f" using so unfolding sorted_spends_ok_def by blast+
  qed
  have "dict_ok d" using so unfolding sorted_spends_ok_def by (metis dict_get_def map_of_Cons_code(2) ss(1))
  then have pop: "dict_pop d m = ds"
    by (auto simp: ss(2) dict_pop_def dict_ok_def dict_keys_def filter_id_conv image_iff)
  have "dict_ok (mp_sorted_spends p)" using so keys_sorted_ok unfolding sorted_spends_ok_def by blast
  then have pop': "dict_pop ((f, v) # rest) f = rest" for v :: "(bytes, mempool_item) dict"
    by (auto simp: ss(1) dict_pop_def dict_ok_def dict_keys_def filter_id_conv image_iff)
  have "mp_sorted_spends t = (if ds = [] then rest else (f, ds) # rest)"
    using ss(3) pop pop' i ss(1)
    unfolding remove_from_pool_def
    by (auto simp: rbind_eq_Inr dict_getitem_def dict_get_def dict_del_def dict_values_def Let_def split: if_splits)
  then have "sorted_items p = (f, i) # sorted_items t" by (simp add: sorted_items_def ss dict_values_def)
  moreover have "k = i" using k(2) t ss(3) i(1) remove_from_pool_ok [OF ok] k(1) by (metis sum.inject(2))
  ultimately show ?thesis using k t i by auto
qed

text \<open>The items that a run of the eviction loop took out of \<open>p\<close>.\<close>

definition evicted :: "mempool \<Rightarrow> mempool \<Rightarrow> mempool_item \<Rightarrow> bool" where
  "evicted p q j \<longleftrightarrow> in_pool p j \<and> \<not> in_pool q j"

definition top_evicted :: "mempool \<Rightarrow> mempool \<Rightarrow> mempool_item \<Rightarrow> bool" where
  "top_evicted p q j \<longleftrightarrow> evicted p q j \<and> (\<forall>k. evicted p q k \<longrightarrow> rate_le k j)"

lemma min_fee_rate_loop:
  assumes "pool_ok name p" "cost \<le> mp_max_size_in_cost p" "at_full_capacity p cost"
    and "loop_while (\<lambda>p. at_full_capacity p cost) (evict_step name) p = Inr q"
  shows "\<exists>j f. min_fee_rate_from cost (mp_max_size_in_cost p) (mp_total_mempool_cost p) (sorted_items p) = Inr f \<and>
           fee_per_cost j = Inr f \<and> top_evicted p q j"
  using assms
proof (induction "length (mp_spends p)" arbitrary: p rule: less_induct)
  case less
  have "mp_spends p \<noteq> []" using less.prems by (auto simp: pool_ok_def at_full_capacity_def dict_values_def)
  then obtain k f t where k: "in_pool p k" "fee_per_cost k = Inr f" "evict_step name p = Inr t"
    "remove_from_pool name p k = Inr t" "sorted_items p = (f, k) # sorted_items t" "\<forall>j. in_pool p j \<longrightarrow> rate_le k j"
    using evict_step_items [OF less.prems(1)] by blast
  have t: "pool_ok name t" "\<And>j. in_pool t j \<longleftrightarrow> in_pool p j \<and> j \<noteq> k" "mp_max_size_in_cost t = mp_max_size_in_cost p"
    "mp_total_mempool_cost t = mp_total_mempool_cost p - mi_cost k" "mp_spends t = dict_pop (mp_spends p) (item_name k)"
    using remove_from_pool_ok [OF less.prems(1) k(1)] k(4) by auto
  have loop: "loop_while (\<lambda>p. at_full_capacity p cost) (evict_step name) t = Inr q"
    using less.prems(3,4) k(3) by (simp add: loop_while_unfold [of _ _ p])
  show ?case
  proof (cases "at_full_capacity t cost")
    case False
    then have "q = t" using loop by (simp add: loop_while_unfold [of _ _ t])
    then have "top_evicted p q k" using k(1,6) t(2) by (auto simp: top_evicted_def evicted_def)
    then show ?thesis using False k t by (auto simp: Let_def at_full_capacity_def)
  next
    case True
    have "(item_name k, k) \<in> set (mp_spends p)" using k(1) by (auto simp: in_pool_def dict_get_def dest: map_of_SomeD)
    then have "length (mp_spends t) < length (mp_spends p)"
      unfolding t(5) dict_pop_def by (rule length_filter_less) simp
    from less.hyps [OF this t(1) _ True loop] less.prems(2) obtain j g where
      j: "min_fee_rate_from cost (mp_max_size_in_cost t) (mp_total_mempool_cost t) (sorted_items t) = Inr g"
      "fee_per_cost j = Inr g" "top_evicted t q j" by (auto simp: t(3))
    have sub: "in_pool q i \<Longrightarrow> in_pool t i" for i
      using evict_loop [OF t(1), of cost] loop less.prems(2) t(3) by (auto simp: evict_inv_def)
    have "top_evicted p q j"
      using j(3) k(6) t(2) sub by (auto simp: top_evicted_def evicted_def)
    then show ?thesis using j True k(5) t by (auto simp: Let_def at_full_capacity_def)
  qed
qed

section \<open>The pending cache\<close>

definition pending_ok :: "pending_tx_cache \<Rightarrow> bool" where
  "pending_ok c \<longleftrightarrow> dict_ok (pc_txs c) \<and> pc_cost c = sum_list (map mi_cost (dict_values (pc_txs c))) \<and> 0 \<le> pc_max_total_cost c"

lemma pending_drop_step_eq:
  assumes "pending_ok c" "pc_txs c = (n, i) # rest"
  shows "pending_drop_step c = Inr (c\<lparr>pc_cost := pc_cost c - mi_cost i, pc_txs := rest\<rparr>)"
    and "pending_ok (c\<lparr>pc_cost := pc_cost c - mi_cost i, pc_txs := rest\<rparr>)"
proof -
  have "dict_pop ((n, i) # rest) n = rest"
    using assms by (auto simp: pending_ok_def dict_ok_def dict_keys_def dict_pop_def filter_id_conv image_iff)
  then show "pending_drop_step c = Inr (c\<lparr>pc_cost := pc_cost c - mi_cost i, pc_txs := rest\<rparr>)"
    using assms(2) by (simp add: pending_drop_step_def py_index_def dict_keys_def dict_getitem_def dict_get_def)
  show "pending_ok (c\<lparr>pc_cost := pc_cost c - mi_cost i, pc_txs := rest\<rparr>)"
    using assms by (auto simp: pending_ok_def dict_ok_def dict_keys_def dict_values_def)
qed

definition pending_inv :: "pending_tx_cache \<Rightarrow> pending_tx_cache \<Rightarrow> bool" where
  "pending_inv c d \<longleftrightarrow> pending_ok d \<and> pc_max_total_cost d = pc_max_total_cost c \<and> (\<exists>n. pc_txs d = drop n (pc_txs c))"

lemma pending_loop:
  assumes "pending_ok c"
  shows "\<exists>d. loop_while (\<lambda>c. pc_cost c > pc_max_total_cost c) pending_drop_step c = Inr d \<and> pending_inv c d \<and>
             pc_cost d \<le> pc_max_total_cost d"
proof -
  have step: "\<exists>t. pending_drop_step d = Inr t \<and> pending_inv c t \<and> length (pc_txs t) < length (pc_txs d)"
    if inv: "pending_inv c d" and over: "pc_cost d > pc_max_total_cost d" for d
  proof -
    obtain k where k: "pending_ok d" "pc_max_total_cost d = pc_max_total_cost c" "pc_txs d = drop k (pc_txs c)"
      using inv by (auto simp: pending_inv_def)
    have "pc_txs d \<noteq> []" using over k(1) by (auto simp: pending_ok_def dict_values_def)
    then obtain n i rest where r: "pc_txs d = (n, i) # rest" by (cases "pc_txs d") auto
    let ?t = "d\<lparr>pc_cost := pc_cost d - mi_cost i, pc_txs := rest\<rparr>"
    have "drop (Suc k) (pc_txs c) = rest" using arg_cong [OF k(3), of tl] r by (simp add: drop_Suc tl_drop)
    then have "pc_txs ?t = drop (Suc k) (pc_txs c)" by simp
    then have "pending_inv c ?t" using pending_drop_step_eq(2) [OF k(1) r] k(2) unfolding pending_inv_def by auto
    then show ?thesis using pending_drop_step_eq(1) [OF k(1) r] r by auto
  qed
  have "pc_txs c = drop 0 (pc_txs c)" by simp
  then have "pending_inv c c" using assms unfolding pending_inv_def by blast
  then show ?thesis using loop_while_total [of "pending_inv c" "\<lambda>c. pc_cost c > pc_max_total_cost c", OF step, of c] by (simp add: not_less)
qed

lemma pending_add_ok:
  assumes "pending_ok c" "pc_cost c \<le> pc_max_total_cost c"
  shows "\<exists>c'. pending_add c item = Inr c' \<and> pending_ok c' \<and> pc_cost c' \<le> pc_max_total_cost c \<and>
     pc_max_total_cost c' = pc_max_total_cost c \<and>
     (if dict_mem (pc_txs c) (mi_spend_bundle_name item) then c' = c
      else \<exists>n. pc_txs c' = drop n (pc_txs c @ [(mi_spend_bundle_name item, item)]))"
proof (cases "dict_mem (pc_txs c) (mi_spend_bundle_name item)")
  case False
  let ?c = "c\<lparr>pc_txs := pc_txs c @ [(mi_spend_bundle_name item, item)], pc_cost := pc_cost c + mi_cost item\<rparr>"
  have "pending_ok ?c"
    using assms(1) False by (auto simp: pending_ok_def dict_ok_def dict_mem_iff dict_keys_def dict_values_def)
  then show ?thesis
    using pending_loop [of ?c] False dict_set_new [OF False, of item] by (auto simp: pending_add_def pending_inv_def)
qed (use assms in \<open>simp add: pending_add_def\<close>)

section \<open>A sample pool\<close>

definition sample_item :: "int \<Rightarrow> int \<Rightarrow> int \<Rightarrow> mempool_item" where
  "sample_item n f c =
     \<lparr>mi_spend_bundle = \<lparr>sb_coin_spends = [], sb_aggregated_signature = []\<rparr>, mi_fee = f,
      mi_npc_result = \<lparr>npc_error = None, npc_conds = None, npc_cost = c\<rparr>, mi_cost = c,
      mi_spend_bundle_name = [word_of_int n],
      mi_additions = [\<lparr>parent_coin_info = [word_of_int n, 0], puzzle_hash = [], amount = 0\<rparr>],
      mi_removals = [\<lparr>parent_coin_info = [word_of_int n, 1], puzzle_hash = [], amount = f\<rparr>], mi_program = []\<rparr>"

definition sample_pool :: mempool where
  "sample_pool = (case add_to_pool parent_coin_info (new_mempool 10) (sample_item 1 3 6) of Inr p \<Rightarrow> p | Inl _ \<Rightarrow> new_mempool 10)"

lemma sample_item_ok: "0 < c \<Longrightarrow> 0 \<le> f \<Longrightarrow> item_ok parent_coin_info (sample_item n f c)"
  by (simp add: item_ok_def sample_item_def)

lemma sample_pool_ok:
  "pool_ok parent_coin_info sample_pool" "in_pool sample_pool j \<longleftrightarrow> j = sample_item 1 3 6"
  "mp_max_size_in_cost sample_pool = 10"
proof -
  let ?i = "sample_item 1 3 6" and ?e = "new_mempool 10"
  have empty: "\<not> in_pool ?e k" for k by (simp add: in_pool_def new_mempool_def dict_simps)
  have "pool_ok parent_coin_info ?e" by (rule new_mempool_ok) simp
  moreover have "compatible parent_coin_info ?e ?i" by (simp add: compatible_def empty)
  moreover have "mi_cost ?i \<le> mp_max_size_in_cost ?e" by (simp add: sample_item_def new_mempool_def)
  moreover have "\<not> at_full_capacity ?e (mi_cost ?i)" by (simp add: sample_item_def new_mempool_def at_full_capacity_def)
  ultimately obtain p' where "add_to_pool parent_coin_info ?e ?i = Inr p'" "pool_ok parent_coin_info p'"
    "\<forall>j. in_pool p' j \<longleftrightarrow> j = ?i" "mp_max_size_in_cost p' = 10"
    using add_to_pool_ok [of parent_coin_info ?e ?i] empty sample_item_ok [of 6 3 1] by (auto simp: new_mempool_def)
  then show "pool_ok parent_coin_info sample_pool" "in_pool sample_pool j \<longleftrightarrow> j = ?i" "mp_max_size_in_cost sample_pool = 10"
    by (simp_all add: sample_pool_def)
qed

lemma sample_compatible: "compatible parent_coin_info sample_pool (sample_item 2 f c)"
  by (auto simp: compatible_def sample_pool_ok sample_item_def rem_names_def add_names_def)

lemma sample_total: "mp_total_mempool_cost sample_pool = 6"
  by code_simp

section \<open>Properties\<close>

text \<open>Adding to the pool.  Let the four dictionaries agree (\<open>pool_ok\<close>), and let the item have a positive cost
  that fits the pool, a non-negative fee, and share no name, spent coin or created coin with the pool.  Then
  \<open>add_to_pool\<close> returns, the dictionaries agree again (so the total cost is the sum of the item costs and
  within the limit), the item is in, nothing else came in, every item that was evicted has a fee rate no higher
  than any old item that was kept, and nothing is evicted when there is room.\<close>

lemma mempool_add:
  assumes "pool_ok name p" "item_ok name i" "compatible name p i" "mi_cost i \<le> mp_max_size_in_cost p"
  shows "\<exists>p'. add_to_pool name p i = Inr p' \<and> pool_ok name p' \<and> in_pool p' i \<and>
     (\<forall>j. in_pool p' j \<longrightarrow> in_pool p j \<or> j = i) \<and>
     (\<forall>j k. in_pool p j \<and> \<not> in_pool p' j \<and> in_pool p' k \<and> k \<noteq> i \<longrightarrow> item_less k j = Inr False) \<and>
     (mp_total_mempool_cost p + mi_cost i \<le> mp_max_size_in_cost p \<longrightarrow> (\<forall>j. in_pool p j \<longrightarrow> in_pool p' j))"
proof -
  obtain q p' where q: "evict_inv name p q" "add_to_pool name p i = Inr p'" "pool_ok name p'"
    "\<forall>j. in_pool p' j \<longleftrightarrow> in_pool q j \<or> j = i" "\<not> at_full_capacity p (mi_cost i) \<longrightarrow> q = p"
    using add_to_pool_ok [OF assms] by blast
  show ?thesis
    using q unfolding evict_inv_def rate_le_def at_full_capacity_def not_less by blast
qed

lemma mempool_add_witness:
  "\<exists>p'. add_to_pool parent_coin_info sample_pool (sample_item 2 9 7) = Inr p' \<and> pool_ok parent_coin_info p' \<and>
     in_pool p' (sample_item 2 9 7) \<and> (\<forall>j. in_pool p' j \<longrightarrow> j = sample_item 1 3 6 \<or> j = sample_item 2 9 7)"
  using mempool_add [OF sample_pool_ok(1) sample_item_ok [of 7 9 2] sample_compatible]
  by (auto simp: sample_pool_ok sample_item_def)

text \<open>Removing from the pool.  An item of a pool whose dictionaries agree can be removed without an
  exception; the dictionaries agree afterwards, exactly that item is gone, its coins are free to be spent or
  created by another item, and the total cost drops by its cost.\<close>

lemma mempool_remove:
  assumes "pool_ok name p" "in_pool p i"
  shows "\<exists>p'. remove_from_pool name p i = Inr p' \<and> pool_ok name p' \<and>
     (\<forall>j. in_pool p' j \<longleftrightarrow> in_pool p j \<and> j \<noteq> i) \<and>
     (\<forall>c. c \<in> set (mi_removals i) \<longrightarrow> \<not> dict_mem (mp_removals p') (name c)) \<and>
     (\<forall>c. c \<in> set (mi_additions i) \<longrightarrow> \<not> dict_mem (mp_additions p') (name c)) \<and>
     mp_total_mempool_cost p' = mp_total_mempool_cost p - mi_cost i"
proof -
  obtain p' where p': "remove_from_pool name p i = Inr p'" "pool_ok name p'"
    "\<forall>j. in_pool p' j \<longleftrightarrow> in_pool p j \<and> j \<noteq> i" "mp_total_mempool_cost p' = mp_total_mempool_cost p - mi_cost i"
    using remove_from_pool_ok [OF assms] by blast
  have old: "index_ok p (mp_removals p) (rem_names name)" "index_ok p (mp_additions p) (add_names name)"
    and new: "index_ok p' (mp_removals p') (rem_names name)" "index_ok p' (mp_additions p') (add_names name)"
    using assms(1) p'(2) unfolding pool_ok_def by blast+
  have "\<not> dict_mem d' c" if "index_ok p d f" "index_ok p' d' f" "c \<in> f i" for d d' f c
    using that p'(3) assms(2) unfolding index_ok_def dict_mem_def by (metis not_None_eq option.inject)
  then show ?thesis using p' old new unfolding rem_names_def add_names_def by blast
qed

text \<open>The fee rate to get in.  For a full pool, \<open>get_min_fee_rate\<close> returns the highest fee rate among the
  items that \<open>add_to_pool\<close> evicts for a transaction of that cost.\<close>

lemma min_fee_rate_is_top_evicted:
  assumes "pool_ok name p" "item_ok name i" "compatible name p i" "mi_cost i \<le> mp_max_size_in_cost p"
    and "mp_total_mempool_cost p + mi_cost i > mp_max_size_in_cost p"
  shows "\<exists>p' j. add_to_pool name p i = Inr p' \<and> in_pool p j \<and> \<not> in_pool p' j \<and>
     get_min_fee_rate p (mi_cost i) = fee_per_cost j \<and>
     (\<forall>k. in_pool p k \<and> \<not> in_pool p' k \<longrightarrow> item_less j k = Inr False)"
proof -
  have full: "at_full_capacity p (mi_cost i)" using assms(5) by (simp add: at_full_capacity_def)
  obtain q where q: "loop_while (\<lambda>p. at_full_capacity p (mi_cost i)) (evict_step name) p = Inr q"
    "evict_inv name p q" "\<not> at_full_capacity q (mi_cost i)" using evict_loop [OF assms(1,4)] by blast
  have qok: "pool_ok name q" and sub: "\<And>j. in_pool q j \<Longrightarrow> in_pool p j"
    using q(2) unfolding evict_inv_def by blast+
  obtain p' where p': "insert_item name q i = Inr p'" "\<forall>j. in_pool p' j \<longleftrightarrow> in_pool q j \<or> j = i"
    using insert_item_ok [OF qok assms(2) compatible_sub [OF assms(3) sub] q(3)] by blast
  obtain j f where j: "get_min_fee_rate p (mi_cost i) = Inr f" "fee_per_cost j = Inr f" "top_evicted p q j"
    using min_fee_rate_loop [OF assms(1,4) full q(1)] full by (auto simp: get_min_fee_rate_def)
  have "\<not> in_pool p i" using assms(3) unfolding compatible_def by blast
  then show ?thesis
    using j p' q(1) unfolding top_evicted_def evicted_def rate_le_def add_to_pool_def by auto
qed

lemma min_fee_rate_is_top_evicted_witness:
  "get_min_fee_rate sample_pool 7 = fee_per_cost (sample_item 1 3 6) \<and>
   (\<exists>p'. add_to_pool parent_coin_info sample_pool (sample_item 2 9 7) = Inr p' \<and> \<not> in_pool p' (sample_item 1 3 6))"
  using min_fee_rate_is_top_evicted [OF sample_pool_ok(1) sample_item_ok [of 7 9 2] sample_compatible]
  by (auto simp: sample_pool_ok sample_total) (auto simp: sample_item_def)

end
