(* ===== verification/MempoolManager.thy ===== *)
theory MempoolManager
  imports Mempool Blocks
begin

text \<open>
  \<open>full_node/mempool_manager.py\<close>: the operations of \<open>MempoolManager\<close> on its pool, its cache of pending
  transactions and its record of seen bundles, against the coin store of the node.  \<open>name\<close> stands for
  \<open>Coin.name\<close>, \<open>gen\<close> for the serialised generator that \<open>simple_solution_generator\<close> builds with the CLVM
  library, \<open>agg\<close> for the aggregation of BLS signatures and \<open>bip158\<close> for the filter of \<open>chiabip158\<close>.
\<close>

section \<open>State\<close>

datatype mempool_inclusion_status = SUCCESS | PENDING | FAILED

record mempool_manager =
  mm_constants :: consensus_constants
  mm_seen_bundle_hashes :: "(bytes, bytes) dict"
  mm_coin_store :: table
  mm_nonzero_fee_minimum_fpc :: int
  mm_limit_factor :: double
  mm_mempool_max_total_cost :: int
  mm_potential_cache :: pending_tx_cache
  mm_seen_cache_size :: int
  mm_peak :: "block_record option"
  mm_mempool :: mempool

definition new_mempool_manager :: "table \<Rightarrow> consensus_constants \<Rightarrow> mempool_manager" where
  "new_mempool_manager coin_store c =
     (let max_total = MAX_BLOCK_COST_CLVM c * MEMPOOL_BLOCK_BUFFER c in
      \<lparr>mm_constants = c, mm_seen_bundle_hashes = [], mm_coin_store = coin_store,
       mm_nonzero_fee_minimum_fpc = 5, mm_limit_factor = fl_ratio 1 2, mm_mempool_max_total_cost = max_total,
       mm_potential_cache = new_pending_tx_cache (MAX_BLOCK_COST_CLVM c * 1), mm_seen_cache_size = 10000,
       mm_peak = None, mm_mempool = new_mempool max_total\<rparr>)"

text \<open>\<open>self.limit_factor * self.constants.MAX_BLOCK_COST_CLVM\<close>, a double.\<close>

definition cost_limit :: "mempool_manager \<Rightarrow> double" where
  "cost_limit mm = fl_mul (mm_limit_factor mm) (fl_of_int (MAX_BLOCK_COST_CLVM (mm_constants mm)))"

text \<open>Python compares an \<open>int\<close> with a \<open>float\<close> by their exact values.\<close>

fun int_le_fl :: "int \<Rightarrow> double \<Rightarrow> bool" where
  "int_le_fl n (Double m e) = (if 0 \<le> e then n \<le> m * pow2 e else n * pow2 (- e) \<le> m)"

fun fl_less_int :: "double \<Rightarrow> int \<Rightarrow> bool" where
  "fl_less_int (Double m e) n = (if 0 \<le> e then m * pow2 e < n else m < n * pow2 (- e))"

section \<open>Making a block\<close>

text \<open>The items in the order of the two loops: decreasing fee rate, and oldest first within a rate.\<close>

definition items_descending :: "mempool \<Rightarrow> mempool_item list" where
  "items_descending p = concat (map dict_values (rev (dict_values (mp_sorted_spends p))))"

text \<open>The loops of \<open>create_bundle_from_mempool\<close>: they stop at the first item that does not fit.  The message
  logged for each item divides by its cost.\<close>

fun take_items :: "double \<Rightarrow> int \<Rightarrow> int \<Rightarrow> int \<Rightarrow> mempool_item list \<Rightarrow> mempool_item list res" where
  "take_items limit max_amount cost_sum fee_sum [] = Inr []"
| "take_items limit max_amount cost_sum fee_sum (item # items) =
     rbind (fl_div (mi_fee item) (mi_cost item)) (\<lambda>_.
     if int_le_fl (mi_cost item + cost_sum) limit \<and> mi_fee item + fee_sum \<le> max_amount then
       rbind (take_items limit max_amount (cost_sum + mi_cost item) (fee_sum + mi_fee item) items) (\<lambda>rest.
       Inr (item # rest))
     else Inr [])"

definition create_bundle_from_mempool ::
  "(bytes list \<Rightarrow> bytes) \<Rightarrow> mempool_manager \<Rightarrow> bytes \<Rightarrow> (spend_bundle \<times> coin list \<times> coin list) option res" where
  "create_bundle_from_mempool agg mm last_tb_header_hash =
     (if mm_peak mm = None \<or> map_option br_header_hash (mm_peak mm) \<noteq> Some last_tb_header_hash then Inr None
      else
        rbind (take_items (cost_limit mm) (MAX_COIN_AMOUNT (mm_constants mm)) 0 0
                 (items_descending (mm_mempool mm))) (\<lambda>items.
        if length items > 0 then
          rbind (fl_div (sum_list (map mi_cost items)) (MAX_BLOCK_COST_CLVM (mm_constants mm))) (\<lambda>_.
          Inr (Some (sb_aggregate agg (map mi_spend_bundle items), concat (map mi_additions items),
                     concat (map mi_removals items))))
        else Inr None))"

fun distinct_keys :: "bytes list \<Rightarrow> bytes list \<Rightarrow> bytes list" where
  "distinct_keys all_transactions [] = []"
| "distinct_keys all_transactions (k # ks) =
     (if k \<in> set all_transactions then distinct_keys all_transactions ks
      else k # distinct_keys (all_transactions @ [k]) ks)"

definition get_filter :: "(bytes list \<Rightarrow> bytes) \<Rightarrow> mempool_manager \<Rightarrow> bytes" where
  "get_filter bip158 mm = bip158 (distinct_keys [] (dict_keys (mp_spends (mm_mempool mm))))"

definition is_fee_enough :: "mempool_manager \<Rightarrow> int \<Rightarrow> int \<Rightarrow> bool res" where
  "is_fee_enough mm fees cost =
     (if cost = 0 then Inr False
      else rbind (fl_div fees cost) (\<lambda>fees_per_cost.
        if \<not> at_full_capacity (mm_mempool mm) cost then Inr True
        else if fl_less_int fees_per_cost (mm_nonzero_fee_minimum_fpc mm) then Inr False
        else rbind (get_min_fee_rate (mm_mempool mm) cost) (\<lambda>rate. Inr (fl_less rate fees_per_cost))))"

section \<open>Seen bundles\<close>

definition pop_seen_step :: "(bytes, bytes) dict \<Rightarrow> (bytes, bytes) dict res" where
  "pop_seen_step d = rbind (py_index (dict_keys d) 0) (\<lambda>first_in. Inr (dict_pop d first_in))"

definition add_and_maybe_pop_seen :: "mempool_manager \<Rightarrow> bytes \<Rightarrow> mempool_manager res" where
  "add_and_maybe_pop_seen mm spend_name =
     rbind (loop_while (\<lambda>d. int (length d) > mm_seen_cache_size mm) pop_seen_step
              (dict_set (mm_seen_bundle_hashes mm) spend_name spend_name)) (\<lambda>d.
     Inr (mm\<lparr>mm_seen_bundle_hashes := d\<rparr>))"

definition seen :: "mempool_manager \<Rightarrow> bytes \<Rightarrow> bool" where
  "seen mm bundle_hash = dict_mem (mm_seen_bundle_hashes mm) bundle_hash"

definition remove_seen :: "mempool_manager \<Rightarrow> bytes \<Rightarrow> mempool_manager" where
  "remove_seen mm bundle_hash =
     (if dict_mem (mm_seen_bundle_hashes mm) bundle_hash
      then mm\<lparr>mm_seen_bundle_hashes := dict_pop (mm_seen_bundle_hashes mm) bundle_hash\<rparr> else mm)"

section \<open>Replacing conflicting items\<close>

definition get_min_fee_increase :: int where
  "get_min_fee_increase = 10000000"

definition can_replace ::
  "(coin \<Rightarrow> bytes) \<Rightarrow> (bytes, mempool_item) dict \<Rightarrow> (bytes, coin_record) dict \<Rightarrow> int \<Rightarrow> double \<Rightarrow> bool res" where
  "can_replace name conflicting_items removals fees fees_per_cost =
     (let items = dict_values conflicting_items in
      if \<not> list_all (\<lambda>item. list_all (\<lambda>c. dict_mem removals (name c)) (mi_removals item)) items then Inr False
      else
        let conflicting_fees = sum_list (map mi_fee items); conflicting_cost = sum_list (map mi_cost items) in
        rbind (fl_div conflicting_fees conflicting_cost) (\<lambda>conflicting_fees_per_cost.
        if \<not> fl_less conflicting_fees_per_cost fees_per_cost then Inr False
        else Inr (\<not> fees - conflicting_fees < get_min_fee_increase)))"

fun find_conflicts ::
  "(coin \<Rightarrow> bytes) \<Rightarrow> mempool \<Rightarrow> coin list \<Rightarrow> coin_record list \<Rightarrow> err option \<times> coin list" where
  "find_conflicts name p conflicts [] =
     (if length conflicts > 0 then (Some MEMPOOL_CONFLICT, conflicts) else (None, []))"
| "find_conflicts name p conflicts (record # records) =
     (if cr_spent record then (Some DOUBLE_SPEND, [])
      else if dict_mem (mp_removals p) (name (cr_coin record))
      then find_conflicts name p (conflicts @ [cr_coin record]) records
      else find_conflicts name p conflicts records)"

definition check_removals ::
  "(coin \<Rightarrow> bytes) \<Rightarrow> mempool_manager \<Rightarrow> (bytes, coin_record) dict \<Rightarrow> (err option \<times> coin list) res" where
  "check_removals name mm removals =
     rbind (rguard AssertionError (mm_peak mm \<noteq> None)) (\<lambda>_.
     Inr (find_conflicts name (mm_mempool mm) [] (dict_values removals)))"

definition get_spendbundle :: "mempool_manager \<Rightarrow> bytes \<Rightarrow> spend_bundle option" where
  "get_spendbundle mm bundle_hash = map_option mi_spend_bundle (dict_get (mp_spends (mm_mempool mm)) bundle_hash)"

definition get_mempool_item :: "mempool_manager \<Rightarrow> bytes \<Rightarrow> mempool_item option" where
  "get_mempool_item mm bundle_hash = dict_get (mp_spends (mm_mempool mm)) bundle_hash"

section \<open>Adding a bundle\<close>

type_synonym add_result = "int option \<times> mempool_inclusion_status \<times> err option"

text \<open>A computation that may also end early with a result of \<open>add_spendbundle\<close>.\<close>

definition ebind :: "('r + 'a) res \<Rightarrow> ('a \<Rightarrow> ('r + 'b) res) \<Rightarrow> ('r + 'b) res" where
  "ebind m f = rbind m (\<lambda>x. case x of Inl r \<Rightarrow> Inr (Inl r) | Inr a \<Rightarrow> f a)"

definition ereturn :: "bool \<Rightarrow> 'r \<Rightarrow> ('r + unit) res" where
  "ereturn b r = Inr (if b then Inl r else Inr ())"

abbreviation failed :: "err \<Rightarrow> add_result" where
  "failed e \<equiv> (None, FAILED, Some e)"

fun check_addition_amounts :: "int \<Rightarrow> int \<Rightarrow> coin list \<Rightarrow> (add_result + int) res" where
  "check_addition_amounts max_amount addition_amount [] = Inr (Inr addition_amount)"
| "check_addition_amounts max_amount addition_amount (c # cs) =
     (if amount c < 0 then Inr (Inl (failed COIN_AMOUNT_NEGATIVE))
      else if amount c > max_amount then Inr (Inl (failed COIN_AMOUNT_EXCEEDS_MAXIMUM))
      else check_addition_amounts max_amount (addition_amount + amount c) cs)"

text \<open>\<open>collections.Counter\<close>.\<close>

definition counter :: "'a list \<Rightarrow> ('a, int) dict" where
  "counter xs = foldl (\<lambda>d x. dict_set d x (case dict_get d x of None \<Rightarrow> 1 | Some n \<Rightarrow> n + 1)) [] xs"

definition has_repeats :: "'a list \<Rightarrow> bool" where
  "has_repeats xs = list_ex (\<lambda>v. v > 1) (dict_values (counter xs))"

text \<open>The record of a coin that the bundle itself creates.\<close>

definition ephemeral_record :: "block_record \<Rightarrow> coin \<Rightarrow> coin_record res" where
  "ephemeral_record peak c =
     (case br_timestamp peak of
        None \<Rightarrow> Inl AssertionError
      | Some ts \<Rightarrow>
          rbind (uint32 (br_height peak + 1)) (\<lambda>h.
          Inr \<lparr>cr_coin = c, confirmed_block_index = h, spent_block_index = 0, coinbase = False, cr_timestamp = ts\<rparr>))"

fun removal_records ::
  "table \<Rightarrow> block_record \<Rightarrow> (bytes, coin) dict \<Rightarrow> int \<Rightarrow> (bytes, coin_record) dict \<Rightarrow> bytes list
     \<Rightarrow> (add_result + int \<times> (bytes, coin_record) dict) res" where
  "removal_records db peak additions_dict removal_amount records [] = Inr (Inr (removal_amount, records))"
| "removal_records db peak additions_dict removal_amount records (n # names) =
     rbind (get_coin_record n db) (\<lambda>removal_record.
     case dict_get additions_dict n of
       None \<Rightarrow>
         (case removal_record of
            None \<Rightarrow> Inr (Inl (failed UNKNOWN_UNSPENT))
          | Some r \<Rightarrow>
              removal_records db peak additions_dict (removal_amount + amount (cr_coin r)) (dict_set records n r) names)
     | Some c \<Rightarrow>
         rbind (ephemeral_record peak c) (\<lambda>r.
         removal_records db peak additions_dict (removal_amount + amount (cr_coin r)) (dict_set records n r) names))"

text \<open>Everything up to the fee: what the bundle creates, what it spends and what it pays.\<close>

record bundle_view =
  bv_additions :: "coin list"
  bv_removal_records :: "(bytes, coin_record) dict"
  bv_fees :: int
  bv_fees_per_cost :: double

definition bv_removals :: "bundle_view \<Rightarrow> coin list" where
  "bv_removals v = map cr_coin (dict_values (bv_removal_records v))"

definition examine_bundle ::
  "(coin \<Rightarrow> bytes) \<Rightarrow> mempool_manager \<Rightarrow> block_record \<Rightarrow> spend_bundle \<Rightarrow> npc_result \<Rightarrow> bytes
     \<Rightarrow> (add_result + bundle_view) res" where
  "examine_bundle name mm peak new_spend npc spend_name =
     (let cost = npc_cost npc in
      ebind (ereturn (cost > fl_trunc (cost_limit mm)) (failed BLOCK_COST_EXCEEDS_MAX)) (\<lambda>_.
      case npc_conds npc of
        None \<Rightarrow> Inl AssertionError
      | Some conds \<Rightarrow>
          let removal_names = map sp_coin_id (sc_spends conds) in
          ebind (ereturn (set removal_names \<noteq> set (map name (sb_removals_of new_spend)))
                   (failed INVALID_SPEND_BUNDLE)) (\<lambda>_.
          rbind (additions_for_npc npc) (\<lambda>additions.
          let additions_dict = foldl (\<lambda>d a. dict_set d (name a) a) [] additions in
          ebind (check_addition_amounts (MAX_COIN_AMOUNT (mm_constants mm)) 0 additions) (\<lambda>addition_amount.
          ebind (ereturn (has_repeats (map name additions)) (failed DUPLICATE_OUTPUT)) (\<lambda>_.
          ebind (ereturn (has_repeats removal_names) (failed DOUBLE_SPEND)) (\<lambda>_.
          ebind (if dict_mem (mp_spends (mm_mempool mm)) spend_name
                 then rbind (uint64 cost) (\<lambda>c. Inr (Inl (Some c, SUCCESS, None))) else Inr (Inr ())) (\<lambda>_.
          ebind (removal_records (mm_coin_store mm) peak additions_dict 0 [] removal_names)
            (\<lambda>(removal_amount, records).
          ebind (ereturn (addition_amount > removal_amount) (failed MINTING_COIN)) (\<lambda>_.
          rbind (uint64 (removal_amount - addition_amount)) (\<lambda>fees.
          rbind (uint64 (sc_reserve_fee conds)) (\<lambda>assert_fee_sum.
          ebind (ereturn (fees < assert_fee_sum) (failed RESERVE_FEE_CONDITION_FAILED)) (\<lambda>_.
          ebind (ereturn (cost = 0) (failed UNKNOWN)) (\<lambda>_.
          rbind (fl_div fees cost) (\<lambda>fees_per_cost.
          Inr (Inr \<lparr>bv_additions = additions, bv_removal_records = records, bv_fees = fees,
                    bv_fees_per_cost = fees_per_cost\<rparr>))))))))))))))))"

definition fee_gate :: "mempool_manager \<Rightarrow> int \<Rightarrow> double \<Rightarrow> (add_result + unit) res" where
  "fee_gate mm cost fees_per_cost =
     (if at_full_capacity (mm_mempool mm) cost then
        ebind (ereturn (fl_less_int fees_per_cost (mm_nonzero_fee_minimum_fpc mm))
                 (failed INVALID_FEE_TOO_CLOSE_TO_ZERO)) (\<lambda>_.
        rbind (get_min_fee_rate (mm_mempool mm) cost) (\<lambda>rate.
        ereturn (\<not> fl_less rate fees_per_cost) (failed INVALID_FEE_LOW_FEE)))
      else Inr (Inr ()))"

definition conflicting_items ::
  "(coin \<Rightarrow> bytes) \<Rightarrow> mempool \<Rightarrow> coin list \<Rightarrow> (bytes, mempool_item) dict res" where
  "conflicting_items name p conflicts =
     rfold (\<lambda>d c. rbind (dict_getitem (mp_removals p) (name c)) (\<lambda>sb.
              Inr (dict_set d (mi_spend_bundle_name sb) sb))) [] conflicts"

definition mk_item ::
  "spend_bundle \<Rightarrow> npc_result \<Rightarrow> bytes \<Rightarrow> bundle_view \<Rightarrow> bytes \<Rightarrow> mempool_item" where
  "mk_item new_spend npc spend_name v program =
     \<lparr>mi_spend_bundle = new_spend, mi_fee = bv_fees v, mi_npc_result = npc, mi_cost = npc_cost npc,
      mi_spend_bundle_name = spend_name, mi_additions = bv_additions v, mi_removals = bv_removals v,
      mi_program = program\<rparr>"

text \<open>A bundle that may enter later goes to the pending cache.\<close>

definition make_pending ::
  "mempool_manager \<Rightarrow> mempool_item \<Rightarrow> err \<Rightarrow> (add_result \<times> mempool_manager) res" where
  "make_pending mm item e =
     rbind (pending_add (mm_potential_cache mm) item) (\<lambda>cache.
     rbind (uint64 (mi_cost item)) (\<lambda>cost.
     Inr ((Some cost, PENDING, Some e), mm\<lparr>mm_potential_cache := cache\<rparr>)))"

fun puzzle_hashes_match :: "(bytes, coin_record) dict \<Rightarrow> spend list \<Rightarrow> bool res" where
  "puzzle_hashes_match records [] = Inr True"
| "puzzle_hashes_match records (s # ss) =
     rbind (dict_getitem records (sp_coin_id s)) (\<lambda>r.
     if sp_puzzle_hash s \<noteq> puzzle_hash (cr_coin r) then Inr False else puzzle_hashes_match records ss)"

definition peak_chialisp_height :: "block_record \<Rightarrow> int" where
  "peak_chialisp_height peak =
     (if \<not> is_transaction_block peak then br_prev_transaction_block_height peak else br_height peak)"

text \<open>The checks of puzzle hashes and time locks, and the change of the pool.\<close>

definition admit_bundle ::
  "(coin \<Rightarrow> bytes) \<Rightarrow> mempool_manager \<Rightarrow> block_record \<Rightarrow> npc_result \<Rightarrow> bundle_view \<Rightarrow> mempool_item
     \<Rightarrow> (bytes, mempool_item) dict \<Rightarrow> (add_result \<times> mempool_manager) res" where
  "admit_bundle name mm peak npc v item conflicting =
     (case npc_conds npc of
        None \<Rightarrow> Inl AssertionError
      | Some conds \<Rightarrow>
          rbind (puzzle_hashes_match (bv_removal_records v) (sc_spends conds)) (\<lambda>match.
          if \<not> match then Inr (failed WRONG_PUZZLE_HASH, mm)
          else
            (case br_timestamp peak of
               None \<Rightarrow> Inl AssertionError
             | Some ts \<Rightarrow>
                 rbind (uint32 (peak_chialisp_height peak)) (\<lambda>h.
                 rbind (mempool_check_time_locks (bv_removal_records v) conds h ts) (\<lambda>e.
                 (case e of
                    Some x \<Rightarrow>
                      if x = ASSERT_HEIGHT_ABSOLUTE_FAILED \<or> x = ASSERT_HEIGHT_RELATIVE_FAILED
                      then make_pending mm item x else Inr (failed x, mm)
                  | None \<Rightarrow>
                      rbind (rfold (remove_from_pool name) (mm_mempool mm) (dict_values conflicting)) (\<lambda>p.
                      rbind (add_to_pool name p item) (\<lambda>p'.
                      rbind (uint64 (npc_cost npc)) (\<lambda>cost.
                      Inr ((Some cost, SUCCESS, None), mm\<lparr>mm_mempool := p'\<rparr>))))))))))"

definition add_spendbundle ::
  "(coin \<Rightarrow> bytes) \<Rightarrow> (spend_bundle \<Rightarrow> bytes) \<Rightarrow> mempool_manager \<Rightarrow> spend_bundle \<Rightarrow> npc_result \<Rightarrow> bytes
     \<Rightarrow> bytes option \<Rightarrow> (add_result \<times> mempool_manager) res" where
  "add_spendbundle name gen mm new_spend npc spend_name program =
     (case mm_peak mm of
        None \<Rightarrow> Inr (failed MEMPOOL_NOT_INITIALIZED, mm)
      | Some peak \<Rightarrow>
          rbind (rguard AssertionError (npc_error npc = None)) (\<lambda>_.
          let prog = (case program of None \<Rightarrow> gen new_spend | Some g \<Rightarrow> g) in
          rbind (ebind (examine_bundle name mm peak new_spend npc spend_name) (\<lambda>v.
                 ebind (fee_gate mm (npc_cost npc) (bv_fees_per_cost v)) (\<lambda>_. Inr (Inr v)))) (\<lambda>r.
          (case r of
             Inl out \<Rightarrow> Inr (out, mm)
           | Inr v \<Rightarrow>
               let item = mk_item new_spend npc spend_name v prog in
               rbind (check_removals name mm (bv_removal_records v)) (\<lambda>(fail_reason, conflicts).
               if fail_reason = Some MEMPOOL_CONFLICT then
                 rbind (conflicting_items name (mm_mempool mm) conflicts) (\<lambda>conflicting.
                 rbind (can_replace name conflicting (bv_removal_records v) (bv_fees v) (bv_fees_per_cost v)) (\<lambda>ok.
                 if \<not> ok then make_pending mm item MEMPOOL_CONFLICT
                 else admit_bundle name mm peak npc v item conflicting))
               else
                 (case fail_reason of
                    Some e \<Rightarrow> Inr (failed e, mm)
                  | None \<Rightarrow> admit_bundle name mm peak npc v item []))))))"

section \<open>A new peak\<close>

text \<open>Kick out what the last block spent.\<close>

definition kick_spend ::
  "(coin \<Rightarrow> bytes) \<Rightarrow> mempool_manager \<Rightarrow> spend \<Rightarrow> mempool_manager res" where
  "kick_spend name mm s =
     (case dict_get (mp_removals (mm_mempool mm)) (sp_coin_id s) of
        None \<Rightarrow> Inr mm
      | Some item \<Rightarrow>
          rbind (remove_from_pool name (mm_mempool mm) item) (\<lambda>p.
          Inr (remove_seen (mm\<lparr>mm_mempool := p\<rparr>) (mi_spend_bundle_name item))))"

definition readd_item ::
  "(coin \<Rightarrow> bytes) \<Rightarrow> (spend_bundle \<Rightarrow> bytes) \<Rightarrow> mempool_manager \<Rightarrow> mempool_item
     \<Rightarrow> (add_result \<times> mempool_manager) res" where
  "readd_item name gen mm item =
     add_spendbundle name gen mm (mi_spend_bundle item) (mi_npc_result item) (mi_spend_bundle_name item)
       (Some (mi_program item))"

definition restore_item ::
  "(coin \<Rightarrow> bytes) \<Rightarrow> (spend_bundle \<Rightarrow> bytes) \<Rightarrow> mempool_manager \<Rightarrow> mempool_item \<Rightarrow> mempool_manager res" where
  "restore_item name gen mm item =
     rbind (readd_item name gen mm item) (\<lambda>((_, result, _), mm').
     Inr (if result \<noteq> SUCCESS then remove_seen mm' (mi_spend_bundle_name item) else mm'))"

definition retry_item ::
  "(coin \<Rightarrow> bytes) \<Rightarrow> (spend_bundle \<Rightarrow> bytes) \<Rightarrow> (spend_bundle \<times> npc_result \<times> bytes) list \<times> mempool_manager
     \<Rightarrow> mempool_item \<Rightarrow> ((spend_bundle \<times> npc_result \<times> bytes) list \<times> mempool_manager) res" where
  "retry_item name gen state item =
     rbind (readd_item name gen (snd state) item) (\<lambda>((_, status, _), mm').
     Inr (if status = SUCCESS
          then fst state @ [(mi_spend_bundle item, mi_npc_result item, mi_spend_bundle_name item)] else fst state, mm'))"

text \<open>The pool at the new peak: with the conditions of the block just added, the conflicting items are kicked out;
  otherwise the items are added again to an empty pool.\<close>

definition refresh_mempool ::
  "(coin \<Rightarrow> bytes) \<Rightarrow> (spend_bundle \<Rightarrow> bytes) \<Rightarrow> mempool_manager \<Rightarrow> bool \<Rightarrow> npc_result option \<Rightarrow> mempool_manager res" where
  "refresh_mempool name gen mm use_optimization last_npc_result =
     (case (if use_optimization then last_npc_result else None) of
        Some npc \<Rightarrow>
          (case npc_conds npc of
             None \<Rightarrow> Inr mm
           | Some conds \<Rightarrow> rfold (kick_spend name) mm (sc_spends conds))
      | None \<Rightarrow>
          rfold (restore_item name gen) (mm\<lparr>mm_mempool := new_mempool (mm_mempool_max_total_cost mm)\<rparr>)
            (dict_values (mp_spends (mm_mempool mm))))"

text \<open>The message logged at the end asks for a fee rate, which raises when no bundle of cost 5000000 fits.\<close>

definition new_peak ::
  "(coin \<Rightarrow> bytes) \<Rightarrow> (spend_bundle \<Rightarrow> bytes) \<Rightarrow> mempool_manager \<Rightarrow> block_record option \<Rightarrow> npc_result option
     \<Rightarrow> ((spend_bundle \<times> npc_result \<times> bytes) list \<times> mempool_manager) res" where
  "new_peak name gen mm peak last_npc_result =
     (case peak of
        None \<Rightarrow> Inr ([], mm)
      | Some b \<Rightarrow>
          if \<not> is_transaction_block b then Inr ([], mm)
          else if mm_peak mm = Some b then Inr ([], mm)
          else
            rbind (rguard AssertionError (br_timestamp b \<noteq> None)) (\<lambda>_.
            let use_optimization = (case mm_peak mm of None \<Rightarrow> False
                  | Some old \<Rightarrow> br_prev_transaction_block_hash b = Some (br_header_hash old));
                mm0 = mm\<lparr>mm_peak := Some b\<rparr> in
            rbind (refresh_mempool name gen mm0 use_optimization last_npc_result) (\<lambda>mm1.
            let (potential_txs, cache) = pending_drain (mm_potential_cache mm1) in
            rbind (rfold (retry_item name gen) ([], mm1\<lparr>mm_potential_cache := cache\<rparr>) (dict_values potential_txs)) (\<lambda>r.
            rbind (get_min_fee_rate (mm_mempool (snd r)) 5000000) (\<lambda>_.
            Inr r)))))"

fun items_up_to :: "(bytes \<Rightarrow> bool) \<Rightarrow> int \<Rightarrow> int \<Rightarrow> mempool_item list \<Rightarrow> mempool_item list" where
  "items_up_to match limit count [] = []"
| "items_up_to match limit count (item # rest) =
     (if count = limit then []
      else if match (mi_spend_bundle_name item) then items_up_to match limit count rest
      else item # items_up_to match limit (count + 1) rest)"

definition get_items_not_in_filter :: "mempool_manager \<Rightarrow> (bytes \<Rightarrow> bool) \<Rightarrow> int \<Rightarrow> mempool_item list" where
  "get_items_not_in_filter mm match limit =
     items_up_to match limit 0 (concat (map dict_values (dict_values (mp_sorted_spends (mm_mempool mm)))))"

section \<open>Repeats\<close>

lemma counter_get:
  "dict_get (counter xs) x = (if x \<in> set xs then Some (int (count_list xs x)) else None)"
proof (induction xs rule: rev_induct)
  case (snoc y xs)
  have "counter (xs @ [y]) = dict_set (counter xs) y (case dict_get (counter xs) y of None \<Rightarrow> 1 | Some n \<Rightarrow> n + 1)"
    by (simp add: counter_def)
  then show ?case using snoc by (auto simp: dict_simps split: if_splits)
qed (simp add: counter_def dict_simps)

lemma counter_ok: "dict_ok (counter xs)"
  unfolding counter_def by (induction xs rule: rev_induct) (auto simp: dict.ok_empty dict.ok_set)

lemma count_gt_1: "(\<exists>x. 1 < count_list xs x) \<longleftrightarrow> \<not> distinct xs"
proof (induction xs)
  case (Cons y xs)
  have "(\<exists>x. 1 < count_list (y # xs) x) \<longleftrightarrow> 0 < count_list xs y \<or> (\<exists>x. 1 < count_list xs x)"
  proof
    assume "0 < count_list xs y \<or> (\<exists>x. 1 < count_list xs x)"
    then show "\<exists>x. 1 < count_list (y # xs) x"
    proof
      assume "0 < count_list xs y"
      then have "1 < count_list (y # xs) y" by simp
      then show ?thesis ..
    next
      assume "\<exists>x. 1 < count_list xs x"
      then obtain x where "1 < count_list xs x" ..
      then have "1 < count_list (y # xs) x" by simp
      then show ?thesis ..
    qed
  qed (auto split: if_splits)
  moreover have "0 < count_list xs y \<longleftrightarrow> y \<in> set xs" using count_list_0_iff [of xs y] by auto
  ultimately show ?case using Cons by auto
qed simp

lemma has_repeats_iff: "has_repeats xs \<longleftrightarrow> \<not> distinct xs"
proof -
  have "has_repeats xs \<longleftrightarrow> (\<exists>k v. dict_get (counter xs) k = Some v \<and> 1 < v)"
    using dict_get_iff [OF counter_ok] by (force simp: has_repeats_def list_ex_iff dict_values_def)
  also have "\<dots> \<longleftrightarrow> (\<exists>x. x \<in> set xs \<and> 1 < count_list xs x)" by (auto simp: counter_get)
  also have "\<dots> \<longleftrightarrow> \<not> distinct xs"
    unfolding count_gt_1 [symmetric] by (metis count_notin not_less_zero)
  finally show ?thesis .
qed

section \<open>What the early checks establish\<close>

lemma ebind_Inr_Inr:
  "ebind m f = Inr (Inr y) \<longleftrightarrow> (\<exists>x. m = Inr (Inr x) \<and> f x = Inr (Inr y))"
  by (cases m) (auto simp: ebind_def split: sum.splits)

lemma ereturn_Inr_Inr [simp]: "ereturn b r = Inr (Inr u) \<longleftrightarrow> \<not> b"
  by (simp add: ereturn_def)

lemma stored_name:
  assumes "store_ok name k db" "get_coin_record n db = Inr (Some r)"
  shows "name (cr_coin r) = n"
proof -
  obtain w where w: "w \<in> set db" "row_coin_name w = n" "row_to_record w = Inr r"
    using assms(2) by (auto simp: get_coin_record_def rbind_eq_Inr find_Some_iff split: option.splits)
       (metis nth_mem)
  then have "row_ok name w" using assms(1) by (auto simp: store_ok_def list_all_iff)
  then show ?thesis using w(2,3) by (auto simp: row_ok_def row_to_record_def rbind_eq_Inr)
qed

lemma additions_dict_name:
  assumes "dict_get (foldl (\<lambda>d a. dict_set d (name a) a) [] as) n = Some c"
  shows "name c = n"
  using assms by (induction as rule: rev_induct) (auto simp: dict_simps split: if_splits)

lemma removal_records_names:
  assumes "removal_records db peak ad amt recs ns = Inr (Inr (amt', recs'))"
    and "store_ok name k db" "\<And>n c. dict_get ad n = Some c \<Longrightarrow> name c = n"
    and "distinct ns" "set ns \<inter> set (dict_keys recs) = {}"
  shows "\<exists>ext. recs' = recs @ ext \<and> dict_keys ext = ns \<and> (\<forall>(n, r) \<in> set ext. name (cr_coin r) = n)"
  using assms(1,4,5)
proof (induction ns arbitrary: amt recs)
  case Nil
  then show ?case by (simp add: dict_keys_def)
next
  case (Cons n ns)
  obtain o1 where o1: "get_coin_record n db = Inr o1" using Cons.prems(1) by (auto simp: rbind_eq_Inr)
  obtain r amt2 where r: "name (cr_coin r) = n"
    "removal_records db peak ad amt2 (dict_set recs n r) ns = Inr (Inr (amt', recs'))"
  proof (cases "dict_get ad n")
    case None
    then show ?thesis using that Cons.prems(1) o1 stored_name [OF assms(2), of n] by (auto split: option.splits)
  next
    case (Some c)
    obtain r where r: "ephemeral_record peak c = Inr r"
      "removal_records db peak ad (amt + amount (cr_coin r)) (dict_set recs n r) ns = Inr (Inr (amt', recs'))"
      using Some Cons.prems(1) o1 by (auto simp: rbind_eq_Inr)
    moreover have "cr_coin r = c" using r(1) by (auto simp: ephemeral_record_def rbind_eq_Inr split: option.splits)
    ultimately show ?thesis using that [of r] assms(3) [OF Some] by blast
  qed
  have new: "\<not> dict_mem recs n" using Cons.prems(3) by (auto simp: dict_mem_iff)
  then have set: "dict_set recs n r = recs @ [(n, r)]" by (rule dict_set_new)
  from Cons.IH [OF r(2)] Cons.prems(2,3) obtain ext where
    "recs' = dict_set recs n r @ ext" "dict_keys ext = ns" "\<forall>(n, r) \<in> set ext. name (cr_coin r) = n"
    by (auto simp: set dict_keys_def)
  then show ?case using r(1) by (auto simp: set dict_keys_def intro: exI [of _ "(n, r) # ext"])
qed

lemma examine_bundle_facts:
  assumes "examine_bundle name mm peak sb npc n = Inr (Inr v)" and "store_ok name k (mm_coin_store mm)"
  shows "\<exists>conds. npc_conds npc = Some conds \<and> additions_for_npc npc = Inr (bv_additions v) \<and>
     distinct (map name (bv_additions v)) \<and>
     dict_keys (bv_removal_records v) = map sp_coin_id (sc_spends conds) \<and>
     distinct (map sp_coin_id (sc_spends conds)) \<and>
     map name (bv_removals v) = map sp_coin_id (sc_spends conds) \<and>
     \<not> dict_mem (mp_spends (mm_mempool mm)) n \<and> 0 \<le> bv_fees v \<and>
     npc_cost npc \<le> fl_trunc (cost_limit mm) \<and> npc_cost npc \<noteq> 0 \<and>
     fl_div (bv_fees v) (npc_cost npc) = Inr (bv_fees_per_cost v)"
proof -
  obtain conds where c: "npc_conds npc = Some conds"
    using assms(1) by (auto simp: examine_bundle_def Let_def ebind_Inr_Inr split: option.splits)
  define ns where "ns = map sp_coin_id (sc_spends conds)"
  obtain amt ramt where x: "npc_cost npc \<le> fl_trunc (cost_limit mm)" "additions_for_npc npc = Inr (bv_additions v)"
    "\<not> has_repeats (map name (bv_additions v))" "\<not> has_repeats ns"
    "\<not> dict_mem (mp_spends (mm_mempool mm)) n"
    "removal_records (mm_coin_store mm) peak (foldl (\<lambda>d a. dict_set d (name a) a) [] (bv_additions v)) 0 [] ns =
       Inr (Inr (ramt, bv_removal_records v))"
    "uint64 (ramt - amt) = Inr (bv_fees v)" "npc_cost npc \<noteq> 0" "fl_div (bv_fees v) (npc_cost npc) = Inr (bv_fees_per_cost v)"
    using assms(1) unfolding ns_def
    by (auto simp: examine_bundle_def Let_def c ebind_Inr_Inr rbind_eq_Inr not_less split: if_splits prod.splits)
  obtain ext where e: "bv_removal_records v = ext" "dict_keys ext = ns" "\<forall>(n, r) \<in> set ext. name (cr_coin r) = n"
    using removal_records_names [OF x(6) assms(2) additions_dict_name [of name]] x(4)
    by (auto simp: has_repeats_iff dict_keys_def)
  have "map name (bv_removals v) = ns"
    using e unfolding bv_removals_def dict_values_def dict_keys_def by (auto intro!: map_cong)
  then show ?thesis using c x e(1,2) by (auto simp: ns_def has_repeats_iff)
qed

section \<open>Conflicts\<close>

lemma find_conflicts_eq:
  "find_conflicts name p acc rs =
     (if list_ex cr_spent rs then (Some DOUBLE_SPEND, [])
      else let cs = acc @ filter (\<lambda>c. dict_mem (mp_removals p) (name c)) (map cr_coin rs) in
        if cs = [] then (None, []) else (Some MEMPOOL_CONFLICT, cs))"
  by (induction name p acc rs rule: find_conflicts.induct) (auto simp: Let_def)

text \<open>The invariant of the loop that collects the conflicting items.\<close>

definition collect_inv ::
  "(coin \<Rightarrow> bytes) \<Rightarrow> mempool \<Rightarrow> coin set \<Rightarrow> (bytes, mempool_item) dict \<Rightarrow> bool" where
  "collect_inv name p cs d \<longleftrightarrow> dict_ok d \<and> (\<forall>n i. dict_get d n = Some i \<longrightarrow> in_pool p i \<and> item_name i = n) \<and>
     (\<forall>c j. c \<in> cs \<longrightarrow> in_pool p j \<longrightarrow> name c \<in> rem_names name j \<longrightarrow> dict_get d (item_name j) = Some j)"

lemma collect_step:
  assumes inv: "collect_inv name p cs d" and ri: "index_ok p (mp_removals p) (rem_names name)"
    and sb: "dict_get (mp_removals p) (name c) = Some sb"
  shows "collect_inv name p (insert c cs) (dict_set d (item_name sb) sb)"
  unfolding collect_inv_def
proof (intro conjI allI impI)
  have own: "in_pool p sb" "\<And>j. in_pool p j \<Longrightarrow> name c \<in> rem_names name j \<Longrightarrow> j = sb"
    using ri sb unfolding index_ok_def by (metis option.inject)+
  have get: "dict_get (dict_set d (item_name sb) sb) n = (if n = item_name sb then Some sb else dict_get d n)" for n
    by (rule dict.get_set)
  show "dict_ok (dict_set d (item_name sb) sb)" using inv unfolding collect_inv_def by (blast intro: dict.ok_set)
  fix n i assume "dict_get (dict_set d (item_name sb) sb) n = Some i"
  then show "in_pool p i" "item_name i = n"
    using inv own(1) unfolding get collect_inv_def by (metis option.inject)+
next
  have own: "in_pool p sb" "\<And>j. in_pool p j \<Longrightarrow> name c \<in> rem_names name j \<Longrightarrow> j = sb"
    using ri sb unfolding index_ok_def by (metis option.inject)+
  fix c' j assume *: "c' \<in> insert c cs" "in_pool p j" "name c' \<in> rem_names name j"
  show "dict_get (dict_set d (item_name sb) sb) (item_name j) = Some j"
  proof (cases "item_name j = item_name sb")
    case True
    then show ?thesis using own(1) *(2) by (simp add: dict.get_set in_pool_def)
  next
    case False
    then have "c' \<in> cs" using * own(2) by auto
    then show ?thesis using inv * False unfolding collect_inv_def by (simp add: dict.get_set)
  qed
qed

lemma collect_all:
  assumes "rfold (\<lambda>d c. rbind (dict_getitem (mp_removals p) (name c)) (\<lambda>sb. Inr (dict_set d (item_name sb) sb))) d0 cs = Inr d"
    and "collect_inv name p s d0" "index_ok p (mp_removals p) (rem_names name)"
  shows "collect_inv name p (s \<union> set cs) d"
  using assms
proof (induction cs arbitrary: d0 s)
  case (Cons c cs)
  then obtain sb where sb: "dict_get (mp_removals p) (name c) = Some sb"
    by (auto simp: rbind_eq_Inr dict_getitem_def split: option.splits)
  have "collect_inv name p (insert c s) (dict_set d0 (item_name sb) sb)"
    by (rule collect_step [OF Cons.prems(2,3) sb])
  then show ?case
    using Cons.IH [of "dict_set d0 (item_name sb) sb" "insert c s"] Cons.prems(1,3) sb by (simp add: dict_getitem_def)
qed simp

lemma conflicting_items_ok:
  assumes ok: "pool_ok name p" and "conflicting_items name p cs = Inr d"
  shows "distinct (dict_values d)" "i \<in> set (dict_values d) \<Longrightarrow> in_pool p i"
    "c \<in> set cs \<Longrightarrow> in_pool p j \<Longrightarrow> name c \<in> rem_names name j \<Longrightarrow> j \<in> set (dict_values d)"
proof -
  have "collect_inv name p {} []"
    unfolding collect_inv_def using dict.get_empty dict.ok_empty by (metis empty_iff option.distinct(1))
  then have inv: "collect_inv name p (set cs) d"
    using collect_all [of p name "[]" cs d "{}"] assms unfolding conflicting_items_def pool_ok_def by simp
  have dok: "dict_ok d" and it: "\<And>n i. dict_get d n = Some i \<Longrightarrow> in_pool p i \<and> item_name i = n"
    using inv unfolding collect_inv_def by blast+
  have get: "(n, i) \<in> set d \<longleftrightarrow> dict_get d n = Some i" for n i using dict_get_iff [OF dok] by blast
  have "inj_on snd (set d)"
  proof (rule inj_onI)
    fix x y assume "x \<in> set d" "y \<in> set d" "snd x = snd y"
    then have "fst x = fst y" using it get by (metis prod.collapse)
    then show "x = y" using \<open>snd x = snd y\<close> by (simp add: prod_eq_iff)
  qed
  then show "distinct (dict_values d)"
    using dok by (simp add: dict_values_def dict_ok_def dict_keys_def distinct_map)
  show "in_pool p i" if "i \<in> set (dict_values d)" for i using that it get by (auto simp: dict_values_def)
  show "j \<in> set (dict_values d)" if "c \<in> set cs" "in_pool p j" "name c \<in> rem_names name j" for c j
    using that inv get unfolding collect_inv_def dict_values_def by force
qed

text \<open>A store of items from which any member can be taken: then so can any list of different members.\<close>

locale removable =
  fixes ok :: "'p \<Rightarrow> bool"
    and mem :: "'p \<Rightarrow> 'i \<Rightarrow> bool"
    and remove :: "'p \<Rightarrow> 'i \<Rightarrow> 'p res"
    and size_of :: "'p \<Rightarrow> 'c"
  assumes remove_ok: "ok p \<Longrightarrow> mem p i \<Longrightarrow>
    \<exists>p'. remove p i = Inr p' \<and> ok p' \<and> (\<forall>j. mem p' j \<longleftrightarrow> mem p j \<and> j \<noteq> i) \<and> size_of p' = size_of p"
begin

lemma remove_all:
  "ok p \<Longrightarrow> distinct is \<Longrightarrow> (\<And>i. i \<in> set is \<Longrightarrow> mem p i) \<Longrightarrow>
   \<exists>p'. rfold remove p is = Inr p' \<and> ok p' \<and> (\<forall>j. mem p' j \<longleftrightarrow> mem p j \<and> j \<notin> set is) \<and> size_of p' = size_of p"
proof (induction "is" arbitrary: p)
  case (Cons i "is")
  obtain q where q: "remove p i = Inr q" "ok q" "\<forall>j. mem q j \<longleftrightarrow> mem p j \<and> j \<noteq> i" "size_of q = size_of p"
    using remove_ok [of p i] Cons.prems by auto
  have "\<And>j. j \<in> set is \<Longrightarrow> mem q j" using Cons.prems q(3) by auto
  from Cons.IH [OF q(2) _ this] Cons.prems(2) obtain p' where
    "rfold remove q is = Inr p'" "ok p'" "\<forall>j. mem p' j \<longleftrightarrow> mem q j \<and> j \<notin> set is" "size_of p' = size_of q" by auto
  then show ?case using q by auto
qed simp

end

interpretation pool: removable "pool_ok name" in_pool "remove_from_pool name" mp_max_size_in_cost for name
  by unfold_locales (use remove_from_pool_ok in blast)

section \<open>The invariant of the manager\<close>

text \<open>An item is what its conditions say: it creates their coins, each from a coin it spends, and \<open>A\<close> holds all
  of them.\<close>

definition item_made :: "(coin \<Rightarrow> bytes) \<Rightarrow> coin set \<Rightarrow> mempool_item \<Rightarrow> bool" where
  "item_made name A i \<longleftrightarrow> mi_cost i = npc_cost (mi_npc_result i) \<and> 0 < mi_cost i \<and>
     additions_for_npc (mi_npc_result i) = Inr (mi_additions i) \<and> set (mi_additions i) \<subseteq> A \<and>
     (\<forall>c \<in> set (mi_additions i). parent_coin_info c \<in> rem_names name i)"

definition mm_ok :: "(coin \<Rightarrow> bytes) \<Rightarrow> coin set \<Rightarrow> mempool_manager \<Rightarrow> bool" where
  "mm_ok name A mm \<longleftrightarrow>
     pool_ok name (mm_mempool mm) \<and> (\<forall>i. in_pool (mm_mempool mm) i \<longrightarrow> item_made name A i) \<and>
     mp_max_size_in_cost (mm_mempool mm) = mm_mempool_max_total_cost mm \<and>
     0 \<le> mm_mempool_max_total_cost mm \<and> fl_trunc (cost_limit mm) \<le> mm_mempool_max_total_cost mm \<and>
     pending_ok (mm_potential_cache mm) \<and>
     pc_cost (mm_potential_cache mm) \<le> pc_max_total_cost (mm_potential_cache mm) \<and>
     (\<forall>i \<in> set (dict_values (pc_txs (mm_potential_cache mm))). item_made name A i) \<and>
     (\<exists>k. store_ok name k (mm_coin_store mm))"

lemma mm_okD:
  assumes "mm_ok name A mm"
  shows "pool_ok name (mm_mempool mm)" "in_pool (mm_mempool mm) i \<Longrightarrow> item_made name A i"
    "mp_max_size_in_cost (mm_mempool mm) = mm_mempool_max_total_cost mm"
    "fl_trunc (cost_limit mm) \<le> mm_mempool_max_total_cost mm"
    "pending_ok (mm_potential_cache mm)" "pc_cost (mm_potential_cache mm) \<le> pc_max_total_cost (mm_potential_cache mm)"
    "i \<in> set (dict_values (pc_txs (mm_potential_cache mm))) \<Longrightarrow> item_made name A i"
    "\<exists>k. store_ok name k (mm_coin_store mm)"
  using assms unfolding mm_ok_def by blast+

lemma mm_ok_pool:
  assumes "mm_ok name A mm" "pool_ok name p" "\<And>i. in_pool p i \<Longrightarrow> item_made name A i"
    and "mp_max_size_in_cost p = mm_mempool_max_total_cost mm"
  shows "mm_ok name A (mm\<lparr>mm_mempool := p\<rparr>)"
  using assms unfolding mm_ok_def cost_limit_def by simp

lemma pending_kept:
  assumes "pending_ok c" "pc_cost c \<le> pc_max_total_cost c" "pending_add c i = Inr c'"
  shows "pending_ok c' \<and> pc_cost c' \<le> pc_max_total_cost c' \<and>
         set (dict_values (pc_txs c')) \<subseteq> insert i (set (dict_values (pc_txs c)))"
proof -
  have "pending_ok c' \<and> pc_cost c' \<le> pc_max_total_cost c \<and> pc_max_total_cost c' = pc_max_total_cost c \<and>
     (if dict_mem (pc_txs c) (mi_spend_bundle_name i) then c' = c
      else \<exists>n. pc_txs c' = drop n (pc_txs c @ [(mi_spend_bundle_name i, i)]))"
    using pending_add_ok [OF assms(1,2), of i] assms(3) by (simp split: if_splits del: drop_append)
  then show ?thesis by (force simp: dict_values_def split: if_splits dest!: in_set_dropD)
qed

lemma make_pending_ok:
  assumes "mm_ok name A mm" "item_made name A i" "make_pending mm i e = Inr ((cost, status, err), mm')"
  shows "mm_ok name A mm' \<and> status = PENDING \<and> err = Some e \<and> mm_mempool mm' = mm_mempool mm \<and> mm_peak mm' = mm_peak mm"
proof -
  obtain c' where c': "pending_add (mm_potential_cache mm) i = Inr c'" "mm' = mm\<lparr>mm_potential_cache := c'\<rparr>"
    "status = PENDING" "err = Some e"
    using assms(3) by (auto simp: make_pending_def rbind_eq_Inr)
  have "pending_ok c' \<and> pc_cost c' \<le> pc_max_total_cost c' \<and>
      set (dict_values (pc_txs c')) \<subseteq> insert i (set (dict_values (pc_txs (mm_potential_cache mm))))"
    by (rule pending_kept [OF mm_okD(5,6) [OF assms(1)] c'(1)])
  then show ?thesis using assms(1,2) c' unfolding mm_ok_def cost_limit_def by auto
qed

section \<open>Admission\<close>

text \<open>What the first checks and the conflict search say about the item.\<close>

definition admissible :: "(coin \<Rightarrow> bytes) \<Rightarrow> coin set \<Rightarrow> mempool_manager \<Rightarrow> mempool_item \<Rightarrow> mempool_item list \<Rightarrow> bool" where
  "admissible name A mm i conf \<longleftrightarrow>
     item_ok name i \<and> item_made name A i \<and> mi_cost i \<le> mm_mempool_max_total_cost mm \<and>
     \<not> dict_mem (mp_spends (mm_mempool mm)) (item_name i) \<and>
     distinct conf \<and> (\<forall>j \<in> set conf. in_pool (mm_mempool mm) j) \<and>
     (\<forall>j. in_pool (mm_mempool mm) j \<and> rem_names name j \<inter> rem_names name i \<noteq> {} \<longrightarrow> j \<in> set conf)"

lemma item_facts:
  assumes "examine_bundle name mm peak sb npc n = Inr (Inr v)" "mm_ok name A mm" "0 \<le> npc_cost npc"
    and "\<And>cs. additions_for_npc npc = Inr cs \<Longrightarrow> set cs \<subseteq> A"
  shows "item_ok name (mk_item sb npc n v g) \<and> item_made name A (mk_item sb npc n v g) \<and>
         mi_cost (mk_item sb npc n v g) \<le> mm_mempool_max_total_cost mm \<and>
         \<not> dict_mem (mp_spends (mm_mempool mm)) (item_name (mk_item sb npc n v g))"
proof -
  obtain k where "store_ok name k (mm_coin_store mm)" using mm_okD(8) [OF assms(2)] by blast
  from examine_bundle_facts [OF assms(1) this] obtain conds where f: "npc_conds npc = Some conds"
    "additions_for_npc npc = Inr (bv_additions v)" "distinct (map name (bv_additions v))"
    "distinct (map sp_coin_id (sc_spends conds))" "map name (bv_removals v) = map sp_coin_id (sc_spends conds)"
    "\<not> dict_mem (mp_spends (mm_mempool mm)) n" "0 \<le> bv_fees v" "npc_cost npc \<le> fl_trunc (cost_limit mm)" "npc_cost npc \<noteq> 0"
    by blast
  have rem: "rem_names name (mk_item sb npc n v g) = set (map sp_coin_id (sc_spends conds))"
    using f(5) by (simp add: rem_names_def mk_item_def flip: set_map)
  have "parent_coin_info c \<in> set (map sp_coin_id (sc_spends conds))" if "c \<in> set (bv_additions v)" for c
    using additions_parent [of "sc_spends conds" "bv_additions v" c] f(1,2) that by (simp add: additions_for_npc_def)
  then show ?thesis
    using f assms(3,4) rem mm_okD(4) [OF assms(2)] by (auto simp: item_ok_def item_made_def mk_item_def)
qed

lemma admissible_compatible:
  assumes mm: "mm_ok name A mm" and ad: "admissible name A mm i conf" and inj: "inj_on name A"
    and p: "\<And>j. in_pool p j \<longleftrightarrow> in_pool (mm_mempool mm) j \<and> j \<notin> set conf"
  shows "compatible name p i"
  unfolding compatible_def
proof (intro allI impI conjI)
  fix j assume j: "in_pool p j"
  then have jm: "in_pool (mm_mempool mm) j" "item_made name A j" using p mm_okD(2) [OF mm] by auto
  have im: "item_made name A i" using ad by (simp add: admissible_def)
  show "item_name j \<noteq> item_name i" using jm(1) ad by (auto simp: admissible_def dict_mem_def in_pool_def)
  show rem: "rem_names name j \<inter> rem_names name i = {}" using jm(1) j p ad by (auto simp: admissible_def)
  have "False" if "x \<in> set (mi_additions j)" "y \<in> set (mi_additions i)" "name x = name y" for x y
  proof -
    have "x \<in> A" "y \<in> A" using that im jm(2) by (auto simp: item_made_def)
    then have "x = y" using inj_onD [OF inj that(3)] by blast
    then show False using that im jm(2) rem by (auto simp: item_made_def)
  qed
  then show "add_names name j \<inter> add_names name i = {}" by (auto simp: add_names_def)
qed

lemma admit_changes:
  assumes mm: "mm_ok name A mm" and ad: "admissible name A mm i conf" and inj: "inj_on name A"
  shows "\<exists>p p'. rfold (remove_from_pool name) (mm_mempool mm) conf = Inr p \<and> add_to_pool name p i = Inr p' \<and>
     mm_ok name A (mm\<lparr>mm_mempool := p'\<rparr>) \<and> in_pool p' i \<and> (\<forall>j. in_pool p' j \<longrightarrow> in_pool (mm_mempool mm) j \<or> j = i)"
proof -
  have conf: "distinct conf" "\<And>j. j \<in> set conf \<Longrightarrow> in_pool (mm_mempool mm) j" "item_ok name i" "item_made name A i"
    "mi_cost i \<le> mm_mempool_max_total_cost mm" using ad by (auto simp: admissible_def)
  obtain p where p: "rfold (remove_from_pool name) (mm_mempool mm) conf = Inr p" "pool_ok name p"
    "\<And>j. in_pool p j \<longleftrightarrow> in_pool (mm_mempool mm) j \<and> j \<notin> set conf"
    "mp_max_size_in_cost p = mp_max_size_in_cost (mm_mempool mm)"
    using pool.remove_all [OF mm_okD(1) [OF mm] conf(1,2)] by blast
  have fits: "mi_cost i \<le> mp_max_size_in_cost p" using conf(5) p(4) mm_okD(3) [OF mm] by simp
  from add_to_pool_ok [OF p(2) conf(3) admissible_compatible [OF mm ad inj p(3)] fits]
  obtain q p' where q: "evict_inv name p q" "add_to_pool name p i = Inr p'" "pool_ok name p'"
    "\<forall>j. in_pool p' j \<longleftrightarrow> in_pool q j \<or> j = i" "mp_max_size_in_cost p' = mp_max_size_in_cost p" by blast
  have sub: "in_pool p' j \<Longrightarrow> in_pool (mm_mempool mm) j \<or> j = i" for j
    using q(1,4) p(3) unfolding evict_inv_def by blast
  have "mm_ok name A (mm\<lparr>mm_mempool := p'\<rparr>)"
    using sub conf(4) mm_okD(2) [OF mm] q(5) p(4) mm_okD(3) [OF mm] by (intro mm_ok_pool [OF mm q(3)]) auto
  then show ?thesis using p(1) q(2,4) sub by blast
qed

text \<open>What a bundle must offer to the items it pushes out.\<close>

definition replaces :: "(coin \<Rightarrow> bytes) \<Rightarrow> mempool_item list \<Rightarrow> mempool_item \<Rightarrow> bool" where
  "replaces name conf i \<longleftrightarrow>
     (\<forall>j \<in> set conf. rem_names name j \<subseteq> rem_names name i \<and> mi_fee j + get_min_fee_increase \<le> mi_fee i)"

lemma can_replace_sound:
  assumes "can_replace name d recs fees fpc = Inr True" "\<And>j. j \<in> set (dict_values d) \<Longrightarrow> 0 \<le> mi_fee j"
    and "j \<in> set (dict_values d)"
  shows "rem_names name j \<subseteq> set (dict_keys recs) \<and> mi_fee j + get_min_fee_increase \<le> fees"
proof -
  have "mi_fee j \<le> sum_list (map mi_fee (dict_values d))"
    using assms(2,3) by (intro member_le_sum_list) auto
  then show ?thesis
    using assms(1,3) by (fastforce simp: can_replace_def Let_def rbind_eq_Inr list_all_iff rem_names_def dict_mem_iff
        split: if_splits)
qed

lemma ebind_Inr_Inl:
  "ebind m f = Inr (Inl r) \<longleftrightarrow> m = Inr (Inl r) \<or> (\<exists>x. m = Inr (Inr x) \<and> f x = Inr (Inl r))"
  by (cases m) (auto simp: ebind_def split: sum.splits)

lemma ereturn_Inr_Inl [simp]: "ereturn b r = Inr (Inl r') \<longleftrightarrow> b \<and> r' = r"
  by (auto simp: ereturn_def)

lemma check_addition_amounts_early:
  "check_addition_amounts m a cs = Inr (Inl (c, s, e)) \<Longrightarrow> s = FAILED"
  by (induction m a cs rule: check_addition_amounts.induct) (auto split: if_splits)

lemma removal_records_early:
  "removal_records db peak ad amt recs ns = Inr (Inl (c, s, e)) \<Longrightarrow> s = FAILED"
proof (induction ns arbitrary: amt recs)
  case (Cons n ns)
  then show ?case by (cases "dict_get ad n") (auto simp: rbind_eq_Inr split: option.splits)
qed simp

lemma examine_bundle_early:
  assumes "examine_bundle name mm peak sb npc n = Inr (Inl (c, s, e))"
  shows "s = FAILED \<or> s = SUCCESS \<and> e = None \<and> dict_mem (mp_spends (mm_mempool mm)) n"
  using assms unfolding examine_bundle_def Let_def
  by (auto simp: ebind_Inr_Inl rbind_eq_Inr split: option.splits if_splits prod.splits
      dest: check_addition_amounts_early removal_records_early)

lemma fee_gate_early: "fee_gate mm cost fpc = Inr (Inl (c, s, e)) \<Longrightarrow> s = FAILED"
  by (auto simp: fee_gate_def ebind_Inr_Inl rbind_eq_Inr split: if_splits)

text \<open>The ways a bundle can be answered.\<close>

inductive answered ::
  "(coin \<Rightarrow> bytes) \<Rightarrow> coin set \<Rightarrow> mempool_manager \<Rightarrow> bytes \<Rightarrow> mempool_inclusion_status \<Rightarrow> err option
     \<Rightarrow> mempool_manager \<Rightarrow> bool"
  for name A mm n where
  rejected: "answered name A mm n FAILED e mm"
| known: "dict_mem (mp_spends (mm_mempool mm)) n \<Longrightarrow> answered name A mm n SUCCESS None mm"
| postponed: "mm_ok name A mm' \<Longrightarrow> mm_mempool mm' = mm_mempool mm \<Longrightarrow> mm_peak mm' = mm_peak mm \<Longrightarrow>
     answered name A mm n PENDING (Some e) mm'"
| admitted: "admissible name A mm i conf \<Longrightarrow> item_name i = n \<Longrightarrow> replaces name conf i \<Longrightarrow>
     mm_ok name A (mm\<lparr>mm_mempool := p'\<rparr>) \<Longrightarrow> in_pool p' i \<Longrightarrow>
     (\<And>j. in_pool p' j \<Longrightarrow> in_pool (mm_mempool mm) j \<or> j = i) \<Longrightarrow>
     answered name A mm n SUCCESS None (mm\<lparr>mm_mempool := p'\<rparr>)"

lemma make_pending_answered:
  "mm_ok name A mm \<Longrightarrow> item_made name A i \<Longrightarrow> make_pending mm i x = Inr ((c, s, e), mm') \<Longrightarrow> answered name A mm n s e mm'"
  using make_pending_ok [of name A mm i x c s e mm'] postponed by auto

lemma admit_bundle_answered:
  assumes mm: "mm_ok name A mm" and ad: "admissible name A mm i (dict_values d)" and inj: "inj_on name A"
    and rep: "replaces name (dict_values d) i" and n: "item_name i = n"
    and adm: "admit_bundle name mm peak npc v i d = Inr ((c, s, e), mm')"
  shows "answered name A mm n s e mm'"
proof -
  obtain p p' where p: "rfold (remove_from_pool name) (mm_mempool mm) (dict_values d) = Inr p" "add_to_pool name p i = Inr p'"
    "mm_ok name A (mm\<lparr>mm_mempool := p'\<rparr>)" "in_pool p' i" "\<forall>j. in_pool p' j \<longrightarrow> in_pool (mm_mempool mm) j \<or> j = i"
    using admit_changes [OF mm ad inj] by blast
  have new: "answered name A mm n SUCCESS None (mm\<lparr>mm_mempool := p'\<rparr>)"
    by (rule admitted [OF ad n rep p(3,4)]) (use p(5) in blast)
  have "item_made name A i" using ad by (simp add: admissible_def)
  then have pend: "answered name A mm n s e mm'" if "make_pending mm i x = Inr ((c, s, e), mm')" for x
    by (rule make_pending_answered [OF mm _ that])
  show ?thesis
    using adm p(1,2) new pend unfolding admit_bundle_def
    by (auto simp: rbind_eq_Inr split: option.splits if_splits intro: rejected)
qed

lemma add_spendbundle_answered:
  assumes mm: "mm_ok name A mm" and inj: "inj_on name A" and cost: "0 \<le> npc_cost npc"
    and A: "\<And>cs. additions_for_npc npc = Inr cs \<Longrightarrow> set cs \<subseteq> A"
    and run: "add_spendbundle name gen mm sb npc n prog = Inr ((c, s, e), mm')"
  shows "answered name A mm n s e mm'"
proof (cases "mm_peak mm")
  case None
  then show ?thesis using run by (auto simp: add_spendbundle_def intro: rejected)
next
  case (Some peak)
  define g where "g = (case prog of None \<Rightarrow> gen sb | Some g \<Rightarrow> g)"
  obtain r where r: "ebind (examine_bundle name mm peak sb npc n) (\<lambda>v.
      ebind (fee_gate mm (npc_cost npc) (bv_fees_per_cost v)) (\<lambda>_. Inr (Inr v))) = Inr r"
    using run Some by (auto simp: add_spendbundle_def Let_def rbind_eq_Inr)
  show ?thesis
  proof (cases r)
    case (Inl out)
    then have "out = (c, s, e)" "mm' = mm" using run Some r by (auto simp: add_spendbundle_def Let_def rbind_eq_Inr)
    then show ?thesis
      using r Inl examine_bundle_early [of name mm peak sb npc n c s e]
      by (auto simp: ebind_Inr_Inl intro: rejected known dest!: fee_gate_early)
  next
    case (Inr v)
    then have ex: "examine_bundle name mm peak sb npc n = Inr (Inr v)" using r by (auto simp: ebind_Inr_Inr)
    let ?i = "mk_item sb npc n v g"
    have i: "item_ok name ?i" "item_made name A ?i" "mi_cost ?i \<le> mm_mempool_max_total_cost mm"
      "\<not> dict_mem (mp_spends (mm_mempool mm)) (item_name ?i)" and n: "item_name ?i = n"
      using item_facts [OF ex mm cost A] by (auto simp: mk_item_def)
    let ?cs = "filter (\<lambda>c. dict_mem (mp_removals (mm_mempool mm)) (name c)) (bv_removals v)"
    have conf: "name c \<in> rem_names name j \<Longrightarrow> in_pool (mm_mempool mm) j \<Longrightarrow> c \<in> set (bv_removals v) \<Longrightarrow> c \<in> set ?cs" for c j
      using index_mem [of "mm_mempool mm" "mp_removals (mm_mempool mm)" "rem_names name" j] mm_okD(1) [OF mm]
      by (auto simp: pool_ok_def)
    have rn: "rem_names name ?i = name ` set (bv_removals v)" by (simp add: rem_names_def mk_item_def)
    consider (spent) "s = FAILED" "mm' = mm"
      | (none) "?cs = []" "admit_bundle name mm peak npc v ?i [] = Inr ((c, s, e), mm')"
      | (conflict) d ok where "conflicting_items name (mm_mempool mm) ?cs = Inr d"
          "can_replace name d (bv_removal_records v) (bv_fees v) (bv_fees_per_cost v) = Inr ok"
          "if \<not> ok then make_pending mm ?i MEMPOOL_CONFLICT = Inr ((c, s, e), mm')
           else admit_bundle name mm peak npc v ?i d = Inr ((c, s, e), mm')"
      using run Some r Inr
      by (auto simp: add_spendbundle_def Let_def rbind_eq_Inr check_removals_def find_conflicts_eq bv_removals_def
          g_def [symmetric] split: if_splits)
    then show ?thesis
    proof cases
      case none
      have "admissible name A mm ?i []"
        using i conf none(1) unfolding admissible_def rn by auto
      then show ?thesis
        using admit_bundle_answered [OF mm _ inj _ n, of "[]"] none(2) by (simp add: replaces_def dict_values_def)
    next
      case conflict
      note ci = conflicting_items_ok [OF mm_okD(1) [OF mm] conflict(1)]
      have ad: "admissible name A mm ?i (dict_values d)"
        using i conf ci unfolding admissible_def rn by fastforce
      obtain k where "store_ok name k (mm_coin_store mm)" using mm_okD(8) [OF mm] by blast
      then have keys: "set (dict_keys (bv_removal_records v)) = rem_names name ?i"
        using examine_bundle_facts [OF ex] rn by (metis set_map)
      have "0 \<le> mi_fee j" if "j \<in> set (dict_values d)" for j
        using pool_item_ok [OF mm_okD(1) [OF mm] ci(2) [OF that]] by (simp add: item_ok_def)
      then have "replaces name (dict_values d) ?i" if ok
        using can_replace_sound [of name d "bv_removal_records v" "bv_fees v"] conflict(2) that keys
        by (auto simp: replaces_def mk_item_def)
      then show ?thesis
        using admit_bundle_answered [OF mm ad inj _ n] conflict(3) make_pending_answered [OF mm i(2)]
        by (auto split: if_splits)
    qed (auto intro: rejected)
  qed
qed

lemma answered_ok: "mm_ok name A mm \<Longrightarrow> answered name A mm n s e mm' \<Longrightarrow> mm_ok name A mm'"
  by (auto elim: answered.cases)

lemma answered_frame: "answered name A mm n s e mm' \<Longrightarrow> mm_peak mm' = mm_peak mm"
  by (auto elim: answered.cases)

section \<open>New peaks\<close>

lemma mm_ok_fields:
  "mm_ok name A (mm\<lparr>mm_peak := x\<rparr>) = mm_ok name A mm"
  "mm_ok name A (mm\<lparr>mm_seen_bundle_hashes := d\<rparr>) = mm_ok name A mm"
  by (simp_all add: mm_ok_def cost_limit_def)

lemma remove_seen_ok: "mm_ok name A (remove_seen mm h) = mm_ok name A mm"
  by (simp add: remove_seen_def mm_ok_fields)

lemma remove_seen_mempool [simp]: "mm_mempool (remove_seen mm h) = mm_mempool mm"
  by (simp add: remove_seen_def)

lemma kick_spend_ok:
  assumes mm: "mm_ok name A mm"
  shows "\<exists>mm'. kick_spend name mm s = Inr mm' \<and> mm_ok name A mm' \<and>
     (\<forall>j. in_pool (mm_mempool mm') j \<longleftrightarrow> in_pool (mm_mempool mm) j \<and> sp_coin_id s \<notin> rem_names name j)"
proof -
  have ri: "index_ok (mm_mempool mm) (mp_removals (mm_mempool mm)) (rem_names name)"
    using mm_okD(1) [OF mm] by (simp add: pool_ok_def)
  show ?thesis
  proof (cases "dict_get (mp_removals (mm_mempool mm)) (sp_coin_id s)")
    case None
    then have "in_pool (mm_mempool mm) j \<Longrightarrow> sp_coin_id s \<notin> rem_names name j" for j
      using ri unfolding index_ok_def by (metis option.distinct(1))
    then show ?thesis using mm None by (auto simp: kick_spend_def)
  next
    case (Some i)
    then have i: "in_pool (mm_mempool mm) i" "\<And>j. in_pool (mm_mempool mm) j \<Longrightarrow> sp_coin_id s \<in> rem_names name j \<longleftrightarrow> j = i"
      using ri unfolding index_ok_def by (metis option.inject)+
    obtain p where p: "remove_from_pool name (mm_mempool mm) i = Inr p" "pool_ok name p"
      "\<forall>j. in_pool p j \<longleftrightarrow> in_pool (mm_mempool mm) j \<and> j \<noteq> i" "mp_max_size_in_cost p = mp_max_size_in_cost (mm_mempool mm)"
      using remove_from_pool_ok [OF mm_okD(1) [OF mm] i(1)] by blast
    have "mm_ok name A (mm\<lparr>mm_mempool := p\<rparr>)"
      using p(3,4) mm_okD(2,3) [OF mm] by (intro mm_ok_pool [OF mm p(2)]) auto
    then show ?thesis using p(1,3) i(2) Some by (auto simp: kick_spend_def remove_seen_ok)
  qed
qed

lemma kick_all_ok:
  "mm_ok name A mm \<Longrightarrow> \<exists>mm'. rfold (kick_spend name) mm ss = Inr mm' \<and> mm_ok name A mm' \<and>
     (\<forall>j. in_pool (mm_mempool mm') j \<longleftrightarrow>
        in_pool (mm_mempool mm) j \<and> (\<forall>s \<in> set ss. sp_coin_id s \<notin> rem_names name j))"
proof (induction ss arbitrary: mm)
  case (Cons s ss)
  obtain m where "kick_spend name mm s = Inr m" "mm_ok name A m"
    "\<forall>j. in_pool (mm_mempool m) j \<longleftrightarrow> in_pool (mm_mempool mm) j \<and> sp_coin_id s \<notin> rem_names name j"
    using kick_spend_ok [OF Cons.prems] by blast
  then show ?case using Cons.IH [of m] by auto
qed auto

lemma readd_item_answered:
  assumes "mm_ok name A mm" "inj_on name A" "item_made name A i"
    and "readd_item name gen mm i = Inr ((c, s, e), mm')"
  shows "answered name A mm (item_name i) s e mm'"
proof -
  have "0 \<le> npc_cost (mi_npc_result i)" "\<And>cs. additions_for_npc (mi_npc_result i) = Inr cs \<Longrightarrow> set cs \<subseteq> A"
    using assms(3) by (auto simp: item_made_def)
  then show ?thesis
    by (rule add_spendbundle_answered [OF assms(1,2)]) (use assms(4) in \<open>auto simp: readd_item_def\<close>)
qed

lemma restore_all_ok:
  assumes "rfold (restore_item name gen) mm is = Inr mm'" "mm_ok name A mm" "inj_on name A"
    and "\<forall>i \<in> set is. item_made name A i"
  shows "mm_ok name A mm'"
  using assms(1,2)
proof (rule rfold_invariant [where P = "mm_ok name A"])
  fix m i m' assume *: "i \<in> set is" "mm_ok name A m" "restore_item name gen m i = Inr m'"
  then obtain c s e m2 where r: "readd_item name gen m i = Inr ((c, s, e), m2)"
    "m' = (if s \<noteq> SUCCESS then remove_seen m2 (item_name i) else m2)"
    by (auto simp: restore_item_def rbind_eq_Inr split: prod.splits)
  have "answered name A m (item_name i) s e m2"
    using readd_item_answered [OF *(2) assms(3) _ r(1)] *(1) assms(4) by blast
  then show "mm_ok name A m'" using answered_ok [OF *(2)] r(2) by (auto simp: remove_seen_ok)
qed

lemma retry_all_ok:
  assumes "rfold (retry_item name gen) st is = Inr st'" "mm_ok name A (snd st)" "inj_on name A"
    and "\<forall>i \<in> set is. item_made name A i"
  shows "mm_ok name A (snd st')"
  using assms(1,2)
proof (rule rfold_invariant [where P = "\<lambda>st. mm_ok name A (snd st)"])
  fix st i st' assume *: "i \<in> set is" "mm_ok name A (snd st)" "retry_item name gen st i = Inr st'"
  then obtain c s e m2 where r: "readd_item name gen (snd st) i = Inr ((c, s, e), m2)" "snd st' = m2"
    by (auto simp: retry_item_def rbind_eq_Inr split: prod.splits)
  have "answered name A (snd st) (item_name i) s e m2"
    using readd_item_answered [OF *(2) assms(3) _ r(1)] *(1) assms(4) by blast
  then show "mm_ok name A (snd st')" using answered_ok [OF *(2)] r(2) by auto
qed

lemma drain_ok: "mm_ok name A mm \<Longrightarrow> mm_ok name A (mm\<lparr>mm_potential_cache := snd (pending_drain (mm_potential_cache mm))\<rparr>)"
  by (auto simp: mm_ok_def cost_limit_def pending_drain_def pending_ok_def dict_ok_def dict_keys_def dict_values_def)

lemma pool_values_in: "pool_ok name p \<Longrightarrow> i \<in> set (dict_values (mp_spends p)) \<Longrightarrow> in_pool p i"
  unfolding pool_ok_def in_pool_def dict_values_def using dict_get_iff [of "mp_spends p"] by fastforce

lemma refresh_mempool_ok:
  assumes mm: "mm_ok name A mm" and inj: "inj_on name A" and run: "refresh_mempool name gen mm opt last_npc = Inr mm'"
  shows "mm_ok name A mm'"
proof -
  have empty: "mm_ok name A (mm\<lparr>mm_mempool := new_mempool (mm_mempool_max_total_cost mm)\<rparr>)"
  proof (rule mm_ok_pool [OF mm])
    have "0 \<le> mm_mempool_max_total_cost mm" using mm by (simp add: mm_ok_def)
    then show "pool_ok name (new_mempool (mm_mempool_max_total_cost mm))" by (rule new_mempool_ok)
  qed (auto simp: in_pool_def new_mempool_def dict_simps)
  have made: "\<forall>i \<in> set (dict_values (mp_spends (mm_mempool mm))). item_made name A i"
    using pool_values_in [OF mm_okD(1) [OF mm]] mm_okD(2) [OF mm] by simp
  have kick: "rfold (kick_spend name) mm ss = Inr m \<Longrightarrow> mm_ok name A m" for ss m
    using kick_all_ok [OF mm, of ss] by auto
  show ?thesis
    using run restore_all_ok [OF _ empty inj made] kick mm by (auto simp: refresh_mempool_def split: option.splits)
qed

lemma new_peak_ok:
  assumes mm: "mm_ok name A mm" and inj: "inj_on name A"
    and run: "new_peak name gen mm peak last_npc = Inr (txs, mm')"
  shows "mm_ok name A mm'"
proof (cases "\<exists>b. peak = Some b \<and> is_transaction_block b \<and> mm_peak mm \<noteq> Some b")
  case False
  then show ?thesis using run mm by (auto simp: new_peak_def split: option.splits if_splits)
next
  case True
  then obtain b where b: "peak = Some b" "is_transaction_block b" "mm_peak mm \<noteq> Some b" by blast
  have m0: "mm_ok name A (mm\<lparr>mm_peak := Some b\<rparr>)" using mm by (simp add: mm_ok_fields)
  obtain opt m1 where m1: "refresh_mempool name gen (mm\<lparr>mm_peak := Some b\<rparr>) opt last_npc = Inr m1"
    and r: "rfold (retry_item name gen) ([], m1\<lparr>mm_potential_cache := snd (pending_drain (mm_potential_cache m1))\<rparr>)
              (dict_values (fst (pending_drain (mm_potential_cache m1)))) = Inr (txs, mm')"
    using run b by (auto simp: new_peak_def Let_def rbind_eq_Inr case_prod_beta split: option.splits)
  have "mm_ok name A m1" by (rule refresh_mempool_ok [OF m0 inj m1])
  then show ?thesis
    using retry_all_ok [OF r _ inj] drain_ok mm_okD(7) by (auto simp: pending_drain_def)
qed

section \<open>Making a block from the pool\<close>

lemma take_items_prefix:
  assumes "take_items limit m cs fs xs = Inr ys"
  shows "\<exists>zs. xs = ys @ zs" and "ys \<noteq> [] \<Longrightarrow> int_le_fl (cs + sum_list (map mi_cost ys)) limit"
    and "ys \<noteq> [] \<Longrightarrow> fs + sum_list (map mi_fee ys) \<le> m"
proof -
  have "(\<exists>zs. xs = ys @ zs) \<and> (ys \<noteq> [] \<longrightarrow> int_le_fl (cs + sum_list (map mi_cost ys)) limit \<and> fs + sum_list (map mi_fee ys) \<le> m)"
    using assms
  proof (induction limit m cs fs xs arbitrary: ys rule: take_items.induct)
    case (2 limit m cs fs x xs)
    show ?case
    proof (cases "int_le_fl (mi_cost x + cs) limit \<and> mi_fee x + fs \<le> m")
      case True
      with 2(2) obtain q zs where q: "fl_div (mi_fee x) (mi_cost x) = Inr q"
        "take_items limit m (cs + mi_cost x) (fs + mi_fee x) xs = Inr zs" "ys = x # zs"
        by (auto simp: rbind_eq_Inr)
      from 2(1) [OF q(1) True q(2)] True show ?thesis by (cases zs) (auto simp: q(3) algebra_simps)
    qed (use 2(2) in \<open>auto simp: rbind_eq_Inr split: if_splits\<close>)
  qed simp
  then show "\<exists>zs. xs = ys @ zs" and "ys \<noteq> [] \<Longrightarrow> int_le_fl (cs + sum_list (map mi_cost ys)) limit"
    and "ys \<noteq> [] \<Longrightarrow> fs + sum_list (map mi_fee ys) \<le> m" by blast+
qed

lemma take_items_total:
  "(\<And>i. i \<in> set xs \<Longrightarrow> mi_cost i \<noteq> 0) \<Longrightarrow> \<exists>ys. take_items limit m cs fs xs = Inr ys"
proof (induction xs arbitrary: cs fs)
  case (Cons x xs)
  obtain ys where "take_items limit m (cs + mi_cost x) (fs + mi_fee x) xs = Inr ys" using Cons by force
  then show ?case using Cons.prems by (simp add: fl_div_def)
qed simp

lemma sorted_wrt_concat:
  assumes "\<And>xs. xs \<in> set xss \<Longrightarrow> sorted_wrt R xs" "sorted_wrt (\<lambda>xs ys. \<forall>x \<in> set xs. \<forall>y \<in> set ys. R x y) xss"
  shows "sorted_wrt R (concat xss)"
  using assms by (induction xss) (auto simp: sorted_wrt_append)

text \<open>Highest fee rate first, and no item twice.\<close>

definition before :: "mempool_item \<Rightarrow> mempool_item \<Rightarrow> bool" where
  "before i j \<longleftrightarrow> item_less i j = Inr False \<and> item_name i \<noteq> item_name j"

lemma bucket_items:
  assumes so: "sorted_spends_ok p" and mem: "(f, d) \<in> set (mp_sorted_spends p)" and v: "(n, i) \<in> set d"
  shows "in_pool p i \<and> item_name i = n \<and> fee_per_cost i = Inr f" and "dict_ok d"
proof -
  have ok: "dict_ok (mp_sorted_spends p)" using so keys_sorted_ok unfolding sorted_spends_ok_def by blast
  have get: "dict_get (mp_sorted_spends p) f = Some d" using mem dict_get_iff [OF ok] by blast
  then show d: "dict_ok d" using so unfolding sorted_spends_ok_def by blast
  have "by_fee p f n = Some i" using get v dict_get_iff [OF d] by (simp add: by_fee_def)
  then show "in_pool p i \<and> item_name i = n \<and> fee_per_cost i = Inr f" using so unfolding sorted_spends_ok_def by blast
qed

lemma items_descending_set:
  assumes "pool_ok name p"
  shows "i \<in> set (items_descending p) \<longleftrightarrow> in_pool p i"
proof -
  have so: "sorted_spends_ok p" using assms by (simp add: pool_ok_def)
  have "in_pool p i" if "i \<in> set (items_descending p)"
    using that bucket_items(1) [OF so] by (auto simp: items_descending_def dict_values_def)
  moreover have "i \<in> set (items_descending p)" if i: "in_pool p i"
  proof -
    obtain f where "fee_per_cost i = Inr f" using fee_per_cost_ok [OF pool_item_ok [OF assms i]] by blast
    then have "by_fee p f (item_name i) = Some i" using so i unfolding sorted_spends_ok_def by blast
    then show ?thesis
      by (force simp: by_fee_def items_descending_def dict_get_def dict_values_def split: option.splits dest: map_of_SomeD)
  qed
  ultimately show ?thesis by blast
qed

lemma items_descending_sorted:
  assumes ok: "pool_ok name p"
  shows "sorted_wrt before (items_descending p)"
  unfolding items_descending_def
proof (rule sorted_wrt_concat)
  have so: "sorted_spends_ok p" and ks: "keys_sorted (mp_sorted_spends p)"
    using ok by (auto simp: pool_ok_def sorted_spends_ok_def)
  have norm: "fl_normal f" if "(f, d) \<in> set (mp_sorted_spends p)" for f d
    using ks that by (force simp: keys_sorted_def dict_keys_def list_all_iff)
  fix xs assume "xs \<in> set (map dict_values (rev (dict_values (mp_sorted_spends p))))"
  then obtain f d where fd: "(f, d) \<in> set (mp_sorted_spends p)" "xs = dict_values d" by (auto simp: dict_values_def)
  have "before (snd x) (snd y)" if "x \<in> set d" "y \<in> set d" "fst x \<noteq> fst y" for x y
    using that bucket_items(1) [OF so fd(1), of "fst x" "snd x"] bucket_items(1) [OF so fd(1), of "fst y" "snd y"]
      norm [OF fd(1)] by (auto simp: before_def item_less_def fl_less_irrefl)
  moreover have "dict_ok d" using bucket_items(2) [OF so fd(1)] by (cases d) (auto simp: dict_ok_def dict_keys_def)
  ultimately show "sorted_wrt before xs"
    unfolding fd(2) dict_values_def dict_ok_def dict_keys_def
    by (auto simp: sorted_wrt_map sorted_wrt_iff_nth_less distinct_conv_nth)
next
  have so: "sorted_spends_ok p" and ks: "keys_sorted (mp_sorted_spends p)"
    using ok by (auto simp: pool_ok_def sorted_spends_ok_def)
  have "before i j" if "(f, d) \<in> set (mp_sorted_spends p)" "(g, e) \<in> set (mp_sorted_spends p)" "fl_less g f"
    "i \<in> set (dict_values d)" "j \<in> set (dict_values e)" for f d g e i j
  proof -
    have fi: "in_pool p i" "fee_per_cost i = Inr f" and fj: "in_pool p j" "fee_per_cost j = Inr g"
      using that(4,5) bucket_items(1) [OF so that(1)] bucket_items(1) [OF so that(2)] by (auto simp: dict_values_def)
    have n: "fl_normal f" "fl_normal g" using ks that(1,2) by (force simp: keys_sorted_def dict_keys_def list_all_iff)+
    have "\<not> fl_less f g" using fl_less_trans [OF n(2,1,2) that(3)] fl_less_irrefl [OF n(2)] by blast
    moreover have "f \<noteq> g" using that(3) fl_less_irrefl [OF n(2)] by blast
    ultimately show ?thesis
      using fi fj pool_unique [OF ok fi(1) fj(1)] by (auto simp: before_def item_less_def)
  qed
  note ord = this
  have "sorted_wrt (\<lambda>x y. fl_less (fst x) (fst y)) (mp_sorted_spends p)"
    using ks by (simp add: keys_sorted_def dict_keys_def sorted_wrt_map)
  then have "sorted_wrt (\<lambda>y x. \<forall>i \<in> set (dict_values (snd x)). \<forall>j \<in> set (dict_values (snd y)). before i j) (mp_sorted_spends p)"
  proof (rule sorted_wrt_mono_rel [rotated])
    fix y x assume "y \<in> set (mp_sorted_spends p)" "x \<in> set (mp_sorted_spends p)" "fl_less (fst y) (fst x)"
    then show "\<forall>i \<in> set (dict_values (snd x)). \<forall>j \<in> set (dict_values (snd y)). before i j"
      using ord [of "fst x" "snd x" "fst y" "snd y"] by simp
  qed
  then show "sorted_wrt (\<lambda>xs ys. \<forall>x \<in> set xs. \<forall>y \<in> set ys. before x y)
      (map dict_values (rev (dict_values (mp_sorted_spends p))))"
    unfolding dict_values_def [of "mp_sorted_spends p"] by (simp only: rev_map sorted_wrt_map sorted_wrt_rev)
qed

lemma double_spend_free:
  "pool_ok name p \<Longrightarrow> in_pool p i \<Longrightarrow> in_pool p j \<Longrightarrow> i \<noteq> j \<Longrightarrow> rem_names name i \<inter> rem_names name j = {}"
  unfolding pool_ok_def index_ok_def by (metis disjoint_iff option.inject)

lemma distinct_removals:
  assumes "pool_ok name p" "\<And>i. i \<in> set is \<Longrightarrow> in_pool p i" "distinct is"
  shows "distinct (map name (concat (map mi_removals is)))"
  using assms(2,3)
proof (induction "is")
  case (Cons i "is")
  have "distinct (map name (mi_removals i))"
    using pool_item_ok [OF assms(1) Cons.prems(1) [of i]] by (simp add: item_ok_def)
  moreover have "name ` set (mi_removals i) \<inter> name ` set (mi_removals j) = {}" if "j \<in> set is" for j
    using double_spend_free [OF assms(1) Cons.prems(1) [of i] Cons.prems(1) [of j]] that Cons.prems(2)
    by (auto simp: rem_names_def)
  ultimately show ?case using Cons by (auto simp: image_iff)
qed simp

section \<open>A sample manager\<close>

definition sample_row :: row where
  "sample_row = \<lparr>row_coin_name = replicate 32 1, row_confirmed_index = 1, row_spent_index = 0, row_coinbase = False,
     row_puzzle_hash = replicate 32 1, row_coin_parent = replicate 32 0, row_amount = be_encode 8 20000000,
     row_timestamp = 50\<rparr>"

definition sample_mm :: mempool_manager where
  "sample_mm = (new_mempool_manager [sample_row] DEFAULT_CONSTANTS)\<lparr>mm_peak := Some (sample_block 1 0 5)\<rparr>"

definition sample_npc :: "byte \<Rightarrow> int \<Rightarrow> npc_result" where
  "sample_npc h amt = \<lparr>npc_error = None,
     npc_conds = Some \<lparr>sc_spends = [\<lparr>sp_coin_id = replicate 32 1, sp_puzzle_hash = replicate 32 1,
         sp_height_relative = Some 2, sp_seconds_relative = 0, sp_create_coin = [(replicate 32 h, amt, None)],
         sp_agg_sig_me = []\<rparr>],
       sc_reserve_fee = 0, sc_height_absolute = 0, sc_seconds_absolute = 0, sc_agg_sig_unsafe = [], sc_cost = 1\<rparr>,
     npc_cost = 1\<rparr>"

definition sample_spend :: spend_bundle where
  "sample_spend = \<lparr>sb_coin_spends = [\<lparr>cs_spent_coin =
       \<lparr>parent_coin_info = replicate 32 0, puzzle_hash = replicate 32 1, amount = 20000000\<rparr>,
       cs_puzzle_reveal = [], cs_solution = []\<rparr>], sb_aggregated_signature = []\<rparr>"

definition sample_coins :: "coin set" where
  "sample_coins = {\<lparr>parent_coin_info = replicate 32 1, puzzle_hash = replicate 32 2, amount = 20000000\<rparr>,
     \<lparr>parent_coin_info = replicate 32 1, puzzle_hash = replicate 32 3, amount = 5000000\<rparr>}"

abbreviation sample_add :: "mempool_manager \<Rightarrow> npc_result \<Rightarrow> bytes \<Rightarrow> (add_result \<times> mempool_manager) res" where
  "sample_add mm npc n \<equiv> add_spendbundle puzzle_hash (\<lambda>_. []) mm sample_spend npc n None"

definition sample_mm1 :: mempool_manager where
  "sample_mm1 = (case sample_add sample_mm (sample_npc 2 20000000) [1] of Inr (_, mm) \<Rightarrow> mm | Inl _ \<Rightarrow> sample_mm)"

definition sample_mm2 :: mempool_manager where
  "sample_mm2 = (case sample_add sample_mm1 (sample_npc 3 5000000) [2] of Inr (_, mm) \<Rightarrow> mm | Inl _ \<Rightarrow> sample_mm)"

lemma sample_runs:
  "sample_add sample_mm (sample_npc 2 20000000) [1] = Inr ((Some 1, SUCCESS, None), sample_mm1)"
  "sample_add sample_mm1 (sample_npc 3 5000000) [2] = Inr ((Some 1, SUCCESS, None), sample_mm2)"
  "\<not> dict_mem (mp_spends (mm_mempool sample_mm1)) [2]"
  "additions_for_npc (sample_npc 2 20000000) =
     Inr [\<lparr>parent_coin_info = replicate 32 1, puzzle_hash = replicate 32 2, amount = 20000000\<rparr>]"
  "additions_for_npc (sample_npc 3 5000000) =
     Inr [\<lparr>parent_coin_info = replicate 32 1, puzzle_hash = replicate 32 3, amount = 5000000\<rparr>]"
  by code_simp+

lemma sample_inj: "inj_on puzzle_hash sample_coins"
  by (simp add: inj_on_def sample_coins_def)

lemma sample_cost: "0 \<le> npc_cost (sample_npc h amt)"
  by (simp add: sample_npc_def)

lemma sample_additions:
  "\<forall>cs. additions_for_npc (sample_npc 2 20000000) = Inr cs \<longrightarrow> set cs \<subseteq> sample_coins"
  "\<forall>cs. additions_for_npc (sample_npc 3 5000000) = Inr cs \<longrightarrow> set cs \<subseteq> sample_coins"
  by (simp_all add: sample_runs sample_coins_def)

lemma sample_mm_ok: "mm_ok puzzle_hash sample_coins sample_mm"
proof -
  have "store_ok puzzle_hash 5 [sample_row]" "0 \<le> mm_mempool_max_total_cost sample_mm"
    "fl_trunc (cost_limit sample_mm) \<le> mm_mempool_max_total_cost sample_mm"
    by code_simp+
  moreover have "mm_coin_store sample_mm = [sample_row]" "mm_mempool sample_mm = new_mempool (mm_mempool_max_total_cost sample_mm)"
    "mm_potential_cache sample_mm = new_pending_tx_cache 11000000000"
    by (simp_all add: sample_mm_def new_mempool_manager_def Let_def DEFAULT_CONSTANTS_def)
  ultimately show ?thesis
    unfolding mm_ok_def using new_mempool_ok [of "mm_mempool_max_total_cost sample_mm" puzzle_hash]
    by (auto simp: in_pool_def new_mempool_def dict_simps new_pending_tx_cache_def pending_ok_def dict_ok_def
        dict_keys_def dict_values_def)
qed

section \<open>Properties\<close>

text \<open>C29. Adding a bundle.  Let the manager be consistent (\<open>mm_ok\<close>: the pool's dictionaries agree, its items and
  the pending ones are what their conditions say, the store is one a node can have) and let no two of the coins
  that pool, cache and bundle create collide in their names.  Whatever \<open>add_spendbundle\<close> answers, the manager is
  consistent again and no two items of the pool spend the same coin; a bundle that failed changed nothing, a
  pending one left the pool as it was, and after success the bundle is in the pool.\<close>

theorem add_spendbundle_sound:
  assumes "mm_ok name A mm" and "inj_on name A" and "0 \<le> npc_cost npc"
    and "\<forall>cs. additions_for_npc npc = Inr cs \<longrightarrow> set cs \<subseteq> A"
    and "add_spendbundle name gen mm sb npc n prog = Inr ((cost, status, e), mm')"
  shows "mm_ok name A mm' \<and>
     (\<forall>i j. in_pool (mm_mempool mm') i \<and> in_pool (mm_mempool mm') j \<and> i \<noteq> j \<longrightarrow>
        rem_names name i \<inter> rem_names name j = {}) \<and>
     (status = FAILED \<longrightarrow> mm' = mm) \<and> (status = PENDING \<longrightarrow> mm_mempool mm' = mm_mempool mm) \<and>
     (status = SUCCESS \<longrightarrow> dict_mem (mp_spends (mm_mempool mm')) n)"
proof -
  have ans: "answered name A mm n status e mm'"
    by (rule add_spendbundle_answered [OF assms(1-3) _ assms(5)]) (use assms(4) in blast)
  have ok: "mm_ok name A mm'" by (rule answered_ok [OF assms(1) ans])
  have "(status = FAILED \<longrightarrow> mm' = mm) \<and> (status = PENDING \<longrightarrow> mm_mempool mm' = mm_mempool mm) \<and>
     (status = SUCCESS \<longrightarrow> dict_mem (mp_spends (mm_mempool mm')) n)"
    using ans by cases (auto simp: in_pool_def dict_mem_def)
  then show ?thesis using ok double_spend_free [OF mm_okD(1) [OF ok]] by blast
qed

theorem add_spendbundle_sound_witness:
  "mm_ok puzzle_hash sample_coins sample_mm1 \<and> dict_mem (mp_spends (mm_mempool sample_mm1)) [1]"
  using add_spendbundle_sound [OF sample_mm_ok sample_inj sample_cost sample_additions(1) sample_runs(1)] by simp



text \<open>A new peak.  Whatever block becomes the peak, the manager that \<open>new_peak\<close> leaves is consistent.  When
  the block follows the old peak and its conditions are known, refreshing the pool never fails and throws out
  exactly the items that spend a coin the block spent.\<close>

lemma new_peak_keeps_pool:
  assumes "mm_ok name A mm" and "inj_on name A"
  shows "(\<forall>peak last_npc txs mm'. new_peak name gen mm peak last_npc = Inr (txs, mm') \<longrightarrow> mm_ok name A mm') \<and>
     (\<forall>npc conds. npc_conds npc = Some conds \<longrightarrow>
        (\<exists>mm'. refresh_mempool name gen mm True (Some npc) = Inr mm' \<and>
           (\<forall>j. in_pool (mm_mempool mm') j \<longleftrightarrow> in_pool (mm_mempool mm) j \<and>
              (\<forall>s. s \<in> set (sc_spends conds) \<longrightarrow> sp_coin_id s \<notin> rem_names name j))))"
  using new_peak_ok [OF assms] kick_all_ok [OF assms(1)] by (fastforce simp: refresh_mempool_def)

lemma new_peak_keeps_pool_witness:
  "\<exists>mm'. refresh_mempool puzzle_hash (\<lambda>_. []) sample_mm1 True (Some (sample_npc 3 5000000)) = Inr mm' \<and>
     (\<forall>j. in_pool (mm_mempool mm') j \<longrightarrow> in_pool (mm_mempool sample_mm1) j \<and> replicate 32 1 \<notin> rem_names puzzle_hash j)"
proof -
  have "mm_ok puzzle_hash sample_coins sample_mm1"
    using add_spendbundle_answered [OF sample_mm_ok sample_inj sample_cost _ sample_runs(1)] sample_additions(1)
      answered_ok [OF sample_mm_ok] by blast
  from conjunct2 [OF new_peak_keeps_pool [OF this sample_inj, of "\<lambda>_. []"], rule_format, of "sample_npc 3 5000000"]
  show ?thesis by (fastforce simp: sample_npc_def)
qed

text \<open>C31. Making a block.  At the peak it was asked for, \<open>create_bundle_from_mempool\<close> always returns.  What it
  returns is the aggregate of pool items that fit the cost limit together and whose fees fit the maximal coin
  amount; no coin is spent twice, and no item left out has a higher fee rate than one taken.\<close>

theorem create_bundle_best:
  assumes "pool_ok name (mm_mempool mm)" and "mm_peak mm = Some b" and "MAX_BLOCK_COST_CLVM (mm_constants mm) \<noteq> 0"
  shows "\<exists>items. create_bundle_from_mempool agg mm (br_header_hash b) =
       Inr (if items = [] then None
            else Some (sb_aggregate agg (map mi_spend_bundle items), concat (map mi_additions items),
                       concat (map mi_removals items))) \<and>
     (items \<noteq> [] \<longrightarrow> int_le_fl (sum_list (map mi_cost items)) (cost_limit mm) \<and>
        sum_list (map mi_fee items) \<le> MAX_COIN_AMOUNT (mm_constants mm)) \<and>
     distinct (map name (concat (map mi_removals items))) \<and>
     (\<forall>i j. i \<in> set items \<and> in_pool (mm_mempool mm) j \<and> j \<notin> set items \<longrightarrow>
        in_pool (mm_mempool mm) i \<and> item_less i j = Inr False)"
proof -
  let ?d = "items_descending (mm_mempool mm)"
  have inp: "i \<in> set ?d \<longleftrightarrow> in_pool (mm_mempool mm) i" for i by (rule items_descending_set [OF assms(1)])
  have "mi_cost i \<noteq> 0" if "i \<in> set ?d" for i
    using pool_item_ok [OF assms(1), of i] that inp by (auto simp: item_ok_def)
  then obtain ys where ys: "take_items (cost_limit mm) (MAX_COIN_AMOUNT (mm_constants mm)) 0 0 ?d = Inr ys"
    using take_items_total by blast
  obtain zs where zs: "?d = ys @ zs" using take_items_prefix(1) [OF ys] by blast
  have inp: "in_pool (mm_mempool mm) i \<longleftrightarrow> i \<in> set ys \<or> i \<in> set zs" for i
    using inp [of i] unfolding zs by simp
  have srt: "sorted_wrt before (ys @ zs)" using items_descending_sorted [OF assms(1)] unfolding zs .
  then have "sorted_wrt before ys" "\<And>i j. i \<in> set ys \<Longrightarrow> j \<in> set zs \<Longrightarrow> before i j"
    by (simp_all add: sorted_wrt_append)
  then have less: "item_less i j = Inr False" if "i \<in> set ys" "in_pool (mm_mempool mm) j" "j \<notin> set ys" for i j
    using that inp [of j] unfolding before_def by blast
  have "distinct ys" using \<open>sorted_wrt before ys\<close> by (induction ys) (auto simp: before_def)
  then have "distinct (map name (concat (map mi_removals ys)))"
    by (rule distinct_removals [OF assms(1) _, rotated]) (simp add: inp)
  moreover have "create_bundle_from_mempool agg mm (br_header_hash b) =
       Inr (if ys = [] then None
            else Some (sb_aggregate agg (map mi_spend_bundle ys), concat (map mi_additions ys), concat (map mi_removals ys)))"
    using ys assms(2,3) by (simp add: create_bundle_from_mempool_def fl_div_def)
  moreover have "ys \<noteq> [] \<longrightarrow> int_le_fl (sum_list (map mi_cost ys)) (cost_limit mm) \<and>
        sum_list (map mi_fee ys) \<le> MAX_COIN_AMOUNT (mm_constants mm)"
    using take_items_prefix(2,3) [OF ys] by simp
  ultimately show ?thesis using less inp by blast
qed

theorem create_bundle_best_witness:
  "\<exists>items :: mempool_item list. create_bundle_from_mempool (\<lambda>_. []) (sample_mm\<lparr>mm_mempool := sample_pool\<rparr>) [1] =
       Inr (if items = [] then None
            else Some (sb_aggregate (\<lambda>_. []) (map mi_spend_bundle items), concat (map mi_additions items),
                       concat (map mi_removals items))) \<and>
     distinct (map parent_coin_info (concat (map mi_removals items)))"
proof -
  let ?mm = "sample_mm\<lparr>mm_mempool := sample_pool\<rparr>"
  have mm: "pool_ok parent_coin_info (mm_mempool ?mm)" "mm_peak ?mm = Some (sample_block 1 0 5)"
    "MAX_BLOCK_COST_CLVM (mm_constants ?mm) \<noteq> 0"
    using sample_pool_ok(1) by (simp_all add: sample_mm_def new_mempool_manager_def Let_def DEFAULT_CONSTANTS_def)
  have h: "br_header_hash (sample_block 1 0 5) = [1]" by (simp add: sample_block_def)
  show ?thesis
    using create_bundle_best [OF mm, of "\<lambda>_. []"] unfolding h by blast
qed

end
