(* ===== verification/BodyValidation.thy ===== *)
theory BodyValidation
  imports MempoolManager BlockTypes CachedBls
begin

text \<open>
  \<open>consensus/block_body_validation.py\<close> and \<open>consensus/block_root_validation.py\<close>: whether the transactions of a
  block are allowed.  The function \<open>validate_block_body\<close> is one sequence of numbered checks; each group of them
  is a definition here, in the order of the code.  A check answers \<open>Inl e\<close> for \<open>return e, None\<close>.

  Parameters are what the function calls outside the repository: the Merkle root of \<open>chia_rs\<close>, the filter of
  \<open>chiabip158\<close>, the integer encoding of \<open>clvm\<close>, the CLVM run of a generator and the BLS library; and the two
  arguments through which it reads blocks, \<open>block_store.get_full_block\<close> and \<open>get_block_generator\<close>.
\<close>

section \<open>Blocks and parameters\<close>

datatype body_block = FullB full_block | UnfinishedB unfinished_block

fun bb_foliage :: "body_block \<Rightarrow> foliage" where
  "bb_foliage (FullB b) = fb_foliage b"
| "bb_foliage (UnfinishedB b) = ub_foliage b"

fun bb_foliage_transaction_block :: "body_block \<Rightarrow> foliage_transaction_block option" where
  "bb_foliage_transaction_block (FullB b) = fb_foliage_transaction_block b"
| "bb_foliage_transaction_block (UnfinishedB b) = ub_foliage_transaction_block b"

fun bb_transactions_info :: "body_block \<Rightarrow> transactions_info option" where
  "bb_transactions_info (FullB b) = fb_transactions_info b"
| "bb_transactions_info (UnfinishedB b) = ub_transactions_info b"

fun bb_transactions_generator :: "body_block \<Rightarrow> bytes option" where
  "bb_transactions_generator (FullB b) = fb_transactions_generator b"
| "bb_transactions_generator (UnfinishedB b) = ub_transactions_generator b"

fun bb_transactions_generator_ref_list :: "body_block \<Rightarrow> int list" where
  "bb_transactions_generator_ref_list (FullB b) = fb_transactions_generator_ref_list b"
| "bb_transactions_generator_ref_list (UnfinishedB b) = ub_transactions_generator_ref_list b"

definition bb_prev_header_hash :: "body_block \<Rightarrow> bytes" where
  "bb_prev_header_hash b = fo_prev_block_hash (bb_foliage b)"

record block_generator =
  bg_program :: bytes
  bg_generator_refs :: "bytes list"
  bg_block_height_list :: "int list"

record ('g1, 'g2, 'gt) body_lib =
  bl_std_hash :: hasher
  bl_int_to_bytes :: "int \<Rightarrow> bytes"
  bl_merkle_set_root :: "bytes list \<Rightarrow> bytes"
  bl_bip158 :: "bytes list \<Rightarrow> bytes"
  bl_mempool_flags :: int
  bl_soft_fork_flags :: int
  bl_run_as_generator ::
    "int \<Rightarrow> int \<Rightarrow> bytes \<Rightarrow> bytes list \<Rightarrow> (int option \<times> spend_bundle_conditions option) res"
  bl_get_full_block :: "bytes \<Rightarrow> full_block option res"
  bl_get_block_generator :: "full_block \<Rightarrow> block_generator option res"
  bl_bls :: "('g1, 'g2, 'gt) bls"
  bl_g2_element :: "bytes \<Rightarrow> 'g2"

abbreviation bl_name :: "('g1, 'g2, 'gt) body_lib \<Rightarrow> coin \<Rightarrow> bytes" where
  "bl_name L \<equiv> coin_name (bl_std_hash L) (bl_int_to_bytes L)"

section \<open>Running a generator\<close>

text \<open>\<open>get_name_puzzle_conditions\<close>: everything raised while the generator runs becomes an error code.  The two
  assertions on the library's flag constants are facts about the library.\<close>

definition npc_of_run :: "int \<Rightarrow> int option \<times> spend_bundle_conditions option \<Rightarrow> npc_result res" where
  "npc_of_run size_cost r =
     (case r of
        (Some e, None) \<Rightarrow>
          rbind (uint16 e) (\<lambda>e. rbind (uint64 0) (\<lambda>c. Inr \<lparr>npc_error = Some e, npc_conds = None, npc_cost = c\<rparr>))
      | (None, Some conds) \<Rightarrow>
          rbind (uint64 (sc_cost conds + size_cost)) (\<lambda>c.
          Inr \<lparr>npc_error = None, npc_conds = Some conds, npc_cost = c\<rparr>)
      | _ \<Rightarrow> Inl AssertionError)"

definition get_name_puzzle_conditions ::
  "('g1, 'g2, 'gt) body_lib \<Rightarrow> block_generator \<Rightarrow> int \<Rightarrow> int \<Rightarrow> bool \<Rightarrow> int option \<Rightarrow> npc_result res" where
  "get_name_puzzle_conditions L generator max_cost cost_per_byte mempool_mode height =
     (let size_cost = int (length (bg_program generator)) * cost_per_byte; max_cost' = max_cost - size_cost in
      if max_cost' < 0 then Inr \<lparr>npc_error = Some (err_value INVALID_BLOCK_COST), npc_conds = None, npc_cost = 0\<rparr>
      else
        rbind (rguard AssertionError (mempool_mode \<or> height \<noteq> None)) (\<lambda>_.
        let flags = (if mempool_mode then bl_mempool_flags L
                     else if the height \<ge> SOFT_FORK_HEIGHT DEFAULT_CONSTANTS then bl_soft_fork_flags L else 0)
        in (case rbind (bl_run_as_generator L max_cost' flags (bg_program generator) (bg_generator_refs generator))
                       (npc_of_run size_cost) of
              Inr npc \<Rightarrow> Inr npc
            | Inl _ \<Rightarrow> Inr \<lparr>npc_error = Some (err_value GENERATOR_RUNTIME_ERROR), npc_conds = None, npc_cost = 0\<rparr>)))"

section \<open>The roots of the foliage\<close>

definition puzzlehash_coins_map :: "(coin \<times> bytes) list \<Rightarrow> (bytes, bytes list) dict" where
  "puzzlehash_coins_map tx_additions =
     foldl (\<lambda>d (c, cname).
        dict_set d (puzzle_hash c) (case dict_get d (puzzle_hash c) of None \<Rightarrow> [cname] | Some ns \<Rightarrow> ns @ [cname]))
       [] tx_additions"

definition additions_merkle_items :: "hasher \<Rightarrow> (coin \<times> bytes) list \<Rightarrow> bytes list" where
  "additions_merkle_items std_hash tx_additions =
     concat (map (\<lambda>(puzzle, coin_ids). [puzzle, hash_coin_ids std_hash coin_ids]) (puzzlehash_coins_map tx_additions))"

definition validate_block_merkle_roots ::
  "hasher \<Rightarrow> (bytes list \<Rightarrow> bytes) \<Rightarrow> bytes \<Rightarrow> bytes \<Rightarrow> (coin \<times> bytes) list \<Rightarrow> bytes list \<Rightarrow> err option res" where
  "validate_block_merkle_roots std_hash merkle_set_root block_additions_root block_removals_root tx_additions tx_removals =
     rbind (bytes32 (merkle_set_root (additions_merkle_items std_hash tx_additions))) (\<lambda>additions_root.
     rbind (bytes32 (merkle_set_root tx_removals)) (\<lambda>removals_root.
     Inr (if block_additions_root \<noteq> additions_root then Some BAD_ADDITION_ROOT
          else if block_removals_root \<noteq> removals_root then Some BAD_REMOVAL_ROOT else None)))"

section \<open>Checks 1 to 8: hashes, rewards and generator\<close>

definition validate_empty_body :: "block_cache \<Rightarrow> body_block \<Rightarrow> (err + unit) res" where
  "validate_empty_body blocks b =
     ebind (ereturn (bb_foliage_transaction_block b \<noteq> None \<or> bb_transactions_info b \<noteq> None \<or>
                     bb_transactions_generator b \<noteq> None) NOT_BLOCK_BUT_HAS_DATA) (\<lambda>_.
     rbind (block_record blocks (bb_prev_header_hash b)) (\<lambda>p.
     rbind (walk_back blocks (\<lambda>r. \<not> is_transaction_block r) p) (\<lambda>prev_tb.
     rbind (rguard AssertionError (br_timestamp prev_tb \<noteq> None)) (\<lambda>_.
     ereturn (length (bb_transactions_generator_ref_list b) > 0) NOT_BLOCK_BUT_HAS_DATA))))"

definition check_info_hashes ::
  "hasher \<Rightarrow> foliage \<Rightarrow> foliage_transaction_block \<Rightarrow> transactions_info \<Rightarrow> (err + unit) res" where
  "check_info_hashes std_hash f ftb ti =
     rbind (streamable_get_hash std_hash transactions_info_fields (transactions_info_val ti)) (\<lambda>ti_hash.
     ebind (ereturn (ft_transactions_info_hash ftb \<noteq> ti_hash) INVALID_TRANSACTIONS_INFO_HASH) (\<lambda>_.
     rbind (streamable_get_hash std_hash foliage_transaction_block_fields (foliage_transaction_block_val ftb)) (\<lambda>ftb_hash.
     ereturn (fo_foliage_transaction_block_hash f \<noteq> Some ftb_hash) INVALID_FOLIAGE_BLOCK_HASH)))"

text \<open>The reward coins of one earlier block; the farmer coin of the previous transaction block includes its fees.\<close>

definition community_puzzle_hash_at :: "consensus_constants \<Rightarrow> int \<Rightarrow> bytes" where
  "community_puzzle_hash_at constants height =
     (if height > 2600000 then hex32 0x715def9fe21c793076f4e5d13b18326822103f26e459ec76e8b4850f38bddb3c
      else GENESIS_PRE_FARM_COMMUNITY_PUZZLE_HASH constants)"

definition rewards_of_block ::
  "consensus_constants \<Rightarrow> bytes \<Rightarrow> (int \<Rightarrow> int res) \<Rightarrow> block_record \<Rightarrow> coin list res" where
  "rewards_of_block constants community_ph with_fees b =
     rbind (calculate_pool_reward (br_height b)) (\<lambda>pool_amount.
     rbind (create_pool_coin (br_height b) (br_pool_puzzle_hash b) pool_amount (GENESIS_CHALLENGE constants)) (\<lambda>pool_coin.
     rbind (calculate_base_farmer_reward (br_height b)) (\<lambda>base.
     rbind (with_fees base) (\<lambda>farmer_amount.
     rbind (create_farmer_coin (br_height b) (br_farmer_puzzle_hash b) farmer_amount (GENESIS_CHALLENGE constants)) (\<lambda>farmer_coin.
     rbind (calculate_base_community_reward (br_height b)) (\<lambda>community_amount.
     rbind (create_community_coin (br_height b) community_ph community_amount (GENESIS_CHALLENGE constants)) (\<lambda>community_coin.
     Inr [pool_coin, farmer_coin, community_coin])))))))"

definition reward_step ::
  "consensus_constants \<Rightarrow> block_cache \<Rightarrow> bytes \<Rightarrow> coin list \<times> block_record \<Rightarrow> (coin list \<times> block_record) res" where
  "reward_step constants blocks community_ph s =
     (case s of (expected, cur) \<Rightarrow>
        rbind (rewards_of_block constants community_ph Inr cur) (\<lambda>coins.
        rbind (prev_block blocks cur) (\<lambda>cur'. Inr (expected @ coins, cur'))))"

text \<open>The set \<open>expected_reward_coins\<close> and \<open>prev_transaction_block_height\<close>.\<close>

definition expected_rewards ::
  "consensus_constants \<Rightarrow> block_cache \<Rightarrow> foliage_transaction_block \<Rightarrow> int \<Rightarrow> (coin list \<times> int) res" where
  "expected_rewards constants blocks ftb height =
     (if height > 0 then
        let community_ph = community_puzzle_hash_at constants height in
        rbind (block_record blocks (ft_prev_transaction_block_hash ftb)) (\<lambda>prev_tb.
        case br_fees prev_tb of
          None \<Rightarrow> Inl AssertionError
        | Some fees \<Rightarrow>
            rbind (rewards_of_block constants community_ph (\<lambda>base. uint64 (base + fees)) prev_tb) (\<lambda>coins.
            if br_height prev_tb > 0 then
              rbind (prev_block blocks prev_tb) (\<lambda>cur.
              rbind (loop_while (\<lambda>(expected, cur). \<not> is_transaction_block cur)
                       (reward_step constants blocks community_ph) (coins, cur)) (\<lambda>(expected, _).
              Inr (to_set expected, br_height prev_tb)))
            else Inr (to_set coins, br_height prev_tb)))
      else Inr ([], 0))"

definition check_reward_claims :: "coin list \<Rightarrow> coin list \<Rightarrow> (err + unit) res" where
  "check_reward_claims claims expected =
     ebind (ereturn (set claims \<noteq> set expected) INVALID_REWARD_COINS) (\<lambda>_.
     ereturn (length claims \<noteq> length expected) INVALID_REWARD_COINS)"

definition check_generator_roots ::
  "hasher \<Rightarrow> consensus_constants \<Rightarrow> int \<Rightarrow> body_block \<Rightarrow> transactions_info \<Rightarrow> (err + unit) res" where
  "check_generator_roots std_hash constants height b ti =
     (let generator = bb_transactions_generator b; refs = bb_transactions_generator_ref_list b in
      ebind (case generator of
               Some g \<Rightarrow> ereturn (std_hash g \<noteq> ti_generator_root ti) INVALID_TRANSACTIONS_GENERATOR_HASH
             | None \<Rightarrow> ereturn (ti_generator_root ti \<noteq> replicate 32 0) INVALID_TRANSACTIONS_GENERATOR_HASH) (\<lambda>_.
      if refs = [] then
        ereturn (ti_generator_refs_root ti \<noteq> replicate 32 1) INVALID_TRANSACTIONS_GENERATOR_REFS_ROOT
      else
        ebind (ereturn (generator = None) INVALID_TRANSACTIONS_GENERATOR_REFS_ROOT) (\<lambda>_.
        rbind (rmap (struct_bytes uint32_class) refs) (\<lambda>refs_bytes.
        ebind (ereturn (ti_generator_refs_root ti \<noteq> std_hash (concat refs_bytes))
                 INVALID_TRANSACTIONS_GENERATOR_REFS_ROOT) (\<lambda>_.
        ebind (ereturn (int (length refs) > MAX_GENERATOR_REF_LIST_SIZE constants) TOO_MANY_GENERATOR_REFS) (\<lambda>_.
        ereturn (list_ex (\<lambda>index. index \<ge> height) refs) FUTURE_GENERATOR_REFS))))))"

section \<open>Checks 9 to 14: what the block adds and removes\<close>

record body_view =
  bw_removals :: "bytes list"
  bw_puzzles :: "(bytes, bytes) dict"
  bw_additions :: "coin list"
  bw_cost :: int

definition body_of_npc ::
  "consensus_constants \<Rightarrow> bytes option \<Rightarrow> npc_result option \<Rightarrow> (err + body_view) res" where
  "body_of_npc constants generator npc_result =
     (case generator of
        None \<Rightarrow>
          rbind (rguard AssertionError (npc_result = None)) (\<lambda>_.
          Inr (Inr \<lparr>bw_removals = [], bw_puzzles = [], bw_additions = [], bw_cost = 0\<rparr>))
      | Some _ \<Rightarrow>
          (case npc_result of
             None \<Rightarrow> Inl AssertionError
           | Some npc \<Rightarrow>
               rbind (fl_div (npc_cost npc) (MAX_BLOCK_COST_CLVM constants)) (\<lambda>_.
               ebind (ereturn (npc_cost npc > MAX_BLOCK_COST_CLVM constants) BLOCK_COST_EXCEEDS_MAX) (\<lambda>_.
               ebind (case npc_error npc of
                        None \<Rightarrow> Inr (Inr ())
                      | Some e \<Rightarrow> rbind (err_of_value e) (\<lambda>x. Inr (Inl x))) (\<lambda>_.
               case npc_conds npc of
                 None \<Rightarrow> Inl AssertionError
               | Some conds \<Rightarrow>
                   rbind (additions_of_spends (sc_spends conds)) (\<lambda>additions.
                   Inr (Inr \<lparr>bw_removals = map sp_coin_id (sc_spends conds),
                             bw_puzzles = foldl (\<lambda>d s. dict_set d (sp_coin_id s) (sp_puzzle_hash s)) [] (sc_spends conds),
                             bw_additions = additions, bw_cost = npc_cost npc\<rparr>)))))))"

fun check_coin_amounts :: "int \<Rightarrow> coin list \<Rightarrow> (err + unit) res" where
  "check_coin_amounts max_amount [] = Inr (Inr ())"
| "check_coin_amounts max_amount (c # cs) =
     (if amount c < 0 then Inr (Inl COIN_AMOUNT_NEGATIVE)
      else if amount c > max_amount then Inr (Inl COIN_AMOUNT_EXCEEDS_MAXIMUM)
      else check_coin_amounts max_amount cs)"

definition check_additions ::
  "('g1, 'g2, 'gt) body_lib \<Rightarrow> consensus_constants \<Rightarrow> foliage_transaction_block \<Rightarrow> transactions_info
     \<Rightarrow> coin list \<Rightarrow> body_view \<Rightarrow> (err + unit) res" where
  "check_additions L constants ftb ti coinbase_additions w =
     (let coins = bw_additions w @ coinbase_additions; named = map (\<lambda>c. (c, bl_name L c)) coins in
      ebind (ereturn (ti_cost ti \<noteq> bw_cost w) INVALID_BLOCK_COST) (\<lambda>_.
      ebind (check_coin_amounts (MAX_COIN_AMOUNT constants) coins) (\<lambda>_.
      ebind (rbind (validate_block_merkle_roots (bl_std_hash L) (bl_merkle_set_root L) (ft_additions_root ftb)
                      (ft_removals_root ftb) named (bw_removals w)) (\<lambda>root_error.
             case root_error of Some e \<Rightarrow> Inr (Inl e) | None \<Rightarrow> Inr (Inr ()))) (\<lambda>_.
      ebind (ereturn (bl_std_hash L (bl_bip158 L (map puzzle_hash coins @ bw_removals w)) \<noteq> ft_filter_hash ftb)
               INVALID_TRANSACTIONS_FILTER_HASH) (\<lambda>_.
      ebind (ereturn (has_repeats (map snd named)) DUPLICATE_OUTPUT) (\<lambda>_.
      ereturn (has_repeats (bw_removals w)) DOUBLE_SPEND))))))"

section \<open>Check 15: the coins of a fork and of the store\<close>

definition fork_height ::
  "block_cache \<Rightarrow> block_record option \<Rightarrow> int \<Rightarrow> int option \<Rightarrow> bytes \<Rightarrow> int res" where
  "fork_height blocks peak height fork_point_with_peak prev_hash =
     (case peak of
        None \<Rightarrow> Inr (-1)
      | Some p \<Rightarrow>
          if height = 0 then Inr (-1)
          else (case fork_point_with_peak of
                  Some h \<Rightarrow> Inr h
                | None \<Rightarrow> rbind (block_record blocks prev_hash) (find_fork_point_in_chain blocks p)))"

type_synonym fork_coins = "(bytes, coin \<times> int \<times> int) dict"

definition reorg_step ::
  "(bytes \<Rightarrow> full_block option res) \<Rightarrow> bool \<times> full_block \<times> (int, full_block) dict
     \<Rightarrow> (bool \<times> full_block \<times> (int, full_block) dict) res" where
  "reorg_step get_full_block s =
     (case s of (stop, cur, reorg_blocks) \<Rightarrow>
        if fb_height cur = 0 then Inr (True, cur, reorg_blocks)
        else rbind (get_full_block (fb_prev_header_hash cur)) (\<lambda>r.
             case r of
               None \<Rightarrow> Inl AssertionError
             | Some cur' \<Rightarrow> Inr (False, cur', dict_set reorg_blocks (fb_height cur') cur')))"

definition collect_reorg ::
  "(bytes \<Rightarrow> full_block option res) \<Rightarrow> int \<Rightarrow> full_block \<Rightarrow> (int, full_block) dict res" where
  "collect_reorg get_full_block fork_h prev =
     rbind (loop_while (\<lambda>(stop, cur, _). \<not> stop \<and> fb_height cur > fork_h) (reorg_step get_full_block)
              (False, prev, [])) (\<lambda>(_, _, d). Inr d)"

definition fork_transactions ::
  "('g1, 'g2, 'gt) body_lib \<Rightarrow> consensus_constants \<Rightarrow> full_block \<Rightarrow> (bytes list \<times> coin list) res" where
  "fork_transactions L constants cur =
     (case fb_transactions_generator cur of
        None \<Rightarrow> Inr ([], [])
      | Some _ \<Rightarrow>
          rbind (bl_get_block_generator L cur) (\<lambda>generator.
          case (generator, fb_transactions_info cur) of
             (Some gen, Some ti) \<Rightarrow>
               rbind (get_name_puzzle_conditions L gen (min (MAX_BLOCK_COST_CLVM constants) (ti_cost ti))
                        (COST_PER_BYTE constants) False (Some (fb_height cur))) (\<lambda>npc.
               tx_removals_and_additions (npc_conds npc))
           | _ \<Rightarrow> Inl AssertionError))"

definition add_fork_removal :: "bytes list \<Rightarrow> bytes \<Rightarrow> bytes list res" where
  "add_fork_removal removals_since_fork n =
     (if n \<in> set removals_since_fork then Inl AssertionError else Inr (removals_since_fork @ [n]))"

definition add_fork_coin :: "(coin \<Rightarrow> bytes) \<Rightarrow> full_block \<Rightarrow> fork_coins \<Rightarrow> coin \<Rightarrow> fork_coins res" where
  "add_fork_coin name cur additions_since_fork c =
     (if dict_mem additions_since_fork (name c) then Inl AssertionError
      else (case fb_foliage_transaction_block cur of
              None \<Rightarrow> Inl AssertionError
            | Some ftb \<Rightarrow> Inr (dict_set additions_since_fork (name c) (c, fb_height cur, ft_timestamp ftb))))"

definition fork_block_step ::
  "('g1, 'g2, 'gt) body_lib \<Rightarrow> consensus_constants \<Rightarrow> (int, full_block) dict
     \<Rightarrow> bool \<times> full_block \<times> bytes list \<times> fork_coins \<Rightarrow> (bool \<times> full_block \<times> bytes list \<times> fork_coins) res" where
  "fork_block_step L constants reorg_blocks s =
     (case s of (stop, cur, rems, adds) \<Rightarrow>
        rbind (fork_transactions L constants cur) (\<lambda>(removals_in_curr, additions_in_curr).
        rbind (rfold add_fork_removal rems removals_in_curr) (\<lambda>rems'.
        rbind (rfold (add_fork_coin (bl_name L) cur) adds additions_in_curr) (\<lambda>adds'.
        rbind (get_included_reward_coins cur) (\<lambda>rewards.
        rbind (rfold (add_fork_coin (bl_name L) cur) adds' rewards) (\<lambda>adds''.
        if fb_height cur = 0 then Inr (True, cur, rems', adds'')
        else rbind (uint32 (fb_height cur - 1)) (\<lambda>h.
             rbind (dict_getitem reorg_blocks h) (\<lambda>cur'. Inr (False, cur', rems', adds'')))))))))"

definition since_fork ::
  "('g1, 'g2, 'gt) body_lib \<Rightarrow> consensus_constants \<Rightarrow> int \<Rightarrow> int \<Rightarrow> bytes \<Rightarrow> (bytes list \<times> fork_coins) res" where
  "since_fork L constants fork_h height prev_hash =
     (if height > 0 then
        rbind (bl_get_full_block L prev_hash) (\<lambda>r.
         case r of
           None \<Rightarrow> Inl AssertionError
         | Some prev \<Rightarrow>
             rbind (collect_reorg (bl_get_full_block L) fork_h prev) (\<lambda>reorg_blocks.
             rbind (rguard AssertionError (fork_h \<noteq> -1 \<longrightarrow> int (length reorg_blocks) = height - fork_h - 1)) (\<lambda>_.
             rbind (loop_while (\<lambda>(stop, cur, _). \<not> stop \<and> fb_height cur > fork_h)
                      (fork_block_step L constants reorg_blocks) (False, prev, [], [])) (\<lambda>(_, _, rems, adds).
             Inr (rems, adds)))))
      else Inr ([], []))"

type_synonym records = "(bytes, coin_record) dict"

text \<open>The coins the block spends: those it creates itself, and those to be looked up.\<close>

fun split_removals ::
  "(coin \<Rightarrow> bytes) \<Rightarrow> int \<Rightarrow> int \<Rightarrow> (bytes, coin) dict \<Rightarrow> bytes list \<Rightarrow> records \<Rightarrow> bytes list \<Rightarrow> bytes list
     \<Rightarrow> (err + records \<times> bytes list) res" where
  "split_removals name height timestamp additions_dic removals_since_fork recs from_db [] = Inr (Inr (recs, from_db))"
| "split_removals name height timestamp additions_dic removals_since_fork recs from_db (rem # rems) =
     (case dict_get additions_dic rem of
        Some rem_coin \<Rightarrow>
          split_removals name height timestamp additions_dic removals_since_fork
            (dict_set recs (name rem_coin)
               \<lparr>cr_coin = rem_coin, confirmed_block_index = height, spent_block_index = height, coinbase = False,
                cr_timestamp = timestamp\<rparr>) from_db rems
      | None \<Rightarrow>
          if rem \<in> set removals_since_fork then Inr (Inl DOUBLE_SPEND_IN_FORK)
          else split_removals name height timestamp additions_dic removals_since_fork recs (from_db @ [rem]) rems)"

fun use_stored ::
  "(coin \<Rightarrow> bytes) \<Rightarrow> int \<Rightarrow> records \<Rightarrow> bytes list \<Rightarrow> coin_record list \<Rightarrow> (err + records \<times> bytes list) res" where
  "use_stored name fork_h recs look_in_fork [] = Inr (Inr (recs, look_in_fork))"
| "use_stored name fork_h recs look_in_fork (u # us) =
     (if confirmed_block_index u \<le> fork_h then
        if cr_spent u \<and> spent_block_index u \<le> fork_h then Inr (Inl DOUBLE_SPEND)
        else use_stored name fork_h (dict_set recs (name (cr_coin u)) u) look_in_fork us
      else use_stored name fork_h recs (look_in_fork @ [name (cr_coin u)]) us)"

fun use_fork :: "(coin \<Rightarrow> bytes) \<Rightarrow> fork_coins \<Rightarrow> records \<Rightarrow> bytes list \<Rightarrow> (err + records) res" where
  "use_fork name additions_since_fork recs [] = Inr (Inr recs)"
| "use_fork name additions_since_fork recs (rem # rems) =
     (case dict_get additions_since_fork rem of
        None \<Rightarrow> Inr (Inl UNKNOWN_UNSPENT)
      | Some (new_coin, confirmed_height, confirmed_timestamp) \<Rightarrow>
          use_fork name additions_since_fork
            (dict_set recs (name new_coin)
               \<lparr>cr_coin = new_coin, confirmed_block_index = confirmed_height, spent_block_index = 0, coinbase = False,
                cr_timestamp = confirmed_timestamp\<rparr>) rems)"

definition find_removals ::
  "(coin \<Rightarrow> bytes) \<Rightarrow> table \<Rightarrow> int \<Rightarrow> int \<Rightarrow> int \<Rightarrow> (bytes, coin) dict \<Rightarrow> bytes list \<Rightarrow> fork_coins \<Rightarrow> bytes list
     \<Rightarrow> (err + records) res" where
  "find_removals name coin_store fork_h height timestamp additions_dic removals_since_fork additions_since_fork removals =
     ebind (split_removals name height timestamp additions_dic removals_since_fork [] [] removals)
       (\<lambda>(recs, removals_from_db).
     rbind (get_coin_records removals_from_db coin_store) (\<lambda>unspent_records.
     ebind (use_stored name fork_h recs [] unspent_records) (\<lambda>(recs', look_in_fork).
     let missing = (if length unspent_records \<noteq> length removals_from_db
                    then filter (\<lambda>rem. rem \<notin> set (map (\<lambda>u. name (cr_coin u)) unspent_records)) removals_from_db else [])
     in use_fork name additions_since_fork recs' (look_in_fork @ missing))))"

section \<open>Checks 16 to 22: amounts, conditions and signature\<close>

fun check_puzzle_hashes ::
  "(coin \<Rightarrow> bytes) \<Rightarrow> (bytes, bytes) dict \<Rightarrow> coin_record list \<Rightarrow> (err + unit) res" where
  "check_puzzle_hashes name puzzles [] = Inr (Inr ())"
| "check_puzzle_hashes name puzzles (u # us) =
     rbind (dict_getitem puzzles (name (cr_coin u))) (\<lambda>ph.
     if puzzle_hash (cr_coin u) \<noteq> ph then Inr (Inl WRONG_PUZZLE_HASH) else check_puzzle_hashes name puzzles us)"

definition sum_amounts :: "coin list \<Rightarrow> int" where
  "sum_amounts cs = sum_list (map amount cs)"

definition reserve_fee_of :: "npc_result option \<Rightarrow> int res" where
  "reserve_fee_of npc_result =
     (case npc_result of
        None \<Rightarrow> Inr 0
      | Some npc \<Rightarrow> (case npc_conds npc of None \<Rightarrow> Inl AssertionError | Some conds \<Rightarrow> Inr (sc_reserve_fee conds)))"

definition check_fees ::
  "consensus_constants \<Rightarrow> int \<Rightarrow> transactions_info \<Rightarrow> int \<Rightarrow> int \<Rightarrow> npc_result option \<Rightarrow> (err + unit) res" where
  "check_fees constants height ti removed added npc_result =
     ebind (ereturn (removed < added) MINTING_COIN) (\<lambda>_.
     let fees = removed - added in
     rbind (reserve_fee_of npc_result) (\<lambda>assert_fee_sum.
     ebind (ereturn (fees < assert_fee_sum) RESERVE_FEE_CONDITION_FAILED) (\<lambda>_.
     rbind (calculate_base_farmer_reward height) (\<lambda>farmer.
     ebind (ereturn (fees + farmer > MAX_COIN_AMOUNT constants) COIN_AMOUNT_EXCEEDS_MAXIMUM) (\<lambda>_.
     rbind (calculate_base_community_reward height) (\<lambda>community.
     ebind (ereturn (fees + community > MAX_COIN_AMOUNT constants) COIN_AMOUNT_EXCEEDS_MAXIMUM) (\<lambda>_.
     ereturn (ti_fees ti \<noteq> fees) INVALID_BLOCK_FEE_AMOUNT)))))))"

definition check_conditions ::
  "consensus_constants \<Rightarrow> records \<Rightarrow> npc_result option \<Rightarrow> int \<Rightarrow> int \<Rightarrow> (err + bytes list \<times> bytes list) res" where
  "check_conditions constants recs npc_result prev_transaction_block_height timestamp =
     (case npc_result of
        None \<Rightarrow> Inr (Inr ([], []))
      | Some npc \<Rightarrow>
          (case npc_conds npc of
             None \<Rightarrow> Inl AssertionError
           | Some conds \<Rightarrow>
               rbind (mempool_check_time_locks recs conds prev_transaction_block_height timestamp) (\<lambda>e.
               case e of
                 Some x \<Rightarrow> Inr (Inl x)
               | None \<Rightarrow> rbind (pkm_pairs conds (AGG_SIG_ME_ADDITIONAL_DATA constants)) (\<lambda>p. Inr (Inr p)))))"

section \<open>The whole validation\<close>

definition check_transactions ::
  "('g1, 'g2, 'gt) body_lib \<Rightarrow> consensus_constants \<Rightarrow> block_cache \<Rightarrow> table \<Rightarrow> block_record option \<Rightarrow> body_block
     \<Rightarrow> int \<Rightarrow> npc_result option \<Rightarrow> int option \<Rightarrow> foliage_transaction_block \<Rightarrow> transactions_info
     \<Rightarrow> (err + bytes list \<times> bytes list) res" where
  "check_transactions L constants blocks coin_store peak b height npc_result fork_point_with_peak ftb ti =
     ebind (check_info_hashes (bl_std_hash L) (bb_foliage b) ftb ti) (\<lambda>_.
     rbind (expected_rewards constants blocks ftb height) (\<lambda>(expected, prev_tb_height).
     ebind (check_reward_claims (ti_reward_claims_incorporated ti) expected) (\<lambda>_.
     ebind (check_generator_roots (bl_std_hash L) constants height b ti) (\<lambda>_.
     ebind (body_of_npc constants (bb_transactions_generator b) npc_result) (\<lambda>w.
     ebind (check_additions L constants ftb ti expected w) (\<lambda>_.
     rbind (fork_height blocks peak height fork_point_with_peak (bb_prev_header_hash b)) (\<lambda>fork_h.
     rbind (since_fork L constants fork_h height (bb_prev_header_hash b)) (\<lambda>(fork_rems, fork_adds).
     let additions_dic = foldl (\<lambda>d c. dict_set d (bl_name L c) c) [] (bw_additions w @ expected) in
     ebind (find_removals (bl_name L) coin_store fork_h height (ft_timestamp ftb) additions_dic fork_rems fork_adds
              (bw_removals w)) (\<lambda>recs.
     ebind (check_fees constants height ti (sum_amounts (map cr_coin (dict_values recs))) (sum_amounts (bw_additions w))
              npc_result) (\<lambda>_.
     ebind (check_puzzle_hashes (bl_name L) (bw_puzzles w) (dict_values recs)) (\<lambda>_.
     check_conditions constants recs npc_result prev_tb_height (ft_timestamp ftb))))))))))))"

text \<open>A signature is an object, which Python takes for true, so the test that it is missing never fires.\<close>

definition validate_block_body ::
  "('g1, 'g2, 'gt) body_lib \<Rightarrow> consensus_constants \<Rightarrow> block_cache \<Rightarrow> table \<Rightarrow> block_record option \<Rightarrow> body_block
     \<Rightarrow> int \<Rightarrow> npc_result option \<Rightarrow> int option \<Rightarrow> bool \<Rightarrow> (bytes, 'gt) lru_cache
     \<Rightarrow> (err option \<times> npc_result option) res \<times> (bytes, 'gt) lru_cache" where
  "validate_block_body L constants blocks coin_store peak b height npc_result fork_point_with_peak
       validate_signature cache =
     (if (case b of FullB f \<Rightarrow> height \<noteq> fb_height f | UnfinishedB _ \<Rightarrow> False) then (Inl AssertionError, cache)
      else if fo_foliage_transaction_block_hash (bb_foliage b) = None then
        (rbind (validate_empty_body blocks b) (\<lambda>r. Inr (case r of Inl e \<Rightarrow> Some e | Inr _ \<Rightarrow> None, None)), cache)
      else
        (case (bb_foliage_transaction_block b, bb_transactions_info b) of
           (Some ftb, Some ti) \<Rightarrow>
             (case check_transactions L constants blocks coin_store peak b height npc_result fork_point_with_peak ftb ti of
                Inl e \<Rightarrow> (Inl e, cache)
              | Inr (Inl e) \<Rightarrow> (Inr (Some e, None), cache)
              | Inr (Inr (pks, msgs)) \<Rightarrow>
                  if validate_signature then
                    (case aggregate_verify (bl_bls L) (bl_std_hash L) pks msgs
                            (bl_g2_element L (ti_aggregated_signature ti)) (case b of FullB _ \<Rightarrow> False | _ \<Rightarrow> True) cache of
                       (r, cache') \<Rightarrow>
                         (rbind r (\<lambda>ok. Inr (if \<not> ok then (Some BAD_AGGREGATE_SIGNATURE, None) else (None, npc_result))),
                          cache'))
                  else (Inr (None, npc_result), cache))
         | _ \<Rightarrow> (Inr (Some IS_TRANSACTION_BLOCK_BUT_NO_DATA, None), cache)))"

section \<open>Sets of reward coins\<close>

lemma set_to_set [simp]: "set (to_set xs) = set xs"
  by (induction xs rule: to_set.induct) auto

lemma distinct_to_set [simp]: "distinct (to_set xs)"
  by (induction xs rule: to_set.induct) auto

lemma sum_amounts_filter:
  "list_all coin_ok cs \<Longrightarrow> sum_amounts (filter P cs) \<le> sum_amounts cs"
  by (induction cs) (auto simp: sum_amounts_def coin_ok_def)

lemma sum_amounts_to_set: "list_all coin_ok cs \<Longrightarrow> sum_amounts (to_set cs) \<le> sum_amounts cs"
proof (induction cs rule: to_set.induct)
  case (2 x xs)
  then show ?case using sum_amounts_filter [of xs "\<lambda>y. y \<noteq> x"] by (auto simp: sum_amounts_def list_all_iff)
qed simp

lemma sum_amounts_perm: "distinct xs \<Longrightarrow> distinct ys \<Longrightarrow> set xs = set ys \<Longrightarrow> sum_amounts xs = sum_amounts ys"
  by (simp add: sum_amounts_def sum_list_distinct_conv_sum_set)

lemma check_reward_claims_ok:
  assumes "check_reward_claims claims (to_set coins) = Inr (Inr u)"
  shows "distinct claims \<and> set claims = set coins \<and> sum_amounts claims = sum_amounts (to_set coins)"
proof -
  have *: "set claims = set coins" "length claims = length (to_set coins)"
    using assms by (auto simp: check_reward_claims_def ebind_Inr_Inr)
  then have "distinct claims" using distinct_card [OF distinct_to_set, of coins] by (intro card_distinct) simp
  then show ?thesis using * sum_amounts_perm [of claims "to_set coins"] by simp
qed

lemma rewards_of_block_ok:
  assumes "rewards_of_block constants cph f b = Inr coins"
    and "\<And>x y. f x = Inr y \<Longrightarrow> y = x + fees"
  shows "list_all coin_ok coins" "sum_amounts coins = block_reward (br_height b) + fees"
    "take 16 (GENESIS_CHALLENGE constants) \<noteq> drop 16 (GENESIS_CHALLENGE constants) \<Longrightarrow> 2 \<le> card (set coins)"
proof -
  obtain pool farmer community x pa ca where c: "coins = [pool, farmer, community]"
    "calculate_pool_reward (br_height b) = Inr pa"
    "create_pool_coin (br_height b) (br_pool_puzzle_hash b) pa (GENESIS_CHALLENGE constants) = Inr pool"
    "calculate_base_farmer_reward (br_height b) = Inr x"
    "create_farmer_coin (br_height b) (br_farmer_puzzle_hash b) (x + fees) (GENESIS_CHALLENGE constants) = Inr farmer"
    "calculate_base_community_reward (br_height b) = Inr ca"
    "create_community_coin (br_height b) cph ca (GENESIS_CHALLENGE constants) = Inr community"
    using assms(1) by (auto simp: rewards_of_block_def rbind_eq_Inr dest!: assms(2))
  note d = create_pool_coin_def create_farmer_coin_def create_community_coin_def
  have a: "amount pool = pa" "amount farmer = x + fees" "amount community = ca" "list_all coin_ok coins"
    using c by (auto simp: d rbind_eq_Inr mk_coin_eq_Inr coin_ok_def)
  then show "list_all coin_ok coins" by simp
  have "total_reward (br_height b) = Inr (pa + x + ca)" using c(2,4,6) by (simp add: total_reward_def)
  then show "sum_amounts coins = block_reward (br_height b) + fees"
    using a c(1) total_reward_eq [of "br_height b"] by (simp add: sum_amounts_def)
  assume g: "take 16 (GENESIS_CHALLENGE constants) \<noteq> drop 16 (GENESIS_CHALLENGE constants)"
  have "pool \<noteq> community"
    using create_coin_parent(1) [OF c(3)] create_coin_parent(3) [OF c(7)] g
    by (auto simp: pool_parent_id_def community_parent_id_def rbind_eq_Inr sized_init_def split: if_splits)
       (metis append_same_eq)
  then have "card {pool, community} = 2" by simp
  then show "2 \<le> card (set coins)" using card_mono [of "set coins" "{pool, community}"] c(1) by auto
qed

text \<open>The blocks whose rewards a transaction block claims: the previous transaction block \<open>b\<close> and the blocks
  \<open>xs\<close> before it down to the transaction block before that.\<close>

fun walks :: "block_cache \<Rightarrow> block_record \<Rightarrow> block_record list \<Rightarrow> block_record \<Rightarrow> bool" where
  "walks blocks b [] c \<longleftrightarrow> prev_block blocks b = Inr c"
| "walks blocks b (x # xs) c \<longleftrightarrow> prev_block blocks b = Inr x \<and> \<not> is_transaction_block x \<and> walks blocks x xs c"

lemma walks_snoc:
  "walks blocks b xs c \<Longrightarrow> \<not> is_transaction_block c \<Longrightarrow> prev_block blocks c = Inr d \<Longrightarrow> walks blocks b (xs @ [c]) d"
  by (induction xs arbitrary: b) auto

definition claimed_blocks :: "block_cache \<Rightarrow> block_record \<Rightarrow> block_record list \<Rightarrow> bool" where
  "claimed_blocks blocks b xs \<longleftrightarrow>
     (if br_height b > 0 then \<exists>c. walks blocks b xs c \<and> is_transaction_block c else xs = [])"

lemma expected_rewards_ok:
  assumes "expected_rewards constants blocks ftb height = Inr (expected, ph)" "0 < height"
  obtains prev_tb fees xs coins where
    "block_record blocks (ft_prev_transaction_block_hash ftb) = Inr prev_tb" "br_fees prev_tb = Some fees"
    "ph = br_height prev_tb" "claimed_blocks blocks prev_tb xs" "expected = to_set coins" "list_all coin_ok coins"
    "sum_amounts coins = fees + (\<Sum>b \<leftarrow> prev_tb # xs. block_reward (br_height b))"
    "take 16 (GENESIS_CHALLENGE constants) \<noteq> drop 16 (GENESIS_CHALLENGE constants) \<Longrightarrow> 2 \<le> card (set coins)"
proof -
  define cph where "cph = community_puzzle_hash_at constants height"
  obtain prev_tb fees coins0 where p: "block_record blocks (ft_prev_transaction_block_hash ftb) = Inr prev_tb"
    "br_fees prev_tb = Some fees" "rewards_of_block constants cph (\<lambda>base. uint64 (base + fees)) prev_tb = Inr coins0"
    using assms by (auto simp: expected_rewards_def Let_def cph_def rbind_eq_Inr split: option.splits)
  have r0: "list_all coin_ok coins0" "sum_amounts coins0 = block_reward (br_height prev_tb) + fees"
    "take 16 (GENESIS_CHALLENGE constants) \<noteq> drop 16 (GENESIS_CHALLENGE constants) \<Longrightarrow> 2 \<le> card (set coins0)"
    using rewards_of_block_ok [OF p(3), of fees] by simp_all
  show ?thesis
  proof (cases "br_height prev_tb > 0")
    case False
    then have "expected = to_set coins0" "ph = br_height prev_tb" using assms p
      by (auto simp: expected_rewards_def cph_def)
    then show ?thesis using False p(1,2) r0 by (intro that [of prev_tb fees "[]" coins0]) (auto simp: claimed_blocks_def)
  next
    case True
    obtain cur coins cur' where l: "prev_block blocks prev_tb = Inr cur"
      "loop_while (\<lambda>(expected, cur). \<not> is_transaction_block cur) (reward_step constants blocks cph) (coins0, cur) = Inr (coins, cur')"
      "expected = to_set coins" "ph = br_height prev_tb"
      using assms p True by (auto simp: expected_rewards_def cph_def [symmetric] rbind_eq_Inr)
    define P where "P s \<longleftrightarrow> (case s of (cs, c) \<Rightarrow> \<exists>xs. walks blocks prev_tb xs c \<and> list_all coin_ok cs \<and> set coins0 \<subseteq> set cs \<and>
        sum_amounts cs = fees + (\<Sum>b \<leftarrow> prev_tb # xs. block_reward (br_height b)))" for s
    have step: "P t" if st: "P s" "(\<lambda>(expected, cur). \<not> is_transaction_block cur) s" "reward_step constants blocks cph s = Inr t" for s t
    proof -
      obtain cs c xs where s: "s = (cs, c)" "walks blocks prev_tb xs c" "list_all coin_ok cs" "set coins0 \<subseteq> set cs"
        "sum_amounts cs = fees + (\<Sum>b \<leftarrow> prev_tb # xs. block_reward (br_height b))"
        using st(1) by (auto simp: P_def)
      obtain new d where t: "rewards_of_block constants cph Inr c = Inr new" "prev_block blocks c = Inr d" "t = (cs @ new, d)"
        using st(3) by (auto simp: s(1) reward_step_def rbind_eq_Inr)
      have "walks blocks prev_tb (xs @ [c]) d" using walks_snoc [OF s(2) _ t(2)] st(2) s(1) by simp
      moreover have "list_all coin_ok new" "sum_amounts new = block_reward (br_height c)"
        using rewards_of_block_ok [OF t(1), of 0] by simp_all
      ultimately show ?thesis using s t(3) unfolding P_def by (auto simp: sum_amounts_def intro!: exI [of _ "xs @ [c]"])
    qed
    have "P (coins0, cur)" using l(1) r0 by (auto simp: P_def intro!: exI [of _ "[]"])
    then have "P (coins, cur') \<and> \<not> (\<lambda>(expected, cur). \<not> is_transaction_block cur) (coins, cur')"
      by (rule loop_while_rule [OF l(2)]) (rule step)
    then obtain xs where xs: "walks blocks prev_tb xs cur'" "is_transaction_block cur'"
      "list_all coin_ok coins" "set coins0 \<subseteq> set coins"
      "sum_amounts coins = fees + (\<Sum>b \<leftarrow> prev_tb # xs. block_reward (br_height b))"
      by (auto simp: P_def)
    show ?thesis using p(1,2) l(3,4) xs True r0(3) card_mono [OF _ xs(4)]
      by (intro that [of prev_tb fees xs coins]) (auto simp: claimed_blocks_def)
  qed
qed

section \<open>Where the spent coins come from\<close>

lemma concat_chunks: "concat (chunks n xs) = xs"
  by (induction n xs rule: chunks.induct) (subst chunks.simps, auto)

lemma get_coin_records_found:
  assumes "get_coin_records ns db = Inr us" "distinct (map row_coin_name db)" "list_all (row_ok name) db" "distinct ns"
  shows "set (map (\<lambda>u. name (cr_coin u)) us) = set ns \<inter> set (map row_coin_name db)"
    "distinct (map (\<lambda>u. name (cr_coin u)) us)"
    "\<forall>u \<in> set us. \<exists>w \<in> set db. row_to_record w = Inr u \<and> row_coin_name w = name (cr_coin u)"
proof -
  define rows where "rows = concat (map (\<lambda>c. filter (\<lambda>r. row_coin_name r \<in> set c) db) (chunks MAX_SQLITE_PARAMETERS ns))"
  have l: "list_all2 (\<lambda>w u. row_to_record w = Inr u) rows us"
    using assms(1) by (simp add: get_coin_records_def rmap_eq_Inr rows_def)
  have rs: "set rows = {r \<in> set db. row_coin_name r \<in> set ns}"
    using arg_cong [OF concat_chunks [of MAX_SQLITE_PARAMETERS ns], of set] by (auto simp: rows_def)
  have d: "distinct (map row_coin_name (concat (map (\<lambda>c. filter (\<lambda>r. row_coin_name r \<in> set c) db) cs)))"
    if "distinct (concat cs)" for cs
    using that assms(2) by (induction cs) (auto simp: distinct_map_filter)
  have nm: "row_coin_name w = name (cr_coin u)" if "w \<in> set db" "row_to_record w = Inr u" for w u
    using that assms(3) by (auto simp: list_all_iff row_ok_def row_to_record_def rbind_eq_Inr split: sum.splits)
  have "list_all2 (\<lambda>w u. row_coin_name w = name (cr_coin u)) rows us"
    by (rule list.rel_mono_strong [OF l]) (use rs nm in auto)
  then have "list_all2 (=) (map row_coin_name rows) (map (\<lambda>u. name (cr_coin u)) us)"
    by (simp add: list_all2_map1 list_all2_map2)
  then have "map (\<lambda>u. name (cr_coin u)) us = map row_coin_name rows" by (simp add: list.rel_eq)
  moreover have "distinct (map row_coin_name rows)"
    using d [of "chunks MAX_SQLITE_PARAMETERS ns"] assms(4) by (simp add: concat_chunks rows_def)
  ultimately show "set (map (\<lambda>u. name (cr_coin u)) us) = set ns \<inter> set (map row_coin_name db)"
    "distinct (map (\<lambda>u. name (cr_coin u)) us)"
    using rs by (auto simp del: set_map simp: set_map [of row_coin_name])
  show "\<forall>u \<in> set us. \<exists>w \<in> set db. row_to_record w = Inr u \<and> row_coin_name w = name (cr_coin u)"
    using list_all2_in2 [OF l] rs nm by fastforce
qed

text \<open>
  The record \<open>r\<close> that validation uses for a spent coin \<open>n\<close>: of a coin the block creates itself, or of a coin that
  the branch has not spent and that either the store holds, created up to the fork and not spent up to it, or
  the branch created.
\<close>

definition from_store :: "table \<Rightarrow> int \<Rightarrow> bytes \<Rightarrow> coin_record \<Rightarrow> bool" where
  "from_store db fork_h n r \<longleftrightarrow>
     (\<exists>w \<in> set db. row_coin_name w = n \<and> row_to_record w = Inr r \<and> row_confirmed_index w \<le> fork_h \<and>
        (row_spent_index w \<le> 0 \<or> fork_h < row_spent_index w))"

definition spend_origin ::
  "table \<Rightarrow> int \<Rightarrow> (bytes, coin) dict \<Rightarrow> bytes list \<Rightarrow> fork_coins \<Rightarrow> bytes \<Rightarrow> coin_record \<Rightarrow> bool" where
  "spend_origin db fork_h created fork_rems fork_adds n r \<longleftrightarrow>
     (case dict_get created n of
        Some c \<Rightarrow> cr_coin r = c
      | None \<Rightarrow> n \<notin> set fork_rems \<and>
          (from_store db fork_h n r \<or> (\<exists>h t. dict_get fork_adds n = Some (cr_coin r, h, t))))"

definition records_ok :: "(coin \<Rightarrow> bytes) \<Rightarrow> (bytes \<Rightarrow> coin_record \<Rightarrow> bool) \<Rightarrow> records \<Rightarrow> bool" where
  "records_ok name P recs \<longleftrightarrow> dict_ok recs \<and> (\<forall>n r. dict_get recs n = Some r \<longrightarrow> name (cr_coin r) = n \<and> P n r)"

lemma records_ok_set:
  "records_ok name P recs \<Longrightarrow> P (name (cr_coin r)) r \<Longrightarrow> records_ok name P (dict_set recs (name (cr_coin r)) r)"
  by (auto simp: records_ok_def dict_ok_set dict_get_set)

lemma split_removals_ok:
  assumes "split_removals name h ts created fork_rems recs from_db rems = Inr (Inr (recs', from_db'))"
    and "records_ok name P recs"
    and "\<And>n c. dict_get created n = Some c \<Longrightarrow> name c = n"
    and "\<And>n c r. dict_get created n = Some c \<Longrightarrow> cr_coin r = c \<Longrightarrow> P n r"
  shows "records_ok name P recs' \<and> from_db' = from_db @ filter (\<lambda>n. dict_get created n = None) rems \<and>
     set (dict_keys recs') = set (dict_keys recs) \<union> {n \<in> set rems. dict_get created n \<noteq> None} \<and>
     (\<forall>n \<in> set rems. dict_get created n = None \<longrightarrow> n \<notin> set fork_rems)"
  using assms(1,2)
proof (induction rems arbitrary: recs from_db)
  case (Cons n rems)
  show ?case
  proof (cases "dict_get created n")
    case None
    then show ?thesis using Cons.prems Cons.IH [of recs "from_db @ [n]"] by (auto split: if_splits)
  next
    case (Some c)
    define r where "r = \<lparr>cr_coin = c, confirmed_block_index = h, spent_block_index = h, coinbase = False, cr_timestamp = ts\<rparr>"
    have "name c = n" "P n r" using assms(3,4) [OF Some] by (auto simp: r_def)
    then have "records_ok name P (dict_set recs (name c) r)" "set (dict_keys (dict_set recs (name c) r)) = insert n (set (dict_keys recs))"
      using records_ok_set [OF Cons.prems(2), of r] by (auto simp: r_def keys_dict_set)
    then show ?thesis using Some Cons.IH [of "dict_set recs (name c) r" from_db] Cons.prems(1) by (auto simp: r_def)
  qed
qed simp

lemma use_stored_ok:
  assumes "use_stored name fork_h recs look us = Inr (Inr (recs', look'))" and "records_ok name P recs"
    and "\<And>u. u \<in> set us \<Longrightarrow> confirmed_block_index u \<le> fork_h \<Longrightarrow>
           spent_block_index u \<le> 0 \<or> fork_h < spent_block_index u \<Longrightarrow> P (name (cr_coin u)) u"
  shows "records_ok name P recs' \<and>
     set (dict_keys recs') \<union> set look' = set (dict_keys recs) \<union> set look \<union> set (map (\<lambda>u. name (cr_coin u)) us) \<and>
     set look' \<subseteq> set look \<union> set (map (\<lambda>u. name (cr_coin u)) us)"
  using assms
proof (induction us arbitrary: recs look)
  case (Cons u us)
  show ?case
  proof (cases "confirmed_block_index u \<le> fork_h")
    case True
    then have "records_ok name P (dict_set recs (name (cr_coin u)) u)"
      using Cons.prems by (intro records_ok_set) (auto simp: cr_spent_def not_le split: if_splits)
    then show ?thesis using True Cons.IH [of "dict_set recs (name (cr_coin u)) u" look] Cons.prems
      by (auto simp: keys_dict_set split: if_splits)
  next
    case False
    then show ?thesis using Cons.IH [of recs "look @ [name (cr_coin u)]"] Cons.prems by auto
  qed
qed auto

lemma use_fork_ok:
  assumes "use_fork name fork_adds recs look = Inr (Inr recs')" and "records_ok name P recs"
    and "\<And>n c h t r. n \<in> set look \<Longrightarrow> dict_get fork_adds n = Some (c, h, t) \<Longrightarrow> name c = n \<and> (cr_coin r = c \<longrightarrow> P n r)"
  shows "records_ok name P recs' \<and> set (dict_keys recs') = set (dict_keys recs) \<union> set look"
  using assms
proof (induction look arbitrary: recs)
  case (Cons n look)
  obtain c h t where c: "dict_get fork_adds n = Some (c, h, t)"
    using Cons.prems(1) by (auto split: option.splits)
  define r where "r = \<lparr>cr_coin = c, confirmed_block_index = h, spent_block_index = 0, coinbase = False, cr_timestamp = t\<rparr>"
  have "name c = n" "P n r" using Cons.prems(3) [OF _ c, of r] by (auto simp: r_def)
  then have "records_ok name P (dict_set recs (name c) r)" "set (dict_keys (dict_set recs (name c) r)) = insert n (set (dict_keys recs))"
    using records_ok_set [OF Cons.prems(2), of r] by (auto simp: r_def keys_dict_set)
  then show ?case using c Cons.IH [of "dict_set recs (name c) r"] Cons.prems by (auto simp: r_def)
qed simp

lemma find_removals_ok:
  assumes "find_removals name db fork_h h ts created fork_rems fork_adds rems = Inr (Inr recs)"
    and "distinct (map row_coin_name db)" "list_all (row_ok name) db" "distinct rems"
    and "\<And>n c. dict_get created n = Some c \<Longrightarrow> name c = n"
    and "\<And>n c h t. dict_get fork_adds n = Some (c, h, t) \<Longrightarrow> name c = n"
  shows "records_ok name (spend_origin db fork_h created fork_rems fork_adds) recs \<and> set (dict_keys recs) = set rems"
proof -
  define Q where "Q = spend_origin db fork_h created fork_rems fork_adds"
  obtain recs1 ndb us recs2 look where s:
    "split_removals name h ts created fork_rems [] [] rems = Inr (Inr (recs1, ndb))"
    "get_coin_records ndb db = Inr us" "use_stored name fork_h recs1 [] us = Inr (Inr (recs2, look))"
    "use_fork name fork_adds recs2 (look @ (if length us \<noteq> length ndb
        then filter (\<lambda>n. n \<notin> set (map (\<lambda>u. name (cr_coin u)) us)) ndb else [])) = Inr (Inr recs)"
    using assms(1) by (auto simp: find_removals_def ebind_Inr_Inr rbind_eq_Inr Let_def)
  have empty: "records_ok name Q []" by (simp add: records_ok_def dict_get_def dict.ok_empty)
  have Q_created: "Q n r" if "dict_get created n = Some c" "cr_coin r = c" for n c r
    using that by (simp add: Q_def spend_origin_def)
  note split = split_removals_ok [OF s(1) empty assms(5) Q_created]
  have 1: "records_ok name Q recs1"
    "ndb = filter (\<lambda>n. dict_get created n = None) rems"
    "set (dict_keys recs1) = {n \<in> set rems. dict_get created n \<noteq> None}"
    "\<forall>n \<in> set rems. dict_get created n = None \<longrightarrow> n \<notin> set fork_rems"
    using split by (simp_all add: dict_keys_def)
  have dn: "distinct ndb" using assms(4) 1(2) by simp
  note g = get_coin_records_found [OF s(2) assms(2,3) dn]
  have Q_db: "Q (name (cr_coin u)) u" if u: "u \<in> set us" "confirmed_block_index u \<le> fork_h"
    "spent_block_index u \<le> 0 \<or> fork_h < spent_block_index u" for u
  proof -
    obtain w where w: "w \<in> set db" "row_to_record w = Inr u" "row_coin_name w = name (cr_coin u)" using g(3) u(1) by blast
    moreover have "row_confirmed_index w = confirmed_block_index u" "row_spent_index w = spent_block_index u"
      using w(2) by (auto simp: row_to_record_def rbind_eq_Inr)
    moreover have "name (cr_coin u) \<in> set ndb" using g(1) u(1) by auto
    ultimately show ?thesis using u 1(2,4) by (auto simp: Q_def spend_origin_def from_store_def)
  qed
  note 2 = use_stored_ok [OF s(3) 1(1) Q_db]
  define miss where "miss = (if length us \<noteq> length ndb then filter (\<lambda>n. n \<notin> set (map (\<lambda>u. name (cr_coin u)) us)) ndb else [])"
  have sub: "set (look @ miss) \<subseteq> set ndb" using 2 unfolding g(1) by (auto simp: miss_def)
  have Q_fork: "name c = n \<and> (cr_coin r = c \<longrightarrow> Q n r)" if "n \<in> set ndb" "dict_get fork_adds n = Some (c, h, t)" for n c h t r
    using that 1(2,4) assms(6) by (auto simp: Q_def spend_origin_def)
  from sub have 3: "records_ok name Q recs \<and> set (dict_keys recs) = set (dict_keys recs2) \<union> set (look @ miss)"
    using s(4) 2 Q_fork unfolding miss_def [symmetric] by (intro use_fork_ok) auto
  have all: "set (map (\<lambda>u. name (cr_coin u)) us) \<union> set miss = set ndb"
  proof (cases "length us = length ndb")
    case True
    have "card (set (map (\<lambda>u. name (cr_coin u)) us)) = card (set ndb)"
      using distinct_card [OF g(2)] distinct_card [OF dn] True by simp
    then have "set (map (\<lambda>u. name (cr_coin u)) us) = set ndb" using g(1) by (intro card_subset_eq) auto
    then show ?thesis using True by (simp add: miss_def)
  qed (use g(1) in \<open>auto simp: miss_def\<close>)
  have "set (dict_keys recs) = set (dict_keys recs2) \<union> set look \<union> set miss" using 3 by auto
  also have "\<dots> = set (dict_keys recs1) \<union> set ndb" using 2 all by (auto simp: Un_assoc)
  also have "\<dots> = set rems" using 1(3) unfolding 1(2) by auto
  finally show ?thesis using 3 by (simp add: Q_def)
qed

section \<open>What the passed checks establish\<close>

abbreviation fork_names_ok :: "(coin \<Rightarrow> bytes) \<Rightarrow> fork_coins \<Rightarrow> bool" where
  "fork_names_ok name adds \<equiv> \<forall>n c h t. dict_get adds n = Some (c, h, t) \<longrightarrow> name c = n"

lemma add_fork_coins_names:
  "rfold (add_fork_coin name cur) adds cs = Inr adds' \<Longrightarrow> fork_names_ok name adds \<Longrightarrow> fork_names_ok name adds'"
  by (erule rfold_invariant) (auto simp: add_fork_coin_def dict_get_set split: if_splits option.splits)

lemma since_fork_names:
  assumes "since_fork L constants fork_h height prev_hash = Inr (rems, adds)"
  shows "fork_names_ok (bl_name L) adds"
proof (cases "height > 0")
  case True
  then obtain prev reorg stop cur where l:
    "loop_while (\<lambda>(stop, cur, _). \<not> stop \<and> fb_height cur > fork_h) (fork_block_step L constants reorg)
       (False, prev, [], []) = Inr (stop, cur, rems, adds)"
    using assms by (auto simp: since_fork_def rbind_eq_Inr split: option.splits)
  have "(\<lambda>(_, _, _, adds). fork_names_ok (bl_name L) adds) (stop, cur, rems, adds) \<and>
      \<not> (\<lambda>(stop, cur, _). \<not> stop \<and> fb_height cur > fork_h) (stop, cur, rems, adds)"
    by (rule loop_while_rule [OF l])
       (auto simp: dict_get_def fork_block_step_def rbind_eq_Inr split: if_splits dest!: add_fork_coins_names)
  then show ?thesis by simp
qed (use assms in \<open>simp add: since_fork_def dict_get_def\<close>)

lemma since_fork_none:
  assumes "bl_get_full_block L prev_hash = Inr (Some prev)" "fb_height prev \<le> fork_h" "height = fork_h + 1"
  shows "since_fork L constants fork_h height prev_hash = Inr ([], [])"
  using assms by (auto simp: since_fork_def collect_reorg_def loop_while_unfold)

lemma check_puzzle_hashes_ok:
  "check_puzzle_hashes name puzzles us = Inr (Inr x) \<Longrightarrow>
   \<forall>u \<in> set us. dict_get puzzles (name (cr_coin u)) = Some (puzzle_hash (cr_coin u))"
  by (induction us) (auto simp: rbind_eq_Inr dict_getitem_def split: if_splits option.splits)

lemma check_fees_ok:
  assumes "check_fees constants height ti removed added npc = Inr (Inr u)"
  shows "removed = added + ti_fees ti \<and> 0 \<le> ti_fees ti \<and> (\<exists>f. reserve_fee_of npc = Inr f \<and> f \<le> ti_fees ti)"
  using assms by (auto simp: check_fees_def Let_def ebind_Inr_Inr rbind_eq_Inr not_less)

lemma check_additions_ok:
  assumes "check_additions L constants ftb ti coins w = Inr (Inr u)"
  shows "distinct (map (bl_name L) (bw_additions w @ coins)) \<and> distinct (bw_removals w) \<and> ti_cost ti = bw_cost w"
  using assms by (auto simp: check_additions_def Let_def ebind_Inr_Inr has_repeats_iff comp_def)

lemma accepted_checks:
  assumes "fst (validate_block_body L constants blocks db peak b height npc fork sig cache) = Inr (None, r)"
    and "fo_foliage_transaction_block_hash (bb_foliage b) \<noteq> None"
  obtains ftb ti expected ph w fork_h frems fadds recs where
    "bb_foliage_transaction_block b = Some ftb" "bb_transactions_info b = Some ti"
    "expected_rewards constants blocks ftb height = Inr (expected, ph)"
    "check_reward_claims (ti_reward_claims_incorporated ti) expected = Inr (Inr ())"
    "body_of_npc constants (bb_transactions_generator b) npc = Inr (Inr w)"
    "check_additions L constants ftb ti expected w = Inr (Inr ())"
    "fork_height blocks peak height fork (bb_prev_header_hash b) = Inr fork_h"
    "since_fork L constants fork_h height (bb_prev_header_hash b) = Inr (frems, fadds)"
    "find_removals (bl_name L) db fork_h height (ft_timestamp ftb)
       (foldl (\<lambda>d c. dict_set d (bl_name L c) c) [] (bw_additions w @ expected)) frems fadds (bw_removals w) = Inr (Inr recs)"
    "check_fees constants height ti (sum_amounts (map cr_coin (dict_values recs))) (sum_amounts (bw_additions w)) npc = Inr (Inr ())"
    "check_puzzle_hashes (bl_name L) (bw_puzzles w) (dict_values recs) = Inr (Inr ())"
proof -
  obtain ftb ti pairs where t: "bb_foliage_transaction_block b = Some ftb" "bb_transactions_info b = Some ti"
    "check_transactions L constants blocks db peak b height npc fork ftb ti = Inr (Inr pairs)"
    using assms unfolding validate_block_body_def
    by (auto split: if_splits option.splits sum.splits prod.splits simp: rbind_eq_Inr)
  then show ?thesis
    unfolding check_transactions_def Let_def by (auto simp: ebind_Inr_Inr rbind_eq_Inr intro: that)
qed

text \<open>The same, with what the lookups of the spent coins have found.\<close>

lemma accepted_facts:
  assumes "fst (validate_block_body L constants blocks db peak b height npc fork sig cache) = Inr (None, r)"
    and "fo_foliage_transaction_block_hash (bb_foliage b) \<noteq> None" and "store_ok (bl_name L) k db"
  obtains ftb ti expected ph w fork_h frems fadds recs where
    "bb_foliage_transaction_block b = Some ftb" "bb_transactions_info b = Some ti"
    "expected_rewards constants blocks ftb height = Inr (expected, ph)"
    "check_reward_claims (ti_reward_claims_incorporated ti) expected = Inr (Inr ())"
    "body_of_npc constants (bb_transactions_generator b) npc = Inr (Inr w)"
    "distinct (map (bl_name L) (bw_additions w @ expected))" "distinct (bw_removals w)"
    "fork_height blocks peak height fork (bb_prev_header_hash b) = Inr fork_h"
    "since_fork L constants fork_h height (bb_prev_header_hash b) = Inr (frems, fadds)"
    "records_ok (bl_name L) (spend_origin db fork_h
       (foldl (\<lambda>d c. dict_set d (bl_name L c) c) [] (bw_additions w @ expected)) frems fadds) recs"
    "set (dict_keys recs) = set (bw_removals w)"
    "sum_amounts (map cr_coin (dict_values recs)) = sum_amounts (bw_additions w) + ti_fees ti" "0 \<le> ti_fees ti"
    "\<forall>u \<in> set (dict_values recs). dict_get (bw_puzzles w) (bl_name L (cr_coin u)) = Some (puzzle_hash (cr_coin u))"
proof (rule accepted_checks [OF assms(1,2)])
  fix ftb ti expected ph w fork_h frems fadds recs
  assume t: "bb_foliage_transaction_block b = Some ftb" "bb_transactions_info b = Some ti"
    and c: "expected_rewards constants blocks ftb height = Inr (expected, ph)"
    "check_reward_claims (ti_reward_claims_incorporated ti) expected = Inr (Inr ())"
    "body_of_npc constants (bb_transactions_generator b) npc = Inr (Inr w)"
    "check_additions L constants ftb ti expected w = Inr (Inr ())"
    "fork_height blocks peak height fork (bb_prev_header_hash b) = Inr fork_h"
    "since_fork L constants fork_h height (bb_prev_header_hash b) = Inr (frems, fadds)"
    "find_removals (bl_name L) db fork_h height (ft_timestamp ftb)
       (foldl (\<lambda>d c. dict_set d (bl_name L c) c) [] (bw_additions w @ expected)) frems fadds (bw_removals w) = Inr (Inr recs)"
    "check_fees constants height ti (sum_amounts (map cr_coin (dict_values recs))) (sum_amounts (bw_additions w)) npc = Inr (Inr ())"
    "check_puzzle_hashes (bl_name L) (bw_puzzles w) (dict_values recs) = Inr (Inr ())"
  note a = check_additions_ok [OF c(4)]
  have "records_ok (bl_name L) (spend_origin db fork_h
       (foldl (\<lambda>d c. dict_set d (bl_name L c) c) [] (bw_additions w @ expected)) frems fadds) recs \<and>
     set (dict_keys recs) = set (bw_removals w)"
    by (rule find_removals_ok [OF c(7)])
       (use assms(3) a since_fork_names [OF c(6)] in \<open>auto simp: store_ok_def simp del: foldl_append dest: additions_dict_name\<close>)
  then show ?thesis
    using that [OF t(1,2) c(1-3) _ _ c(5,6)] a check_fees_ok [OF c(8)] check_puzzle_hashes_ok [OF c(9)] by blast
qed

lemma created_in: "dict_get (foldl (\<lambda>d c. dict_set d (name c) c) [] cs) n = Some c \<Longrightarrow> c \<in> set cs"
  by (induction cs rule: rev_induct) (auto simp: dict_simps split: if_splits)

lemma origin_cases:
  assumes "spend_origin db fork_h (foldl (\<lambda>d c. dict_set d (name c) c) [] cs) frems fadds n u"
  shows "cr_coin u \<in> set cs \<or> n \<notin> set frems \<and>
         ((\<exists>row. row \<in> set db \<and> row_coin_name row = n \<and> row_to_coin row = Inr (cr_coin u) \<and> row_confirmed_index row \<le> fork_h \<and>
             (row_spent_index row \<le> 0 \<or> fork_h < row_spent_index row)) \<or>
          (\<exists>h t. dict_get fadds n = Some (cr_coin u, h, t)))"
  using assms created_in [of name cs n] unfolding spend_origin_def from_store_def
  by (auto simp: row_to_record_def rbind_eq_Inr split: option.splits)

lemma body_additions_ok: "body_of_npc constants gen npc = Inr (Inr w) \<Longrightarrow> list_all coin_ok (bw_additions w)"
  by (auto simp: body_of_npc_def ebind_Inr_Inr rbind_eq_Inr list_all_iff split: option.splits dest: additions_parent)

section \<open>Properties\<close>

text \<open>C3. No value is created by transactions.  When the body of a transaction block is accepted, there is
  one record for each coin it spends, under that coin's own id; the ids spent are all different, and so are the
  ids of all coins created.  The amounts spent are the amounts created plus the fees the block declares, which
  are not negative.\<close>

theorem body_conserves_value:
  assumes "fst (validate_block_body L constants blocks db peak b height npc fork sig cache) = Inr (None, r)"
    and "fo_foliage_transaction_block_hash (bb_foliage b) \<noteq> None" and "store_ok (bl_name L) k db"
  shows "\<exists>ti w (recs :: records). bb_transactions_info b = Some ti \<and>
     body_of_npc constants (bb_transactions_generator b) npc = Inr (Inr w) \<and>
     distinct (bw_removals w) \<and> distinct (map (bl_name L) (bw_additions w)) \<and>
     dict_ok recs \<and> set (dict_keys recs) = set (bw_removals w) \<and>
     (\<forall>n rec. dict_get recs n = Some rec \<longrightarrow> bl_name L (cr_coin rec) = n) \<and>
     sum_amounts (map cr_coin (dict_values recs)) = sum_amounts (bw_additions w) + ti_fees ti \<and> 0 \<le> ti_fees ti"
proof (rule accepted_facts [OF assms])
  fix ti expected w fork_h frems fadds recs
  assume f: "bb_transactions_info b = Some ti" "body_of_npc constants (bb_transactions_generator b) npc = Inr (Inr w)"
    "distinct (map (bl_name L) (bw_additions w @ expected))" "distinct (bw_removals w)"
    "records_ok (bl_name L) (spend_origin db fork_h
       (foldl (\<lambda>d c. dict_set d (bl_name L c) c) [] (bw_additions w @ expected)) frems fadds) recs"
    "set (dict_keys recs) = set (bw_removals w)"
    "sum_amounts (map cr_coin (dict_values recs)) = sum_amounts (bw_additions w) + ti_fees ti" "0 \<le> ti_fees ti"
  have "distinct (map (bl_name L) (bw_additions w))" "dict_ok recs"
    "\<forall>n rec. dict_get recs n = Some rec \<longrightarrow> bl_name L (cr_coin rec) = n"
    using f(3,5) unfolding records_ok_def by auto
  then show ?thesis using f(1,2,4,6-8) by blast
qed

text \<open>C4. Only existing, unspent coins are spent.  In an accepted transaction block, every spent coin is
  either created by the block itself, or was not spent on the block's branch since the fork and is a coin that
  the store holds, created up to the fork and unspent there, or a coin created on the branch after the fork.  The
  puzzle revealed for it has the puzzle hash of the coin.\<close>

theorem body_spends_existing:
  assumes "fst (validate_block_body L constants blocks db peak b height npc fork sig cache) = Inr (None, r)"
    and "fo_foliage_transaction_block_hash (bb_foliage b) \<noteq> None" and "store_ok (bl_name L) k db"
  shows "\<exists>w ti fork_h frems fadds. body_of_npc constants (bb_transactions_generator b) npc = Inr (Inr w) \<and>
     bb_transactions_info b = Some ti \<and>
     fork_height blocks peak height fork (bb_prev_header_hash b) = Inr fork_h \<and>
     since_fork L constants fork_h height (bb_prev_header_hash b) = Inr (frems, fadds) \<and>
     (\<forall>n. n \<in> set (bw_removals w) \<longrightarrow> (\<exists>c. bl_name L c = n \<and> dict_get (bw_puzzles w) n = Some (puzzle_hash c) \<and>
        (c \<in> set (bw_additions w @ ti_reward_claims_incorporated ti) \<or>
         n \<notin> set frems \<and>
         ((\<exists>row. row \<in> set db \<and> row_coin_name row = n \<and> row_to_coin row = Inr c \<and> row_confirmed_index row \<le> fork_h \<and>
             (row_spent_index row \<le> 0 \<or> fork_h < row_spent_index row)) \<or>
          (\<exists>h t. dict_get fadds n = Some (c, h, t))))))"
proof (rule accepted_facts [OF assms])
  fix ftb ti expected ph w fork_h frems fadds recs
  assume f: "body_of_npc constants (bb_transactions_generator b) npc = Inr (Inr w)" "bb_transactions_info b = Some ti"
    "fork_height blocks peak height fork (bb_prev_header_hash b) = Inr fork_h"
    "since_fork L constants fork_h height (bb_prev_header_hash b) = Inr (frems, fadds)"
    and c: "check_reward_claims (ti_reward_claims_incorporated ti) expected = Inr (Inr ())"
    and o: "records_ok (bl_name L) (spend_origin db fork_h
       (foldl (\<lambda>d c. dict_set d (bl_name L c) c) [] (bw_additions w @ expected)) frems fadds) recs"
    and k: "set (dict_keys recs) = set (bw_removals w)"
    and z: "\<forall>u \<in> set (dict_values recs). dict_get (bw_puzzles w) (bl_name L (cr_coin u)) = Some (puzzle_hash (cr_coin u))"
  have claims: "set (ti_reward_claims_incorporated ti) = set expected"
    using c by (auto simp: check_reward_claims_def ebind_Inr_Inr)
  have "\<exists>c. bl_name L c = n \<and> dict_get (bw_puzzles w) n = Some (puzzle_hash c) \<and>
        (c \<in> set (bw_additions w @ ti_reward_claims_incorporated ti) \<or>
         n \<notin> set frems \<and>
         ((\<exists>row. row \<in> set db \<and> row_coin_name row = n \<and> row_to_coin row = Inr c \<and> row_confirmed_index row \<le> fork_h \<and>
             (row_spent_index row \<le> 0 \<or> fork_h < row_spent_index row)) \<or>
          (\<exists>h t. dict_get fadds n = Some (c, h, t))))" if n_in: "n \<in> set (bw_removals w)" for n
  proof -
    obtain u where u: "dict_get recs n = Some u"
      using n_in k dict_mem_iff [of recs n] by (auto simp: dict_mem_def)
    then have "u \<in> set (dict_values recs)" by (force simp: dict_get_def dict_values_def dest: map_of_SomeD)
    moreover have n: "bl_name L (cr_coin u) = n" and
      origin: "spend_origin db fork_h (foldl (\<lambda>d c. dict_set d (bl_name L c) c) [] (bw_additions w @ expected)) frems fadds n u"
      using o u by (auto simp: records_ok_def)
    ultimately have "dict_get (bw_puzzles w) n = Some (puzzle_hash (cr_coin u))" using z by auto
    moreover have "cr_coin u \<in> set (bw_additions w @ ti_reward_claims_incorporated ti) \<or>
         n \<notin> set frems \<and>
         ((\<exists>row. row \<in> set db \<and> row_coin_name row = n \<and> row_to_coin row = Inr (cr_coin u) \<and> row_confirmed_index row \<le> fork_h \<and>
             (row_spent_index row \<le> 0 \<or> fork_h < row_spent_index row)) \<or>
          (\<exists>h t. dict_get fadds n = Some (cr_coin u, h, t)))"
      using origin_cases [OF origin] claims by auto
    ultimately show ?thesis using n by blast
  qed
  then show ?thesis using f by blast
qed

text \<open>C6. The reward claims of an accepted transaction block.  They are different coins, and together they are
  worth at most the fees of the previous transaction block plus the scheduled block rewards of that block and of
  the blocks between it and the transaction block before it.\<close>

theorem body_rewards_bounded:
  assumes "fst (validate_block_body L constants blocks db peak b height npc fork sig cache) = Inr (None, r)"
    and "fo_foliage_transaction_block_hash (bb_foliage b) \<noteq> None" and "0 < height"
  shows "\<exists>ftb ti prev_tb fees xs. bb_foliage_transaction_block b = Some ftb \<and> bb_transactions_info b = Some ti \<and>
     block_record blocks (ft_prev_transaction_block_hash ftb) = Inr prev_tb \<and> br_fees prev_tb = Some fees \<and>
     claimed_blocks blocks prev_tb xs \<and> distinct (ti_reward_claims_incorporated ti) \<and>
     sum_amounts (ti_reward_claims_incorporated ti) \<le> fees + (\<Sum>x \<leftarrow> prev_tb # xs. block_reward (br_height x))"
proof (rule accepted_checks [OF assms(1,2)])
  fix ftb ti expected ph
  assume t: "bb_foliage_transaction_block b = Some ftb" "bb_transactions_info b = Some ti"
    "expected_rewards constants blocks ftb height = Inr (expected, ph)"
    "check_reward_claims (ti_reward_claims_incorporated ti) expected = Inr (Inr ())"
  obtain prev_tb fees xs coins where e:
    "block_record blocks (ft_prev_transaction_block_hash ftb) = Inr prev_tb" "br_fees prev_tb = Some fees"
    "claimed_blocks blocks prev_tb xs" "expected = to_set coins" "list_all coin_ok coins"
    "sum_amounts coins = fees + (\<Sum>x \<leftarrow> prev_tb # xs. block_reward (br_height x))"
    by (rule expected_rewards_ok [OF t(3) assms(3)])
  show ?thesis using t(1,2) e(1-3) check_reward_claims_ok [OF t(4) [unfolded e(4)]] sum_amounts_to_set [OF e(5)] e(6)
    by (intro exI conjI) (assumption | simp)+
qed


section \<open>A block for the witnesses\<close>

definition hash_of :: "bytes res \<Rightarrow> bytes" where
  "hash_of r = (case r of Inl _ \<Rightarrow> [] | Inr h \<Rightarrow> h)"

definition sample_hash :: hasher where
  "sample_hash b = take 8 (rev b @ replicate 8 0) @ take 24 (drop 24 b @ replicate 24 0)"

definition sample_lib :: "(bytes, bytes, (bytes \<times> bytes) list) body_lib" where
  "sample_lib = \<lparr>bl_std_hash = sample_hash, bl_int_to_bytes = be_encode 8, bl_merkle_set_root = (\<lambda>_. b32 0),
     bl_bip158 = (\<lambda>_. []), bl_mempool_flags = 0, bl_soft_fork_flags = 0,
     bl_run_as_generator = (\<lambda>_ _ _ _. Inl ValueError), bl_get_full_block = (\<lambda>_. Inr (Some sample_full_block)),
     bl_get_block_generator = (\<lambda>_. Inr None), bl_bls = sample_bls\<lparr>g1_generator := replicate 48 1\<rparr>,
     bl_g2_element = (\<lambda>b. b)\<rparr>"

text \<open>The chain below the block: a transaction block at height 0, a block at height 1 and a transaction block at height 2.\<close>

definition body_cache :: block_cache where
  "body_cache = \<lparr>block_records =
     [([0], (sample_block 0 0 0)\<lparr>br_timestamp := Some 1, br_fees := Some 0\<rparr>),
      ([1], (sample_block 1 0 1)\<lparr>br_timestamp := None, br_pool_puzzle_hash := b32 1, br_farmer_puzzle_hash := b32 2\<rparr>),
      ([2], (sample_block 2 1 2)\<lparr>br_timestamp := Some 5, br_fees := Some 7, br_pool_puzzle_hash := b32 1, br_farmer_puzzle_hash := b32 2\<rparr>)],
     height_hashes = [], sub_epoch_summaries = []\<rparr>"

definition old_coin :: coin where
  "old_coin = \<lparr>parent_coin_info = b32 9, puzzle_hash = b32 5, amount = 1000\<rparr>"

definition body_store_block :: store_block where
  "body_store_block = \<lparr>sb_height = 2, sb_timestamp = 5,
     sb_rewards = [\<lparr>parent_coin_info = b32 9, puzzle_hash = b32 5, amount = 50\<rparr>, old_coin], sb_additions = [], sb_removals = []\<rparr>"

definition body_store :: table where
  "body_store = table_of (apply_block (bl_name sample_lib) [] body_store_block)"

definition body_npc :: npc_result where
  "body_npc = \<lparr>npc_error = None, npc_conds = Some
     \<lparr>sc_spends = [\<lparr>sp_coin_id = bl_name sample_lib old_coin, sp_puzzle_hash = b32 5, sp_height_relative = Some 0,
         sp_seconds_relative = 0, sp_create_coin = [(b32 6, 990, None)], sp_agg_sig_me = []\<rparr>],
      sc_reserve_fee = 10, sc_height_absolute = 0, sc_seconds_absolute = 0,
      sc_agg_sig_unsafe = [(replicate 48 1, replicate 48 7)], sc_cost = 100\<rparr>, npc_cost = 100\<rparr>"

definition body_constants :: consensus_constants where
  "body_constants = DEFAULT_CONSTANTS\<lparr>GENESIS_CHALLENGE := replicate 16 1 @ replicate 16 2,
     GENESIS_PRE_FARM_COMMUNITY_PUZZLE_HASH := b32 4\<rparr>"

definition claim :: "byte \<Rightarrow> byte \<Rightarrow> byte \<Rightarrow> int \<Rightarrow> coin" where
  "claim half h ph amt = \<lparr>parent_coin_info = replicate 16 half @ replicate 15 0 @ [h], puzzle_hash = b32 ph, amount = amt\<rparr>"

definition body_ti :: transactions_info where
  "body_ti = \<lparr>ti_generator_root = sample_hash [1, 2], ti_generator_refs_root = b32 1,
     ti_aggregated_signature = replicate 48 1 @ replicate 48 7, ti_fees = 10, ti_cost = 100,
     ti_reward_claims_incorporated =
       [claim 1 2 1 15750000000, claim 2 2 2 2250000007, claim 2 2 4 2000000000,
        claim 1 1 1 15750000000, claim 2 1 2 2250000000, claim 2 1 4 2000000000]\<rparr>"

definition body_ftb :: foliage_transaction_block where
  "body_ftb = \<lparr>ft_prev_transaction_block_hash = [2], ft_timestamp = 9, ft_filter_hash = b32 0, ft_additions_root = b32 0,
     ft_removals_root = b32 0,
     ft_transactions_info_hash = hash_of (streamable_get_hash sample_hash transactions_info_fields (transactions_info_val body_ti))\<rparr>"

definition body_sample :: body_block where
  "body_sample = UnfinishedB \<lparr>ub_finished_sub_slots = [],
     ub_reward_chain_block = \<lparr>ru_total_iters = 30, ru_signage_point_index = 0, ru_pos_ss_cc_challenge_hash = b32 0,
       ru_proof_of_space = sample_pos, ru_challenge_chain_sp_vdf = None, ru_challenge_chain_sp_signature = replicate 96 0,
       ru_reward_chain_sp_vdf = None, ru_reward_chain_sp_signature = replicate 96 0\<rparr>,
     ub_challenge_chain_sp_proof = None, ub_reward_chain_sp_proof = None,
     ub_foliage = sample_foliage [2]
       (Some (hash_of (streamable_get_hash sample_hash foliage_transaction_block_fields (foliage_transaction_block_val body_ftb)))),
     ub_foliage_transaction_block = Some body_ftb, ub_transactions_info = Some body_ti,
     ub_transactions_generator = Some [1, 2], ub_transactions_generator_ref_list = []\<rparr>"



lemma body_accepted: "fst (validate_block_body sample_lib body_constants body_cache body_store (Some (sample_block 2 1 2)) body_sample 3
   (Some body_npc) (Some 2) True (new_lru_cache 5)) = Inr (None, Some body_npc)"
  by code_simp


lemma body_store_applied: "apply_block (bl_name sample_lib) [] body_store_block = Inr body_store"
  by code_simp

lemma body_store_block_ok: "store_block_ok body_store_block"
  by code_simp

lemma body_store_reached: "store_reach (bl_name sample_lib) 2 body_store"
  using store_reach.block [OF store_reach.empty _ body_store_block_ok body_store_applied]
  by (simp add: body_store_block_def)

lemma body_store_ok: "store_ok (bl_name sample_lib) 2 body_store"
  using store_reach_ok [OF body_store_reached] by simp

lemma body_sample_sel [simp]:
  "bb_foliage_transaction_block body_sample = Some body_ftb" "bb_transactions_info body_sample = Some body_ti"
  "bb_transactions_generator body_sample = Some [1, 2]" "bb_prev_header_hash body_sample = [2]"
  "fo_foliage_transaction_block_hash (bb_foliage body_sample) \<noteq> None" "ti_fees body_ti = 10"
  by (simp_all add: body_sample_def bb_prev_header_hash_def sample_foliage_def body_ti_def)

lemma body_sample_view: "body_of_npc body_constants (Some [1, 2]) (Some body_npc) = Inr (Inr
    \<lparr>bw_removals = [bl_name sample_lib old_coin], bw_puzzles = [(bl_name sample_lib old_coin, b32 5)],
     bw_additions = [\<lparr>parent_coin_info = bl_name sample_lib old_coin, puzzle_hash = b32 6, amount = 990\<rparr>], bw_cost = 100\<rparr>)"
  by code_simp

theorem body_conserves_value_witness:
  "\<exists>w (recs :: records). body_of_npc body_constants (Some [1, 2]) (Some body_npc) = Inr (Inr w) \<and>
     set (dict_keys recs) = set (bw_removals w) \<and>
     sum_amounts (map cr_coin (dict_values recs)) = sum_amounts (bw_additions w) + 10"
  using body_conserves_value [OF body_accepted _ body_store_ok] by auto

theorem body_spends_existing_witness:
  "\<exists>c. bl_name sample_lib c = bl_name sample_lib old_coin \<and> puzzle_hash c = b32 5"
  using body_spends_existing [OF body_accepted _ body_store_ok] by (auto simp: body_sample_view dict_get_def)

theorem body_rewards_bounded_witness:
  "distinct (ti_reward_claims_incorporated body_ti) \<and>
   (\<exists>prev_tb fees xs. block_record body_cache [2] = Inr prev_tb \<and> claimed_blocks body_cache prev_tb xs \<and>
      sum_amounts (ti_reward_claims_incorporated body_ti) \<le> fees + (\<Sum>x \<leftarrow> prev_tb # xs. block_reward (br_height x)))"
  using body_rewards_bounded [OF body_accepted] by (auto simp: body_ftb_def)


end
