(* ===== verification/Blockchain.thy ===== *)
theory Blockchain
  imports HeightMap BodyValidation
begin

text \<open>
  \<open>consensus/blockchain.py\<close>: the chain a node keeps.  The state holds the records of recent blocks in memory, the
  height map, the block store and the coin store; the two stores share one database, and \<open>receive_block\<close> writes to
  both inside one transaction, which an exception rolls back.  Lookups through the block store are taken for their
  result: which blocks they leave in its LRU cache is not followed here (the results do not depend on it).  Code that
  takes the chain as its \<open>BlockchainInterface\<close> gets \<open>chain_view\<close>.
\<close>

section \<open>State\<close>

datatype receive_block_result = NEW_PEAK | ADDED_AS_ORPHAN | INVALID_BLOCK | ALREADY_HAVE_BLOCK | DISCONNECTED_BLOCK

record state_change_summary =
  cs_peak :: block_record
  cs_fork_height :: int
  cs_rolled_back_records :: "coin_record list"
  cs_new_npc_results :: "npc_result list"
  cs_new_rewards :: "coin list"

record pre_validation_result =
  pv_error :: "int option"
  pv_required_iters :: "int option"
  pv_npc_result :: "npc_result option"
  pv_validated_signature :: bool

record blockchain =
  bc_peak_height :: "int option"
  bc_block_records :: "(bytes, block_record) dict"
  bc_heights_in_cache :: "(int, bytes list) dict"
  bc_height_map :: height_map
  bc_coin_store :: table
  bc_block_store :: block_store
  bc_seen_compact_proofs :: "(vdf_info \<times> int) list"

text \<open>The constants, the store's libraries and those of body validation.\<close>

record ('g1, 'g2, 'gt) chain_env =
  en_constants :: consensus_constants
  en_store :: store_lib
  en_body :: "('g1, 'g2, 'gt) body_lib"

abbreviation en_hash :: "('g1, 'g2, 'gt) chain_env \<Rightarrow> hasher" where
  "en_hash E \<equiv> bl_std_hash (en_body E)"

abbreviation en_name :: "('g1, 'g2, 'gt) chain_env \<Rightarrow> coin \<Rightarrow> bytes" where
  "en_name E \<equiv> bl_name (en_body E)"

definition chain_view :: "blockchain \<Rightarrow> block_cache" where
  "chain_view S =
     \<lparr>block_records = bc_block_records S,
      height_hashes = map (\<lambda>k. (int k, hashes (bc_height_map S) ! k)) [0..<length (hashes (bc_height_map S))],
      sub_epoch_summaries =
        concat (map (\<lambda>(k, v). case summary_from_bytes v of Inr s \<Rightarrow> [(k, s)] | Inl _ \<Rightarrow> [])
                  (hm_sub_epoch_summaries (bc_height_map S)))\<rparr>"

section \<open>Records in memory\<close>

definition bc_contains_block :: "blockchain \<Rightarrow> bytes \<Rightarrow> bool" where
  "bc_contains_block S header_hash = dict_mem (bc_block_records S) header_hash"

definition bc_block_record :: "blockchain \<Rightarrow> bytes \<Rightarrow> block_record res" where
  "bc_block_record S header_hash = dict_getitem (bc_block_records S) header_hash"

definition bc_try_block_record :: "blockchain \<Rightarrow> bytes \<Rightarrow> block_record option" where
  "bc_try_block_record S header_hash = dict_get (bc_block_records S) header_hash"

definition bc_height_to_hash :: "blockchain \<Rightarrow> int \<Rightarrow> bytes option res" where
  "bc_height_to_hash S height =
     (if \<not> hm_contains_height (bc_height_map S) height then Inr None
      else rbind (hm_get_hash (bc_height_map S) height) (\<lambda>h. Inr (Some h)))"

definition bc_height_to_block_record :: "blockchain \<Rightarrow> int \<Rightarrow> block_record res" where
  "bc_height_to_block_record S height =
     rbind (bc_height_to_hash S height) (\<lambda>h.
     case h of None \<Rightarrow> Inl ValueError | Some header_hash \<Rightarrow> bc_block_record S header_hash)"

definition bc_get_peak :: "blockchain \<Rightarrow> block_record option res" where
  "bc_get_peak S =
     (case bc_peak_height S of
        None \<Rightarrow> Inr None
      | Some h \<Rightarrow> rbind (bc_height_to_block_record S h) (\<lambda>b. Inr (Some b)))"

definition bc_add_block_record :: "blockchain \<Rightarrow> block_record \<Rightarrow> blockchain" where
  "bc_add_block_record S b =
     (let hs = (case dict_get (bc_heights_in_cache S) (br_height b) of None \<Rightarrow> [] | Some hs \<Rightarrow> hs);
          hs' = (if br_header_hash b \<in> set hs then hs else hs @ [br_header_hash b])
      in S\<lparr>bc_block_records := dict_set (bc_block_records S) (br_header_hash b) b,
           bc_heights_in_cache := dict_set (bc_heights_in_cache S) (br_height b) hs'\<rparr>)"

definition bc_remove_block_record :: "blockchain \<Rightarrow> bytes \<Rightarrow> blockchain res" where
  "bc_remove_block_record S header_hash =
     rbind (bc_block_record S header_hash) (\<lambda>sbr.
     rbind (dict_getitem (bc_heights_in_cache S) (br_height sbr)) (\<lambda>hs.
     rbind (rguard KeyError (header_hash \<in> set hs)) (\<lambda>_.
     Inr (S\<lparr>bc_block_records := dict_pop (bc_block_records S) header_hash,
            bc_heights_in_cache := dict_set (bc_heights_in_cache S) (br_height sbr) (filter (\<lambda>h. h \<noteq> header_hash) hs)\<rparr>))))"

text \<open>The chain in memory is a source of block records, like the cache of \<open>util/block_cache.py\<close>.\<close>

interpretation chain: block_source bc_block_record bc_contains_block bc_add_block_record
  by unfold_locales
     (auto simp: bc_block_record_def bc_contains_block_def bc_add_block_record_def Let_def dict_mem_def
        dict_getitem_def dict_simps split: option.splits)

text \<open>One round of \<open>clean_block_record\<close>; the loop goes down from \<open>height\<close> while heights are cached.\<close>

fun clean_heights :: "nat \<Rightarrow> blockchain \<Rightarrow> blockchain res" where
  "clean_heights h S =
     (case dict_get (bc_heights_in_cache S) (int h) of
        None \<Rightarrow> Inr S
      | Some hs \<Rightarrow>
          rbind (rfold dict_del (bc_block_records S) hs) (\<lambda>recs.
          let S' = S\<lparr>bc_block_records := recs, bc_heights_in_cache := dict_pop (bc_heights_in_cache S) (int h)\<rparr>
          in if h = 0 then Inr S' else clean_heights (h - 1) S'))"

declare clean_heights.simps [simp del]

definition clean_block_record :: "blockchain \<Rightarrow> int \<Rightarrow> blockchain res" where
  "clean_block_record S height =
     (if height < 0 then Inr S else rbind (uint32 height) (\<lambda>_. clean_heights (nat height) S))"

definition clean_block_records :: "consensus_constants \<Rightarrow> blockchain \<Rightarrow> blockchain res" where
  "clean_block_records constants S =
     (if int (length (bc_block_records S)) < BLOCKS_CACHE_SIZE constants then Inr S
      else (case bc_peak_height S of
              None \<Rightarrow> Inl AssertionError
            | Some p \<Rightarrow>
                if p - BLOCKS_CACHE_SIZE constants < 0 then Inr S
                else clean_block_record S (p - BLOCKS_CACHE_SIZE constants)))"

definition warmup :: "consensus_constants \<Rightarrow> blockchain \<Rightarrow> int \<Rightarrow> blockchain res" where
  "warmup constants S fork_point =
     (if bc_peak_height S = None then Inr S
      else rbind (get_block_records_in_range (bc_block_store S) (max (fork_point - BLOCKS_CACHE_SIZE constants) 0) fork_point)
             (\<lambda>recs. Inr (foldl bc_add_block_record S (dict_values recs))))"

definition seen_compact_proofs :: "blockchain \<Rightarrow> vdf_info \<Rightarrow> int \<Rightarrow> bool \<times> blockchain" where
  "seen_compact_proofs S vdf_info height =
     (let seen = bc_seen_compact_proofs S in
      if (vdf_info, height) \<in> set seen then (True, S)
      else (False, S\<lparr>bc_seen_compact_proofs := (if length seen > 10000 then [] else seen) @ [(vdf_info, height)]\<rparr>))"

section \<open>Reading blocks\<close>

definition read_block :: "('g1, 'g2, 'gt) chain_env \<Rightarrow> block_store \<Rightarrow> bytes \<Rightarrow> full_block option res" where
  "read_block E st header_hash = fst (get_full_block (en_store E) st header_hash)"

definition need_block :: "('g1, 'g2, 'gt) chain_env \<Rightarrow> block_store \<Rightarrow> bytes \<Rightarrow> full_block res" where
  "need_block E st header_hash =
     rbind (read_block E st header_hash) (\<lambda>b. case b of None \<Rightarrow> Inl AssertionError | Some f \<Rightarrow> Inr f)"

definition get_full_peak :: "('g1, 'g2, 'gt) chain_env \<Rightarrow> blockchain \<Rightarrow> full_block option res" where
  "get_full_peak E S =
     (case bc_peak_height S of
        None \<Rightarrow> Inr None
      | Some p \<Rightarrow>
          rbind (bc_height_to_hash S p) (\<lambda>h.
          case h of
            None \<Rightarrow> Inl AssertionError
          | Some peak_hash \<Rightarrow> rbind (need_block E (bc_block_store S) peak_hash) (\<lambda>b. Inr (Some b))))"

definition bc_get_block_records_at :: "blockchain \<Rightarrow> int list \<Rightarrow> int \<Rightarrow> block_record list res" where
  "bc_get_block_records_at S heights batch_size =
     rbind (rguard AssertionError (batch_size < 999)) (\<lambda>_.
     rbind (rfold (\<lambda>(recs, hs) height.
              rbind (bc_height_to_hash S height) (\<lambda>h.
              case h of
                None \<Rightarrow> Inl ValueError
              | Some header_hash \<Rightarrow>
                  let hs' = hs @ [header_hash] in
                  if int (length hs') > batch_size
                  then rbind (get_block_records_by_hash (bc_block_store S) hs') (\<lambda>r. Inr (recs @ r, []))
                  else Inr (recs, hs'))) ([], []) heights) (\<lambda>(recs, hs).
     if length hs > 0 then rbind (get_block_records_by_hash (bc_block_store S) hs) (\<lambda>r. Inr (recs @ r)) else Inr recs))"

definition get_block_record_from_db :: "blockchain \<Rightarrow> bytes \<Rightarrow> block_record option res" where
  "get_block_record_from_db S header_hash =
     (case dict_get (bc_block_records S) header_hash of
        Some b \<Rightarrow> Inr (Some b)
      | None \<Rightarrow> get_block_record (bc_block_store S) header_hash)"

definition get_next_difficulty :: "consensus_constants \<Rightarrow> blockchain \<Rightarrow> bytes \<Rightarrow> bool \<Rightarrow> int res" where
  "get_next_difficulty constants S header_hash new_slot =
     rbind (rguard AssertionError (bc_contains_block S header_hash)) (\<lambda>_.
     rbind (bc_block_record S header_hash) (\<lambda>cur.
     if br_height cur \<le> 2 then Inr (DIFFICULTY_STARTING constants)
     else rbind (get_next_sub_slot_iters_and_difficulty constants new_slot (Some cur) (chain_view S)) (\<lambda>(_, d). Inr d)))"

definition get_next_slot_iters :: "consensus_constants \<Rightarrow> blockchain \<Rightarrow> bytes \<Rightarrow> bool \<Rightarrow> int res" where
  "get_next_slot_iters constants S header_hash new_slot =
     rbind (rguard AssertionError (bc_contains_block S header_hash)) (\<lambda>_.
     rbind (bc_block_record S header_hash) (\<lambda>cur.
     if br_height cur \<le> 2 then Inr (SUB_SLOT_ITERS_STARTING constants)
     else rbind (get_next_sub_slot_iters_and_difficulty constants new_slot (Some cur) (chain_view S)) (\<lambda>(i, _). Inr i)))"

section \<open>Generators and their references\<close>

text \<open>The blocks of \<open>additional_blocks\<close> below the block, by height, and the block at which they end.\<close>

definition additional_step ::
  "(bytes, full_block) dict \<Rightarrow> body_block \<times> (int, full_block) dict \<Rightarrow> (body_block \<times> (int, full_block) dict) res" where
  "additional_step additional_blocks s =
     (case s of (cur, d) \<Rightarrow>
        rbind (dict_getitem additional_blocks (bb_prev_header_hash cur)) (\<lambda>prev.
        rbind (rguard AssertionError (case cur of FullB f \<Rightarrow> fb_height f = fb_height prev + 1 | UnfinishedB _ \<Rightarrow> True)) (\<lambda>_.
        Inr (FullB prev, dict_set d (fb_height prev) prev))))"

definition collect_additional ::
  "(bytes, full_block) dict \<Rightarrow> body_block \<Rightarrow> (body_block \<times> (int, full_block) dict) res" where
  "collect_additional additional_blocks b =
     loop_while (\<lambda>(cur, _). dict_mem additional_blocks (bb_prev_header_hash cur)) (additional_step additional_blocks) (b, [])"

definition backtrack_step ::
  "('g1, 'g2, 'gt) chain_env \<Rightarrow> block_store \<Rightarrow> full_block \<times> (int, full_block) dict
     \<Rightarrow> (full_block \<times> (int, full_block) dict) res" where
  "backtrack_step E st s =
     (case s of (cur, d) \<Rightarrow>
        rbind (need_block E st (fb_prev_header_hash cur)) (\<lambda>prev. Inr (prev, dict_set d (fb_height prev) prev)))"

text \<open>The blocks from \<open>cur\<close> down to its fork point with the main chain, added to \<open>reorg_chain\<close>.\<close>

definition backtrack_to_fork ::
  "('g1, 'g2, 'gt) chain_env \<Rightarrow> blockchain \<Rightarrow> body_block \<Rightarrow> (int, full_block) dict \<Rightarrow> (int, full_block) dict res" where
  "backtrack_to_fork E S cur reorg_chain =
     rbind (bc_get_peak S) (\<lambda>peak.
     case peak of
       None \<Rightarrow> Inr reorg_chain
     | Some p \<Rightarrow>
         if \<not> bc_contains_block S (bb_prev_header_hash cur) then Inr reorg_chain
         else
           let prev_hash = bb_prev_header_hash cur; st = bc_block_store S in
           rbind (get_block_record st prev_hash) (\<lambda>prev_block_record.
           rbind (need_block E st prev_hash) (\<lambda>prev_block.
           case prev_block_record of
             None \<Rightarrow> Inl AssertionError
           | Some pr \<Rightarrow>
               rbind (find_fork_point_in_chain (chain_view S) p pr) (\<lambda>fork.
               rbind (loop_while (\<lambda>(cur, _). fb_height cur > fork \<and> fb_height cur > 0) (backtrack_step E st)
                        (prev_block, dict_set reorg_chain (fb_height prev_block) prev_block)) (\<lambda>(_, d). Inr d)))))"

definition generator_at ::
  "('g1, 'g2, 'gt) chain_env \<Rightarrow> blockchain \<Rightarrow> (int, full_block) dict \<Rightarrow> (int, full_block) dict \<Rightarrow> int \<Rightarrow> bytes res" where
  "generator_at E S reorg_chain additional_height_dict ref_height =
     rbind (case dict_get reorg_chain ref_height of
              Some b \<Rightarrow> Inr (fb_transactions_generator b)
            | None \<Rightarrow>
                (case dict_get additional_height_dict ref_height of
                   Some b \<Rightarrow> Inr (fb_transactions_generator b)
                 | None \<Rightarrow>
                     rbind (bc_height_to_hash S ref_height) (\<lambda>h.
                     case h of
                       None \<Rightarrow> Inl ValueError
                     | Some header_hash \<Rightarrow> fst (get_generator (en_store E) (bc_block_store S) header_hash)))) (\<lambda>gen.
     case gen of None \<Rightarrow> Inl ValueError | Some g \<Rightarrow> Inr g)"

definition get_block_generator ::
  "('g1, 'g2, 'gt) chain_env \<Rightarrow> blockchain \<Rightarrow> body_block \<Rightarrow> (bytes, full_block) dict \<Rightarrow> block_generator option res" where
  "get_block_generator E S b additional_blocks =
     (let ref_list = bb_transactions_generator_ref_list b; prev = bb_prev_header_hash b in
      case bb_transactions_generator b of
        None \<Rightarrow> rbind (rguard AssertionError (length ref_list = 0)) (\<lambda>_. Inr None)
      | Some g \<Rightarrow>
          if length ref_list = 0 then Inr (Some \<lparr>bg_program = g, bg_generator_refs = [], bg_block_height_list = []\<rparr>)
          else
            rbind (case bc_try_block_record S prev of
                     None \<Rightarrow> Inr False
                   | Some r \<Rightarrow> rbind (bc_height_to_hash S (br_height r)) (\<lambda>h. Inr (h = Some prev))) (\<lambda>in_main_chain.
            rbind (if in_main_chain then get_generators_at (en_store E) (bc_block_store S) ref_list
                   else
                     rbind (collect_additional additional_blocks b) (\<lambda>(cur, additional).
                     rbind (backtrack_to_fork E S cur additional) (\<lambda>reorg_chain.
                     rmap (generator_at E S reorg_chain additional) ref_list))) (\<lambda>result.
            rbind (rguard AssertionError (length result = length ref_list)) (\<lambda>_.
            Inr (Some \<lparr>bg_program = g, bg_generator_refs = result, bg_block_height_list = []\<rparr>)))))"

definition get_tx_removals_and_additions ::
  "('g1, 'g2, 'gt) chain_env \<Rightarrow> blockchain \<Rightarrow> full_block \<Rightarrow> npc_result option
     \<Rightarrow> (bytes list \<times> coin list \<times> npc_result option) res" where
  "get_tx_removals_and_additions E S b npc_result =
     (if \<not> fb_is_transaction_block b then Inr ([], [], None)
      else if fb_transactions_generator b = None then Inr ([], [], None)
      else
        rbind (case npc_result of
                 Some npc \<Rightarrow> Inr npc
               | None \<Rightarrow>
                   rbind (get_block_generator E S (FullB b) []) (\<lambda>gen.
                   case gen of
                     None \<Rightarrow> Inl AssertionError
                   | Some g \<Rightarrow> get_name_puzzle_conditions (en_body E) g (MAX_BLOCK_COST_CLVM (en_constants E))
                                (COST_PER_BYTE (en_constants E)) False (Some (fb_height b)))) (\<lambda>npc.
        rbind (tx_removals_and_additions (npc_conds npc)) (\<lambda>(removals, additions).
        Inr (removals, additions, Some npc))))"

section \<open>Choosing the peak\<close>

text \<open>The new block and its ancestors, newest first, down to the fork point, which stays in the chain, or to height 0.\<close>

definition branch_step ::
  "('g1, 'g2, 'gt) chain_env \<Rightarrow> block_store \<Rightarrow> bool \<times> bytes \<times> (full_block \<times> block_record) list
     \<Rightarrow> (bool \<times> bytes \<times> (full_block \<times> block_record) list) res" where
  "branch_step E st s =
     (case s of (_, cur, blocks_to_add) \<Rightarrow>
        rbind (read_block E st cur) (\<lambda>fetched_full_block.
        rbind (get_block_record st cur) (\<lambda>fetched_block_record.
        case (fetched_full_block, fetched_block_record) of
          (Some b, Some r) \<Rightarrow> Inr (fb_height b = 0, br_prev_hash r, blocks_to_add @ [(b, r)])
        | _ \<Rightarrow> Inl AssertionError)))"

definition collect_branch ::
  "('g1, 'g2, 'gt) chain_env \<Rightarrow> blockchain \<Rightarrow> block_store \<Rightarrow> int \<Rightarrow> bytes \<Rightarrow> (full_block \<times> block_record) list res" where
  "collect_branch E S st fork_h header_hash =
     rbind (if fork_h < 0 then Inr None else rbind (uint32 fork_h) (bc_height_to_hash S)) (\<lambda>fork_hash.
     rbind (loop_while (\<lambda>(stop, cur, _). \<not> stop \<and> (fork_h < 0 \<or> Some cur \<noteq> fork_hash)) (branch_step E st)
              (False, header_hash, [])) (\<lambda>(_, _, blocks_to_add). Inr blocks_to_add))"

text \<open>One block of the branch enters the coin store.\<close>

definition apply_branch_block ::
  "('g1, 'g2, 'gt) chain_env \<Rightarrow> blockchain \<Rightarrow> bytes \<Rightarrow> npc_result option
     \<Rightarrow> block_record list \<times> npc_result list \<times> coin list \<times> table \<Rightarrow> full_block \<times> block_record
     \<Rightarrow> (block_record list \<times> npc_result list \<times> coin list \<times> table) res" where
  "apply_branch_block E S new_hash npc_result s br =
     (case (s, br) of ((records, npcs, rewards, coins), (b, r)) \<Rightarrow>
        if \<not> fb_is_transaction_block b then Inr (records @ [r], npcs, rewards, coins)
        else
          rbind (get_tx_removals_and_additions E S b (if br_header_hash r = new_hash then npc_result else None))
            (\<lambda>(tx_removals, tx_additions, npc_res).
          case fb_foliage_transaction_block b of
            None \<Rightarrow> Inl AssertionError
          | Some ftb \<Rightarrow>
              rbind (get_included_reward_coins b) (\<lambda>reward_coins.
              rbind (new_block (en_name E) (fb_height b) (ft_timestamp ftb) reward_coins tx_additions tx_removals coins)
                (\<lambda>(_, coins').
              Inr (records @ [r], npcs @ (case npc_res of None \<Rightarrow> [] | Some n \<Rightarrow> [n]), rewards @ reward_coins, coins')))))"

definition genesis_peak ::
  "('g1, 'g2, 'gt) chain_env \<Rightarrow> block_store \<Rightarrow> table \<Rightarrow> block_record \<Rightarrow> npc_result option
     \<Rightarrow> (block_record list \<times> state_change_summary option \<times> block_store \<times> table) res" where
  "genesis_peak E st coins rec npc_result =
     rbind (need_block E st (br_header_hash rec)) (\<lambda>b.
     rbind (case npc_result of Some npc \<Rightarrow> tx_removals_and_additions (npc_conds npc) | None \<Rightarrow> Inr ([], []))
       (\<lambda>(tx_removals, tx_additions).
     rbind (get_included_reward_coins b) (\<lambda>reward_coins.
     rbind (if fb_is_transaction_block b then
              (case fb_foliage_transaction_block b of
                 None \<Rightarrow> Inl AssertionError
               | Some ftb \<Rightarrow>
                   rbind (new_block (en_name E) (fb_height b) (ft_timestamp ftb) reward_coins tx_additions tx_removals coins)
                     (\<lambda>(_, coins'). Inr coins'))
            else Inr coins) (\<lambda>coins'.
     Inr ([rec],
          Some \<lparr>cs_peak = rec, cs_fork_height = 0, cs_rolled_back_records = [], cs_new_npc_results = [],
                cs_new_rewards = reward_coins\<rparr>,
          set_peak (set_in_chain st [br_header_hash rec]) (br_header_hash rec), coins')))))"

definition choose_fork :: "blockchain \<Rightarrow> block_record \<Rightarrow> block_record \<Rightarrow> int option \<Rightarrow> int res" where
  "choose_fork S rec peak fork_point_with_peak =
     (if br_prev_hash rec = br_header_hash peak then Inr (br_height peak)
      else case fork_point_with_peak of
             Some f \<Rightarrow> Inr f
           | None \<Rightarrow> find_fork_point_in_chain (chain_view S) rec peak)"

definition reconsider_peak ::
  "('g1, 'g2, 'gt) chain_env \<Rightarrow> blockchain \<Rightarrow> block_store \<Rightarrow> block_record \<Rightarrow> bool \<Rightarrow> int option \<Rightarrow> npc_result option
     \<Rightarrow> (block_record list \<times> state_change_summary option \<times> block_store \<times> table) res" where
  "reconsider_peak E S st rec genesis fork_point_with_peak npc_result =
     (let coins = bc_coin_store S in
      rbind (bc_get_peak S) (\<lambda>peak.
      if genesis then
        (if peak = None then genesis_peak E st coins rec npc_result else Inr ([], None, st, coins))
      else
        (case peak of
           None \<Rightarrow> Inl AssertionError
         | Some p \<Rightarrow>
             if br_weight rec \<le> br_weight p then Inr ([], None, st, coins)
             else
               rbind (choose_fork S rec p fork_point_with_peak) (\<lambda>fork_h.
               rbind (if br_prev_hash rec \<noteq> br_header_hash p then rollback_to_block (en_name E) fork_h coins
                      else Inr ([], coins)) (\<lambda>(rolled_back, coins1).
               rbind (collect_branch E S st fork_h (br_header_hash rec)) (\<lambda>blocks_to_add.
               rbind (rfold (apply_branch_block E S (br_header_hash rec) npc_result) ([], [], [], coins1) (rev blocks_to_add))
                 (\<lambda>(records_to_add, npc_results, reward_coins, coins2).
               rbind (uint32 (max fork_h 0)) (\<lambda>summary_fork.
               let rolled_back_state = foldl (\<lambda>d r. dict_set d (en_name E (cr_coin r)) r) [] rolled_back;
                   st' = set_peak (set_in_chain (bs_rollback st fork_h) (map br_header_hash records_to_add)) (br_header_hash rec)
               in Inr (records_to_add,
                       Some \<lparr>cs_peak = rec, cs_fork_height = summary_fork,
                             cs_rolled_back_records = dict_values rolled_back_state, cs_new_npc_results = npc_results,
                             cs_new_rewards = reward_coins\<rparr>,
                       st', coins2)))))))))"

section \<open>Receiving a block\<close>

definition body_lib_of :: "('g1, 'g2, 'gt) chain_env \<Rightarrow> blockchain \<Rightarrow> ('g1, 'g2, 'gt) body_lib" where
  "body_lib_of E S =
     (en_body E)\<lparr>bl_get_full_block := read_block E (bc_block_store S),
                 bl_get_block_generator := (\<lambda>b. get_block_generator E S (FullB b) [])\<rparr>"

text \<open>\<open>update_height\<close> for each record; an exception keeps what was set before it.\<close>

fun update_heights :: "height_map \<Rightarrow> block_record list \<Rightarrow> unit res \<times> height_map" where
  "update_heights hm [] = (Inr (), hm)"
| "update_heights hm (r # rs) =
     (case update_height hm (br_height r) (br_header_hash r) (br_sub_epoch_summary_included r) of
        Inl e \<Rightarrow> (Inl e, hm)
      | Inr hm' \<Rightarrow> update_heights hm' rs)"

text \<open>The memory update after the database writes.\<close>

definition update_memory ::
  "blockchain \<Rightarrow> block_record \<Rightarrow> block_record list \<Rightarrow> state_change_summary option \<Rightarrow> unit res \<times> blockchain" where
  "update_memory S rec records summary =
     (let S1 = bc_add_block_record S rec in
      case (case summary of None \<Rightarrow> Inr (bc_height_map S1) | Some c \<Rightarrow> hm_rollback (bc_height_map S1) (cs_fork_height c)) of
        Inl e \<Rightarrow> (Inl e, S1)
      | Inr hm1 \<Rightarrow>
          (case update_heights hm1 records of
             (Inl e, hm2) \<Rightarrow> (Inl e, S1\<lparr>bc_height_map := hm2\<rparr>)
           | (Inr (), hm2) \<Rightarrow>
               (Inr (), S1\<lparr>bc_height_map := hm2,
                           bc_peak_height := (if summary = None then bc_peak_height S1 else Some (br_height rec))\<rparr>)))"

text \<open>An exception inside the transaction: the tables are as before, the block leaves the cache, memory stays as it is.\<close>

definition abort_block :: "blockchain \<Rightarrow> blockchain \<Rightarrow> block_store \<Rightarrow> bytes \<Rightarrow> blockchain" where
  "abort_block S S' st header_hash =
     S'\<lparr>bc_coin_store := bc_coin_store S,
        bc_block_store := rollback_cache_block (st\<lparr>bs_db := bs_db (bc_block_store S)\<rparr>) header_hash\<rparr>"

definition write_block ::
  "('g1, 'g2, 'gt) chain_env \<Rightarrow> blockchain \<Rightarrow> full_block \<Rightarrow> block_record \<Rightarrow> int option \<Rightarrow> npc_result option
     \<Rightarrow> state_change_summary option res \<times> blockchain" where
  "write_block E S b rec fork_point_with_peak npc_result =
     (case fb_header_hash (en_hash E) b of
        Inl e \<Rightarrow> (Inl e, S)
      | Inr header_hash \<Rightarrow>
          (case add_full_block (en_store E) (bc_block_store S) header_hash b rec of
             (Inl e, st) \<Rightarrow> (Inl e, abort_block S S st header_hash)
           | (Inr (), st) \<Rightarrow>
               (case reconsider_peak E S st rec (fb_height b = 0) fork_point_with_peak npc_result of
                  Inl e \<Rightarrow> (Inl e, abort_block S S st header_hash)
                | Inr (records, summary, st', coins') \<Rightarrow>
                    (case update_memory S rec records summary of
                       (Inl e, S') \<Rightarrow> (Inl e, abort_block S S' st' header_hash)
                     | (Inr (), S') \<Rightarrow>
                         (case hm_maybe_flush (bc_height_map S') of
                            Inl e \<Rightarrow> (Inl e, S'\<lparr>bc_block_store := st'\<lparr>bs_db := bs_db (bc_block_store S)\<rparr>\<rparr>)
                          | Inr hm \<Rightarrow>
                              (Inr summary, S'\<lparr>bc_height_map := hm, bc_block_store := st', bc_coin_store := coins'\<rparr>))))))"

definition receive_block ::
  "('g1, 'g2, 'gt) chain_env \<Rightarrow> blockchain \<Rightarrow> full_block \<Rightarrow> pre_validation_result \<Rightarrow> int option \<Rightarrow> (bytes, 'gt) lru_cache
     \<Rightarrow> (receive_block_result \<times> err option \<times> state_change_summary option) res \<times> blockchain" where
  "receive_block E S b pre fork_point_with_peak bls_cache =
     (let genesis = (fb_height b = 0); prev = fb_prev_header_hash b in
      case fb_header_hash (en_hash E) b of
        Inl e \<Rightarrow> (Inl e, S)
      | Inr header_hash \<Rightarrow>
          if bc_contains_block S header_hash then (Inr (ALREADY_HAVE_BLOCK, None, None), S)
          else if \<not> bc_contains_block S prev \<and> \<not> genesis then
            (Inr (DISCONNECTED_BLOCK, Some INVALID_PREV_BLOCK_HASH, None), S)
          else if \<not> genesis \<and> map_option br_height (bc_try_block_record S prev) \<noteq> Some (fb_height b - 1) then
            (Inr (INVALID_BLOCK, Some INVALID_HEIGHT, None), S)
          else
            (case (pv_error pre, pv_required_iters pre) of
               (Some code, _) \<Rightarrow> (rbind (err_of_value code) (\<lambda>x. Inr (INVALID_BLOCK, Some x, None)), S)
             | (None, None) \<Rightarrow> (Inl AssertionError, S)
             | (None, Some required_iters) \<Rightarrow>
                 (case rbind (bc_get_peak S) (\<lambda>peak.
                         fst (validate_block_body (body_lib_of E S) (en_constants E) (chain_view S) (bc_coin_store S) peak
                                (FullB b) (fb_height b) (pv_npc_result pre) fork_point_with_peak
                                (\<not> pv_validated_signature pre) bls_cache)) of
                    Inl e \<Rightarrow> (Inl e, S)
                  | Inr (Some error_code, _) \<Rightarrow> (Inr (INVALID_BLOCK, Some error_code, None), S)
                  | Inr (None, _) \<Rightarrow>
                      (case block_to_block_record (en_hash E) (en_constants E) (chain_view S) required_iters (FullT b) None of
                         Inl e \<Rightarrow> (Inl e, S)
                       | Inr rec \<Rightarrow>
                           (case write_block E S b rec fork_point_with_peak (pv_npc_result pre) of
                              (Inl e, S') \<Rightarrow> (Inl e, S')
                            | (Inr (Some summary), S') \<Rightarrow> (Inr (NEW_PEAK, None, Some summary), S')
                            | (Inr None, S') \<Rightarrow> (Inr (ADDED_AS_ORPHAN, None, None), S'))))))"

section \<open>Starting up\<close>

definition load_chain_from_store ::
  "consensus_constants \<Rightarrow> block_store \<Rightarrow> table \<Rightarrow> bytes option \<Rightarrow> bytes option \<Rightarrow> blockchain res" where
  "load_chain_from_store constants st coins hash_file ses_file =
     rbind (create_height_map (bs_db st) hash_file ses_file) (\<lambda>hm.
     rbind (get_block_records_close_to_peak st (BLOCKS_CACHE_SIZE constants)) (\<lambda>(block_recs, peak).
     let S0 = \<lparr>bc_peak_height = None, bc_block_records = [], bc_heights_in_cache = [], bc_height_map = hm,
               bc_coin_store = coins, bc_block_store = st, bc_seen_compact_proofs = []\<rparr>;
         S1 = foldl bc_add_block_record S0 (dict_values block_recs)
     in if length block_recs = 0 then rbind (rguard AssertionError (peak = None)) (\<lambda>_. Inr S1)
        else (case peak of
                None \<Rightarrow> Inl AssertionError
              | Some h \<Rightarrow>
                  rbind (bc_block_record S1 h) (\<lambda>p.
                  rbind (rguard AssertionError (hm_contains_height hm (br_height p))) (\<lambda>_.
                  rbind (uint32 (br_height p + 1)) (\<lambda>above.
                  rbind (rguard AssertionError (\<not> hm_contains_height hm above)) (\<lambda>_.
                  Inr (S1\<lparr>bc_peak_height := Some (br_height p)\<rparr>))))))))"

section \<open>Sub-slots and recent challenges\<close>

text \<open>The record of the block, or the nearest one below it, that is first in its sub-slot.\<close>

definition sub_slot_start :: "blockchain \<Rightarrow> block_record \<Rightarrow> block_record res" where
  "sub_slot_start S br =
     loop_while (\<lambda>r. \<not> first_in_sub_slot r \<and> br_height r \<noteq> 0) (\<lambda>r. bc_block_record S (br_prev_hash r)) br"

definition prev_sub_slot_start :: "blockchain \<Rightarrow> block_record \<Rightarrow> block_record res" where
  "prev_sub_slot_start S br =
     loop_while (\<lambda>r. br_height r > 0 \<and> \<not> first_in_sub_slot r) (\<lambda>r. bc_block_record S (br_prev_hash r)) br"

text \<open>In a linked chain both searches end.\<close>

lemma sub_slot_start_found:
  assumes "chain.linked S g" "chain.present S b"
  shows "\<exists>t. sub_slot_start S b = Inr t \<and> chain.present S t \<and> (first_in_sub_slot t \<or> br_height t = 0)"
    "\<exists>t. prev_sub_slot_start S b = Inr t \<and> chain.present S t \<and> (first_in_sub_slot t \<or> br_height t = 0)"
  using chain.walk_stops [OF assms, of "\<lambda>r. \<not> first_in_sub_slot r \<and> br_height r \<noteq> 0"]
    chain.walk_stops [OF assms, of "\<lambda>r. br_height r > 0 \<and> \<not> first_in_sub_slot r"] chain.height_nonneg [OF assms(1)]
  by (fastforce simp: sub_slot_start_def prev_sub_slot_start_def)+

definition get_sp_and_ip_sub_slots ::
  "('g1, 'g2, 'gt) chain_env \<Rightarrow> blockchain \<Rightarrow> bytes
     \<Rightarrow> (end_of_sub_slot_bundle option \<times> end_of_sub_slot_bundle option) option res" where
  "get_sp_and_ip_sub_slots E S header_hash =
     (let st = bc_block_store S in
      rbind (read_block E st header_hash) (\<lambda>found.
      case found of
        None \<Rightarrow> Inr None
      | Some b \<Rightarrow>
          rbind (fb_header_hash (en_hash E) b) (\<lambda>hh.
          rbind (bc_block_record S hh) (\<lambda>br.
          rbind (sub_slot_start S br) (\<lambda>start.
          rbind (if first_in_sub_slot start then need_block E st (br_header_hash start) else Inr b) (\<lambda>cur.
          let slots = fb_finished_sub_slots cur in
          if length slots = 0 then Inr (Some (None, None))
          else if \<not> br_overflow br then Inr (Some (None, Some (last slots)))
          else if length slots > 1 then Inr (Some (Some (slots ! (length slots - 2)), Some (last slots)))
          else
            rbind (read_block E st (fb_prev_header_hash cur)) (\<lambda>prev_found.
            rbind (case prev_found of
                     None \<Rightarrow>
                       rbind (rguard AssertionError (fb_height cur = 0)) (\<lambda>_.
                       rbind (fb_header_hash (en_hash E) cur) (\<lambda>h.
                       rbind (bc_block_record S h) (\<lambda>r. Inr (cur, r))))
                   | Some p \<Rightarrow> rbind (bc_block_record S (fb_prev_header_hash cur)) (\<lambda>r. Inr (p, r))) (\<lambda>(prev_cur, prev_br).
            rbind (prev_sub_slot_start S prev_br) (\<lambda>prev_start.
            rbind (if br_height prev_start > 0 then need_block E st (br_header_hash prev_start) else Inr prev_cur) (\<lambda>prev_cur'.
            let prev_slots = fb_finished_sub_slots prev_cur' in
            Inr (Some (if length prev_slots = 0 then None else Some (last prev_slots), Some (last slots)))))))))))))"

text \<open>The finished reward slots of one block, newest first, each one sub-slot earlier.\<close>

fun slot_challenges :: "int \<Rightarrow> int \<Rightarrow> bytes list \<Rightarrow> (bytes \<times> int) list res" where
  "slot_challenges ssi slot_iters [] = Inr []"
| "slot_challenges ssi slot_iters (rc # rcs) =
     (if slot_iters < ssi then Inr []
      else rbind (uint128 (slot_iters - ssi)) (\<lambda>earlier.
           rbind (slot_challenges ssi earlier rcs) (\<lambda>rest. Inr ((rc, slot_iters) # rest))))"

definition challenge_round ::
  "consensus_constants \<Rightarrow> blockchain \<Rightarrow> block_record \<Rightarrow> block_record option \<times> (bytes \<times> int) list
     \<Rightarrow> (block_record option \<times> (bytes \<times> int) list) res" where
  "challenge_round constants S peak s =
     (case s of
        (None, recent) \<Rightarrow> Inl AssertionError
      | (Some cur, recent) \<Rightarrow>
          let recent1 = (if cur \<noteq> peak then recent @ [(br_reward_infusion_new_challenge cur, br_total_iters cur)] else recent) in
          rbind (if first_in_sub_slot cur then
                   (case br_finished_reward_slot_hashes cur of
                      None \<Rightarrow> Inl AssertionError
                    | Some hs \<Rightarrow>
                        rbind (ip_sub_slot_total_iters cur constants) (\<lambda>iters.
                        slot_challenges (br_sub_slot_iters cur) iters (rev hs)))
                 else Inr []) (\<lambda>slots.
          Inr (bc_try_block_record S (br_prev_hash cur), recent1 @ slots)))"

definition get_recent_reward_challenges :: "consensus_constants \<Rightarrow> blockchain \<Rightarrow> (bytes \<times> int) list res" where
  "get_recent_reward_challenges constants S =
     rbind (bc_get_peak S) (\<lambda>peak.
     case peak of
       None \<Rightarrow> Inr []
     | Some p \<Rightarrow>
         rbind (loop_while (\<lambda>(cur, recent). cur \<noteq> None \<and> int (length recent) < 2 * MAX_SUB_SLOT_BLOCKS constants)
                  (challenge_round constants S p) (Some p, [])) (\<lambda>(_, recent). Inr (rev recent)))"

section \<open>Header blocks\<close>

definition header_of_block ::
  "('g1, 'g2, 'gt) chain_env \<Rightarrow> blockchain \<Rightarrow> bool \<Rightarrow> (bytes, header_block) dict \<Rightarrow> full_block
     \<Rightarrow> (bytes, header_block) dict res" where
  "header_of_block E S tx_filter header_blocks b =
     rbind (bc_height_to_hash S (fb_height b)) (\<lambda>h.
     rbind (fb_header_hash (en_hash E) b) (\<lambda>hh.
     if h \<noteq> Some hh then Inl ValueError
     else
       rbind (if \<not> tx_filter then get_block_header (bl_bip158 (en_body E)) b [] []
              else
                rbind (get_coins_added_at_height (fb_height b) (bc_coin_store S)) (\<lambda>added.
                rbind (get_coins_removed_at_height (fb_height b) (bc_coin_store S)) (\<lambda>removed.
                get_block_header (bl_bip158 (en_body E)) b (map cr_coin (filter (\<lambda>c. \<not> coinbase c) added))
                  (map (\<lambda>c. en_name E (cr_coin c)) removed)))) (\<lambda>header.
       rbind (hb_header_hash (en_hash E) header) (\<lambda>k. Inr (dict_set header_blocks k header)))))"

text \<open>Cached blocks come first, in height order, then the ones read from disk.\<close>

definition get_header_blocks_in_range ::
  "('g1, 'g2, 'gt) chain_env \<Rightarrow> blockchain \<Rightarrow> int \<Rightarrow> int \<Rightarrow> bool \<Rightarrow> (bytes, header_block) dict res" where
  "get_header_blocks_in_range E S start stop tx_filter =
     rbind (rmap (\<lambda>height. rbind (uint32 height) (bc_height_to_hash S)) [start..stop]) (\<lambda>found.
     let hs = map the (filter (\<lambda>h. h \<noteq> None) found); cache = lru_items (bs_block_cache (bc_block_store S));
         cached = map (\<lambda>h. the (dict_get cache h)) (filter (dict_mem cache) hs);
         missing = filter (\<lambda>h. \<not> dict_mem cache h) hs
     in rbind (fst (get_blocks_by_hash (en_store E) (bc_block_store S) missing)) (\<lambda>on_disk.
        rfold (header_of_block E S tx_filter) [] (cached @ on_disk)))"

definition get_header_block_by_height ::
  "('g1, 'g2, 'gt) chain_env \<Rightarrow> blockchain \<Rightarrow> int \<Rightarrow> bytes \<Rightarrow> bool \<Rightarrow> header_block option res" where
  "get_header_block_by_height E S height header_hash tx_filter =
     rbind (get_header_blocks_in_range E S height height tx_filter) (\<lambda>header_dict. Inr (dict_get header_dict header_hash))"

end
