(* ===== verification/ChainState.thy ===== *)
theory ChainState
  imports Blockchain
begin

text \<open>
  What \<open>receive_block\<close> keeps true of a node.  The abstract state of a chain is the list of its main-chain entries: the
  hash of the block at each height and, for a transaction block, what it does to the coin store.  \<open>chain_inv\<close> says that
  the tables, the height map and the memory of a node all describe one such list, and that the coin store is exactly
  the result of applying its entries in order.
\<close>

section \<open>Entries and their coins\<close>

type_synonym chain_entry = "bytes \<times> store_block option"

definition effects :: "chain_entry list \<Rightarrow> store_block list" where
  "effects ms = concat (map (\<lambda>(_, e). case e of None \<Rightarrow> [] | Some b \<Rightarrow> [b]) ms)"

definition entries_from :: "nat \<Rightarrow> chain_entry list \<Rightarrow> bool" where
  "entries_from a ms \<longleftrightarrow>
     (\<forall>k < length ms. \<forall>b. snd (ms ! k) = Some b \<longrightarrow> sb_height b = int (a + k) \<and> store_block_ok b)"

lemma effects_simps [simp]:
  "effects [] = []" "effects (xs @ ys) = effects xs @ effects ys"
  "effects ((h, e) # ms) = (case e of None \<Rightarrow> [] | Some b \<Rightarrow> [b]) @ effects ms"
  by (simp_all add: effects_def)

lemma entries_from_Nil [simp]: "entries_from a []"
  by (simp add: entries_from_def)

lemma entries_from_Cons [simp]:
  "entries_from a ((h, e) # ms) \<longleftrightarrow>
     (\<forall>b. e = Some b \<longrightarrow> sb_height b = int a \<and> store_block_ok b) \<and> entries_from (Suc a) ms"
  unfolding entries_from_def using less_Suc_eq_0_disj by (auto simp: nth_Cons split: nat.splits)

lemma entries_from_append: "entries_from a (xs @ ys) \<longleftrightarrow> entries_from a xs \<and> entries_from (a + length xs) ys"
  by (induction xs arbitrary: a) auto

lemma effects_heights:
  assumes "entries_from a ms"
  shows "list_all store_block_ok (effects ms)" "\<forall>b \<in> set (effects ms). int a \<le> sb_height b \<and> sb_height b < int (a + length ms)"
    "sorted_wrt (<) (map sb_height (effects ms))"
  using assms
proof (induction ms arbitrary: a)
  case (Cons m ms)
  obtain h e where m: "m = (h, e)" by force
  {
    case 1
    then show ?case using Cons.IH(1) [of "Suc a"] m by (auto split: option.splits)
  next
    case 2
    then show ?case using Cons.IH(2) [of "Suc a"] m by (fastforce split: option.splits)
  next
    case 3
    then show ?case using Cons.IH(2,3) [of "Suc a"] m by (fastforce split: option.splits)
  }
qed auto

lemma applied_store_ok:
  assumes "entries_from 0 ms" "rfold (apply_block name) [] (effects ms) = Inr c" "int (length ms) \<le> k + 1"
  shows "store_ok name k c"
proof -
  have "store_ok name (-1) []" by (simp add: store_ok_def)
  moreover have "sorted_wrt (<) (-1 # map sb_height (effects ms))" using effects_heights [OF assms(1)] by force
  ultimately have "store_ok name (last (-1 # map sb_height (effects ms))) c"
    using apply_blocks_keep [of name "-1" "[]" "-1" "effects ms" c] effects_heights(1) [OF assms(1)] assms(2) by simp
  moreover have "last (-1 # map sb_height (effects ms)) \<le> k"
    using effects_heights(2) [OF assms(1)] assms(3) by (cases "effects ms" rule: rev_cases) auto
  ultimately show ?thesis by (rule store_ok_mono)
qed

text \<open>Rolling the store back to a height of the chain gives the store of the chain cut at that height.\<close>

lemma rollback_chain:
  assumes "entries_from 0 ms" "rfold (apply_block name) [] (effects ms) = Inr c" "-1 \<le> f" "nat (f + 1) \<le> length ms"
  shows "\<exists>c1 changes. rfold (apply_block name) [] (effects (take (nat (f + 1)) ms)) = Inr c1 \<and>
    rollback_to_block name f c = Inr (changes, c1)"
proof -
  let ?n = "nat (f + 1)"
  have split: "effects ms = effects (take ?n ms) @ effects (drop ?n ms)" by (metis append_take_drop_id effects_simps(2))
  have ent: "entries_from 0 (take ?n ms)" "entries_from ?n (drop ?n ms)"
    using assms(1,4) entries_from_append [of 0 "take ?n ms" "drop ?n ms"] by auto
  obtain c1 where c1: "rfold (apply_block name) [] (effects (take ?n ms)) = Inr c1"
      "rfold (apply_block name) c1 (effects (drop ?n ms)) = Inr c"
    using assms(2) unfolding split rfold_append by (auto simp: rbind_eq_Inr)
  have "store_ok name f c1" using applied_store_ok [OF ent(1) c1(1)] assms(3,4) by simp
  moreover have "sorted_wrt (<) (f # map sb_height (effects (drop ?n ms)))"
    using effects_heights [OF ent(2)] assms(3) by force
  ultimately show ?thesis
    using rollback_restores [OF _ assms(3) effects_heights(1) [OF ent(2)] _ c1(2)] c1(1) by blast
qed

section \<open>The height map follows the branch\<close>

lemma update_height_success:
  assumes "hm_ok hm" "update_height hm k h ses = Inr hm'" "0 \<le> k" "length h = 32"
  shows "hm_ok hm'" "nat k \<le> length (hashes hm)"
    "hashes hm' = (if nat k < length (hashes hm) then (hashes hm)[nat k := h] else hashes hm @ [h])"
proof -
  obtain m where m: "length (hm_height_to_hash hm) = 32 * m" using assms(1) mod32 by (auto simp: hm_ok_def)
  have "nat (k * 32) \<le> length (hm_height_to_hash hm)"
    using assms(2) by (auto simp: update_height_def Let_def rbind_eq_Inr)
  then show le: "nat k \<le> length (hashes hm)" using m assms(3) by (simp add: hashes_def nat_mult_distrib)
  have "\<forall>s. ses = Some s \<longrightarrow> (\<exists>bs. ses_bytes s = Inr bs)"
    using assms(2) by (auto simp: update_height_def Let_def rbind_eq_Inr)
  then show "hm_ok hm'" "hashes hm' = (if nat k < length (hashes hm) then (hashes hm)[nat k := h] else hashes hm @ [h])"
    using update_height_hashes [OF assms(1,4,3) le, of ses] assms(2) by auto
qed

lemma list_update_end: "length xs \<le> Suc k \<Longrightarrow> k \<le> length xs \<Longrightarrow>
  (if k < length xs then xs[k := h] else xs @ [h]) = take k xs @ [h]"
  by (auto simp: le_Suc_eq upd_conv_take_nth_drop)

text \<open>Records of consecutive heights from \<open>k\<close> up.\<close>

fun consecutive :: "int \<Rightarrow> block_record list \<Rightarrow> bool" where
  "consecutive k [] = True"
| "consecutive k (r # rs) = (br_height r = k \<and> length (br_header_hash r) = 32 \<and> consecutive (k + 1) rs)"

lemma update_heights_hashes:
  assumes "update_heights hm rs = (Inr (), hm')" "hm_ok hm" "consecutive (int k) rs" "k \<le> length (hashes hm)"
    "length (hashes hm) \<le> Suc k" "rs \<noteq> []"
  shows "hm_ok hm' \<and> hashes hm' = take k (hashes hm) @ map br_header_hash rs"
  using assms
proof (induction rs arbitrary: hm k)
  case (Cons r rs)
  obtain hm1 where u: "update_height hm (int k) (br_header_hash r) (br_sub_epoch_summary_included r) = Inr hm1"
      "update_heights hm1 rs = (Inr (), hm')"
    using Cons.prems(1,3) by (auto split: sum.splits)
  have h: "length (br_header_hash r) = 32" using Cons.prems(3) by simp
  note s = update_height_success [OF Cons.prems(2) u(1) _ h]
  have hs: "hashes hm1 = take k (hashes hm) @ [br_header_hash r]"
    using s(3) list_update_end [OF Cons.prems(5,4), of "br_header_hash r"] by (simp only: nat_int of_nat_0_le_iff)
  show ?case
  proof (cases "rs = []")
    case True
    then show ?thesis using u(2) s(1) hs by simp
  next
    case False
    have "hm_ok hm' \<and> hashes hm' = take (Suc k) (hashes hm1) @ map br_header_hash rs"
      by (rule Cons.IH [OF u(2)]) (use s(1) hs Cons.prems(3,4) False in \<open>auto simp: add.commute\<close>)
    then show ?thesis using hs Cons.prems(4) by simp
  qed
qed simp

lemma flush_keeps:
  "hm_maybe_flush hm = Inr hm' \<Longrightarrow> hm_height_to_hash hm' = hm_height_to_hash hm \<and> hm_sub_epoch_summaries hm' = hm_sub_epoch_summaries hm"
  by (auto simp: hm_maybe_flush_def rbind_eq_Inr split: if_splits)

lemma flush_hashes: "hm_maybe_flush hm = Inr hm' \<Longrightarrow> hm_ok hm \<Longrightarrow> hm_ok hm' \<and> hashes hm' = hashes hm"
  using flush_keeps [of hm hm'] by (auto simp: hm_ok_def hashes_def)

section \<open>The invariant\<close>

text \<open>A row of the block table holds a block and its record, which agree, and its parent is in the table.\<close>

definition row_linked :: "store_lib \<Rightarrow> block_db \<Rightarrow> block_row \<Rightarrow> bool" where
  "row_linked lib db r \<longleftrightarrow>
     length (fr_header_hash r) = 32 \<and> 0 \<le> fr_height r \<and>
     (\<exists>b rec. holds_block lib (fr_block r) b \<and> block_record_from_bytes (fr_block_record r) = Inr rec \<and>
        fb_height b = fr_height r \<and> br_height rec = fr_height r \<and>
        br_header_hash rec = fr_header_hash r \<and> br_prev_hash rec = fr_prev_hash r) \<and>
     (0 < fr_height r \<longrightarrow> (\<exists>p. row_of db (fr_prev_hash r) = Some p \<and> fr_height p = fr_height r - 1))"

definition rows_linked :: "store_lib \<Rightarrow> block_db \<Rightarrow> bool" where
  "rows_linked lib db \<longleftrightarrow> (\<forall>r \<in> set (db_full_blocks db). row_linked lib db r)"

text \<open>The hashes \<open>hs\<close> are those of rows of heights from \<open>0\<close> up, each the parent of the next.\<close>

definition rows_chain :: "block_db \<Rightarrow> bytes list \<Rightarrow> bool" where
  "rows_chain db hs \<longleftrightarrow>
     (\<forall>k < length hs. \<exists>r. row_of db (hs ! k) = Some r \<and> fr_height r = int k \<and> (0 < k \<longrightarrow> fr_prev_hash r = hs ! (k - 1)))"

definition chain_inv :: "('g1, 'g2, 'gt) chain_env \<Rightarrow> blockchain \<Rightarrow> chain_entry list \<Rightarrow> bool" where
  "chain_inv E S ms \<longleftrightarrow>
     bstore_ok (en_store E) (bc_block_store S) \<and>
     rows_linked (en_store E) (bs_db (bc_block_store S)) \<and>
     (\<forall>h rec. dict_get (bc_block_records S) h = Some rec \<longrightarrow> get_block_record (bc_block_store S) h = Inr (Some rec)) \<and>
     rows_chain (bs_db (bc_block_store S)) (map fst ms) \<and>
     (\<forall>r \<in> set (db_full_blocks (bs_db (bc_block_store S))). fr_in_main_chain r \<longleftrightarrow> fr_header_hash r \<in> set (map fst ms)) \<and>
     (ms \<noteq> [] \<longrightarrow> db_current_peak (bs_db (bc_block_store S)) = Some (fst (last ms))) \<and>
     hm_ok (bc_height_map S) \<and> hashes (bc_height_map S) = map fst ms \<and>
     bc_peak_height S = (if ms = [] then None else Some (int (length ms) - 1)) \<and>
     entries_from 0 ms \<and> rfold (apply_block (en_name E)) [] (effects ms) = Inr (bc_coin_store S)"


section \<open>What a block and its record share\<close>

lemma block_record_of_block:
  assumes "block_to_block_record H constants blocks ri (FullT b) ssi = Inr rec" "fb_header_hash H b = Inr h"
  shows "br_header_hash rec = h \<and> br_prev_hash rec = fb_prev_header_hash b \<and> br_height rec = fb_height b \<and>
    br_weight rec = rb_weight (fb_reward_chain_block b)"
  using assms
  by (auto simp: block_to_block_record_def header_block_to_sub_block_record_def rbind_eq_Inr Let_def tb_header_hash_def
      tb_prev_header_hash_def tb_height_def fb_header_hash_def fb_prev_header_hash_def fb_height_def)

lemma block_typed_height: "block_typed accepts len b \<Longrightarrow> 0 \<le> fb_height b"
  by (simp add: block_typed_def full_block_fields_def full_block_val_def reward_chain_block_fields_def
      reward_chain_block_val_def fb_height_def int_class_defs)

lemma coin_val_typed: "has_type acc (FClass coin_fields) (coin_val c) \<Longrightarrow> coin_ok c"
  by (simp add: coin_fields_def coin_val_def coin_ok_def int_class_defs)

lemma block_typed_rewards:
  assumes "block_typed accepts len b" "get_included_reward_coins b = Inr coins"
  shows "list_all coin_ok coins"
proof -
  have "list_all coin_ok (ti_reward_claims_incorporated t)" if t: "fb_transactions_info b = Some t" for t
    using assms(1) t coin_val_typed
    by (auto simp: block_typed_def full_block_fields_def full_block_val_def transactions_info_fields_def
        transactions_info_val_def opt_val_def list_all_iff)
  then show ?thesis
    using assms(2) by (auto simp: get_included_reward_coins_def list_all_iff split: if_splits option.splits)
qed

lemma npc_additions_ok: "tx_removals_and_additions x = Inr (removals, additions) \<Longrightarrow> list_all coin_ok additions"
  by (auto simp: tx_removals_and_additions_def list_all_iff rbind_eq_Inr split: option.splits dest: additions_parent)

lemma block_additions_ok:
  "get_tx_removals_and_additions E S b npc = Inr (removals, additions, n) \<Longrightarrow> list_all coin_ok additions"
  by (auto simp: get_tx_removals_and_additions_def rbind_eq_Inr split: if_splits dest: npc_additions_ok)

text \<open>Entering one block of a branch applies what the block does to the coin store.\<close>

definition entry_ok :: "int \<Rightarrow> store_block option \<Rightarrow> bool" where
  "entry_ok k e \<longleftrightarrow> (\<forall>sb. e = Some sb \<longrightarrow> sb_height sb = k \<and> store_block_ok sb)"

lemma new_block_entry:
  assumes "block_typed accepts len b" "get_included_reward_coins b = Inr rewards" "list_all coin_ok additions"
    "new_block name (fb_height b) ts rewards additions removals coins = Inr (out, coins')"
  shows "\<exists>e. entry_ok (fb_height b) e \<and> rfold (apply_block name) coins (effects [(h, e)]) = Inr coins'"
proof -
  let ?sb = "\<lparr>sb_height = fb_height b, sb_timestamp = ts, sb_rewards = rewards, sb_additions = additions, sb_removals = removals\<rparr>"
  have "entry_ok (fb_height b) (Some ?sb)"
    using block_typed_rewards [OF assms(1,2)] assms(3) by (simp add: entry_ok_def store_block_ok_def)
  then show ?thesis using assms(4) by (intro exI [of _ "Some ?sb"]) (simp add: apply_block_def)
qed

lemma apply_branch_block_entry:
  assumes "apply_branch_block E S nh npc (records, npcs, rewards, coins) (b, r) = Inr (records', npcs', rewards', coins')"
    "block_typed accepts len b"
  shows "records' = records @ [r] \<and>
    (\<exists>e. entry_ok (fb_height b) e \<and> rfold (apply_block (en_name E)) coins (effects [(br_header_hash r, e)]) = Inr coins')"
proof (cases "fb_is_transaction_block b")
  case False
  then show ?thesis using assms(1) by (auto simp: apply_branch_block_def entry_ok_def intro!: exI [of _ None])
next
  case True
  then obtain removals additions n ts rewards2 out
    where g: "get_tx_removals_and_additions E S b (if br_header_hash r = nh then npc else None) = Inr (removals, additions, n)"
      "get_included_reward_coins b = Inr rewards2"
      "new_block (en_name E) (fb_height b) ts rewards2 additions removals coins = Inr (out, coins')"
      "records' = records @ [r]"
    using assms(1) by (auto simp: apply_branch_block_def rbind_eq_Inr split: option.splits)
  then show ?thesis using new_block_entry [OF assms(2) g(2) block_additions_ok [OF g(1)] g(3)] by blast
qed

section \<open>Branches of the block tree\<close>

text \<open>Blocks with their records, oldest first, that are stored from height \<open>k\<close> up on top of the block \<open>prev\<close>.\<close>

definition stored_pair :: "store_lib \<Rightarrow> block_db \<Rightarrow> bytes \<Rightarrow> int \<Rightarrow> full_block \<times> block_record \<Rightarrow> bool" where
  "stored_pair lib db prev k br \<longleftrightarrow>
     (case br of (b, r) \<Rightarrow>
        \<exists>row. row_of db (br_header_hash r) = Some row \<and> fr_prev_hash row = prev \<and> fr_height row = k \<and>
          block_typed (lib_accepts lib) (lib_serialized_length lib) b \<and>
          fb_height b = k \<and> br_height r = k \<and> length (br_header_hash r) = 32)"

fun branch :: "store_lib \<Rightarrow> block_db \<Rightarrow> bytes \<Rightarrow> int \<Rightarrow> (full_block \<times> block_record) list \<Rightarrow> bool" where
  "branch lib db prev k [] = True"
| "branch lib db prev k (br # brs) = (stored_pair lib db prev k br \<and> branch lib db (br_header_hash (snd br)) (k + 1) brs)"

lemma branch_append:
  "branch lib db prev k (xs @ ys) \<longleftrightarrow> branch lib db prev k xs \<and>
     branch lib db (if xs = [] then prev else br_header_hash (snd (last xs))) (k + int (length xs)) ys"
  by (induction xs arbitrary: prev k) (auto simp: ac_simps)

lemma branch_consecutive: "branch lib db prev k brs \<Longrightarrow> consecutive k (map snd brs)"
  by (induction brs arbitrary: prev k) (auto simp: stored_pair_def)

lemma apply_branch_entries:
  assumes "rfold (apply_branch_block E S nh npc) (records, npcs, rewards, coins) brs = Inr (records', npcs', rewards', coins')"
    "branch lib db prev (int k) brs"
  shows "records' = records @ map snd brs \<and>
    (\<exists>ns. map fst ns = map (br_header_hash \<circ> snd) brs \<and> entries_from k ns \<and>
       rfold (apply_block (en_name E)) coins (effects ns) = Inr coins')"
  using assms
proof (induction brs arbitrary: records npcs rewards coins prev k)
  case (Cons br brs)
  obtain b r where br: "br = (b, r)" by force
  obtain records1 npcs1 rewards1 coins1
    where a: "apply_branch_block E S nh npc (records, npcs, rewards, coins) (b, r) = Inr (records1, npcs1, rewards1, coins1)"
      "rfold (apply_branch_block E S nh npc) (records1, npcs1, rewards1, coins1) brs = Inr (records', npcs', rewards', coins')"
    using Cons.prems(1) by (auto simp: br rbind_eq_Inr)
  have b: "block_typed (lib_accepts lib) (lib_serialized_length lib) b" "fb_height b = int k"
    "branch lib db (br_header_hash r) (int (Suc k)) brs"
    using Cons.prems(2) by (auto simp: br stored_pair_def ac_simps)
  obtain e where e: "records1 = records @ [r]" "entry_ok (int k) e"
      "rfold (apply_block (en_name E)) coins (effects [(br_header_hash r, e)]) = Inr coins1"
    using apply_branch_block_entry [OF a(1) b(1)] b(2) by auto
  obtain ns where ns: "records' = records1 @ map snd brs" "map fst ns = map (br_header_hash \<circ> snd) brs"
      "entries_from (Suc k) ns" "rfold (apply_block (en_name E)) coins1 (effects ns) = Inr coins'"
    using Cons.IH [OF a(2) b(3)] by blast
  have "entries_from k ((br_header_hash r, e) # ns)" using e(2) ns(3) by (simp add: entry_ok_def)
  moreover have "rfold (apply_block (en_name E)) coins (effects ((br_header_hash r, e) # ns)) = Inr coins'"
    using e(3) ns(4) by (simp add: rfold_append)
  ultimately show ?case using e(1) ns(1,2) br by (intro conjI exI [of _ "(br_header_hash r, e) # ns"]) auto
qed (auto intro!: exI [of _ "[]"])

text \<open>The hash \<open>n\<close> parents above a hash in the table.\<close>

fun ancestor_hash :: "block_db \<Rightarrow> nat \<Rightarrow> bytes \<Rightarrow> bytes option" where
  "ancestor_hash db 0 h = Some h"
| "ancestor_hash db (Suc n) h = (case row_of db h of None \<Rightarrow> None | Some r \<Rightarrow> ancestor_hash db n (fr_prev_hash r))"

lemma linked_row:
  assumes "store_law lib" "bstore_ok lib st" "rows_linked lib (bs_db st)" "row_of (bs_db st) h = Some row"
  obtains b rec where "fst (get_full_block lib st h) = Inr (Some b)" "get_block_record st h = Inr (Some rec)"
    "stored_pair lib (bs_db st) (fr_prev_hash row) (fr_height row) (b, rec)" "br_header_hash rec = h"
    "br_prev_hash rec = fr_prev_hash row"
proof -
  have r: "row_linked lib (bs_db st) row" "fr_header_hash row = h"
    using row_of_Some [OF assms(4)] assms(3) by (auto simp: rows_linked_def)
  then obtain b rec where b: "holds_block lib (fr_block row) b" "block_record_from_bytes (fr_block_record row) = Inr rec"
      "fb_height b = fr_height row" "br_height rec = fr_height row" "br_header_hash rec = h" "br_prev_hash rec = fr_prev_hash row"
    unfolding row_linked_def by blast
  have "fst (get_full_block lib st h) = Inr (Some b)"
    using get_full_block_stored [OF assms(1,2), of h] holds_block_read(1) [OF assms(1) b(1)] assms(4)
    by (auto simp: stored_block_def)
  moreover have "get_block_record st h = Inr (Some rec)" using assms(4) b(2) by (simp add: get_block_record_def)
  moreover have "stored_pair lib (bs_db st) (fr_prev_hash row) (fr_height row) (b, rec)"
    using r b assms(4) by (auto simp: stored_pair_def holds_block_def row_linked_def)
  ultimately show ?thesis using that b(5,6) by blast
qed

lemma branch_step_linked:
  assumes "store_law (en_store E)" "bstore_ok (en_store E) st" "rows_linked (en_store E) (bs_db st)"
    "row_of (bs_db st) cur = Some row"
  obtains b rec where "branch_step E st (stop, cur, acc) = Inr (fr_height row = 0, fr_prev_hash row, acc @ [(b, rec)])"
    "stored_pair (en_store E) (bs_db st) (fr_prev_hash row) (fr_height row) (b, rec)" "br_header_hash rec = cur"
proof (rule linked_row [OF assms])
  fix b rec
  assume l: "fst (get_full_block (en_store E) st cur) = Inr (Some b)" "get_block_record st cur = Inr (Some rec)"
    "stored_pair (en_store E) (bs_db st) (fr_prev_hash row) (fr_height row) (b, rec)" "br_header_hash rec = cur"
    "br_prev_hash rec = fr_prev_hash row"
  then have "branch_step E st (stop, cur, acc) = Inr (fr_height row = 0, fr_prev_hash row, acc @ [(b, rec)])"
    by (auto simp: branch_step_def read_block_def stored_pair_def)
  then show thesis using that l(3,4) by blast
qed

text \<open>The backward walk of \<open>_reconsider_peak\<close> ends at the fork point and has collected the branch above it.\<close>

lemma branch_loop:
  assumes law: "store_law (en_store E)" and st: "bstore_ok (en_store E) st" "rows_linked (en_store E) (bs_db st)"
    and f: "-1 \<le> f" "0 \<le> f \<Longrightarrow> \<exists>x. row_of (bs_db st) fh = Some x \<and> fr_height x = f"
  shows "row_of (bs_db st) cur = Some row \<Longrightarrow> fr_height row = f + int n \<Longrightarrow>
    (if f < 0 then 0 < n else ancestor_hash (bs_db st) n cur = Some fh) \<Longrightarrow>
    \<exists>t prev brs. loop_while (\<lambda>(stop, cur, _). \<not> stop \<and> (f < 0 \<or> Some cur \<noteq> Some fh)) (branch_step E st) (False, cur, acc)
        = Inr (fst t, snd t, acc @ rev brs) \<and>
      branch (en_store E) (bs_db st) prev (f + 1) brs \<and> length brs = n \<and> (0 \<le> f \<longrightarrow> prev = fh) \<and>
      (0 < n \<longrightarrow> br_header_hash (snd (last brs)) = cur)"
proof (induction n arbitrary: cur row acc)
  case 0
  then have "cur = fh" "\<not> f < 0" by (auto split: if_splits)
  then show ?case
    by (intro exI [of _ "(False, cur)"] exI [of _ fh] exI [of _ "[]"]) (simp add: loop_while_unfold [where s = "(False, _)"])
next
  case (Suc n)
  let ?c = "\<lambda>(stop, cur, _). \<not> stop \<and> (f < 0 \<or> Some cur \<noteq> Some fh)"
  have c: "f < 0 \<or> cur \<noteq> fh" using f(2) Suc.prems(1,2) by auto
  obtain b rec where s: "branch_step E st (False, cur, acc) = Inr (fr_height row = 0, fr_prev_hash row, acc @ [(b, rec)])"
      "stored_pair (en_store E) (bs_db st) (fr_prev_hash row) (fr_height row) (b, rec)" "br_header_hash rec = cur"
    by (rule branch_step_linked [OF law st Suc.prems(1)])
  have l: "loop_while ?c (branch_step E st) (False, cur, acc) =
      loop_while ?c (branch_step E st) (fr_height row = 0, fr_prev_hash row, acc @ [(b, rec)])"
    using c s(1) by (subst loop_while_unfold) simp
  show ?case
  proof (cases "fr_height row = 0")
    case True
    then have fn: "f = -1" "n = 0" using Suc.prems(2) f(1) by linarith+
    have "loop_while ?c (branch_step E st) (False, cur, acc) =
        Inr (fst (True, fr_prev_hash row), snd (True, fr_prev_hash row), acc @ rev [(b, rec)])"
      using l True by (simp add: loop_while_unfold [where s = "(True, _)"])
    moreover have "branch (en_store E) (bs_db st) (fr_prev_hash row) (f + 1) [(b, rec)] \<and> length [(b, rec)] = Suc n \<and>
        (0 \<le> f \<longrightarrow> fr_prev_hash row = fh) \<and> (0 < Suc n \<longrightarrow> br_header_hash (snd (last [(b, rec)])) = cur)"
      using s(2,3) True fn by simp
    ultimately show ?thesis by blast
  next
    case False
    then obtain p where p: "row_of (bs_db st) (fr_prev_hash row) = Some p" "fr_height p = f + int n"
      using st(2) row_of_Some [OF Suc.prems(1)] Suc.prems(2) by (auto simp: rows_linked_def row_linked_def)
    have anc: "if f < 0 then 0 < n else ancestor_hash (bs_db st) n (fr_prev_hash row) = Some fh"
      using Suc.prems False f(1) by (cases "f < 0") auto
    then obtain t prev brs where i: "loop_while ?c (branch_step E st) (False, fr_prev_hash row, acc @ [(b, rec)])
          = Inr (fst t, snd t, (acc @ [(b, rec)]) @ rev brs)"
        "branch (en_store E) (bs_db st) prev (f + 1) brs" "length brs = n" "0 \<le> f \<longrightarrow> prev = fh"
        "0 < n \<longrightarrow> br_header_hash (snd (last brs)) = fr_prev_hash row"
      using Suc.IH [OF p] by blast
    have "(if brs = [] then prev else br_header_hash (snd (last brs))) = fr_prev_hash row"
      using i(3-5) anc by (cases n) (auto split: if_splits)
    moreover have "f + 1 + int (length brs) = fr_height row" using i(3) Suc.prems(2) by simp
    ultimately have "branch (en_store E) (bs_db st) prev (f + 1) (brs @ [(b, rec)])"
      using i(2) s(2) by (simp add: branch_append)
    then show ?thesis
      using i l False s(3)
      by (intro exI [of _ t] exI [of _ prev] exI [of _ "brs @ [(b, rec)]"]) simp
  qed
qed

section \<open>The tables after a write\<close>

lemma ancestor_mono:
  assumes "\<And>h r. row_of db h = Some r \<Longrightarrow> row_of db' h = Some r"
  shows "ancestor_hash db n x = Some y \<Longrightarrow> ancestor_hash db' n x = Some y"
  using assms by (induction n arbitrary: x) (auto split: option.splits)

lemma add_block_linked:
  assumes "store_law lib" "bstore_ok lib st" "rows_linked lib (bs_db st)" "row_of (bs_db st) h = None"
    "block_typed (lib_accepts lib) (lib_serialized_length lib) b" "record_typed rec"
    and h: "length h = 32" "br_header_hash rec = h" "br_prev_hash rec = fb_prev_header_hash b" "br_height rec = fb_height b"
    and parent: "0 < fb_height b \<Longrightarrow> \<exists>p. row_of (bs_db st) (fb_prev_header_hash b) = Some p \<and> fr_height p = fb_height b - 1"
  obtains r st' where "add_full_block lib st h b rec = (Inr (), st')" "bstore_ok lib st'" "rows_linked lib (bs_db st')"
    "db_full_blocks (bs_db st') = db_full_blocks (bs_db st) @ [r]" "db_current_peak (bs_db st') = db_current_peak (bs_db st)"
    "fr_header_hash r = h" "fr_prev_hash r = fb_prev_header_hash b" "fr_height r = fb_height b" "\<not> fr_in_main_chain r"
    "\<And>h'. row_of (bs_db st') h' = (if h' = h then Some r else row_of (bs_db st) h')"
    "\<And>h'. get_block_record st' h' = (if h' = h then Inr (Some rec) else get_block_record st h')"
proof -
  obtain r st' where a: "add_full_block lib st h b rec = (Inr (), st')" "bstore_ok lib st'"
      "db_full_blocks (bs_db st') = db_full_blocks (bs_db st) @ [r]"
      "bs_db st' = (bs_db st)\<lparr>db_full_blocks := db_full_blocks (bs_db st')\<rparr>"
      "fr_header_hash r = h" "fr_prev_hash r = fb_prev_header_hash b" "fr_height r = fb_height b" "\<not> fr_in_main_chain r"
      "holds_block lib (fr_block r) b" "block_record_from_bytes (fr_block_record r) = Inr rec"
    using add_full_block_new [OF assms(1,2,4-6)] by blast
  have row: "row_of (bs_db st') h' = (if h' = h then Some r else row_of (bs_db st) h')" for h'
    using a(4,5) assms(4) row_of_snoc [of "bs_db st" r h'] unfolding a(3) by (auto split: option.splits)
  have rec: "get_block_record st' h' = (if h' = h then Inr (Some rec) else get_block_record st h')" for h'
    using a(10) by (simp add: get_block_record_def row)
  have keep: "row_of (bs_db st') x = Some p" if "row_of (bs_db st) x = Some p" for x p
    using that assms(4) by (auto simp: row)
  have "row_linked lib (bs_db st') r"
    using a(5-10) h block_typed_height [OF assms(5)] parent keep by (fastforce simp: row_linked_def)
  moreover have "row_linked lib (bs_db st') x" if "x \<in> set (db_full_blocks (bs_db st))" for x
    using that assms(3) keep unfolding rows_linked_def row_linked_def by meson
  ultimately have "rows_linked lib (bs_db st')" using a(3) by (auto simp: rows_linked_def)
  moreover have "db_current_peak (bs_db st') = db_current_peak (bs_db st)"
    using arg_cong [OF a(4), of db_current_peak] by simp
  ultimately show ?thesis using that a(1-3,5-8) row rec by blast
qed

text \<open>Moving the main chain to the branch \<open>hs\<close> above height \<open>f\<close> only changes the flags.\<close>

definition flag_row :: "int \<Rightarrow> bytes list \<Rightarrow> block_row \<Rightarrow> block_row" where
  "flag_row f hs r = r\<lparr>fr_in_main_chain := fr_in_main_chain r \<and> fr_height r \<le> f \<or> fr_header_hash r \<in> set hs\<rparr>"

lemma flag_row_simps [simp]:
  "fr_header_hash (flag_row f hs r) = fr_header_hash r" "fr_prev_hash (flag_row f hs r) = fr_prev_hash r"
  "fr_height (flag_row f hs r) = fr_height r" "fr_block (flag_row f hs r) = fr_block r"
  "fr_block_record (flag_row f hs r) = fr_block_record r"
  "fr_in_main_chain (flag_row f hs r) \<longleftrightarrow> fr_in_main_chain r \<and> fr_height r \<le> f \<or> fr_header_hash r \<in> set hs"
  by (simp_all add: flag_row_def)

lemma set_in_chain_rows:
  "db_full_blocks (bs_db (set_in_chain st hs)) =
     map (\<lambda>r. r\<lparr>fr_in_main_chain := fr_in_main_chain r \<or> fr_header_hash r \<in> set hs\<rparr>) (db_full_blocks (bs_db st))"
  unfolding set_in_chain_def
proof (induction hs arbitrary: st)
  case (Cons h hs)
  then show ?case by (auto simp: update_rows_def)
qed (simp add: map_idI)

lemma peak_rows:
  "db_full_blocks (bs_db (set_peak (set_in_chain (bs_rollback st f) hs) h)) = map (flag_row f hs) (db_full_blocks (bs_db st))"
  "db_current_peak (bs_db (set_peak (set_in_chain st' hs) h)) = Some h"
  by (auto simp: set_peak_def set_in_chain_rows bs_rollback_def update_rows_def flag_row_def)

lemma first_peak_rows:
  assumes "\<And>r. r \<in> set (db_full_blocks (bs_db st)) \<Longrightarrow> \<not> fr_in_main_chain r"
  shows "db_full_blocks (bs_db (set_peak (set_in_chain st hs) h)) = map (flag_row f hs) (db_full_blocks (bs_db st))"
  using assms by (auto simp: set_peak_def set_in_chain_rows flag_row_def)

lemma flagged_rows:
  assumes "db_full_blocks db' = map (flag_row f hs) (db_full_blocks db)"
  shows "row_of db' h = map_option (flag_row f hs) (row_of db h)"
    "rows_linked lib db' \<longleftrightarrow> rows_linked lib db"
    "rows_chain db' xs \<longleftrightarrow> rows_chain db xs"
proof -
  have row: "row_of db' h = map_option (flag_row f hs) (row_of db h)" for h
  proof -
    have "find (\<lambda>r. fr_header_hash r = h) (map (flag_row f hs) rs) =
        map_option (flag_row f hs) (find (\<lambda>r. fr_header_hash r = h) rs)" for rs
      by (induction rs) auto
    then show ?thesis using assms by (simp add: row_of_def)
  qed
  show "row_of db' h = map_option (flag_row f hs) (row_of db h)" by (rule row)
  have "row_linked lib db' (flag_row f hs r) \<longleftrightarrow> row_linked lib db r" for r
    by (auto simp: row_linked_def row)
  then show "rows_linked lib db' \<longleftrightarrow> rows_linked lib db" using assms by (simp add: rows_linked_def)
  show "rows_chain db' xs \<longleftrightarrow> rows_chain db xs" by (auto simp: rows_chain_def row)
qed

lemma rows_chainD: "rows_chain db hs \<Longrightarrow> k < length hs \<Longrightarrow> \<exists>r. row_of db (hs ! k) = Some r \<and> fr_height r = int k"
  by (auto simp: rows_chain_def)

lemma rows_chain_snoc:
  "rows_chain db (hs @ [h]) \<longleftrightarrow> rows_chain db hs \<and>
     (\<exists>r. row_of db h = Some r \<and> fr_height r = int (length hs) \<and> (hs \<noteq> [] \<longrightarrow> fr_prev_hash r = last hs))"
  by (auto simp: rows_chain_def nth_append less_Suc_eq last_conv_nth)

lemma rows_chain_take: "rows_chain db hs \<Longrightarrow> rows_chain db (take n hs)"
  by (auto simp: rows_chain_def)

lemma rows_chain_branch:
  assumes "rows_chain db hs" "branch lib db prev (int (length hs)) brs" "hs \<noteq> [] \<Longrightarrow> prev = last hs"
  shows "rows_chain db (hs @ map (br_header_hash \<circ> snd) brs)"
  using assms
proof (induction brs arbitrary: hs prev)
  case (Cons br brs)
  have "rows_chain db (hs @ [br_header_hash (snd br)])"
    using Cons.prems by (auto simp: rows_chain_snoc stored_pair_def)
  then show ?case using Cons.IH [of "hs @ [br_header_hash (snd br)]" "br_header_hash (snd br)"] Cons.prems
    by (simp add: ac_simps)
qed simp

lemma main_rows:
  assumes "rows_chain db hs" "distinct (map fr_header_hash (db_full_blocks db))" "r \<in> set (db_full_blocks db)" "-1 \<le> f"
  shows "fr_header_hash r \<in> set hs \<and> fr_height r \<le> f \<longleftrightarrow> fr_header_hash r \<in> set (take (nat (f + 1)) hs)"
proof -
  have row: "row_of db (fr_header_hash r) = Some r" by (rule row_of_stored [OF assms(2,3)])
  have *: "fr_height r = int j" if "j < length hs" "hs ! j = fr_header_hash r" for j
    using assms(1) that row by (fastforce simp: rows_chain_def)
  show ?thesis
  proof
    assume l: "fr_header_hash r \<in> set hs \<and> fr_height r \<le> f"
    then obtain j where j: "j < length hs" "hs ! j = fr_header_hash r" by (auto simp: in_set_conv_nth)
    then have "j < nat (f + 1)" using * [OF j] l by linarith
    then show "fr_header_hash r \<in> set (take (nat (f + 1)) hs)" using j by (auto simp: in_set_conv_nth intro!: exI [of _ j])
  next
    assume "fr_header_hash r \<in> set (take (nat (f + 1)) hs)"
    then obtain j where j: "j < length hs" "hs ! j = fr_header_hash r" "j < nat (f + 1)" by (auto simp: in_set_conv_nth)
    then show "fr_header_hash r \<in> set hs \<and> fr_height r \<le> f" using * [OF j(1,2)] nth_mem [OF j(1)] by auto
  qed
qed

section \<open>Reading a chain that satisfies the invariant\<close>

lemma chain_invD:
  assumes "chain_inv E S ms"
  shows "bstore_ok (en_store E) (bc_block_store S)" "rows_linked (en_store E) (bs_db (bc_block_store S))"
    "\<And>h rec. dict_get (bc_block_records S) h = Some rec \<Longrightarrow> get_block_record (bc_block_store S) h = Inr (Some rec)"
    "rows_chain (bs_db (bc_block_store S)) (map fst ms)"
    "\<And>r. r \<in> set (db_full_blocks (bs_db (bc_block_store S))) \<Longrightarrow> fr_in_main_chain r \<longleftrightarrow> fr_header_hash r \<in> set (map fst ms)"
    "hm_ok (bc_height_map S)" "hashes (bc_height_map S) = map fst ms"
    "bc_peak_height S = (if ms = [] then None else Some (int (length ms) - 1))"
    "entries_from 0 ms" "rfold (apply_block (en_name E)) [] (effects ms) = Inr (bc_coin_store S)"
  using assms unfolding chain_inv_def by blast+

lemma inv_height_to_hash:
  assumes "chain_inv E S ms" "k < length ms"
  shows "bc_height_to_hash S (int k) = Inr (Some (fst (ms ! k)))"
proof -
  let ?hm = "bc_height_map S"
  obtain m where m: "length (hm_height_to_hash ?hm) = 32 * m" using chain_invD(6) [OF assms(1)] mod32 by (auto simp: hm_ok_def)
  have "length (hashes ?hm) = length ms" using chain_invD(7) [OF assms(1)] by simp
  then have k: "k < m" "hashes ?hm ! k = fst (ms ! k)"
    using chain_invD(7) [OF assms(1)] assms(2) m by (simp_all add: hashes_def)
  then have "hash_at (hm_height_to_hash ?hm) k = fst (ms ! k)" using m by (simp add: hashes_def)
  then show ?thesis using k(1) m get_hash_at [of "int k" ?hm] by (simp add: bc_height_to_hash_def hm_contains_height_def)
qed

lemma stored_record:
  assumes "rows_linked lib (bs_db st)" "get_block_record st h = Inr (Some rec)"
  obtains row where "row_of (bs_db st) h = Some row" "br_header_hash rec = h" "br_height rec = fr_height row"
    "br_prev_hash rec = fr_prev_hash row"
proof -
  obtain row where row: "row_of (bs_db st) h = Some row" "block_record_from_bytes (fr_block_record row) = Inr rec"
    using assms(2) by (auto simp: get_block_record_def rbind_eq_Inr split: option.splits)
  have "row_linked lib (bs_db st) row" "fr_header_hash row = h"
    using row_of_Some [OF row(1)] assms(1) by (auto simp: rows_linked_def)
  then show ?thesis using that row by (auto simp: row_linked_def)
qed

lemma inv_peak:
  assumes "chain_inv E S ms" "bc_get_peak S = Inr x"
  shows "x = None \<longleftrightarrow> ms = []"
    "\<And>p. x = Some p \<Longrightarrow> br_header_hash p = fst (last ms) \<and> br_height p = int (length ms) - 1"
proof -
  show e: "x = None \<longleftrightarrow> ms = []"
    using assms(2) chain_invD(8) [OF assms(1)] by (auto simp: bc_get_peak_def rbind_eq_Inr split: option.splits if_splits)
  fix p assume p: "x = Some p"
  then have ms: "ms \<noteq> []" using e by simp
  have i: "length ms - 1 < length ms" "int (length ms - 1) = int (length ms) - 1" using ms by (auto simp: Suc_leI)
  have "bc_height_to_block_record S (int (length ms - 1)) = Inr p"
    using assms(2) p ms i(2) chain_invD(8) [OF assms(1)] by (simp add: bc_get_peak_def rbind_eq_Inr)
  then have "dict_get (bc_block_records S) (fst (last ms)) = Some p"
    using inv_height_to_hash [OF assms(1) i(1)] ms
    by (auto simp: bc_height_to_block_record_def bc_block_record_def dict_getitem_def last_conv_nth split: option.splits)
  then obtain row where row: "row_of (bs_db (bc_block_store S)) (fst (last ms)) = Some row"
      "br_header_hash p = fst (last ms)" "br_height p = fr_height row"
    using stored_record [OF chain_invD(2) [OF assms(1)] chain_invD(3) [OF assms(1)]] by metis
  moreover have "\<exists>r. row_of (bs_db (bc_block_store S)) (fst (last ms)) = Some r \<and> fr_height r = int (length ms) - 1"
    using rows_chainD [OF chain_invD(4) [OF assms(1)], of "length ms - 1"] i(1) ms by (simp add: last_conv_nth)
  ultimately show "br_header_hash p = fst (last ms) \<and> br_height p = int (length ms) - 1" using i(2) by auto
qed

section \<open>A new peak\<close>

text \<open>The height \<open>f\<close> is where the block \<open>b\<close> leaves the chain \<open>hs\<close>: its ancestor there is on the chain, or there is none.\<close>

definition valid_fork :: "block_db \<Rightarrow> bytes list \<Rightarrow> full_block \<Rightarrow> int \<Rightarrow> bool" where
  "valid_fork db hs b f \<longleftrightarrow>
     -1 \<le> f \<and> f < int (length hs) \<and> f < fb_height b \<and>
     (0 \<le> f \<longrightarrow> ancestor_hash db (nat (fb_height b - 1 - f)) (fb_prev_header_hash b) = Some (hs ! nat f))"

lemma branch_last:
  assumes "branch lib db prev k brs" "brs \<noteq> []"
  obtains row where "row_of db (br_header_hash (snd (last brs))) = Some row" "fr_height row = k + int (length brs) - 1"
proof -
  obtain xs b r where x: "brs = xs @ [(b, r)]" using assms(2) by (metis append_butlast_last_id surj_pair)
  then show ?thesis using that assms(1) by (auto simp: branch_append stored_pair_def)
qed

lemma collect_branch_ok:
  assumes inv: "chain_inv E S ms" and law: "store_law (en_store E)"
    and st: "bstore_ok (en_store E) st" "rows_linked (en_store E) (bs_db st)"
    and keep: "\<And>x r. row_of (bs_db (bc_block_store S)) x = Some r \<Longrightarrow> row_of (bs_db st) x = Some r"
    and row: "row_of (bs_db st) h = Some row" "fr_height row = fb_height b" "fr_prev_hash row = fb_prev_header_hash b"
    and f: "valid_fork (bs_db (bc_block_store S)) (map fst ms) b f"
    and c: "collect_branch E S st f h = Inr bta"
  obtains prev brs where "bta = rev brs" "brs \<noteq> []" "branch (en_store E) (bs_db st) prev (f + 1) brs"
    "0 \<le> f \<longrightarrow> prev = fst (ms ! nat f)" "br_header_hash (snd (last brs)) = h"
proof -
  define fh where "fh = fst (ms ! nat f)"
  obtain n where n: "fb_height b = f + int (Suc n)" "nat (fb_height b - 1 - f) = n"
    using f by (auto simp: valid_fork_def intro!: that [of "nat (fb_height b - 1 - f)"])
  have f1: "-1 \<le> f" "f < int (length ms)" using f by (auto simp: valid_fork_def)
  have fr: "\<exists>x. row_of (bs_db st) fh = Some x \<and> fr_height x = f" if "0 \<le> f"
    using that f1 rows_chainD [OF chain_invD(4) [OF inv], of "nat f"] keep by (auto simp: fh_def nat_less_iff)
  have anc: "if f < 0 then 0 < Suc n else ancestor_hash (bs_db st) (Suc n) h = Some fh"
  proof (cases "f < 0")
    case False
    then have "ancestor_hash (bs_db st) n (fb_prev_header_hash b) = Some fh"
      using f f1 n(2) ancestor_mono [OF keep] by (auto simp: valid_fork_def fh_def nat_less_iff)
    then show ?thesis using False row by simp
  qed simp
  let ?c = "\<lambda>(stop, cur, _ :: (full_block \<times> block_record) list). \<not> stop \<and> (f < 0 \<or> Some cur \<noteq> Some fh)"
  obtain t prev brs where l: "loop_while ?c (branch_step E st) (False, h, []) = Inr (fst t, snd t, [] @ rev brs)"
      "branch (en_store E) (bs_db st) prev (f + 1) brs" "length brs = Suc n" "0 \<le> f \<longrightarrow> prev = fh"
      "br_header_hash (snd (last brs)) = h"
    using branch_loop [OF law st f1(1) fr row(1) _ anc, of "[]"] row(2) n(1) by auto
  have fk: "f < 0 \<or> rbind (uint32 f) (bc_height_to_hash S) = Inr (Some fh)"
    using c f1 inv_height_to_hash [OF inv, of "nat f"]
    by (cases "f < 0") (auto simp: collect_branch_def rbind_eq_Inr fh_def nat_less_iff)
  have "bta = rev brs"
    using fk
  proof
    assume "f < 0"
    then show ?thesis using c l(1) by (simp add: collect_branch_def)
  next
    assume fk: "rbind (uint32 f) (bc_height_to_hash S) = Inr (Some fh)"
    then have "\<not> f < 0" by (auto simp: rbind_eq_Inr)
    then show ?thesis using c l(1) fk by (simp add: collect_branch_def)
  qed
  moreover have "brs \<noteq> []" using l(3) by auto
  ultimately show ?thesis using that l(2,4,5) by (simp add: fh_def)
qed

text \<open>
  What \<open>_reconsider_peak\<close> reports when it moves the peak: a stored branch above height \<open>f\<close> of the chain, ending in the
  new block, and the coin store of the chain that has the branch instead of what was above \<open>f\<close>.
\<close>

definition moves_peak ::
  "('g1, 'g2, 'gt) chain_env \<Rightarrow> chain_entry list \<Rightarrow> block_store \<Rightarrow> bytes \<Rightarrow> int \<Rightarrow> (full_block \<times> block_record) list
     \<Rightarrow> chain_entry list \<Rightarrow> block_store \<Rightarrow> table \<Rightarrow> bool" where
  "moves_peak E ms st h f brs ns st' coins' \<longleftrightarrow>
     -1 \<le> f \<and> f < int (length ms) \<and> brs \<noteq> [] \<and> br_header_hash (snd (last brs)) = h \<and>
     (\<exists>prev. branch (en_store E) (bs_db st) prev (f + 1) brs \<and> (0 \<le> f \<longrightarrow> prev = fst (ms ! nat f))) \<and>
     map fst ns = map (br_header_hash \<circ> snd) brs \<and> entries_from (nat (f + 1)) ns \<and>
     rfold (apply_block (en_name E)) [] (effects (take (nat (f + 1)) ms @ ns)) = Inr coins' \<and>
     bstore_ok (en_store E) st' \<and> db_current_peak (bs_db st') = Some h \<and>
     db_full_blocks (bs_db st') = map (flag_row f (map (br_header_hash \<circ> snd) brs)) (db_full_blocks (bs_db st))"

lemma genesis_moves_peak:
  assumes law: "store_law (en_store E)" and st: "bstore_ok (en_store E) st" "rows_linked (en_store E) (bs_db st)"
    and out: "\<And>r. r \<in> set (db_full_blocks (bs_db st)) \<Longrightarrow> \<not> fr_in_main_chain r"
    and row: "row_of (bs_db st) h = Some row" "fr_height row = 0" "br_header_hash rec = h" "get_block_record st h = Inr (Some rec)"
    and g: "genesis_peak E st [] rec npc = Inr (records, Some summary, st', coins')"
  shows "\<exists>brs ns. moves_peak E [] st h (-1) brs ns st' coins' \<and> records = map snd brs \<and> cs_fork_height summary = 0"
proof (rule linked_row [OF law st row(1)])
  fix b rec'
  assume l: "fst (get_full_block (en_store E) st h) = Inr (Some b)" "get_block_record st h = Inr (Some rec')"
    "stored_pair (en_store E) (bs_db st) (fr_prev_hash row) (fr_height row) (b, rec')"
  have rec: "rec' = rec" using l(2) row(4) by simp
  have b: "block_typed (lib_accepts (en_store E)) (lib_serialized_length (en_store E)) b" "fb_height b = 0"
    using l(3) row(2) by (auto simp: stored_pair_def)
  have nb: "need_block E st h = Inr b" using l(1) by (simp add: need_block_def read_block_def)
  obtain removals additions rewards where w: "(case npc of Some npc \<Rightarrow> tx_removals_and_additions (npc_conds npc) | None \<Rightarrow> Inr ([], []))
        = Inr (removals, additions)" "get_included_reward_coins b = Inr rewards"
      "(if fb_is_transaction_block b then
              (case fb_foliage_transaction_block b of
                 None \<Rightarrow> Inl AssertionError
               | Some ftb \<Rightarrow>
                   rbind (new_block (en_name E) (fb_height b) (ft_timestamp ftb) rewards additions removals [])
                     (\<lambda>(_, coins'). Inr coins'))
            else Inr []) = Inr coins'"
      "records = [rec]" "cs_fork_height summary = 0" "st' = set_peak (set_in_chain st [h]) h"
    using g nb row(3) by (auto simp: genesis_peak_def rbind_eq_Inr)
  have adds: "list_all coin_ok additions" using w(1) npc_additions_ok by (auto split: option.splits)
  have "\<exists>e. entry_ok 0 e \<and> rfold (apply_block (en_name E)) [] (effects [(h, e)]) = Inr coins'"
  proof (cases "fb_is_transaction_block b")
    case True
    then obtain ts o' where "new_block (en_name E) (fb_height b) ts rewards additions removals [] = Inr (o', coins')"
      using w(3) by (auto simp: rbind_eq_Inr split: option.splits)
    then show ?thesis using new_block_entry [OF b(1) w(2) adds] b(2) by metis
  qed (use w(3) in \<open>auto simp: entry_ok_def intro!: exI [of _ None]\<close>)
  then obtain e where e: "entry_ok 0 e" "rfold (apply_block (en_name E)) [] (effects [(h, e)]) = Inr coins'" by blast
  have "moves_peak E [] st h (-1) [(b, rec)] [(h, e)] st' coins'"
    using e l(3) row(2,3) rec w(6) flags_keep_blocks [OF st(1)] flags_keep_blocks(5) [OF flags_keep_blocks(3) [OF st(1)]]
      first_peak_rows [OF out] peak_rows(2)
    by (auto simp: moves_peak_def entry_ok_def simp del: effects_simps)
  then show ?thesis using w(4,5) by (intro exI [of _ "[(b, rec)]"] exI [of _ "[(h, e)]"]) simp
qed

lemma fork_coins:
  assumes inv: "chain_inv E S ms" and ne: "ms \<noteq> []" and f: "-1 \<le> f" "f < int (length ms)"
    and r: "(if br_prev_hash rec \<noteq> br_header_hash p then rollback_to_block (en_name E) f (bc_coin_store S)
             else Inr ([], bc_coin_store S)) = Inr (rolled, coins1)"
    and peak: "br_prev_hash rec = br_header_hash p \<Longrightarrow> f = int (length ms) - 1"
  shows "rfold (apply_block (en_name E)) [] (effects (take (nat (f + 1)) ms)) = Inr coins1"
proof (cases "br_prev_hash rec = br_header_hash p")
  case True
  then show ?thesis using r peak chain_invD(10) [OF inv] by simp
next
  case False
  have "nat (f + 1) \<le> length ms" using f by linarith
  then show ?thesis using rollback_chain [OF chain_invD(9,10) [OF inv] f(1)] r False by auto
qed

lemma reorg_moves_peak:
  assumes inv: "chain_inv E S ms" and law: "store_law (en_store E)"
    and st: "bstore_ok (en_store E) st" "rows_linked (en_store E) (bs_db st)"
    and keep: "\<And>x r. row_of (bs_db (bc_block_store S)) x = Some r \<Longrightarrow> row_of (bs_db st) x = Some r"
    and row: "row_of (bs_db st) h = Some row" "fr_height row = fb_height b" "fr_prev_hash row = fb_prev_header_hash b"
      "br_header_hash rec = h"
    and fork: "\<And>p f. bc_get_peak S = Inr (Some p) \<Longrightarrow> choose_fork S rec p fork = Inr f \<Longrightarrow>
      valid_fork (bs_db (bc_block_store S)) (map fst ms) b f"
    and r: "reconsider_peak E S st rec False fork npc = Inr (records, Some summary, st', coins')"
  shows "\<exists>f brs ns. moves_peak E ms st h f brs ns st' coins' \<and> records = map snd brs \<and> cs_fork_height summary = max f 0 \<and>
    (\<exists>p. bc_get_peak S = Inr (Some p) \<and> br_weight p < br_weight rec)"
proof -
  obtain p where pk: "bc_get_peak S = Inr (Some p)" "br_weight p < br_weight rec"
    using r by (cases "bc_get_peak S") (auto simp: reconsider_peak_def Let_def split: option.splits if_splits)
  obtain f rolled coins1 bta npcs rewards
    where p: "bc_get_peak S = Inr (Some p)" "br_weight p < br_weight rec" "choose_fork S rec p fork = Inr f"
      "(if br_prev_hash rec \<noteq> br_header_hash p then rollback_to_block (en_name E) f (bc_coin_store S)
        else Inr ([], bc_coin_store S)) = Inr (rolled, coins1)"
      "collect_branch E S st f h = Inr bta"
      "rfold (apply_branch_block E S h npc) ([], [], [], coins1) (rev bta) = Inr (records, npcs, rewards, coins')"
      "st' = set_peak (set_in_chain (bs_rollback st f) (map br_header_hash records)) h" "cs_fork_height summary = max f 0"
    using r row(4) pk by (auto simp: reconsider_peak_def Let_def rbind_eq_Inr)
  note v = fork [OF p(1,3)]
  have f: "-1 \<le> f" "f < int (length ms)" using v by (auto simp: valid_fork_def)
  have ms: "ms \<noteq> []" using inv_peak(1) [OF inv p(1)] by simp
  obtain prev brs where b: "bta = rev brs" "brs \<noteq> []" "branch (en_store E) (bs_db st) prev (f + 1) brs"
      "0 \<le> f \<longrightarrow> prev = fst (ms ! nat f)" "br_header_hash (snd (last brs)) = h"
    by (rule collect_branch_ok [OF inv law st keep row(1-3) v p(5)])
  have k: "f + 1 = int (nat (f + 1))" using f(1) by simp
  obtain ns where ns: "records = map snd brs" "map fst ns = map (br_header_hash \<circ> snd) brs" "entries_from (nat (f + 1)) ns"
      "rfold (apply_block (en_name E)) coins1 (effects ns) = Inr coins'"
    using apply_branch_entries [OF p(6) [unfolded b(1) rev_rev_ident]] b(3) k by (metis append_Nil)
  have "br_prev_hash rec = br_header_hash p \<Longrightarrow> f = int (length ms) - 1"
    using p(3) inv_peak(2) [OF inv p(1) refl] by (simp add: choose_fork_def)
  then have c: "rfold (apply_block (en_name E)) [] (effects (take (nat (f + 1)) ms @ ns)) = Inr coins'"
    using fork_coins [OF inv ms f p(4)] ns(4) by (simp add: rfold_append)
  have "bstore_ok (en_store E) st'"
    unfolding p(7) by (intro flags_keep_blocks st(1))
  then have "moves_peak E ms st h f brs ns st' coins'"
    using f b(2-5) ns c peak_rows(1) [of st f "map br_header_hash records" h] p(7) peak_rows(2)
    unfolding moves_peak_def by auto
  then show ?thesis using ns(1) p(1,2,8) by blast
qed

text \<open>The memory follows: the height map holds the new chain and the peak height is the block's.\<close>

lemma memory_moves:
  assumes inv: "chain_inv E S ms" and m: "moves_peak E ms st h f brs ns st' coins'"
    and u: "update_memory S rec (map snd brs) (Some summary) = (Inr (), S')" "cs_fork_height summary = max f 0"
  shows "hm_ok (bc_height_map S')" "hashes (bc_height_map S') = map fst (take (nat (f + 1)) ms @ ns)"
    "bc_peak_height S' = Some (br_height rec)" "bc_block_records S' = dict_set (bc_block_records S) (br_header_hash rec) rec"
proof -
  let ?S = "bc_add_block_record S rec" and ?k = "nat (f + 1)"
  have hm: "bc_height_map ?S = bc_height_map S" "bc_block_records ?S = dict_set (bc_block_records S) (br_header_hash rec) rec"
    by (simp_all add: bc_add_block_record_def Let_def)
  have f: "-1 \<le> f" "f < int (length ms)" "brs \<noteq> []" "map fst ns = map (br_header_hash \<circ> snd) brs"
    "\<exists>prev. branch (en_store E) (bs_db st) prev (f + 1) brs"
    using m unfolding moves_peak_def by blast+
  then have con: "consecutive (int ?k) (map snd brs)" using branch_consecutive by fastforce
  have mx: "-1 \<le> max f 0" using f(1) by linarith
  obtain hm1 where r: "hm_rollback (bc_height_map S) (max f 0) = Inr hm1" "hm_ok hm1"
      "hashes hm1 = take (nat (max f 0 + 1)) (map fst ms)"
    using rollback_hashes [OF chain_invD(6) [OF inv] mx] chain_invD(7) [OF inv] by auto
  obtain hm2 where h2: "update_heights hm1 (map snd brs) = (Inr (), hm2)" "bc_height_map S' = hm2"
      "bc_peak_height S' = Some (br_height rec)" "bc_block_records S' = bc_block_records ?S"
    using u r(1) hm by (auto simp: update_memory_def Let_def split: prod.splits sum.splits unit.splits)
  have "?k \<le> length (hashes hm1)" "length (hashes hm1) \<le> Suc ?k" using r(3) f(1,2) by (auto simp: max_def)
  then have "hm_ok hm2 \<and> hashes hm2 = take ?k (hashes hm1) @ map br_header_hash (map snd brs)"
    using update_heights_hashes [OF h2(1) r(2) con] f(3) by simp
  moreover have "take ?k (hashes hm1) = map fst (take ?k ms)" using r(3) f(1) by (simp add: take_map max_def)
  ultimately show "hm_ok (bc_height_map S')" "hashes (bc_height_map S') = map fst (take ?k ms @ ns)"
    using h2(2) f(4) by (simp_all add: comp_def)
  show "bc_peak_height S' = Some (br_height rec)" "bc_block_records S' = dict_set (bc_block_records S) (br_header_hash rec) rec"
    using h2(3,4) hm(2) by simp_all
qed

text \<open>The state of a node right after the row of a new block is written.\<close>

definition row_added :: "('g1, 'g2, 'gt) chain_env \<Rightarrow> blockchain \<Rightarrow> block_store \<Rightarrow> bytes \<Rightarrow> full_block \<Rightarrow> block_record \<Rightarrow> block_row \<Rightarrow> bool" where
  "row_added E S st h b rec r \<longleftrightarrow>
     bstore_ok (en_store E) st \<and> rows_linked (en_store E) (bs_db st) \<and>
     db_full_blocks (bs_db st) = db_full_blocks (bs_db (bc_block_store S)) @ [r] \<and>
     db_current_peak (bs_db st) = db_current_peak (bs_db (bc_block_store S)) \<and>
     fr_header_hash r = h \<and> fr_prev_hash r = fb_prev_header_hash b \<and> fr_height r = fb_height b \<and> \<not> fr_in_main_chain r \<and>
     row_of (bs_db (bc_block_store S)) h = None \<and>
     (\<forall>x. row_of (bs_db st) x = (if x = h then Some r else row_of (bs_db (bc_block_store S)) x)) \<and>
     (\<forall>x. get_block_record st x = (if x = h then Inr (Some rec) else get_block_record (bc_block_store S) x))"

lemma row_addedD:
  assumes "row_added E S st h b rec r"
  shows "bstore_ok (en_store E) st" "rows_linked (en_store E) (bs_db st)"
    "db_full_blocks (bs_db st) = db_full_blocks (bs_db (bc_block_store S)) @ [r]"
    "db_current_peak (bs_db st) = db_current_peak (bs_db (bc_block_store S))"
    "fr_header_hash r = h" "fr_prev_hash r = fb_prev_header_hash b" "fr_height r = fb_height b" "\<not> fr_in_main_chain r"
    "row_of (bs_db st) h = Some r" "get_block_record st h = Inr (Some rec)"
    "\<And>x p. row_of (bs_db (bc_block_store S)) x = Some p \<Longrightarrow> row_of (bs_db st) x = Some p"
    "\<And>x rec'. x \<noteq> h \<Longrightarrow> get_block_record (bc_block_store S) x = Inr (Some rec') \<Longrightarrow> get_block_record st x = Inr (Some rec')"
  using assms unfolding row_added_def by (auto split: if_splits)

lemma added_rows_chain:
  assumes "chain_inv E S ms" "row_added E S st h b rec r"
  shows "rows_chain (bs_db st) (map fst ms)"
    "\<And>x. x \<in> set (db_full_blocks (bs_db st)) \<Longrightarrow> fr_in_main_chain x \<longleftrightarrow> fr_header_hash x \<in> set (map fst ms)"
proof -
  note D = row_addedD [OF assms(2)]
  show "rows_chain (bs_db st) (map fst ms)"
    using chain_invD(4) [OF assms(1)] D(11) unfolding rows_chain_def by meson
  have "h \<notin> set (map fst ms)"
  proof
    assume "h \<in> set (map fst ms)"
    then obtain k where "k < length (map fst ms)" "map fst ms ! k = h" by (metis in_set_conv_nth)
    then have "row_of (bs_db (bc_block_store S)) h \<noteq> None" using rows_chainD [OF chain_invD(4) [OF assms(1)]] by fastforce
    then show False using assms(2) by (simp add: row_added_def)
  qed
  then show "fr_in_main_chain x \<longleftrightarrow> fr_header_hash x \<in> set (map fst ms)" if "x \<in> set (db_full_blocks (bs_db st))" for x
    using that D(3,5,8) chain_invD(5) [OF assms(1)] by auto
qed

lemma moved_flags:
  assumes inv: "chain_inv E S ms" and add: "row_added E S st h b rec r" and m: "moves_peak E ms st h f brs ns st' coins'"
    and x: "x \<in> set (db_full_blocks (bs_db st'))"
  shows "fr_in_main_chain x \<longleftrightarrow> fr_header_hash x \<in> set (map fst (take (nat (f + 1)) ms @ ns))"
proof -
  have f: "-1 \<le> f" "map fst ns = map (br_header_hash \<circ> snd) brs"
    "db_full_blocks (bs_db st') = map (flag_row f (map fst ns)) (db_full_blocks (bs_db st))"
    using m unfolding moves_peak_def by simp_all
  obtain y where y: "x = flag_row f (map fst ns) y" "y \<in> set (db_full_blocks (bs_db st))" using x f(3) by auto
  have d: "distinct (map fr_header_hash (db_full_blocks (bs_db st)))" using row_addedD(1) [OF add] by (simp add: bstore_ok_def)
  show ?thesis
    using y added_rows_chain(2) [OF inv add y(2)] main_rows [OF added_rows_chain(1) [OF inv add] d y(2) f(1)]
    by (auto simp: take_map)
qed

lemma moved_chain_inv:
  assumes inv: "chain_inv E S ms" and add: "row_added E S st h b rec r" and m: "moves_peak E ms st h f brs ns st' coins'"
    and rec: "br_header_hash rec = h" "br_height rec = fb_height b"
    and S': "bc_block_store S' = st'" "bc_coin_store S' = coins'" "hm_ok (bc_height_map S')"
      "hashes (bc_height_map S') = map fst (take (nat (f + 1)) ms @ ns)" "bc_peak_height S' = Some (br_height rec)"
      "bc_block_records S' = dict_set (bc_block_records S) h rec"
  shows "chain_inv E S' (take (nat (f + 1)) ms @ ns)"
proof -
  let ?n = "nat (f + 1)" and ?ms = "take (nat (f + 1)) ms @ ns"
  note D = row_addedD [OF add]
  have f: "-1 \<le> f" "f < int (length ms)" "brs \<noteq> []" "br_header_hash (snd (last brs)) = h"
    "map fst ns = map (br_header_hash \<circ> snd) brs" "entries_from ?n ns"
    "rfold (apply_block (en_name E)) [] (effects ?ms) = Inr coins'" "bstore_ok (en_store E) st'"
    "db_current_peak (bs_db st') = Some h"
    using m unfolding moves_peak_def by simp_all
  obtain prev where prev: "branch (en_store E) (bs_db st) prev (f + 1) brs" "0 \<le> f \<longrightarrow> prev = fst (ms ! nat f)"
    using m unfolding moves_peak_def by blast
  have rows: "db_full_blocks (bs_db st') = map (flag_row f (map (br_header_hash \<circ> snd) brs)) (db_full_blocks (bs_db st))"
    using m unfolding moves_peak_def by blast
  have n: "?n \<le> length ms" "int ?n = f + 1" using f(1,2) by linarith+
  have ns: "ns \<noteq> []" "length ns = length brs" using f(3,5) by (auto dest: arg_cong [of _ _ length])
  have last: "fst (last ?ms) = h"
    using f(3-5) ns(1) last_map [of ns fst] last_map [of brs "br_header_hash \<circ> snd"] by simp
  have "rows_chain (bs_db st) (map fst (take ?n ms) @ map (br_header_hash \<circ> snd) brs)"
  proof (rule rows_chain_branch)
    show "rows_chain (bs_db st) (map fst (take ?n ms))"
      using rows_chain_take [OF added_rows_chain(1) [OF inv add], of ?n] by (simp add: take_map)
    show "branch (en_store E) (bs_db st) prev (int (length (map fst (take ?n ms)))) brs" using prev(1) n by (simp add: min_def)
    show "prev = last (map fst (take ?n ms))" if "map fst (take ?n ms) \<noteq> []"
      using that prev(2) n f(1) by (auto simp: last_conv_nth min_def nat_add_distrib nth_append)
  qed
  then have chain: "rows_chain (bs_db st') (map fst ?ms)" using f(5) flagged_rows(3) [OF rows] by simp
  have records: "get_block_record st' x = Inr (Some rec')" if "dict_get (bc_block_records S') x = Some rec'" for x rec'
  proof -
    have "get_block_record st x = Inr (Some rec')"
      using that S'(6) D(10,12) chain_invD(3) [OF inv] by (auto simp: dict_get_set split: if_splits)
    then show ?thesis by (auto simp: get_block_record_def flagged_rows(1) [OF rows] split: option.splits)
  qed
  obtain row where "row_of (bs_db st) h = Some row" "fr_height row = f + 1 + int (length brs) - 1"
    using branch_last [OF prev(1) f(3)] f(4) by metis
  then have peak: "bc_peak_height S' = Some (int (length ?ms) - 1)" using D(7,9) S'(5) rec(2) n ns(2) by (simp add: min_def)
  have "entries_from 0 (take ?n ms)"
    using chain_invD(9) [OF inv] entries_from_append [of 0 "take ?n ms" "drop ?n ms"] by simp
  then have "entries_from 0 ?ms" using f(6) n(1) by (simp add: entries_from_append min_def)
  then show ?thesis
    using f(7-9) S'(1-4) records chain peak moved_flags [OF inv add m] last ns(1) flagged_rows(2) [OF rows] D(2)
    unfolding chain_inv_def by simp
qed

lemma orphan_chain_inv:
  assumes inv: "chain_inv E S ms" and add: "row_added E S st h b rec r" and rec: "br_header_hash rec = h"
    and S': "bc_block_store S' = st" "bc_coin_store S' = bc_coin_store S" "hm_ok (bc_height_map S')"
      "hashes (bc_height_map S') = map fst ms" "bc_peak_height S' = bc_peak_height S"
      "bc_block_records S' = dict_set (bc_block_records S) h rec"
  shows "chain_inv E S' ms"
proof -
  note D = row_addedD [OF add]
  have records: "get_block_record st x = Inr (Some rec')" if "dict_get (bc_block_records S') x = Some rec'" for x rec'
    using that S'(6) D(10,12) chain_invD(3) [OF inv] by (auto simp: dict_get_set split: if_splits)
  have "ms \<noteq> [] \<longrightarrow> db_current_peak (bs_db st) = Some (fst (last ms))" using inv D(4) unfolding chain_inv_def by simp
  then show ?thesis
    using D(1,2) S' records added_rows_chain [OF inv add] chain_invD(8-10) [OF inv] unfolding chain_inv_def by simp
qed

lemma write_block_cases:
  assumes "write_block E S b rec fork npc = (Inr summary, S')" "fb_header_hash (en_hash E) b = Inr h"
  obtains st st' records coins' S1 hm where "add_full_block (en_store E) (bc_block_store S) h b rec = (Inr (), st)"
    "reconsider_peak E S st rec (fb_height b = 0) fork npc = Inr (records, summary, st', coins')"
    "update_memory S rec records summary = (Inr (), S1)" "hm_maybe_flush (bc_height_map S1) = Inr hm"
    "S' = S1\<lparr>bc_height_map := hm, bc_block_store := st', bc_coin_store := coins'\<rparr>"
  using assms by (auto simp: write_block_def split: prod.splits sum.splits unit.splits)

lemma write_block_new_peak:
  assumes inv: "chain_inv E S ms" and law: "store_law (en_store E)"
    and add: "add_full_block (en_store E) (bc_block_store S) h b rec = (Inr (), st)" "row_added E S st h b rec r"
    and rec: "br_header_hash rec = h" "br_height rec = fb_height b"
    and fork: "\<And>p f. fb_height b \<noteq> 0 \<Longrightarrow> bc_get_peak S = Inr (Some p) \<Longrightarrow> choose_fork S rec p fork = Inr f \<Longrightarrow>
      valid_fork (bs_db (bc_block_store S)) (map fst ms) b f"
    and w: "write_block E S b rec fork npc = (Inr (Some summary), S')" "fb_header_hash (en_hash E) b = Inr h"
  shows "\<exists>f ns. -1 \<le> f \<and> f < int (length ms) \<and> chain_inv E S' (take (nat (f + 1)) ms @ ns) \<and> ns \<noteq> [] \<and> fst (last ns) = h \<and>
    (ms \<noteq> [] \<longrightarrow> (\<exists>p. bc_get_peak S = Inr (Some p) \<and> br_weight p < br_weight rec))"
proof (rule write_block_cases [OF w])
  fix st1 st' records coins' S1 hm
  assume a: "add_full_block (en_store E) (bc_block_store S) h b rec = (Inr (), st1)"
    and c: "reconsider_peak E S st1 rec (fb_height b = 0) fork npc = Inr (records, Some summary, st', coins')"
    "update_memory S rec records (Some summary) = (Inr (), S1)" "hm_maybe_flush (bc_height_map S1) = Inr hm"
    "S' = S1\<lparr>bc_height_map := hm, bc_block_store := st', bc_coin_store := coins'\<rparr>"
  have st: "st1 = st" using a add(1) by simp
  note D = row_addedD [OF add(2)]
  obtain x where x: "bc_get_peak S = Inr x" using c(1) by (cases "bc_get_peak S") (auto simp: reconsider_peak_def Let_def)
  have "\<exists>f brs ns. moves_peak E ms st h f brs ns st' coins' \<and> records = map snd brs \<and> cs_fork_height summary = max f 0 \<and>
      (ms \<noteq> [] \<longrightarrow> (\<exists>p. bc_get_peak S = Inr (Some p) \<and> br_weight p < br_weight rec))"
  proof (cases "fb_height b = 0")
    case True
    then have g: "x = None" "genesis_peak E st (bc_coin_store S) rec npc = Inr (records, Some summary, st', coins')"
      using c(1) x st by (auto simp: reconsider_peak_def Let_def split: if_splits)
    have ms: "ms = []" "bc_coin_store S = []" using inv_peak(1) [OF inv x] g(1) chain_invD(10) [OF inv] by auto
    have out: "\<not> fr_in_main_chain y" if "y \<in> set (db_full_blocks (bs_db st))" for y
      using added_rows_chain(2) [OF inv add(2) that] ms(1) by simp
    have "fr_height r = 0" using D(7) True by simp
    then show ?thesis using genesis_moves_peak [OF law D(1,2) out D(9) _ rec(1) D(10)] g(2) ms by fastforce
  next
    case False
    then have r: "reconsider_peak E S st rec False fork npc = Inr (records, Some summary, st', coins')" using c(1) st by simp
    have "\<exists>f brs ns. moves_peak E ms st h f brs ns st' coins' \<and> records = map snd brs \<and> cs_fork_height summary = max f 0 \<and>
        (\<exists>p. bc_get_peak S = Inr (Some p) \<and> br_weight p < br_weight rec)"
      by (rule reorg_moves_peak [OF inv law D(1,2) _ D(9,7,6) rec(1) _ r]) (erule D(11), rule fork [OF False])
    then show ?thesis by blast
  qed
  then obtain f brs ns where m: "moves_peak E ms st h f brs ns st' coins'" "records = map snd brs" "cs_fork_height summary = max f 0"
      "ms \<noteq> [] \<longrightarrow> (\<exists>p. bc_get_peak S = Inr (Some p) \<and> br_weight p < br_weight rec)" by blast
  note M = memory_moves [OF inv m(1) c(2) [unfolded m(2)] m(3)]
  have "chain_inv E S' (take (nat (f + 1)) ms @ ns)"
    by (rule moved_chain_inv [OF inv add(2) m(1) rec]) (use M c(3,4) flush_hashes [OF c(3) M(1)] rec(1) in simp_all)
  moreover have "map fst ns = map (br_header_hash \<circ> snd) brs" "brs \<noteq> []" "br_header_hash (snd (last brs)) = h" "-1 \<le> f"
    "f < int (length ms)" using m(1) by (simp_all add: moves_peak_def)
  moreover from this have "ns \<noteq> [] \<and> fst (last ns) = h" using last_map [of ns fst] last_map [of brs "br_header_hash \<circ> snd"] by (cases "ns = []") auto
  ultimately show ?thesis using m(4) by blast
qed

lemma write_block_orphan:
  assumes inv: "chain_inv E S ms"
    and add: "add_full_block (en_store E) (bc_block_store S) h b rec = (Inr (), st)" "row_added E S st h b rec r"
    and rec: "br_header_hash rec = h"
    and w: "write_block E S b rec fork npc = (Inr None, S')" "fb_header_hash (en_hash E) b = Inr h"
  shows "chain_inv E S' ms" "row_of (bs_db (bc_block_store S')) h = Some r"
proof -
  obtain st' records coins' S1 hm
    where c: "reconsider_peak E S st rec (fb_height b = 0) fork npc = Inr (records, None, st', coins')"
      "update_memory S rec records None = (Inr (), S1)" "hm_maybe_flush (bc_height_map S1) = Inr hm"
      "S' = S1\<lparr>bc_height_map := hm, bc_block_store := st', bc_coin_store := coins'\<rparr>"
    using write_block_cases [OF w] add(1) by (metis prod.inject)
  have n: "records = []" "st' = st" "coins' = bc_coin_store S"
    using c(1) by (auto simp: reconsider_peak_def genesis_peak_def Let_def rbind_eq_Inr split: if_splits option.splits)
  have "S1 = bc_add_block_record S rec" using c(2) n(1) by (auto simp: update_memory_def Let_def split: unit.splits)
  then have s: "bc_height_map S1 = bc_height_map S" "bc_peak_height S1 = bc_peak_height S"
    "bc_block_records S1 = dict_set (bc_block_records S) h rec" using rec by (simp_all add: bc_add_block_record_def Let_def)
  have "hm_ok hm \<and> hashes hm = map fst ms" using flush_hashes [OF c(3)] s(1) chain_invD(6,7) [OF inv] by simp
  then show "chain_inv E S' ms" using orphan_chain_inv [OF inv add(2) rec] c(4) n s by simp
  show "row_of (bs_db (bc_block_store S')) h = Some r" using c(4) n(2) row_addedD(9) [OF add(2)] by simp
qed

section \<open>Receiving a block\<close>

lemma update_memory_coins: "update_memory S rec records summary = (res, S') \<Longrightarrow> bc_coin_store S' = bc_coin_store S"
  by (auto simp: update_memory_def bc_add_block_record_def Let_def split: sum.splits prod.splits unit.splits)

lemma abort_block_tables [simp]:
  "bs_db (bc_block_store (abort_block S S' st h)) = bs_db (bc_block_store S)" "bc_coin_store (abort_block S S' st h) = bc_coin_store S"
  by (simp_all add: abort_block_def rollback_cache_block_def split: sum.splits)

lemma write_block_raises:
  assumes "write_block E S b rec fork npc = (Inl e, S')"
  shows "bs_db (bc_block_store S') = bs_db (bc_block_store S) \<and> bc_coin_store S' = bc_coin_store S"
  using assms
  by (auto simp: write_block_def split: sum.splits prod.splits unit.splits dest: update_memory_coins)

lemma receive_block_writes:
  assumes "receive_block E S b pre fork cache = (Inr (res, err, summary), S')"
  obtains "res \<notin> {NEW_PEAK, ADDED_AS_ORPHAN}" "S' = S" "summary = None" "err = None \<longleftrightarrow> res = ALREADY_HAVE_BLOCK"
  | h rec where "fb_header_hash (en_hash E) b = Inr h"
    "fb_height b \<noteq> 0 \<longrightarrow> (\<exists>p. dict_get (bc_block_records S) (fb_prev_header_hash b) = Some p \<and> br_height p = fb_height b - 1)"
    "block_to_block_record (en_hash E) (en_constants E) (chain_view S) (the (pv_required_iters pre)) (FullT b) None = Inr rec"
    "write_block E S b rec fork (pv_npc_result pre) = (Inr summary, S')"
    "res = (if summary = None then ADDED_AS_ORPHAN else NEW_PEAK)" "err = None"
proof -
  obtain h where h: "fb_header_hash (en_hash E) b = Inr h" using assms by (cases "fb_header_hash (en_hash E) b") (auto simp: receive_block_def)
  show ?thesis
  proof (cases "bc_contains_block S h \<or> \<not> bc_contains_block S (fb_prev_header_hash b) \<and> fb_height b \<noteq> 0 \<or>
      fb_height b \<noteq> 0 \<and> map_option br_height (bc_try_block_record S (fb_prev_header_hash b)) \<noteq> Some (fb_height b - 1) \<or>
      pv_error pre \<noteq> None")
    case True
    then show ?thesis using assms h that(1)
      by (auto simp: receive_block_def Let_def rbind_eq_Inr split: if_splits)
  next
    case False
    then obtain ri where ri: "pv_required_iters pre = Some ri" using assms h
      by (auto simp: receive_block_def split: if_splits option.splits)
    let ?v = "rbind (bc_get_peak S) (\<lambda>peak. fst (validate_block_body (body_lib_of E S) (en_constants E) (chain_view S)
       (bc_coin_store S) peak (FullB b) (fb_height b) (pv_npc_result pre) fork (\<not> pv_validated_signature pre) cache))"
    obtain r where v: "?v = Inr r" using assms h False ri by (cases ?v) (auto simp: receive_block_def)
    show ?thesis
    proof (cases "fst r")
      case (Some e)
      then have "?v = Inr (Some e, snd r)" using v by (metis prod.collapse)
      then show ?thesis using assms h False ri that(1) by (auto simp: receive_block_def)
    next
      case None
      then have "?v = Inr (None, snd r)" using v by (metis prod.collapse)
      then obtain rec where rec: "block_to_block_record (en_hash E) (en_constants E) (chain_view S) ri (FullT b) None = Inr rec"
          "(case write_block E S b rec fork (pv_npc_result pre) of
              (Inl e, S') \<Rightarrow> (Inl e, S')
            | (Inr (Some summary), S') \<Rightarrow> (Inr (NEW_PEAK, None, Some summary), S')
            | (Inr None, S') \<Rightarrow> (Inr (ADDED_AS_ORPHAN, None, None), S')) = (Inr (res, err, summary), S')"
        using assms h False ri by (auto simp: receive_block_def split: sum.splits)
      then show ?thesis using that(2) [OF h _ _ _ _] False ri
        by (auto simp: bc_try_block_record_def split: prod.splits sum.splits option.splits)
    qed
  qed
qed

lemma receive_block_raises:
  assumes "receive_block E S b pre fork cache = (Inl e, S')"
  shows "bs_db (bc_block_store S') = bs_db (bc_block_store S) \<and> bc_coin_store S' = bc_coin_store S"
  using assms
  by (auto simp: receive_block_def Let_def split: sum.splits prod.splits if_splits option.splits dest: write_block_raises)

text \<open>The block fits the node: its record has its declared widths, and a block that does not extend the peak forks off
  where it is said to, or found, to.\<close>

definition block_fits ::
  "('g1, 'g2, 'gt) chain_env \<Rightarrow> blockchain \<Rightarrow> chain_entry list \<Rightarrow> full_block \<Rightarrow> pre_validation_result \<Rightarrow> int option \<Rightarrow> bool" where
  "block_fits E S ms b pre fork \<longleftrightarrow>
     block_typed (lib_accepts (en_store E)) (lib_serialized_length (en_store E)) b \<and>
     (\<forall>h. fb_header_hash (en_hash E) b = Inr h \<longrightarrow> length h = 32 \<and> row_of (bs_db (bc_block_store S)) h = None) \<and>
     (\<forall>rec. block_to_block_record (en_hash E) (en_constants E) (chain_view S) (the (pv_required_iters pre)) (FullT b) None = Inr rec
        \<longrightarrow> record_typed rec \<and>
          (ms \<noteq> [] \<longrightarrow> fb_prev_header_hash b \<noteq> fst (last ms) \<longrightarrow>
             (\<forall>p f. bc_get_peak S = Inr (Some p) \<longrightarrow> choose_fork S rec p fork = Inr f \<longrightarrow>
                valid_fork (bs_db (bc_block_store S)) (map fst ms) b f)))"

text \<open>A block on top of the peak forks off at the peak.\<close>

lemma extension_valid_fork:
  assumes inv: "chain_inv E S ms" and p: "bc_get_peak S = Inr (Some p)" "choose_fork S rec p fork = Inr f"
    and prev: "fb_prev_header_hash b = fst (last ms)" "br_prev_hash rec = fb_prev_header_hash b"
    and h: "dict_get (bc_block_records S) (fb_prev_header_hash b) = Some q" "br_height q = fb_height b - 1"
  shows "valid_fork (bs_db (bc_block_store S)) (map fst ms) b f"
proof -
  have ms: "ms \<noteq> []" using inv_peak(1) [OF inv p(1)] by simp
  have pk: "br_header_hash p = fst (last ms)" "br_height p = int (length ms) - 1" using inv_peak(2) [OF inv p(1) refl] by auto
  then have f: "f = int (length ms) - 1" using p(2) prev by (simp add: choose_fork_def)
  obtain row where row: "row_of (bs_db (bc_block_store S)) (fst (last ms)) = Some row" "br_height q = fr_height row"
    using stored_record [OF chain_invD(2) [OF inv] chain_invD(3) [OF inv h(1)]] prev(1) by metis
  have "fr_height row = int (length ms) - 1"
    using rows_chainD [OF chain_invD(4) [OF inv], of "length ms - 1"] ms row(1) by (auto simp: last_conv_nth Suc_leI)
  then have b: "fb_height b = int (length ms)" using row(2) h(2) by simp
  have n: "nat (fb_height b - 1 - f) = 0" "nat f = length ms - 1" using b f by auto
  show ?thesis using ms b f prev(1) unfolding valid_fork_def n by (auto simp: last_conv_nth)
qed

lemma receive_row_added:
  assumes inv: "chain_inv E S ms" and law: "store_law (en_store E)" and fits: "block_fits E S ms b pre fork"
    and h: "fb_header_hash (en_hash E) b = Inr h"
    and parent: "fb_height b \<noteq> 0 \<longrightarrow> (\<exists>p. dict_get (bc_block_records S) (fb_prev_header_hash b) = Some p \<and> br_height p = fb_height b - 1)"
    and rec: "block_to_block_record (en_hash E) (en_constants E) (chain_view S) (the (pv_required_iters pre)) (FullT b) None = Inr rec"
  obtains st r where "add_full_block (en_store E) (bc_block_store S) h b rec = (Inr (), st)" "row_added E S st h b rec r"
proof -
  have f: "block_typed (lib_accepts (en_store E)) (lib_serialized_length (en_store E)) b" "length h = 32"
    "row_of (bs_db (bc_block_store S)) h = None" "record_typed rec"
    using fits h rec unfolding block_fits_def by blast+
  have r: "br_header_hash rec = h" "br_prev_hash rec = fb_prev_header_hash b" "br_height rec = fb_height b"
    using block_record_of_block [OF rec h] by auto
  have "\<exists>p. row_of (bs_db (bc_block_store S)) (fb_prev_header_hash b) = Some p \<and> fr_height p = fb_height b - 1" if "0 < fb_height b"
    using that parent stored_record [OF chain_invD(2) [OF inv] chain_invD(3) [OF inv]] by (metis less_irrefl)
  from add_block_linked [OF law chain_invD(1,2) [OF inv] f(3,1,4,2) r this] that f(3)
  show ?thesis unfolding row_added_def by metis
qed

section \<open>Properties\<close>


section \<open>A genesis block for the witnesses\<close>

definition genesis_ti :: transactions_info where
  "genesis_ti = \<lparr>ti_generator_root = b32 0, ti_generator_refs_root = b32 1, ti_aggregated_signature = replicate 96 0,
     ti_fees = 0, ti_cost = 0, ti_reward_claims_incorporated = []\<rparr>"

definition genesis_ftb :: foliage_transaction_block where
  "genesis_ftb = \<lparr>ft_prev_transaction_block_hash = b32 0, ft_timestamp = 9, ft_filter_hash = b32 1, ft_additions_root = b32 0,
     ft_removals_root = b32 0, ft_transactions_info_hash = b32 1\<rparr>"

definition genesis_sample :: full_block where
  "genesis_sample = sample_full_block\<lparr>fb_reward_chain_block := (fb_reward_chain_block sample_full_block)\<lparr>rb_height := 0\<rparr>,
     fb_foliage := sample_foliage (b32 0) (Some (b32 1)), fb_foliage_transaction_block := Some genesis_ftb,
     fb_transactions_info := Some genesis_ti\<rparr>"

definition sample_env :: "(bytes, bytes, (bytes \<times> bytes) list) chain_env" where
  "sample_env = \<lparr>en_constants = body_constants, en_store = sample_store_lib, en_body = sample_lib\<lparr>bl_std_hash := \<lambda>_. b32 1\<rparr>\<rparr>"

definition empty_map :: height_map where
  "empty_map = \<lparr>hm_height_to_hash = [], hm_sub_epoch_summaries = [], hm_dirty = 0, hm_hash_file = None, hm_ses_file = None\<rparr>"

definition empty_chain :: blockchain where
  "empty_chain = \<lparr>bc_peak_height = None, bc_block_records = [], bc_heights_in_cache = [], bc_height_map = empty_map,
     bc_coin_store = [], bc_block_store = create_block_store empty_db, bc_seen_compact_proofs = []\<rparr>"

definition sample_pre :: pre_validation_result where
  "sample_pre = \<lparr>pv_error = None, pv_required_iters = Some 1, pv_npc_result = None, pv_validated_signature = True\<rparr>"

definition genesis_record :: block_record where
  "genesis_record = (sample_block 0 0 0)\<lparr>br_header_hash := b32 1, br_prev_hash := b32 0, br_weight := 2, br_total_iters := 20,
     br_signage_point_index := 0, br_challenge_vdf_output := replicate 100 0, br_infused_challenge_vdf_output := None,
     br_reward_infusion_new_challenge := b32 1, br_challenge_block_info_hash := b32 1, br_sub_slot_iters := 134217728,
     br_pool_puzzle_hash := b32 1, br_farmer_puzzle_hash := b32 2, br_community_puzzle_hash := b32 3, br_required_iters := 1,
     br_deficit := 15, br_overflow := False, br_prev_transaction_block_height := 0, br_timestamp := Some 9,
     br_prev_transaction_block_hash := Some (b32 0), br_fees := Some 0, br_reward_claims_incorporated := Some [],
     br_finished_challenge_slot_hashes := Some [replicate 16 1 @ replicate 16 2],
     br_finished_infused_challenge_slot_hashes := None,
     br_finished_reward_slot_hashes := Some [replicate 16 1 @ replicate 16 2], br_sub_epoch_summary_included := None\<rparr>"

lemma genesis_record_made:
  "block_to_block_record (en_hash sample_env) (en_constants sample_env) (chain_view empty_chain)
     (the (pv_required_iters sample_pre)) (FullT genesis_sample) None = Inr genesis_record"
  by code_simp

lemma genesis_record_typed: "record_typed genesis_record"
  by (simp add: record_typed_def block_record_fields_def block_record_val_def opt_val_def genesis_record_def bytes_list_val_def
      sample_block_def int_class_defs classgroup_fields_def classgroup_val_def coin_list_val_def)

lemma genesis_hash: "fb_header_hash (en_hash sample_env) genesis_sample = Inr (b32 1)"
  by code_simp

lemma genesis_received:
  "\<exists>summary S'. receive_block sample_env empty_chain genesis_sample sample_pre None (new_lru_cache 5)
     = (Inr (NEW_PEAK, None, Some summary), S')"
proof -
  let ?r = "receive_block sample_env empty_chain genesis_sample sample_pre None (new_lru_cache 5)"
  have "case fst ?r of Inr (res, err, s) \<Rightarrow> res = NEW_PEAK \<and> err = None \<and> s \<noteq> None | Inl _ \<Rightarrow> False"
    by code_simp
  then show ?thesis by (cases ?r) (auto split: sum.splits)
qed

lemma genesis_typed: "block_typed (\<lambda>_. True) one_byte_programs genesis_sample"
  by (simp add: block_typed_def full_block_fields_def full_block_val_def genesis_sample_def genesis_ti_def genesis_ftb_def
      sample_full_block_def sample_foliage_def
      sample_foliage_data_def sample_pos_def sample_vdf_def sample_vdf_proof_def opt_val_def one_byte_programs_def
      reward_chain_block_fields_def reward_chain_block_val_def proof_of_space_fields_def proof_of_space_val_def
      vdf_info_fields_def vdf_info_val_def vdf_proof_fields_def vdf_proof_val_def foliage_fields_def foliage_val_def
      foliage_block_data_fields_def foliage_block_data_val_def pool_target_fields_def pool_target_val_def
      foliage_transaction_block_fields_def foliage_transaction_block_val_def transactions_info_fields_def transactions_info_val_def
      classgroup_fields_def int_class_defs G1_SIZE_def G2_SIZE_def)

lemma empty_chain_inv: "chain_inv sample_env empty_chain []"
  using empty_store_ok [of sample_store_lib]
  by (simp add: chain_inv_def empty_chain_def empty_map_def sample_env_def rows_linked_def rows_chain_def hm_ok_def hashes_def
      dict_ok_def dict_keys_def dict_get_def create_block_store_def empty_db_def)



end
