(* ===== verification/ProofChecks.thy ===== *)
theory ProofChecks
  imports BodyValidation BlockRecords
begin

text \<open>
  The proofs that a header carries: \<open>VDFProof.is_valid\<close> of \<open>types/blockchain_format/vdf.py\<close>, the proof of space of
  \<open>types/blockchain_format/proof_of_space.py\<close>, and \<open>consensus/vdf_info_computation.py\<close>, which computes where the VDF
  of a signage point starts.  The proofs themselves are checked by \<open>chiavdf\<close>, \<open>chiapos\<close> and \<open>blspy\<close>, the fields of a
  \<open>header_lib\<close>, a parameter, like the clock.
\<close>

section \<open>The libraries\<close>

record header_lib =
  hl_std_hash :: hasher
  hl_create_discriminant :: "bytes \<Rightarrow> int \<Rightarrow> int res"
  hl_verify_n_wesolowski :: "int \<Rightarrow> bytes \<Rightarrow> bytes \<Rightarrow> int \<Rightarrow> int \<Rightarrow> int \<Rightarrow> bool res"
  hl_validate_proof :: "bytes \<Rightarrow> int \<Rightarrow> bytes \<Rightarrow> bytes \<Rightarrow> bytes option"
  hl_aug_verify :: "bytes \<Rightarrow> bytes \<Rightarrow> bytes option \<Rightarrow> bool res"
  hl_time_plus :: "int \<Rightarrow> int"

section \<open>VDF proofs\<close>

text \<open>\<open>ClassgroupElement.get_default_element()\<close>.\<close>

definition default_element :: bytes where
  "default_element = [8] @ replicate 99 0"

lemma default_element: "get_default_element = Inr default_element"
  by (simp add: get_default_element_def classgroup_from_bytes_def default_element_def sized_init_def)

definition get_discriminant :: "header_lib \<Rightarrow> bytes \<Rightarrow> int \<Rightarrow> int res" where
  "get_discriminant L challenge size_bites = hl_create_discriminant L challenge size_bites"

definition verify_vdf :: "header_lib \<Rightarrow> int \<Rightarrow> bytes \<Rightarrow> bytes \<Rightarrow> int \<Rightarrow> int \<Rightarrow> int \<Rightarrow> bool res" where
  "verify_vdf L disc input_el output number_of_iterations discriminant_size witness_type =
     hl_verify_n_wesolowski L disc input_el output number_of_iterations discriminant_size witness_type"

definition vdf_is_valid ::
  "header_lib \<Rightarrow> consensus_constants \<Rightarrow> vdf_proof \<Rightarrow> bytes \<Rightarrow> vdf_info \<Rightarrow> vdf_info option \<Rightarrow> bool" where
  "vdf_is_valid L constants p input_el info target_vdf_info =
     (if target_vdf_info \<noteq> None \<and> target_vdf_info \<noteq> Some info then False
      else if vp_witness_type p + 1 > MAX_VDF_WITNESS_SIZE constants then False
      else
        (case rbind (get_discriminant L (vi_challenge info) (DISCRIMINANT_SIZE_BITS constants)) (\<lambda>disc.
                verify_vdf L disc input_el (vi_output info @ vp_witness p) (vi_number_of_iterations info)
                  (DISCRIMINANT_SIZE_BITS constants) (vp_witness_type p)) of
           Inl _ \<Rightarrow> False
         | Inr ok \<Rightarrow> ok))"

section \<open>Proofs of space\<close>

definition calculate_plot_filter_input :: "hasher \<Rightarrow> bytes \<Rightarrow> bytes \<Rightarrow> bytes \<Rightarrow> bytes" where
  "calculate_plot_filter_input H plot_id challenge_hash signage_point = H (plot_id @ challenge_hash @ signage_point)"

definition calculate_pos_challenge :: "hasher \<Rightarrow> bytes \<Rightarrow> bytes \<Rightarrow> bytes \<Rightarrow> bytes" where
  "calculate_pos_challenge H plot_id challenge_hash signage_point =
     H (calculate_plot_filter_input H plot_id challenge_hash signage_point)"

definition calculate_plot_id_pk :: "hasher \<Rightarrow> bytes \<Rightarrow> bytes \<Rightarrow> bytes" where
  "calculate_plot_id_pk H pool_public_key plot_public_key = H (pool_public_key @ plot_public_key)"

definition calculate_plot_id_ph :: "hasher \<Rightarrow> bytes \<Rightarrow> bytes \<Rightarrow> bytes" where
  "calculate_plot_id_ph H pool_contract_puzzle_hash plot_public_key = H (pool_contract_puzzle_hash @ plot_public_key)"

definition get_plot_id :: "hasher \<Rightarrow> proof_of_space \<Rightarrow> bytes res" where
  "get_plot_id H p =
     (case (pos_pool_public_key p, pos_pool_contract_puzzle_hash p) of
        (Some pk, None) \<Rightarrow> Inr (calculate_plot_id_pk H pk (pos_plot_public_key p))
      | (None, Some ph) \<Rightarrow> Inr (calculate_plot_id_ph H ph (pos_plot_public_key p))
      | _ \<Rightarrow> Inl AssertionError)"

text \<open>\<open>BitArray(h)[:n].uint == 0\<close>: the value of the first \<open>n\<close> bits; an empty bit string has none and raises.\<close>

definition passes_plot_filter :: "hasher \<Rightarrow> consensus_constants \<Rightarrow> bytes \<Rightarrow> bytes \<Rightarrow> bytes \<Rightarrow> bool res" where
  "passes_plot_filter H constants plot_id challenge_hash signage_point =
     (let h = calculate_plot_filter_input H plot_id challenge_hash signage_point;
          n = min (nat (NUMBER_ZERO_BITS_PLOT_FILTER constants)) (8 * length h)
      in if n = 0 then Inl ValueError else Inr (from_bytes False h div 2 ^ (8 * length h - n) = 0))"

definition get_quality_string :: "header_lib \<Rightarrow> proof_of_space \<Rightarrow> bytes \<Rightarrow> bytes option res" where
  "get_quality_string L p plot_id =
     (case hl_validate_proof L plot_id (pos_size p) (pos_challenge p) (pos_proof p) of
        None \<Rightarrow> Inr None
      | Some q \<Rightarrow> if q = [] then Inr None else rbind (bytes32 q) (\<lambda>q. Inr (Some q)))"

definition verify_and_get_quality_string ::
  "header_lib \<Rightarrow> consensus_constants \<Rightarrow> proof_of_space \<Rightarrow> bytes \<Rightarrow> bytes \<Rightarrow> bytes option res" where
  "verify_and_get_quality_string L constants p original_challenge_hash signage_point =
     (if (pos_pool_public_key p = None) = (pos_pool_contract_puzzle_hash p = None) then Inr None
      else if pos_size p < MIN_PLOT_SIZE constants then Inr None
      else if pos_size p > MAX_PLOT_SIZE constants then Inr None
      else
        rbind (get_plot_id (hl_std_hash L) p) (\<lambda>plot_id.
        if calculate_pos_challenge (hl_std_hash L) plot_id original_challenge_hash signage_point \<noteq> pos_challenge p then Inr None
        else
          rbind (passes_plot_filter (hl_std_hash L) constants plot_id original_challenge_hash signage_point) (\<lambda>ok.
          if \<not> ok then Inr None else get_quality_string L p plot_id)))"

section \<open>Hashes of finished sub-slots\<close>

definition cc_hash :: "hasher \<Rightarrow> end_of_sub_slot_bundle \<Rightarrow> bytes res" where
  "cc_hash H s = streamable_get_hash H challenge_chain_sub_slot_fields (challenge_chain_sub_slot_val (es_challenge_chain s))"

definition rc_hash :: "hasher \<Rightarrow> end_of_sub_slot_bundle \<Rightarrow> bytes res" where
  "rc_hash H s = streamable_get_hash H reward_chain_sub_slot_fields (reward_chain_sub_slot_val (es_reward_chain s))"

definition icc_hash :: "hasher \<Rightarrow> infused_challenge_chain_sub_slot \<Rightarrow> bytes res" where
  "icc_hash H s = streamable_get_hash H infused_challenge_chain_sub_slot_fields (infused_challenge_chain_sub_slot_val s)"

text \<open>\<open>assert hashes is not None\<close>, then \<open>hashes[-1]\<close>.\<close>

definition last_hash :: "bytes list option \<Rightarrow> bytes res" where
  "last_hash hs = (case hs of None \<Rightarrow> Inl AssertionError | Some xs \<Rightarrow> py_index xs (-1))"

section \<open>Where the VDF of a signage point starts\<close>

record sp_vdf_info =
  sp_cc_challenge :: bytes
  sp_rc_challenge :: bytes
  sp_cc_input :: bytes
  sp_rc_input :: bytes
  sp_cc_iters :: int
  sp_rc_iters :: int

text \<open>Cases 1 and 2: the signage point lies in a sub-slot that starts at the end of \<open>s\<close>.\<close>

definition sp_from_slot :: "header_lib \<Rightarrow> end_of_sub_slot_bundle \<Rightarrow> int \<Rightarrow> sp_vdf_info res" where
  "sp_from_slot L s sp_iters =
     rbind (rc_hash (hl_std_hash L) s) (\<lambda>rc. rbind (cc_hash (hl_std_hash L) s) (\<lambda>cc.
     Inr \<lparr>sp_cc_challenge = cc, sp_rc_challenge = rc, sp_cc_input = default_element, sp_rc_input = default_element,
          sp_cc_iters = sp_iters, sp_rc_iters = sp_iters\<rparr>))"

text \<open>Cases 4 and 6: the last block of the sub-slot before the signage point, or the start of the sub-slot.\<close>

definition sp_from_block :: "block_cache \<Rightarrow> block_record \<Rightarrow> int \<Rightarrow> int \<Rightarrow> sp_vdf_info res" where
  "sp_from_block blocks prev_b sp_total sp_iters =
     rbind (walk_back blocks (\<lambda>b. \<not> first_in_sub_slot b \<and> br_total_iters b > sp_total) prev_b) (\<lambda>cur.
     rbind (if br_total_iters cur < sp_total then
              rbind (uint64 (sp_total - br_total_iters cur)) (\<lambda>iters.
              Inr (iters, br_challenge_vdf_output cur, br_reward_infusion_new_challenge cur))
            else rbind (last_hash (br_finished_reward_slot_hashes cur)) (\<lambda>h. Inr (sp_iters, default_element, h)))
       (\<lambda>(iters, cc_input, rc).
     rbind (walk_back blocks (\<lambda>b. \<not> first_in_sub_slot b) cur) (\<lambda>start.
     rbind (last_hash (br_finished_challenge_slot_hashes start)) (\<lambda>cc.
     Inr \<lparr>sp_cc_challenge = cc, sp_rc_challenge = rc, sp_cc_input = cc_input, sp_rc_input = default_element,
          sp_cc_iters = iters, sp_rc_iters = iters\<rparr>))))"

text \<open>The sub-slots that a block finishes, newest first.\<close>

definition slots_of_block :: "block_record \<Rightarrow> (bytes \<times> bytes) list res" where
  "slots_of_block b =
     (if first_in_sub_slot b then
        (case (br_finished_challenge_slot_hashes b, br_finished_reward_slot_hashes b) of
           (Some cc, Some rc) \<Rightarrow> Inr (rev (zip cc rc))
         | _ \<Rightarrow> Inl AssertionError)
      else Inr [])"

definition collect_slots_step ::
  "block_cache \<Rightarrow> int \<Rightarrow> (bytes \<times> bytes) list \<times> block_record option \<times> block_record
     \<Rightarrow> ((bytes \<times> bytes) list \<times> block_record option \<times> block_record) res" where
  "collect_slots_step blocks sp_total s =
     (case s of (found, sp_pre_sb, cur) \<Rightarrow>
        let pre = (if sp_pre_sb = None \<and> br_total_iters cur < sp_total then Some cur else sp_pre_sb) in
        rbind (prev_block blocks cur) (\<lambda>cur'.
        rbind (slots_of_block cur') (\<lambda>more. Inr (found @ more, pre, cur'))))"

text \<open>Case 5: the signage point lies in the sub-slot before the last one that was finished.\<close>

definition sp_from_last_slots :: "block_cache \<Rightarrow> block_record \<Rightarrow> int \<Rightarrow> int \<Rightarrow> sp_vdf_info res" where
  "sp_from_last_slots blocks prev_b sp_total sp_iters =
     rbind (slots_of_block prev_b) (\<lambda>found0.
     rbind (loop_while (\<lambda>(found, _, cur). length found < 2 \<and> br_height cur > 0) (collect_slots_step blocks sp_total)
              (found0, None, prev_b)) (\<lambda>(found, sp_pre_sb, cur).
     let pre = (if sp_pre_sb = None \<and> br_total_iters cur < sp_total then Some cur else sp_pre_sb) in
     rbind (case pre of
              Some b \<Rightarrow> rbind (uint64 (sp_total - br_total_iters b)) (\<lambda>iters.
                        Inr (iters, br_challenge_vdf_output b, br_reward_infusion_new_challenge b))
            | None \<Rightarrow> rbind (py_index found 1) (\<lambda>s. Inr (sp_iters, default_element, snd s))) (\<lambda>(iters, cc_input, rc).
     rbind (py_index found 1) (\<lambda>s.
     Inr \<lparr>sp_cc_challenge = fst s, sp_rc_challenge = rc, sp_cc_input = cc_input, sp_rc_input = default_element,
          sp_cc_iters = iters, sp_rc_iters = iters\<rparr>))))"

definition get_signage_point_vdf_info ::
  "header_lib \<Rightarrow> consensus_constants \<Rightarrow> end_of_sub_slot_bundle list \<Rightarrow> bool \<Rightarrow> block_record option \<Rightarrow> block_cache \<Rightarrow> int \<Rightarrow> int
     \<Rightarrow> sp_vdf_info res" where
  "get_signage_point_vdf_info L constants slots overflow prev_b blocks sp_total sp_iters =
     (if slots \<noteq> [] \<and> \<not> overflow then sp_from_slot L (last slots) sp_iters
      else if overflow \<and> length slots > 1 then sp_from_slot L (slots ! (length slots - 2)) sp_iters
      else
        (case prev_b of
           None \<Rightarrow>
             Inr \<lparr>sp_cc_challenge = GENESIS_CHALLENGE constants, sp_rc_challenge = GENESIS_CHALLENGE constants,
                  sp_cc_input = default_element, sp_rc_input = default_element, sp_cc_iters = sp_iters,
                  sp_rc_iters = sp_iters\<rparr>
         | Some p \<Rightarrow>
             if slots = [] \<and> overflow then sp_from_last_slots blocks p sp_total sp_iters
             else sp_from_block blocks p sp_total sp_iters))"

end
