(* ===== verification/HeaderValidation.thy ===== *)
theory HeaderValidation
  imports ProofChecks
begin

text \<open>
  \<open>consensus/block_header_validation.py\<close> and \<open>types/unfinished_header_block.py\<close>: whether the header of a block is
  allowed on top of its parent.  The two functions are sequences of numbered checks; each group of them is a definition
  here, in the order of the code.  A check answers \<open>Inl e\<close> for \<open>return None, ValidationError(e)\<close>; messages and logging
  are left out.  The clock of \<open>time.time()\<close> is \<open>hl_time_plus\<close>: \<open>int(time.time() + x)\<close>.
\<close>

section \<open>Unfinished header blocks\<close>

record unfinished_header_block =
  uh_finished_sub_slots :: "end_of_sub_slot_bundle list"
  uh_reward_chain_block :: reward_chain_block_unfinished
  uh_challenge_chain_sp_proof :: "vdf_proof option"
  uh_reward_chain_sp_proof :: "vdf_proof option"
  uh_foliage :: foliage
  uh_foliage_transaction_block :: "foliage_transaction_block option"
  uh_transactions_filter :: bytes

definition uh_prev_header_hash :: "unfinished_header_block \<Rightarrow> bytes" where
  "uh_prev_header_hash b = fo_prev_block_hash (uh_foliage b)"

definition uh_header_hash :: "hasher \<Rightarrow> unfinished_header_block \<Rightarrow> bytes res" where
  "uh_header_hash H b = streamable_get_hash H foliage_fields (foliage_val (uh_foliage b))"

definition uh_total_iters :: "unfinished_header_block \<Rightarrow> int" where
  "uh_total_iters b = ru_total_iters (uh_reward_chain_block b)"

text \<open>What the challenge code reads of it.\<close>

definition view_of_header :: "hasher \<Rightarrow> unfinished_header_block \<Rightarrow> header_view res" where
  "view_of_header H b =
     rbind (rmap (\<lambda>s. rbind (cc_hash H s) (\<lambda>h.
              Inr \<lparr>ss_challenge_chain_hash = h,
                   ss_end_of_slot_vdf_challenge = vi_challenge (cc_challenge_chain_end_of_slot_vdf (es_challenge_chain s))\<rparr>))
              (uh_finished_sub_slots b)) (\<lambda>slots.
     Inr \<lparr>hv_finished_sub_slots = slots, hv_prev_header_hash = uh_prev_header_hash b, hv_total_iters = uh_total_iters b\<rparr>)"

text \<open>What is known before the checks: the parent, the flag that skips the last sub-slot and what can be finished.\<close>

record header_context =
  hx_prev_b :: "block_record option"
  hx_height :: int
  hx_overflow :: bool
  hx_skip_last :: bool
  hx_slots_since_prev :: int
  hx_can_finish_se :: bool
  hx_can_finish_epoch :: bool
  hx_difficulty :: int
  hx_sub_slot_iters :: int
  hx_skip_vdf :: bool

abbreviation hx_genesis :: "header_context \<Rightarrow> bool" where
  "hx_genesis X \<equiv> hx_prev_b X = None"

abbreviation hx_new_sub_slot :: "header_context \<Rightarrow> bool" where
  "hx_new_sub_slot X \<equiv> hx_slots_since_prev X > 0"

text \<open>Check 1 and the preparation.\<close>

definition slots_since_prev ::
  "hasher \<Rightarrow> block_cache \<Rightarrow> unfinished_header_block \<Rightarrow> bool \<Rightarrow> bool \<Rightarrow> int \<Rightarrow> (bool \<times> int) res" where
  "slots_since_prev H blocks b overflow skip ssi =
     (let n = int (length (uh_finished_sub_slots b)) in
      if skip \<and> overflow then
        rbind (view_of_header H b) (\<lambda>v.
        rbind (final_eos_is_already_included v blocks ssi) (\<lambda>included.
        Inr (if included then (False, n) else (skip, n + 1))))
      else Inr (skip, n))"

definition header_context_of ::
  "header_lib \<Rightarrow> consensus_constants \<Rightarrow> block_cache \<Rightarrow> unfinished_header_block \<Rightarrow> int \<Rightarrow> int \<Rightarrow> bool \<Rightarrow> bool
     \<Rightarrow> (err + header_context) res" where
  "header_context_of L constants blocks b difficulty ssi skip_last skip_vdf =
     rbind (try_block_record blocks (uh_prev_header_hash b)) (\<lambda>prev_b.
     ebind (ereturn (prev_b = None \<and> uh_prev_header_hash b \<noteq> GENESIS_CHALLENGE constants) INVALID_PREV_BLOCK_HASH) (\<lambda>_.
     rbind (is_overflow_block constants (ru_signage_point_index (uh_reward_chain_block b))) (\<lambda>overflow.
     rbind (slots_since_prev (hl_std_hash L) blocks b overflow skip_last ssi) (\<lambda>(skip, n).
     rbind (case prev_b of
              None \<Rightarrow>
                rbind (rguard AssertionError (difficulty = DIFFICULTY_STARTING constants)) (\<lambda>_.
                rbind (rguard AssertionError (ssi = SUB_SLOT_ITERS_STARTING constants)) (\<lambda>_. Inr (0, False, False)))
            | Some p \<Rightarrow>
                rbind (uint32 (br_height p + 1)) (\<lambda>height.
                rbind (if n > 0 then
                         can_finish_sub_and_full_epoch constants blocks (br_height p) (Some (br_prev_hash p)) (br_deficit p)
                           (br_sub_epoch_summary_included p \<noteq> None)
                       else Inr (False, False)) (\<lambda>(se, ep). Inr (height, se, ep)))) (\<lambda>(height, se, ep).
     Inr (Inr \<lparr>hx_prev_b = prev_b, hx_height = height, hx_overflow = overflow, hx_skip_last = skip, hx_slots_since_prev = n,
               hx_can_finish_se = se, hx_can_finish_epoch = ep, hx_difficulty = difficulty, hx_sub_slot_iters = ssi,
               hx_skip_vdf = skip_vdf\<rparr>))))))"

section \<open>Check 2: the finished sub-slots\<close>

text \<open>2a to 2c: the challenge of a sub-slot is the hash of the sub-slot before it.\<close>

definition check_slot_challenge ::
  "header_lib \<Rightarrow> consensus_constants \<Rightarrow> block_cache \<Rightarrow> header_context \<Rightarrow> end_of_sub_slot_bundle list \<Rightarrow> nat \<Rightarrow> bytes
     \<Rightarrow> (err + unit) res" where
  "check_slot_challenge L constants blocks X slots n challenge_hash =
     rbind (if n = 0 then
              (case hx_prev_b X of
                 None \<Rightarrow> Inr (GENESIS_CHALLENGE constants)
               | Some p \<Rightarrow>
                   rbind (walk_back blocks (\<lambda>b. \<not> first_in_sub_slot b) p) (\<lambda>cur.
                   last_hash (br_finished_challenge_slot_hashes cur)))
            else cc_hash (hl_std_hash L) (slots ! (n - 1))) (\<lambda>expected.
     ereturn (expected \<noteq> challenge_hash) INVALID_PREV_CHALLENGE_SLOT_HASH)"

text \<open>
  The infused challenge chain that a sub-slot must carry, if any: its challenge, the iterations it commits to, the
  iterations of its proof and the start of the proof.
\<close>

definition icc_start ::
  "header_lib \<Rightarrow> consensus_constants \<Rightarrow> block_cache \<Rightarrow> block_record \<Rightarrow> end_of_sub_slot_bundle list \<Rightarrow> nat
     \<Rightarrow> (bytes \<times> int \<times> int \<times> bytes option) option res" where
  "icc_start L constants blocks p slots n =
     (if \<not> br_deficit p < MIN_BLOCKS_PER_CHALLENGE_BLOCK constants then Inr None
      else if n = 0 then
        rbind (walk_back blocks (\<lambda>b. \<not> is_challenge_block b constants \<and> \<not> first_in_sub_slot b) p) (\<lambda>cur.
        rbind (if is_challenge_block cur constants then
                 rbind (br_ip_iters cur constants) (\<lambda>ip.
                 rbind (uint64 (br_sub_slot_iters p - ip)) (\<lambda>c. Inr (br_challenge_block_info_hash cur, c)))
               else
                 rbind (last_hash (br_finished_infused_challenge_slot_hashes cur)) (\<lambda>h. Inr (h, br_sub_slot_iters p)))
          (\<lambda>(challenge, committed).
        rbind (br_ip_iters p constants) (\<lambda>ip.
        rbind (uint64 (br_sub_slot_iters p - ip)) (\<lambda>iters.
        Inr (Some (challenge, committed, iters,
                   if is_challenge_block p constants then Some default_element else br_infused_challenge_vdf_output p))))))
      else if rc_deficit (es_reward_chain (slots ! (n - 1))) < MIN_BLOCKS_PER_CHALLENGE_BLOCK constants then
        (case es_infused_challenge_chain (slots ! (n - 1)) of
           None \<Rightarrow> Inl AssertionError
         | Some i \<Rightarrow>
             rbind (icc_hash (hl_std_hash L) i) (\<lambda>h.
             Inr (Some (h, br_sub_slot_iters p, br_sub_slot_iters p, Some default_element))))
      else Inr None)"

text \<open>A VDF proof from \<open>input\<close> for \<open>partial\<close>, or, when normalised, from the default element for the whole \<open>info\<close>.\<close>

definition check_normalized ::
  "header_lib \<Rightarrow> consensus_constants \<Rightarrow> err \<Rightarrow> vdf_proof \<Rightarrow> bytes \<Rightarrow> vdf_info \<Rightarrow> vdf_info \<Rightarrow> (err + unit) res" where
  "check_normalized L constants e p input partial info =
     ebind (ereturn (\<not> vp_normalized_to_identity p \<and> \<not> vdf_is_valid L constants p input partial None) e) (\<lambda>_.
     ereturn (vp_normalized_to_identity p \<and> \<not> vdf_is_valid L constants p default_element info None) e)"

text \<open>2f to 2i: a sub-slot with an infused challenge chain.\<close>

definition check_icc_present ::
  "header_lib \<Rightarrow> consensus_constants \<Rightarrow> header_context \<Rightarrow> end_of_sub_slot_bundle \<Rightarrow> infused_challenge_chain_sub_slot
     \<Rightarrow> bytes \<times> int \<times> int \<times> bytes option \<Rightarrow> (err + unit) res" where
  "check_icc_present L constants X s i icc =
     (case icc of (challenge, committed, iters, input) \<Rightarrow>
      (case (input, sl_infused_challenge_chain_slot_proof (es_proofs s)) of
         (Some icc_vdf_input, Some p) \<Rightarrow>
           let vdf = icc_infused_challenge_chain_end_of_slot_vdf i;
               target = \<lparr>vi_challenge = challenge, vi_number_of_iterations = iters, vi_output = vi_output vdf\<rparr>
           in
           ebind (ereturn (vdf \<noteq> target\<lparr>vi_number_of_iterations := committed\<rparr>) INVALID_ICC_EOS_VDF) (\<lambda>_.
           ebind (if hx_skip_vdf X then Inr (Inr ())
                  else check_normalized L constants INVALID_ICC_EOS_VDF p icc_vdf_input target vdf) (\<lambda>_.
           rbind (icc_hash (hl_std_hash L) i) (\<lambda>h.
           ebind (ereturn (if rc_deficit (es_reward_chain s) = MIN_BLOCKS_PER_CHALLENGE_BLOCK constants
                           then cc_infused_challenge_chain_sub_slot_hash (es_challenge_chain s) \<noteq> Some h
                           else cc_infused_challenge_chain_sub_slot_hash (es_challenge_chain s) \<noteq> None) INVALID_ICC_HASH_CC) (\<lambda>_.
           ereturn (rc_infused_challenge_chain_sub_slot_hash (es_reward_chain s) \<noteq> Some h) INVALID_ICC_HASH_RC))))
       | _ \<Rightarrow> Inl AssertionError))"

text \<open>2d to 2k.\<close>

definition check_slot_icc ::
  "header_lib \<Rightarrow> consensus_constants \<Rightarrow> block_cache \<Rightarrow> header_context \<Rightarrow> end_of_sub_slot_bundle list \<Rightarrow> nat \<Rightarrow> end_of_sub_slot_bundle
     \<Rightarrow> (err + unit) res" where
  "check_slot_icc L constants blocks X slots n s =
     (case hx_prev_b X of
        None \<Rightarrow> ereturn (es_infused_challenge_chain s \<noteq> None) SHOULD_NOT_HAVE_ICC
      | Some p \<Rightarrow>
          rbind (icc_start L constants blocks p slots n) (\<lambda>icc.
          rbind (rguard AssertionError ((es_infused_challenge_chain s = None) = (icc = None))) (\<lambda>_.
          case (es_infused_challenge_chain s, icc) of
            (Some i, Some x) \<Rightarrow> check_icc_present L constants X s i x
          | _ \<Rightarrow>
              ebind (ereturn (cc_infused_challenge_chain_sub_slot_hash (es_challenge_chain s) \<noteq> None) INVALID_ICC_HASH_CC) (\<lambda>_.
              ereturn (rc_infused_challenge_chain_sub_slot_hash (es_reward_chain s) \<noteq> None) INVALID_ICC_HASH_RC))))"

text \<open>2l to 2o, with the summary hash seen so far.\<close>

definition check_slot_summary ::
  "header_lib \<Rightarrow> header_context \<Rightarrow> nat \<Rightarrow> end_of_sub_slot_bundle \<Rightarrow> bytes option \<Rightarrow> (err + bytes option) res" where
  "check_slot_summary L X n s ses_hash =
     (let cc = es_challenge_chain s; h = cc_subepoch_summary_hash cc;
          epoch = (hx_can_finish_epoch X \<and> h \<noteq> None) in
      rbind (rguard AssertionError (h \<noteq> None \<longrightarrow> ses_hash = None)) (\<lambda>_.
      ebind (ereturn (n \<noteq> 0 \<and> h \<noteq> None) INVALID_SUB_EPOCH_SUMMARY_HASH) (\<lambda>_.
      ebind (ereturn (cc_new_sub_slot_iters cc \<noteq> (if epoch then Some (hx_sub_slot_iters X) else None))
               INVALID_NEW_SUB_SLOT_ITERS) (\<lambda>_.
      ebind (ereturn (cc_new_difficulty cc \<noteq> (if epoch then Some (hx_difficulty X) else None)) INVALID_NEW_DIFFICULTY) (\<lambda>_.
      rbind (cc_hash (hl_std_hash L) s) (\<lambda>ch.
      ebind (ereturn (ch \<noteq> rc_challenge_chain_sub_slot_hash (es_reward_chain s)) INVALID_CHALLENGE_SLOT_HASH_RC) (\<lambda>_.
      Inr (Inr (if h \<noteq> None then h else ses_hash)))))))))"

text \<open>Where the VDFs of the end of a sub-slot start: the reward challenge, the challenge, the iterations and the input.\<close>

definition eos_start ::
  "header_lib \<Rightarrow> consensus_constants \<Rightarrow> header_context \<Rightarrow> end_of_sub_slot_bundle list \<Rightarrow> nat \<Rightarrow> bytes
     \<Rightarrow> (bytes \<times> bytes \<times> int \<times> bytes) res" where
  "eos_start L constants X slots n challenge_hash =
     (if n \<noteq> 0 then
        rbind (rc_hash (hl_std_hash L) (slots ! (n - 1))) (\<lambda>rc. Inr (rc, challenge_hash, hx_sub_slot_iters X, default_element))
      else
        (case hx_prev_b X of
           None \<Rightarrow> Inr (GENESIS_CHALLENGE constants, GENESIS_CHALLENGE constants, hx_sub_slot_iters X, default_element)
         | Some p \<Rightarrow>
             rbind (br_ip_iters p constants) (\<lambda>ip.
             rbind (uint64 (br_sub_slot_iters p - ip)) (\<lambda>iters.
             Inr (br_reward_infusion_new_challenge p, challenge_hash, iters, br_challenge_vdf_output p)))))"

text \<open>2p and 2q.\<close>

definition check_slot_vdfs ::
  "header_lib \<Rightarrow> consensus_constants \<Rightarrow> header_context \<Rightarrow> end_of_sub_slot_bundle list \<Rightarrow> nat \<Rightarrow> end_of_sub_slot_bundle \<Rightarrow> bytes
     \<Rightarrow> (err + unit) res" where
  "check_slot_vdfs L constants X slots n s challenge_hash =
     rbind (eos_start L constants X slots n challenge_hash) (\<lambda>(rc, cc, iters, cc_start).
     let rc_vdf = rc_end_of_slot_vdf (es_reward_chain s);
         cc_vdf = cc_challenge_chain_end_of_slot_vdf (es_challenge_chain s);
         target = \<lparr>vi_challenge = rc, vi_number_of_iterations = iters, vi_output = vi_output rc_vdf\<rparr>;
         partial = \<lparr>vi_challenge = cc, vi_number_of_iterations = iters, vi_output = vi_output cc_vdf\<rparr>;
         info_iters = (case hx_prev_b X of
                         None \<Rightarrow> SUB_SLOT_ITERS_STARTING constants
                       | Some p \<Rightarrow> if n = 0 then br_sub_slot_iters p else hx_sub_slot_iters X)
     in
     ebind (ereturn (\<not> hx_skip_vdf X \<and>
                     \<not> vdf_is_valid L constants (sl_reward_chain_slot_proof (es_proofs s)) default_element rc_vdf (Some target))
              INVALID_RC_EOS_VDF) (\<lambda>_.
     ebind (ereturn (cc_vdf \<noteq> partial\<lparr>vi_number_of_iterations := info_iters\<rparr>) INVALID_CC_EOS_VDF) (\<lambda>_.
     if hx_skip_vdf X then Inr (Inr ())
     else check_normalized L constants INVALID_CC_EOS_VDF (sl_challenge_chain_slot_proof (es_proofs s)) cc_start partial cc_vdf)))"

text \<open>2r to 2t.\<close>

definition slot_deficit :: "consensus_constants \<Rightarrow> header_context \<Rightarrow> int" where
  "slot_deficit constants X =
     (case hx_prev_b X of
        None \<Rightarrow> MIN_BLOCKS_PER_CHALLENGE_BLOCK constants
      | Some p \<Rightarrow> if br_deficit p = 0 then MIN_BLOCKS_PER_CHALLENGE_BLOCK constants else br_deficit p)"

definition check_sub_slot ::
  "header_lib \<Rightarrow> consensus_constants \<Rightarrow> block_cache \<Rightarrow> header_context \<Rightarrow> end_of_sub_slot_bundle list \<Rightarrow> nat \<Rightarrow> bytes option
     \<Rightarrow> (err + bytes option) res" where
  "check_sub_slot L constants blocks X slots n ses_hash =
     (let s = slots ! n; challenge_hash = vi_challenge (cc_challenge_chain_end_of_slot_vdf (es_challenge_chain s)) in
      ebind (check_slot_challenge L constants blocks X slots n challenge_hash) (\<lambda>_.
      ebind (check_slot_icc L constants blocks X slots n s) (\<lambda>_.
      ebind (check_slot_summary L X n s ses_hash) (\<lambda>ses'.
      ebind (check_slot_vdfs L constants X slots n s challenge_hash) (\<lambda>_.
      ebind (ereturn (rc_deficit (es_reward_chain s) \<noteq> slot_deficit constants X) INVALID_DEFICIT) (\<lambda>_.
      Inr (Inr ses')))))))"

fun check_sub_slots ::
  "header_lib \<Rightarrow> consensus_constants \<Rightarrow> block_cache \<Rightarrow> header_context \<Rightarrow> end_of_sub_slot_bundle list \<Rightarrow> nat list \<Rightarrow> bytes option
     \<Rightarrow> (err + bytes option) res" where
  "check_sub_slots L constants blocks X slots [] ses_hash = Inr (Inr ses_hash)"
| "check_sub_slots L constants blocks X slots (n # ns) ses_hash =
     ebind (check_sub_slot L constants blocks X slots n ses_hash) (\<lambda>ses'. check_sub_slots L constants blocks X slots ns ses')"

section \<open>Checks 3 and 4\<close>

definition check_summary ::
  "header_lib \<Rightarrow> consensus_constants \<Rightarrow> block_cache \<Rightarrow> header_context \<Rightarrow> bool \<Rightarrow> bytes option \<Rightarrow> (err + unit) res" where
  "check_summary L constants blocks X check_sub_epoch_summary ses_hash =
     (case (ses_hash, hx_prev_b X) of
        (Some h, None) \<Rightarrow> Inr (Inl INVALID_SUB_EPOCH_SUMMARY_HASH)
      | (Some h, Some p) \<Rightarrow>
          ebind (ereturn (\<not> hx_new_sub_slot X \<or> \<not> hx_can_finish_se X) INVALID_SUB_EPOCH_SUMMARY_HASH) (\<lambda>_.
          if \<not> check_sub_epoch_summary then Inr (Inr ())
          else
            rbind (block_record blocks (br_prev_hash p)) (\<lambda>pp.
            rbind (make_sub_epoch_summary (hl_std_hash L) constants blocks (hx_height X) pp
                     (if hx_can_finish_epoch X then Some (hx_difficulty X) else None)
                     (if hx_can_finish_epoch X then Some (hx_sub_slot_iters X) else None)) (\<lambda>ses.
            rbind (ses_get_hash (hl_std_hash L) ses) (\<lambda>expected.
            ereturn (expected \<noteq> h) INVALID_SUB_EPOCH_SUMMARY))))
      | (None, None) \<Rightarrow> Inr (Inr ())
      | (None, Some p) \<Rightarrow>
          ereturn (hx_new_sub_slot X \<and> (hx_can_finish_se X \<or> hx_can_finish_epoch X)) INVALID_SUB_EPOCH_SUMMARY)"

definition check_slots_and_summary ::
  "header_lib \<Rightarrow> consensus_constants \<Rightarrow> block_cache \<Rightarrow> header_context \<Rightarrow> bool \<Rightarrow> end_of_sub_slot_bundle list \<Rightarrow> (err + unit) res" where
  "check_slots_and_summary L constants blocks X check_sub_epoch_summary slots =
     (if hx_new_sub_slot X \<and> \<not> hx_skip_last X then
        ebind (check_sub_slots L constants blocks X slots [0..<length slots] None) (check_summary L constants blocks X check_sub_epoch_summary)
      else Inr (Inr ()))"

text \<open>\<open>num_blocks\<close> counts this block, its parent and the blocks back to the first of the sub-slot.\<close>

definition count_sub_slot_blocks :: "block_cache \<Rightarrow> block_record \<Rightarrow> int res" where
  "count_sub_slot_blocks blocks p =
     rbind (loop_while (\<lambda>(_, cur). \<not> first_in_sub_slot cur)
              (\<lambda>(k, cur). rbind (prev_block blocks cur) (\<lambda>cur'. Inr (k + 1, cur'))) (2, p)) (\<lambda>(k, _). Inr k)"

definition check_block_count ::
  "consensus_constants \<Rightarrow> block_cache \<Rightarrow> header_context \<Rightarrow> (err + unit) res" where
  "check_block_count constants blocks X =
     (case hx_prev_b X of
        None \<Rightarrow> Inr (Inr ())
      | Some p \<Rightarrow>
          if hx_new_sub_slot X then Inr (Inr ())
          else rbind (count_sub_slot_blocks blocks p) (\<lambda>num_blocks.
               ereturn (num_blocks > MAX_SUB_SLOT_BLOCKS constants) TOO_MANY_BLOCKS))"

section \<open>Checks 5 to 10: the proof of space and the iterations\<close>

text \<open>\<open>vdf.output.get_hash()\<close>.\<close>

definition output_hash :: "header_lib \<Rightarrow> vdf_info \<Rightarrow> bytes res" where
  "output_hash L v = streamable_get_hash (hl_std_hash L) classgroup_fields (VObj [VBytes (vi_output v)])"

text \<open>Check 5: the challenge, the hash of the challenge chain at the signage point and the quality string.\<close>

definition check_pospace ::
  "header_lib \<Rightarrow> consensus_constants \<Rightarrow> block_cache \<Rightarrow> header_context \<Rightarrow> unfinished_header_block
     \<Rightarrow> (err + bytes \<times> bytes) res" where
  "check_pospace L constants blocks X b =
     (let rcb = uh_reward_chain_block b in
      rbind (view_of_header (hl_std_hash L) b) (\<lambda>v.
      rbind (get_block_challenge constants v blocks (hx_genesis X) (hx_overflow X) (hx_skip_last X)) (\<lambda>challenge.
      ebind (ereturn (challenge \<noteq> ru_pos_ss_cc_challenge_hash rcb) INVALID_CC_CHALLENGE) (\<lambda>_.
      rbind (case ru_challenge_chain_sp_vdf rcb of None \<Rightarrow> Inr challenge | Some v \<Rightarrow> output_hash L v) (\<lambda>cc_sp_hash.
      rbind (verify_and_get_quality_string L constants (ru_proof_of_space rcb) challenge cc_sp_hash) (\<lambda>q.
      case q of
        None \<Rightarrow> Inr (Inl INVALID_POSPACE)
      | Some q_str \<Rightarrow> Inr (Inr (cc_sp_hash, q_str))))))))"

text \<open>The iterations of a header: those the proof of space needs, and those of its signage and infusion points in the sub-slot.\<close>

record header_iters =
  hi_required_iters :: int
  hi_sp_iters :: int
  hi_ip_iters :: int

text \<open>Checks 6 to 9.\<close>

definition check_iters ::
  "header_lib \<Rightarrow> consensus_constants \<Rightarrow> header_context \<Rightarrow> reward_chain_block_unfinished \<Rightarrow> bytes \<Rightarrow> bytes
     \<Rightarrow> (err + header_iters) res" where
  "check_iters L constants X rcb cc_sp_hash q_str =
     (let index = ru_signage_point_index rcb; ssi = hx_sub_slot_iters X in
      ebind (ereturn (index \<ge> NUM_SPS_SUB_SLOT constants) INVALID_SP_INDEX) (\<lambda>_.
      rbind (calculate_iterations_quality (hl_std_hash L) (DIFFICULTY_CONSTANT_FACTOR constants) q_str
               (pos_size (ru_proof_of_space rcb)) (hx_difficulty X) cc_sp_hash) (\<lambda>required_iters.
      rbind (calculate_sp_interval_iters constants ssi) (\<lambda>sp_interval_iters.
      ebind (ereturn (required_iters \<ge> sp_interval_iters) INVALID_REQUIRED_ITERS) (\<lambda>_.
      ebind (ereturn ((index = 0) \<noteq> (ru_challenge_chain_sp_vdf rcb = None)) INVALID_SP_INDEX) (\<lambda>_.
      ebind (ereturn ((index = 0) \<noteq> (ru_reward_chain_sp_vdf rcb = None)) INVALID_SP_INDEX) (\<lambda>_.
      rbind (calculate_sp_iters constants ssi index) (\<lambda>sp_iters.
      rbind (calculate_ip_iters constants ssi index required_iters) (\<lambda>ip_iters.
      rbind (rguard AssertionError (ru_challenge_chain_sp_vdf rcb = None \<longrightarrow> \<not> hx_overflow X)) (\<lambda>_.
      ebind (ereturn (hx_overflow X \<and> hx_can_finish_epoch X \<and> hx_slots_since_prev X < 2)
               NO_OVERFLOWS_IN_FIRST_SUB_SLOT_NEW_EPOCH) (\<lambda>_.
      Inr (Inr \<lparr>hi_required_iters = required_iters, hi_sp_iters = sp_iters, hi_ip_iters = ip_iters\<rparr>))))))))))))"

text \<open>The iterations from the start of the chain to the start of the sub-slot of the infusion point.\<close>

definition slot_start_iters :: "consensus_constants \<Rightarrow> header_context \<Rightarrow> int res" where
  "slot_start_iters constants X =
     (case hx_prev_b X of
        None \<Rightarrow> uint128 (hx_sub_slot_iters X * hx_slots_since_prev X)
      | Some p \<Rightarrow>
          rbind (br_ip_iters p constants) (\<lambda>ip.
          if hx_new_sub_slot X then
            rbind (uint128 (br_total_iters p + br_sub_slot_iters p - ip)) (\<lambda>t.
            uint128 (t + hx_sub_slot_iters X * (hx_slots_since_prev X - 1)))
          else uint128 (br_total_iters p - ip)))"

text \<open>Check 10; the result is the total number of iterations at the signage point.\<close>

definition check_total_iters ::
  "consensus_constants \<Rightarrow> header_context \<Rightarrow> reward_chain_block_unfinished \<Rightarrow> header_iters \<Rightarrow> (err + int) res" where
  "check_total_iters constants X rcb i =
     rbind (slot_start_iters constants X) (\<lambda>start.
     rbind (uint128 (start + hi_ip_iters i)) (\<lambda>total_iters.
     ebind (ereturn (total_iters \<noteq> ru_total_iters rcb) INVALID_TOTAL_ITERS) (\<lambda>_.
     rbind (uint128 (total_iters - hi_ip_iters i + hi_sp_iters i - (if hx_overflow X then hx_sub_slot_iters X else 0)))
       (\<lambda>sp_total. Inr (Inr sp_total)))))"

section \<open>Checks 11 to 14: the signage point\<close>

definition dummy_sub_slot :: end_of_sub_slot_bundle where
  "dummy_sub_slot =
     (let vdf = \<lparr>vi_challenge = replicate 32 0, vi_number_of_iterations = 1, vi_output = default_element\<rparr>;
          p = \<lparr>vp_witness_type = 0, vp_witness = [], vp_normalized_to_identity = False\<rparr>
      in \<lparr>es_challenge_chain = \<lparr>cc_challenge_chain_end_of_slot_vdf = vdf, cc_infused_challenge_chain_sub_slot_hash = None,
                               cc_subepoch_summary_hash = None, cc_new_sub_slot_iters = None, cc_new_difficulty = None\<rparr>,
          es_infused_challenge_chain = None,
          es_reward_chain = \<lparr>rc_end_of_slot_vdf = vdf, rc_challenge_chain_sub_slot_hash = replicate 32 0,
                            rc_infused_challenge_chain_sub_slot_hash = None, rc_deficit = 0\<rparr>,
          es_proofs = \<lparr>sl_challenge_chain_slot_proof = p, sl_infused_challenge_chain_slot_proof = None,
                      sl_reward_chain_slot_proof = p\<rparr>\<rparr>)"

definition slots_to_pass_in :: "header_context \<Rightarrow> unfinished_header_block \<Rightarrow> end_of_sub_slot_bundle list" where
  "slots_to_pass_in X b =
     (if hx_overflow X \<and> hx_skip_last X then uh_finished_sub_slots b @ [dummy_sub_slot] else uh_finished_sub_slots b)"

text \<open>Check 11; the result is the hash that the reward chain signature signs.\<close>

definition check_rc_sp ::
  "header_lib \<Rightarrow> consensus_constants \<Rightarrow> block_cache \<Rightarrow> header_context \<Rightarrow> unfinished_header_block \<Rightarrow> int \<Rightarrow> sp_vdf_info
     \<Rightarrow> (err + bytes) res" where
  "check_rc_sp L constants blocks X b sp_iters i =
     (if sp_iters \<noteq> 0 then
        (case (ru_reward_chain_sp_vdf (uh_reward_chain_block b), uh_reward_chain_sp_proof b) of
           (Some vdf, Some p) \<Rightarrow>
             let target = \<lparr>vi_challenge = sp_rc_challenge i, vi_number_of_iterations = sp_rc_iters i, vi_output = vi_output vdf\<rparr> in
             ebind (ereturn (\<not> hx_skip_vdf X \<and> \<not> vdf_is_valid L constants p (sp_rc_input i) vdf (Some target)) INVALID_RC_SP_VDF) (\<lambda>_.
             rbind (output_hash L vdf) (\<lambda>h. Inr (Inr h)))
         | _ \<Rightarrow> Inl AssertionError)
      else
        ebind (ereturn (ru_reward_chain_sp_vdf (uh_reward_chain_block b) \<noteq> None) INVALID_RC_SP_VDF) (\<lambda>_.
        rbind (if hx_new_sub_slot X then
                 rbind (py_index (uh_finished_sub_slots b) (-1)) (rc_hash (hl_std_hash L))
               else
                 (case hx_prev_b X of
                    None \<Rightarrow> Inr (GENESIS_CHALLENGE constants)
                  | Some p \<Rightarrow>
                      rbind (walk_back blocks (\<lambda>b. \<not> first_in_sub_slot b) p) (\<lambda>cur.
                      last_hash (br_finished_reward_slot_hashes cur)))) (\<lambda>h. Inr (Inr h))))"

definition check_signature :: "header_lib \<Rightarrow> err \<Rightarrow> bytes \<Rightarrow> bytes \<Rightarrow> bytes option \<Rightarrow> (err + unit) res" where
  "check_signature L e pk msg sig = rbind (hl_aug_verify L pk msg sig) (\<lambda>ok. ereturn (\<not> ok) e)"

text \<open>Check 13.\<close>

definition check_cc_sp ::
  "header_lib \<Rightarrow> consensus_constants \<Rightarrow> header_context \<Rightarrow> unfinished_header_block \<Rightarrow> int \<Rightarrow> sp_vdf_info \<Rightarrow> (err + unit) res" where
  "check_cc_sp L constants X b sp_iters i =
     (if sp_iters \<noteq> 0 then
        (case (ru_challenge_chain_sp_vdf (uh_reward_chain_block b), uh_challenge_chain_sp_proof b) of
           (Some vdf, Some p) \<Rightarrow>
             let target = \<lparr>vi_challenge = sp_cc_challenge i, vi_number_of_iterations = sp_cc_iters i, vi_output = vi_output vdf\<rparr> in
             ebind (ereturn (vdf \<noteq> target\<lparr>vi_number_of_iterations := sp_iters\<rparr>) INVALID_CC_SP_VDF) (\<lambda>_.
             if hx_skip_vdf X then Inr (Inr ())
             else check_normalized L constants INVALID_CC_SP_VDF p (sp_cc_input i) target vdf)
         | _ \<Rightarrow> Inl AssertionError)
      else ereturn (ru_challenge_chain_sp_vdf (uh_reward_chain_block b) \<noteq> None) INVALID_CC_SP_VDF)"

text \<open>Checks 11 to 14.\<close>

definition check_signage_point ::
  "header_lib \<Rightarrow> consensus_constants \<Rightarrow> block_cache \<Rightarrow> header_context \<Rightarrow> unfinished_header_block \<Rightarrow> bytes \<Rightarrow> int \<Rightarrow> int
     \<Rightarrow> (err + unit) res" where
  "check_signage_point L constants blocks X b cc_sp_hash sp_total sp_iters =
     (let rcb = uh_reward_chain_block b; pk = pos_plot_public_key (ru_proof_of_space rcb) in
      rbind (get_signage_point_vdf_info L constants (slots_to_pass_in X b) (hx_overflow X) (hx_prev_b X) blocks sp_total sp_iters) (\<lambda>i.
      ebind (check_rc_sp L constants blocks X b sp_iters i) (\<lambda>rc_sp_hash.
      ebind (check_signature L INVALID_RC_SIGNATURE pk rc_sp_hash (Some (ru_reward_chain_sp_signature rcb))) (\<lambda>_.
      ebind (check_cc_sp L constants X b sp_iters i) (\<lambda>_.
      check_signature L INVALID_CC_SIGNATURE pk cc_sp_hash (Some (ru_challenge_chain_sp_signature rcb)))))))"

section \<open>Checks 15 to 26: the foliage\<close>

text \<open>\<open>while not curr.is_transaction_block: curr = blocks.block_record(curr.prev_hash)\<close>.\<close>

definition last_tx_block :: "block_cache \<Rightarrow> block_record \<Rightarrow> block_record res" where
  "last_tx_block blocks p = walk_back blocks (\<lambda>b. \<not> is_transaction_block b) p"

text \<open>Check 15: the first block whose signage point comes after the infusion of the last transaction block is one.\<close>

definition check_is_tx_block ::
  "block_cache \<Rightarrow> header_context \<Rightarrow> unfinished_header_block \<Rightarrow> header_iters \<Rightarrow> (err + unit) res" where
  "check_is_tx_block blocks X b i =
     (case hx_prev_b X of
        None \<Rightarrow> ereturn (fo_foliage_transaction_block_hash (uh_foliage b) = None) INVALID_IS_TRANSACTION_BLOCK
      | Some p \<Rightarrow>
          rbind (last_tx_block blocks p) (\<lambda>cur.
          rbind (uint128 (uh_total_iters b - hi_ip_iters i + hi_sp_iters i - (if hx_overflow X then hx_sub_slot_iters X else 0)))
            (\<lambda>our_sp.
          ebind (ereturn ((our_sp > br_total_iters cur) \<noteq> (fo_foliage_transaction_block_hash (uh_foliage b) \<noteq> None))
                   INVALID_IS_TRANSACTION_BLOCK) (\<lambda>_.
          ereturn ((our_sp > br_total_iters cur) \<noteq> (fo_foliage_transaction_block_signature (uh_foliage b) \<noteq> None))
            INVALID_IS_TRANSACTION_BLOCK))))"

text \<open>Checks 16 to 18.\<close>

definition check_foliage_signatures :: "header_lib \<Rightarrow> unfinished_header_block \<Rightarrow> (err + unit) res" where
  "check_foliage_signatures L b =
     (let rcb = uh_reward_chain_block b; f = uh_foliage b; pk = pos_plot_public_key (ru_proof_of_space rcb) in
      rbind (streamable_get_hash (hl_std_hash L) foliage_block_data_fields (foliage_block_data_val (fo_foliage_block_data f))) (\<lambda>data_hash.
      ebind (check_signature L INVALID_PLOT_SIGNATURE pk data_hash (Some (fo_foliage_block_data_signature f))) (\<lambda>_.
      ebind (case fo_foliage_transaction_block_hash f of
               None \<Rightarrow> Inr (Inr ())
             | Some h \<Rightarrow> check_signature L INVALID_PLOT_SIGNATURE pk h (fo_foliage_transaction_block_signature f)) (\<lambda>_.
      rbind (streamable_get_hash (hl_std_hash L) reward_chain_block_unfinished_fields (reward_chain_block_unfinished_val rcb)) (\<lambda>rcb_hash.
      ereturn (rcb_hash \<noteq> fd_unfinished_reward_block_hash (fo_foliage_block_data f)) INVALID_URSB_HASH)))))"

text \<open>Checks 19 and 20.\<close>

definition check_pool ::
  "header_lib \<Rightarrow> consensus_constants \<Rightarrow> header_context \<Rightarrow> foliage_block_data \<Rightarrow> proof_of_space \<Rightarrow> (err + unit) res" where
  "check_pool L constants X d p =
     (let target = fd_pool_target d in
      ebind (ereturn (pt_max_height target \<noteq> 0 \<and> pt_max_height target < hx_height X) OLD_POOL_TARGET) (\<lambda>_.
      if hx_genesis X then
        ebind (ereturn (pt_puzzle_hash target \<noteq> GENESIS_PRE_FARM_POOL_PUZZLE_HASH constants) INVALID_PREFARM) (\<lambda>_.
        ereturn (fd_farmer_reward_puzzle_hash d \<noteq> GENESIS_PRE_FARM_FARMER_PUZZLE_HASH constants) INVALID_PREFARM)
      else
        (case pos_pool_public_key p of
           Some pk \<Rightarrow>
             rbind (rguard AssertionError (pos_pool_contract_puzzle_hash p = None)) (\<lambda>_.
             rbind (streamable_bytes pool_target_fields (pool_target_val target)) (\<lambda>msg.
             check_signature L INVALID_POOL_SIGNATURE pk msg (fd_pool_signature d)))
         | None \<Rightarrow>
             (case pos_pool_contract_puzzle_hash p of
                None \<Rightarrow> Inl AssertionError
              | Some ph \<Rightarrow> ereturn (pt_puzzle_hash target \<noteq> ph) INVALID_POOL_TARGET))))"

text \<open>Checks 24 and 26b.\<close>

definition check_prev_tx_hash ::
  "consensus_constants \<Rightarrow> block_cache \<Rightarrow> header_context \<Rightarrow> foliage_transaction_block \<Rightarrow> (err + unit) res" where
  "check_prev_tx_hash constants blocks X f =
     (case hx_prev_b X of
        None \<Rightarrow> ereturn (ft_prev_transaction_block_hash f \<noteq> GENESIS_CHALLENGE constants) INVALID_PREV_BLOCK_HASH
      | Some p \<Rightarrow>
          rbind (last_tx_block blocks p) (\<lambda>cur.
          ereturn (ft_prev_transaction_block_hash f \<noteq> br_header_hash cur) INVALID_PREV_BLOCK_HASH))"

definition check_timestamp ::
  "header_lib \<Rightarrow> consensus_constants \<Rightarrow> block_cache \<Rightarrow> header_context \<Rightarrow> foliage_transaction_block \<Rightarrow> (err + unit) res" where
  "check_timestamp L constants blocks X f =
     ebind (ereturn (ft_timestamp f > hl_time_plus L (MAX_FUTURE_TIME constants)) TIMESTAMP_TOO_FAR_IN_FUTURE) (\<lambda>_.
     if hx_genesis X then Inr (Inr ())
     else
       rbind (block_record blocks (ft_prev_transaction_block_hash f)) (\<lambda>r.
       case br_timestamp r of
         None \<Rightarrow> Inl AssertionError
       | Some t \<Rightarrow> ereturn (ft_timestamp f \<le> t) TIMESTAMP_TOO_FAR_IN_PAST))"

text \<open>Checks 22 to 26.\<close>

definition check_foliage_block ::
  "header_lib \<Rightarrow> consensus_constants \<Rightarrow> block_cache \<Rightarrow> header_context \<Rightarrow> bool \<Rightarrow> unfinished_header_block \<Rightarrow> (err + unit) res" where
  "check_foliage_block L constants blocks X check_filter b =
     (let f = uh_foliage b; ftb = uh_foliage_transaction_block b in
      ebind (ereturn ((fo_foliage_transaction_block_hash f \<noteq> None) \<noteq> (ftb \<noteq> None)) INVALID_FOLIAGE_BLOCK_PRESENCE) (\<lambda>_.
      ebind (ereturn ((fo_foliage_transaction_block_signature f \<noteq> None) \<noteq> (ftb \<noteq> None)) INVALID_FOLIAGE_BLOCK_PRESENCE) (\<lambda>_.
      case ftb of
        None \<Rightarrow> Inr (Inr ())
      | Some t \<Rightarrow>
          rbind (streamable_get_hash (hl_std_hash L) foliage_transaction_block_fields (foliage_transaction_block_val t)) (\<lambda>h.
          ebind (ereturn (Some h \<noteq> fo_foliage_transaction_block_hash f) INVALID_FOLIAGE_BLOCK_HASH) (\<lambda>_.
          ebind (check_prev_tx_hash constants blocks X t) (\<lambda>_.
          ebind (ereturn (check_filter \<and> ft_filter_hash t \<noteq> hl_std_hash L (uh_transactions_filter b))
                   INVALID_TRANSACTIONS_FILTER_HASH) (\<lambda>_.
          check_timestamp L constants blocks X t)))))))"

section \<open>\<open>validate_unfinished_header_block\<close>\<close>

definition validate_unfinished_header_block ::
  "header_lib \<Rightarrow> consensus_constants \<Rightarrow> block_cache \<Rightarrow> unfinished_header_block \<Rightarrow> bool \<Rightarrow> int \<Rightarrow> int \<Rightarrow> bool \<Rightarrow> bool \<Rightarrow> bool
     \<Rightarrow> (err + int) res" where
  "validate_unfinished_header_block L constants blocks b check_filter expected_difficulty expected_sub_slot_iters
       skip_overflow_last_ss_validation skip_vdf_is_valid check_sub_epoch_summary =
     ebind (header_context_of L constants blocks b expected_difficulty expected_sub_slot_iters
              skip_overflow_last_ss_validation skip_vdf_is_valid) (\<lambda>X.
     ebind (check_slots_and_summary L constants blocks X check_sub_epoch_summary (uh_finished_sub_slots b)) (\<lambda>_.
     ebind (check_block_count constants blocks X) (\<lambda>_.
     ebind (check_pospace L constants blocks X b) (\<lambda>(cc_sp_hash, q_str).
     ebind (check_iters L constants X (uh_reward_chain_block b) cc_sp_hash q_str) (\<lambda>i.
     ebind (check_total_iters constants X (uh_reward_chain_block b) i) (\<lambda>sp_total.
     ebind (check_signage_point L constants blocks X b cc_sp_hash sp_total (hi_sp_iters i)) (\<lambda>_.
     ebind (check_is_tx_block blocks X b i) (\<lambda>_.
     ebind (check_foliage_signatures L b) (\<lambda>_.
     ebind (check_pool L constants X (fo_foliage_block_data (uh_foliage b)) (ru_proof_of_space (uh_reward_chain_block b))) (\<lambda>_.
     ebind (check_foliage_block L constants blocks X check_filter b) (\<lambda>_.
     Inr (Inr (hi_required_iters i)))))))))))))"

section \<open>\<open>validate_finished_header_block\<close>\<close>

definition unfinished_of_header :: "header_block \<Rightarrow> unfinished_header_block" where
  "unfinished_of_header b =
     \<lparr>uh_finished_sub_slots = hb_finished_sub_slots b, uh_reward_chain_block = get_unfinished (hb_reward_chain_block b),
      uh_challenge_chain_sp_proof = hb_challenge_chain_sp_proof b, uh_reward_chain_sp_proof = hb_reward_chain_sp_proof b,
      uh_foliage = hb_foliage b, uh_foliage_transaction_block = hb_foliage_transaction_block b,
      uh_transactions_filter = hb_transactions_filter b\<rparr>"

text \<open>Checks 27, 28 and 20A, or 27b for a block of height 0.\<close>

definition check_height_weight ::
  "consensus_constants \<Rightarrow> block_record option \<Rightarrow> header_block \<Rightarrow> int \<Rightarrow> (err + unit) res" where
  "check_height_weight constants prev_b b expected_difficulty =
     (case prev_b of
        Some p \<Rightarrow>
          ebind (ereturn (hb_height b \<noteq> br_height p + 1) INVALID_HEIGHT) (\<lambda>_.
          ebind (ereturn (hb_weight b \<noteq> br_weight p + expected_difficulty) INVALID_WEIGHT) (\<lambda>_.
          ereturn (fd_community_reward_puzzle_hash (fo_foliage_block_data (hb_foliage b))
                     \<noteq> community_puzzle_hash_at constants (hb_height b)) INVALID_COMMUNITY))
      | None \<Rightarrow>
          ebind (ereturn (hb_height b \<noteq> 0) INVALID_HEIGHT) (\<lambda>_.
          ebind (ereturn (hb_weight b \<noteq> DIFFICULTY_STARTING constants) INVALID_WEIGHT) (\<lambda>_.
          ereturn (hb_prev_header_hash b \<noteq> GENESIS_CHALLENGE constants) INVALID_PREV_BLOCK_HASH)))"

text \<open>Where the VDFs of the infusion point start: the reward challenge, the challenge, the iterations and the input.\<close>

definition ip_start ::
  "header_lib \<Rightarrow> consensus_constants \<Rightarrow> block_cache \<Rightarrow> block_record option \<Rightarrow> header_block \<Rightarrow> int
     \<Rightarrow> (bytes \<times> bytes \<times> int \<times> bytes) res" where
  "ip_start L constants blocks prev_b b ip_iters =
     (if hb_first_in_sub_slot b then
        rbind (rc_hash (hl_std_hash L) (last (hb_finished_sub_slots b))) (\<lambda>rc.
        rbind (cc_hash (hl_std_hash L) (last (hb_finished_sub_slots b))) (\<lambda>cc. Inr (rc, cc, ip_iters, default_element)))
      else
        (case prev_b of
           None \<Rightarrow> Inr (GENESIS_CHALLENGE constants, GENESIS_CHALLENGE constants, ip_iters, default_element)
         | Some p \<Rightarrow>
             rbind (uint64 (hb_total_iters b - br_total_iters p)) (\<lambda>iters.
             rbind (walk_back blocks (\<lambda>r. br_finished_challenge_slot_hashes r = None) p) (\<lambda>cur.
             rbind (last_hash (br_finished_challenge_slot_hashes cur)) (\<lambda>cc.
             Inr (br_reward_infusion_new_challenge p, cc, iters, br_challenge_vdf_output p))))))"

text \<open>Checks 29 and 30.\<close>

definition check_ip_vdfs ::
  "header_lib \<Rightarrow> consensus_constants \<Rightarrow> header_block \<Rightarrow> bytes \<times> bytes \<times> int \<times> bytes \<Rightarrow> int \<Rightarrow> (err + unit) res" where
  "check_ip_vdfs L constants b start ip_iters =
     (case start of (rc, cc, ip_vdf_iters, cc_input) \<Rightarrow>
      let cc_vdf = rb_challenge_chain_ip_vdf (hb_reward_chain_block b);
          rc_vdf = rb_reward_chain_ip_vdf (hb_reward_chain_block b);
          cc_target = \<lparr>vi_challenge = cc, vi_number_of_iterations = ip_vdf_iters, vi_output = vi_output cc_vdf\<rparr>;
          rc_target = \<lparr>vi_challenge = rc, vi_number_of_iterations = ip_vdf_iters, vi_output = vi_output rc_vdf\<rparr>
      in
      ebind (ereturn (cc_vdf \<noteq> cc_target\<lparr>vi_number_of_iterations := ip_iters\<rparr>) INVALID_CC_IP_VDF) (\<lambda>_.
      ebind (check_normalized L constants INVALID_CC_IP_VDF (hb_challenge_chain_ip_proof b) cc_input cc_target cc_vdf) (\<lambda>_.
      ereturn (\<not> vdf_is_valid L constants (hb_reward_chain_ip_proof b) default_element rc_vdf (Some rc_target)) INVALID_RC_IP_VDF)))"

text \<open>Where the VDF of the infused challenge chain starts: its challenge and its input.\<close>

definition icc_ip_start ::
  "header_lib \<Rightarrow> consensus_constants \<Rightarrow> block_cache \<Rightarrow> block_record \<Rightarrow> header_block \<Rightarrow> (bytes \<times> bytes option) res" where
  "icc_ip_start L constants blocks p b =
     (if hb_first_in_sub_slot b then
        (case es_infused_challenge_chain (last (hb_finished_sub_slots b)) of
           None \<Rightarrow> Inl AssertionError
         | Some i \<Rightarrow> rbind (icc_hash (hl_std_hash L) i) (\<lambda>h. Inr (h, Some default_element)))
      else
        rbind (walk_back blocks (\<lambda>r. br_finished_infused_challenge_slot_hashes r = None \<and> \<not> is_challenge_block r constants) p) (\<lambda>cur.
        rbind (if is_challenge_block cur constants then Inr (br_challenge_block_info_hash cur)
               else last_hash (br_finished_infused_challenge_slot_hashes cur)) (\<lambda>h.
        Inr (h, if is_challenge_block p constants then Some default_element else br_infused_challenge_vdf_output p))))"

text \<open>Check 31.\<close>

definition check_icc_ip ::
  "header_lib \<Rightarrow> consensus_constants \<Rightarrow> block_cache \<Rightarrow> block_record option \<Rightarrow> header_block \<Rightarrow> int \<Rightarrow> (err + unit) res" where
  "check_icc_ip L constants blocks prev_b b ip_vdf_iters =
     (case prev_b of
        None \<Rightarrow> ereturn (hb_infused_challenge_chain_ip_proof b \<noteq> None) INVALID_ICC_VDF
      | Some p \<Rightarrow>
          rbind (is_overflow_block constants (rb_signage_point_index (hb_reward_chain_block b))) (\<lambda>overflow.
          rbind (calculate_deficit constants (hb_height b) (Some (br_deficit p)) overflow
                   (int (length (hb_finished_sub_slots b)))) (\<lambda>deficit.
          case rb_infused_challenge_chain_ip_vdf (hb_reward_chain_block b) of
            None \<Rightarrow> ereturn (deficit < MIN_BLOCKS_PER_CHALLENGE_BLOCK constants - 1) INVALID_ICC_VDF
          | Some vdf \<Rightarrow>
              (case hb_infused_challenge_chain_ip_proof b of
                 None \<Rightarrow> Inl AssertionError
               | Some pr \<Rightarrow>
                   ebind (ereturn (deficit \<ge> MIN_BLOCKS_PER_CHALLENGE_BLOCK constants - 1) INVALID_ICC_VDF) (\<lambda>_.
                   rbind (icc_ip_start L constants blocks p b) (\<lambda>(challenge, input).
                   let target = \<lparr>vi_challenge = challenge, vi_number_of_iterations = ip_vdf_iters, vi_output = vi_output vdf\<rparr> in
                   case input of
                     None \<Rightarrow> Inr (Inl INVALID_ICC_VDF)
                   | Some inp \<Rightarrow> ereturn (\<not> vdf_is_valid L constants pr inp vdf (Some target)) INVALID_ICC_VDF))))))"

definition validate_finished_header_block ::
  "header_lib \<Rightarrow> consensus_constants \<Rightarrow> block_cache \<Rightarrow> header_block \<Rightarrow> bool \<Rightarrow> int \<Rightarrow> int \<Rightarrow> bool \<Rightarrow> (err + int) res" where
  "validate_finished_header_block L constants blocks b check_filter expected_difficulty expected_sub_slot_iters
       check_sub_epoch_summary =
     ebind (validate_unfinished_header_block L constants blocks (unfinished_of_header b) check_filter expected_difficulty
              expected_sub_slot_iters False False check_sub_epoch_summary) (\<lambda>required_iters.
     rbind (if hb_height b = 0 then Inr None
            else rbind (block_record blocks (hb_prev_header_hash b)) (\<lambda>p. Inr (Some p))) (\<lambda>prev_b.
     rbind (calculate_ip_iters constants expected_sub_slot_iters (rb_signage_point_index (hb_reward_chain_block b))
              required_iters) (\<lambda>ip_iters.
     ebind (check_height_weight constants prev_b b expected_difficulty) (\<lambda>_.
     rbind (ip_start L constants blocks prev_b b ip_iters) (\<lambda>start.
     ebind (check_ip_vdfs L constants b start ip_iters) (\<lambda>_.
     ebind (check_icc_ip L constants blocks prev_b b (fst (snd (snd start)))) (\<lambda>_.
     rbind (streamable_get_hash (hl_std_hash L) reward_chain_block_fields (reward_chain_block_val (hb_reward_chain_block b))) (\<lambda>rcb_hash.
     ebind (ereturn (fo_reward_block_hash (hb_foliage b) \<noteq> rcb_hash) INVALID_REWARD_BLOCK_HASH) (\<lambda>_.
     ebind (ereturn ((fo_foliage_transaction_block_hash (hb_foliage b) \<noteq> None) \<noteq> rb_is_transaction_block (hb_reward_chain_block b))
              INVALID_FOLIAGE_BLOCK_PRESENCE) (\<lambda>_.
     Inr (Inr required_iters)))))))))))"

end
