(* ===== verification/HeaderCorrect.thy ===== *)
theory HeaderCorrect
  imports HeaderValidation BlockBytes
begin

text \<open>
  What an accepted header satisfies: where it stands in the chain, how its iterations add up, which work its proof of
  space shows, when it is a transaction block, what its hash commits to, and that its record keeps the chain linked.
\<close>

section \<open>The checks of an accepted header\<close>

lemma ebind_InrE:
  assumes "ebind m f = Inr (Inr y)"
  obtains x where "m = Inr (Inr x)" "f x = Inr (Inr y)"
  using assms by (auto simp: ebind_Inr_Inr)

lemma accepted_unfinished:
  assumes "validate_unfinished_header_block L c blocks b check_filter d ssi skip skip_vdf check_ses = Inr (Inr r)"
  obtains X cc_sp_hash q i sp_total where
    "header_context_of L c blocks b d ssi skip skip_vdf = Inr (Inr X)"
    "check_slots_and_summary L c blocks X check_ses (uh_finished_sub_slots b) = Inr (Inr ())"
    "check_pospace L c blocks X b = Inr (Inr (cc_sp_hash, q))"
    "check_iters L c X (uh_reward_chain_block b) cc_sp_hash q = Inr (Inr i)"
    "check_total_iters c X (uh_reward_chain_block b) i = Inr (Inr sp_total)"
    "check_signage_point L c blocks X b cc_sp_hash sp_total (hi_sp_iters i) = Inr (Inr ())"
    "check_is_tx_block blocks X b i = Inr (Inr ())"
    "check_foliage_signatures L b = Inr (Inr ())"
    "check_pool L c X (fo_foliage_block_data (uh_foliage b)) (ru_proof_of_space (uh_reward_chain_block b)) = Inr (Inr ())"
    "check_foliage_block L c blocks X check_filter b = Inr (Inr ())"
    "r = hi_required_iters i"
  using assms unfolding validate_unfinished_header_block_def by (auto simp: ebind_Inr_Inr)

lemma accepted_finished:
  assumes "validate_finished_header_block L c blocks b check_filter d ssi check_ses = Inr (Inr r)"
  obtains prev_b ip_iters start where
    "validate_unfinished_header_block L c blocks (unfinished_of_header b) check_filter d ssi False False check_ses = Inr (Inr r)"
    "(if hb_height b = 0 then Inr None else rbind (block_record blocks (hb_prev_header_hash b)) (\<lambda>p. Inr (Some p))) = Inr prev_b"
    "calculate_ip_iters c ssi (rb_signage_point_index (hb_reward_chain_block b)) r = Inr ip_iters"
    "check_height_weight c prev_b b d = Inr (Inr ())"
    "ip_start L c blocks prev_b b ip_iters = Inr start"
    "check_ip_vdfs L c b start ip_iters = Inr (Inr ())"
    "check_icc_ip L c blocks prev_b b (fst (snd (snd start))) = Inr (Inr ())"
    "streamable_get_hash (hl_std_hash L) reward_chain_block_fields (reward_chain_block_val (hb_reward_chain_block b))
       = Inr (fo_reward_block_hash (hb_foliage b))"
    "(fo_foliage_transaction_block_hash (hb_foliage b) \<noteq> None) = rb_is_transaction_block (hb_reward_chain_block b)"
  using assms unfolding validate_finished_header_block_def by (auto simp: ebind_Inr_Inr rbind_eq_Inr)

lemma unfinished_of_header_sel [simp]:
  "uh_finished_sub_slots (unfinished_of_header b) = hb_finished_sub_slots b"
  "uh_reward_chain_block (unfinished_of_header b) = get_unfinished (hb_reward_chain_block b)"
  "uh_foliage (unfinished_of_header b) = hb_foliage b"
  "uh_foliage_transaction_block (unfinished_of_header b) = hb_foliage_transaction_block b"
  "uh_transactions_filter (unfinished_of_header b) = hb_transactions_filter b"
  "uh_prev_header_hash (unfinished_of_header b) = hb_prev_header_hash b"
  "uh_total_iters (unfinished_of_header b) = hb_total_iters b"
  by (simp_all add: unfinished_of_header_def uh_prev_header_hash_def hb_prev_header_hash_def uh_total_iters_def
      hb_total_iters_def get_unfinished_def)

text \<open>The context of a header, without the skipping of the last sub-slot.\<close>

lemma context_of_header:
  assumes "header_context_of L c blocks b d ssi False skip_vdf = Inr (Inr X)"
  shows "try_block_record blocks (uh_prev_header_hash b) = Inr (hx_prev_b X)"
    and "hx_prev_b X = None \<Longrightarrow> uh_prev_header_hash b = GENESIS_CHALLENGE c \<and> d = DIFFICULTY_STARTING c \<and>
           ssi = SUB_SLOT_ITERS_STARTING c \<and> hx_height X = 0"
    and "is_overflow_block c (ru_signage_point_index (uh_reward_chain_block b)) = Inr (hx_overflow X)"
    and "hx_difficulty X = d" and "hx_sub_slot_iters X = ssi" and "\<not> hx_skip_last X" and "hx_skip_vdf X = skip_vdf"
    and "hx_slots_since_prev X = int (length (uh_finished_sub_slots b))"
proof -
  obtain prev_b overflow height se ep where
    t: "try_block_record blocks (uh_prev_header_hash b) = Inr prev_b"
      "\<not> (prev_b = None \<and> uh_prev_header_hash b \<noteq> GENESIS_CHALLENGE c)"
      "is_overflow_block c (ru_signage_point_index (uh_reward_chain_block b)) = Inr overflow"
      "X = \<lparr>hx_prev_b = prev_b, hx_height = height, hx_overflow = overflow, hx_skip_last = False,
            hx_slots_since_prev = int (length (uh_finished_sub_slots b)), hx_can_finish_se = se, hx_can_finish_epoch = ep,
            hx_difficulty = d, hx_sub_slot_iters = ssi, hx_skip_vdf = skip_vdf\<rparr>"
    and g: "prev_b = None \<longrightarrow> d = DIFFICULTY_STARTING c \<and> ssi = SUB_SLOT_ITERS_STARTING c \<and> height = 0"
    using assms unfolding header_context_of_def slots_since_prev_def Let_def
    by (elim rbind_InrE ebind_InrE) (auto split: option.splits elim!: rbind_InrE ebind_InrE)
  show "try_block_record blocks (uh_prev_header_hash b) = Inr (hx_prev_b X)" using t by simp
  show "hx_prev_b X = None \<Longrightarrow> uh_prev_header_hash b = GENESIS_CHALLENGE c \<and> d = DIFFICULTY_STARTING c \<and>
           ssi = SUB_SLOT_ITERS_STARTING c \<and> hx_height X = 0" using t g by simp
  show "is_overflow_block c (ru_signage_point_index (uh_reward_chain_block b)) = Inr (hx_overflow X)"
    "hx_difficulty X = d" "hx_sub_slot_iters X = ssi" "\<not> hx_skip_last X" "hx_skip_vdf X = skip_vdf"
    "hx_slots_since_prev X = int (length (uh_finished_sub_slots b))" using t by simp_all
qed

lemma try_block_record_eq:
  "try_block_record blocks h = Inr (case block_record blocks h of Inl _ \<Rightarrow> None | Inr p \<Rightarrow> Some p)"
  using cache.contains_iff [of blocks h] by (auto simp: try_block_record_def split: sum.splits)

text \<open>In a linked chain the two functions agree on the parent: the first looks it up, the second goes by the height.\<close>

lemma accepted_header:
  assumes "chain_linked blocks (GENESIS_CHALLENGE c)"
    and "validate_finished_header_block L c blocks b check_filter d ssi check_ses = Inr (Inr r)"
  obtains X cc_sp_hash q i sp_total ip_iters start where
    "header_context_of L c blocks (unfinished_of_header b) d ssi False False = Inr (Inr X)"
    "check_pospace L c blocks X (unfinished_of_header b) = Inr (Inr (cc_sp_hash, q))"
    "check_iters L c X (get_unfinished (hb_reward_chain_block b)) cc_sp_hash q = Inr (Inr i)" "r = hi_required_iters i"
    "check_total_iters c X (get_unfinished (hb_reward_chain_block b)) i = Inr (Inr sp_total)"
    "check_signage_point L c blocks X (unfinished_of_header b) cc_sp_hash sp_total (hi_sp_iters i) = Inr (Inr ())"
    "check_is_tx_block blocks X (unfinished_of_header b) i = Inr (Inr ())"
    "check_foliage_signatures L (unfinished_of_header b) = Inr (Inr ())"
    "check_pool L c X (fo_foliage_block_data (hb_foliage b)) (rb_proof_of_space (hb_reward_chain_block b)) = Inr (Inr ())"
    "check_foliage_block L c blocks X check_filter (unfinished_of_header b) = Inr (Inr ())"
    "case hx_prev_b X of None \<Rightarrow> block_record blocks (hb_prev_header_hash b) = Inl KeyError
       | Some p \<Rightarrow> block_record blocks (hb_prev_header_hash b) = Inr p"
    "check_height_weight c (hx_prev_b X) b d = Inr (Inr ())"
    "ip_start L c blocks (hx_prev_b X) b ip_iters = Inr start"
    "calculate_ip_iters c ssi (rb_signage_point_index (hb_reward_chain_block b)) r = Inr ip_iters"
    "streamable_get_hash (hl_std_hash L) reward_chain_block_fields (reward_chain_block_val (hb_reward_chain_block b))
       = Inr (fo_reward_block_hash (hb_foliage b))"
    "(fo_foliage_transaction_block_hash (hb_foliage b) \<noteq> None) = rb_is_transaction_block (hb_reward_chain_block b)"
proof -
  obtain prev_b ip_iters start where f:
    "validate_unfinished_header_block L c blocks (unfinished_of_header b) check_filter d ssi False False check_ses = Inr (Inr r)"
    "(if hb_height b = 0 then Inr None else rbind (block_record blocks (hb_prev_header_hash b)) (\<lambda>p. Inr (Some p))) = Inr prev_b"
    "calculate_ip_iters c ssi (rb_signage_point_index (hb_reward_chain_block b)) r = Inr ip_iters"
    "check_height_weight c prev_b b d = Inr (Inr ())"
    "ip_start L c blocks prev_b b ip_iters = Inr start"
    "streamable_get_hash (hl_std_hash L) reward_chain_block_fields (reward_chain_block_val (hb_reward_chain_block b))
       = Inr (fo_reward_block_hash (hb_foliage b))"
    "(fo_foliage_transaction_block_hash (hb_foliage b) \<noteq> None) = rb_is_transaction_block (hb_reward_chain_block b)"
    using accepted_finished [OF assms(2)] by metis
  obtain X cc_sp_hash q i sp_total where u:
    "header_context_of L c blocks (unfinished_of_header b) d ssi False False = Inr (Inr X)"
    "check_pospace L c blocks X (unfinished_of_header b) = Inr (Inr (cc_sp_hash, q))"
    "check_iters L c X (get_unfinished (hb_reward_chain_block b)) cc_sp_hash q = Inr (Inr i)"
    "check_total_iters c X (get_unfinished (hb_reward_chain_block b)) i = Inr (Inr sp_total)"
    "check_signage_point L c blocks X (unfinished_of_header b) cc_sp_hash sp_total (hi_sp_iters i) = Inr (Inr ())"
    "check_is_tx_block blocks X (unfinished_of_header b) i = Inr (Inr ())"
    "check_foliage_signatures L (unfinished_of_header b) = Inr (Inr ())"
    "check_pool L c X (fo_foliage_block_data (hb_foliage b)) (ru_proof_of_space (get_unfinished (hb_reward_chain_block b))) = Inr (Inr ())"
    "check_foliage_block L c blocks X check_filter (unfinished_of_header b) = Inr (Inr ())" "r = hi_required_iters i"
    by (rule accepted_unfinished [OF f(1)]) simp
  have g: "block_record blocks (GENESIS_CHALLENGE c) = Inl KeyError"
    using chain_linked_linked [OF assms(1)] by (simp add: cache.linked_def)
  have t: "hx_prev_b X = (case block_record blocks (hb_prev_header_hash b) of Inl _ \<Rightarrow> None | Inr p \<Rightarrow> Some p)"
    using context_of_header(1) [OF u(1)] by (simp add: try_block_record_eq)
  have p: "hx_prev_b X = prev_b \<and> (case prev_b of None \<Rightarrow> block_record blocks (hb_prev_header_hash b) = Inl KeyError
       | Some p \<Rightarrow> block_record blocks (hb_prev_header_hash b) = Inr p)"
  proof (cases "hb_height b = 0")
    case True
    then have "prev_b = None" using f(2) by simp
    moreover have "hb_prev_header_hash b = GENESIS_CHALLENGE c"
      using f(4) \<open>prev_b = None\<close> by (auto simp: check_height_weight_def ebind_Inr_Inr)
    ultimately show ?thesis using t g by simp
  next
    case False
    then show ?thesis using f(2) t by (auto simp: rbind_eq_Inr)
  qed
  then show ?thesis
    using that [OF u(1-3,10,4-7) _ u(9) _ _ _ f(3)] u(8) f by (simp add: get_unfinished_def)
qed

text \<open>C8. Where an accepted header stands.  A header with a parent in a linked chain has the height after the parent's, the
  parent's weight plus the expected difficulty, and pays the community address that its height asks for.  A header
  without one is a genesis block: of height \<open>0\<close>, on the genesis challenge, with the starting weight, difficulty and sub-slot
  iterations and the addresses of the pre-farm.\<close>

theorem accepted_header_position:
  assumes "chain_linked blocks (GENESIS_CHALLENGE c)"
    and "validate_finished_header_block L c blocks b check_filter d ssi check_ses = Inr (Inr r)"
  shows "case block_record blocks (hb_prev_header_hash b) of
      Inl _ \<Rightarrow> hb_height b = 0 \<and> hb_prev_header_hash b = GENESIS_CHALLENGE c \<and> hb_weight b = DIFFICULTY_STARTING c \<and>
        d = DIFFICULTY_STARTING c \<and> ssi = SUB_SLOT_ITERS_STARTING c \<and>
        pt_puzzle_hash (fd_pool_target (fo_foliage_block_data (hb_foliage b))) = GENESIS_PRE_FARM_POOL_PUZZLE_HASH c \<and>
        fd_farmer_reward_puzzle_hash (fo_foliage_block_data (hb_foliage b)) = GENESIS_PRE_FARM_FARMER_PUZZLE_HASH c
    | Inr p \<Rightarrow> hb_height b = br_height p + 1 \<and> hb_weight b = br_weight p + d \<and>
        fd_community_reward_puzzle_hash (fo_foliage_block_data (hb_foliage b)) = community_puzzle_hash_at c (hb_height b)"
proof -
  obtain X where x: "header_context_of L c blocks (unfinished_of_header b) d ssi False False = Inr (Inr X)"
    "check_pool L c X (fo_foliage_block_data (hb_foliage b)) (rb_proof_of_space (hb_reward_chain_block b)) = Inr (Inr ())"
    "case hx_prev_b X of None \<Rightarrow> block_record blocks (hb_prev_header_hash b) = Inl KeyError
       | Some p \<Rightarrow> block_record blocks (hb_prev_header_hash b) = Inr p"
    "check_height_weight c (hx_prev_b X) b d = Inr (Inr ())"
    by (rule accepted_header [OF assms]) blast
  show ?thesis
    using x(2-4) context_of_header(2) [OF x(1)]
    by (cases "hx_prev_b X") (auto simp: check_height_weight_def check_pool_def ebind_Inr_Inr Let_def)
qed

section \<open>Iterations\<close>

lemma ip_iters_in_slot:
  assumes "calculate_ip_iters c ssi index r = Inr ip"
  shows "0 \<le> ip \<and> ip < ssi"
proof -
  obtain sp where "calculate_sp_iters c ssi index = Inr sp" "0 \<le> sp" "sp < ssi"
    using assms by (auto simp: calculate_ip_iters_def calculate_sp_iters_def rbind_eq_Inr split: if_splits)
  then show ?thesis using assms by (auto simp: calculate_ip_iters_def rbind_eq_Inr split: if_splits)
qed

text \<open>What checks 6 to 9 compute.\<close>

lemma iters_of_header:
  assumes "check_iters L c X rcb cc_sp_hash q = Inr (Inr i)"
  shows "calculate_iterations_quality (hl_std_hash L) (DIFFICULTY_CONSTANT_FACTOR c) q (pos_size (ru_proof_of_space rcb))
           (hx_difficulty X) cc_sp_hash = Inr (hi_required_iters i)"
    and "calculate_sp_iters c (hx_sub_slot_iters X) (ru_signage_point_index rcb) = Inr (hi_sp_iters i)"
    and "calculate_ip_iters c (hx_sub_slot_iters X) (ru_signage_point_index rcb) (hi_required_iters i) = Inr (hi_ip_iters i)"
    and "\<exists>k. calculate_sp_interval_iters c (hx_sub_slot_iters X) = Inr k \<and> hi_required_iters i < k"
  using assms by (auto simp: check_iters_def Let_def ebind_Inr_Inr rbind_eq_Inr)

text \<open>C9. The iterations of an accepted header.  Its total is the parent's total up to the end of the parent's sub-slot, plus
  the sub-slots finished in between, plus the iterations of the infusion point in its own sub-slot; within one sub-slot
  it is counted from the start of the sub-slot.  So a block is never infused before its parent, and strictly after it
  when a sub-slot ends in between.\<close>

theorem accepted_header_iters:
  assumes "chain_linked blocks (GENESIS_CHALLENGE c)"
    and "validate_finished_header_block L c blocks b check_filter d ssi check_ses = Inr (Inr r)"
    and "n = int (length (hb_finished_sub_slots b))"
  shows "\<exists>ip. calculate_ip_iters c ssi (rb_signage_point_index (hb_reward_chain_block b)) r = Inr ip \<and> 0 \<le> ip \<and> ip < ssi \<and>
    (case block_record blocks (hb_prev_header_hash b) of
       Inl _ \<Rightarrow> hb_total_iters b = ssi * n + ip
     | Inr p \<Rightarrow> \<exists>prev_ip. br_ip_iters p c = Inr prev_ip \<and>
         hb_total_iters b = (if n = 0 then br_total_iters p - prev_ip + ip
                             else br_total_iters p + (br_sub_slot_iters p - prev_ip) + ssi * (n - 1) + ip) \<and>
         br_total_iters p \<le> hb_total_iters b \<and> (0 < n \<longrightarrow> br_total_iters p < hb_total_iters b))"
proof -
  obtain X cc q i sp_total ip start where x:
    "header_context_of L c blocks (unfinished_of_header b) d ssi False False = Inr (Inr X)"
    "check_iters L c X (get_unfinished (hb_reward_chain_block b)) cc q = Inr (Inr i)" "r = hi_required_iters i"
    "check_total_iters c X (get_unfinished (hb_reward_chain_block b)) i = Inr (Inr sp_total)"
    "case hx_prev_b X of None \<Rightarrow> block_record blocks (hb_prev_header_hash b) = Inl KeyError
       | Some p \<Rightarrow> block_record blocks (hb_prev_header_hash b) = Inr p"
    "ip_start L c blocks (hx_prev_b X) b ip = Inr start"
    "calculate_ip_iters c ssi (rb_signage_point_index (hb_reward_chain_block b)) r = Inr ip"
    by (rule accepted_header [OF assms(1,2)]) blast
  have X: "hx_sub_slot_iters X = ssi" "hx_slots_since_prev X = n"
    using context_of_header(5,8) [OF x(1)] assms(3) by simp_all
  have "hi_ip_iters i = ip" using iters_of_header(3) [OF x(2)] x(3,7) X by (simp add: get_unfinished_def)
  then obtain st where st: "slot_start_iters c X = Inr st" "st + ip = hb_total_iters b"
    using x(4) by (auto simp: check_total_iters_def rbind_eq_Inr ebind_Inr_Inr get_unfinished_def hb_total_iters_def)
  have ip: "0 \<le> ip" "ip < ssi" using ip_iters_in_slot [OF x(7)] by simp_all
  show ?thesis
  proof (cases "hx_prev_b X")
    case None
    then show ?thesis using x(5,7) st ip X by (auto simp: slot_start_iters_def)
  next
    case (Some p)
    obtain ip_p where p: "br_ip_iters p c = Inr ip_p" "0 \<le> ip_p" "ip_p < br_sub_slot_iters p"
      using st(1) Some ip_iters_in_slot by (auto simp: slot_start_iters_def rbind_eq_Inr br_ip_iters_def)
    have n: "0 \<le> n" using assms(3) by simp
    have eq: "hb_total_iters b = (if n = 0 then br_total_iters p - ip_p + ip
                             else br_total_iters p + (br_sub_slot_iters p - ip_p) + ssi * (n - 1) + ip)"
      using st Some p(1) X n by (auto simp: slot_start_iters_def rbind_eq_Inr split: if_splits)
    have "br_total_iters p \<le> hb_total_iters b" if "n = 0"
      using x(6) Some that assms(3) by (auto simp: ip_start_def hb_first_in_sub_slot_def rbind_eq_Inr)
    moreover have "br_total_iters p < hb_total_iters b" if "0 < n"
    proof -
      have "0 \<le> ssi * (n - 1)" using ip that by simp
      moreover have "hb_total_iters b = br_total_iters p + (br_sub_slot_iters p - ip_p) + ssi * (n - 1) + ip" using eq that by simp
      ultimately show ?thesis using p ip by linarith
    qed
    ultimately show ?thesis using x(5,7) Some p eq ip n by fastforce
  qed
qed

section \<open>Transaction blocks\<close>

lemma ancestor_step: "ancestor blocks a b \<Longrightarrow> prev_block blocks a = Inr p \<Longrightarrow> ancestor blocks p b"
  by (induction rule: ancestor.induct) (auto intro: ancestor.intros)

lemma walk_back_returns:
  assumes "walk_back blocks cond b = Inr t" and "chain_linked blocks g" and "in_chain blocks b"
  shows "ancestor blocks t b \<and> \<not> cond t \<and> (\<forall>x. ancestor blocks x b \<and> br_height t < br_height x \<longrightarrow> cond x)"
proof -
  have "ancestor blocks t b \<and> \<not> cond t"
    by (rule loop_while_rule [OF assms(1) [unfolded walk_back_def], where P = "\<lambda>x. ancestor blocks x b"])
       (auto intro: ancestor_step ancestor.self)
  then show ?thesis using walk_back_nearest [OF assms(2,3)] assms(1) by (metis sum.inject(2))
qed

text \<open>C10. Transaction blocks.  An accepted header that has a parent is one of a transaction block exactly when its signage point
  comes after the infusion of the nearest transaction block \<open>t\<close> among its ancestors, and exactly then it carries a foliage
  transaction block.  This names \<open>t\<close> as the previous one, and its timestamp is later than that of \<open>t\<close> and not too far in
  the future, so that timestamps increase along every chain.\<close>

theorem accepted_tx_block:
  assumes "chain_linked blocks (GENESIS_CHALLENGE c)"
    and "validate_finished_header_block L c blocks b check_filter d ssi check_ses = Inr (Inr r)"
    and "block_record blocks (hb_prev_header_hash b) = Inr p"
  shows "\<exists>t ip sp overflow.
     ancestor blocks t p \<and> is_transaction_block t \<and>
     (\<forall>x. ancestor blocks x p \<and> br_height t < br_height x \<longrightarrow> \<not> is_transaction_block x) \<and>
     calculate_ip_iters c ssi (rb_signage_point_index (hb_reward_chain_block b)) r = Inr ip \<and>
     calculate_sp_iters c ssi (rb_signage_point_index (hb_reward_chain_block b)) = Inr sp \<and>
     is_overflow_block c (rb_signage_point_index (hb_reward_chain_block b)) = Inr overflow \<and>
     (hb_is_transaction_block b \<longleftrightarrow> hb_total_iters b - ip + sp - (if overflow then ssi else 0) > br_total_iters t) \<and>
     (case hb_foliage_transaction_block b of
        None \<Rightarrow> \<not> hb_is_transaction_block b
      | Some f \<Rightarrow> hb_is_transaction_block b \<and> ft_prev_transaction_block_hash f = br_header_hash t \<and>
          (\<exists>ts. br_timestamp t = Some ts \<and> ts < ft_timestamp f) \<and> ft_timestamp f \<le> hl_time_plus L (MAX_FUTURE_TIME c))"
proof -
  obtain X cc q i where x:
    "header_context_of L c blocks (unfinished_of_header b) d ssi False False = Inr (Inr X)"
    "check_iters L c X (get_unfinished (hb_reward_chain_block b)) cc q = Inr (Inr i)" "r = hi_required_iters i"
    "check_is_tx_block blocks X (unfinished_of_header b) i = Inr (Inr ())"
    "check_foliage_block L c blocks X check_filter (unfinished_of_header b) = Inr (Inr ())"
    "case hx_prev_b X of None \<Rightarrow> block_record blocks (hb_prev_header_hash b) = Inl KeyError
       | Some p \<Rightarrow> block_record blocks (hb_prev_header_hash b) = Inr p"
    "(fo_foliage_transaction_block_hash (hb_foliage b) \<noteq> None) = rb_is_transaction_block (hb_reward_chain_block b)"
    by (rule accepted_header [OF assms(1,2)]) blast
  have P: "hx_prev_b X = Some p" using x(6) assms(3) by (cases "hx_prev_b X") auto
  have pc: "in_chain blocks p" using cache.linked_look [OF chain_linked_linked [OF assms(1)] assms(3)] by (simp add: in_chain_present)
  obtain t where t: "last_tx_block blocks p = Inr t" and
    tx: "(hb_total_iters b - hi_ip_iters i + hi_sp_iters i - (if hx_overflow X then ssi else 0) > br_total_iters t) =
         (fo_foliage_transaction_block_hash (hb_foliage b) \<noteq> None)"
    using x(4) P context_of_header(5) [OF x(1)] by (auto simp: check_is_tx_block_def rbind_eq_Inr ebind_Inr_Inr)
  have anc: "ancestor blocks t p" "is_transaction_block t"
    "\<forall>x. ancestor blocks x p \<and> br_height t < br_height x \<longrightarrow> \<not> is_transaction_block x"
    using walk_back_returns [OF t [unfolded last_tx_block_def] assms(1) pc] by auto
  have tc: "block_record blocks (br_header_hash t) = Inr t"
    using ancestor_in_chain [OF anc(1) assms(1) pc] by (simp add: in_chain_def)
  have f: "case hb_foliage_transaction_block b of
        None \<Rightarrow> \<not> hb_is_transaction_block b
      | Some f \<Rightarrow> hb_is_transaction_block b \<and> ft_prev_transaction_block_hash f = br_header_hash t \<and>
          (\<exists>ts. br_timestamp t = Some ts \<and> ts < ft_timestamp f) \<and> ft_timestamp f \<le> hl_time_plus L (MAX_FUTURE_TIME c)"
    using x(5,7) P t tc anc(2)
    by (cases "hb_foliage_transaction_block b")
       (auto simp: check_foliage_block_def check_prev_tx_hash_def check_timestamp_def hb_is_transaction_block_def
         is_transaction_block_def Let_def rbind_eq_Inr ebind_Inr_Inr)
  show ?thesis
    using anc f tx x(3,7) iters_of_header(2,3) [OF x(2)] context_of_header(3,5) [OF x(1)]
    by (intro exI [of _ t] exI [of _ "hi_ip_iters i"] exI [of _ "hi_sp_iters i"] exI [of _ "hx_overflow X"])
       (simp add: hb_is_transaction_block_def get_unfinished_def)
qed

section \<open>Work\<close>

lemma quality_string_checked:
  assumes "verify_and_get_quality_string L c p challenge sp = Inr (Some q)"
  obtains plot_id where "get_plot_id (hl_std_hash L) p = Inr plot_id"
    "pos_challenge p = calculate_pos_challenge (hl_std_hash L) plot_id challenge sp"
    "passes_plot_filter (hl_std_hash L) c plot_id challenge sp = Inr True"
    "hl_validate_proof L plot_id (pos_size p) (pos_challenge p) (pos_proof p) = Some q"
    "MIN_PLOT_SIZE c \<le> pos_size p" "pos_size p \<le> MAX_PLOT_SIZE c"
  using assms unfolding verify_and_get_quality_string_def get_quality_string_def
  by (auto simp: rbind_eq_Inr sized_init_def split: if_splits option.splits)

lemma iterations_positive: "calculate_iterations_quality H f q k d cc = Inr r \<Longrightarrow> 1 \<le> r"
  by (auto simp: calculate_iterations_quality_def Let_def rbind_eq_Inr split: if_splits)

text \<open>C11. The work behind an accepted header, finished or not.  Its plot is of an allowed size, passes the plot filter for the
  challenge and the signage point, and has a valid proof whose quality gives the returned number of iterations, at least
  one and less than a signage point interval; the key of the plot signs the signage point and the foliage.\<close>

theorem accepted_header_work:
  assumes "validate_unfinished_header_block L c blocks b check_filter d ssi skip skip_vdf check_ses = Inr (Inr r)"
    and "rcb = uh_reward_chain_block b" and "pos = ru_proof_of_space rcb" and "H = hl_std_hash L"
  shows "\<exists>cc_sp_hash plot_id q k data_hash.
     (case ru_challenge_chain_sp_vdf rcb of None \<Rightarrow> cc_sp_hash = ru_pos_ss_cc_challenge_hash rcb
                                          | Some v \<Rightarrow> output_hash L v = Inr cc_sp_hash) \<and>
     get_plot_id H pos = Inr plot_id \<and>
     pos_challenge pos = calculate_pos_challenge H plot_id (ru_pos_ss_cc_challenge_hash rcb) cc_sp_hash \<and>
     passes_plot_filter H c plot_id (ru_pos_ss_cc_challenge_hash rcb) cc_sp_hash = Inr True \<and>
     MIN_PLOT_SIZE c \<le> pos_size pos \<and> pos_size pos \<le> MAX_PLOT_SIZE c \<and>
     hl_validate_proof L plot_id (pos_size pos) (pos_challenge pos) (pos_proof pos) = Some q \<and>
     calculate_iterations_quality H (DIFFICULTY_CONSTANT_FACTOR c) q (pos_size pos) d cc_sp_hash = Inr r \<and>
     calculate_sp_interval_iters c ssi = Inr k \<and> 1 \<le> r \<and> r < k \<and>
     hl_aug_verify L (pos_plot_public_key pos) cc_sp_hash (Some (ru_challenge_chain_sp_signature rcb)) = Inr True \<and>
     streamable_get_hash H foliage_block_data_fields (foliage_block_data_val (fo_foliage_block_data (uh_foliage b))) = Inr data_hash \<and>
     hl_aug_verify L (pos_plot_public_key pos) data_hash (Some (fo_foliage_block_data_signature (uh_foliage b))) = Inr True"
proof -
  obtain X cc q i sp_total where x:
    "header_context_of L c blocks b d ssi skip skip_vdf = Inr (Inr X)"
    "check_pospace L c blocks X b = Inr (Inr (cc, q))"
    "check_iters L c X rcb cc q = Inr (Inr i)"
    "check_signage_point L c blocks X b cc sp_total (hi_sp_iters i) = Inr (Inr ())"
    "check_foliage_signatures L b = Inr (Inr ())" "r = hi_required_iters i"
    using assms(2) by (auto intro: accepted_unfinished [OF assms(1)])
  have X: "hx_difficulty X = d" "hx_sub_slot_iters X = ssi"
    using x(1) unfolding header_context_of_def
    by (auto simp: rbind_eq_Inr ebind_Inr_Inr)
  have ch: "case ru_challenge_chain_sp_vdf rcb of None \<Rightarrow> cc = ru_pos_ss_cc_challenge_hash rcb
                                              | Some v \<Rightarrow> output_hash L v = Inr cc"
    and qs: "verify_and_get_quality_string L c pos (ru_pos_ss_cc_challenge_hash rcb) cc = Inr (Some q)"
    using x(2) assms(2,3)
    by (auto simp: check_pospace_def Let_def rbind_eq_Inr ebind_Inr_Inr split: option.splits)
  obtain k where k: "calculate_sp_interval_iters c ssi = Inr k" "r < k"
    using iters_of_header(4) [OF x(3)] X x(6) by auto
  have it: "calculate_iterations_quality H (DIFFICULTY_CONSTANT_FACTOR c) q (pos_size pos) d cc = Inr r"
    using iters_of_header(1) [OF x(3)] X x(6) assms(3,4) by simp
  have sg: "hl_aug_verify L (pos_plot_public_key pos) cc (Some (ru_challenge_chain_sp_signature rcb)) = Inr True"
    using x(4) assms(2,3) by (auto simp: check_signage_point_def check_signature_def Let_def rbind_eq_Inr ebind_Inr_Inr)
  obtain dh where dh: "streamable_get_hash H foliage_block_data_fields (foliage_block_data_val (fo_foliage_block_data (uh_foliage b))) = Inr dh"
    "hl_aug_verify L (pos_plot_public_key pos) dh (Some (fo_foliage_block_data_signature (uh_foliage b))) = Inr True"
    using x(5) assms(2-4) by (auto simp: check_foliage_signatures_def check_signature_def Let_def rbind_eq_Inr ebind_Inr_Inr)
  show ?thesis
    by (rule quality_string_checked [OF qs]) (use ch k it sg dh iterations_positive [OF it] assms(4) in blast)
qed

text \<open>Check 6, the range of the signage point index, is never reached by an index out of range: \<open>is_overflow_block\<close> has
  raised \<open>ValueError\<close> before, which the validation does not catch.  The header is not answered with \<open>INVALID_SP_INDEX\<close>.\<close>

lemma sp_index_out_of_range_raises:
  assumes "NUM_SPS_SUB_SLOT c \<le> ru_signage_point_index (uh_reward_chain_block b)"
  shows "validate_unfinished_header_block L c blocks b check_filter d ssi skip skip_vdf check_ses =
     (if \<not> contains_block blocks (uh_prev_header_hash b) \<and> uh_prev_header_hash b \<noteq> GENESIS_CHALLENGE c
      then Inr (Inl INVALID_PREV_BLOCK_HASH) else Inl ValueError)"
proof -
  have "is_overflow_block c (ru_signage_point_index (uh_reward_chain_block b)) = Inl ValueError"
    using assms by (simp add: is_overflow_block_def)
  then show ?thesis
    using cache.contains_iff [of blocks "uh_prev_header_hash b"]
    by (auto simp: validate_unfinished_header_block_def header_context_of_def try_block_record_eq ebind_def ereturn_def
        split: sum.splits)
qed

section \<open>What the header hash commits to\<close>

definition header_typed :: "(bytes \<Rightarrow> bool) \<Rightarrow> header_block \<Rightarrow> bool" where
  "header_typed acc b \<longleftrightarrow>
     has_type acc (FClass foliage_fields) (foliage_val (hb_foliage b)) \<and>
     has_type acc (FClass reward_chain_block_fields) (reward_chain_block_val (hb_reward_chain_block b)) \<and>
     (case hb_foliage_transaction_block b of
        None \<Rightarrow> True | Some f \<Rightarrow> has_type acc (FClass foliage_transaction_block_fields) (foliage_transaction_block_val f))"

text \<open>The hash function does not map the encodings of two objects of a class to one value.\<close>

definition separates :: "hasher \<Rightarrow> ftype list \<Rightarrow> fval \<Rightarrow> fval \<Rightarrow> bool" where
  "separates H ftypes v w \<longleftrightarrow>
     (case (streamable_bytes ftypes v, streamable_bytes ftypes w) of (Inr x, Inr y) \<Rightarrow> H x = H y \<longrightarrow> x = y | _ \<Rightarrow> True)"

definition separates_headers :: "hasher \<Rightarrow> header_block \<Rightarrow> header_block \<Rightarrow> bool" where
  "separates_headers H b b' \<longleftrightarrow>
     separates H foliage_fields (foliage_val (hb_foliage b)) (foliage_val (hb_foliage b')) \<and>
     separates H reward_chain_block_fields (reward_chain_block_val (hb_reward_chain_block b))
       (reward_chain_block_val (hb_reward_chain_block b')) \<and>
     (case (hb_foliage_transaction_block b, hb_foliage_transaction_block b') of
        (Some f, Some f') \<Rightarrow> separates H foliage_transaction_block_fields (foliage_transaction_block_val f)
                               (foliage_transaction_block_val f')
      | _ \<Rightarrow> True)"

lemma separated_hashes:
  assumes "list_all wf_type ftypes" and "has_type acc (FClass ftypes) v" and "has_type acc (FClass ftypes) w"
    and "separates H ftypes v w" and "streamable_get_hash H ftypes v = Inr h" and "streamable_get_hash H ftypes w = Inr h"
  shows "v = w"
proof -
  have "\<forall>x y. streamable_bytes ftypes v = Inr x \<and> streamable_bytes ftypes w = Inr y \<and> H x = H y \<longrightarrow> x = y"
    using assms(4) by (auto simp: separates_def)
  then show ?thesis by (rule hash_identifies [OF assms(1-3) _ assms(5,6)])
qed

lemma accepted_hashes:
  assumes "validate_finished_header_block L c blocks b check_filter d ssi check_ses = Inr (Inr r)"
  shows "streamable_get_hash (hl_std_hash L) reward_chain_block_fields (reward_chain_block_val (hb_reward_chain_block b))
           = Inr (fo_reward_block_hash (hb_foliage b))"
    and "case hb_foliage_transaction_block b of
           None \<Rightarrow> fo_foliage_transaction_block_hash (hb_foliage b) = None
         | Some f \<Rightarrow> \<exists>h. streamable_get_hash (hl_std_hash L) foliage_transaction_block_fields (foliage_transaction_block_val f) = Inr h \<and>
                      fo_foliage_transaction_block_hash (hb_foliage b) = Some h"
proof -
  obtain u: "validate_unfinished_header_block L c blocks (unfinished_of_header b) check_filter d ssi False False check_ses = Inr (Inr r)"
    and h: "streamable_get_hash (hl_std_hash L) reward_chain_block_fields (reward_chain_block_val (hb_reward_chain_block b))
           = Inr (fo_reward_block_hash (hb_foliage b))"
    by (rule accepted_finished [OF assms]) blast
  obtain X where X: "check_foliage_block L c blocks X check_filter (unfinished_of_header b) = Inr (Inr ())"
    by (rule accepted_unfinished [OF u])
  show "streamable_get_hash (hl_std_hash L) reward_chain_block_fields (reward_chain_block_val (hb_reward_chain_block b))
           = Inr (fo_reward_block_hash (hb_foliage b))" by (rule h)
  show "case hb_foliage_transaction_block b of
           None \<Rightarrow> fo_foliage_transaction_block_hash (hb_foliage b) = None
         | Some f \<Rightarrow> \<exists>h. streamable_get_hash (hl_std_hash L) foliage_transaction_block_fields (foliage_transaction_block_val f) = Inr h \<and>
                      fo_foliage_transaction_block_hash (hb_foliage b) = Some h"
    using X by (cases "hb_foliage_transaction_block b")
               (auto simp: check_foliage_block_def Let_def rbind_eq_Inr ebind_Inr_Inr)
qed

text \<open>C12. The header hash identifies a validated block.  Two accepted headers with the same header hash have the same foliage,
  the same reward chain block, hence the same height, weight, iterations and proof of space, and the same foliage transaction
  block, hence the same timestamp and roots, unless the hash function confuses two of their encodings.\<close>

theorem accepted_header_identified:
  assumes "validate_finished_header_block L c blocks b check_filter d ssi check_ses = Inr (Inr r)"
    and "validate_finished_header_block L c blocks' b' check_filter' d' ssi' check_ses' = Inr (Inr r')"
    and "header_typed acc b" and "header_typed acc b'" and "separates_headers (hl_std_hash L) b b'"
    and "hb_header_hash (hl_std_hash L) b = Inr h" and "hb_header_hash (hl_std_hash L) b' = Inr h"
  shows "hb_foliage b = hb_foliage b' \<and> hb_reward_chain_block b = hb_reward_chain_block b' \<and>
         hb_foliage_transaction_block b = hb_foliage_transaction_block b'"
proof -
  have "foliage_val (hb_foliage b) = foliage_val (hb_foliage b')"
    using assms(3-7) by (intro separated_hashes [OF block_fields_wf(9)]) (auto simp: header_typed_def separates_headers_def hb_header_hash_def)
  then have f: "hb_foliage b = hb_foliage b'" by (metis block_parts_of_val(1))
  have "reward_chain_block_val (hb_reward_chain_block b) = reward_chain_block_val (hb_reward_chain_block b')"
    using assms(3-5) accepted_hashes(1) [OF assms(1)] accepted_hashes(1) [OF assms(2)] f
    by (intro separated_hashes [OF block_fields_wf(15)]) (auto simp: header_typed_def separates_headers_def)
  then have rc: "hb_reward_chain_block b = hb_reward_chain_block b'" by (metis block_parts_of_val(3))
  have "hb_foliage_transaction_block b = hb_foliage_transaction_block b'"
  proof (cases "hb_foliage_transaction_block b")
    case None
    then show ?thesis using accepted_hashes(2) [OF assms(1)] accepted_hashes(2) [OF assms(2)] f
      by (auto split: option.splits)
  next
    case (Some t)
    obtain t' where t': "hb_foliage_transaction_block b' = Some t'"
      using Some accepted_hashes(2) [OF assms(1)] accepted_hashes(2) [OF assms(2)] f by (auto split: option.splits)
    obtain h where "streamable_get_hash (hl_std_hash L) foliage_transaction_block_fields (foliage_transaction_block_val t) = Inr h"
      "streamable_get_hash (hl_std_hash L) foliage_transaction_block_fields (foliage_transaction_block_val t') = Inr h"
      using Some t' accepted_hashes(2) [OF assms(1)] accepted_hashes(2) [OF assms(2)] f by auto
    then have "foliage_transaction_block_val t = foliage_transaction_block_val t'"
      using assms(3-5) Some t'
      by (intro separated_hashes [OF block_fields_wf(7), of acc]) (auto simp: header_typed_def separates_headers_def)
    then show ?thesis using Some t' by (metis leaf_of_val(6))
  qed
  then show ?thesis using f rc by blast
qed

section \<open>The chain grows by accepted headers\<close>

lemma chain_linked_insert:
  assumes "chain_linked blocks g" and "block_record blocks (br_header_hash b) = Inl KeyError" and "br_header_hash b \<noteq> g"
    and "0 \<le> br_height b"
    and "if br_height b = 0 then br_prev_hash b = g
         else case prev_block blocks b of Inl _ \<Rightarrow> False | Inr p \<Rightarrow> br_height p = br_height b - 1"
  shows "chain_linked (add_block_record blocks b) g"
proof -
  have new: "\<not> dict_mem (block_records blocks) (br_header_hash b)"
    using assms(2) by (auto simp: block_record_def dict_getitem_def dict_mem_def split: option.splits)
  define ok where "ok bs = (\<lambda>(h, x). br_header_hash x = h \<and> 0 \<le> br_height x \<and>
        (if br_height x = 0 then br_prev_hash x = g
         else case prev_block bs x of Inl _ \<Rightarrow> False | Inr p \<Rightarrow> br_height p = br_height x - 1))" for bs
  have "prev_block (add_block_record blocks b) x = Inr p" if "prev_block blocks x = Inr p" for x p
    using that assms(2) by (auto simp: prev_block_def cache.look_insert)
  then have keep: "ok (add_block_record blocks b) y" if "ok blocks y" for y
    using that unfolding ok_def by (cases y) (fastforce split: sum.splits if_splits)
  have "list_all (ok blocks) (block_records blocks)" using assms(1) by (simp add: chain_linked_def ok_def)
  moreover have "ok blocks (br_header_hash b, b)" using assms(4,5) by (simp add: ok_def)
  ultimately have "list_all (ok (add_block_record blocks b)) (block_records (add_block_record blocks b))"
    using keep by (auto simp: list_all_iff add_block_record_def dict_set_new [OF new])
  moreover have "\<not> contains_block (add_block_record blocks b) g"
    using assms(1,3) cache.contains_iff [of blocks g] by (simp add: chain_linked_def cache.contains_iff cache.look_insert)
  ultimately show ?thesis by (simp add: chain_linked_def ok_def)
qed

lemma record_of_header:
  assumes "block_to_block_record H c blocks r (HeaderT b) s = Inr rec"
  shows "br_prev_hash rec = hb_prev_header_hash b" "br_height rec = hb_height b" "br_weight rec = hb_weight b"
    "br_total_iters rec = hb_total_iters b" "hb_header_hash H b = Inr (br_header_hash rec)" "br_required_iters rec = r"
  using assms unfolding block_to_block_record_def header_block_to_sub_block_record_def Let_def
  by (auto simp: rbind_eq_Inr tb_prev_header_hash_def tb_height_def hb_prev_header_hash_def hb_height_def hb_weight_def
      hb_total_iters_def hb_header_hash_def tb_header_hash_def)

text \<open>C7. The chain grows by accepted headers.  The record made of an accepted header that is not known yet keeps the chain
  linked: every block above height \<open>0\<close> has its parent one height below, the others stand on the genesis challenge.  This
  is what the walks along the chain rely on.  The weight rises by the difficulty.\<close>

theorem accepted_header_extends_chain:
  assumes "chain_linked blocks (GENESIS_CHALLENGE c)"
    and "validate_finished_header_block L c blocks b check_filter d ssi check_ses = Inr (Inr r)"
    and "block_to_block_record (hl_std_hash L) c blocks r (HeaderT b) s = Inr rec"
    and "\<not> contains_block blocks (br_header_hash rec)" and "br_header_hash rec \<noteq> GENESIS_CHALLENGE c"
  shows "chain_linked (add_block_record blocks rec) (GENESIS_CHALLENGE c) \<and>
    (case prev_block blocks rec of
       Inl _ \<Rightarrow> br_height rec = 0 \<and> br_weight rec = DIFFICULTY_STARTING c
     | Inr p \<Rightarrow> br_height rec = br_height p + 1 \<and> br_weight rec = br_weight p + d)"
proof -
  obtain X where x: "header_context_of L c blocks (unfinished_of_header b) d ssi False False = Inr (Inr X)"
    "case hx_prev_b X of None \<Rightarrow> block_record blocks (hb_prev_header_hash b) = Inl KeyError
       | Some p \<Rightarrow> block_record blocks (hb_prev_header_hash b) = Inr p"
    "check_height_weight c (hx_prev_b X) b d = Inr (Inr ())"
    by (rule accepted_header [OF assms(1,2)]) blast
  note r = record_of_header [OF assms(3)]
  have new: "block_record blocks (br_header_hash rec) = Inl KeyError"
    using assms(4) cache.contains_iff cache.look_error by (metis sum.exhaust)
  have pos: "case prev_block blocks rec of
       Inl _ \<Rightarrow> br_height rec = 0 \<and> br_weight rec = DIFFICULTY_STARTING c \<and> br_prev_hash rec = GENESIS_CHALLENGE c
     | Inr p \<Rightarrow> br_height rec = br_height p + 1 \<and> br_weight rec = br_weight p + d \<and> 0 \<le> br_height p"
    using x(2,3) r cache.linked_look [OF chain_linked_linked [OF assms(1)]] chain_height_nonneg [OF assms(1)]
    by (cases "hx_prev_b X") (auto simp: prev_block_def check_height_weight_def ebind_Inr_Inr in_chain_present)
  have "chain_linked (add_block_record blocks rec) (GENESIS_CHALLENGE c)"
    by (rule chain_linked_insert [OF assms(1) new assms(5)]) (use pos in \<open>auto split: sum.splits\<close>)
  then show ?thesis using pos by (auto split: sum.splits)
qed

section \<open>A header on a genesis block for the witnesses\<close>

definition header_sample_lib :: header_lib where
  "header_sample_lib = \<lparr>hl_std_hash = \<lambda>_. b32 0, hl_create_discriminant = \<lambda>_ _. Inr 0,
     hl_verify_n_wesolowski = \<lambda>_ _ _ _ _ _. Inr True, hl_validate_proof = \<lambda>_ _ _ _. Some (b32 3),
     hl_aug_verify = \<lambda>_ _ _. Inr True, hl_time_plus = \<lambda>x. 1000 + x\<rparr>"

definition parent_sample :: block_record where
  "parent_sample = (sample_block 0 0 0)\<lparr>br_header_hash := b32 1, br_prev_hash := GENESIS_CHALLENGE body_constants,
     br_total_iters := 6291457, br_challenge_vdf_output := replicate 100 0, br_reward_infusion_new_challenge := b32 0,
     br_challenge_block_info_hash := b32 5, br_sub_slot_iters := 134217728, br_timestamp := Some 9,
     br_finished_challenge_slot_hashes := Some [GENESIS_CHALLENGE body_constants],
     br_finished_reward_slot_hashes := Some [GENESIS_CHALLENGE body_constants]\<rparr>"

definition header_cache :: block_cache where
  "header_cache = \<lparr>block_records = [(b32 1, parent_sample)], height_hashes = [(0, b32 1)], sub_epoch_summaries = []\<rparr>"

definition vdf_sample :: "bytes \<Rightarrow> int \<Rightarrow> vdf_info" where
  "vdf_sample challenge iters = \<lparr>vi_challenge = challenge, vi_number_of_iterations = iters, vi_output = replicate 100 0\<rparr>"

definition header_sample :: header_block where
  "header_sample = \<lparr>hb_finished_sub_slots = [],
     hb_reward_chain_block = \<lparr>rb_weight = 14, rb_height = 1, rb_total_iters = 27262977, rb_signage_point_index = 10,
       rb_pos_ss_cc_challenge_hash = GENESIS_CHALLENGE body_constants, rb_proof_of_space = sample_pos\<lparr>pos_size := 30\<rparr>,
       rb_challenge_chain_sp_vdf = Some (vdf_sample (GENESIS_CHALLENGE body_constants) 20971520),
       rb_challenge_chain_sp_signature = replicate 96 0,
       rb_challenge_chain_ip_vdf = vdf_sample (GENESIS_CHALLENGE body_constants) 27262977,
       rb_reward_chain_sp_vdf = Some (vdf_sample (b32 0) 14680063), rb_reward_chain_sp_signature = replicate 96 0,
       rb_reward_chain_ip_vdf = vdf_sample (b32 0) 20971520,
       rb_infused_challenge_chain_ip_vdf = Some (vdf_sample (b32 5) 20971520), rb_is_transaction_block = True\<rparr>,
     hb_challenge_chain_sp_proof = Some sample_vdf_proof, hb_challenge_chain_ip_proof = sample_vdf_proof,
     hb_reward_chain_sp_proof = Some sample_vdf_proof, hb_reward_chain_ip_proof = sample_vdf_proof,
     hb_infused_challenge_chain_ip_proof = Some sample_vdf_proof,
     hb_foliage = (sample_foliage (b32 1) (Some (b32 0)))\<lparr>
       fo_foliage_block_data := sample_foliage_data\<lparr>fd_community_reward_puzzle_hash := b32 4\<rparr>,
       fo_foliage_transaction_block_signature := Some (replicate 96 0)\<rparr>,
     hb_foliage_transaction_block = Some \<lparr>ft_prev_transaction_block_hash = b32 1, ft_timestamp = 10, ft_filter_hash = b32 0,
       ft_additions_root = b32 0, ft_removals_root = b32 0, ft_transactions_info_hash = b32 0\<rparr>,
     hb_transactions_filter = [], hb_transactions_info = None\<rparr>"

text \<open>The same header with another proof of the reward chain.\<close>

definition header_sample' :: header_block where
  "header_sample' = header_sample\<lparr>hb_reward_chain_ip_proof := sample_vdf_proof\<lparr>vp_witness := [1]\<rparr>\<rparr>"

lemma header_cache_linked:
  "chain_linked header_cache (GENESIS_CHALLENGE body_constants)"
  "block_record header_cache (hb_prev_header_hash header_sample) = Inr parent_sample"
  by code_simp+

lemma header_sample_accepted:
  "validate_finished_header_block header_sample_lib body_constants header_cache header_sample True 7 134217728 True = Inr (Inr 1)"
  "validate_finished_header_block header_sample_lib body_constants header_cache header_sample' True 7 134217728 True = Inr (Inr 1)"
  by code_simp+

lemma header_sample_typed: "header_typed (\<lambda>_. True) header_sample"
  by (simp add: header_typed_def header_sample_def vdf_sample_def sample_foliage_def sample_foliage_data_def sample_pos_def
      body_constants_def opt_val_def reward_chain_block_fields_def reward_chain_block_val_def proof_of_space_fields_def
      proof_of_space_val_def vdf_info_fields_def vdf_info_val_def foliage_fields_def foliage_val_def foliage_block_data_fields_def
      foliage_block_data_val_def pool_target_fields_def pool_target_val_def foliage_transaction_block_fields_def
      foliage_transaction_block_val_def classgroup_fields_def int_class_defs G1_SIZE_def G2_SIZE_def)

theorem accepted_header_position_witness:
  "hb_height header_sample = br_height parent_sample + 1 \<and> hb_weight header_sample = br_weight parent_sample + 7 \<and>
   fd_community_reward_puzzle_hash (fo_foliage_block_data (hb_foliage header_sample)) =
     community_puzzle_hash_at body_constants (hb_height header_sample)"
  using accepted_header_position [OF header_cache_linked(1) header_sample_accepted(1)] header_cache_linked(2) by simp

theorem accepted_header_iters_witness:
  "br_total_iters parent_sample \<le> hb_total_iters header_sample \<and>
   (\<exists>ip prev_ip. hb_total_iters header_sample = br_total_iters parent_sample - prev_ip + ip)"
  using accepted_header_iters [OF header_cache_linked(1) header_sample_accepted(1), of 0] header_cache_linked(2)
  by (auto simp: header_sample_def)

theorem accepted_tx_block_witness:
  "\<exists>t. ancestor header_cache t parent_sample \<and> is_transaction_block t \<and> br_header_hash t = b32 1 \<and> (\<exists>ts < 10. br_timestamp t = Some ts)"
  using accepted_tx_block [OF header_cache_linked(1) header_sample_accepted(1) header_cache_linked(2)]
  by (auto simp: header_sample_def)

theorem accepted_header_work_witness:
  "\<exists>k. calculate_sp_interval_iters body_constants 134217728 = Inr k \<and> 1 < k"
proof -
  have "validate_unfinished_header_block header_sample_lib body_constants header_cache (unfinished_of_header header_sample) True 7
      134217728 False False True = Inr (Inr 1)"
    by (rule accepted_finished [OF header_sample_accepted(1)])
  from accepted_header_work [OF this refl refl refl] show ?thesis by auto
qed

lemma sp_index_out_of_range_raises_witness:
  "validate_unfinished_header_block header_sample_lib body_constants header_cache
     ((unfinished_of_header header_sample)\<lparr>uh_reward_chain_block :=
        (get_unfinished (hb_reward_chain_block header_sample))\<lparr>ru_signage_point_index := 64\<rparr>\<rparr>) True 7 134217728 False False True
   = Inl ValueError"
  (is "validate_unfinished_header_block _ _ _ ?b _ _ _ _ _ _ = _")
proof -
  have "NUM_SPS_SUB_SLOT body_constants \<le> ru_signage_point_index (uh_reward_chain_block ?b)"
    by (simp add: body_constants_def DEFAULT_CONSTANTS_def)
  moreover have "contains_block header_cache (uh_prev_header_hash ?b)" by code_simp
  ultimately show ?thesis using sp_index_out_of_range_raises by simp
qed

theorem accepted_header_identified_witness:
  "hb_foliage header_sample = hb_foliage header_sample' \<and> hb_reward_chain_block header_sample = hb_reward_chain_block header_sample' \<and>
   hb_foliage_transaction_block header_sample = hb_foliage_transaction_block header_sample'"
proof (rule accepted_header_identified [OF header_sample_accepted, where acc = "\<lambda>_. True" and h = "b32 0"])
  show "header_typed (\<lambda>_. True) header_sample" by (rule header_sample_typed)
  then show "header_typed (\<lambda>_. True) header_sample'" by (simp add: header_typed_def header_sample'_def)
  show "separates_headers (hl_std_hash header_sample_lib) header_sample header_sample'" by code_simp
  show "hb_header_hash (hl_std_hash header_sample_lib) header_sample = Inr (b32 0)" by code_simp
  show "hb_header_hash (hl_std_hash header_sample_lib) header_sample' = Inr (b32 0)" by code_simp
qed

theorem accepted_header_extends_chain_witness:
  "\<exists>rec. block_to_block_record (hl_std_hash header_sample_lib) body_constants header_cache 1 (HeaderT header_sample) (Some 134217728)
       = Inr rec \<and>
     chain_linked (add_block_record header_cache rec) (GENESIS_CHALLENGE body_constants) \<and> br_height rec = 1"
proof -
  let ?r = "block_to_block_record (hl_std_hash header_sample_lib) body_constants header_cache 1 (HeaderT header_sample) (Some 134217728)"
  have "case ?r of Inr rec \<Rightarrow> br_header_hash rec = b32 0 \<and> br_height rec = 1 | Inl _ \<Rightarrow> False" by code_simp
  then obtain rec where r: "?r = Inr rec" "br_header_hash rec = b32 0" "br_height rec = 1" by (auto split: sum.splits)
  have "\<not> contains_block header_cache (b32 0)" "b32 0 \<noteq> GENESIS_CHALLENGE body_constants" by code_simp+
  then show ?thesis
    using accepted_header_extends_chain [OF header_cache_linked(1) header_sample_accepted(1) r(1)] r by auto
qed


end
