(* ===== verification/FullNodeStore.thy ===== *)
theory FullNodeStore
  imports HeaderValidation Blockchain
begin

text \<open>
  \<open>full_node/full_node_store.py\<close>, \<open>full_node/signage_point.py\<close> and the infusion points of
  \<open>protocols/timelord_protocol.py\<close>: what a node remembers around its peak.  It keeps candidate and unfinished blocks, the
  finished sub-slots from the slot of the peak onwards with the signage points of each, and caches of slots, signage points
  and infusion points that came before the block they depend on.

  An operation returns its result and the store it leaves, also when it raises.  \<open>now\<close> is \<open>int(time.time())\<close>, read once per
  call.  Two lists of signage points are never shared: the sub-slots of the signage point and of the infusion point of an
  overflow block, which \<open>new_peak\<close> is given, are different.  The fields that only \<open>full_node.py\<close> uses (the transaction
  requests, the requested unfinished blocks, the previous generator, the weight proof message) are left out.
\<close>

section \<open>State\<close>

record signage_point =
  sg_cc_vdf :: "vdf_info option"
  sg_cc_proof :: "vdf_proof option"
  sg_rc_vdf :: "vdf_info option"
  sg_rc_proof :: "vdf_proof option"

definition empty_sp :: signage_point where
  "empty_sp = \<lparr>sg_cc_vdf = None, sg_cc_proof = None, sg_rc_vdf = None, sg_rc_proof = None\<rparr>"

record new_infusion_point_vdf =
  ni_unfinished_reward_hash :: bytes
  ni_challenge_chain_ip_vdf :: vdf_info
  ni_challenge_chain_ip_proof :: vdf_proof
  ni_reward_chain_ip_vdf :: vdf_info
  ni_reward_chain_ip_proof :: vdf_proof
  ni_infused_challenge_chain_ip_vdf :: "vdf_info option"
  ni_infused_challenge_chain_ip_proof :: "vdf_proof option"

record peak_result =
  pr_added_eos :: "end_of_sub_slot_bundle option"
  pr_new_signage_points :: "(int \<times> signage_point) list"
  pr_new_infusion_points :: "new_infusion_point_vdf list"

text \<open>A finished sub-slot, \<open>None\<close> for the start of the chain, its signage points and the iterations at its end.\<close>

type_synonym slot_entry = "end_of_sub_slot_bundle option \<times> signage_point option list \<times> int"

record full_node_store =
  fs_candidate_blocks :: "(bytes, int \<times> unfinished_block) dict"
  fs_candidate_backup_blocks :: "(bytes, int \<times> unfinished_block) dict"
  fs_seen_unfinished_blocks :: "bytes set"
  fs_unfinished_blocks :: "(bytes, int \<times> unfinished_block \<times> pre_validation_result) dict"
  fs_finished_sub_slots :: "slot_entry list"
  fs_future_eos_cache :: "(bytes, end_of_sub_slot_bundle list) dict"
  fs_future_sp_cache :: "(bytes, (int \<times> signage_point) list) dict"
  fs_future_ip_cache :: "(bytes, new_infusion_point_vdf list) dict"
  fs_future_cache_key_times :: "(bytes, int) dict"
  fs_recent_signage_points :: "(bytes, signage_point \<times> int) lru_cache"
  fs_recent_eos :: "(bytes, end_of_sub_slot_bundle \<times> int) lru_cache"

definition clear_slots :: "full_node_store \<Rightarrow> full_node_store" where
  "clear_slots s = s\<lparr>fs_finished_sub_slots := []\<rparr>"

definition no_sps :: "consensus_constants \<Rightarrow> signage_point option list" where
  "no_sps constants = replicate (nat (NUM_SPS_SUB_SLOT constants)) None"

definition initialize_genesis_sub_slot :: "consensus_constants \<Rightarrow> full_node_store \<Rightarrow> full_node_store" where
  "initialize_genesis_sub_slot constants s = (clear_slots s)\<lparr>fs_finished_sub_slots := [(None, no_sps constants, 0)]\<rparr>"

definition new_full_node_store :: "consensus_constants \<Rightarrow> full_node_store" where
  "new_full_node_store constants =
     initialize_genesis_sub_slot constants (clear_slots
       \<lparr>fs_candidate_blocks = [], fs_candidate_backup_blocks = [], fs_seen_unfinished_blocks = {},
        fs_unfinished_blocks = [], fs_finished_sub_slots = [], fs_future_eos_cache = [], fs_future_sp_cache = [],
        fs_future_ip_cache = [], fs_future_cache_key_times = [], fs_recent_signage_points = new_lru_cache 500,
        fs_recent_eos = new_lru_cache 50\<rparr>)"

section \<open>Candidate and unfinished blocks\<close>

definition add_candidate_block :: "full_node_store \<Rightarrow> bytes \<Rightarrow> int \<Rightarrow> unfinished_block \<Rightarrow> bool \<Rightarrow> full_node_store" where
  "add_candidate_block s quality_string height b backup =
     (if backup then s\<lparr>fs_candidate_backup_blocks := dict_set (fs_candidate_backup_blocks s) quality_string (height, b)\<rparr>
      else s\<lparr>fs_candidate_blocks := dict_set (fs_candidate_blocks s) quality_string (height, b)\<rparr>)"

definition get_candidate_block :: "full_node_store \<Rightarrow> bytes \<Rightarrow> bool \<Rightarrow> (int \<times> unfinished_block) option" where
  "get_candidate_block s quality_string backup =
     (if backup then dict_get (fs_candidate_backup_blocks s) quality_string
      else dict_get (fs_candidate_blocks s) quality_string)"

text \<open>The keys with a height below the bound are collected first and deleted then.\<close>

definition keys_below :: "int \<Rightarrow> ('k, int \<times> 'v) dict \<Rightarrow> 'k list" where
  "keys_below height d = map fst (filter (\<lambda>(k, v). fst v < height) d)"

definition clear_candidate_blocks_below :: "full_node_store \<Rightarrow> int \<Rightarrow> full_node_store" where
  "clear_candidate_blocks_below s height =
     (let c = fs_candidate_blocks s; b = fs_candidate_backup_blocks s
      in s\<lparr>fs_candidate_blocks := foldl dict_pop c (keys_below height c),
           fs_candidate_backup_blocks := foldl dict_pop b (keys_below height b)\<rparr>)"

definition seen_unfinished_block :: "full_node_store \<Rightarrow> bytes \<Rightarrow> bool \<times> full_node_store" where
  "seen_unfinished_block s object_hash =
     (if object_hash \<in> fs_seen_unfinished_blocks s then (True, s)
      else (False, s\<lparr>fs_seen_unfinished_blocks := insert object_hash (fs_seen_unfinished_blocks s)\<rparr>))"

definition clear_seen_unfinished_blocks :: "full_node_store \<Rightarrow> full_node_store" where
  "clear_seen_unfinished_blocks s = s\<lparr>fs_seen_unfinished_blocks := {}\<rparr>"

definition add_unfinished_block ::
  "hasher \<Rightarrow> full_node_store \<Rightarrow> int \<Rightarrow> unfinished_block \<Rightarrow> pre_validation_result \<Rightarrow> full_node_store res" where
  "add_unfinished_block H s height b result =
     rbind (ub_partial_hash H b) (\<lambda>h.
     Inr (s\<lparr>fs_unfinished_blocks := dict_set (fs_unfinished_blocks s) h (height, b, result)\<rparr>))"

definition get_unfinished_block :: "full_node_store \<Rightarrow> bytes \<Rightarrow> unfinished_block option" where
  "get_unfinished_block s h = (case dict_get (fs_unfinished_blocks s) h of None \<Rightarrow> None | Some (_, b, _) \<Rightarrow> Some b)"

definition get_unfinished_block_result :: "full_node_store \<Rightarrow> bytes \<Rightarrow> pre_validation_result option" where
  "get_unfinished_block_result s h = (case dict_get (fs_unfinished_blocks s) h of None \<Rightarrow> None | Some (_, _, r) \<Rightarrow> Some r)"

definition get_unfinished_blocks :: "full_node_store \<Rightarrow> (bytes, int \<times> unfinished_block \<times> pre_validation_result) dict" where
  "get_unfinished_blocks s = fs_unfinished_blocks s"

definition clear_unfinished_blocks_below :: "full_node_store \<Rightarrow> int \<Rightarrow> full_node_store res" where
  "clear_unfinished_blocks_below s height =
     rbind (rfold dict_del (fs_unfinished_blocks s) (keys_below height (fs_unfinished_blocks s))) (\<lambda>d.
     Inr (s\<lparr>fs_unfinished_blocks := d\<rparr>))"

definition remove_unfinished_block :: "full_node_store \<Rightarrow> bytes \<Rightarrow> full_node_store" where
  "remove_unfinished_block s h =
     (if dict_mem (fs_unfinished_blocks s) h then s\<lparr>fs_unfinished_blocks := dict_pop (fs_unfinished_blocks s) h\<rparr> else s)"

section \<open>What came too early\<close>

definition dict_list :: "('k, 'v list) dict \<Rightarrow> 'k \<Rightarrow> 'v list" where
  "dict_list d k = (case dict_get d k of None \<Rightarrow> [] | Some vs \<Rightarrow> vs)"

definition dict_append :: "('k, 'v list) dict \<Rightarrow> 'k \<Rightarrow> 'v \<Rightarrow> ('k, 'v list) dict" where
  "dict_append d k v = dict_set d k (dict_list d k @ [v])"

definition add_to_future_ip :: "full_node_store \<Rightarrow> new_infusion_point_vdf \<Rightarrow> full_node_store" where
  "add_to_future_ip s ip =
     s\<lparr>fs_future_ip_cache := dict_append (fs_future_ip_cache s) (vi_challenge (ni_reward_chain_ip_vdf ip)) ip\<rparr>"

definition in_future_sp_cache :: "full_node_store \<Rightarrow> signage_point \<Rightarrow> int \<Rightarrow> bool" where
  "in_future_sp_cache s sp index =
     (case sg_rc_vdf sp of
        None \<Rightarrow> False
      | Some rc \<Rightarrow>
          (case dict_get (fs_future_sp_cache s) (vi_challenge rc) of
             None \<Rightarrow> False
           | Some cached \<Rightarrow> list_ex (\<lambda>(i, c). i = index \<and> sg_rc_vdf c = sg_rc_vdf sp) cached))"

definition add_to_future_sp :: "int \<Rightarrow> full_node_store \<Rightarrow> signage_point \<Rightarrow> int \<Rightarrow> full_node_store" where
  "add_to_future_sp now s sp index =
     (case (sg_cc_vdf sp, sg_rc_vdf sp, sg_cc_proof sp, sg_rc_proof sp) of
        (Some _, Some rc, Some _, Some _) \<Rightarrow>
          let ch = vi_challenge rc; s1 = s\<lparr>fs_future_sp_cache := dict_set (fs_future_sp_cache s) ch (dict_list (fs_future_sp_cache s) ch)\<rparr>
          in if in_future_sp_cache s1 sp index then s1
             else s1\<lparr>fs_future_cache_key_times := dict_set (fs_future_cache_key_times s1) ch now,
                     fs_future_sp_cache := dict_append (fs_future_sp_cache s1) ch (index, sp)\<rparr>
      | _ \<Rightarrow> s)"

definition get_future_ip :: "full_node_store \<Rightarrow> bytes \<Rightarrow> new_infusion_point_vdf list" where
  "get_future_ip s rc_challenge_hash = dict_list (fs_future_ip_cache s) rc_challenge_hash"

definition clear_old_cache_entries :: "int \<Rightarrow> full_node_store \<Rightarrow> full_node_store" where
  "clear_old_cache_entries now s =
     (let remove_keys = map fst (filter (\<lambda>(k, time_added). now - time_added > 3600) (fs_future_cache_key_times s))
      in s\<lparr>fs_future_cache_key_times := foldl dict_pop (fs_future_cache_key_times s) remove_keys,
           fs_future_ip_cache := foldl dict_pop (fs_future_ip_cache s) remove_keys,
           fs_future_eos_cache := foldl dict_pop (fs_future_eos_cache s) remove_keys,
           fs_future_sp_cache := foldl dict_pop (fs_future_sp_cache s) remove_keys\<rparr>)"

section \<open>Finished sub-slots\<close>

fun find_sub_slot ::
  "hasher \<Rightarrow> bytes \<Rightarrow> int \<Rightarrow> slot_entry list \<Rightarrow> (end_of_sub_slot_bundle \<times> int \<times> int) option res" where
  "find_sub_slot H challenge_hash index [] = Inr None"
| "find_sub_slot H challenge_hash index ((None, _, _) # entries) = find_sub_slot H challenge_hash (index + 1) entries"
| "find_sub_slot H challenge_hash index ((Some slot, _, total_iters) # entries) =
     rbind (cc_hash H slot) (\<lambda>h.
     if h = challenge_hash then Inr (Some (slot, index, total_iters))
     else find_sub_slot H challenge_hash (index + 1) entries)"

definition get_sub_slot ::
  "hasher \<Rightarrow> full_node_store \<Rightarrow> bytes \<Rightarrow> (end_of_sub_slot_bundle \<times> int \<times> int) option res" where
  "get_sub_slot H s challenge_hash =
     rbind (rguard AssertionError (length (fs_finished_sub_slots s) \<ge> 1)) (\<lambda>_.
     find_sub_slot H challenge_hash 0 (fs_finished_sub_slots s))"

text \<open>What \<open>new_finished_sub_slot\<close> decides: the slot is present already, it is not accepted, it depends on a block that is
  not the peak yet, or it is the next slot and ends at the given number of iterations.\<close>

datatype eos_verdict = Eos_Present | Eos_Rejected | Eos_Early bytes | Eos_Next int

text \<open>The challenges, iterations and start elements that the VDFs of the slot must have.\<close>

record eos_base =
  eb_rc_challenge :: bytes
  eb_iters :: int
  eb_cc_start :: bytes
  eb_icc :: "(bytes \<times> int) option"
  eb_icc_start :: "bytes option"

definition view_of_block :: "full_block \<Rightarrow> block_view" where
  "view_of_block b =
     \<lparr>bv_prev_header_hash = fb_prev_header_hash b, bv_signage_point_index = rb_signage_point_index (fb_reward_chain_block b),
      bv_total_iters = fb_total_iters b,
      bv_finished_sub_slots =
        map (\<lambda>s. \<lparr>sv_new_difficulty = cc_new_difficulty (es_challenge_chain s),
                  sv_subepoch_summary_hash = cc_subepoch_summary_hash (es_challenge_chain s)\<rparr>) (fb_finished_sub_slots b)\<rparr>"

text \<open>The infused challenge chain of the peak's slot: its challenge and the iterations since.\<close>

definition peak_icc :: "consensus_constants \<Rightarrow> block_cache \<Rightarrow> block_record \<Rightarrow> int \<Rightarrow> (bytes \<times> int) option res" where
  "peak_icc constants blocks peak total_iters =
     (if \<not> br_deficit peak < MIN_BLOCKS_PER_CHALLENGE_BLOCK constants then Inr None
      else
        rbind (walk_back blocks (\<lambda>b. \<not> first_in_sub_slot b \<and> \<not> is_challenge_block b constants) peak) (\<lambda>cur.
        if is_challenge_block cur constants then
          rbind (uint64 (total_iters - br_total_iters cur)) (\<lambda>i. Inr (Some (br_challenge_block_info_hash cur, i)))
        else
          rbind (last_hash (br_finished_infused_challenge_slot_hashes cur)) (\<lambda>h. Inr (Some (h, br_sub_slot_iters peak)))))"

text \<open>Whether the slot carries the sub-epoch summary that it should.\<close>

definition eos_summary_ok ::
  "header_lib \<Rightarrow> consensus_constants \<Rightarrow> block_cache \<Rightarrow> block_record \<Rightarrow> full_block \<Rightarrow> end_of_sub_slot_bundle \<Rightarrow> bool res" where
  "eos_summary_ok L constants blocks peak peak_full_block eos =
     rbind (can_finish_sub_and_full_epoch constants blocks (br_height peak) (Some (br_prev_hash peak)) (br_deficit peak)
              (br_sub_epoch_summary_included peak \<noteq> None)) (\<lambda>(can_finish, _).
     if \<not> can_finish then Inr True
     else
       rbind (next_sub_epoch_summary (hl_std_hash L) constants blocks (br_required_iters peak) (view_of_block peak_full_block)
                True) (\<lambda>ses.
       case ses of
         Some ses \<Rightarrow> rbind (ses_get_hash (hl_std_hash L) ses) (\<lambda>h.
                     Inr (cc_subepoch_summary_hash (es_challenge_chain eos) = Some h))
       | None \<Rightarrow> Inr (cc_subepoch_summary_hash (es_challenge_chain eos) = None)))"

text \<open>The peak lies in the slot that \<open>eos\<close> finishes.\<close>

definition eos_after_peak ::
  "header_lib \<Rightarrow> consensus_constants \<Rightarrow> block_cache \<Rightarrow> block_record \<Rightarrow> full_block \<Rightarrow> end_of_sub_slot_bundle \<Rightarrow> int
     \<Rightarrow> (eos_verdict + eos_base) res" where
  "eos_after_peak L constants blocks peak peak_full_block eos total_iters =
     (if total_iters < br_total_iters peak then Inr (Inl Eos_Rejected)
      else
        let rc_challenge = vi_challenge (rc_end_of_slot_vdf (es_reward_chain eos)) in
        rbind (uint64 (total_iters - br_total_iters peak)) (\<lambda>iters.
        if br_reward_infusion_new_challenge peak \<noteq> rc_challenge then Inr (Inl (Eos_Early rc_challenge))
        else
          rbind (peak_icc constants blocks peak total_iters) (\<lambda>icc.
          rbind (eos_summary_ok L constants blocks peak peak_full_block eos) (\<lambda>ok.
          if \<not> ok then Inr (Inl Eos_Rejected)
          else
            Inr (Inr \<lparr>eb_rc_challenge = rc_challenge, eb_iters = iters, eb_cc_start = br_challenge_vdf_output peak,
                      eb_icc = icc,
                      eb_icc_start =
                        (if br_deficit peak = MIN_BLOCKS_PER_CHALLENGE_BLOCK constants then None
                         else if br_deficit peak = MIN_BLOCKS_PER_CHALLENGE_BLOCK constants - 1 then Some default_element
                         else br_infused_challenge_vdf_output peak)\<rparr>)))))"

text \<open>No block lies in the slot.\<close>

definition eos_on_empty_slot ::
  "header_lib \<Rightarrow> consensus_constants \<Rightarrow> end_of_sub_slot_bundle option \<Rightarrow> bytes \<Rightarrow> int \<Rightarrow> eos_base res" where
  "eos_on_empty_slot L constants last_slot rc_challenge sub_slot_iters =
     rbind (case last_slot of
              None \<Rightarrow> Inr None
            | Some l \<Rightarrow>
                (case es_infused_challenge_chain l of
                   None \<Rightarrow> Inr None
                 | Some i \<Rightarrow>
                     if rc_deficit (es_reward_chain l) \<noteq> MIN_BLOCKS_PER_CHALLENGE_BLOCK constants
                     then rbind (icc_hash (hl_std_hash L) i) (\<lambda>h. Inr (Some (h, sub_slot_iters)))
                     else Inr None)) (\<lambda>icc.
     Inr \<lparr>eb_rc_challenge = rc_challenge, eb_iters = sub_slot_iters, eb_cc_start = default_element, eb_icc = icc,
          eb_icc_start = Some default_element\<rparr>)"

definition eos_base_of ::
  "header_lib \<Rightarrow> consensus_constants \<Rightarrow> block_cache \<Rightarrow> block_record option \<Rightarrow> full_block option \<Rightarrow> end_of_sub_slot_bundle
     \<Rightarrow> end_of_sub_slot_bundle option \<times> int \<Rightarrow> bytes \<Rightarrow> int \<Rightarrow> int \<Rightarrow> (eos_verdict + eos_base) res" where
  "eos_base_of L constants blocks peak peak_full_block eos last_entry rc_challenge sub_slot_iters total_iters =
     (case last_entry of (last_slot, last_slot_iters) \<Rightarrow>
      (case (peak, peak_full_block) of
         (Some p, Some b) \<Rightarrow>
           if br_total_iters p > last_slot_iters then eos_after_peak L constants blocks p b eos total_iters
           else rbind (eos_on_empty_slot L constants last_slot rc_challenge sub_slot_iters) (\<lambda>base. Inr (Inr base))
       | _ \<Rightarrow> rbind (eos_on_empty_slot L constants last_slot rc_challenge sub_slot_iters) (\<lambda>base. Inr (Inr base))))"

text \<open>A proof from \<open>start\<close> for \<open>partial\<close>, or, when normalised, from the default element for the whole \<open>info\<close>.\<close>

definition normalized_ok ::
  "header_lib \<Rightarrow> consensus_constants \<Rightarrow> vdf_proof \<Rightarrow> bytes \<Rightarrow> vdf_info \<Rightarrow> vdf_info \<Rightarrow> bool" where
  "normalized_ok L constants p start partial info =
     (\<not> (\<not> vp_normalized_to_identity p \<and> \<not> vdf_is_valid L constants p start partial None) \<and>
      \<not> (vp_normalized_to_identity p \<and> \<not> vdf_is_valid L constants p default_element info None))"

definition eos_icc_ok ::
  "header_lib \<Rightarrow> consensus_constants \<Rightarrow> eos_base \<Rightarrow> end_of_sub_slot_bundle \<Rightarrow> bool res" where
  "eos_icc_ok L constants base eos =
     (case eb_icc base of
        None \<Rightarrow> Inr (es_infused_challenge_chain eos = None \<and> sl_infused_challenge_chain_slot_proof (es_proofs eos) = None)
      | Some (icc_challenge, icc_iters) \<Rightarrow>
          (case (eb_icc_start base, es_infused_challenge_chain eos, sl_infused_challenge_chain_slot_proof (es_proofs eos)) of
             (Some start, Some i, Some p) \<Rightarrow>
               let vdf = icc_infused_challenge_chain_end_of_slot_vdf i;
                   partial = \<lparr>vi_challenge = icc_challenge, vi_number_of_iterations = eb_iters base, vi_output = vi_output vdf\<rparr>
               in Inr (vdf = partial\<lparr>vi_number_of_iterations := icc_iters\<rparr> \<and> normalized_ok L constants p start partial vdf)
           | _ \<Rightarrow> Inl AssertionError))"

definition eos_vdfs_ok ::
  "header_lib \<Rightarrow> consensus_constants \<Rightarrow> eos_base \<Rightarrow> bytes \<Rightarrow> int \<Rightarrow> end_of_sub_slot_bundle \<Rightarrow> bool res" where
  "eos_vdfs_ok L constants base cc_challenge sub_slot_iters eos =
     (let cc_vdf = cc_challenge_chain_end_of_slot_vdf (es_challenge_chain eos);
          rc_vdf = rc_end_of_slot_vdf (es_reward_chain eos);
          partial = \<lparr>vi_challenge = cc_challenge, vi_number_of_iterations = eb_iters base, vi_output = vi_output cc_vdf\<rparr>;
          rc_target = \<lparr>vi_challenge = eb_rc_challenge base, vi_number_of_iterations = eb_iters base, vi_output = vi_output rc_vdf\<rparr>
      in
      if cc_vdf \<noteq> partial\<lparr>vi_number_of_iterations := sub_slot_iters\<rparr> then Inr False
      else if \<not> normalized_ok L constants (sl_challenge_chain_slot_proof (es_proofs eos)) (eb_cc_start base) partial cc_vdf
      then Inr False
      else if \<not> vdf_is_valid L constants (sl_reward_chain_slot_proof (es_proofs eos)) default_element rc_vdf (Some rc_target)
      then Inr False
      else eos_icc_ok L constants base eos)"

text \<open>\<open>new_finished_sub_slot\<close> up to the change of the store.\<close>

definition eos_check ::
  "header_lib \<Rightarrow> consensus_constants \<Rightarrow> slot_entry list \<Rightarrow> end_of_sub_slot_bundle \<Rightarrow> block_cache \<Rightarrow> block_record option
     \<Rightarrow> full_block option \<Rightarrow> eos_verdict res" where
  "eos_check L constants entries eos blocks peak peak_full_block =
     rbind (rguard AssertionError (length entries \<ge> 1)) (\<lambda>_.
     rbind (rguard AssertionError ((peak = None) = (peak_full_block = None))) (\<lambda>_.
     case last entries of (last_slot, _, last_slot_iters) \<Rightarrow>
     rbind (case last_slot of None \<Rightarrow> Inr (GENESIS_CHALLENGE constants) | Some l \<Rightarrow> cc_hash (hl_std_hash L) l) (\<lambda>cc_challenge.
     rbind (case last_slot of None \<Rightarrow> Inr (GENESIS_CHALLENGE constants) | Some l \<Rightarrow> rc_hash (hl_std_hash L) l) (\<lambda>rc_challenge.
     if Some eos \<in> set (map fst entries) then Inr Eos_Present
     else if vi_challenge (cc_challenge_chain_end_of_slot_vdf (es_challenge_chain eos)) \<noteq> cc_challenge then Inr Eos_Rejected
     else
       let sub_slot_iters = (case peak of None \<Rightarrow> SUB_SLOT_ITERS_STARTING constants | Some p \<Rightarrow> br_sub_slot_iters p) in
       rbind (uint128 (last_slot_iters + sub_slot_iters)) (\<lambda>total_iters.
       rbind (eos_base_of L constants blocks peak peak_full_block eos (last_slot, last_slot_iters) rc_challenge sub_slot_iters
                total_iters) (\<lambda>found.
       case found of
         Inl verdict \<Rightarrow> Inr verdict
       | Inr base \<Rightarrow>
           rbind (eos_vdfs_ok L constants base cc_challenge sub_slot_iters eos) (\<lambda>ok.
           Inr (if ok then Eos_Next total_iters else Eos_Rejected))))))))"

definition cache_eos :: "int \<Rightarrow> full_node_store \<Rightarrow> bytes \<Rightarrow> end_of_sub_slot_bundle \<Rightarrow> full_node_store" where
  "cache_eos now s rc_challenge eos =
     s\<lparr>fs_future_eos_cache := dict_append (fs_future_eos_cache s) rc_challenge eos,
       fs_future_cache_key_times := dict_set (fs_future_cache_key_times s) rc_challenge now\<rparr>"

definition append_slot :: "consensus_constants \<Rightarrow> full_node_store \<Rightarrow> end_of_sub_slot_bundle \<Rightarrow> int \<Rightarrow> full_node_store" where
  "append_slot constants s eos total_iters =
     s\<lparr>fs_finished_sub_slots := fs_finished_sub_slots s @ [(Some eos, no_sps constants, total_iters)]\<rparr>"

definition put_recent_eos :: "int \<Rightarrow> full_node_store \<Rightarrow> bytes \<Rightarrow> end_of_sub_slot_bundle \<Rightarrow> full_node_store" where
  "put_recent_eos now s h eos = s\<lparr>fs_recent_eos := lru_put (fs_recent_eos s) h (eos, now)\<rparr>"

definition new_finished_sub_slot ::
  "header_lib \<Rightarrow> consensus_constants \<Rightarrow> int \<Rightarrow> full_node_store \<Rightarrow> end_of_sub_slot_bundle \<Rightarrow> block_cache \<Rightarrow> block_record option
     \<Rightarrow> full_block option \<Rightarrow> new_infusion_point_vdf list option res \<times> full_node_store" where
  "new_finished_sub_slot L constants now s eos blocks peak peak_full_block =
     (case eos_check L constants (fs_finished_sub_slots s) eos blocks peak peak_full_block of
        Inl e \<Rightarrow> (Inl e, s)
      | Inr Eos_Present \<Rightarrow> (Inr (Some []), s)
      | Inr Eos_Rejected \<Rightarrow> (Inr None, s)
      | Inr (Eos_Early rc_challenge) \<Rightarrow> (Inr None, cache_eos now s rc_challenge eos)
      | Inr (Eos_Next total_iters) \<Rightarrow>
          let s1 = append_slot constants s eos total_iters in
          (case cc_hash (hl_std_hash L) eos of
             Inl e \<Rightarrow> (Inl e, s1)
           | Inr h \<Rightarrow>
               let s2 = put_recent_eos now s1 h eos in
               (case rc_hash (hl_std_hash L) eos of
                  Inl e \<Rightarrow> (Inl e, s2)
                | Inr rc \<Rightarrow> (Inr (Some (dict_list (fs_future_ip_cache s2) rc)), s2))))"

section \<open>Signage points\<close>

text \<open>The challenge and the reward chain hash at the start of a slot.\<close>

definition entry_hashes :: "header_lib \<Rightarrow> consensus_constants \<Rightarrow> slot_entry \<Rightarrow> (bytes \<times> bytes) res" where
  "entry_hashes L constants e =
     (case e of (slot, _, start) \<Rightarrow>
      (case slot of
         None \<Rightarrow> rbind (rguard AssertionError (start = 0)) (\<lambda>_. Inr (GENESIS_CHALLENGE constants, GENESIS_CHALLENGE constants))
       | Some b \<Rightarrow> rbind (cc_hash (hl_std_hash L) b) (\<lambda>cc. rbind (rc_hash (hl_std_hash L) b) (\<lambda>rc. Inr (cc, rc)))))"

text \<open>The first slot with the given challenge: its index, reward chain hash and iterations.\<close>

fun find_sp_slot ::
  "header_lib \<Rightarrow> consensus_constants \<Rightarrow> bytes \<Rightarrow> nat \<Rightarrow> slot_entry list \<Rightarrow> (nat \<times> bytes \<times> int) option res" where
  "find_sp_slot L constants challenge n [] = Inr None"
| "find_sp_slot L constants challenge n (e # entries) =
     rbind (entry_hashes L constants e) (\<lambda>(cc, rc).
     if cc = challenge then Inr (Some (n, rc, snd (snd e))) else find_sp_slot L constants challenge (n + 1) entries)"

text \<open>The loop for the last block of the slot before the signage point; the flag says that there is none.\<close>

definition sp_base_step :: "block_cache \<Rightarrow> bool \<times> block_record \<Rightarrow> (bool \<times> block_record) res" where
  "sp_base_step blocks st =
     (case st of (_, cur) \<Rightarrow>
        if first_in_sub_slot cur then Inr (True, cur) else rbind (prev_block blocks cur) (\<lambda>b. Inr (False, b)))"

definition sp_base ::
  "block_cache \<Rightarrow> block_record option \<Rightarrow> bool \<Rightarrow> int \<Rightarrow> int \<Rightarrow> block_record option res" where
  "sp_base blocks peak future_sub_slot start sp_total =
     (case peak of
        None \<Rightarrow> Inr None
      | Some p \<Rightarrow>
          if future_sub_slot then Inr None
          else
            rbind (loop_while (\<lambda>(from_start, cur). \<not> from_start \<and> br_total_iters cur > start \<and> br_total_iters cur > sp_total)
                     (sp_base_step blocks) (False, p)) (\<lambda>(from_start, cur).
            Inr (if from_start then None else Some cur)))"

text \<open>Whether a signage point at \<open>index\<close> of a slot that starts at \<open>start\<close> is right.\<close>

definition sp_check ::
  "header_lib \<Rightarrow> consensus_constants \<Rightarrow> int \<Rightarrow> block_cache \<Rightarrow> block_record option \<Rightarrow> int \<Rightarrow> int \<Rightarrow> bytes \<Rightarrow> bytes \<Rightarrow> int
     \<Rightarrow> vdf_info \<Rightarrow> vdf_proof \<Rightarrow> vdf_info \<Rightarrow> vdf_proof \<Rightarrow> bool \<Rightarrow> bool res" where
  "sp_check L constants index blocks peak sub_slot_iters next_sub_slot_iters cc_challenge ss_reward_hash start cc_vdf cc_proof
       rc_vdf rc_proof skip_vdf_validation =
     (let future_sub_slot = (case peak of None \<Rightarrow> False | Some p \<Rightarrow> start > br_total_iters p) in
      rbind (rdiv (if future_sub_slot then next_sub_slot_iters else sub_slot_iters) (NUM_SPS_SUB_SLOT constants)) (\<lambda>size.
      rbind (uint64 size) (\<lambda>checkpoint_size.
      rbind (uint64 (checkpoint_size * index)) (\<lambda>delta_iters.
      let sp_total = start + delta_iters in
      rbind (sp_base blocks peak future_sub_slot start sp_total) (\<lambda>base.
      rbind (case base of
               None \<Rightarrow> Inr (delta_iters, ss_reward_hash, default_element)
             | Some cur \<Rightarrow>
                 rbind (uint64 (sp_total - br_total_iters cur)) (\<lambda>iters.
                 Inr (iters, br_reward_infusion_new_challenge cur, br_challenge_vdf_output cur))) (\<lambda>(iters, rc_challenge, start_ele).
      let cc_expected = \<lparr>vi_challenge = cc_challenge, vi_number_of_iterations = iters, vi_output = vi_output cc_vdf\<rparr>;
          rc_expected = \<lparr>vi_challenge = rc_challenge, vi_number_of_iterations = iters, vi_output = vi_output rc_vdf\<rparr>
      in Inr (cc_vdf = cc_expected\<lparr>vi_number_of_iterations := delta_iters\<rparr> \<and>
              (skip_vdf_validation \<or> normalized_ok L constants cc_proof start_ele cc_expected cc_vdf) \<and>
              vi_challenge rc_expected = vi_challenge rc_vdf \<and>
              (skip_vdf_validation \<or> vdf_is_valid L constants rc_proof default_element rc_vdf (Some rc_expected)))))))))"

definition set_sp :: "full_node_store \<Rightarrow> nat \<Rightarrow> int \<Rightarrow> signage_point \<Rightarrow> full_node_store" where
  "set_sp s n index sp =
     s\<lparr>fs_finished_sub_slots := (fs_finished_sub_slots s)[n := (case fs_finished_sub_slots s ! n of (slot, sps, start) \<Rightarrow>
         (slot, sps[nat index := Some sp], start))]\<rparr>"

definition new_signage_point ::
  "header_lib \<Rightarrow> consensus_constants \<Rightarrow> int \<Rightarrow> full_node_store \<Rightarrow> int \<Rightarrow> block_cache \<Rightarrow> block_record option \<Rightarrow> int \<Rightarrow> signage_point
     \<Rightarrow> bool \<Rightarrow> bool res \<times> full_node_store" where
  "new_signage_point L constants now s index blocks peak next_sub_slot_iters sp skip_vdf_validation =
     (if length (fs_finished_sub_slots s) < 1 then (Inl AssertionError, s)
      else
        let sub_slot_iters = (case peak of
                                None \<Rightarrow> SUB_SLOT_ITERS_STARTING constants
                              | Some p \<Rightarrow> if br_height p < 2 then SUB_SLOT_ITERS_STARTING constants else br_sub_slot_iters p)
        in
        if index = 0 \<or> index \<ge> NUM_SPS_SUB_SLOT constants then (Inr False, s)
        else
          (case (sg_cc_vdf sp, sg_cc_proof sp, sg_rc_vdf sp, sg_rc_proof sp) of
             (Some cc_vdf, Some cc_proof, Some rc_vdf, Some rc_proof) \<Rightarrow>
               (case find_sp_slot L constants (vi_challenge cc_vdf) 0 (fs_finished_sub_slots s) of
                  Inl e \<Rightarrow> (Inl e, s)
                | Inr None \<Rightarrow> (Inr False, add_to_future_sp now s sp index)
                | Inr (Some (n, ss_reward_hash, start)) \<Rightarrow>
                    (case sp_check L constants index blocks peak sub_slot_iters next_sub_slot_iters (vi_challenge cc_vdf)
                            ss_reward_hash start cc_vdf cc_proof rc_vdf rc_proof skip_vdf_validation of
                       Inl e \<Rightarrow> (Inl e, s)
                     | Inr False \<Rightarrow> (Inr False, add_to_future_sp now s sp index)
                     | Inr True \<Rightarrow>
                         let s1 = set_sp s n index sp in
                         (case output_hash L cc_vdf of
                            Inl e \<Rightarrow> (Inl e, s1)
                          | Inr h \<Rightarrow> (Inr True, s1\<lparr>fs_recent_signage_points := lru_put (fs_recent_signage_points s1) h (sp, now)\<rparr>))))
           | _ \<Rightarrow> (Inl AssertionError, s)))"

definition entry_cc_hash :: "header_lib \<Rightarrow> consensus_constants \<Rightarrow> slot_entry \<Rightarrow> bytes res" where
  "entry_cc_hash L constants e =
     (case fst e of None \<Rightarrow> Inr (GENESIS_CHALLENGE constants) | Some slot \<Rightarrow> cc_hash (hl_std_hash L) slot)"

fun find_sp :: "header_lib \<Rightarrow> bytes \<Rightarrow> signage_point option list \<Rightarrow> signage_point option res" where
  "find_sp L cc_signage_point [] = Inr None"
| "find_sp L cc_signage_point (None # sps) = find_sp L cc_signage_point sps"
| "find_sp L cc_signage_point (Some sp # sps) =
     (case sg_cc_vdf sp of
        None \<Rightarrow> Inl AssertionError
      | Some v \<Rightarrow> rbind (output_hash L v) (\<lambda>h. if h = cc_signage_point then Inr (Some sp) else find_sp L cc_signage_point sps))"

fun find_signage_point :: "header_lib \<Rightarrow> bytes \<Rightarrow> slot_entry list \<Rightarrow> signage_point option res" where
  "find_signage_point L cc_signage_point [] = Inr None"
| "find_signage_point L cc_signage_point ((slot, sps, _) # entries) =
     rbind (case slot of None \<Rightarrow> Inr False | Some b \<Rightarrow> rbind (cc_hash (hl_std_hash L) b) (\<lambda>h. Inr (h = cc_signage_point))) (\<lambda>here.
     if here then Inr (Some empty_sp)
     else
       rbind (find_sp L cc_signage_point sps) (\<lambda>found.
       case found of Some sp \<Rightarrow> Inr (Some sp) | None \<Rightarrow> find_signage_point L cc_signage_point entries))"

definition get_signage_point ::
  "header_lib \<Rightarrow> consensus_constants \<Rightarrow> full_node_store \<Rightarrow> bytes \<Rightarrow> signage_point option res" where
  "get_signage_point L constants s cc_signage_point =
     rbind (rguard AssertionError (length (fs_finished_sub_slots s) \<ge> 1)) (\<lambda>_.
     if cc_signage_point = GENESIS_CHALLENGE constants then Inr (Some empty_sp)
     else find_signage_point L cc_signage_point (fs_finished_sub_slots s))"

fun find_sp_by_index ::
  "header_lib \<Rightarrow> consensus_constants \<Rightarrow> bytes \<Rightarrow> int \<Rightarrow> bytes \<Rightarrow> slot_entry list \<Rightarrow> signage_point option res" where
  "find_sp_by_index L constants challenge_hash index last_rc_infusion [] = Inr None"
| "find_sp_by_index L constants challenge_hash index last_rc_infusion (e # entries) =
     rbind (entry_cc_hash L constants e) (\<lambda>h.
     if h \<noteq> challenge_hash then find_sp_by_index L constants challenge_hash index last_rc_infusion entries
     else if index = 0 then Inr (Some empty_sp)
     else
       rbind (py_index (fst (snd e)) index) (\<lambda>found.
       case found of
         None \<Rightarrow> Inr None
       | Some sp \<Rightarrow>
           (case sg_rc_vdf sp of
              None \<Rightarrow> Inl AssertionError
            | Some v \<Rightarrow> Inr (if vi_challenge v = last_rc_infusion then Some sp else None))))"

definition get_signage_point_by_index ::
  "header_lib \<Rightarrow> consensus_constants \<Rightarrow> full_node_store \<Rightarrow> bytes \<Rightarrow> int \<Rightarrow> bytes \<Rightarrow> signage_point option res" where
  "get_signage_point_by_index L constants s challenge_hash index last_rc_infusion =
     rbind (rguard AssertionError (length (fs_finished_sub_slots s) \<ge> 1)) (\<lambda>_.
     find_sp_by_index L constants challenge_hash index last_rc_infusion (fs_finished_sub_slots s))"

definition sp_rc_challenge_of :: "signage_point option \<Rightarrow> bytes option" where
  "sp_rc_challenge_of sp = (case sp of None \<Rightarrow> None | Some p \<Rightarrow> map_option vi_challenge (sg_rc_vdf p))"

fun find_newer_sp ::
  "header_lib \<Rightarrow> consensus_constants \<Rightarrow> bytes \<Rightarrow> int \<Rightarrow> bytes \<Rightarrow> slot_entry list \<Rightarrow> bool res" where
  "find_newer_sp L constants challenge_hash index last_rc_infusion [] = Inr False"
| "find_newer_sp L constants challenge_hash index last_rc_infusion (e # entries) =
     rbind (entry_cc_hash L constants e) (\<lambda>h.
     if h \<noteq> challenge_hash then find_newer_sp L constants challenge_hash index last_rc_infusion entries
     else
       rbind (rmap (py_index (fst (snd e))) (map int [0..<nat index])) (\<lambda>before.
       rbind (py_index (fst (snd e)) index) (\<lambda>sp.
       let found_rc_hash = (\<exists>p \<in> set before. sp_rc_challenge_of p = Some last_rc_infusion) in
       if found_rc_hash \<and> sp_rc_challenge_of sp \<noteq> None \<and> sp_rc_challenge_of sp \<noteq> Some last_rc_infusion then Inr True
       else find_newer_sp L constants challenge_hash index last_rc_infusion entries)))"

definition have_newer_signage_point ::
  "header_lib \<Rightarrow> consensus_constants \<Rightarrow> full_node_store \<Rightarrow> bytes \<Rightarrow> int \<Rightarrow> bytes \<Rightarrow> bool res" where
  "have_newer_signage_point L constants s challenge_hash index last_rc_infusion =
     rbind (rguard AssertionError (length (fs_finished_sub_slots s) \<ge> 1)) (\<lambda>_.
     find_newer_sp L constants challenge_hash index last_rc_infusion (fs_finished_sub_slots s))"

section \<open>A new peak\<close>

text \<open>The signage points of a kept slot that lie before the fork.\<close>

definition sps_before :: "int \<Rightarrow> int \<Rightarrow> int \<Rightarrow> signage_point option list \<Rightarrow> signage_point option list" where
  "sps_before fork_iters interval_iters total_iters sps =
     map (\<lambda>(i, sp). if total_iters + int i * interval_iters < fork_iters then sp else None) (enumerate 0 sps)"

definition carried_sps ::
  "consensus_constants \<Rightarrow> int \<Rightarrow> int \<Rightarrow> slot_entry list \<Rightarrow> end_of_sub_slot_bundle option \<Rightarrow> signage_point option list" where
  "carried_sps constants fork_iters interval_iters entries sub =
     foldl (\<lambda>acc (slot, sps, total_iters).
              if slot \<noteq> None \<and> slot = sub then sps_before fork_iters interval_iters total_iters sps else acc)
       (no_sps constants) entries"

text \<open>The one or two slots of the peak.\<close>

definition set_peak_slots ::
  "consensus_constants \<Rightarrow> full_node_store \<Rightarrow> block_record \<Rightarrow> end_of_sub_slot_bundle option \<Rightarrow> end_of_sub_slot_bundle
     \<Rightarrow> block_record option \<Rightarrow> unit res \<times> full_node_store" where
  "set_peak_slots constants s peak sp_sub_slot ip_sub_slot fork_block =
     (let entries = fs_finished_sub_slots s;
          fork_iters = br_total_iters (case fork_block of None \<Rightarrow> peak | Some b \<Rightarrow> b)
      in
      case (if fork_block \<noteq> None \<and> br_sub_slot_iters (the fork_block) \<noteq> br_sub_slot_iters peak
            then Inr (no_sps constants, no_sps constants)
            else
              rbind (calculate_sp_interval_iters constants (br_sub_slot_iters peak)) (\<lambda>interval_iters.
              Inr (carried_sps constants fork_iters interval_iters entries sp_sub_slot,
                   carried_sps constants fork_iters interval_iters entries (Some ip_sub_slot)))) of
        Inl e \<Rightarrow> (Inl e, s)
      | Inr (sp_sub_slot_sps, ip_sub_slot_sps) \<Rightarrow>
          let s1 = clear_slots s in
          (case sp_sub_slot_total_iters peak constants of
             Inl e \<Rightarrow> (Inl e, s1)
           | Inr prev_sub_slot_total_iters \<Rightarrow>
               let two = (sp_sub_slot \<noteq> None \<or> prev_sub_slot_total_iters = 0);
                   s2 = (if two then s1\<lparr>fs_finished_sub_slots := [(sp_sub_slot, sp_sub_slot_sps, prev_sub_slot_total_iters)]\<rparr> else s1)
               in
               if two \<and> \<not> (br_overflow peak \<or> prev_sub_slot_total_iters \<noteq> 0) then (Inl AssertionError, s1)
               else
                 (case ip_sub_slot_total_iters peak constants of
                    Inl e \<Rightarrow> (Inl e, s2)
                  | Inr t \<Rightarrow>
                      (Inr (), s2\<lparr>fs_finished_sub_slots := fs_finished_sub_slots s2 @ [(Some ip_sub_slot, ip_sub_slot_sps, t)]\<rparr>))))"

text \<open>The slots and signage points that waited for the peak are tried again.\<close>

fun try_future_eos ::
  "header_lib \<Rightarrow> consensus_constants \<Rightarrow> int \<Rightarrow> block_cache \<Rightarrow> block_record \<Rightarrow> full_block \<Rightarrow> full_node_store
     \<Rightarrow> end_of_sub_slot_bundle list \<Rightarrow> end_of_sub_slot_bundle option res \<times> full_node_store" where
  "try_future_eos L constants now blocks peak peak_full_block s [] = (Inr None, s)"
| "try_future_eos L constants now blocks peak peak_full_block s (eos # rest) =
     (case new_finished_sub_slot L constants now s eos blocks (Some peak) (Some peak_full_block) of
        (Inl e, s') \<Rightarrow> (Inl e, s')
      | (Inr None, s') \<Rightarrow> try_future_eos L constants now blocks peak peak_full_block s' rest
      | (Inr (Some _), s') \<Rightarrow> (Inr (Some eos), s'))"

fun try_future_sps ::
  "header_lib \<Rightarrow> consensus_constants \<Rightarrow> int \<Rightarrow> block_cache \<Rightarrow> block_record \<Rightarrow> full_node_store \<Rightarrow> (int \<times> signage_point) list
     \<Rightarrow> (int \<times> signage_point) list \<Rightarrow> (int \<times> signage_point) list res \<times> full_node_store" where
  "try_future_sps L constants now blocks peak s new_sps [] = (Inr new_sps, s)"
| "try_future_sps L constants now blocks peak s new_sps ((index, sp) # rest) =
     (if sg_cc_vdf sp = None then (Inl AssertionError, s)
      else
        (case new_signage_point L constants now s index blocks (Some peak) (br_sub_slot_iters peak) sp False of
           (Inl e, s') \<Rightarrow> (Inl e, s')
         | (Inr added, s') \<Rightarrow>
             try_future_sps L constants now blocks peak s' (if added then new_sps @ [(index, sp)] else new_sps) rest))"

definition drop_future :: "full_node_store \<Rightarrow> bytes \<Rightarrow> full_node_store" where
  "drop_future s h =
     s\<lparr>fs_future_eos_cache := dict_pop (fs_future_eos_cache s) h, fs_future_sp_cache := dict_pop (fs_future_sp_cache s) h,
       fs_future_ip_cache := dict_pop (fs_future_ip_cache s) h\<rparr>"

fun put_recent_slots ::
  "header_lib \<Rightarrow> int \<Rightarrow> full_node_store \<Rightarrow> slot_entry list \<Rightarrow> unit res \<times> full_node_store" where
  "put_recent_slots L now s [] = (Inr (), s)"
| "put_recent_slots L now s ((None, _, _) # entries) = put_recent_slots L now s entries"
| "put_recent_slots L now s ((Some eos, _, _) # entries) =
     (case cc_hash (hl_std_hash L) eos of
        Inl e \<Rightarrow> (Inl e, s)
      | Inr h \<Rightarrow> put_recent_slots L now (put_recent_eos now s h eos) entries)"

definition retry_future ::
  "header_lib \<Rightarrow> consensus_constants \<Rightarrow> int \<Rightarrow> full_node_store \<Rightarrow> block_record \<Rightarrow> full_block \<Rightarrow> block_cache
     \<Rightarrow> peak_result res \<times> full_node_store" where
  "retry_future L constants now s peak peak_full_block blocks =
     (let key = br_reward_infusion_new_challenge peak in
      case try_future_eos L constants now blocks peak peak_full_block s (dict_list (fs_future_eos_cache s) key) of
        (Inl e, s1) \<Rightarrow> (Inl e, s1)
      | (Inr new_eos, s1) \<Rightarrow>
          (case try_future_sps L constants now blocks peak s1 [] (dict_list (fs_future_sp_cache s1) key) of
             (Inl e, s2) \<Rightarrow> (Inl e, s2)
           | (Inr new_sps, s2) \<Rightarrow>
               let new_ips = dict_list (fs_future_ip_cache s2) key; s3 = drop_future s2 key in
               (case put_recent_slots L now s3 (fs_finished_sub_slots s3) of
                  (Inl e, s4) \<Rightarrow> (Inl e, s4)
                | (Inr _, s4) \<Rightarrow>
                    (Inr \<lparr>pr_added_eos = new_eos, pr_new_signage_points = new_sps, pr_new_infusion_points = new_ips\<rparr>, s4))))"

definition peak_slots ::
  "consensus_constants \<Rightarrow> full_node_store \<Rightarrow> block_record \<Rightarrow> end_of_sub_slot_bundle option \<Rightarrow> end_of_sub_slot_bundle option
     \<Rightarrow> block_record option \<Rightarrow> unit res \<times> full_node_store" where
  "peak_slots constants s peak sp_sub_slot ip_sub_slot fork_block =
     (case ip_sub_slot of
        None \<Rightarrow> (Inr (), initialize_genesis_sub_slot constants s)
      | Some ip \<Rightarrow> set_peak_slots constants s peak sp_sub_slot ip fork_block)"

definition new_peak ::
  "header_lib \<Rightarrow> consensus_constants \<Rightarrow> int \<Rightarrow> full_node_store \<Rightarrow> block_record \<Rightarrow> full_block \<Rightarrow> end_of_sub_slot_bundle option
     \<Rightarrow> end_of_sub_slot_bundle option \<Rightarrow> block_record option \<Rightarrow> block_cache \<Rightarrow> peak_result res \<times> full_node_store" where
  "new_peak L constants now s peak peak_full_block sp_sub_slot ip_sub_slot fork_block blocks =
     (if length (fs_finished_sub_slots s) < 1 then (Inl AssertionError, s)
      else
        (case peak_slots constants s peak sp_sub_slot ip_sub_slot fork_block of
           (Inl e, s1) \<Rightarrow> (Inl e, s1)
         | (Inr _, s1) \<Rightarrow> retry_future L constants now s1 peak peak_full_block blocks))"

section \<open>Sub-slots for a new block\<close>

text \<open>The loop over the slots after the first; the flag says whether the connecting challenge was found.\<close>

fun collect_sub_slots ::
  "hasher \<Rightarrow> bytes \<Rightarrow> bytes \<Rightarrow> bool \<Rightarrow> slot_entry list \<Rightarrow> end_of_sub_slot_bundle list option res" where
  "collect_sub_slots H challenge_in_chain last_challenge_to_add found [] = Inr None"
| "collect_sub_slots H challenge_in_chain last_challenge_to_add found ((None, _, _) # entries) = Inl AssertionError"
| "collect_sub_slots H challenge_in_chain last_challenge_to_add found ((Some slot, _, _) # entries) =
     (let found' = (found \<or> vi_challenge (cc_challenge_chain_end_of_slot_vdf (es_challenge_chain slot)) = challenge_in_chain) in
      if \<not> found' then collect_sub_slots H challenge_in_chain last_challenge_to_add False entries
      else
        rbind (cc_hash H slot) (\<lambda>h.
        if h = last_challenge_to_add then Inr (Some [slot])
        else
          rbind (collect_sub_slots H challenge_in_chain last_challenge_to_add True entries) (\<lambda>rest.
          Inr (map_option (\<lambda>slots. slot # slots) rest))))"

definition challenge_in_chain :: "consensus_constants \<Rightarrow> full_node_store \<Rightarrow> block_cache \<Rightarrow> block_record option \<Rightarrow> bytes res" where
  "challenge_in_chain constants s blocks prev_b =
     (case prev_b of
        None \<Rightarrow>
          rbind (py_index (fs_finished_sub_slots s) 0) (\<lambda>e.
          rbind (rguard AssertionError (fst e = None)) (\<lambda>_. Inr (GENESIS_CHALLENGE constants)))
      | Some b \<Rightarrow>
          rbind (walk_back blocks (\<lambda>b. \<not> first_in_sub_slot b) b) (\<lambda>cur.
          last_hash (br_finished_challenge_slot_hashes cur)))"

definition get_finished_sub_slots ::
  "hasher \<Rightarrow> consensus_constants \<Rightarrow> full_node_store \<Rightarrow> block_cache \<Rightarrow> block_record option \<Rightarrow> bytes
     \<Rightarrow> end_of_sub_slot_bundle list option res" where
  "get_finished_sub_slots H constants s blocks prev_b last_challenge_to_add =
     rbind (challenge_in_chain constants s blocks prev_b) (\<lambda>challenge.
     if last_challenge_to_add = challenge then Inr (Some [])
     else collect_sub_slots H challenge last_challenge_to_add False (tl (fs_finished_sub_slots s)))"

end
