(* ===== verification/FullNodeStoreCorrect.thy ===== *)
theory FullNodeStoreCorrect
  imports FullNodeStore HeaderCorrect
begin

text \<open>
  What the full node store guarantees: an invariant that every operation keeps, that an accepted signage point is found
  again and a refused one is remembered, that the sub-slots for a new block form a linked run, when cached objects are
  forgotten, and that an end of slot that came before its block is taken up when the block becomes the peak.
\<close>

section \<open>The invariant\<close>

definition slot_hash :: "header_lib \<Rightarrow> consensus_constants \<Rightarrow> end_of_sub_slot_bundle option \<Rightarrow> bytes res" where
  "slot_hash L constants slot =
     (case slot of None \<Rightarrow> Inr (GENESIS_CHALLENGE constants) | Some b \<Rightarrow> cc_hash (hl_std_hash L) b)"

definition slot_challenge :: "end_of_sub_slot_bundle \<Rightarrow> bytes" where
  "slot_challenge b = vi_challenge (cc_challenge_chain_end_of_slot_vdf (es_challenge_chain b))"

definition eos_key :: "end_of_sub_slot_bundle \<Rightarrow> bytes" where
  "eos_key b = vi_challenge (rc_end_of_slot_vdf (es_reward_chain b))"

text \<open>A slot follows another one if it starts from its hash.\<close>

definition slot_follows ::
  "header_lib \<Rightarrow> consensus_constants \<Rightarrow> end_of_sub_slot_bundle option \<Rightarrow> end_of_sub_slot_bundle option \<Rightarrow> bool" where
  "slot_follows L constants a b \<longleftrightarrow> (\<exists>slot. b = Some slot \<and> slot_hash L constants a = Inr (slot_challenge slot))"

definition sp_complete :: "signage_point \<Rightarrow> bool" where
  "sp_complete sp \<longleftrightarrow> sg_cc_vdf sp \<noteq> None \<and> sg_cc_proof sp \<noteq> None \<and> sg_rc_vdf sp \<noteq> None \<and> sg_rc_proof sp \<noteq> None"

definition sps_ok :: "consensus_constants \<Rightarrow> bytes res \<Rightarrow> signage_point option list \<Rightarrow> bool" where
  "sps_ok constants h sps \<longleftrightarrow> length sps = nat (NUM_SPS_SUB_SLOT constants) \<and>
     (\<forall>i < length sps. \<forall>sp. sps ! i = Some sp \<longrightarrow> 0 < i \<and> sp_complete sp \<and> h = Inr (vi_challenge (the (sg_cc_vdf sp))))"

definition entry_ok :: "header_lib \<Rightarrow> consensus_constants \<Rightarrow> slot_entry \<Rightarrow> bool" where
  "entry_ok L constants e \<longleftrightarrow>
     sps_ok constants (slot_hash L constants (fst e)) (fst (snd e)) \<and> (fst e = None \<longrightarrow> snd (snd e) = 0)"

definition slots_ok :: "header_lib \<Rightarrow> consensus_constants \<Rightarrow> slot_entry list \<Rightarrow> bool" where
  "slots_ok L constants entries \<longleftrightarrow>
     entries \<noteq> [] \<and> list_all (entry_ok L constants) entries \<and> successively (slot_follows L constants) (map fst entries)"

text \<open>What waits in a cache depends on the reward chain challenge it is stored under.\<close>

definition caches_ok :: "full_node_store \<Rightarrow> bool" where
  "caches_ok s \<longleftrightarrow>
     (\<forall>k. \<forall>eos \<in> set (dict_list (fs_future_eos_cache s) k). eos_key eos = k \<and> dict_mem (fs_future_cache_key_times s) k) \<and>
     (\<forall>k. \<forall>(i, sp) \<in> set (dict_list (fs_future_sp_cache s) k).
        0 \<le> i \<and> sp_complete sp \<and> vi_challenge (the (sg_rc_vdf sp)) = k \<and> dict_mem (fs_future_cache_key_times s) k) \<and>
     (\<forall>k. \<forall>ip \<in> set (dict_list (fs_future_ip_cache s) k). vi_challenge (ni_reward_chain_ip_vdf ip) = k)"

definition node_store_ok :: "header_lib \<Rightarrow> consensus_constants \<Rightarrow> full_node_store \<Rightarrow> bool" where
  "node_store_ok L constants s \<longleftrightarrow> slots_ok L constants (fs_finished_sub_slots s) \<and> caches_ok s"

text \<open>The slots that \<open>new_peak\<close> is given follow one another.\<close>

definition peak_slots_linked ::
  "header_lib \<Rightarrow> consensus_constants \<Rightarrow> end_of_sub_slot_bundle option \<Rightarrow> end_of_sub_slot_bundle option \<Rightarrow> block_record \<Rightarrow> bool" where
  "peak_slots_linked L constants sp_sub_slot ip_sub_slot peak \<longleftrightarrow>
     (ip_sub_slot \<noteq> None \<and> (sp_sub_slot \<noteq> None \<or> sp_sub_slot_total_iters peak constants = Inr 0)
        \<longrightarrow> slot_follows L constants sp_sub_slot ip_sub_slot)"

inductive node_store_reach :: "header_lib \<Rightarrow> consensus_constants \<Rightarrow> full_node_store \<Rightarrow> bool" for L constants where
  create: "node_store_reach L constants (new_full_node_store constants)"
| candidate: "node_store_reach L constants s \<Longrightarrow> node_store_reach L constants (add_candidate_block s q h b backup)"
| clear_candidates: "node_store_reach L constants s \<Longrightarrow> node_store_reach L constants (clear_candidate_blocks_below s h)"
| seen: "node_store_reach L constants s \<Longrightarrow> node_store_reach L constants (snd (seen_unfinished_block s h))"
| clear_seen: "node_store_reach L constants s \<Longrightarrow> node_store_reach L constants (clear_seen_unfinished_blocks s)"
| unfinished: "node_store_reach L constants s \<Longrightarrow> add_unfinished_block (hl_std_hash L) s h b r = Inr s' \<Longrightarrow> node_store_reach L constants s'"
| clear_unfinished: "node_store_reach L constants s \<Longrightarrow> clear_unfinished_blocks_below s h = Inr s' \<Longrightarrow> node_store_reach L constants s'"
| remove_unfinished: "node_store_reach L constants s \<Longrightarrow> node_store_reach L constants (remove_unfinished_block s h)"
| future_ip: "node_store_reach L constants s \<Longrightarrow> node_store_reach L constants (add_to_future_ip s ip)"
| future_sp: "node_store_reach L constants s \<Longrightarrow> 0 \<le> i \<Longrightarrow> node_store_reach L constants (add_to_future_sp now s sp i)"
| clear_old: "node_store_reach L constants s \<Longrightarrow> node_store_reach L constants (clear_old_cache_entries now s)"
| genesis: "node_store_reach L constants s \<Longrightarrow> node_store_reach L constants (initialize_genesis_sub_slot constants s)"
| slot: "node_store_reach L constants s \<Longrightarrow>
    node_store_reach L constants (snd (new_finished_sub_slot L constants now s eos blocks peak peak_full_block))"
| point: "node_store_reach L constants s \<Longrightarrow> 0 \<le> i \<Longrightarrow>
    node_store_reach L constants (snd (new_signage_point L constants now s i blocks peak next_ssi sp skip))"
| peak: "node_store_reach L constants s \<Longrightarrow> peak_slots_linked L constants sp_slot ip_slot peak \<Longrightarrow>
    new_peak L constants now s peak peak_full_block sp_slot ip_slot fork_block blocks = (Inr r, s') \<Longrightarrow>
    node_store_reach L constants s'"

section \<open>The caches\<close>

lemma dict_list_simps [simp]:
  "dict_list [] k = []"
  "dict_list (dict_set d k v) k' = (if k' = k then v else dict_list d k')"
  "dict_list (dict_append d k x) k' = (if k' = k then dict_list d k @ [x] else dict_list d k')"
  "dict_list (dict_pop d k) k' = (if k' = k then [] else dict_list d k')"
  by (simp_all add: dict_list_def dict_append_def dict_simps)

lemma foldl_dict_pop: "dict_get (foldl dict_pop d ks) k = (if k \<in> set ks then None else dict_get d k)"
  by (induction ks arbitrary: d) (auto simp: dict_get_pop)

lemma dict_list_foldl_pop: "dict_list (foldl dict_pop d ks) k = (if k \<in> set ks then [] else dict_list d k)"
  by (simp add: dict_list_def foldl_dict_pop)

lemma add_to_future_sp_cases:
  "add_to_future_sp now s sp i =
     (if \<not> sp_complete sp then s
      else let ch = vi_challenge (the (sg_rc_vdf sp)); d = fs_future_sp_cache s in
        if \<exists>(j, c) \<in> set (dict_list d ch). j = i \<and> sg_rc_vdf c = sg_rc_vdf sp
        then s\<lparr>fs_future_sp_cache := dict_set d ch (dict_list d ch)\<rparr>
        else s\<lparr>fs_future_cache_key_times := dict_set (fs_future_cache_key_times s) ch now,
               fs_future_sp_cache := dict_append (dict_set d ch (dict_list d ch)) ch (i, sp)\<rparr>)"
  by (auto simp: add_to_future_sp_def sp_complete_def in_future_sp_cache_def Let_def dict_simps list_ex_iff split: option.splits)

lemma caches_ok_unchanged:
  assumes "caches_ok s" "fs_future_eos_cache s' = fs_future_eos_cache s" "fs_future_sp_cache s' = fs_future_sp_cache s"
    "fs_future_ip_cache s' = fs_future_ip_cache s" "fs_future_cache_key_times s' = fs_future_cache_key_times s"
  shows "caches_ok s'"
  using assms by (simp add: caches_ok_def)

lemma node_store_ok_unchanged:
  assumes "node_store_ok L constants s" "fs_finished_sub_slots s' = fs_finished_sub_slots s"
    "fs_future_eos_cache s' = fs_future_eos_cache s" "fs_future_sp_cache s' = fs_future_sp_cache s"
    "fs_future_ip_cache s' = fs_future_ip_cache s" "fs_future_cache_key_times s' = fs_future_cache_key_times s"
  shows "node_store_ok L constants s'"
  using assms caches_ok_unchanged [of s s'] by (simp add: node_store_ok_def)

lemma add_to_future_sp_caches: "caches_ok s \<Longrightarrow> 0 \<le> i \<Longrightarrow> caches_ok (add_to_future_sp now s sp i)"
  unfolding add_to_future_sp_cases Let_def by (auto simp: caches_ok_def)

lemma cache_eos_caches: "caches_ok s \<Longrightarrow> caches_ok (cache_eos now s (eos_key eos) eos)"
  by (auto simp: caches_ok_def cache_eos_def)

lemma drop_future_caches: "caches_ok s \<Longrightarrow> caches_ok (drop_future s k)"
  by (auto simp: caches_ok_def drop_future_def)

lemma clear_old_caches: "caches_ok s \<Longrightarrow> caches_ok (clear_old_cache_entries now s)"
  by (auto simp: caches_ok_def clear_old_cache_entries_def Let_def dict_list_foldl_pop dict_mem_def foldl_dict_pop split: if_splits)

section \<open>The slots\<close>

lemma no_sps_ok: "sps_ok constants h (no_sps constants)"
  by (simp add: sps_ok_def no_sps_def)

lemma eos_base_verdict:
  assumes "eos_base_of L constants blocks peak b eos l rc ssi t = Inr (Inl v)"
  shows "v = Eos_Rejected \<or>
         v = Eos_Early (eos_key eos) \<and> (\<exists>p. peak = Some p \<and> br_reward_infusion_new_challenge p \<noteq> eos_key eos)"
  using assms
  by (auto simp: eos_base_of_def eos_after_peak_def eos_key_def Let_def rbind_eq_Inr split: if_splits option.splits prod.splits)

text \<open>What a decision about a slot says.\<close>

lemma eos_check_verdict:
  assumes "eos_check L constants entries eos blocks peak peak_full_block = Inr v"
  shows "entries \<noteq> []"
    and "v = Eos_Early k \<Longrightarrow> k = eos_key eos \<and> (\<exists>p. peak = Some p \<and> br_reward_infusion_new_challenge p \<noteq> k)"
    and "v = Eos_Next t \<Longrightarrow> slot_follows L constants (fst (last entries)) (Some eos)"
    and "v = Eos_Present \<Longrightarrow> Some eos \<in> set (map fst entries)"
proof -
  obtain l sps li where last: "last entries = (l, sps, li)" by (cases "last entries") auto
  from assms obtain cc rc ssi where ne: "entries \<noteq> []" and cc: "slot_hash L constants l = Inr cc"
    and v: "(if Some eos \<in> set (map fst entries) then Inr Eos_Present
             else if slot_challenge eos \<noteq> cc then Inr Eos_Rejected
             else rbind (uint128 (li + ssi)) (\<lambda>total_iters.
               rbind (eos_base_of L constants blocks peak peak_full_block eos (l, li) rc ssi total_iters) (\<lambda>found.
               case found of
                 Inl verdict \<Rightarrow> Inr verdict
               | Inr base \<Rightarrow>
                   rbind (eos_vdfs_ok L constants base cc ssi eos) (\<lambda>ok.
                   Inr (if ok then Eos_Next total_iters else Eos_Rejected))))) = Inr v"
    unfolding eos_check_def last prod.case slot_hash_def slot_challenge_def Let_def
    by (elim rbind_InrE) (auto simp: Suc_le_eq)
  consider "Some eos \<in> set (map fst entries)" "v = Eos_Present" | "v = Eos_Rejected"
    | (base) tt where "slot_challenge eos = cc" "eos_base_of L constants blocks peak peak_full_block eos (l, li) rc ssi tt = Inr (Inl v)"
    | (checked) tt where "slot_challenge eos = cc" "v = Eos_Next tt"
    using v by (auto elim!: rbind_InrE split: if_splits sum.split_asm)
  note cases = this
  show "entries \<noteq> []" by (fact ne)
  from cases show "v = Eos_Early k \<Longrightarrow> k = eos_key eos \<and> (\<exists>p. peak = Some p \<and> br_reward_infusion_new_challenge p \<noteq> k)"
    by cases (auto dest: eos_base_verdict)
  from cases show "v = Eos_Next t \<Longrightarrow> slot_follows L constants (fst (last entries)) (Some eos)"
    by cases (auto dest: eos_base_verdict simp: cc last slot_follows_def)
  from cases show "v = Eos_Present \<Longrightarrow> Some eos \<in> set (map fst entries)"
    by cases (auto dest: eos_base_verdict)
qed

lemma append_slot_ok:
  assumes "slots_ok L constants entries" "slot_follows L constants (fst (last entries)) (Some eos)"
  shows "slots_ok L constants (entries @ [(Some eos, no_sps constants, t)])"
  using assms by (auto simp: slots_ok_def entry_ok_def no_sps_ok successively_append_iff last_map)

text \<open>The slot under consideration is added at the end, cached, or nothing changes.\<close>

lemma new_finished_sub_slot_cases:
  assumes "new_finished_sub_slot L constants now s eos blocks peak peak_full_block = (r, s')"
  obtains (same) "s' = s" "r = Inr None \<or> (\<exists>e. r = Inl e) \<or> Some eos \<in> set (map fst (fs_finished_sub_slots s))"
  | (early) p where "s' = cache_eos now s (eos_key eos) eos" "r = Inr None" "peak = Some p"
      "br_reward_infusion_new_challenge p \<noteq> eos_key eos"
      "eos_check L constants (fs_finished_sub_slots s) eos blocks peak peak_full_block = Inr (Eos_Early (eos_key eos))"
  | (next_slot) t where "slot_follows L constants (fst (last (fs_finished_sub_slots s))) (Some eos)"
      "fs_finished_sub_slots s' = fs_finished_sub_slots s @ [(Some eos, no_sps constants, t)]"
      "s' = append_slot constants s eos t \<or> (\<exists>h. s' = put_recent_eos now (append_slot constants s eos t) h eos)"
      "r \<noteq> Inr None"
proof (cases "eos_check L constants (fs_finished_sub_slots s) eos blocks peak peak_full_block")
  case (Inl e)
  then show thesis using assms same by (auto simp: new_finished_sub_slot_def)
next
  case (Inr v)
  note verdict = eos_check_verdict [OF Inr]
  show thesis
  proof (cases v)
    case (Eos_Early k)
    then show thesis using assms Inr verdict(2) [OF Eos_Early] early by (auto simp: new_finished_sub_slot_def)
  next
    case (Eos_Next t)
    show thesis
      by (rule next_slot [OF verdict(3) [OF Eos_Next]])
        (use assms Inr Eos_Next in \<open>auto simp: new_finished_sub_slot_def Let_def append_slot_def put_recent_eos_def split: sum.splits\<close>)
  qed (use assms Inr verdict(4) same in \<open>auto simp: new_finished_sub_slot_def\<close>)
qed

lemma new_finished_sub_slot_ok:
  assumes "node_store_ok L constants s"
  shows "node_store_ok L constants (snd (new_finished_sub_slot L constants now s eos blocks peak peak_full_block))"
proof -
  obtain r s' where r: "new_finished_sub_slot L constants now s eos blocks peak peak_full_block = (r, s')" by fastforce
  from r have "node_store_ok L constants s'"
  proof (cases rule: new_finished_sub_slot_cases)
    case (next_slot t)
    have "caches_ok s'"
      by (rule caches_ok_unchanged [of s]) (use assms next_slot(3) in \<open>auto simp: node_store_ok_def append_slot_def put_recent_eos_def\<close>)
    then show ?thesis using assms append_slot_ok next_slot(1) by (simp add: node_store_ok_def next_slot(2))
  qed (use assms cache_eos_caches in \<open>auto simp: node_store_ok_def cache_eos_def\<close>)
  with r show ?thesis by simp
qed

section \<open>Signage points\<close>

lemma find_sp_slot_Some:
  "find_sp_slot L constants ch m entries = Inr (Some (n, rc, start)) \<Longrightarrow>
   m \<le> n \<and> n < m + length entries \<and> slot_hash L constants (fst (entries ! (n - m))) = Inr ch"
proof (induction entries arbitrary: m)
  case (Cons e entries)
  obtain slot sps st where e: "e = (slot, sps, st)" by (cases e) auto
  from Cons.prems obtain cc rc' where h: "slot_hash L constants slot = Inr cc"
    and rest: "cc = ch \<and> n = m \<or> cc \<noteq> ch \<and> find_sp_slot L constants ch (m + 1) entries = Inr (Some (n, rc, start))"
    by (auto simp: e entry_hashes_def slot_hash_def rbind_eq_Inr split: option.split_asm if_splits)
  show ?case
  proof (cases "cc = ch")
    case False
    then have "m + 1 \<le> n" "n < m + 1 + length entries" "slot_hash L constants (fst (entries ! (n - (m + 1)))) = Inr ch"
      using Cons.IH [of "m + 1"] rest by auto
    moreover from this have "n - m = Suc (n - (m + 1))" by simp
    ultimately show ?thesis by simp
  qed (use rest h in \<open>auto simp: e\<close>)
qed simp

lemma set_sp_fst: "map fst (fs_finished_sub_slots (set_sp s n i sp)) = map fst (fs_finished_sub_slots s)"
  by (cases "n < length (fs_finished_sub_slots s)")
    (simp_all add: set_sp_def map_update case_prod_beta list_update_beyond list_update_same_conv)

lemma sps_ok_update:
  assumes "sps_ok constants h sps" "h = Inr (vi_challenge (the (sg_cc_vdf sp)))" "0 < i" "sp_complete sp"
  shows "sps_ok constants h (sps[i := Some sp])"
proof (cases "i < length sps")
  case True
  then show ?thesis using assms by (simp add: sps_ok_def nth_list_update)
qed (use assms in \<open>simp add: list_update_beyond\<close>)

lemma set_sp_ok:
  assumes "slots_ok L constants (fs_finished_sub_slots s)" and n: "n < length (fs_finished_sub_slots s)"
    and "slot_hash L constants (fst (fs_finished_sub_slots s ! n)) = Inr (vi_challenge (the (sg_cc_vdf sp)))"
    and "0 < i" "sp_complete sp"
  shows "slots_ok L constants (fs_finished_sub_slots (set_sp s n i sp))"
proof -
  let ?es = "fs_finished_sub_slots s"
  obtain slot sps st where e: "?es ! n = (slot, sps, st)" by (cases "?es ! n") auto
  have "entry_ok L constants (?es ! n)" using assms(1) n by (simp add: slots_ok_def list_all_length)
  then have "entry_ok L constants (slot, sps[nat i := Some sp], st)"
    using assms(3-5) sps_ok_update by (simp add: e entry_ok_def)
  then have "list_all (entry_ok L constants) (fs_finished_sub_slots (set_sp s n i sp))"
    using assms(1) n by (auto simp: set_sp_def e slots_ok_def list_all_length nth_list_update)
  moreover have "fs_finished_sub_slots (set_sp s n i sp) \<noteq> []" using n by (auto simp: set_sp_def)
  ultimately show ?thesis using assms(1) by (simp add: slots_ok_def set_sp_fst)
qed

text \<open>The signage point is stored in its slot, remembered for later, or nothing changes.\<close>

lemma new_signage_point_cases:
  assumes "new_signage_point L constants now s i blocks peak ssi sp skip = (r, s')" "0 \<le> i"
  obtains (same) "s' = s" "r = Inr False \<and> (i = 0 \<or> i \<ge> NUM_SPS_SUB_SLOT constants) \<or> (\<exists>e. r = Inl e)"
  | (early) "s' = add_to_future_sp now s sp i" "r = Inr False" "sp_complete sp"
  | (stored) n rc st where "find_sp_slot L constants (vi_challenge (the (sg_cc_vdf sp))) 0 (fs_finished_sub_slots s) = Inr (Some (n, rc, st))"
      "sp_complete sp" "0 < i" "i < NUM_SPS_SUB_SLOT constants" "r = Inr True \<or> (\<exists>e. r = Inl e)"
      "s' = set_sp s n i sp \<or> (\<exists>c. s' = (set_sp s n i sp)\<lparr>fs_recent_signage_points := c\<rparr>)"
proof (cases "length (fs_finished_sub_slots s) < 1 \<or> i = 0 \<or> i \<ge> NUM_SPS_SUB_SLOT constants \<or> \<not> sp_complete sp")
  case True
  then show thesis using assms same
    by (auto simp: new_signage_point_def sp_complete_def Let_def split: if_splits option.split_asm)
next
  case False
  then obtain cc ccp rcv rcp where sp: "sg_cc_vdf sp = Some cc" "sg_cc_proof sp = Some ccp" "sg_rc_vdf sp = Some rcv"
    "sg_rc_proof sp = Some rcp" by (auto simp: sp_complete_def)
  let ?ssi = "case peak of None \<Rightarrow> SUB_SLOT_ITERS_STARTING constants
              | Some p \<Rightarrow> if br_height p < 2 then SUB_SLOT_ITERS_STARTING constants else br_sub_slot_iters p"
  have new: "new_signage_point L constants now s i blocks peak ssi sp skip =
       (case find_sp_slot L constants (vi_challenge cc) 0 (fs_finished_sub_slots s) of
          Inl e \<Rightarrow> (Inl e, s)
        | Inr None \<Rightarrow> (Inr False, add_to_future_sp now s sp i)
        | Inr (Some (n, rc, st)) \<Rightarrow>
            (case sp_check L constants i blocks peak ?ssi ssi (vi_challenge cc) rc st cc ccp rcv rcp skip of
               Inl e \<Rightarrow> (Inl e, s)
             | Inr False \<Rightarrow> (Inr False, add_to_future_sp now s sp i)
             | Inr True \<Rightarrow>
                 (case output_hash L cc of
                    Inl e \<Rightarrow> (Inl e, set_sp s n i sp)
                  | Inr h \<Rightarrow> (Inr True, (set_sp s n i sp)\<lparr>fs_recent_signage_points := lru_put (fs_recent_signage_points (set_sp s n i sp)) h (sp, now)\<rparr>))))"
    using False unfolding new_signage_point_def Let_def sp by simp
  show thesis
  proof (cases "find_sp_slot L constants (vi_challenge cc) 0 (fs_finished_sub_slots s)")
    case (Inl e)
    then show thesis using assms same by (auto simp: new)
  next
    case (Inr found)
    show thesis
    proof (cases found)
      case None
      then show thesis using assms Inr early False by (auto simp: new)
    next
      case (Some f)
      obtain n rc st where f: "f = (n, rc, st)" by (cases f) auto
      show thesis
      proof (cases "sp_check L constants i blocks peak ?ssi ssi (vi_challenge cc) rc st cc ccp rcv rcp skip")
        case (Inl e)
        then have "r = Inl e" "s' = s" using assms Inr Some f by (simp_all add: new)
        then show thesis using same by blast
      next
        case ok: (Inr ok)
        show thesis
        proof (cases ok)
          case False
          then show thesis using assms Inr Some f ok early \<open>\<not> (_ \<or> _)\<close> by (auto simp: new)
        next
          case True
          then show thesis using assms Inr Some f ok sp stored [of n rc st] \<open>\<not> (_ \<or> _)\<close>
            by (auto simp: new split: sum.split_asm)
        qed
      qed
    qed
  qed
qed

lemma set_sp_caches:
  "fs_future_eos_cache (set_sp s n i sp) = fs_future_eos_cache s" "fs_future_sp_cache (set_sp s n i sp) = fs_future_sp_cache s"
  "fs_future_ip_cache (set_sp s n i sp) = fs_future_ip_cache s"
  "fs_future_cache_key_times (set_sp s n i sp) = fs_future_cache_key_times s"
  by (simp_all add: set_sp_def)

lemma add_to_future_sp_keeps:
  "fs_finished_sub_slots (add_to_future_sp now s sp i) = fs_finished_sub_slots s"
  "fs_future_eos_cache (add_to_future_sp now s sp i) = fs_future_eos_cache s"
  "fs_future_ip_cache (add_to_future_sp now s sp i) = fs_future_ip_cache s"
  by (simp_all add: add_to_future_sp_cases Let_def)

lemma new_signage_point_keeps:
  assumes "new_signage_point L constants now s i blocks peak ssi sp skip = (r, s')" "0 \<le> i" "node_store_ok L constants s"
  shows "node_store_ok L constants s'" "map fst (fs_finished_sub_slots s') = map fst (fs_finished_sub_slots s)"
    "fs_future_ip_cache s' = fs_future_ip_cache s"
proof -
  note slots = assms(3) [unfolded node_store_ok_def]
  from assms(1,2) have "node_store_ok L constants s' \<and> map fst (fs_finished_sub_slots s') = map fst (fs_finished_sub_slots s) \<and>
    fs_future_ip_cache s' = fs_future_ip_cache s"
  proof (cases rule: new_signage_point_cases)
    case (stored n rc st)
    have "slots_ok L constants (fs_finished_sub_slots (set_sp s n i sp))"
      by (rule set_sp_ok) (use slots find_sp_slot_Some [OF stored(1)] stored in auto)
    moreover have "caches_ok s'"
      by (rule caches_ok_unchanged [of s]) (use slots stored(6) in \<open>auto simp: set_sp_caches\<close>)
    ultimately show ?thesis using stored(6) by (auto simp: node_store_ok_def set_sp_fst set_sp_caches)
  qed (use assms(2,3) in \<open>auto simp: node_store_ok_def add_to_future_sp_caches add_to_future_sp_keeps\<close>)
  then show "node_store_ok L constants s'" "map fst (fs_finished_sub_slots s') = map fst (fs_finished_sub_slots s)"
    "fs_future_ip_cache s' = fs_future_ip_cache s" by simp_all
qed

section \<open>A new peak\<close>

lemma sps_before_ok: "sps_ok constants h sps \<Longrightarrow> sps_ok constants h (sps_before f i t sps)"
  by (auto simp: sps_ok_def sps_before_def nth_enumerate_eq split: if_splits)

lemma carried_sps_ok:
  assumes "list_all (entry_ok L constants) entries"
  shows "sps_ok constants (slot_hash L constants sub) (carried_sps constants f i entries sub)"
proof -
  have "sps_ok constants (slot_hash L constants sub) acc \<Longrightarrow> list_all (entry_ok L constants) es \<Longrightarrow>
    sps_ok constants (slot_hash L constants sub)
      (foldl (\<lambda>acc (slot, sps, t). if slot \<noteq> None \<and> slot = sub then sps_before f i t sps else acc) acc es)" for acc es
  proof (induction es arbitrary: acc)
    case (Cons e es)
    obtain slot sps t where e: "e = (slot, sps, t)" by (cases e) auto
    show ?case
    proof (cases "slot \<noteq> None \<and> slot = sub")
      case True
      then have "sps_ok constants (slot_hash L constants sub) (sps_before f i t sps)"
        using Cons.prems(2) by (simp add: e entry_ok_def sps_before_ok)
      then show ?thesis using Cons.IH Cons.prems(2) True by (auto simp: e)
    qed (use Cons in \<open>auto simp: e\<close>)
  qed simp
  then show ?thesis using assms no_sps_ok by (simp add: carried_sps_def)
qed

lemma set_peak_slots_entries:
  assumes "set_peak_slots constants s peak sp_slot ip fork_block = (Inr (), s')"
    and "slots_ok L constants (fs_finished_sub_slots s)"
  obtains prev t sps1 sps2 where "sp_sub_slot_total_iters peak constants = Inr prev" "ip_sub_slot_total_iters peak constants = Inr t"
    "sps_ok constants (slot_hash L constants sp_slot) sps1" "sps_ok constants (slot_hash L constants (Some ip)) sps2"
    "s' = s\<lparr>fs_finished_sub_slots :=
             (if sp_slot \<noteq> None \<or> prev = 0 then [(sp_slot, sps1, prev)] else []) @ [(Some ip, sps2, t)]\<rparr>"
proof -
  let ?sps = "if fork_block \<noteq> None \<and> br_sub_slot_iters (the fork_block) \<noteq> br_sub_slot_iters peak
              then Inr (no_sps constants, no_sps constants)
              else rbind (calculate_sp_interval_iters constants (br_sub_slot_iters peak)) (\<lambda>i.
                Inr (carried_sps constants (br_total_iters (case fork_block of None \<Rightarrow> peak | Some b \<Rightarrow> b)) i (fs_finished_sub_slots s) sp_slot,
                     carried_sps constants (br_total_iters (case fork_block of None \<Rightarrow> peak | Some b \<Rightarrow> b)) i (fs_finished_sub_slots s) (Some ip)))"
  obtain sps1 sps2 where sps: "?sps = Inr (sps1, sps2)"
    using assms(1) unfolding set_peak_slots_def Let_def by (cases ?sps) auto
  have ok: "sps_ok constants (slot_hash L constants sp_slot) sps1" "sps_ok constants (slot_hash L constants (Some ip)) sps2"
    using sps assms(2) by (auto simp: slots_ok_def no_sps_ok carried_sps_ok rbind_eq_Inr split: if_splits)
  obtain prev where prev: "sp_sub_slot_total_iters peak constants = Inr prev"
    using assms(1) sps unfolding set_peak_slots_def Let_def by (cases "sp_sub_slot_total_iters peak constants") auto
  obtain t where t: "ip_sub_slot_total_iters peak constants = Inr t"
    using assms(1) sps prev unfolding set_peak_slots_def Let_def
    by (cases "ip_sub_slot_total_iters peak constants") (auto split: if_splits)
  show thesis
    by (rule that [OF prev t ok])
      (use assms(1) sps prev t in \<open>auto simp: set_peak_slots_def Let_def clear_slots_def split: if_splits\<close>)
qed

lemma peak_slots_ok:
  assumes "peak_slots constants s peak sp_slot ip_slot fork_block = (Inr (), s')"
    and "node_store_ok L constants s" and "peak_slots_linked L constants sp_slot ip_slot peak"
  shows "node_store_ok L constants s'" "fs_future_eos_cache s' = fs_future_eos_cache s" "fs_future_ip_cache s' = fs_future_ip_cache s"
proof -
  note ok = assms(2) [unfolded node_store_ok_def]
  have "node_store_ok L constants s' \<and> fs_future_eos_cache s' = fs_future_eos_cache s \<and> fs_future_ip_cache s' = fs_future_ip_cache s"
  proof (cases ip_slot)
    case None
    then have s': "s' = s\<lparr>fs_finished_sub_slots := [(None, no_sps constants, 0)]\<rparr>"
      using assms(1) by (simp add: peak_slots_def initialize_genesis_sub_slot_def clear_slots_def)
    have "caches_ok s'" by (rule caches_ok_unchanged [of s]) (use ok s' in simp_all)
    then show ?thesis using s' by (simp add: node_store_ok_def slots_ok_def entry_ok_def no_sps_ok)
  next
    case (Some ip)
    then have "set_peak_slots constants s peak sp_slot ip fork_block = (Inr (), s')"
      using assms(1) by (simp add: peak_slots_def)
    then obtain prev t sps1 sps2 where prev: "sp_sub_slot_total_iters peak constants = Inr prev"
      and sps: "sps_ok constants (slot_hash L constants sp_slot) sps1" "sps_ok constants (slot_hash L constants (Some ip)) sps2"
      and s': "s' = s\<lparr>fs_finished_sub_slots :=
                 (if sp_slot \<noteq> None \<or> prev = 0 then [(sp_slot, sps1, prev)] else []) @ [(Some ip, sps2, t)]\<rparr>"
      using ok by (elim set_peak_slots_entries) auto
    have "caches_ok s'" by (rule caches_ok_unchanged [of s]) (use ok s' in simp_all)
    moreover have "slots_ok L constants (fs_finished_sub_slots s')"
      using sps assms(3) prev Some by (auto simp: s' slots_ok_def entry_ok_def peak_slots_linked_def)
    ultimately show ?thesis using s' by (simp add: node_store_ok_def)
  qed
  then show "node_store_ok L constants s'" "fs_future_eos_cache s' = fs_future_eos_cache s" "fs_future_ip_cache s' = fs_future_ip_cache s"
    by simp_all
qed

lemma new_finished_sub_slot_keeps:
  assumes "new_finished_sub_slot L constants now s eos blocks peak peak_full_block = (r, s')"
  shows "set (map fst (fs_finished_sub_slots s)) \<subseteq> set (map fst (fs_finished_sub_slots s'))"
    "fs_future_ip_cache s' = fs_future_ip_cache s"
  using assms
  by (cases rule: new_finished_sub_slot_cases; auto simp: cache_eos_def append_slot_def put_recent_eos_def)+

lemma try_future_eos_keeps:
  assumes "try_future_eos L constants now blocks peak b s xs = (r, s')" "node_store_ok L constants s"
  shows "node_store_ok L constants s' \<and> fs_future_ip_cache s' = fs_future_ip_cache s"
  using assms
proof (induction xs arbitrary: s)
  case (Cons x xs)
  obtain r1 s1 where r1: "new_finished_sub_slot L constants now s x blocks (Some peak) (Some b) = (r1, s1)" by fastforce
  have "node_store_ok L constants s1" "fs_future_ip_cache s1 = fs_future_ip_cache s"
    using new_finished_sub_slot_ok [OF Cons.prems(2), of now x blocks "Some peak" "Some b"] r1
      new_finished_sub_slot_keeps(2) [OF r1] by simp_all
  then show ?case using Cons.IH [of s1] Cons.prems(1) r1 by (auto split: sum.split_asm option.split_asm)
qed simp

lemma try_future_sps_keeps:
  assumes "try_future_sps L constants now blocks peak s acc xs = (r, s')" "node_store_ok L constants s" "\<forall>(i, sp) \<in> set xs. 0 \<le> i"
  shows "node_store_ok L constants s' \<and> map fst (fs_finished_sub_slots s') = map fst (fs_finished_sub_slots s) \<and>
         fs_future_ip_cache s' = fs_future_ip_cache s"
  using assms
proof (induction xs arbitrary: s acc)
  case (Cons x xs)
  obtain i sp where x: "x = (i, sp)" by (cases x)
  obtain r1 s1 where r1: "new_signage_point L constants now s i blocks (Some peak) (br_sub_slot_iters peak) sp False = (r1, s1)"
    by fastforce
  have i: "0 \<le> i" using Cons.prems(3) by (simp add: x)
  note keep = new_signage_point_keeps [OF r1 i Cons.prems(2)]
  show ?case
  proof (cases "sg_cc_vdf sp = None")
    case False
    then show ?thesis using Cons.IH [of s1] Cons.prems(1,3) r1 keep by (auto simp: x split: sum.split_asm)
  qed (use Cons.prems in \<open>simp add: x\<close>)
qed simp

lemma put_recent_slots_keeps:
  "put_recent_slots L now s es = (r, s') \<Longrightarrow> \<exists>c. s' = s\<lparr>fs_recent_eos := c\<rparr>"
proof (induction L now s es rule: put_recent_slots.induct)
  case (1 L now s)
  then show ?case by (intro exI [of _ "fs_recent_eos s"]) simp
next
  case (3 L now s eos sps t es)
  then show ?case
    by (cases "cc_hash (hl_std_hash L) eos") (fastforce intro: exI [of _ "fs_recent_eos s"] simp: put_recent_eos_def)+
qed simp

text \<open>The parts of a successful \<open>new_peak\<close>.\<close>

lemma new_peak_parts:
  assumes "new_peak L constants now s peak b sp_slot ip_slot fork_block blocks = (Inr r, s')"
    and "node_store_ok L constants s" and "peak_slots_linked L constants sp_slot ip_slot peak"
  obtains s1 s2 s3 c where "peak_slots constants s peak sp_slot ip_slot fork_block = (Inr (), s1)" "node_store_ok L constants s1"
    "try_future_eos L constants now blocks peak b s1 (dict_list (fs_future_eos_cache s) (br_reward_infusion_new_challenge peak)) =
       (Inr (pr_added_eos r), s2)"
    "node_store_ok L constants s3" "map fst (fs_finished_sub_slots s3) = map fst (fs_finished_sub_slots s2)"
    "s' = (drop_future s3 (br_reward_infusion_new_challenge peak))\<lparr>fs_recent_eos := c\<rparr>"
    "pr_new_infusion_points r = dict_list (fs_future_ip_cache s) (br_reward_infusion_new_challenge peak)"
proof -
  let ?k = "br_reward_infusion_new_challenge peak"
  obtain s1 where s1: "peak_slots constants s peak sp_slot ip_slot fork_block = (Inr (), s1)"
    and retry: "retry_future L constants now s1 peak b blocks = (Inr r, s')"
    using assms(1) by (auto simp: new_peak_def split: if_splits prod.split_asm sum.split_asm)
  note ok1 = peak_slots_ok [OF s1 assms(2,3)]
  obtain e2 s2 where s2: "try_future_eos L constants now blocks peak b s1 (dict_list (fs_future_eos_cache s1) ?k) = (Inr e2, s2)"
    using retry by (auto simp: retry_future_def Let_def split: prod.split_asm sum.split_asm)
  have ok2: "node_store_ok L constants s2" "fs_future_ip_cache s2 = fs_future_ip_cache s1"
    using try_future_eos_keeps [OF s2 ok1(1)] by auto
  obtain e3 s3 where s3: "try_future_sps L constants now blocks peak s2 [] (dict_list (fs_future_sp_cache s2) ?k) = (Inr e3, s3)"
    using retry s2 by (auto simp: retry_future_def Let_def split: prod.split_asm sum.split_asm)
  have "\<forall>(i, sp) \<in> set (dict_list (fs_future_sp_cache s2) ?k). 0 \<le> i"
    using ok2(1) by (fastforce simp: node_store_ok_def caches_ok_def)
  then have ok3: "node_store_ok L constants s3" "map fst (fs_finished_sub_slots s3) = map fst (fs_finished_sub_slots s2)"
    "fs_future_ip_cache s3 = fs_future_ip_cache s2"
    using try_future_sps_keeps [OF s3 ok2(1)] by auto
  obtain u s4 where s4: "put_recent_slots L now (drop_future s3 ?k) (fs_finished_sub_slots (drop_future s3 ?k)) = (Inr u, s4)"
    and r: "r = \<lparr>pr_added_eos = e2, pr_new_signage_points = e3, pr_new_infusion_points = dict_list (fs_future_ip_cache s3) ?k\<rparr>"
    and s': "s' = s4"
    using retry s2 s3 by (auto simp: retry_future_def Let_def split: prod.split_asm sum.split_asm)
  obtain c where c: "s4 = (drop_future s3 ?k)\<lparr>fs_recent_eos := c\<rparr>" using put_recent_slots_keeps [OF s4] by blast
  show thesis
    by (rule that [OF s1 ok1(1) _ ok3(1,2)]) (use s2 ok1 ok2 ok3 r s' c in simp_all)
qed

lemma node_store_new_peak:
  assumes "new_peak L constants now s peak b sp_slot ip_slot fork_block blocks = (Inr r, s')"
    and "node_store_ok L constants s" and "peak_slots_linked L constants sp_slot ip_slot peak"
  shows "node_store_ok L constants s'"
  using assms
proof (rule new_peak_parts)
  fix s1 s2 s3 c
  assume "node_store_ok L constants s3" and s': "s' = (drop_future s3 (br_reward_infusion_new_challenge peak))\<lparr>fs_recent_eos := c\<rparr>"
  moreover from this have "caches_ok s'"
    using drop_future_caches [of s3 "br_reward_infusion_new_challenge peak"] by (simp add: node_store_ok_def caches_ok_def)
  ultimately show ?thesis by (simp add: node_store_ok_def drop_future_def)
qed

lemma node_store_reach_ok: "node_store_reach L constants s \<Longrightarrow> node_store_ok L constants s"
proof (induction rule: node_store_reach.induct)
  case create
  show ?case
    by (simp add: new_full_node_store_def initialize_genesis_sub_slot_def clear_slots_def node_store_ok_def slots_ok_def entry_ok_def
        no_sps_ok caches_ok_def)
next
  case (genesis s)
  then show ?case
    using caches_ok_unchanged [of s "initialize_genesis_sub_slot constants s"]
    by (simp add: initialize_genesis_sub_slot_def clear_slots_def node_store_ok_def slots_ok_def entry_ok_def no_sps_ok)
next
  case (future_sp s i now sp)
  then show ?case by (simp add: node_store_ok_def add_to_future_sp_caches add_to_future_sp_keeps)
next
  case (clear_old s now)
  then show ?case using clear_old_caches by (simp add: node_store_ok_def) (simp add: clear_old_cache_entries_def Let_def)
next
  case (future_ip s ip)
  then show ?case by (auto simp: node_store_ok_def add_to_future_ip_def caches_ok_def)
next
  case (point s i now blocks peak next_ssi sp skip)
  then show ?case
    using new_signage_point_keeps(1) [of L constants now s i blocks peak next_ssi sp skip] by (metis prod.collapse)
next
  case (candidate s q h b backup)
  then show ?case by - (rule node_store_ok_unchanged [of _ _ s], simp_all add: add_candidate_block_def)
next
  case (clear_candidates s h)
  then show ?case by - (rule node_store_ok_unchanged [of _ _ s], simp_all add: clear_candidate_blocks_below_def Let_def)
next
  case (seen s h)
  then show ?case by - (rule node_store_ok_unchanged [of _ _ s], simp_all add: seen_unfinished_block_def)
next
  case (clear_seen s)
  then show ?case by - (rule node_store_ok_unchanged [of _ _ s], simp_all add: clear_seen_unfinished_blocks_def)
next
  case (unfinished s h b r s')
  then show ?case by - (rule node_store_ok_unchanged [of _ _ s], auto simp: add_unfinished_block_def rbind_eq_Inr)
next
  case (clear_unfinished s h s')
  then show ?case by - (rule node_store_ok_unchanged [of _ _ s], auto simp: clear_unfinished_blocks_below_def rbind_eq_Inr)
next
  case (remove_unfinished s h)
  then show ?case by - (rule node_store_ok_unchanged [of _ _ s], simp_all add: remove_unfinished_block_def)
qed (simp_all add: new_finished_sub_slot_ok node_store_new_peak)

section \<open>Looking up signage points and slots\<close>

lemma find_sp_by_index_stored:
  assumes "find_sp_slot L constants ch m entries = Inr (Some (n, rc, st))" and "fst e = fst (entries ! (n - m))"
    and "i \<noteq> 0" "py_index (fst (snd e)) i = Inr (Some sp)" "sg_rc_vdf sp = Some v"
  shows "find_sp_by_index L constants ch i (vi_challenge v) (entries[n - m := e]) = Inr (Some sp)"
  using assms(1,2)
proof (induction entries arbitrary: m)
  case (Cons x entries)
  obtain slot sps t where x: "x = (slot, sps, t)" by (cases x) auto
  from Cons.prems(1) obtain cc where h: "entry_cc_hash L constants x = Inr cc"
    and rest: "cc = ch \<and> n = m \<or> cc \<noteq> ch \<and> find_sp_slot L constants ch (m + 1) entries = Inr (Some (n, rc, st))"
    by (auto simp: x entry_hashes_def entry_cc_hash_def rbind_eq_Inr split: option.split_asm if_splits)
  from rest show ?case
  proof (elim disjE conjE)
    assume "cc = ch" "n = m"
    then show ?thesis using Cons.prems(2) h assms(3-5) by (simp add: entry_cc_hash_def)
  next
    assume ne: "cc \<noteq> ch" and f: "find_sp_slot L constants ch (m + 1) entries = Inr (Some (n, rc, st))"
    have n: "n - m = Suc (n - (m + 1))" using find_sp_slot_Some [OF f] by auto
    show ?thesis using Cons.IH [OF f] Cons.prems(2) h ne by (simp add: n)
  qed
qed simp

lemma in_future_sp_cache_added: "sp_complete sp \<Longrightarrow> in_future_sp_cache (add_to_future_sp now s sp i) sp i"
  by (auto simp: add_to_future_sp_cases in_future_sp_cache_def sp_complete_def Let_def dict_append_def dict_simps list_ex_iff
      split: option.splits)

lemma collect_Some:
  "collect_sub_slots H ch lastc found es = Inr (Some xs) \<Longrightarrow>
   \<exists>pre post. map fst es = pre @ map Some xs @ post \<and> xs \<noteq> [] \<and> cc_hash H (last xs) = Inr lastc \<and>
     (if found then pre = [] else slot_challenge (hd xs) = ch)"
proof (induction H ch lastc found es arbitrary: xs rule: collect_sub_slots.induct)
  case (3 H ch lastc found slot sps t es)
  let ?found = "found \<or> slot_challenge slot = ch"
  show ?case
  proof (cases ?found)
    case False
    then have "collect_sub_slots H ch lastc False es = Inr (Some xs)" using "3.prems" by (simp add: slot_challenge_def)
    from "3.IH"(1) [OF refl _ this] obtain pre post where "map fst es = pre @ map Some xs @ post" "xs \<noteq> []" "cc_hash H (last xs) = Inr lastc" "slot_challenge (hd xs) = ch"
      using False by (auto simp: slot_challenge_def)
    then show ?thesis using False by (intro exI [of _ "Some slot # pre"] exI [of _ post]) auto
  next
    case True
    with "3.prems" obtain h where h: "cc_hash H slot = Inr h"
      and rest: "h = lastc \<and> xs = [slot] \<or> h \<noteq> lastc \<and> (\<exists>ys. collect_sub_slots H ch lastc True es = Inr (Some ys) \<and> xs = slot # ys)"
      by (auto simp: slot_challenge_def rbind_eq_Inr Let_def split: if_splits)
    from rest show ?thesis
    proof (elim disjE conjE exE)
      fix ys
      assume "h \<noteq> lastc" and xs: "xs = slot # ys" and ys: "collect_sub_slots H ch lastc True es = Inr (Some ys)"
      then obtain post where "map fst es = map Some ys @ post" "ys \<noteq> []" "cc_hash H (last ys) = Inr lastc"
        using "3.IH"(2) [OF refl _ h] True by (auto simp: slot_challenge_def)
      then show ?thesis using True by (intro exI [of _ "[]"] exI [of _ post]) (auto simp: xs)
    qed (use h True in auto)
  qed
qed simp_all

lemma collect_None:
  assumes "collect_sub_slots H ch lastc found es = Inr None" "map fst es = pre @ map Some xs @ post" "xs \<noteq> []"
    "slot_challenge (hd xs) = ch \<or> found"
  shows "cc_hash H (last xs) \<noteq> Inr lastc"
  using assms
proof (induction H ch lastc found es arbitrary: pre xs rule: collect_sub_slots.induct)
  case (3 H ch lastc found slot sps t es)
  let ?found = "found \<or> slot_challenge slot = ch"
  show ?case
  proof (cases pre)
    case Nil
    then obtain ys where xs: "xs = slot # ys" and es: "map fst es = [] @ map Some ys @ post" using "3.prems"(2,3) by (cases xs) auto
    have f: ?found using "3.prems"(4) by (auto simp: xs)
    then obtain h where h: "cc_hash H slot = Inr h" "h \<noteq> lastc" "collect_sub_slots H ch lastc True es = Inr None"
      using "3.prems"(1) by (auto simp: slot_challenge_def rbind_eq_Inr Let_def split: if_splits)
    show ?thesis
    proof (cases "ys = []")
      case False
      then show ?thesis using "3.IH"(2) [OF refl _ h(1,2,3) es False] f by (simp add: xs slot_challenge_def)
    qed (use h xs in simp)
  next
    case (Cons p pre')
    then have es: "map fst es = pre' @ map Some xs @ post" using "3.prems"(2) by simp
    show ?thesis
    proof (cases ?found)
      case True
      then obtain h where h: "cc_hash H slot = Inr h" "h \<noteq> lastc" "collect_sub_slots H ch lastc True es = Inr None"
        using "3.prems"(1) by (auto simp: slot_challenge_def rbind_eq_Inr Let_def split: if_splits)
      then show ?thesis using "3.IH"(2) [OF refl _ h(1,2,3) es "3.prems"(3)] True by (simp add: slot_challenge_def)
    next
      case False
      then show ?thesis using "3.IH"(1) [OF refl _ _ es "3.prems"(3)] "3.prems"(1,4) by (auto simp: slot_challenge_def)
    qed
  qed
qed simp_all

lemma successively_map_Some:
  "successively (slot_follows L constants) (map Some xs) \<longleftrightarrow>
   successively (\<lambda>a b. cc_hash (hl_std_hash L) a = Inr (slot_challenge b)) xs"
  by (simp add: successively_map slot_follows_def slot_hash_def)

text \<open>Slots that fail leave the store alone, so the first one that passes is taken.\<close>

lemma try_future_eos_takes:
  assumes "try_future_eos L constants now blocks peak b s xs = (Inr r, s')" "\<forall>x \<in> set xs. eos_key x = br_reward_infusion_new_challenge peak"
    and "eos \<in> set xs" "eos_check L constants (fs_finished_sub_slots s) eos blocks (Some peak) (Some b) = Inr (Eos_Next t)"
  shows "\<exists>e \<in> set xs. r = Some e \<and> Some e \<in> set (map fst (fs_finished_sub_slots s'))"
  using assms
proof (induction xs)
  case (Cons x xs)
  obtain r1 s1 where r1: "new_finished_sub_slot L constants now s x blocks (Some peak) (Some b) = (r1, s1)" by fastforce
  show ?case
  proof (cases "r1 = Inr None")
    case True
    from r1 have "s1 = s" using True Cons.prems(2) by (cases rule: new_finished_sub_slot_cases) auto
    moreover have "x \<noteq> eos"
      using r1 True Cons.prems(4) by (auto simp: new_finished_sub_slot_def Let_def split: sum.split_asm)
    ultimately show ?thesis using Cons True r1 by auto
  next
    case False
    then obtain ips where ips: "r1 = Inr (Some ips)" and r: "r = Some x" "s' = s1"
      using Cons.prems(1) r1 by (auto split: sum.split_asm option.split_asm)
    from r1 have "Some x \<in> set (map fst (fs_finished_sub_slots s1))"
      by (cases rule: new_finished_sub_slot_cases) (use ips in auto)
    then show ?thesis using r by auto
  qed
qed simp

section \<open>A store for the witnesses\<close>

text \<open>
  An end of the first slot, after a block of deficit 16 with the reward chain challenge \<open>b32 7\<close>, and a peak that is that
  block or one with another challenge.
\<close>

definition eos_sample :: end_of_sub_slot_bundle where
  "eos_sample =
     \<lparr>es_challenge_chain = \<lparr>cc_challenge_chain_end_of_slot_vdf = vdf_sample (GENESIS_CHALLENGE body_constants) 134217728,
        cc_infused_challenge_chain_sub_slot_hash = None, cc_subepoch_summary_hash = None, cc_new_sub_slot_iters = None,
        cc_new_difficulty = None\<rparr>,
      es_infused_challenge_chain = None,
      es_reward_chain = \<lparr>rc_end_of_slot_vdf = vdf_sample (b32 7) 127926271, rc_challenge_chain_sub_slot_hash = b32 0,
        rc_infused_challenge_chain_sub_slot_hash = None, rc_deficit = 16\<rparr>,
      es_proofs = \<lparr>sl_challenge_chain_slot_proof = sample_vdf_proof, sl_infused_challenge_chain_slot_proof = None,
        sl_reward_chain_slot_proof = sample_vdf_proof\<rparr>\<rparr>"

definition peak_sample :: "byte \<Rightarrow> block_record" where
  "peak_sample k = parent_sample\<lparr>br_reward_infusion_new_challenge := b32 k, br_deficit := MIN_BLOCKS_PER_CHALLENGE_BLOCK body_constants\<rparr>"

definition node_store_sample :: full_node_store where
  "node_store_sample =
     snd (new_finished_sub_slot header_sample_lib body_constants 100 (new_full_node_store body_constants) eos_sample header_cache
       (Some (peak_sample 6)) (Some sample_full_block))"

lemma node_store_sample_reach: "node_store_reach header_sample_lib body_constants node_store_sample"
  unfolding node_store_sample_def by (rule node_store_reach.slot, rule node_store_reach.create)

definition next_store_sample :: full_node_store where
  "next_store_sample =
     snd (new_finished_sub_slot header_sample_lib body_constants 100 (new_full_node_store body_constants) eos_sample header_cache
       (Some (peak_sample 7)) (Some sample_full_block))"

lemma next_store_sample_reach: "node_store_reach header_sample_lib body_constants next_store_sample"
  unfolding next_store_sample_def by (rule node_store_reach.slot, rule node_store_reach.create)

definition sp_sample :: signage_point where
  "sp_sample = \<lparr>sg_cc_vdf = Some (vdf_sample (GENESIS_CHALLENGE body_constants) 6291456), sg_cc_proof = Some sample_vdf_proof,
     sg_rc_vdf = Some (vdf_sample (GENESIS_CHALLENGE body_constants) 6291456), sg_rc_proof = Some sample_vdf_proof\<rparr>"

lemma eos_sample_checks:
  "eos_check header_sample_lib body_constants (fs_finished_sub_slots (new_full_node_store body_constants)) eos_sample header_cache
     (Some (peak_sample 6)) (Some sample_full_block) = Inr (Eos_Early (b32 7))"
  "eos_check header_sample_lib body_constants (fs_finished_sub_slots (new_full_node_store body_constants)) eos_sample header_cache
     (Some (peak_sample 7)) (Some sample_full_block) = Inr (Eos_Next 134217728)"
  by code_simp+

section \<open>Properties\<close>

text \<open>C14. Every store that the operations reach has at least one slot; each slot after the first starts from the hash of the
  one before it; each slot has \<open>NUM_SPS_SUB_SLOT\<close> places, of which the first stays empty, and a signage point in one of the
  others is complete and belongs to the challenge of its slot; and what waits in the caches is stored under the reward chain
  challenge it depends on.\<close>

theorem node_store_invariant:
  assumes "node_store_reach L constants s"
  shows "fs_finished_sub_slots s \<noteq> [] \<and> successively (slot_follows L constants) (map fst (fs_finished_sub_slots s)) \<and>
    (\<forall>(slot, sps, total_iters) \<in> set (fs_finished_sub_slots s).
       length sps = nat (NUM_SPS_SUB_SLOT constants) \<and> (slot = None \<longrightarrow> total_iters = 0) \<and>
       (\<forall>i < length sps. \<forall>sp. sps ! i = Some sp \<longrightarrow>
          0 < i \<and> sp_complete sp \<and> slot_hash L constants slot = Inr (vi_challenge (the (sg_cc_vdf sp))))) \<and>
    caches_ok s"
  using node_store_reach_ok [OF assms] by (auto simp: node_store_ok_def slots_ok_def list_all_iff entry_ok_def sps_ok_def)

theorem node_store_invariant_witness:
  "fs_finished_sub_slots node_store_sample \<noteq> [] \<and> caches_ok node_store_sample"
  using node_store_invariant [OF node_store_sample_reach] by blast

text \<open>C16. A signage point inside a slot that \<open>new_signage_point\<close> accepts is the one that \<open>get_signage_point_by_index\<close> then
  finds for its challenge, index and last infusion; one that it does not accept is kept in the cache of early signage points.\<close>

theorem signage_point_stored:
  assumes "node_store_reach L constants s" and "0 < i" "i < NUM_SPS_SUB_SLOT constants"
    and "new_signage_point L constants now s i blocks peak next_ssi sp skip = (Inr added, s')"
    and "sg_cc_vdf sp = Some cc" "sg_rc_vdf sp = Some rc"
  shows "if added then get_signage_point_by_index L constants s' (vi_challenge cc) i (vi_challenge rc) = Inr (Some sp)
         else in_future_sp_cache s' sp i"
  using assms(4) order_less_imp_le [OF assms(2)]
proof (cases rule: new_signage_point_cases)
  case same
  then show ?thesis using assms(2,3) by auto
next
  case early
  then show ?thesis using in_future_sp_cache_added by simp
next
  case (stored n r st)
  obtain slot sps t where e: "fs_finished_sub_slots s ! n = (slot, sps, t)" by (cases "fs_finished_sub_slots s ! n") auto
  have found: "find_sp_slot L constants (vi_challenge cc) 0 (fs_finished_sub_slots s) = Inr (Some (n, r, st))"
    using stored(1) assms(5) by simp
  have n: "n < length (fs_finished_sub_slots s)" using find_sp_slot_Some [OF found] by simp
  then have "length sps = nat (NUM_SPS_SUB_SLOT constants)"
    using node_store_reach_ok [OF assms(1)] e by (auto simp: node_store_ok_def slots_ok_def list_all_length entry_ok_def sps_ok_def)
  then have "py_index (fst (snd (slot, sps[nat i := Some sp], t))) i = Inr (Some sp)" using assms(2,3) by (simp add: py_index_def)
  from find_sp_by_index_stored [OF found _ _ this assms(6)] show ?thesis
    using e n assms(2) stored(5,6) by (cases "fs_finished_sub_slots s = []") (auto simp: get_signage_point_by_index_def set_sp_def Suc_le_eq)
qed

theorem signage_point_stored_witness:
  "get_signage_point_by_index header_sample_lib body_constants
     (snd (new_signage_point header_sample_lib body_constants 50 (new_full_node_store body_constants) 3 header_cache None 134217728
        sp_sample False)) (GENESIS_CHALLENGE body_constants) 3 (GENESIS_CHALLENGE body_constants) = Inr (Some sp_sample)"
proof -
  let ?r = "new_signage_point header_sample_lib body_constants 50 (new_full_node_store body_constants) 3 header_cache None 134217728
    sp_sample False"
  have "fst ?r = Inr True" by code_simp
  then have "?r = (Inr True, snd ?r)" by (metis prod.collapse)
  from signage_point_stored [OF node_store_reach.create _ _ this] show ?thesis
    by (simp add: sp_sample_def vdf_sample_def body_constants_def DEFAULT_CONSTANTS_def)
qed

text \<open>C15. For a chain that ends in the challenge \<open>start\<close>, \<open>get_finished_sub_slots\<close> returns a run of slots of the store that
  starts from \<open>start\<close>, in which each slot starts from the hash of the one before, and that ends in the wanted challenge; it
  returns nothing only if the store has no such run after its first slot.\<close>

theorem finished_sub_slots_run:
  assumes "node_store_reach L constants s" and "challenge_in_chain constants s blocks prev_b = Inr start" and "wanted \<noteq> start"
    and "get_finished_sub_slots (hl_std_hash L) constants s blocks prev_b wanted = Inr r"
  shows "case r of
      Some xs \<Rightarrow> xs \<noteq> [] \<and> slot_challenge (hd xs) = start \<and> cc_hash (hl_std_hash L) (last xs) = Inr wanted \<and>
        successively (\<lambda>a b. cc_hash (hl_std_hash L) a = Inr (slot_challenge b)) xs \<and>
        (\<exists>pre post. map fst (tl (fs_finished_sub_slots s)) = pre @ map Some xs @ post)
    | None \<Rightarrow> \<not> (\<exists>pre xs post. map fst (tl (fs_finished_sub_slots s)) = pre @ map Some xs @ post \<and> xs \<noteq> [] \<and>
        slot_challenge (hd xs) = start \<and> cc_hash (hl_std_hash L) (last xs) = Inr wanted)"
proof -
  let ?es = "tl (fs_finished_sub_slots s)"
  have c: "collect_sub_slots (hl_std_hash L) start wanted False ?es = Inr r"
    using assms(2-4) by (simp add: get_finished_sub_slots_def)
  have "slots_ok L constants (fs_finished_sub_slots s)" using node_store_reach_ok [OF assms(1)] by (simp add: node_store_ok_def)
  then have linked: "successively (slot_follows L constants) (map fst ?es)"
    by (cases "fs_finished_sub_slots s") (auto simp: slots_ok_def successively_Cons)
  show ?thesis
  proof (cases r)
    case None
    then show ?thesis using collect_None c by fastforce
  next
    case (Some xs)
    then obtain pre post where xs: "map fst ?es = pre @ map Some xs @ post" "xs \<noteq> []" "cc_hash (hl_std_hash L) (last xs) = Inr wanted"
      "slot_challenge (hd xs) = start"
      using collect_Some [of "hl_std_hash L" start wanted False ?es xs] c by auto
    then have "successively (slot_follows L constants) (map Some xs)" using linked by (auto simp: successively_append_iff)
    then show ?thesis using xs Some successively_map_Some by auto
  qed
qed

theorem finished_sub_slots_run_witness:
  "get_finished_sub_slots (hl_std_hash header_sample_lib) body_constants next_store_sample header_cache None (b32 0) = Inr (Some [eos_sample])
   \<and> slot_challenge eos_sample = GENESIS_CHALLENGE body_constants \<and> cc_hash (hl_std_hash header_sample_lib) eos_sample = Inr (b32 0)"
proof -
  have get: "get_finished_sub_slots (hl_std_hash header_sample_lib) body_constants next_store_sample header_cache None (b32 0) =
      Inr (Some [eos_sample])"
    "challenge_in_chain body_constants next_store_sample header_cache None = Inr (GENESIS_CHALLENGE body_constants)"
    "b32 0 \<noteq> GENESIS_CHALLENGE body_constants"
    by code_simp+
  show ?thesis using finished_sub_slots_run [OF next_store_sample_reach get(2,3,1)] get(1) by simp
qed



text \<open>\<open>clear_old_cache_entries\<close> forgets an end of slot or a signage point that has waited for more than an hour: the time
  of its key is always known.  Infusion points are stored without a time, and those whose key has none are kept for ever.\<close>

lemma old_cache_entries_cleared:
  assumes "node_store_reach L constants s"
  shows "(dict_list (fs_future_eos_cache s) key \<noteq> [] \<or> dict_list (fs_future_sp_cache s) key \<noteq> [] \<longrightarrow>
            (\<exists>t. dict_get (fs_future_cache_key_times s) key = Some t \<and>
              (now - t > 3600 \<longrightarrow> dict_list (fs_future_eos_cache (clear_old_cache_entries now s)) key = [] \<and>
                 dict_list (fs_future_sp_cache (clear_old_cache_entries now s)) key = []))) \<and>
         (dict_get (fs_future_cache_key_times s) key = None \<longrightarrow>
            dict_get (fs_future_cache_key_times (add_to_future_ip s ip)) key = None \<and>
            get_future_ip (clear_old_cache_entries now s) key = get_future_ip s key)"
proof -
  let ?old = "map fst (filter (\<lambda>(k, t). now - t > 3600) (fs_future_cache_key_times s))"
  have "caches_ok s" using node_store_reach_ok [OF assms] by (simp add: node_store_ok_def)
  then have "dict_mem (fs_future_cache_key_times s) key"
    if "dict_list (fs_future_eos_cache s) key \<noteq> [] \<or> dict_list (fs_future_sp_cache s) key \<noteq> []"
    using that by (fastforce simp: caches_ok_def neq_Nil_conv)
  moreover have "key \<in> set ?old" if "dict_get (fs_future_cache_key_times s) key = Some t" "now - t > 3600" for t
    using that by (force simp: dict_get_def dest: map_of_SomeD)
  moreover have "key \<notin> set ?old" if "dict_get (fs_future_cache_key_times s) key = None"
    using that by (auto simp: dict_get_def map_of_eq_None_iff)
  ultimately show ?thesis
    by (auto simp: clear_old_cache_entries_def get_future_ip_def add_to_future_ip_def dict_list_foldl_pop dict_mem_def Let_def)
qed

lemma old_cache_entries_cleared_witness:
  "dict_list (fs_future_eos_cache node_store_sample) (b32 7) = [eos_sample]
   \<and> dict_list (fs_future_eos_cache (clear_old_cache_entries 3701 node_store_sample)) (b32 7) = []"
proof -
  have "dict_list (fs_future_eos_cache node_store_sample) (b32 7) = [eos_sample]"
    "dict_get (fs_future_cache_key_times node_store_sample) (b32 7) = Some 100" by code_simp+
  with old_cache_entries_cleared [OF node_store_sample_reach, of "b32 7" 3701] show ?thesis by simp
qed

end
