(* ===== verification/SyncStore.thy ===== *)
theory SyncStore
  imports Ints
begin

text \<open>
  \<open>full_node/sync_store.py\<close>: what the peers have told us about their chains while we are syncing.  The set of peers of
  a peak is a \<open>set\<close>, an \<open>OrderedDict\<close> a \<open>dict\<close>, whose first entry \<open>popitem(last=False)\<close> removes, and the event
  \<open>peers_changed\<close> the flag whether it is set.
\<close>

section \<open>The store\<close>

record sync_store =
  ys_sync_mode :: bool
  ys_long_sync :: bool
  ys_peak_to_peer :: "(bytes, bytes set) dict"
  ys_peer_to_peak :: "(bytes, bytes \<times> int \<times> int) dict"
  ys_sync_target_header_hash :: "bytes option"
  ys_sync_target_height :: "int option"
  ys_peers_changed :: bool
  ys_batch_syncing :: "bytes set"
  ys_backtrack_syncing :: "(bytes, int) dict"

definition create_sync_store :: sync_store where
  "create_sync_store =
     \<lparr>ys_sync_mode = False, ys_long_sync = False, ys_peak_to_peer = [], ys_peer_to_peak = [],
      ys_sync_target_header_hash = None, ys_sync_target_height = None, ys_peers_changed = False,
      ys_batch_syncing = {}, ys_backtrack_syncing = []\<rparr>"

definition set_peak_target :: "sync_store \<Rightarrow> bytes \<Rightarrow> int \<Rightarrow> sync_store" where
  "set_peak_target s peak_hash target_height =
     s\<lparr>ys_sync_target_header_hash := Some peak_hash, ys_sync_target_height := Some target_height\<rparr>"

definition set_sync_mode :: "sync_store \<Rightarrow> bool \<Rightarrow> sync_store" where
  "set_sync_mode s mode = s\<lparr>ys_sync_mode := mode\<rparr>"

definition set_long_sync :: "sync_store \<Rightarrow> bool \<Rightarrow> sync_store" where
  "set_long_sync s long = s\<lparr>ys_long_sync := long\<rparr>"

definition get_sync_target_hash :: "sync_store \<Rightarrow> bytes option" where
  "get_sync_target_hash s = ys_sync_target_header_hash s"

definition get_sync_target_height :: "sync_store \<Rightarrow> int option" where
  "get_sync_target_height s = ys_sync_target_height s"

definition get_sync_mode :: "sync_store \<Rightarrow> bool" where
  "get_sync_mode s = ys_sync_mode s"

definition get_long_sync :: "sync_store \<Rightarrow> bool" where
  "get_long_sync s = ys_long_sync s"

definition seen_header_hash :: "sync_store \<Rightarrow> bytes \<Rightarrow> bool" where
  "seen_header_hash s header_hash = dict_mem (ys_peak_to_peer s) header_hash"

text \<open>A new entry pushes the oldest one out of a full table, or the second oldest if the oldest is the sync target.\<close>

definition drop_oldest :: "bytes option \<Rightarrow> (bytes, bytes set) dict \<Rightarrow> (bytes, bytes set) dict" where
  "drop_oldest target d =
     (case d of
        [] \<Rightarrow> []
      | (h, peers) # rest \<Rightarrow> if target = Some h then tl (dict_set rest h peers) else rest)"

definition peer_has_block :: "sync_store \<Rightarrow> bytes \<Rightarrow> bytes \<Rightarrow> int \<Rightarrow> int \<Rightarrow> bool \<Rightarrow> sync_store" where
  "peer_has_block s header_hash peer_id weight height new_peak =
     (let target = ys_sync_target_header_hash s; d = ys_peak_to_peer s;
          d' = (case dict_get d header_hash of
                  Some peers \<Rightarrow> dict_set d header_hash (insert peer_id peers)
                | None \<Rightarrow>
                    let d1 = dict_set d header_hash {peer_id}
                    in if length d1 > 256 then drop_oldest target d1 else d1)
      in s\<lparr>ys_peers_changed := (ys_peers_changed s \<or> Some header_hash = target), ys_peak_to_peer := d',
           ys_peer_to_peak := (if new_peak then dict_set (ys_peer_to_peak s) peer_id (header_hash, height, weight)
                               else ys_peer_to_peak s)\<rparr>)"

definition get_peers_that_have_peak :: "sync_store \<Rightarrow> bytes list \<Rightarrow> bytes set" where
  "get_peers_that_have_peak s header_hashes =
     foldl (\<lambda>ids h. case dict_get (ys_peak_to_peer s) h of None \<Rightarrow> ids | Some peers \<Rightarrow> ids \<union> peers) {} header_hashes"

definition get_peak_of_each_peer :: "sync_store \<Rightarrow> (bytes, bytes \<times> int \<times> int) dict" where
  "get_peak_of_each_peer s =
     foldl (\<lambda>ret (peer_id, v). if dict_mem (ys_peak_to_peer s) (fst v) then dict_set ret peer_id v else ret) []
       (ys_peer_to_peak s)"

definition heavier ::
  "(bytes, bytes set) dict \<Rightarrow> (bytes \<times> int \<times> int) option \<Rightarrow> bytes \<times> bytes \<times> int \<times> int \<Rightarrow> (bytes \<times> int \<times> int) option" where
  "heavier known best item =
     (case item of (peer_id, peak_hash, height, weight) \<Rightarrow>
        if \<not> dict_mem known peak_hash then best
        else case best of
               None \<Rightarrow> Some (peak_hash, height, weight)
             | Some (_, _, w) \<Rightarrow> if weight > w then Some (peak_hash, height, weight) else best)"

definition get_heaviest_peak :: "sync_store \<Rightarrow> (bytes \<times> int \<times> int) option res" where
  "get_heaviest_peak s =
     (if length (ys_peer_to_peak s) = 0 then Inr None
      else case foldl (heavier (ys_peak_to_peer s)) None (ys_peer_to_peak s) of
             None \<Rightarrow> Inl AssertionError
           | Some best \<Rightarrow> Inr (Some best))"

definition clear_sync_info :: "sync_store \<Rightarrow> sync_store" where
  "clear_sync_info s = s\<lparr>ys_peak_to_peer := []\<rparr>"

definition peer_disconnected :: "sync_store \<Rightarrow> bytes \<Rightarrow> sync_store" where
  "peer_disconnected s node_id =
     s\<lparr>ys_peer_to_peak := dict_pop (ys_peer_to_peak s) node_id,
       ys_peak_to_peer := map (\<lambda>(h, peers). (h, peers - {node_id})) (ys_peak_to_peer s), ys_peers_changed := True\<rparr>"

text \<open>The full node waits for the event, clears it, and keeps the nodes it syncs from.\<close>

inductive sync_reach :: "sync_store \<Rightarrow> bool" where
  create: "sync_reach create_sync_store"
| target: "sync_reach s \<Longrightarrow> sync_reach (set_peak_target s h n)"
| mode: "sync_reach s \<Longrightarrow> sync_reach (set_long_sync (set_sync_mode s m) l)"
| block: "sync_reach s \<Longrightarrow> sync_reach (peer_has_block s h p w n new)"
| clear: "sync_reach s \<Longrightarrow> sync_reach (clear_sync_info s)"
| gone: "sync_reach s \<Longrightarrow> sync_reach (peer_disconnected s p)"
| waited: "sync_reach s \<Longrightarrow> sync_reach (s\<lparr>ys_peers_changed := False, ys_batch_syncing := bs, ys_backtrack_syncing := ts\<rparr>)"

section \<open>Lemmas\<close>

definition sync_ok :: "sync_store \<Rightarrow> bool" where
  "sync_ok s \<longleftrightarrow> dict_ok (ys_peak_to_peer s) \<and> dict_ok (ys_peer_to_peak s) \<and> length (ys_peak_to_peer s) \<le> 256"

lemma dict_ok_Cons: "dict_ok ((k, v) # d) \<longleftrightarrow> \<not> dict_mem d k \<and> dict_ok d"
  by (auto simp: dict_ok_def dict_keys_def dict_mem_iff)

text \<open>Of a full table with a new last entry, one entry goes, and neither the target nor the new one.\<close>

lemma drop_oldest_ok:
  assumes "dict_ok d" "length d \<ge> 3"
  shows "dict_ok (drop_oldest target d)" "length (drop_oldest target d) = length d - 1"
    "\<And>k. Some k = target \<Longrightarrow> dict_get (drop_oldest target d) k = dict_get d k"
    "dict_get (drop_oldest target d) (fst (last d)) = dict_get d (fst (last d))"
    "\<And>k v. dict_get (drop_oldest target d) k = Some v \<Longrightarrow> dict_get d k = Some v"
proof -
  obtain h1 p1 h2 p2 x rest where d: "d = (h1, p1) # (h2, p2) # x # rest"
    using assms(2) by (metis (no_types, opaque_lifting) One_nat_def Suc_1 Suc_le_length_iff numeral_3_eq_3 surj_pair)
  have nin: "\<not> dict_mem ((h2, p2) # x # rest) h1" "h1 \<noteq> h2" and ok: "dict_ok ((h2, p2) # x # rest)" "dict_ok (x # rest)"
    using assms(1) by (simp_all add: d dict_mem_iff dict_ok_def dict_keys_def)
  have set: "tl (dict_set ((h2, p2) # x # rest) h1 p1) = (x # rest) @ [(h1, p1)]"
    using dict_set_new [OF nin(1), of p1] by simp
  have l: "fst (last d) \<in> fst ` set (x # rest)" by (auto simp: d)
  have out: "dict_get (x # rest) h1 = None" "dict_get (x # rest) h2 = None"
    using nin(1) ok(1) by (simp_all add: dict_mem_def dict_get_def dict_ok_Cons split: if_splits)
  have nmem: "h1 \<notin> fst ` set (x # rest)" "h2 \<notin> fst ` set (x # rest)"
    using assms(1) by (simp_all add: d dict_ok_def dict_keys_def)
  have get: "dict_get d k = (if k = h1 then Some p1 else if k = h2 then Some p2 else dict_get (x # rest) k)" for k
    by (simp add: d dict_get_def)
  have snoc: "dict_get ((x # rest) @ [(h1, p1)]) k = (if k = h1 then Some p1 else dict_get (x # rest) k)" for k
    using dict_get_snoc [OF out(1)] by blast
  have dr: "drop_oldest target d = (if target = Some h1 then (x # rest) @ [(h1, p1)] else (h2, p2) # x # rest)"
    using set by (simp add: d drop_oldest_def)
  have gd: "dict_get (drop_oldest target d) k =
              (if target = Some h1 then if k = h1 then Some p1 else dict_get (x # rest) k
               else if k = h2 then Some p2 else dict_get (x # rest) k)" for k
    using snoc [of k] by (simp only: dr) (simp add: dict_get_def)
  show "dict_ok (drop_oldest target d)"
    using ok nmem by (auto simp: dr dict_ok_def dict_keys_def)
  show "length (drop_oldest target d) = length d - 1" unfolding dr by (simp add: d)
  show "\<And>k. Some k = target \<Longrightarrow> dict_get (drop_oldest target d) k = dict_get d k"
    using nin(2) by (auto simp: gd get)
  show "\<And>k v. dict_get (drop_oldest target d) k = Some v \<Longrightarrow> dict_get d k = Some v"
    using out nin(2) by (auto simp: gd get split: if_splits)
  have "fst (last d) \<noteq> h1" "fst (last d) \<noteq> h2" using l nmem by auto
  then show "dict_get (drop_oldest target d) (fst (last d)) = dict_get d (fst (last d))"
    by (simp add: gd get)
qed

text \<open>What an update does to the table of peaks: its entries stay distinct, at most 256, and keep the target and the new peak.\<close>

definition add_peer :: "sync_store \<Rightarrow> bytes \<Rightarrow> bytes \<Rightarrow> (bytes, bytes set) dict" where
  "add_peer s h p =
     dict_set (ys_peak_to_peer s) h (insert p (case dict_get (ys_peak_to_peer s) h of None \<Rightarrow> {} | Some ps \<Rightarrow> ps))"

lemma peer_has_block_peaks:
  "ys_peak_to_peer (peer_has_block s h p w n new) =
     (if length (add_peer s h p) > 256 \<and> \<not> dict_mem (ys_peak_to_peer s) h
      then drop_oldest (ys_sync_target_header_hash s) (add_peer s h p) else add_peer s h p)"
  by (simp add: peer_has_block_def add_peer_def Let_def dict_mem_def split: option.split)

lemma peer_has_block_ok:
  assumes "sync_ok s"
  shows "sync_ok (peer_has_block s h p w n new)"
    and "\<And>k. k = h \<or> Some k = ys_sync_target_header_hash s \<Longrightarrow>
           dict_get (ys_peak_to_peer (peer_has_block s h p w n new)) k = dict_get (add_peer s h p) k"
    and "\<And>k v. dict_get (ys_peak_to_peer (peer_has_block s h p w n new)) k = Some v \<Longrightarrow>
           dict_get (add_peer s h p) k = Some v"
proof -
  let ?d = "add_peer s h p" and ?t = "ys_sync_target_header_hash s"
  have ok: "dict_ok ?d" using assms by (simp add: sync_ok_def add_peer_def dict_ok_set)
  have len: "length ?d \<le> 257" "dict_mem (ys_peak_to_peer s) h \<Longrightarrow> length ?d \<le> 256"
    using assms by (simp_all add: sync_ok_def add_peer_def dict_set_length)
  have fin: "dict_ok (ys_peer_to_peak (peer_has_block s h p w n new))"
    using assms by (simp add: peer_has_block_def Let_def sync_ok_def dict_ok_set)
  have last: "fst (last ?d) = h" if "\<not> dict_mem (ys_peak_to_peer s) h"
    using dict_set_new [OF that] by (simp add: add_peer_def)
  show "sync_ok (peer_has_block s h p w n new)"
    using ok len fin drop_oldest_ok(1,2) [of ?d ?t] by (auto simp: sync_ok_def peer_has_block_peaks)
  show "\<And>k. k = h \<or> Some k = ?t \<Longrightarrow>
          dict_get (ys_peak_to_peer (peer_has_block s h p w n new)) k = dict_get ?d k"
    using ok drop_oldest_ok(3) [of ?d _ ?t] drop_oldest_ok(4) [of ?d ?t] last by (auto simp: peer_has_block_peaks)
  show "\<And>k v. dict_get (ys_peak_to_peer (peer_has_block s h p w n new)) k = Some v \<Longrightarrow> dict_get ?d k = Some v"
    using ok drop_oldest_ok(5) [of ?d ?t] by (auto simp: peer_has_block_peaks split: if_splits)
qed

lemma peer_disconnected_ok: "sync_ok s \<Longrightarrow> sync_ok (peer_disconnected s p)"
  by (simp add: sync_ok_def peer_disconnected_def dict_ok_pop) (simp add: dict_ok_def dict_keys_def comp_def case_prod_beta)

lemma sync_reach_ok: "sync_reach s \<Longrightarrow> sync_ok s"
proof (induction rule: sync_reach.induct)
  case create
  then show ?case by (simp add: create_sync_store_def sync_ok_def dict_ok_def dict_keys_def)
next
  case (clear s)
  then show ?case by (simp add: clear_sync_info_def sync_ok_def dict_ok_def dict_keys_def)
qed (simp_all add: peer_has_block_ok(1) peer_disconnected_ok,
    simp_all add: sync_ok_def set_peak_target_def set_long_sync_def set_sync_mode_def)

section \<open>The heaviest peak\<close>

text \<open>The peaks that peers have told us and that the table still knows.\<close>

definition known_peaks :: "sync_store \<Rightarrow> (bytes \<times> int \<times> int) set" where
  "known_peaks s = {v. \<exists>p. dict_get (ys_peer_to_peak s) p = Some v \<and> dict_mem (ys_peak_to_peer s) (fst v)}"

definition heaviest_of :: "(bytes \<times> int \<times> int) set \<Rightarrow> (bytes \<times> int \<times> int) option \<Rightarrow> bool" where
  "heaviest_of A best \<longleftrightarrow>
     (case best of None \<Rightarrow> A = {} | Some b \<Rightarrow> b \<in> A \<and> (\<forall>a \<in> A. snd (snd a) \<le> snd (snd b)))"

lemma heavier_heaviest:
  assumes "heaviest_of A best"
  shows "heaviest_of (if dict_mem known (fst v) then insert v A else A) (heavier known best (p, v))"
  using assms by (cases v; cases best) (force simp: heaviest_of_def heavier_def)+

lemma fold_heavier:
  "heaviest_of A best \<Longrightarrow>
   heaviest_of (A \<union> {v. \<exists>p. (p, v) \<in> set xs \<and> dict_mem known (fst v)}) (foldl (heavier known) best xs)"
proof (induction xs arbitrary: A best)
  case (Cons x xs)
  obtain p v where x: "x = (p, v)" by (cases x)
  let ?A = "if dict_mem known (fst v) then insert v A else A"
  have "?A \<union> {v. \<exists>p. (p, v) \<in> set xs \<and> dict_mem known (fst v)} = A \<union> {v. \<exists>p. (p, v) \<in> set (x # xs) \<and> dict_mem known (fst v)}"
    by (auto simp: x)
  with Cons.IH [OF heavier_heaviest [OF Cons.prems], of known v p] show ?case by (simp add: x)
qed simp

lemma heaviest_peak:
  assumes "sync_ok s"
  shows "get_heaviest_peak s =
           (if ys_peer_to_peak s = [] then Inr None
            else case foldl (heavier (ys_peak_to_peer s)) None (ys_peer_to_peak s) of
                   None \<Rightarrow> Inl AssertionError | Some b \<Rightarrow> Inr (Some b))"
    and "heaviest_of (known_peaks s) (foldl (heavier (ys_peak_to_peer s)) None (ys_peer_to_peak s))"
  using fold_heavier [of "{}" None "ys_peer_to_peak s" "ys_peak_to_peer s"] assms
  by (simp_all add: get_heaviest_peak_def heaviest_of_def known_peaks_def dict_get_iff sync_ok_def)

lemma known_peaks_cleared: "known_peaks (clear_sync_info s) = {}"
  by (auto simp: known_peaks_def clear_sync_info_def)

lemma get_peers_that_have_peak_eq:
  "get_peers_that_have_peak s hs = {p. \<exists>h \<in> set hs. \<exists>ps. dict_get (ys_peak_to_peer s) h = Some ps \<and> p \<in> ps}"
proof -
  have "foldl (\<lambda>ids h. case dict_get d h of None \<Rightarrow> ids | Some ps \<Rightarrow> ids \<union> ps) A hs
          = A \<union> {p. \<exists>h \<in> set hs. \<exists>ps. dict_get d h = Some ps \<and> p \<in> ps}" for A and d :: "(bytes, bytes set) dict"
    by (induction hs arbitrary: A) (auto split: option.splits)
  then show ?thesis by (simp add: get_peers_that_have_peak_def)
qed

section \<open>Properties\<close>

text \<open>However many peaks the peers announce, the table of peaks never has more than 256 entries, and an announcement
  records the peer under the announced peak and never pushes the entry of the sync target out; the peers of the other
  entries that stay are unchanged.\<close>

lemma sync_target_kept:
  assumes "sync_reach s" and "get_sync_target_hash s = Some target" and "s' = peer_has_block s h p w n new"
  shows "length (ys_peak_to_peer s') \<le> 256 \<and> p \<in> get_peers_that_have_peak s' [h]
    \<and> get_peers_that_have_peak s' [target] = get_peers_that_have_peak s [target] \<union> (if h = target then {p} else {})
    \<and> (seen_header_hash s target \<longrightarrow> seen_header_hash s' target)
    \<and> (\<forall>k ps. k \<noteq> h \<longrightarrow> dict_get (ys_peak_to_peer s') k = Some ps \<longrightarrow> dict_get (ys_peak_to_peer s) k = Some ps)"
proof -
  note ok = peer_has_block_ok [OF sync_reach_ok [OF assms(1)], where h = h and p = p and w = w and n = n and new = new,
    folded assms(3)]
  have add: "dict_get (add_peer s h p) k =
               (if k = h then Some (insert p (case dict_get (ys_peak_to_peer s) h of None \<Rightarrow> {} | Some ps \<Rightarrow> ps))
                else dict_get (ys_peak_to_peer s) k)" for k
    by (simp add: add_peer_def dict_simps)
  have new: "dict_get (ys_peak_to_peer s') h = dict_get (add_peer s h p) h"
    and target: "dict_get (ys_peak_to_peer s') target = dict_get (add_peer s h p) target"
    using ok(2) assms(2) by (auto simp: get_sync_target_hash_def)
  have old: "dict_get (ys_peak_to_peer s) k = Some ps" if "k \<noteq> h" "dict_get (ys_peak_to_peer s') k = Some ps" for k ps
    using ok(3) [OF that(2)] that(1) by (simp add: add)
  have "p \<in> get_peers_that_have_peak s' [h]"
    "get_peers_that_have_peak s' [target] = get_peers_that_have_peak s [target] \<union> (if h = target then {p} else {})"
    "seen_header_hash s target \<longrightarrow> seen_header_hash s' target"
    using new target by (auto simp: add get_peers_that_have_peak_eq seen_header_hash_def dict_mem_def split: option.splits)
  moreover have "length (ys_peak_to_peer s') \<le> 256" using ok(1) by (simp add: sync_ok_def)
  ultimately show ?thesis using old by blast
qed

text \<open>A first announcement of a second peak while the first one is the target.\<close>

definition example_sync :: sync_store where
  "example_sync = set_peak_target (peer_has_block create_sync_store [1] [9] 50 10 True) [1] 10"

lemma example_sync_reach: "sync_reach example_sync"
  unfolding example_sync_def by (intro sync_reach.intros)

lemma sync_target_kept_witness:
  "length (ys_peak_to_peer (peer_has_block example_sync [2] [8] 70 11 True)) \<le> 256
    \<and> get_peers_that_have_peak (peer_has_block example_sync [2] [8] 70 11 True) [[1]] = {[9]}"
proof -
  have "get_sync_target_hash example_sync = Some [1]" by (simp add: get_sync_target_hash_def example_sync_def set_peak_target_def)
  note t = sync_target_kept [OF example_sync_reach this refl, of "[2]" "[8]" 70 11 True]
  have "get_peers_that_have_peak example_sync [[1]] = {[9]}"
    by (simp add: get_peers_that_have_peak_def example_sync_def set_peak_target_def peer_has_block_def create_sync_store_def
        dict_get_def)
  with t show ?thesis by simp
qed

text \<open>\<open>get_heaviest_peak\<close> returns nothing exactly when no peer has announced a peak, otherwise a peak that a peer
  announced, that the table knows, and that no known peak outweighs.  If peers have announced peaks but the table knows none
  of them, as always after \<open>clear_sync_info\<close>, the assertion fails.\<close>

lemma heaviest_peak_spec:
  assumes "sync_reach s"
  shows "(get_heaviest_peak s = Inr None \<longleftrightarrow> ys_peer_to_peak s = [])
    \<and> (\<forall>b. get_heaviest_peak s = Inr (Some b) \<longrightarrow> b \<in> known_peaks s \<and> (\<forall>a \<in> known_peaks s. snd (snd a) \<le> snd (snd b)))
    \<and> (get_heaviest_peak s = Inl AssertionError \<longleftrightarrow> ys_peer_to_peak s \<noteq> [] \<and> known_peaks s = {})
    \<and> (ys_peer_to_peak s \<noteq> [] \<longrightarrow> get_heaviest_peak (clear_sync_info s) = Inl AssertionError)"
proof -
  note spec = heaviest_peak [OF sync_reach_ok [OF assms]]
  note cleared = heaviest_peak [OF sync_reach_ok [OF sync_reach.clear [OF assms]]]
  have "get_heaviest_peak (clear_sync_info s) = Inl AssertionError" if "ys_peer_to_peak s \<noteq> []"
    using that cleared
    by (auto simp: known_peaks_cleared heaviest_of_def split: option.splits) (simp add: clear_sync_info_def)
  moreover have "known_peaks s = {}" if "ys_peer_to_peak s = []" using that by (simp add: known_peaks_def dict_get_def)
  ultimately show ?thesis using spec by (auto simp: heaviest_of_def split: option.splits)
qed

lemma heaviest_peak_spec_witness:
  "get_heaviest_peak example_sync = Inr (Some ([1], 10, 50))
    \<and> get_heaviest_peak (clear_sync_info example_sync) = Inl AssertionError"
proof -
  have "ys_peer_to_peak example_sync \<noteq> []"
    by (simp add: example_sync_def set_peak_target_def peer_has_block_def create_sync_store_def)
  then have "get_heaviest_peak (clear_sync_info example_sync) = Inl AssertionError"
    using heaviest_peak_spec [OF example_sync_reach] by blast
  then show ?thesis
    by (simp add: get_heaviest_peak_def heavier_def example_sync_def set_peak_target_def peer_has_block_def
        create_sync_store_def dict_get_def dict_mem_def)
qed

end
