(* ===== verification/Bech32m.thy ===== *)
theory Bech32m
  imports Ints
begin

text \<open>
  \<open>util/bech32m.py\<close>: the addresses that users see.  A Python string is the list of its code points.  A puzzle hash is
  regrouped into values of five bits, a checksum of six such values is appended, and each value becomes a character.
\<close>

unbundle bit_operations_syntax

section \<open>The model\<close>

type_synonym str = "nat list"

definition ascii :: "string \<Rightarrow> str" where
  "ascii s = map of_char s"

definition CHARSET :: str where
  "CHARSET = ascii ''qpzry9x8gf2tvdw0s3jn54khce6mua7l''"

definition generator :: "int list" where
  "generator = [0x3B6A57B2, 0x26508E6D, 0x1EA119FA, 0x3D4233DD, 0x2A1462B3]"

text \<open>One turn of the loop of \<open>bech32_polymod\<close>.\<close>

definition polymod_step :: "int \<Rightarrow> int \<Rightarrow> int" where
  "polymod_step chk value =
     (let top = drop_bit 25 chk in
      foldl (\<lambda>c i. c XOR (if drop_bit i top AND 1 \<noteq> 0 then generator ! i else 0))
        (push_bit 5 (chk AND 0x1FFFFFF) XOR value) [0..<5])"

definition bech32_polymod :: "int list \<Rightarrow> int" where
  "bech32_polymod values = foldl polymod_step 1 values"

definition bech32_hrp_expand :: "str \<Rightarrow> int list" where
  "bech32_hrp_expand hrp = map (\<lambda>x. drop_bit 5 (int x)) hrp @ [0] @ map (\<lambda>x. int x AND 31) hrp"

definition M :: int where
  "M = 0x2BC830A3"

definition bech32_verify_checksum :: "str \<Rightarrow> int list \<Rightarrow> bool" where
  "bech32_verify_checksum hrp data \<longleftrightarrow> bech32_polymod (bech32_hrp_expand hrp @ data) = M"

definition bech32_create_checksum :: "str \<Rightarrow> int list \<Rightarrow> int list" where
  "bech32_create_checksum hrp data =
     (let polymod = bech32_polymod (bech32_hrp_expand hrp @ data @ [0, 0, 0, 0, 0, 0]) XOR M
      in map (\<lambda>i. drop_bit (5 * (5 - i)) polymod AND 31) [0..<6])"

definition bech32_encode :: "str \<Rightarrow> int list \<Rightarrow> str res" where
  "bech32_encode hrp data =
     rbind (rmap (py_index CHARSET) (data @ bech32_create_checksum hrp data)) (\<lambda>cs. Inr (hrp @ ascii ''1'' @ cs))"

text \<open>\<open>lower\<close> and \<open>upper\<close> on the characters 33 to 126, to which the code applies them, and \<open>find\<close> and \<open>rfind\<close> of a character.\<close>

definition lower_char :: "nat \<Rightarrow> nat" where
  "lower_char c = (if 65 \<le> c \<and> c \<le> 90 then c + 32 else c)"

definition upper_char :: "nat \<Rightarrow> nat" where
  "upper_char c = (if 97 \<le> c \<and> c \<le> 122 then c - 32 else c)"

fun find_char :: "str \<Rightarrow> nat \<Rightarrow> int" where
  "find_char [] c = -1"
| "find_char (x # xs) c = (if x = c then 0 else let i = find_char xs c in if i = -1 then -1 else i + 1)"

definition rfind_char :: "str \<Rightarrow> nat \<Rightarrow> int" where
  "rfind_char s c = (let i = find_char (rev s) c in if i = -1 then -1 else int (length s) - 1 - i)"

definition bech32_decode :: "str \<Rightarrow> int \<Rightarrow> (str \<times> int list) option" where
  "bech32_decode bech0 max_length =
     (if (\<exists>x \<in> set bech0. x < 33 \<or> x > 126) \<or> (map lower_char bech0 \<noteq> bech0 \<and> map upper_char bech0 \<noteq> bech0) then None
      else
        let bech = map lower_char bech0; pos = rfind_char bech 49 in
        if pos < 1 \<or> pos + 7 > int (length bech) \<or> int (length bech) > max_length then None
        else
          let hrp = take (nat pos) bech; rest = drop (nat pos + 1) bech; data = map (find_char CHARSET) rest in
          if \<not> (\<forall>x \<in> set rest. x \<in> set CHARSET) then None
          else if \<not> bech32_verify_checksum hrp data then None
          else Some (hrp, take (length data - 6) data))"

section \<open>Regrouping bits\<close>

text \<open>\<open>while bits >= tobits: bits -= tobits; ret.append((acc >> bits) & maxv)\<close>.\<close>

definition emit_groups :: "nat \<Rightarrow> int \<Rightarrow> nat \<times> int list \<Rightarrow> (nat \<times> int list) res" where
  "emit_groups tobits acc s =
     loop_while (\<lambda>(bits, ret). bits \<ge> tobits)
       (\<lambda>(bits, ret). Inr (bits - tobits, ret @ [drop_bit (bits - tobits) acc AND (2 ^ tobits - 1)])) s"

definition convert_step :: "nat \<Rightarrow> nat \<Rightarrow> int \<times> nat \<times> int list \<Rightarrow> int \<Rightarrow> (int \<times> nat \<times> int list) res" where
  "convert_step frombits tobits s value =
     (case s of (acc, bits, ret) \<Rightarrow>
        if value < 0 \<or> drop_bit frombits value \<noteq> 0 then Inl ValueError
        else
          let acc' = (push_bit frombits acc OR value) AND (2 ^ (frombits + tobits - 1) - 1) in
          rbind (emit_groups tobits acc' (bits + frombits, ret)) (\<lambda>(bits', ret'). Inr (acc', bits', ret')))"

definition convertbits :: "int list \<Rightarrow> nat \<Rightarrow> nat \<Rightarrow> bool \<Rightarrow> int list res" where
  "convertbits data frombits tobits pad =
     rbind (rfold (convert_step frombits tobits) (0, 0, []) data) (\<lambda>(acc, bits, ret).
     let tail = push_bit (tobits - bits) acc AND (2 ^ tobits - 1) in
     if pad then Inr (if bits \<noteq> 0 then ret @ [tail] else ret)
     else if bits \<ge> frombits \<or> tail \<noteq> 0 then Inl ValueError
     else Inr ret)"

definition encode_puzzle_hash :: "bytes \<Rightarrow> str \<Rightarrow> str res" where
  "encode_puzzle_hash puzzle_hash prefix =
     rbind (convertbits (map uint puzzle_hash) 8 5 True) (bech32_encode prefix)"

definition decode_puzzle_hash :: "str \<Rightarrow> bytes res" where
  "decode_puzzle_hash address =
     (case bech32_decode address 90 of
        None \<Rightarrow> Inl ValueError
      | Some (hrpgot, data) \<Rightarrow>
          rbind (convertbits data 5 8 False) (\<lambda>decoded. bytes32 (map word_of_int decoded)))"

section \<open>The checksum is linear\<close>

text \<open>What the top five bits of the state contribute.\<close>

definition feedback :: "int \<Rightarrow> int" where
  "feedback t = foldl (\<lambda>c i. c XOR (if drop_bit i t AND 1 \<noteq> 0 then generator ! i else 0)) 0 [0..<5]"

lemma xor_fold: "foldl (\<lambda>c i. c XOR f i) (a XOR b) is = a XOR foldl (\<lambda>c i. c XOR f i) (b :: int) is"
  by (induction "is" arbitrary: b) (simp_all add: xor.assoc)

lemma polymod_step_eq: "polymod_step chk v = (push_bit 5 (chk AND 0x1FFFFFF) XOR v) XOR feedback (drop_bit 25 chk)"
  unfolding polymod_step_def feedback_def Let_def by (rule xor_fold [of _ _ 0, unfolded xor.right_neutral])

lemma odd_drop: "(drop_bit i x AND 1 \<noteq> 0) = bit (x :: int) i"
  by (simp add: and_one_eq bit_iff_odd_drop_bit odd_iff_mod_2_eq_one)

lemma feedback_eq:
  "feedback t = (if bit t 0 then 0x3B6A57B2 else 0) XOR (if bit t 1 then 0x26508E6D else 0) XOR
     (if bit t 2 then 0x1EA119FA else 0) XOR (if bit t 3 then 0x3D4233DD else 0) XOR (if bit t 4 then 0x2A1462B3 else 0)"
proof -
  have "[0..<5] = [0, 1, 2, 3, 4 :: nat]" by code_simp
  then show ?thesis unfolding feedback_def odd_drop by (simp add: generator_def xor.assoc del: upt_Suc)
qed

lemma feedback_xor: "feedback (a XOR b) = feedback a XOR feedback b"
proof -
  have i: "(if bit (a XOR b) n then g else 0) = (if bit a n then g else 0) XOR (if bit b n then g else 0)" for n and g :: int
    by (simp add: bit_xor_iff)
  show ?thesis unfolding feedback_eq i by (simp only: ac_simps)
qed

lemma polymod_step_xor: "polymod_step (a XOR b) (v XOR w) = polymod_step a v XOR polymod_step b w"
proof -
  have "push_bit 5 ((a XOR b) AND 0x1FFFFFF) = push_bit 5 (a AND 0x1FFFFFF) XOR push_bit 5 (b AND 0x1FFFFFF)"
    by (simp add: bit.conj_xor_distrib2 push_bit_xor)
  moreover have "drop_bit 25 (a XOR b) = drop_bit 25 a XOR drop_bit 25 b" by (rule drop_bit_xor)
  ultimately show ?thesis by (simp only: polymod_step_eq feedback_xor ac_simps)
qed

lemma polymod_fold_xor:
  assumes "length vs = length ws"
  shows "foldl polymod_step (a XOR b) (map2 (XOR) vs ws) = foldl polymod_step a vs XOR foldl polymod_step b ws"
  using assms by (induction vs ws arbitrary: a b rule: list_induct2) (simp_all add: polymod_step_xor)

section \<open>The state stays within thirty bits\<close>

abbreviation five_bits :: "int \<Rightarrow> bool" where
  "five_bits v \<equiv> 0 \<le> v \<and> v < 32"

lemma feedback_range: "0 \<le> feedback t \<and> feedback t < 2 ^ 30"
  unfolding feedback_eq by (simp add: XOR_upper)

lemma mask_25: "x AND 0x1FFFFFF = take_bit 25 (x :: int)"
  by (simp add: take_bit_eq_mask mask_numeral)

lemma shifted_range: "0 \<le> push_bit 5 (x AND 0x1FFFFFF) \<and> push_bit 5 (x AND 0x1FFFFFF) < (2 ^ 30 :: int)"
proof -
  have "0 \<le> take_bit 25 x" "take_bit 25 x < 2 ^ 25" by (simp, rule take_bit_int_less_exp)
  then show ?thesis unfolding mask_25 push_bit_eq_mult by simp
qed

lemma polymod_step_range: "0 \<le> v \<Longrightarrow> v < 2 ^ 30 \<Longrightarrow> 0 \<le> polymod_step x v \<and> polymod_step x v < 2 ^ 30"
  using shifted_range [of x] feedback_range [of "drop_bit 25 x"] unfolding polymod_step_eq
  by (auto intro!: XOR_upper simp del: power_numeral)

lemma polymod_fold_range:
  assumes "0 \<le> x" "x < 2 ^ 30" "list_all five_bits vs"
  shows "0 \<le> foldl polymod_step x vs \<and> foldl polymod_step x vs < 2 ^ 30"
  using assms by (induction vs arbitrary: x) (use polymod_step_range in auto)

text \<open>The number that a list of digits of \<open>b\<close> bits stands for.\<close>

definition digits_value :: "nat \<Rightarrow> int list \<Rightarrow> int" where
  "digits_value b xs = foldl (\<lambda>a x. a * 2 ^ b + x) 0 xs"

definition digits_ok :: "nat \<Rightarrow> int list \<Rightarrow> bool" where
  "digits_ok b xs \<longleftrightarrow> list_all (\<lambda>x. 0 \<le> x \<and> x < 2 ^ b) xs"

lemma digits_value_snoc [simp]: "digits_value b (xs @ [x]) = digits_value b xs * 2 ^ b + x"
  and digits_value_Nil [simp]: "digits_value b [] = 0"
  by (simp_all add: digits_value_def)

lemma digits_ok_snoc [simp]: "digits_ok b (xs @ [x]) \<longleftrightarrow> digits_ok b xs \<and> 0 \<le> x \<and> x < 2 ^ b"
  and digits_ok_Nil [simp]: "digits_ok b []"
  by (simp_all add: digits_ok_def)

lemma digits_value_range: "digits_ok b xs \<Longrightarrow> 0 \<le> digits_value b xs \<and> digits_value b xs < 2 ^ (b * length xs)"
proof (induction xs rule: rev_induct)
  case Nil
  then show ?case by simp
next
  case (snoc x xs)
  then have v: "0 \<le> digits_value b xs" "digits_value b xs + 1 \<le> 2 ^ (b * length xs)" "0 \<le> x" "x < 2 ^ b" by auto
  have "(digits_value b xs + 1) * 2 ^ b \<le> 2 ^ (b * length xs) * 2 ^ b" by (rule mult_right_mono) (use v in auto)
  then have "digits_value b xs * 2 ^ b + x < 2 ^ (b * length xs) * 2 ^ b" using v by (simp add: algebra_simps)
  then show ?case using v by (simp add: power_add algebra_simps)
qed

lemma digits_value_inj:
  "length xs = length ys \<Longrightarrow> digits_ok b xs \<Longrightarrow> digits_ok b ys \<Longrightarrow> digits_value b xs = digits_value b ys \<Longrightarrow> xs = ys"
proof (induction xs arbitrary: ys rule: rev_induct)
  case Nil
  then show ?case by simp
next
  case (snoc x xs)
  then obtain z zs where ys: "ys = zs @ [z]" by (cases ys rule: rev_cases) auto
  have d: "0 \<le> x" "x < 2 ^ b" "0 \<le> z" "z < 2 ^ b" "digits_value b xs * 2 ^ b + x = digits_value b zs * 2 ^ b + z"
    using snoc.prems ys by auto
  have "(digits_value b xs * 2 ^ b + x) mod 2 ^ b = x" "(digits_value b zs * 2 ^ b + z) mod 2 ^ b = z" using d(1-4) by simp_all
  then have "x = z" using d(5) by metis
  moreover have "digits_value b xs = digits_value b zs" using d \<open>x = z\<close> by simp
  ultimately show ?case using snoc ys by simp
qed

text \<open>Without a carry out of the top the state is the number of the digits.\<close>

lemma xor_add: "0 \<le> v \<Longrightarrow> v < 32 \<Longrightarrow> push_bit 5 x XOR v = x * 32 + (v :: int)"
proof -
  assume v: "0 \<le> v" "v < 32"
  have "take_bit 5 v = v" using v by (simp add: take_bit_int_eq_self)
  then have "\<not> bit v n" if "5 \<le> n" for n using that by (metis bit_take_bit_iff not_less)
  then have "push_bit 5 x AND v = 0" by (auto simp: bit_eq_iff bit_and_iff bit_push_bit_iff)
  then have "push_bit 5 x XOR v = push_bit 5 x + v" by (simp add: disjunctive_add_eq_xor)
  then show ?thesis by (simp add: push_bit_eq_mult)
qed

lemma polymod_step_small: "0 \<le> x \<Longrightarrow> x < 2 ^ 25 \<Longrightarrow> five_bits v \<Longrightarrow> polymod_step x v = x * 32 + v"
proof -
  assume x: "0 \<le> x" "x < 2 ^ 25" "five_bits v"
  have "x AND 0x1FFFFFF = x" using x unfolding mask_25 by (simp add: take_bit_int_eq_self)
  moreover have "drop_bit 25 x = 0" using x by (simp add: drop_bit_eq_div)
  moreover have "feedback 0 = 0" by (simp add: feedback_eq)
  ultimately show ?thesis using xor_add x by (simp only: polymod_step_eq xor.right_neutral)
qed

lemma polymod_digits: "digits_ok 5 cs \<Longrightarrow> length cs \<le> 6 \<Longrightarrow> foldl polymod_step 0 cs = digits_value 5 cs"
proof (induction cs rule: rev_induct)
  case (snoc c cs)
  have "digits_value 5 cs < 2 ^ (5 * length cs)" "0 \<le> digits_value 5 cs" using digits_value_range snoc.prems by auto
  moreover have "(2 :: int) ^ (5 * length cs) \<le> 2 ^ 25" by (rule power_increasing) (use snoc.prems in auto)
  ultimately have "0 \<le> digits_value 5 cs" "digits_value 5 cs < 2 ^ 25" by linarith+
  then show ?case using snoc polymod_step_small [of "digits_value 5 cs" c] by simp
qed simp

text \<open>A state that is not zero stays so while zeros follow.\<close>

lemma feedback_low: "0 \<le> t \<Longrightarrow> t < 32 \<Longrightarrow> feedback t mod 32 = 0 \<Longrightarrow> t = 0"
proof -
  assume t: "0 \<le> t" "t < 32" "feedback t mod 32 = 0"
  have b: "\<not> bit t 0 \<and> \<not> bit t 1 \<and> \<not> bit t 2 \<and> \<not> bit t 3 \<and> \<not> bit t 4"
    using t(3) unfolding feedback_eq
    by (cases "bit t 0"; cases "bit t 1"; cases "bit t 2"; cases "bit t 3"; cases "bit t 4"; simp)
  have "take_bit 5 t = t" using t by (simp add: take_bit_int_eq_self)
  then have high: "\<not> bit t n" if "\<not> n < 5" for n using that bit_take_bit_iff by metis
  have "\<not> bit t n" for n
  proof (cases "n < 5")
    case True
    then consider "n = 0" | "n = 1" | "n = 2" | "n = 3" | "n = 4" by linarith
    then show ?thesis using b by cases simp_all
  qed (rule high)
  then show "t = 0" by (simp add: bit_eq_iff)
qed

lemma xor_zero: "a XOR b = (0 :: int) \<longleftrightarrow> a = b"
  by (metis xor.assoc xor.left_neutral xor_self_eq)

lemma polymod_step_kernel: "0 \<le> x \<Longrightarrow> x < 2 ^ 30 \<Longrightarrow> polymod_step x 0 = 0 \<Longrightarrow> x = 0"
proof -
  assume x: "0 \<le> x" "x < 2 ^ 30" "polymod_step x 0 = 0"
  have eq: "push_bit 5 (x AND 0x1FFFFFF) = feedback (drop_bit 25 x)"
    using x(3) unfolding polymod_step_eq xor.right_neutral xor_zero .
  have "push_bit 5 y mod 32 = 0" for y :: int by (simp add: push_bit_eq_mult)
  from this [of "x AND 0x1FFFFFF"] have "feedback (drop_bit 25 x) mod 32 = 0" by (simp only: eq)
  moreover have "0 \<le> drop_bit 25 x" using x(1) by simp
  moreover have "drop_bit 25 x < 32" using x(2) unfolding drop_bit_eq_div by simp
  ultimately have "drop_bit 25 x = 0" using feedback_low [of "drop_bit 25 x"] by satx
  then have "x div 2 ^ 25 = 0" unfolding drop_bit_eq_div .
  then have "x < 2 ^ 25" using x(1) by simp
  then have "polymod_step x 0 = x * 32" using polymod_step_small [of x 0] x(1) by simp
  then show "x = 0" using x(3) by simp
qed

lemma polymod_zeros_nonzero:
  "0 \<le> x \<Longrightarrow> x < 2 ^ 30 \<Longrightarrow> x \<noteq> 0 \<Longrightarrow> foldl polymod_step x (replicate n 0) \<noteq> 0"
proof (induction n arbitrary: x)
  case (Suc n)
  then show ?case using polymod_step_range [of 0 x] polymod_step_kernel [of x] by auto
qed simp

lemma polymod_zero: "foldl polymod_step 0 (replicate n 0) = 0"
  using polymod_step_small [of 0 0] by (induction n) auto

section \<open>Checksums\<close>

lemma map2_zero: "map2 (XOR) (xs :: int list) (replicate (length xs) 0) = xs" "map2 (XOR) xs xs = replicate (length xs) 0"
  by (induction xs) auto

text \<open>The last six values enter the state unchanged.\<close>

lemma polymod_last_six:
  assumes "digits_ok 5 cs" "length cs = 6"
  shows "foldl polymod_step x cs = foldl polymod_step x (replicate 6 0) XOR digits_value 5 cs"
  using polymod_fold_xor [of "replicate 6 0" cs x 0] polymod_digits [of cs] assms map2_zero(1) [of cs]
  by (simp add: zip_commute [of "replicate 6 0"] comp_def case_prod_unfold xor.commute)

lemma checksum_digits:
  assumes "0 \<le> x" "x < 2 ^ 30"
  shows "digits_value 5 (map (\<lambda>i. drop_bit (5 * (5 - i)) x AND 31) [0..<6]) = (x :: int)"
    and "digits_ok 5 (map (\<lambda>i. drop_bit (5 * (5 - i)) x AND 31) [0..<6])"
proof -
  have m: "y AND 31 = y mod 32" for y :: int using take_bit_eq_mask [of 5 y] by (simp add: mask_numeral take_bit_eq_mod)
  have l: "[0..<6] = [0, 1, 2, 3, 4, 5 :: nat]" by code_simp
  show "digits_ok 5 (map (\<lambda>i. drop_bit (5 * (5 - i)) x AND 31) [0..<6])"
    by (simp add: digits_ok_def list_all_iff m)
  show "digits_value 5 (map (\<lambda>i. drop_bit (5 * (5 - i)) x AND 31) [0..<6]) = x"
  proof -
    have d: "32 * (y div 32) + y mod 32 = y" for y :: int by (rule mult_div_mod_eq)
    have q: "x div 32 div 32 = x div 1024" "x div 1024 div 32 = x div 32768" "x div 32768 div 32 = x div 1048576"
      "x div 1048576 div 32 = x div 33554432" by (simp_all add: div_mult2_eq [symmetric])
    have "x div 33554432 < 32" "0 \<le> x div 33554432" using assms by simp_all
    then have top: "x div 33554432 mod 32 = x div 33554432" by simp
    show ?thesis
      unfolding m l drop_bit_eq_div digits_value_def
      by (simp add: top) (use d [of x] d [of "x div 32"] d [of "x div 1024"] d [of "x div 32768"] d [of "x div 1048576"] q in linarith)
  qed
qed

lemma hrp_expand_ok: "list_all (\<lambda>x. x \<le> 126) hrp \<Longrightarrow> list_all five_bits (bech32_hrp_expand hrp)"
proof -
  have "five_bits (int x AND 31)" for x
    using take_bit_eq_mask [of 5 "int x"] by (simp add: mask_numeral take_bit_eq_mod)
  then show "list_all (\<lambda>x. x \<le> 126) hrp \<Longrightarrow> list_all five_bits (bech32_hrp_expand hrp)"
    by (auto simp: bech32_hrp_expand_def list_all_iff drop_bit_eq_div)
qed

lemma five_bits_ok: "list_all five_bits xs = digits_ok 5 xs"
  by (simp add: digits_ok_def)

lemma created_checksum:
  assumes "list_all (\<lambda>x. x \<le> 126) hrp" "digits_ok 5 data"
  shows "bech32_verify_checksum hrp (data @ bech32_create_checksum hrp data)"
    and "digits_ok 5 (bech32_create_checksum hrp data)" and "length (bech32_create_checksum hrp data) = 6"
proof -
  let ?e = "bech32_hrp_expand hrp"
  define p where "p = bech32_polymod (?e @ data @ [0, 0, 0, 0, 0, 0])"
  have z: "[0, 0, 0, 0, 0, 0] = replicate 6 (0 :: int)" by code_simp
  have "0 \<le> p \<and> p < 2 ^ 30"
    using polymod_fold_range [of 1 "?e @ data @ [0, 0, 0, 0, 0, 0]"] hrp_expand_ok [OF assms(1)] assms(2)
    unfolding p_def bech32_polymod_def five_bits_ok by (simp add: digits_ok_def)
  then have m: "0 \<le> p XOR M" "p XOR M < 2 ^ 30" using XOR_upper [of p 30 M] by (simp_all add: M_def)
  have c: "bech32_create_checksum hrp data = map (\<lambda>i. drop_bit (5 * (5 - i)) (p XOR M) AND 31) [0..<6]"
    by (simp add: bech32_create_checksum_def p_def Let_def)
  show ok: "digits_ok 5 (bech32_create_checksum hrp data)" unfolding c by (rule checksum_digits(2) [OF m])
  show l: "length (bech32_create_checksum hrp data) = 6" by (simp add: c)
  have "bech32_polymod (?e @ data @ bech32_create_checksum hrp data) = p XOR (p XOR M)"
    using polymod_last_six [OF ok l, of "foldl polymod_step 1 (?e @ data)"] checksum_digits(1) [OF m]
    by (simp add: bech32_polymod_def p_def z c)
  also have "\<dots> = M" by (simp flip: xor.assoc)
  finally show "bech32_verify_checksum hrp (data @ bech32_create_checksum hrp data)" by (simp add: bech32_verify_checksum_def)
qed

text \<open>Two accepted lists of values that differ only in six consecutive places are equal.\<close>

lemma checksum_detects:
  assumes "bech32_verify_checksum hrp (x @ w @ y)" "bech32_verify_checksum hrp (x @ w' @ y)"
    and "length w = length w'" "length w \<le> 6" "digits_ok 5 w" "digits_ok 5 w'"
  shows "w = w'"
proof (rule ccontr)
  assume ne: "w \<noteq> w'"
  let ?d = "map2 (XOR) w w'"
  define e where "e = bech32_hrp_expand hrp @ x"
  have d: "digits_ok 5 ?d" using assms(3,5,6)
  proof (induction w w' rule: list_induct2)
    case (Cons a w b w')
    then show ?case using XOR_upper [of a 5 b] by (simp add: digits_ok_def)
  qed (simp add: digits_ok_def)
  have "?d \<noteq> replicate (length w) 0" using assms(3) ne
    by (induction w w' rule: list_induct2) (auto simp: xor_zero)
  moreover have "digits_value 5 (replicate n 0) = 0" "digits_ok 5 (replicate n 0)" for n
    by (induction n) (auto simp: digits_value_def digits_ok_def)
  ultimately have v: "digits_value 5 ?d \<noteq> 0"
    using digits_value_inj [of ?d "replicate (length w) 0" 5] d assms(3) by auto
  have "digits_value 5 ?d < 2 ^ (5 * length ?d)" "0 \<le> digits_value 5 ?d" using digits_value_range [OF d] by simp_all
  moreover have "(2 :: int) ^ (5 * length ?d) \<le> 2 ^ 30" by (rule power_increasing) (use assms(4) in auto)
  ultimately have r: "0 \<le> digits_value 5 ?d" "digits_value 5 ?d < 2 ^ 30" by linarith+
  have "foldl polymod_step (1 XOR 1) (map2 (XOR) (e @ w @ y) (e @ w' @ y)) = M XOR M"
    using assms(1-3) by (subst polymod_fold_xor) (simp_all add: e_def bech32_verify_checksum_def bech32_polymod_def)
  then have "foldl polymod_step (foldl polymod_step 0 ?d) (replicate (length y) 0) = 0"
    using assms(3) by (simp add: map2_zero(2) polymod_zero)
  then show False using polymod_zeros_nonzero r v polymod_digits [OF d] assms(3,4) by simp
qed

section \<open>Regrouping keeps the number\<close>

lemma and_mask: "x AND (2 ^ n - 1) = x mod (2 ^ n :: int)"
  by (metis mask_eq_exp_minus_1 take_bit_eq_mask take_bit_eq_mod)

text \<open>
  The state of the loop: what has been read is the number of the groups written so far followed by the \<open>bits\<close> lowest bits
  of \<open>acc\<close>.
\<close>

definition groups_inv :: "nat \<Rightarrow> nat \<Rightarrow> int list \<Rightarrow> int \<Rightarrow> nat \<Rightarrow> int list \<Rightarrow> bool" where
  "groups_inv f t read acc bits ret \<longleftrightarrow>
     0 \<le> acc \<and> digits_ok t ret \<and> f * length read = t * length ret + bits \<and>
     digits_value f read = digits_value t ret * 2 ^ bits + acc mod 2 ^ bits"

lemma emit_groups_ok:
  assumes "0 < t" "groups_inv f t read acc bits ret"
  shows "\<exists>bits' ret'. emit_groups t acc (bits, ret) = Inr (bits', ret') \<and> bits' < t \<and> groups_inv f t read acc bits' ret'"
  using assms(2)
proof (induction bits arbitrary: ret rule: less_induct)
  case (less bits)
  show ?case
  proof (cases "bits < t")
    case True
    then show ?thesis using less.prems by (auto simp: emit_groups_def loop_while_unfold)
  next
    case False
    let ?g = "drop_bit (bits - t) acc AND (2 ^ t - 1)"
    have e: "(2 :: int) ^ bits = 2 ^ (bits - t) * 2 ^ t" using False by (simp flip: power_add)
    have "acc mod 2 ^ bits = acc mod 2 ^ (bits - t) + 2 ^ (bits - t) * (acc div 2 ^ (bits - t) mod 2 ^ t)"
      unfolding e by (simp add: zmod_zmult2_eq)
    then have "digits_value t ret * 2 ^ bits + acc mod 2 ^ bits =
        digits_value t (ret @ [?g]) * 2 ^ (bits - t) + acc mod 2 ^ (bits - t)"
      by (simp add: and_mask drop_bit_eq_div e algebra_simps)
    then have "groups_inv f t read acc (bits - t) (ret @ [?g])"
      using less.prems False by (auto simp: groups_inv_def and_mask)
    moreover have "emit_groups t acc (bits, ret) = emit_groups t acc (bits - t, ret @ [?g])"
      unfolding emit_groups_def by (subst loop_while_unfold) (use False in simp)
    ultimately show ?thesis using less.IH [of "bits - t" "ret @ [?g]"] False assms(1) by simp
  qed
qed

lemma shift_in:
  assumes "0 \<le> v" "v < 2 ^ f" "0 \<le> acc" "bits < t"
  shows "((push_bit f acc OR v) AND (2 ^ (f + t - 1) - 1)) mod 2 ^ (bits + f) = (acc mod 2 ^ bits) * 2 ^ f + (v :: int)"
proof -
  have "take_bit f v = v" using assms by (simp add: take_bit_int_eq_self)
  then have "\<not> bit v n" if "f \<le> n" for n using that bit_take_bit_iff [of f v n] by simp
  then have "push_bit f acc AND v = 0" by (auto simp: bit_eq_iff bit_and_iff bit_push_bit_iff)
  then have or: "push_bit f acc OR v = acc * 2 ^ f + v" by (simp add: disjunctive_add_eq_or push_bit_eq_mult)
  have "(acc * 2 ^ f + v) mod 2 ^ (f + t - 1) mod 2 ^ (bits + f) = (acc * 2 ^ f + v) mod 2 ^ (bits + f)"
    using assms(4) by (intro mod_mod_cancel) (simp add: le_imp_power_dvd)
  also have "\<dots> = (acc mod 2 ^ bits) * 2 ^ f + v"
  proof -
    have "(acc * 2 ^ f + v) mod (2 ^ f * 2 ^ bits) =
        (acc * 2 ^ f + v) mod 2 ^ f + 2 ^ f * ((acc * 2 ^ f + v) div 2 ^ f mod 2 ^ bits)" by (subst zmod_zmult2_eq) (simp_all add: add.commute)
    also have "(acc * 2 ^ f + v) mod 2 ^ f = v" using assms(1,2) by simp
    also have "(acc * 2 ^ f + v) div 2 ^ f = acc" using assms(1,2) by simp
    finally show ?thesis by (simp add: power_add algebra_simps)
  qed
  finally show ?thesis by (simp add: and_mask or)
qed

lemma convert_step_ok:
  assumes "0 < t" "groups_inv f t read acc bits ret" "bits < t" "0 \<le> v" "v < 2 ^ f"
  shows "\<exists>acc' bits' ret'. convert_step f t (acc, bits, ret) v = Inr (acc', bits', ret') \<and> bits' < t \<and>
           groups_inv f t (read @ [v]) acc' bits' ret'"
proof -
  define acc' where "acc' = (push_bit f acc OR v) AND (2 ^ (f + t - 1) - 1)"
  have i: "0 \<le> acc" "digits_ok t ret" "f * length read = t * length ret + bits"
    "digits_value f read = digits_value t ret * 2 ^ bits + acc mod 2 ^ bits"
    using assms(2) by (simp_all add: groups_inv_def)
  have "acc' mod 2 ^ (bits + f) = (acc mod 2 ^ bits) * 2 ^ f + v"
    using shift_in [OF assms(4,5) i(1) assms(3)] by (simp add: acc'_def)
  then have "groups_inv f t (read @ [v]) acc' (bits + f) ret"
    using i by (simp add: groups_inv_def acc'_def and_mask power_add algebra_simps)
  from emit_groups_ok [OF assms(1) this] show ?thesis
    using assms(4,5) by (auto simp: convert_step_def Let_def drop_bit_eq_div acc'_def)
qed

lemma convert_loop:
  assumes "0 < t" "digits_ok f data"
  shows "\<exists>acc bits ret. rfold (convert_step f t) (0, 0, []) data = Inr (acc, bits, ret) \<and> bits < t \<and>
           groups_inv f t data acc bits ret"
  using assms(2)
proof (induction data rule: rev_induct)
  case Nil
  then show ?case using assms(1) by (simp add: groups_inv_def)
next
  case (snoc v data)
  then obtain acc bits ret where "rfold (convert_step f t) (0, 0, []) data = Inr (acc, bits, ret)" "bits < t"
    "groups_inv f t data acc bits ret" by auto
  then show ?case using convert_step_ok [OF assms(1), of f data acc bits ret v] snoc.prems by (simp add: rfold_append)
qed

lemma tail_group:
  assumes "bits < t"
  shows "push_bit (t - bits) acc AND (2 ^ t - 1) = (acc mod 2 ^ bits) * (2 ^ (t - bits) :: int)"
proof -
  have "(2 :: int) ^ t = 2 ^ bits * 2 ^ (t - bits)" using assms by (simp flip: power_add)
  then show ?thesis unfolding and_mask push_bit_eq_mult by (simp only: mult_mod_left)
qed

text \<open>Padding appends the zeros that fill the last group.\<close>

lemma convert_padded:
  assumes "0 < t" "digits_ok f data"
  shows "\<exists>ret pad. convertbits data f t True = Inr ret \<and> digits_ok t ret \<and> pad < t \<and>
           t * length ret = f * length data + pad \<and> digits_value t ret = digits_value f data * 2 ^ pad"
proof -
  obtain acc bits ret where r: "rfold (convert_step f t) (0, 0, []) data = Inr (acc, bits, ret)" "bits < t"
    "groups_inv f t data acc bits ret" using convert_loop [OF assms] by blast
  show ?thesis
  proof (cases "bits = 0")
    case True
    then show ?thesis using r assms(1) by (auto simp: convertbits_def groups_inv_def intro!: exI [of _ 0])
  next
    case False
    let ?g = "push_bit (t - bits) acc AND (2 ^ t - 1)"
    have e: "(2 :: int) ^ t = 2 ^ bits * 2 ^ (t - bits)" using r(2) by (simp flip: power_add)
    have "digits_value t (ret @ [?g]) = digits_value f data * 2 ^ (t - bits)"
      using r(3) unfolding groups_inv_def digits_value_snoc tail_group [OF r(2)] by (simp add: e distrib_right)
    moreover have "digits_ok t (ret @ [?g])" using r(3) by (simp add: groups_inv_def and_mask)
    moreover have "t * length (ret @ [?g]) = f * length data + (t - bits)" using r(2,3) by (simp add: groups_inv_def algebra_simps)
    moreover have "convertbits data f t True = Inr (ret @ [?g])" using r(1) False by (simp add: convertbits_def Let_def)
    ultimately show ?thesis using False r(2) by (intro exI [of _ "ret @ [?g]"] exI [of _ "t - bits"]) auto
  qed
qed

lemma convert_roundtrip:
  assumes "0 < t" "t \<le> f" "digits_ok f data" "convertbits data f t True = Inr ret"
  shows "convertbits ret t f False = Inr data"
proof -
  obtain pad where p: "digits_ok t ret" "pad < t" "t * length ret = f * length data + pad"
    "digits_value t ret = digits_value f data * 2 ^ pad"
    using convert_padded [OF assms(1,3)] assms(4) by auto
  obtain acc bits ret' where r: "rfold (convert_step t f) (0, 0, []) ret = Inr (acc, bits, ret')" "bits < f"
    "groups_inv t f ret acc bits ret'" using convert_loop [of f t ret] assms(1,2) p(1) by auto
  have i: "f * length data + pad = f * length ret' + bits" "digits_ok f ret'"
    "digits_value f data * 2 ^ pad = digits_value f ret' * 2 ^ bits + acc mod 2 ^ bits"
    using r(3) p by (simp_all add: groups_inv_def)
  have "length data = (f * length data + pad) div f" "length ret' = (f * length ret' + bits) div f"
    using p(2) r(2) assms(2) by simp_all
  then have l: "length ret' = length data" using i(1) by simp
  then have b: "bits = pad" using i(1) by simp
  have "acc mod 2 ^ bits = (digits_value f ret' * 2 ^ bits + acc mod 2 ^ bits) mod 2 ^ bits" by simp
  also have "\<dots> = (digits_value f data * 2 ^ pad) mod 2 ^ pad" using i(3) b by simp
  finally have a: "acc mod 2 ^ bits = 0" by simp
  then have "digits_value f ret' = digits_value f data" using i(3) b by simp
  then have "ret' = data" using digits_value_inj [OF l i(2) assms(3)] by simp
  then show ?thesis using r(1,2) a b p(2) tail_group [OF r(2), of acc] by (simp add: convertbits_def Let_def)
qed

section \<open>Strings\<close>

lemma charset: "distinct CHARSET" "length CHARSET = 32" "49 \<notin> set CHARSET"
  "list_all (\<lambda>x. 33 \<le> x \<and> x \<le> 126 \<and> lower_char x = x) CHARSET"
  by code_simp+

lemma find_char_nth: "distinct xs \<Longrightarrow> i < length xs \<Longrightarrow> find_char xs (xs ! i) = int i"
proof (induction xs arbitrary: i)
  case (Cons x xs)
  then show ?case by (cases i) (auto simp: Let_def)
qed simp

lemma find_char_set: "x \<in> set xs \<Longrightarrow> 0 \<le> find_char xs x \<and> find_char xs x < int (length xs) \<and> xs ! nat (find_char xs x) = x"
  by (induction xs) (auto simp: Let_def nat_add_distrib)

lemma find_char_append: "c \<notin> set xs \<Longrightarrow> find_char (xs @ c # ys) c = int (length xs)"
  by (induction xs) (auto simp: Let_def)

lemma rfind_last: "c \<notin> set ys \<Longrightarrow> rfind_char (xs @ c # ys) c = int (length xs)"
  using find_char_append [of c "rev ys" "rev xs"] by (simp add: rfind_char_def Let_def)

lemma charset_chars:
  assumes "digits_ok 5 ds"
  shows "rmap (py_index CHARSET) ds = Inr (map (\<lambda>d. CHARSET ! nat d) ds)"
    and "map (find_char CHARSET) (map (\<lambda>d. CHARSET ! nat d) ds) = ds"
proof -
  have "py_index CHARSET d = Inr (CHARSET ! nat d)" "find_char CHARSET (CHARSET ! nat d) = d" if "d \<in> set ds" for d
    using that assms find_char_nth [OF charset(1), of "nat d"] charset(2)
    by (auto simp: digits_ok_def list_all_iff py_index_def)
  then show "rmap (py_index CHARSET) ds = Inr (map (\<lambda>d. CHARSET ! nat d) ds)"
    "map (find_char CHARSET) (map (\<lambda>d. CHARSET ! nat d) ds) = ds"
    by (induction ds) auto
qed

text \<open>What is accepted after a separator that is the last one.\<close>

lemma decode_after_separator:
  assumes "49 \<notin> set rest" "bech32_decode (hrp @ 49 # rest) m \<noteq> None"
  shows "set (map lower_char rest) \<subseteq> set CHARSET \<and>
         bech32_verify_checksum (map lower_char hrp) (map (find_char CHARSET) (map lower_char rest))"
proof -
  have "49 \<notin> set (map lower_char rest)" using assms(1) by (auto simp: lower_char_def split: if_splits)
  from rfind_last [OF this, of "map lower_char hrp"] show ?thesis
    using assms(2) by (auto simp: bech32_decode_def Let_def lower_char_def [of 49] split: if_splits)
qed

lemma map_lower: "list_all (\<lambda>x. lower_char x = x) xs \<Longrightarrow> map lower_char xs = xs"
  by (induction xs) auto

definition prefix_ok :: "str \<Rightarrow> bool" where
  "prefix_ok p \<longleftrightarrow> p \<noteq> [] \<and> length p \<le> 31 \<and> list_all (\<lambda>x. 33 \<le> x \<and> x \<le> 126 \<and> lower_char x = x) p"

lemma decode_encoded:
  assumes "prefix_ok prefix" "digits_ok 5 data" "length data \<le> 52"
  shows "\<exists>s. bech32_encode prefix data = Inr s \<and> bech32_decode s 90 = Some (prefix, data)"
proof -
  define c where "c = bech32_create_checksum prefix data"
  have p: "list_all (\<lambda>x. x \<le> 126) prefix" "list_all (\<lambda>x. lower_char x = x) prefix" "list_all (\<lambda>x. 33 \<le> x \<and> x \<le> 126) prefix"
    "prefix \<noteq> []" "length prefix \<le> 31"
    using assms(1) by (auto simp: prefix_ok_def list_all_iff)
  note k = created_checksum [OF p(1) assms(2), folded c_def]
  have ok: "digits_ok 5 (data @ c)" using assms(2) k(2) by (simp add: digits_ok_def)
  define cs where "cs = map (\<lambda>d. CHARSET ! nat d) (data @ c)"
  have "CHARSET ! nat d \<in> set CHARSET" if "d \<in> set (data @ c)" for d
  proof -
    have "five_bits d" using that ok by (auto simp: digits_ok_def list_all_iff)
    then show ?thesis using charset(2) by (intro nth_mem) (simp add: nat_less_iff)
  qed
  then have cs: "set cs \<subseteq> set CHARSET" by (auto simp: cs_def)
  then have cc: "list_all (\<lambda>x. lower_char x = x) cs" "list_all (\<lambda>x. 33 \<le> x \<and> x \<le> 126) cs" "49 \<notin> set cs"
    using charset(3,4) by (auto simp: list_all_iff)
  have s: "bech32_encode prefix data = Inr (prefix @ 49 # cs)"
    using charset_chars(1) [OF ok] by (simp add: bech32_encode_def ascii_def cs_def c_def)
  have low: "map lower_char (prefix @ 49 # cs) = prefix @ 49 # cs"
    using map_lower p(2) cc(1) by (simp add: lower_char_def [of 49])
  have f: "map (find_char CHARSET) cs = data @ c" using charset_chars(2) [OF ok] by (simp add: cs_def)
  have l: "length cs = length data + 6" using k(3) by (simp add: cs_def)
  have "bech32_decode (prefix @ 49 # cs) 90 = Some (prefix, data)"
    unfolding bech32_decode_def low rfind_last [OF cc(3)] Let_def
    using p cc(2) cs k assms(3) f l by (auto simp: list_all_iff)
  then show ?thesis using s by blast
qed

section \<open>Properties\<close>

text \<open>C34. Addresses round trip.  A puzzle hash of 32 bytes under a usable prefix, lower-case printable characters of which
  there are at most 31, is always encoded, and decoding the address gives the puzzle hash back.\<close>

theorem address_roundtrip:
  assumes "length puzzle_hash = 32" and "prefix_ok prefix"
  shows "\<exists>address. encode_puzzle_hash puzzle_hash prefix = Inr address \<and> decode_puzzle_hash address = Inr puzzle_hash"
proof -
  have "uint (b :: byte) < 2 ^ 8" for b using uint_bounded [of b] by simp
  then have d: "digits_ok 8 (map uint puzzle_hash)" by (simp add: digits_ok_def list_all_iff)
  obtain ret pad where r: "convertbits (map uint puzzle_hash) 8 5 True = Inr ret" "digits_ok 5 ret" "pad < 5"
    "5 * length ret = 8 * 32 + pad"
    using convert_padded [OF _ d, of 5] assms(1) by auto
  obtain s where "bech32_encode prefix ret = Inr s" "bech32_decode s 90 = Some (prefix, ret)"
    using decode_encoded [OF assms(2) r(2)] r(3,4) by auto
  moreover have "convertbits ret 5 8 False = Inr (map uint puzzle_hash)" by (rule convert_roundtrip [OF _ _ d r(1)]) simp_all
  moreover have "map word_of_int (map uint puzzle_hash) = puzzle_hash" by (simp add: comp_def)
  ultimately show ?thesis using r(1) assms(1) by (auto simp: encode_puzzle_hash_def decode_puzzle_hash_def sized_init_def simp del: map_map)
qed

theorem address_roundtrip_witness:
  "\<exists>address. encode_puzzle_hash (replicate 32 7) (ascii ''xcc'') = Inr address \<and> decode_puzzle_hash address = Inr (replicate 32 7)"
proof -
  have "prefix_ok (ascii ''xcc'')" by code_simp
  from address_roundtrip [OF _ this, of "replicate 32 7"] show ?thesis by simp
qed

text \<open>C35. Mistyped addresses are rejected.  If two strings that differ only within six consecutive characters after the
  separator are both accepted, they are the same up to case: no single wrong character, swap of neighbours or other damage
  to up to six neighbouring characters leads to another address.\<close>

theorem address_burst_detected:
  assumes "bech32_decode (hrp @ ascii ''1'' @ x @ w @ y) m \<noteq> None" and "bech32_decode (hrp @ ascii ''1'' @ x @ w' @ y) m \<noteq> None"
    and "length w = length w'" and "length w \<le> 6" and "49 \<notin> set (x @ w @ w' @ y)"
  shows "map lower_char w = map lower_char w'"
proof -
  have one: "ascii ''1'' = [49]" by code_simp
  let ?v = "\<lambda>u. map (find_char CHARSET) (map lower_char u)"
  have a: "set (map lower_char (x @ w @ y)) \<subseteq> set CHARSET" "bech32_verify_checksum (map lower_char hrp) (?v (x @ w @ y))"
    using decode_after_separator [of "x @ w @ y" hrp m] assms(1,5) one by auto
  have b: "set (map lower_char (x @ w' @ y)) \<subseteq> set CHARSET" "bech32_verify_checksum (map lower_char hrp) (?v (x @ w' @ y))"
    using decode_after_separator [of "x @ w' @ y" hrp m] assms(2,5) one by auto
  have d: "digits_ok 5 (?v u) \<and> map (\<lambda>i. CHARSET ! nat i) (?v u) = map lower_char u" if "set (map lower_char u) \<subseteq> set CHARSET" for u
    using that find_char_set [of _ CHARSET] charset(2) by (auto simp: digits_ok_def list_all_iff)
  have "?v w = ?v w'"
    using checksum_detects [of "map lower_char hrp" "?v x" "?v w" "?v y" "?v w'"] a b assms(3,4) d [of w] d [of w'] by simp
  then show ?thesis using d [of w] d [of w'] a(1) b(1) by (metis le_sup_iff map_append set_append)
qed

lemma sample_decoded: "bech32_decode (ascii ''a1lqfn3a'') 90 \<noteq> None"
  by code_simp

theorem address_burst_detected_witness: "bech32_decode (ascii ''a1lqfm3a'') 90 = None"
proof (rule ccontr)
  assume a: "bech32_decode (ascii ''a1lqfm3a'') 90 \<noteq> None"
  have "map lower_char (ascii ''m'') = map lower_char (ascii ''n'')"
    by (rule address_burst_detected [of "ascii ''a''" "ascii ''lqf''" _ "ascii ''3a''" 90])
       (use a sample_decoded in \<open>simp_all add: ascii_def\<close>)
  then show False by (simp add: ascii_def lower_char_def)
qed

end
