(* ===== verification/CoinSelection.thy ===== *)
theory CoinSelection
  imports Rewards
begin

text \<open>
  \<open>wallet/coin_selection.py\<close> and \<open>wallet/wallet_coin_record.py\<close>: which coins a wallet spends for an amount.  A Python set of
  coins is a \<open>set\<close>; the bits of \<open>random.getrandbits(1)\<close> are a parameter, a sequence read from the start; the ids of coins
  are the parameter \<open>name\<close>.  Logging is left out.
\<close>

section \<open>The algorithms\<close>

record wallet_coin_record =
  wc_coin :: coin
  wc_confirmed_block_height :: int
  wc_spent_block_height :: int
  wc_spent :: bool
  wc_coinbase :: bool
  wc_wallet_type :: int
  wc_wallet_id :: int

definition check_for_exact_match :: "coin list \<Rightarrow> int \<Rightarrow> coin option" where
  "check_for_exact_match coin_list target = List.find (\<lambda>c. amount c = target) coin_list"

definition select_smallest_coin_over_target :: "int \<Rightarrow> coin list \<Rightarrow> coin option res" where
  "select_smallest_coin_over_target target sorted_coin_list =
     rbind (py_index sorted_coin_list 0) (\<lambda>c0.
     if amount c0 < target then Inr None
     else
       (case List.find (\<lambda>c. amount c \<ge> target) (rev sorted_coin_list) of
          Some c \<Rightarrow> Inr (Some c)
        | None \<Rightarrow> Inl AssertionError))"

text \<open>The variables of the knapsack loops, with the number of random bits read so far.\<close>

record knapsack =
  ks_selected_coins :: "coin set"
  ks_selected_coins_sum :: int
  ks_target_reached :: bool
  ks_best_set_of_coins :: "coin set option"
  ks_best_set_sum :: int
  ks_bits_read :: nat

text \<open>One pass over the coins.  \<open>Inl\<close> is a set that the algorithm returns at once.\<close>

fun knapsack_pass :: "(nat \<Rightarrow> bool) \<Rightarrow> nat \<Rightarrow> int \<Rightarrow> int \<Rightarrow> coin list \<Rightarrow> knapsack \<Rightarrow> coin set + knapsack" where
  "knapsack_pass bits n_pass target max_num_coins [] k = Inr k"
| "knapsack_pass bits n_pass target max_num_coins (c # cs) k =
     (let take_it = (if n_pass = 0 then bits (ks_bits_read k) else n_pass = 1 \<and> c \<notin> ks_selected_coins k);
          k = (if n_pass = 0 then k\<lparr>ks_bits_read := ks_bits_read k + 1\<rparr> else k);
          total = ks_selected_coins_sum k + amount c;
          selected = insert c (ks_selected_coins k)
      in
      if \<not> take_it then knapsack_pass bits n_pass target max_num_coins cs k
      else if int (card (ks_selected_coins k)) > max_num_coins then Inr k
      else if total = target then Inl selected
      else if total > target then
        if total < ks_best_set_sum k then
          knapsack_pass bits n_pass target max_num_coins cs
            (k\<lparr>ks_target_reached := True, ks_best_set_of_coins := Some selected, ks_best_set_sum := total,
               ks_selected_coins_sum := total - amount c, ks_selected_coins := selected - {c}\<rparr>)
        else
          knapsack_pass bits n_pass target max_num_coins cs
            (k\<lparr>ks_target_reached := True, ks_selected_coins_sum := total, ks_selected_coins := selected\<rparr>)
      else
        knapsack_pass bits n_pass target max_num_coins cs (k\<lparr>ks_selected_coins_sum := total, ks_selected_coins := selected\<rparr>))"

text \<open>A trial: the first pass, and the second one unless the target was reached.\<close>

definition knapsack_trial :: "(nat \<Rightarrow> bool) \<Rightarrow> int \<Rightarrow> int \<Rightarrow> coin list \<Rightarrow> knapsack \<Rightarrow> coin set + knapsack" where
  "knapsack_trial bits target max_num_coins coins k =
     (case knapsack_pass bits 0 target max_num_coins coins
             (k\<lparr>ks_selected_coins := {}, ks_selected_coins_sum := 0, ks_target_reached := False\<rparr>) of
        Inl s \<Rightarrow> Inl s
      | Inr k1 \<Rightarrow> if ks_target_reached k1 then Inr k1 else knapsack_pass bits 1 target max_num_coins coins k1)"

fun knapsack_trials :: "nat \<Rightarrow> (nat \<Rightarrow> bool) \<Rightarrow> int \<Rightarrow> int \<Rightarrow> coin list \<Rightarrow> knapsack \<Rightarrow> coin set option" where
  "knapsack_trials 0 bits target max_num_coins coins k = ks_best_set_of_coins k"
| "knapsack_trials (Suc n) bits target max_num_coins coins k =
     (case knapsack_trial bits target max_num_coins coins k of
        Inl s \<Rightarrow> Some s
      | Inr k' \<Rightarrow> knapsack_trials n bits target max_num_coins coins k')"

definition knapsack_coin_algorithm :: "(nat \<Rightarrow> bool) \<Rightarrow> coin list \<Rightarrow> int \<Rightarrow> int \<Rightarrow> int \<Rightarrow> coin set option" where
  "knapsack_coin_algorithm bits smaller_coins target max_coin_amount max_num_coins =
     knapsack_trials 1000 bits target max_num_coins smaller_coins
       \<lparr>ks_selected_coins = {}, ks_selected_coins_sum = 0, ks_target_reached = False, ks_best_set_of_coins = None,
        ks_best_set_sum = max_coin_amount, ks_bits_read = 0\<rparr>"

fun add_largest :: "int \<Rightarrow> int \<Rightarrow> coin set \<Rightarrow> coin list \<Rightarrow> coin set option" where
  "add_largest target total_value selected [] = None"
| "add_largest target total_value selected (c # cs) =
     (if total_value + amount c \<ge> target then Some (insert c selected)
      else add_largest target (total_value + amount c) (insert c selected) cs)"

definition sum_largest_coins :: "int \<Rightarrow> coin list \<Rightarrow> coin set option" where
  "sum_largest_coins target sorted_coins = add_largest target 0 {} sorted_coins"

section \<open>Selecting coins\<close>

definition coin_usable :: "(coin \<Rightarrow> bytes) \<Rightarrow> (bytes, coin) dict \<Rightarrow> coin list \<Rightarrow> int \<Rightarrow> coin \<Rightarrow> bool" where
  "coin_usable name unconfirmed_removals exclude min_coin_amount c =
     (\<not> dict_mem unconfirmed_removals (name c) \<and> c \<notin> set exclude \<and> \<not> amount c < min_coin_amount)"

definition sum_of :: "coin list \<Rightarrow> int" where
  "sum_of coins = sum_list (map amount coins)"

definition max_num_coins :: int where
  "max_num_coins = 500"

definition select_among :: "(nat \<Rightarrow> bool) \<Rightarrow> int \<Rightarrow> int \<Rightarrow> coin list \<Rightarrow> coin set res" where
  "select_among bits max_coin_amount amt coins =
     (let smaller_coins = filter (\<lambda>c. amount c < amt) coins; smaller_coin_sum = sum_of smaller_coins in
      if smaller_coin_sum = amt \<and> int (length smaller_coins) < max_num_coins then Inr (set smaller_coins)
      else if smaller_coin_sum < amt then
        rbind (select_smallest_coin_over_target amt coins) (\<lambda>c.
        case c of None \<Rightarrow> Inl AssertionError | Some c \<Rightarrow> Inr {c})
      else if smaller_coin_sum > amt then
        (case knapsack_coin_algorithm bits smaller_coins amt max_coin_amount max_num_coins of
           Some s \<Rightarrow> Inr s
         | None \<Rightarrow>
             (case sum_largest_coins amt smaller_coins of
                Some s \<Rightarrow>
                  if int (card s) > max_num_coins then
                    rbind (select_smallest_coin_over_target amt coins) (\<lambda>c.
                    case c of None \<Rightarrow> Inl ValueError | Some c \<Rightarrow> Inr {c})
                  else Inr s
              | None \<Rightarrow>
                  rbind (select_smallest_coin_over_target amt coins) (\<lambda>c.
                  case c of None \<Rightarrow> Inl ValueError | Some c \<Rightarrow> Inr {c})))
      else
        rbind (select_smallest_coin_over_target amt coins) (\<lambda>c.
        case c of None \<Rightarrow> Inl ValueError | Some c \<Rightarrow> Inr {c}))"

definition select_coins ::
  "(coin \<Rightarrow> bytes) \<Rightarrow> (nat \<Rightarrow> bool) \<Rightarrow> int \<Rightarrow> int \<Rightarrow> wallet_coin_record list \<Rightarrow> (bytes, coin) dict \<Rightarrow> int \<Rightarrow> coin list option
     \<Rightarrow> int option \<Rightarrow> coin set res" where
  "select_coins name bits spendable_amount max_coin_amount spendable_coins unconfirmed_removals amt exclude min_coin_amount =
     (let exclude = (case exclude of None \<Rightarrow> [] | Some e \<Rightarrow> e);
          min_coin_amount = (case min_coin_amount of None \<Rightarrow> 0 | Some m \<Rightarrow> m)
      in
      if amt > spendable_amount then Inl ValueError
      else
        let valid = filter (coin_usable name unconfirmed_removals exclude min_coin_amount) (map wc_coin spendable_coins);
            sorted_coins = sort_key (\<lambda>c. - amount c) valid
        in
        if sum_of valid < amt then Inl ValueError
        else
          rbind (uint64 amt) (\<lambda>target.
          case check_for_exact_match sorted_coins target of
            Some c \<Rightarrow> Inr {c}
          | None \<Rightarrow> select_among bits max_coin_amount amt sorted_coins))"

section \<open>Lemmas\<close>

definition amounts :: "coin set \<Rightarrow> int" where
  "amounts s = sum amount s"

lemma sum_of_set: "distinct coins \<Longrightarrow> sum_of coins = amounts (set coins)"
  by (simp add: sum_of_def amounts_def sum_list_distinct_conv_sum_set)

text \<open>What the knapsack keeps: its sets are sets of the given coins with their sums, of at most one coin more than allowed.\<close>

definition knapsack_ok :: "int \<Rightarrow> int \<Rightarrow> coin set \<Rightarrow> knapsack \<Rightarrow> bool" where
  "knapsack_ok target m coins k \<longleftrightarrow>
     ks_selected_coins k \<subseteq> coins \<and> ks_selected_coins_sum k = amounts (ks_selected_coins k) \<and>
     int (card (ks_selected_coins k)) \<le> m + 1 \<and>
     (\<forall>s. ks_best_set_of_coins k = Some s \<longrightarrow> s \<subseteq> coins \<and> amounts s > target \<and> int (card s) \<le> m + 1)"

definition chosen :: "int \<Rightarrow> int \<Rightarrow> coin set \<Rightarrow> coin set \<Rightarrow> bool" where
  "chosen target m coins s \<longleftrightarrow> s \<subseteq> coins \<and> amounts s \<ge> target \<and> int (card s) \<le> m + 1"

lemma knapsack_pass_ok:
  assumes "finite coins" "set cs \<subseteq> coins" "distinct cs" "knapsack_ok target m coins k"
    and "n = 0 \<Longrightarrow> ks_selected_coins k \<inter> set cs = {}"
  shows "case knapsack_pass bits n target m cs k of
           Inl s \<Rightarrow> chosen target m coins s
         | Inr k' \<Rightarrow> knapsack_ok target m coins k'"
  using assms(2-5)
proof (induction cs arbitrary: k)
  case (Cons c cs)
  let ?k = "if n = 0 then k\<lparr>ks_bits_read := ks_bits_read k + 1\<rparr> else k"
  let ?take = "if n = 0 then bits (ks_bits_read k) else n = 1 \<and> c \<notin> ks_selected_coins k"
  let ?sel = "insert c (ks_selected_coins k)" and ?total = "ks_selected_coins_sum k + amount c"
  have k: "knapsack_ok target m coins ?k" "n = 0 \<Longrightarrow> ks_selected_coins ?k \<inter> set cs = {}"
    using Cons.prems by (auto simp: knapsack_ok_def)
  have IH: "knapsack_ok target m coins k' \<Longrightarrow> (n = 0 \<Longrightarrow> ks_selected_coins k' \<inter> set cs = {}) \<Longrightarrow>
      case knapsack_pass bits n target m cs k' of Inl s \<Rightarrow> chosen target m coins s | Inr k' \<Rightarrow> knapsack_ok target m coins k'" for k'
    using Cons.IH Cons.prems(1,2) by auto
  show ?case
  proof (cases "?take \<and> \<not> int (card (ks_selected_coins k)) > m")
    case False
    then show ?thesis using IH [OF k] k(1) by (auto simp: Let_def)
  next
    case True
    then have new: "c \<notin> ks_selected_coins k" using Cons.prems(4) by (auto split: if_splits)
    have fin: "finite (ks_selected_coins k)" using Cons.prems(3) assms(1) by (auto simp: knapsack_ok_def intro: finite_subset)
    have sel: "?sel \<subseteq> coins" "amounts ?sel = ?total" "int (card ?sel) \<le> m + 1"
      using Cons.prems True new fin by (auto simp: knapsack_ok_def amounts_def)
    have disj: "n = 0 \<Longrightarrow> ?sel \<inter> set cs = {}" using Cons.prems by auto
    let ?better = "?k\<lparr>ks_target_reached := True, ks_best_set_of_coins := Some ?sel, ks_best_set_sum := ?total,
      ks_selected_coins_sum := ?total - amount c, ks_selected_coins := ?sel - {c}\<rparr>"
    let ?over = "?k\<lparr>ks_target_reached := True, ks_selected_coins_sum := ?total, ks_selected_coins := ?sel\<rparr>"
    let ?under = "?k\<lparr>ks_selected_coins_sum := ?total, ks_selected_coins := ?sel\<rparr>"
    have pass: "knapsack_pass bits n target m (c # cs) k =
        (if ?total = target then Inl ?sel
         else knapsack_pass bits n target m cs
           (if ?total > target then if ?total < ks_best_set_sum k then ?better else ?over else ?under))"
      using True by (auto simp: Let_def)
    have "target < ?total \<Longrightarrow> knapsack_ok target m coins ?better" "knapsack_ok target m coins ?over" "knapsack_ok target m coins ?under"
      using Cons.prems(3) sel new by (auto simp: knapsack_ok_def)
    moreover have "n = 0 \<Longrightarrow> ks_selected_coins ?better \<inter> set cs = {}" "n = 0 \<Longrightarrow> ks_selected_coins ?over \<inter> set cs = {}"
      "n = 0 \<Longrightarrow> ks_selected_coins ?under \<inter> set cs = {}" using disj by auto
    moreover have "?total = target \<Longrightarrow> chosen target m coins ?sel" using sel by (simp add: chosen_def)
    ultimately show ?thesis unfolding pass using IH [of ?better] IH [of ?over] IH [of ?under] by (simp split: if_splits)
  qed
qed simp

lemma knapsack_trial_ok:
  assumes "distinct coins" "knapsack_ok target m (set coins) k" "0 \<le> m"
  shows "case knapsack_trial bits target m coins k of
           Inl s \<Rightarrow> chosen target m (set coins) s
         | Inr k' \<Rightarrow> knapsack_ok target m (set coins) k'"
proof -
  let ?k = "k\<lparr>ks_selected_coins := {}, ks_selected_coins_sum := 0, ks_target_reached := False\<rparr>"
  have "knapsack_ok target m (set coins) ?k" using assms(2,3) by (simp add: knapsack_ok_def amounts_def)
  then have first: "case knapsack_pass bits 0 target m coins ?k of
      Inl s \<Rightarrow> chosen target m (set coins) s | Inr k' \<Rightarrow> knapsack_ok target m (set coins) k'"
    using assms(1) by (intro knapsack_pass_ok) auto
  have second: "case knapsack_pass bits 1 target m coins k' of
      Inl s \<Rightarrow> chosen target m (set coins) s | Inr k' \<Rightarrow> knapsack_ok target m (set coins) k'"
    if "knapsack_ok target m (set coins) k'" for k'
    using that assms(1) by (intro knapsack_pass_ok) auto
  show ?thesis
  proof (cases "knapsack_pass bits 0 target m coins ?k")
    case (Inr k1)
    then show ?thesis using first second [of k1] by (simp add: knapsack_trial_def)
  qed (use first in \<open>simp add: knapsack_trial_def\<close>)
qed

lemma knapsack_trials_ok:
  assumes "distinct coins" "0 \<le> m" "knapsack_ok target m (set coins) k" "knapsack_trials n bits target m coins k = Some s"
  shows "chosen target m (set coins) s"
  using assms(3,4)
proof (induction n arbitrary: k)
  case (Suc n)
  then show ?case using knapsack_trial_ok [OF assms(1) Suc.prems(1) assms(2), of bits] by (auto split: sum.split_asm)
qed (auto simp: knapsack_ok_def chosen_def)

lemma knapsack_chosen:
  assumes "distinct coins" "0 \<le> m" "knapsack_coin_algorithm bits coins target mx m = Some s"
  shows "chosen target m (set coins) s"
  using assms by (auto simp: knapsack_coin_algorithm_def knapsack_ok_def amounts_def intro!: knapsack_trials_ok)

lemma add_largest_Some:
  assumes "add_largest target t sel cs = Some s" "t = amounts sel" "distinct cs" "set cs \<inter> sel = {}" "finite sel"
  shows "s \<subseteq> sel \<union> set cs \<and> amounts s \<ge> target"
  using assms
proof (induction cs arbitrary: t sel)
  case (Cons c cs)
  have "amounts (insert c sel) = t + amount c" using Cons.prems by (simp add: amounts_def)
  then show ?case using Cons.prems Cons.IH [of "t + amount c" "insert c sel"] by (auto split: if_splits)
qed simp

lemma smallest_over_target:
  assumes "sorted_wrt (\<lambda>a b. amount b \<le> amount a) coins" "\<exists>c \<in> set coins. target \<le> amount c"
  shows "\<exists>c \<in> set coins. select_smallest_coin_over_target target coins = Inr (Some c) \<and> target \<le> amount c \<and>
           (\<forall>d \<in> set coins. target \<le> amount d \<longrightarrow> amount c \<le> amount d)"
proof -
  obtain c0 cs where coins: "coins = c0 # cs" using assms(2) by (cases coins) auto
  have top: "\<not> amount c0 < target" using assms by (force simp: coins)
  obtain c where c: "List.find (\<lambda>c. target \<le> amount c) (rev coins) = Some c"
    using assms(2) by (cases "List.find (\<lambda>c. target \<le> amount c) (rev coins)") (auto simp: find_None_iff)
  then obtain i where i: "i < length coins" "c = rev coins ! i" "target \<le> amount c" "\<forall>j < i. \<not> target \<le> amount (rev coins ! j)"
    by (auto simp: find_Some_iff)
  have "amount c \<le> amount d" if "d \<in> set coins" "target \<le> amount d" for d
  proof -
    have "d \<in> set (rev coins)" using that(1) by simp
    then obtain j where j: "j < length coins" "d = rev coins ! j" by (auto simp: in_set_conv_nth simp del: set_rev)
    have "sorted_wrt (\<lambda>a b. amount a \<le> amount b) (rev coins)" using assms(1) by (simp add: sorted_wrt_rev)
    moreover have "\<not> j < i" using i(4) that(2) j(2) by auto
    ultimately show ?thesis using i(2) j by (cases "i = j") (auto simp: sorted_wrt_iff_nth_less)
  qed
  moreover have "c \<in> set coins" using i(1,2) nth_mem [of i "rev coins"] by simp
  moreover have "select_smallest_coin_over_target target coins = Inr (Some c)"
    using c top by (simp add: select_smallest_coin_over_target_def coins py_index_def)
  ultimately show ?thesis using i(3) by blast
qed

lemma smallest_over_target_none:
  assumes "coins \<noteq> []" "\<forall>c \<in> set coins. amount c < target"
  shows "select_smallest_coin_over_target target coins = Inr None"
  using assms by (cases coins) (auto simp: select_smallest_coin_over_target_def py_index_def)

lemma add_largest_total: "t < target \<Longrightarrow> target \<le> t + sum_of cs \<Longrightarrow> \<exists>s. add_largest target t sel cs = Some s"
proof (induction cs arbitrary: t sel)
  case (Cons c cs)
  then show ?case using Cons.IH [of "t + amount c" "insert c sel"] by (auto simp: sum_of_def)
qed (simp add: sum_of_def)

lemma card_subset_set: "s \<subseteq> set cs \<Longrightarrow> card s \<le> length cs"
  by (meson List.finite_set card_length card_mono order_trans)

lemma sum_of_split: "sum_of coins = sum_of (filter P coins) + sum_of (filter (\<lambda>c. \<not> P c) coins)"
  by (induction coins) (auto simp: sum_of_def)

lemma exact_match_found: "check_for_exact_match coins amt = Some c \<Longrightarrow> c \<in> set coins \<and> amount c = amt"
  by (auto simp: check_for_exact_match_def find_Some_iff)

text \<open>The selection among sorted coins.\<close>

lemma select_among_chosen:
  assumes "distinct coins" "sorted_wrt (\<lambda>a b. amount b \<le> amount a) coins" "select_among bits mx amt coins = Inr s"
  shows "chosen amt max_num_coins (set coins) s"
proof -
  let ?small = "filter (\<lambda>c. amount c < amt) coins"
  have big: "chosen amt max_num_coins (set coins) s"
    if "rbind (select_smallest_coin_over_target amt coins) (\<lambda>c. case c of None \<Rightarrow> Inl e | Some c \<Rightarrow> Inr {c}) = Inr s" for e
  proof (cases "\<exists>c \<in> set coins. amt \<le> amount c")
    case True
    then show ?thesis using smallest_over_target [OF assms(2) True] that
      by (auto simp: chosen_def amounts_def max_num_coins_def)
  next
    case False
    then show ?thesis using that smallest_over_target_none [of coins amt]
      by (cases "coins = []") (auto simp: select_smallest_coin_over_target_def py_index_def not_le)
  qed
  have small: "distinct ?small" "set ?small \<subseteq> set coins" using assms(1) by auto
  have sub: "chosen amt max_num_coins (set coins) u" if "chosen amt max_num_coins (set ?small) u" for u
    using that small(2) unfolding chosen_def by blast
  have knap: "chosen amt max_num_coins (set coins) u" if "knapsack_coin_algorithm bits ?small amt mx max_num_coins = Some u" for u
    using knapsack_chosen [OF small(1) _ that] sub by (simp add: max_num_coins_def)
  have largest: "chosen amt max_num_coins (set coins) u"
    if "sum_largest_coins amt ?small = Some u" "\<not> int (card u) > max_num_coins" for u
    using add_largest_Some [of amt 0 "{}" ?small u] that small(1)
    by (intro sub) (auto simp: sum_largest_coins_def chosen_def amounts_def)
  have all: "chosen amt max_num_coins (set coins) (set ?small)" if "sum_of ?small = amt" "int (length ?small) < max_num_coins"
    using that sum_of_set [OF small(1)] card_subset_set [of "set ?small" ?small] by (intro sub) (auto simp: chosen_def)
  from assms(3) show ?thesis
    unfolding select_among_def Let_def
    by (auto split: if_splits option.split_asm intro: big knap largest dest: all)
qed

lemma select_among_returns:
  assumes "sorted_wrt (\<lambda>a b. amount b \<le> amount a) coins" "\<forall>c \<in> set coins. 0 \<le> amount c" "0 \<le> amt" "amt \<le> sum_of coins"
    "distinct coins"
  shows "select_among bits mx amt coins = Inl e \<Longrightarrow> e = ValueError"
    and "(\<exists>c \<in> set coins. amt \<le> amount c) \<or> int (length coins) < max_num_coins \<Longrightarrow> \<exists>s. select_among bits mx amt coins = Inr s"
proof -
  let ?small = "filter (\<lambda>c. amount c < amt) coins"
  have ne: "coins \<noteq> []" if "amt \<noteq> 0" using assms(3,4) that by (auto simp: sum_of_def)
  have big: "\<exists>c. select_smallest_coin_over_target amt coins = Inr (Some c)" if "\<exists>c \<in> set coins. amt \<le> amount c"
    using smallest_over_target [OF assms(1) that] by blast
  have none: "select_smallest_coin_over_target amt coins = Inr None" if "\<not> (\<exists>c \<in> set coins. amt \<le> amount c)" "amt \<noteq> 0"
    using smallest_over_target_none [OF ne [OF that(2)]] that(1) by (auto simp: not_le)
  have "?small = []" if "amt = 0" using that assms(2) by (auto simp: filter_empty_conv not_less)
  then have zero: "?small = [] \<and> sum_of ?small = 0" if "amt = 0" using that by (simp add: sum_of_def)
  have less: "\<exists>c \<in> set coins. amt \<le> amount c" if "sum_of ?small < amt"
  proof (rule ccontr)
    assume "\<not> (\<exists>c \<in> set coins. amt \<le> amount c)"
    then have "?small = coins" by (auto simp: filter_id_conv not_le)
    then show False using that assms(4) by simp
  qed
  have largest: "\<exists>s. sum_largest_coins amt ?small = Some s" if "amt < sum_of ?small"
    using that zero assms(3) add_largest_total [of 0 amt ?small "{}"] by (cases "amt = 0") (auto simp: sum_largest_coins_def)
  have count: "int (card s) \<le> int (length coins)" if "sum_largest_coins amt ?small = Some s" for s
  proof -
    have "s \<subseteq> set ?small"
      using add_largest_Some [of amt 0 "{}" ?small s] that assms(5) by (simp add: sum_largest_coins_def amounts_def)
    then show ?thesis using card_subset_set [of s ?small] length_filter_le [of "\<lambda>c. amount c < amt" coins] by linarith
  qed
  show "select_among bits mx amt coins = Inl e \<Longrightarrow> e = ValueError"
    using big none less largest zero
    by (cases "\<exists>c \<in> set coins. amt \<le> amount c"; cases "amt = 0")
      (auto simp: select_among_def Let_def max_num_coins_def split: if_splits option.split_asm)
  have len: "length ?small \<le> length coins" by simp
  show "\<exists>s. select_among bits mx amt coins = Inr s"
    if "(\<exists>c \<in> set coins. amt \<le> amount c) \<or> int (length coins) < max_num_coins"
  proof (cases "\<exists>c \<in> set coins. amt \<le> amount c")
    case True
    then obtain c where c: "select_smallest_coin_over_target amt coins = Inr (Some c)" using big by blast
    show ?thesis by (auto simp: select_among_def Let_def c split: option.splits)
  next
    case False
    then have l: "int (length coins) < max_num_coins" using that by blast
    then have "int (length ?small) < max_num_coins" using len by linarith
    moreover have "\<not> sum_of ?small < amt" using less False by blast
    moreover have "\<not> int (card s) > max_num_coins" if "sum_largest_coins amt ?small = Some s" for s using count [OF that] l by linarith
    ultimately show ?thesis using largest by (auto simp: select_among_def Let_def split: option.splits)
  qed
qed

section \<open>Properties\<close>

text \<open>C36. The coins that a wallet selects for an amount are among its spendable coins, none of them excluded, waiting in a
  pending transaction or smaller than the minimum, they add up to at least the amount, and there are at most 501 of them,
  one more than the limit of 500 that the code names.\<close>

theorem select_coins_sound:
  assumes "distinct (map wc_coin spendable)"
    and "select_coins name bits spendable_amount mx spendable removals amt exclude min_amount = Inr s"
  shows "s \<subseteq> set (map wc_coin spendable) \<and> amounts s \<ge> amt \<and> int (card s) \<le> max_num_coins + 1 \<and>
    (\<forall>c \<in> s. \<not> dict_mem removals (name c) \<and> c \<notin> set (case exclude of None \<Rightarrow> [] | Some e \<Rightarrow> e) \<and>
       amount c \<ge> (case min_amount of None \<Rightarrow> 0 | Some m \<Rightarrow> m))"
proof -
  let ?ok = "coin_usable name removals (case exclude of None \<Rightarrow> [] | Some e \<Rightarrow> e) (case min_amount of None \<Rightarrow> 0 | Some m \<Rightarrow> m)"
  let ?coins = "sort_key (\<lambda>c. - amount c) (filter ?ok (map wc_coin spendable))"
  have coins: "distinct ?coins" "sorted_wrt (\<lambda>a b. amount b \<le> amount a) ?coins"
    using assms(1) sorted_sort_key [of "\<lambda>c. - amount c" "filter ?ok (map wc_coin spendable)"] by (auto simp: sorted_wrt_map)
  have "chosen amt max_num_coins (set ?coins) s"
  proof (cases "check_for_exact_match ?coins amt")
    case None
    then show ?thesis using assms(2) select_among_chosen [OF coins] by (auto simp: select_coins_def Let_def rbind_eq_Inr split: if_splits)
  next
    case (Some c)
    then have "s = {c}" using assms(2) by (auto simp: select_coins_def Let_def rbind_eq_Inr split: if_splits)
    moreover have "c \<in> set ?coins" "amount c = amt" using exact_match_found [OF Some] by auto
    ultimately show ?thesis by (auto simp: chosen_def amounts_def max_num_coins_def)
  qed
  then show ?thesis by (auto simp: chosen_def coin_usable_def not_less)
qed

text \<open>C37. \<open>select_coins\<close> raises nothing but \<open>ValueError\<close>, and it always finds coins for an amount within the spendable balance
  if the usable coins add up to it and one of them covers it alone or there are fewer than 500.\<close>

theorem select_coins_returns:
  assumes "distinct (map wc_coin spendable)" and "\<forall>c \<in> set (map wc_coin spendable). 0 \<le> amount c" and "0 \<le> amt"
    and "usable = filter (coin_usable name removals (case exclude of None \<Rightarrow> [] | Some e \<Rightarrow> e)
                           (case min_amount of None \<Rightarrow> 0 | Some m \<Rightarrow> m)) (map wc_coin spendable)"
  shows "(\<forall>e. select_coins name bits spendable_amount mx spendable removals amt exclude min_amount = Inl e \<longrightarrow> e = ValueError) \<and>
    (amt \<le> spendable_amount \<and> amt < 2 ^ 64 \<and> amt \<le> sum_of usable \<and>
       ((\<exists>c \<in> set usable. amt \<le> amount c) \<or> int (length usable) < max_num_coins) \<longrightarrow>
     (\<exists>s. select_coins name bits spendable_amount mx spendable removals amt exclude min_amount = Inr s))"
proof -
  let ?coins = "sort_key (\<lambda>c. - amount c) usable"
  have coins: "sorted_wrt (\<lambda>a b. amount b \<le> amount a) ?coins" "\<forall>c \<in> set ?coins. 0 \<le> amount c" "distinct ?coins"
    "sum_of ?coins = sum_of usable" "length ?coins = length usable" "distinct usable"
    using assms(1,2) sorted_sort_key [of "\<lambda>c. - amount c" usable] sum_of_set [of ?coins] sum_of_set [of usable]
    by (auto simp: assms(4) sorted_wrt_map)
  have select: "select_coins name bits spendable_amount mx spendable removals amt exclude min_amount =
      (if amt > spendable_amount then Inl ValueError
       else if sum_of usable < amt then Inl ValueError
       else rbind (uint64 amt) (\<lambda>target.
         case check_for_exact_match ?coins target of Some c \<Rightarrow> Inr {c} | None \<Rightarrow> select_among bits mx amt ?coins))"
    unfolding select_coins_def Let_def assms(4) [symmetric] by simp
  note among = select_among_returns [OF coins(1,2) assms(3) _ coins(3), where bits = bits and mx = mx]
  show ?thesis
    using among coins(4,5) assms(3) by (auto simp: select uint_simps split: option.splits)
qed

text \<open>Three coins for the witnesses.\<close>

definition sample_wallet :: "wallet_coin_record list" where
  "sample_wallet = map (\<lambda>a. \<lparr>wc_coin = \<lparr>parent_coin_info = [1], puzzle_hash = [2], amount = a\<rparr>, wc_confirmed_block_height = 1,
     wc_spent_block_height = 0, wc_spent = False, wc_coinbase = False, wc_wallet_type = 0, wc_wallet_id = 1\<rparr>) [3, 5, 4]"

theorem select_coins_sound_witness:
  "\<exists>s. select_coins puzzle_hash (\<lambda>_. True) 12 100 sample_wallet [] 8 None None = Inr s \<and> amounts s \<ge> 8"
proof -
  let ?r = "select_coins puzzle_hash (\<lambda>_. True) 12 100 sample_wallet [] 8 None None"
  have "case ?r of Inr _ \<Rightarrow> True | Inl _ \<Rightarrow> False" by code_simp
  then obtain s where s: "?r = Inr s" by (cases ?r) auto
  have "distinct (map wc_coin sample_wallet)" by code_simp
  from select_coins_sound [OF this s] s show ?thesis by blast
qed

theorem select_coins_returns_witness: "\<exists>s. select_coins puzzle_hash (\<lambda>_. False) 12 100 sample_wallet [] 8 None None = Inr s"
proof -
  have w: "distinct (map wc_coin sample_wallet)" "\<forall>c \<in> set (map wc_coin sample_wallet). 0 \<le> amount c" by code_simp+
  show ?thesis using select_coins_returns [OF w _ refl, where name = puzzle_hash and removals = "[]" and exclude = None and
        min_amount = None and amt = 8 and spendable_amount = 12 and mx = 100 and bits = "\<lambda>_. False"]
    by (simp add: sample_wallet_def coin_usable_def sum_of_def max_num_coins_def)
qed

section \<open>One coin too many\<close>

text \<open>With random bits that always take a coin, the knapsack takes coins of amount 1 until the target is reached, as long as
  it has at most \<open>max_num_coins\<close> coins before it takes the next one.\<close>

lemma knapsack_pass_ones:
  assumes "distinct cs" "\<forall>c \<in> set cs. amount c = 1" "set cs \<inter> ks_selected_coins k = {}" "finite (ks_selected_coins k)"
    "ks_selected_coins_sum k = int (card (ks_selected_coins k))" "ks_selected_coins_sum k < target" "target \<le> m + 1"
    "target \<le> ks_selected_coins_sum k + int (length cs)"
  shows "\<exists>s. knapsack_pass (\<lambda>_. True) 0 target m cs k = Inl s \<and> int (card s) = target"
  using assms
proof (induction cs arbitrary: k)
  case (Cons c cs)
  let ?k = "k\<lparr>ks_bits_read := ks_bits_read k + 1, ks_selected_coins_sum := ks_selected_coins_sum k + 1,
              ks_selected_coins := insert c (ks_selected_coins k)\<rparr>"
  have card: "int (card (insert c (ks_selected_coins k))) = ks_selected_coins_sum k + 1" using Cons.prems by simp
  show ?case
  proof (cases "ks_selected_coins_sum k + 1 = target")
    case True
    then show ?thesis using Cons.prems card by (simp add: Let_def)
  next
    case False
    then have "\<exists>s. knapsack_pass (\<lambda>_. True) 0 target m cs ?k = Inl s \<and> int (card s) = target"
      using Cons.prems card by (intro Cons.IH) auto
    then show ?thesis using Cons.prems False by (simp add: Let_def)
  qed
qed simp

definition ones :: "coin list" where
  "ones = map (\<lambda>n. \<lparr>parent_coin_info = replicate n 0, puzzle_hash = [], amount = 1\<rparr>) [0..<502]"

definition ones_wallet :: "wallet_coin_record list" where
  "ones_wallet = map (\<lambda>c. \<lparr>wc_coin = c, wc_confirmed_block_height = 1, wc_spent_block_height = 0, wc_spent = False,
     wc_coinbase = False, wc_wallet_type = 0, wc_wallet_id = 1\<rparr>) ones"

lemma ones_facts: "length ones = 502" "distinct ones" "\<forall>c \<in> set ones. amount c = 1" "map wc_coin ones_wallet = ones"
  by (auto simp: ones_def ones_wallet_def distinct_map comp_def inj_on_def)

text \<open>A wallet of 502 coins of amount 1 that is asked for 501 can select 501 coins, although the limit is 500.\<close>

lemma coin_limit_exceeded:
  "\<exists>s. select_coins puzzle_hash (\<lambda>_. True) 502 1000 ones_wallet [] 501 None None = Inr s \<and> int (card s) = max_num_coins + 1"
proof -
  have u: "filter (coin_usable puzzle_hash [] [] 0) ones = ones" using ones_facts(3) by (auto simp: coin_usable_def filter_id_conv)
  have sum: "sum_of ones = 502" using ones_facts(1,3) by (simp add: sum_of_def cong: map_cong) (simp add: map_replicate_const sum_list_replicate)
  have sorted: "sort_key (\<lambda>c. - amount c) ones = ones"
    using ones_facts(3) by (intro sort_key_id_if_sorted) (auto simp: sorted_wrt_map sorted_wrt_iff_nth_less)
  have small: "filter (\<lambda>c. amount c < 501) ones = ones" using ones_facts(3) by (auto simp: filter_id_conv)
  have none: "check_for_exact_match ones 501 = None" using ones_facts(3) by (auto simp: check_for_exact_match_def find_None_iff)
  let ?k = "\<lparr>ks_selected_coins = {}, ks_selected_coins_sum = 0, ks_target_reached = False, ks_best_set_of_coins = None,
    ks_best_set_sum = 1000, ks_bits_read = 0\<rparr> :: knapsack"
  obtain s where s: "knapsack_pass (\<lambda>_. True) 0 501 500 ones ?k = Inl s" "int (card s) = 501"
    using knapsack_pass_ones [of ones ?k 501 500] ones_facts by auto
  have "knapsack_trials (Suc n) (\<lambda>_. True) 501 500 ones ?k = Some s" for n using s(1) by (simp add: knapsack_trial_def)
  from this [of 999] have "knapsack_coin_algorithm (\<lambda>_. True) ones 501 1000 500 = Some s"
    by (simp only: knapsack_coin_algorithm_def) simp
  then have "select_coins puzzle_hash (\<lambda>_. True) 502 1000 ones_wallet [] 501 None None = Inr s"
    using u sum sorted small none by (simp add: select_coins_def ones_facts(4) select_among_def max_num_coins_def uint_simps Let_def)
  then show ?thesis using s(2) by (simp add: max_num_coins_def)
qed

end
