(* ===== verification/AddressManager.thy ===== *)
theory AddressManager
  imports Sha256 Complex_Main
begin

text \<open>
  \<open>server/address_manager.py\<close> and \<open>types/peer_info.py\<close>: the addresses of peers that a node knows, in a table of new and
  a table of tried addresses.  A table of fixed size is a function of bucket and position, \<open>-1\<close> where it is empty; every
  index is a remainder, so none is out of range.  An \<open>ExtendedPeerInfo\<close> is the entry of \<open>map_info\<close> under its id, and an
  update of the object is an update of that entry.  A
  method whose name ends in an underscore has no underscore here, or \<open>_inner\<close> if the name is taken by the method that takes
  the lock.  The parser of IP addresses of the module \<open>ipaddress\<close> is a parameter,
  like the hash, the clock (\<open>now\<close> is \<open>time.time()\<close>) and the results of \<open>randrange\<close> and \<open>choice\<close>.
\<close>

section \<open>Addresses of peers\<close>

definition TRIED_BUCKETS_PER_GROUP :: int where "TRIED_BUCKETS_PER_GROUP = 8"
definition NEW_BUCKETS_PER_SOURCE_GROUP :: int where "NEW_BUCKETS_PER_SOURCE_GROUP = 64"
definition TRIED_BUCKET_COUNT :: int where "TRIED_BUCKET_COUNT = 256"
definition NEW_BUCKET_COUNT :: int where "NEW_BUCKET_COUNT = 1024"
definition BUCKET_SIZE :: int where "BUCKET_SIZE = 64"
definition TRIED_COLLISION_SIZE :: int where "TRIED_COLLISION_SIZE = 10"
definition NEW_BUCKETS_PER_ADDRESS :: int where "NEW_BUCKETS_PER_ADDRESS = 8"
definition HORIZON_DAYS :: int where "HORIZON_DAYS = 30"
definition MAX_RETRIES :: int where "MAX_RETRIES = 3"
definition MIN_FAIL_DAYS :: int where "MIN_FAIL_DAYS = 7"
definition MAX_FAILURES :: int where "MAX_FAILURES = 10"

text \<open>The hash, and \<open>IPv4Address(host)\<close> and \<open>IPv6Address(host)\<close>: the packed address and whether it is private, or
  nothing where they raise.\<close>

record peer_lib =
  pl_std_hash :: hasher
  pl_ipv4 :: "string \<Rightarrow> (bytes \<times> bool) option"
  pl_ipv6 :: "string \<Rightarrow> (bytes \<times> bool) option"

record peer_info =
  pi_host :: string
  pi_port :: int

record timestamped_peer_info =
  tp_host :: string
  tp_port :: int
  tp_timestamp :: int

definition peer_is_valid :: "peer_lib \<Rightarrow> bool \<Rightarrow> peer_info \<Rightarrow> bool" where
  "peer_is_valid L allow_private_subnets p =
     (case pl_ipv6 L (pi_host p) of
        Some (_, is_private) \<Rightarrow> \<not> (is_private \<and> \<not> allow_private_subnets)
      | None \<Rightarrow>
          (case pl_ipv4 L (pi_host p) of
             Some (_, is_private) \<Rightarrow> \<not> (is_private \<and> \<not> allow_private_subnets)
           | None \<Rightarrow> False))"

text \<open>\<open>bytes([x, ...])\<close>.\<close>

definition bytes_of_ints :: "int list \<Rightarrow> bytes res" where
  "bytes_of_ints xs = (if list_all (\<lambda>x. 0 \<le> x \<and> x < 256) xs then Inr (map word_of_int xs) else Inl ValueError)"

definition get_key :: "peer_lib \<Rightarrow> peer_info \<Rightarrow> bytes res" where
  "get_key L p =
     rbind (case pl_ipv6 L (pi_host p) of
              Some (packed, _) \<Rightarrow> Inr packed
            | None \<Rightarrow>
                (case pl_ipv4 L (pi_host p) of
                   Some (packed, _) \<Rightarrow> Inr ([32, 2] @ packed @ replicate 10 0)
                 | None \<Rightarrow> Inl ValueError)) (\<lambda>k.
     rbind (bytes_of_ints [pi_port p div 256, pi_port p mod 256]) (\<lambda>port. Inr (k @ port)))"

definition get_group :: "peer_lib \<Rightarrow> peer_info \<Rightarrow> bytes res" where
  "get_group L p =
     (case pl_ipv4 L (pi_host p) of
        Some (packed, _) \<Rightarrow> Inr ([1] @ take 2 packed)
      | None \<Rightarrow>
          (case pl_ipv6 L (pi_host p) of
             Some (packed, _) \<Rightarrow> Inr ([0] @ take 4 packed)
           | None \<Rightarrow> Inl ValueError))"

record extended_peer_info =
  ep_peer_info :: peer_info
  ep_timestamp :: int
  ep_src :: "peer_info option"
  ep_random_pos :: "int option"
  ep_is_tried :: bool
  ep_ref_count :: int
  ep_last_success :: int
  ep_last_try :: int
  ep_num_attempts :: int
  ep_last_count_attempt :: int

definition new_extended :: "timestamped_peer_info \<Rightarrow> peer_info option \<Rightarrow> extended_peer_info" where
  "new_extended addr src_peer =
     (let p = \<lparr>pi_host = tp_host addr, pi_port = tp_port addr\<rparr>
      in \<lparr>ep_peer_info = p, ep_timestamp = tp_timestamp addr, ep_src = Some (case src_peer of None \<Rightarrow> p | Some q \<Rightarrow> q),
          ep_random_pos = None, ep_is_tried = False, ep_ref_count = 0, ep_last_success = 0, ep_last_try = 0,
          ep_num_attempts = 0, ep_last_count_attempt = 0\<rparr>)"

text \<open>The first eight bytes of the hash, as a number.\<close>

definition hash8 :: "peer_lib \<Rightarrow> bytes \<Rightarrow> int" where
  "hash8 L bs = from_bytes False (take 8 (pl_std_hash L bs))"

definition get_tried_bucket :: "peer_lib \<Rightarrow> int \<Rightarrow> extended_peer_info \<Rightarrow> int res" where
  "get_tried_bucket L key i =
     rbind (to_bytes 32 False key) (\<lambda>kb.
     rbind (get_key L (ep_peer_info i)) (\<lambda>pk.
     let hash1 = hash8 L (kb @ pk) mod TRIED_BUCKETS_PER_GROUP in
     rbind (get_group L (ep_peer_info i)) (\<lambda>g.
     rbind (bytes_of_ints [hash1]) (\<lambda>hb.
     Inr (hash8 L (kb @ g @ hb) mod TRIED_BUCKET_COUNT)))))"

definition get_new_bucket :: "peer_lib \<Rightarrow> int \<Rightarrow> extended_peer_info \<Rightarrow> peer_info option \<Rightarrow> int res" where
  "get_new_bucket L key i src_peer =
     (case (case src_peer of None \<Rightarrow> ep_src i | Some q \<Rightarrow> Some q) of
        None \<Rightarrow> Inl AssertionError
      | Some src \<Rightarrow>
          rbind (to_bytes 32 False key) (\<lambda>kb.
          rbind (get_group L (ep_peer_info i)) (\<lambda>g.
          rbind (get_group L src) (\<lambda>sg.
          let hash1 = hash8 L (kb @ g @ sg) mod NEW_BUCKETS_PER_SOURCE_GROUP in
          rbind (bytes_of_ints [hash1]) (\<lambda>hb.
          Inr (hash8 L (kb @ sg @ hb) mod NEW_BUCKET_COUNT))))))"

definition get_bucket_position :: "peer_lib \<Rightarrow> int \<Rightarrow> extended_peer_info \<Rightarrow> bool \<Rightarrow> int \<Rightarrow> int res" where
  "get_bucket_position L key i is_new nBucket =
     rbind (to_bytes 32 False key) (\<lambda>kb.
     rbind (to_bytes 3 False nBucket) (\<lambda>nb.
     rbind (get_key L (ep_peer_info i)) (\<lambda>pk.
     Inr (hash8 L (kb @ (if is_new then [78] else [75]) @ nb @ pk) mod BUCKET_SIZE))))"

definition is_terrible :: "extended_peer_info \<Rightarrow> int \<Rightarrow> bool" where
  "is_terrible i now =
     (if ep_last_try i > 0 \<and> ep_last_try i \<ge> now - 60 then False
      else if ep_timestamp i > now + 10 * 60 then True
      else if ep_timestamp i = 0 \<or> now - ep_timestamp i > HORIZON_DAYS * 24 * 60 * 60 then True
      else if ep_last_success i = 0 \<and> ep_num_attempts i \<ge> MAX_RETRIES then True
      else if now - ep_last_success i > MIN_FAIL_DAYS * 24 * 60 * 60 \<and> ep_num_attempts i \<ge> MAX_FAILURES then True
      else False)"

section \<open>The manager\<close>

record address_manager =
  am_id_count :: int
  am_key :: int
  am_random_pos :: "int list"
  am_tried_matrix :: "int \<times> int \<Rightarrow> int"
  am_new_matrix :: "int \<times> int \<Rightarrow> int"
  am_tried_count :: int
  am_new_count :: int
  am_map_addr :: "(string, int) dict"
  am_map_info :: "(int, extended_peer_info) dict"
  am_last_good :: int
  am_tried_collisions :: "int list"
  am_used_new_matrix_positions :: "(int \<times> int) set"
  am_used_tried_matrix_positions :: "(int \<times> int) set"
  am_allow_private_subnets :: bool

definition cleared_manager :: "int \<Rightarrow> address_manager" where
  "cleared_manager key =
     \<lparr>am_id_count = 0, am_key = key, am_random_pos = [], am_tried_matrix = \<lambda>_. -1, am_new_matrix = \<lambda>_. -1, am_tried_count = 0,
      am_new_count = 0, am_map_addr = [], am_map_info = [], am_last_good = 1, am_tried_collisions = [],
      am_used_new_matrix_positions = {}, am_used_tried_matrix_positions = {}, am_allow_private_subnets = False\<rparr>"

definition make_private_subnets_valid :: "address_manager \<Rightarrow> address_manager" where
  "make_private_subnets_valid s = s\<lparr>am_allow_private_subnets := True\<rparr>"

definition set_new_matrix :: "address_manager \<Rightarrow> int \<Rightarrow> int \<Rightarrow> int \<Rightarrow> address_manager" where
  "set_new_matrix s row col v =
     s\<lparr>am_new_matrix := (am_new_matrix s)((row, col) := v),
       am_used_new_matrix_positions :=
         (if v = -1 then am_used_new_matrix_positions s - {(row, col)} else insert (row, col) (am_used_new_matrix_positions s))\<rparr>"

definition set_tried_matrix :: "address_manager \<Rightarrow> int \<Rightarrow> int \<Rightarrow> int \<Rightarrow> address_manager" where
  "set_tried_matrix s row col v =
     s\<lparr>am_tried_matrix := (am_tried_matrix s)((row, col) := v),
       am_used_tried_matrix_positions :=
         (if v = -1 then am_used_tried_matrix_positions s - {(row, col)} else insert (row, col) (am_used_tried_matrix_positions s))\<rparr>"

definition positions :: "int \<Rightarrow> (int \<times> int) list" where
  "positions buckets = List.product [0..buckets - 1] [0..BUCKET_SIZE - 1]"

definition load_used_table_positions :: "address_manager \<Rightarrow> address_manager" where
  "load_used_table_positions s =
     s\<lparr>am_used_new_matrix_positions := set (filter (\<lambda>bp. am_new_matrix s bp \<noteq> -1) (positions NEW_BUCKET_COUNT)),
       am_used_tried_matrix_positions := set (filter (\<lambda>bp. am_tried_matrix s bp \<noteq> -1) (positions TRIED_BUCKET_COUNT))\<rparr>"

text \<open>An update of \<open>self.map_info[node_id]\<close>.\<close>

definition modify_info ::
  "address_manager \<Rightarrow> int \<Rightarrow> (extended_peer_info \<Rightarrow> extended_peer_info) \<Rightarrow> address_manager res" where
  "modify_info s node_id f =
     rbind (dict_getitem (am_map_info s) node_id) (\<lambda>i. Inr (s\<lparr>am_map_info := dict_set (am_map_info s) node_id (f i)\<rparr>))"

definition create_entry :: "address_manager \<Rightarrow> timestamped_peer_info \<Rightarrow> peer_info option \<Rightarrow> address_manager \<times> int" where
  "create_entry s addr addr_src =
     (let node_id = am_id_count s + 1;
          i = (new_extended addr addr_src)\<lparr>ep_random_pos := Some (int (length (am_random_pos s)))\<rparr>
      in (s\<lparr>am_id_count := node_id, am_map_info := dict_set (am_map_info s) node_id i,
            am_map_addr := dict_set (am_map_addr s) (tp_host addr) node_id, am_random_pos := am_random_pos s @ [node_id]\<rparr>, node_id))"

definition find_entry :: "address_manager \<Rightarrow> peer_info \<Rightarrow> extended_peer_info option \<times> int option" where
  "find_entry s addr =
     (case dict_get (am_map_addr s) (pi_host addr) of
        None \<Rightarrow> (None, None)
      | Some node_id \<Rightarrow> (dict_get (am_map_info s) node_id, Some node_id))"

definition swap_random :: "address_manager \<Rightarrow> int \<Rightarrow> int \<Rightarrow> address_manager res" where
  "swap_random s rand_pos_1 rand_pos_2 =
     (if rand_pos_1 = rand_pos_2 then Inr s
      else
        let n = int (length (am_random_pos s)) in
        rbind (rguard AssertionError (rand_pos_1 < n \<and> rand_pos_2 < n)) (\<lambda>_.
        rbind (py_index (am_random_pos s) rand_pos_1) (\<lambda>node_id_1.
        rbind (py_index (am_random_pos s) rand_pos_2) (\<lambda>node_id_2.
        rbind (modify_info s node_id_1 (\<lambda>i. i\<lparr>ep_random_pos := Some rand_pos_2\<rparr>)) (\<lambda>s1.
        rbind (modify_info s1 node_id_2 (\<lambda>i. i\<lparr>ep_random_pos := Some rand_pos_1\<rparr>)) (\<lambda>s2.
        Inr (s2\<lparr>am_random_pos := (am_random_pos s2)[nat rand_pos_1 := node_id_2, nat rand_pos_2 := node_id_1]\<rparr>)))))))"

definition delete_new_entry :: "address_manager \<Rightarrow> int \<Rightarrow> address_manager res" where
  "delete_new_entry s node_id =
     rbind (dict_getitem (am_map_info s) node_id) (\<lambda>info.
     case ep_random_pos info of
       None \<Rightarrow> Inr s
     | Some p \<Rightarrow>
         rbind (swap_random s p (int (length (am_random_pos s)) - 1)) (\<lambda>s1.
         rbind (dict_del (am_map_addr s1) (pi_host (ep_peer_info info))) (\<lambda>ma.
         rbind (dict_del (am_map_info s1) node_id) (\<lambda>mi.
         Inr (s1\<lparr>am_random_pos := butlast (am_random_pos s1), am_map_addr := ma, am_map_info := mi,
                 am_new_count := am_new_count s1 - 1\<rparr>)))))"

definition clear_new :: "address_manager \<Rightarrow> int \<Rightarrow> int \<Rightarrow> address_manager res" where
  "clear_new s bucket pos =
     (let delete_id = am_new_matrix s (bucket, pos) in
      if delete_id = -1 then Inr s
      else
        rbind (dict_getitem (am_map_info s) delete_id) (\<lambda>delete_info.
        rbind (rguard AssertionError (ep_ref_count delete_info > 0)) (\<lambda>_.
        rbind (modify_info s delete_id (\<lambda>i. i\<lparr>ep_ref_count := ep_ref_count i - 1\<rparr>)) (\<lambda>s1.
        let s2 = set_new_matrix s1 bucket pos (-1) in
        if ep_ref_count delete_info - 1 = 0 then delete_new_entry s2 delete_id else Inr s2))))"

text \<open>All places of an address in the new table, bucket by bucket.\<close>

definition leave_bucket :: "peer_lib \<Rightarrow> extended_peer_info \<Rightarrow> int \<Rightarrow> address_manager \<Rightarrow> int \<Rightarrow> address_manager res" where
  "leave_bucket L info node_id s bucket =
     rbind (get_bucket_position L (am_key s) info True bucket) (\<lambda>pos.
     if am_new_matrix s (bucket, pos) = node_id then
       modify_info (set_new_matrix s bucket pos (-1)) node_id (\<lambda>i. i\<lparr>ep_ref_count := ep_ref_count i - 1\<rparr>)
     else Inr s)"

text \<open>The old address of a place in the tried table goes back to the new table.\<close>

definition evict_tried :: "peer_lib \<Rightarrow> address_manager \<Rightarrow> int \<Rightarrow> int \<Rightarrow> address_manager res" where
  "evict_tried L s cur_bucket cur_bucket_pos =
     (let node_id_evict = am_tried_matrix s (cur_bucket, cur_bucket_pos) in
      if node_id_evict = -1 then Inr s
      else
        rbind (rguard AssertionError (dict_mem (am_map_info s) node_id_evict)) (\<lambda>_.
        rbind (modify_info s node_id_evict (\<lambda>i. i\<lparr>ep_is_tried := False\<rparr>)) (\<lambda>s1.
        let s2 = (set_tried_matrix s1 cur_bucket cur_bucket_pos (-1))\<lparr>am_tried_count := am_tried_count s1 - 1\<rparr> in
        rbind (dict_getitem (am_map_info s2) node_id_evict) (\<lambda>old_info.
        rbind (get_new_bucket L (am_key s2) old_info None) (\<lambda>new_bucket.
        rbind (get_bucket_position L (am_key s2) old_info True new_bucket) (\<lambda>new_bucket_pos.
        rbind (clear_new s2 new_bucket new_bucket_pos) (\<lambda>s3.
        rbind (modify_info s3 node_id_evict (\<lambda>i. i\<lparr>ep_ref_count := 1\<rparr>)) (\<lambda>s4.
        Inr ((set_new_matrix s4 new_bucket new_bucket_pos node_id_evict)\<lparr>am_new_count := am_new_count s4 + 1\<rparr>)))))))))"

definition make_tried :: "peer_lib \<Rightarrow> address_manager \<Rightarrow> int \<Rightarrow> address_manager res" where
  "make_tried L s node_id =
     rbind (dict_getitem (am_map_info s) node_id) (\<lambda>info.
     rbind (rfold (leave_bucket L info node_id) s [0..NEW_BUCKET_COUNT - 1]) (\<lambda>s1.
     rbind (dict_getitem (am_map_info s1) node_id) (\<lambda>info1.
     rbind (rguard AssertionError (ep_ref_count info1 = 0)) (\<lambda>_.
     let s2 = s1\<lparr>am_new_count := am_new_count s1 - 1\<rparr> in
     rbind (get_tried_bucket L (am_key s2) info) (\<lambda>cur_bucket.
     rbind (get_bucket_position L (am_key s2) info False cur_bucket) (\<lambda>cur_bucket_pos.
     rbind (evict_tried L s2 cur_bucket cur_bucket_pos) (\<lambda>s3.
     let s4 = (set_tried_matrix s3 cur_bucket cur_bucket_pos node_id)\<lparr>am_tried_count := am_tried_count s3 + 1\<rparr> in
     modify_info s4 node_id (\<lambda>i. i\<lparr>ep_is_tried := True\<rparr>))))))))"

section \<open>Operations\<close>

definition same_peer :: "extended_peer_info \<Rightarrow> peer_info \<Rightarrow> bool" where
  "same_peer info addr = (pi_host (ep_peer_info info) = pi_host addr \<and> pi_port (ep_peer_info info) = pi_port addr)"

fun find_new_bucket :: "peer_lib \<Rightarrow> address_manager \<Rightarrow> extended_peer_info \<Rightarrow> int \<Rightarrow> int list \<Rightarrow> int option res" where
  "find_new_bucket L s info node_id [] = Inr None"
| "find_new_bucket L s info node_id (b # bs) =
     rbind (get_bucket_position L (am_key s) info True b) (\<lambda>pos.
     if am_new_matrix s (b, pos) = node_id then Inr (Some b) else find_new_bucket L s info node_id bs)"

definition mark_good_inner :: "peer_lib \<Rightarrow> int \<Rightarrow> address_manager \<Rightarrow> peer_info \<Rightarrow> bool \<Rightarrow> int \<Rightarrow> address_manager res" where
  "mark_good_inner L bucket_rand s addr test_before_evict timestamp =
     (let s = s\<lparr>am_last_good := timestamp\<rparr> in
      if \<not> peer_is_valid L (am_allow_private_subnets s) addr then Inr s
      else
        (case find_entry s addr of
           (Some info, Some node_id) \<Rightarrow>
             if \<not> same_peer info addr then Inr s
             else
               rbind (modify_info s node_id (\<lambda>i. i\<lparr>ep_last_success := timestamp, ep_last_try := timestamp, ep_num_attempts := 0\<rparr>)) (\<lambda>s1.
               if ep_is_tried info then Inr s1
               else
                 rbind (find_new_bucket L s1 info node_id
                          (map (\<lambda>n. (n + bucket_rand) mod NEW_BUCKET_COUNT) [0..NEW_BUCKET_COUNT - 1])) (\<lambda>new_bucket.
                 if new_bucket = None then Inr s1
                 else
                   rbind (get_tried_bucket L (am_key s1) info) (\<lambda>tried_bucket.
                   rbind (get_bucket_position L (am_key s1) info False tried_bucket) (\<lambda>tried_bucket_pos.
                   if test_before_evict \<and> am_tried_matrix s1 (tried_bucket, tried_bucket_pos) \<noteq> -1 then
                     Inr (if int (length (am_tried_collisions s1)) < TRIED_COLLISION_SIZE \<and> node_id \<notin> set (am_tried_collisions s1)
                          then s1\<lparr>am_tried_collisions := am_tried_collisions s1 @ [node_id]\<rparr> else s1)
                   else make_tried L s1 node_id))))
         | _ \<Rightarrow> Inr s))"

text \<open>The timestamp that a known address gets.\<close>

definition updated_timestamp :: "rat \<Rightarrow> int \<Rightarrow> int \<Rightarrow> int \<Rightarrow> int" where
  "updated_timestamp now old new penalty =
     (let currently_online = (now - of_int new < 24 * 60 * 60);
          update_interval = (if currently_online then 60 * 60 else 24 * 60 * 60)
      in if new > 0 \<and> (old > 0 \<or> old < new - update_interval - penalty) then max 0 (new - penalty) else old)"

text \<open>Whether a known address may get one more place in the new table; \<open>chance\<close> is the result of \<open>randrange(1 << ref_count)\<close>.\<close>

definition may_add_reference :: "int \<Rightarrow> extended_peer_info \<Rightarrow> int \<Rightarrow> bool" where
  "may_add_reference chance info addr_timestamp =
     (\<not> (addr_timestamp = 0 \<or> ep_timestamp info > 0 \<and> addr_timestamp \<le> ep_timestamp info) \<and> \<not> ep_is_tried info \<and>
      ep_ref_count info \<noteq> NEW_BUCKETS_PER_ADDRESS \<and> \<not> (2 ^ nat (ep_ref_count info) > (1 :: int) \<and> chance \<noteq> 0))"

text \<open>The end of \<open>add_to_new_table_inner\<close>: a place for the address.\<close>

definition place_in_new ::
  "peer_lib \<Rightarrow> rat \<Rightarrow> address_manager \<Rightarrow> int \<Rightarrow> peer_info option \<Rightarrow> address_manager res" where
  "place_in_new L now s node_id source =
     rbind (dict_getitem (am_map_info s) node_id) (\<lambda>info.
     rbind (get_new_bucket L (am_key s) info source) (\<lambda>new_bucket.
     rbind (get_bucket_position L (am_key s) info True new_bucket) (\<lambda>new_bucket_pos.
     let here = am_new_matrix s (new_bucket, new_bucket_pos) in
     if here = node_id then Inr s
     else
       rbind (if here = -1 then Inr True
              else
                rbind (dict_getitem (am_map_info s) here) (\<lambda>info_existing.
                Inr (is_terrible info_existing \<lfloor>now\<rfloor> \<or> ep_ref_count info_existing > 1 \<and> ep_ref_count info = 0))) (\<lambda>add_to_new.
       if add_to_new then
         rbind (clear_new s new_bucket new_bucket_pos) (\<lambda>s1.
         rbind (modify_info s1 node_id (\<lambda>i. i\<lparr>ep_ref_count := ep_ref_count i + 1\<rparr>)) (\<lambda>s2.
         Inr (set_new_matrix s2 new_bucket new_bucket_pos node_id)))
       else if ep_ref_count info = 0 then delete_new_entry s node_id
       else Inr s))))"

definition add_to_new_table_inner ::
  "peer_lib \<Rightarrow> rat \<Rightarrow> int \<Rightarrow> address_manager \<Rightarrow> timestamped_peer_info \<Rightarrow> peer_info option \<Rightarrow> int \<Rightarrow> (bool \<times> address_manager) res" where
  "add_to_new_table_inner L now chance s addr source penalty =
     (let p = \<lparr>pi_host = tp_host addr, pi_port = tp_port addr\<rparr> in
      if \<not> peer_is_valid L (am_allow_private_subnets s) p then Inr (False, s)
      else
        (case find_entry s p of
           (Some info, Some node_id) \<Rightarrow>
             let penalty = (if same_peer info p then 0 else penalty);
                 info1 = info\<lparr>ep_timestamp := updated_timestamp now (ep_timestamp info) (tp_timestamp addr) penalty\<rparr>
             in
             rbind (modify_info s node_id (\<lambda>_. info1)) (\<lambda>s1.
             if \<not> may_add_reference chance info1 (tp_timestamp addr) then Inr (False, s1)
             else rbind (place_in_new L now s1 node_id source) (\<lambda>s2. Inr (False, s2)))
         | _ \<Rightarrow>
             (case create_entry s addr source of (s1, node_id) \<Rightarrow>
                rbind (modify_info s1 node_id (\<lambda>i. i\<lparr>ep_timestamp := max 0 (ep_timestamp i - penalty)\<rparr>)) (\<lambda>s2.
                rbind (place_in_new L now (s2\<lparr>am_new_count := am_new_count s2 + 1\<rparr>) node_id source) (\<lambda>s3. Inr (True, s3))))))"

definition attempt_inner :: "address_manager \<Rightarrow> peer_info \<Rightarrow> bool \<Rightarrow> int \<Rightarrow> address_manager res" where
  "attempt_inner s addr count_failures timestamp =
     (case find_entry s addr of
        (Some info, Some node_id) \<Rightarrow>
          if \<not> same_peer info addr then Inr s
          else
            modify_info s node_id (\<lambda>i.
              if count_failures \<and> ep_last_count_attempt i < am_last_good s
              then i\<lparr>ep_last_try := timestamp, ep_last_count_attempt := timestamp, ep_num_attempts := ep_num_attempts i + 1\<rparr>
              else i\<lparr>ep_last_try := timestamp\<rparr>)
      | _ \<Rightarrow> Inr s)"

definition connect_inner :: "address_manager \<Rightarrow> peer_info \<Rightarrow> int \<Rightarrow> address_manager res" where
  "connect_inner s addr timestamp =
     (case find_entry s addr of
        (Some info, Some node_id) \<Rightarrow>
          if \<not> same_peer info addr then Inr s
          else modify_info s node_id (\<lambda>i. if timestamp - ep_timestamp i > 20 * 60 then i\<lparr>ep_timestamp := timestamp\<rparr> else i)
      | _ \<Rightarrow> Inr s)"

text \<open>One collision: whether it is resolved, and the manager after it.  \<open>rnd\<close> is the random bucket of each \<open>mark_good_inner\<close>.\<close>

definition resolve_collision :: "peer_lib \<Rightarrow> rat \<Rightarrow> (int \<Rightarrow> int) \<Rightarrow> address_manager \<Rightarrow> int \<Rightarrow> (bool \<times> address_manager) res" where
  "resolve_collision L now rnd s node_id =
     (case dict_get (am_map_info s) node_id of
        None \<Rightarrow> Inr (True, s)
      | Some info \<Rightarrow>
          let good = rbind (mark_good_inner L (rnd node_id) s (ep_peer_info info) False \<lfloor>now\<rfloor>) (\<lambda>s'. Inr (True, s')) in
          rbind (get_tried_bucket L (am_key s) info) (\<lambda>tried_bucket.
          rbind (get_bucket_position L (am_key s) info False tried_bucket) (\<lambda>tried_bucket_pos.
          let old_id = am_tried_matrix s (tried_bucket, tried_bucket_pos) in
          if old_id = -1 then good
          else
            rbind (dict_getitem (am_map_info s) old_id) (\<lambda>old_info.
            if now - of_int (ep_last_success old_info) < 4 * 60 * 60 then Inr (True, s)
            else if now - of_int (ep_last_try old_info) < 4 * 60 * 60 then
              if now - of_int (ep_last_try old_info) > 60 then good else Inr (False, s)
            else if now - of_int (ep_last_success info) > 40 * 60 then good
            else Inr (False, s)))))"

definition resolve_step :: "peer_lib \<Rightarrow> rat \<Rightarrow> (int \<Rightarrow> int) \<Rightarrow> address_manager \<Rightarrow> int \<Rightarrow> address_manager res" where
  "resolve_step L now rnd s node_id =
     rbind (resolve_collision L now rnd s node_id) (\<lambda>(resolved, s1).
     if \<not> resolved then Inr s1
     else
       rbind (rguard ValueError (node_id \<in> set (am_tried_collisions s1))) (\<lambda>_.
       Inr (s1\<lparr>am_tried_collisions := remove1 node_id (am_tried_collisions s1)\<rparr>)))"

definition resolve_tried_collisions :: "peer_lib \<Rightarrow> rat \<Rightarrow> (int \<Rightarrow> int) \<Rightarrow> address_manager \<Rightarrow> address_manager res" where
  "resolve_tried_collisions L now rnd s = rfold (resolve_step L now rnd) s (am_tried_collisions s)"

text \<open>\<open>new_id\<close> is the random choice among the collisions.\<close>

definition select_tried_collision ::
  "peer_lib \<Rightarrow> int \<Rightarrow> address_manager \<Rightarrow> (extended_peer_info option \<times> address_manager) res" where
  "select_tried_collision L new_id s =
     (if length (am_tried_collisions s) = 0 then Inr (None, s)
      else
        (case dict_get (am_map_info s) new_id of
           None \<Rightarrow> Inr (None, s\<lparr>am_tried_collisions := remove1 new_id (am_tried_collisions s)\<rparr>)
         | Some new_info \<Rightarrow>
             rbind (get_tried_bucket L (am_key s) new_info) (\<lambda>tried_bucket.
             rbind (get_bucket_position L (am_key s) new_info False tried_bucket) (\<lambda>tried_bucket_pos.
             rbind (dict_getitem (am_map_info s) (am_tried_matrix s (tried_bucket, tried_bucket_pos))) (\<lambda>info. Inr (Some info, s))))))"

text \<open>The loop of \<open>get_peers\<close>; \<open>rnd n\<close> is the result of \<open>randrange(len(self.random_pos) - n)\<close>.\<close>

fun collect_peers ::
  "peer_lib \<Rightarrow> rat \<Rightarrow> (int \<Rightarrow> int) \<Rightarrow> int \<Rightarrow> address_manager \<Rightarrow> timestamped_peer_info list \<Rightarrow> int list
     \<Rightarrow> (timestamped_peer_info list \<times> address_manager) res" where
  "collect_peers L now rnd num_nodes s addr [] = Inr (addr, s)"
| "collect_peers L now rnd num_nodes s addr (n # ns) =
     (if int (length addr) \<ge> num_nodes then Inr (addr, s)
      else
        rbind (swap_random s n (rnd n + n)) (\<lambda>s1.
        rbind (py_index (am_random_pos s1) n) (\<lambda>node_id.
        rbind (dict_getitem (am_map_info s1) node_id) (\<lambda>info.
        if \<not> peer_is_valid L (am_allow_private_subnets s1) (ep_peer_info info) \<or> is_terrible info \<lfloor>now\<rfloor>
        then collect_peers L now rnd num_nodes s1 addr ns
        else
          rbind (uint16 (pi_port (ep_peer_info info))) (\<lambda>port.
          rbind (uint64 (ep_timestamp info)) (\<lambda>t.
          collect_peers L now rnd num_nodes s1
            (addr @ [\<lparr>tp_host = pi_host (ep_peer_info info), tp_port = port, tp_timestamp = t\<rparr>]) ns))))))"

definition get_peers ::
  "peer_lib \<Rightarrow> rat \<Rightarrow> (int \<Rightarrow> int) \<Rightarrow> address_manager \<Rightarrow> (timestamped_peer_info list \<times> address_manager) res" where
  "get_peers L now rnd s =
     (let n = int (length (am_random_pos s)); num_nodes = min 1000 ((23 * n + 99) div 100)
      in collect_peers L now rnd num_nodes s [] [0..n - 1])"

definition cleanup_step :: "int \<Rightarrow> int \<Rightarrow> int \<Rightarrow> address_manager \<Rightarrow> int \<times> int \<Rightarrow> address_manager res" where
  "cleanup_step now max_timestamp_difference max_consecutive_failures s bp =
     (let node_id = am_new_matrix s bp in
      if node_id = -1 then Inr s
      else
        rbind (dict_getitem (am_map_info s) node_id) (\<lambda>cur_info.
        if ep_timestamp cur_info < now - max_timestamp_difference \<and> ep_num_attempts cur_info \<ge> max_consecutive_failures
        then clear_new s (fst bp) (snd bp) else Inr s))"

definition cleanup :: "rat \<Rightarrow> address_manager \<Rightarrow> int \<Rightarrow> int \<Rightarrow> address_manager res" where
  "cleanup now s max_timestamp_difference max_consecutive_failures =
     rfold (cleanup_step \<lfloor>now\<rfloor> max_timestamp_difference max_consecutive_failures) s (positions NEW_BUCKET_COUNT)"

text \<open>The methods that take the lock.\<close>

definition am_size :: "address_manager \<Rightarrow> int" where
  "am_size s = int (length (am_random_pos s))"

fun add_to_new_table ::
  "peer_lib \<Rightarrow> rat \<Rightarrow> (nat \<Rightarrow> int) \<Rightarrow> address_manager \<Rightarrow> timestamped_peer_info list \<Rightarrow> peer_info option \<Rightarrow> int \<Rightarrow> (bool \<times> address_manager) res" where
  "add_to_new_table L now chance s [] source penalty = Inr (False, s)"
| "add_to_new_table L now chance s (addr # addresses) source penalty =
     rbind (add_to_new_table_inner L now (chance (length addresses)) s addr source penalty) (\<lambda>(cur_peer_added, s1).
     rbind (add_to_new_table L now chance s1 addresses source penalty) (\<lambda>(is_added, s2). Inr (cur_peer_added \<or> is_added, s2)))"

definition timestamp_or_now :: "rat \<Rightarrow> int \<Rightarrow> int" where
  "timestamp_or_now now timestamp = (if timestamp = -1 then \<lfloor>now\<rfloor> else timestamp)"

definition mark_good :: "peer_lib \<Rightarrow> rat \<Rightarrow> int \<Rightarrow> address_manager \<Rightarrow> peer_info \<Rightarrow> bool \<Rightarrow> int \<Rightarrow> address_manager res" where
  "mark_good L now bucket_rand s addr test_before_evict timestamp =
     mark_good_inner L bucket_rand s addr test_before_evict (timestamp_or_now now timestamp)"

definition attempt :: "rat \<Rightarrow> address_manager \<Rightarrow> peer_info \<Rightarrow> bool \<Rightarrow> int \<Rightarrow> address_manager res" where
  "attempt now s addr count_failures timestamp = attempt_inner s addr count_failures (timestamp_or_now now timestamp)"

definition connect :: "rat \<Rightarrow> address_manager \<Rightarrow> peer_info \<Rightarrow> int \<Rightarrow> address_manager res" where
  "connect now s addr timestamp = connect_inner s addr (timestamp_or_now now timestamp)"

end
