(* ===== verification/AddressTables.thy ===== *)
theory AddressTables
  imports AddressManager
begin

text \<open>
  What ties the two tables of the address manager to the entries: the invariant \<open>tab_ok\<close>, and the elementary changes that
  keep it (a place is left or taken, an address is created, forgotten, tried or put back).
\<close>

section \<open>Buckets\<close>

definition peer_ok :: "peer_lib \<Rightarrow> peer_info \<Rightarrow> bool" where
  "peer_ok L p \<longleftrightarrow> (\<exists>k. get_key L p = Inr k) \<and> (\<exists>g. get_group L p = Inr g)"

definition info_ok :: "peer_lib \<Rightarrow> extended_peer_info \<Rightarrow> bool" where
  "info_ok L i \<longleftrightarrow> peer_ok L (ep_peer_info i) \<and> (\<exists>q g. ep_src i = Some q \<and> get_group L q = Inr g) \<and> 0 \<le> ep_timestamp i \<and> ep_timestamp i < 2 ^ 64"

definition key_ok :: "int \<Rightarrow> bool" where
  "key_ok key \<longleftrightarrow> 0 \<le> key \<and> key < 2 ^ 256"

lemma peer_ok_valid: "peer_is_valid L allow p \<Longrightarrow> 0 \<le> pi_port p \<Longrightarrow> pi_port p < 65536 \<Longrightarrow> peer_ok L p"
  by (auto simp: peer_is_valid_def peer_ok_def get_key_def get_group_def bytes_of_ints_def split: option.splits)

lemma hash_byte: "0 < m \<Longrightarrow> m \<le> 256 \<Longrightarrow> bytes_of_ints [x mod m] = Inr [word_of_int (x mod m)]"
  by (simp add: bytes_of_ints_def) (meson Euclidean_Rings.pos_mod_bound order_less_le_trans)

lemma to_bytes_total: "0 \<le> x \<Longrightarrow> x < 2 ^ (8 * n) \<Longrightarrow> \<exists>bs. to_bytes n False x = Inr bs"
  by (simp add: to_bytes_def)

lemma tried_bucket_total:
  assumes "key_ok key" "info_ok L i"
  shows "\<exists>b. get_tried_bucket L key i = Inr b \<and> 0 \<le> b \<and> b < TRIED_BUCKET_COUNT"
  using assms to_bytes_total [of key 32] hash_byte [of 8]
  by (auto simp: get_tried_bucket_def key_ok_def info_ok_def peer_ok_def Let_def TRIED_BUCKETS_PER_GROUP_def TRIED_BUCKET_COUNT_def)

lemma new_bucket_total:
  assumes "key_ok key" "info_ok L i" "\<forall>q. source = Some q \<longrightarrow> (\<exists>g. get_group L q = Inr g)"
  shows "\<exists>b. get_new_bucket L key i source = Inr b \<and> 0 \<le> b \<and> b < NEW_BUCKET_COUNT"
  using assms to_bytes_total [of key 32] hash_byte [of 64]
  by (auto simp: get_new_bucket_def key_ok_def info_ok_def peer_ok_def Let_def NEW_BUCKETS_PER_SOURCE_GROUP_def NEW_BUCKET_COUNT_def
      split: option.splits)

lemma position_total:
  assumes "key_ok key" "info_ok L i" "0 \<le> b" "b < 2 ^ 24"
  shows "\<exists>p. get_bucket_position L key i is_new b = Inr p \<and> 0 \<le> p \<and> p < BUCKET_SIZE"
  using assms to_bytes_total [of key 32] to_bytes_total [of b 3]
  by (auto simp: get_bucket_position_def key_ok_def info_ok_def peer_ok_def BUCKET_SIZE_def)

lemma buckets_of_peer:
  assumes "ep_peer_info j = ep_peer_info i"
  shows "get_tried_bucket L key j = get_tried_bucket L key i" "get_bucket_position L key j = get_bucket_position L key i"
  using assms by (simp_all add: get_tried_bucket_def get_bucket_position_def fun_eq_iff)

section \<open>The invariant\<close>

text \<open>
  \<open>tab_ok\<close>: the two tables.  \<open>X\<close> are ids that may have no reference for the moment, \<open>dn\<close> is by how much the count of new
  addresses is behind.
\<close>

definition fresh_ids :: "(int \<rightharpoonup> extended_peer_info) \<Rightarrow> int set" where
  "fresh_ids mi = {n. \<exists>i. mi n = Some i \<and> \<not> ep_is_tried i}"

definition tried_ids :: "(int \<rightharpoonup> extended_peer_info) \<Rightarrow> int set" where
  "tried_ids mi = {n. \<exists>i. mi n = Some i \<and> ep_is_tried i}"

definition new_place :: "peer_lib \<Rightarrow> int \<Rightarrow> extended_peer_info \<Rightarrow> int \<times> int \<Rightarrow> bool" where
  "new_place L key i bp \<longleftrightarrow> 0 \<le> fst bp \<and> fst bp < NEW_BUCKET_COUNT \<and> 0 \<le> snd bp \<and> snd bp < BUCKET_SIZE \<and>
     get_bucket_position L key i True (fst bp) = Inr (snd bp)"

definition tried_place :: "peer_lib \<Rightarrow> int \<Rightarrow> extended_peer_info \<Rightarrow> int \<times> int \<Rightarrow> bool" where
  "tried_place L key i bp \<longleftrightarrow> get_tried_bucket L key i = Inr (fst bp) \<and> get_bucket_position L key i False (fst bp) = Inr (snd bp)"

definition refs :: "(int \<times> int \<Rightarrow> int) \<Rightarrow> int \<Rightarrow> (int \<times> int) set" where
  "refs nm n = {bp. nm bp = n}"

record tables =
  tb_mi :: "int \<rightharpoonup> extended_peer_info"
  tb_nm :: "int \<times> int \<Rightarrow> int"
  tb_tm :: "int \<times> int \<Rightarrow> int"
  tb_key :: int
  tb_nc :: int
  tb_tc :: int

definition tables_of :: "address_manager \<Rightarrow> tables" where
  "tables_of s = \<lparr>tb_mi = dict_get (am_map_info s), tb_nm = am_new_matrix s, tb_tm = am_tried_matrix s, tb_key = am_key s,
     tb_nc = am_new_count s, tb_tc = am_tried_count s\<rparr>"

definition tab_ok :: "peer_lib \<Rightarrow> int set \<Rightarrow> int \<Rightarrow> tables \<Rightarrow> bool" where
  "tab_ok L X dn t \<longleftrightarrow>
     key_ok (tb_key t) \<and> finite (dom (tb_mi t)) \<and>
     (\<forall>n i. tb_mi t n = Some i \<longrightarrow> n \<noteq> -1 \<and> info_ok L i) \<and>
     (\<forall>n i. tb_mi t n = Some i \<longrightarrow> ep_is_tried i \<longrightarrow> ep_ref_count i = 0 \<and> (\<exists>bp. tb_tm t bp = n)) \<and>
     (\<forall>n i. tb_mi t n = Some i \<longrightarrow> \<not> ep_is_tried i \<longrightarrow>
        ep_ref_count i = int (card (refs (tb_nm t) n)) \<and> (n \<notin> X \<longrightarrow> refs (tb_nm t) n \<noteq> {})) \<and>
     (\<forall>bp. tb_nm t bp \<noteq> -1 \<longrightarrow> (\<exists>i. tb_mi t (tb_nm t bp) = Some i \<and> \<not> ep_is_tried i \<and> new_place L (tb_key t) i bp)) \<and>
     (\<forall>bp. tb_tm t bp \<noteq> -1 \<longrightarrow> (\<exists>i. tb_mi t (tb_tm t bp) = Some i \<and> ep_is_tried i \<and> tried_place L (tb_key t) i bp)) \<and>
     tb_nc t + dn = int (card (fresh_ids (tb_mi t))) \<and> tb_tc t = int (card (tried_ids (tb_mi t)))"

lemma finite_refs:
  assumes "tab_ok L X dn t" "n \<noteq> -1"
  shows "finite (refs (tb_nm t) n)"
proof -
  have "refs (tb_nm t) n \<subseteq> {0..<NEW_BUCKET_COUNT} \<times> {0..<BUCKET_SIZE}"
    using assms by (fastforce simp: tab_ok_def refs_def new_place_def)
  then show ?thesis by (rule finite_subset) simp
qed

lemma finite_ids: "finite (dom mi) \<Longrightarrow> finite (fresh_ids mi) \<and> finite (tried_ids mi)"
  by (auto simp: fresh_ids_def tried_ids_def elim!: finite_subset [rotated])

lemma tab_okI:
  assumes "key_ok (tb_key t)" "finite (dom (tb_mi t))"
    "\<And>n i. tb_mi t n = Some i \<Longrightarrow> n \<noteq> -1 \<and> info_ok L i"
    "\<And>n i. tb_mi t n = Some i \<Longrightarrow> ep_is_tried i \<Longrightarrow> ep_ref_count i = 0 \<and> (\<exists>bp. tb_tm t bp = n)"
    "\<And>n i. tb_mi t n = Some i \<Longrightarrow> \<not> ep_is_tried i \<Longrightarrow>
       ep_ref_count i = int (card (refs (tb_nm t) n)) \<and> (n \<notin> X \<longrightarrow> refs (tb_nm t) n \<noteq> {})"
    "\<And>bp. tb_nm t bp \<noteq> -1 \<Longrightarrow> \<exists>i. tb_mi t (tb_nm t bp) = Some i \<and> \<not> ep_is_tried i \<and> new_place L (tb_key t) i bp"
    "\<And>bp. tb_tm t bp \<noteq> -1 \<Longrightarrow> \<exists>i. tb_mi t (tb_tm t bp) = Some i \<and> ep_is_tried i \<and> tried_place L (tb_key t) i bp"
    "tb_nc t + dn = int (card (fresh_ids (tb_mi t)))" "tb_tc t = int (card (tried_ids (tb_mi t)))"
  shows "tab_ok L X dn t"
  unfolding tab_ok_def using assms by blast

lemma tab_okD:
  assumes "tab_ok L X dn t"
  shows "key_ok (tb_key t)" "finite (dom (tb_mi t))"
    "\<And>n i. tb_mi t n = Some i \<Longrightarrow> n \<noteq> -1 \<and> info_ok L i"
    "\<And>n i. tb_mi t n = Some i \<Longrightarrow> ep_is_tried i \<Longrightarrow> ep_ref_count i = 0 \<and> (\<exists>bp. tb_tm t bp = n)"
    "\<And>n i. tb_mi t n = Some i \<Longrightarrow> \<not> ep_is_tried i \<Longrightarrow>
       ep_ref_count i = int (card (refs (tb_nm t) n)) \<and> (n \<notin> X \<longrightarrow> refs (tb_nm t) n \<noteq> {})"
    "\<And>bp. tb_nm t bp \<noteq> -1 \<Longrightarrow> \<exists>i. tb_mi t (tb_nm t bp) = Some i \<and> \<not> ep_is_tried i \<and> new_place L (tb_key t) i bp"
    "\<And>bp. tb_tm t bp \<noteq> -1 \<Longrightarrow> \<exists>i. tb_mi t (tb_tm t bp) = Some i \<and> ep_is_tried i \<and> tried_place L (tb_key t) i bp"
    "tb_nc t + dn = int (card (fresh_ids (tb_mi t)))" "tb_tc t = int (card (tried_ids (tb_mi t)))"
  using assms unfolding tab_ok_def by blast+

text \<open>An entry changes, but neither its address, its references nor its table.\<close>

definition same_entry :: "extended_peer_info \<Rightarrow> extended_peer_info \<Rightarrow> bool" where
  "same_entry i j \<longleftrightarrow> ep_peer_info j = ep_peer_info i \<and> ep_is_tried j = ep_is_tried i \<and> ep_ref_count j = ep_ref_count i"

lemma same_places:
  assumes "ep_peer_info j = ep_peer_info i"
  shows "new_place L key j = new_place L key i" "tried_place L key j = tried_place L key i"
  unfolding new_place_def [abs_def] tried_place_def [abs_def] buckets_of_peer [OF assms] by (rule refl)+

lemma ids_upd:
  "fresh_ids (mi(n \<mapsto> j)) = (if ep_is_tried j then fresh_ids mi - {n} else insert n (fresh_ids mi))"
  "tried_ids (mi(n \<mapsto> j)) = (if ep_is_tried j then insert n (tried_ids mi) else tried_ids mi - {n})"
  "fresh_ids (mi(n := None)) = fresh_ids mi - {n}" "tried_ids (mi(n := None)) = tried_ids mi - {n}"
  by (auto simp: fresh_ids_def tried_ids_def split: if_splits)

lemma ids_mem:
  "mi n = Some i \<Longrightarrow> n \<in> fresh_ids mi \<longleftrightarrow> \<not> ep_is_tried i" "mi n = Some i \<Longrightarrow> n \<in> tried_ids mi \<longleftrightarrow> ep_is_tried i"
  "mi n = None \<Longrightarrow> n \<notin> fresh_ids mi \<and> n \<notin> tried_ids mi"
  by (auto simp: fresh_ids_def tried_ids_def)

lemma tab_modify:
  assumes t: "tab_ok L X dn t" and n: "tb_mi t n = Some i" and j: "same_entry i j" "info_ok L j"
  shows "tab_ok L X dn (t\<lparr>tb_mi := (tb_mi t)(n \<mapsto> j)\<rparr>)"
proof -
  note d = tab_okD [OF t]
  have same: "new_place L (tb_key t) j = new_place L (tb_key t) i" "tried_place L (tb_key t) j = tried_place L (tb_key t) i"
    using j(1) by (simp_all add: same_places [of j i] same_entry_def)
  have ids: "fresh_ids ((tb_mi t)(n \<mapsto> j)) = fresh_ids (tb_mi t)" "tried_ids ((tb_mi t)(n \<mapsto> j)) = tried_ids (tb_mi t)"
    using n j(1) by (auto simp: ids_upd ids_mem same_entry_def)
  show ?thesis
  proof (rule tab_okI, goal_cases)
    case (3 m k)
    show ?case using 3 d(3) [of m k] d(3) [OF n] j(2) by (cases "m = n") simp_all
  next
    case (4 m k)
    show ?case using 4 d(4) [of m k] d(4) [OF n] j(1) by (cases "m = n") (simp_all add: same_entry_def)
  next
    case (5 m k)
    show ?case using 5 d(5) [of m k] d(5) [OF n] j(1) by (cases "m = n") (simp_all add: same_entry_def)
  next
    case (6 bp)
    show ?case using 6 d(6) [of bp] n j(1) same by (cases "tb_nm t bp = n") (simp_all add: same_entry_def)
  next
    case (7 bp)
    show ?case using 7 d(7) [of bp] n j(1) same by (cases "tb_tm t bp = n") (simp_all add: same_entry_def)
  qed (simp_all add: d(1,2) d(8,9) ids)
qed

text \<open>A place in the new table is left.\<close>

lemma tab_leave:
  assumes t: "tab_ok L X dn t" and bp: "tb_nm t bp = n" and n: "tb_mi t n = Some i"
  shows "tab_ok L (insert n X) dn (t\<lparr>tb_mi := (tb_mi t)(n \<mapsto> i\<lparr>ep_ref_count := ep_ref_count i - 1\<rparr>), tb_nm := (tb_nm t)(bp := -1)\<rparr>)"
    "refs ((tb_nm t)(bp := -1)) n = refs (tb_nm t) n - {bp}" "ep_ref_count i > 0" "\<not> ep_is_tried i"
    "ep_ref_count i - 1 = int (card (refs ((tb_nm t)(bp := -1)) n))"
proof -
  note d = tab_okD [OF t]
  have n1: "n \<noteq> -1" using d(3) n by blast
  have fresh: "\<not> ep_is_tried i" using d(6) [of bp] bp n n1 by auto
  have r: "refs ((tb_nm t)(bp := -1)) m = refs (tb_nm t) m - {bp}" if "m \<noteq> -1" for m using that by (auto simp: refs_def)
  have fin: "finite (refs (tb_nm t) n)" by (rule finite_refs [OF t n1])
  have mem: "bp \<in> refs (tb_nm t) n" using bp by (simp add: refs_def)
  have card: "ep_ref_count i = int (card (refs (tb_nm t) n))" using d(5) n fresh by blast
  have pos: "card (refs (tb_nm t) n) > 0" using fin mem by (auto simp: card_gt_0_iff)
  have less: "int (card (refs (tb_nm t) n - {bp})) = ep_ref_count i - 1" using fin mem card pos by simp
  have other: "refs (tb_nm t) m - {bp} = refs (tb_nm t) m" if "m \<noteq> n" for m using that bp by (auto simp: refs_def)
  show "tab_ok L (insert n X) dn (t\<lparr>tb_mi := (tb_mi t)(n \<mapsto> i\<lparr>ep_ref_count := ep_ref_count i - 1\<rparr>), tb_nm := (tb_nm t)(bp := -1)\<rparr>)"
  proof (rule tab_okI, goal_cases)
    case (3 m k)
    show ?case using 3 d(3) [of m k] d(3) [OF n] by (cases "m = n") (auto simp: info_ok_def)
  next
    case (4 m k)
    show ?case using 4 d(4) [of m k] fresh by (cases "m = n") auto
  next
    case (5 m k)
    show ?case
    proof (cases "m = n")
      case True
      then show ?thesis using 5 less r n1 by auto
    next
      case False
      then have "m \<noteq> -1" using 5 d(3) [of m k] by simp
      then show ?thesis using False 5 d(5) [of m k] by (simp add: r other)
    qed
  next
    case (6 q)
    show ?case
      using 6 d(6) [of q] n fresh same_places [of "i\<lparr>ep_ref_count := ep_ref_count i - 1\<rparr>" i]
      by (cases "tb_nm t q = n") (auto split: if_splits)
  next
    case (7 q)
    show ?case using 7 d(7) [of q] n fresh by (cases "tb_tm t q = n") auto
  qed (use n fresh in \<open>simp_all add: d(1,2) d(8,9) ids_upd ids_mem insert_absorb\<close>)
  show "refs ((tb_nm t)(bp := -1)) n = refs (tb_nm t) n - {bp}" using r n1 by simp
  show "ep_ref_count i > 0" using card pos by simp
  show "\<not> ep_is_tried i" by (fact fresh)
  show "ep_ref_count i - 1 = int (card (refs ((tb_nm t)(bp := -1)) n))" using less r n1 by simp
qed

lemma tab_weaken: "tab_ok L X dn t \<Longrightarrow> X \<subseteq> Y \<Longrightarrow> tab_ok L Y dn t"
  unfolding tab_ok_def by blast

lemma tab_settle:
  assumes t: "tab_ok L X dn t" and n: "\<And>i. tb_mi t n = Some i \<Longrightarrow> \<not> ep_is_tried i \<Longrightarrow> refs (tb_nm t) n \<noteq> {}"
  shows "tab_ok L (X - {n}) dn t"
proof (rule tab_okI, goal_cases)
  case (5 m k)
  show ?case using 5 tab_okD(5) [OF t, of m k] n [of k] by (cases "m = n") simp_all
qed (use tab_okD [OF t] in blast)+

lemma tab_count: "tab_ok L X dn t \<Longrightarrow> tab_ok L X (dn - k) (t\<lparr>tb_nc := tb_nc t + k\<rparr>)"
  by (simp add: tab_ok_def)

text \<open>A place in the new table is taken.\<close>

lemma tab_join:
  assumes t: "tab_ok L X dn t" and bp: "tb_nm t bp = -1" and n: "tb_mi t n = Some i" and fresh: "\<not> ep_is_tried i"
    and place: "new_place L (tb_key t) i bp"
  shows "tab_ok L (X - {n}) dn (t\<lparr>tb_mi := (tb_mi t)(n \<mapsto> i\<lparr>ep_ref_count := ep_ref_count i + 1\<rparr>), tb_nm := (tb_nm t)(bp := n)\<rparr>)"
proof -
  note d = tab_okD [OF t]
  let ?i = "i\<lparr>ep_ref_count := ep_ref_count i + 1\<rparr>"
  have n1: "n \<noteq> -1" using d(3) n by blast
  have r: "refs ((tb_nm t)(bp := n)) m = (if m = n then insert bp (refs (tb_nm t) n) else refs (tb_nm t) m)" if "m \<noteq> -1" for m
    using that bp by (auto simp: refs_def)
  have "finite (refs (tb_nm t) n)" by (rule finite_refs [OF t n1])
  moreover have "bp \<notin> refs (tb_nm t) n" using bp n1 by (simp add: refs_def)
  ultimately have more: "int (card (insert bp (refs (tb_nm t) n))) = ep_ref_count i + 1" using d(5) n fresh by simp
  show ?thesis
  proof (rule tab_okI, goal_cases)
    case (3 m k)
    show ?case using 3 d(3) [of m k] d(3) [OF n] by (cases "m = n") (auto simp: info_ok_def)
  next
    case (4 m k)
    show ?case using 4 d(4) [of m k] fresh by (cases "m = n") auto
  next
    case (5 m k)
    show ?case
    proof (cases "m = n")
      case True
      then show ?thesis using 5 more r n1 by auto
    next
      case False
      then have "m \<noteq> -1" using 5 d(3) [of m k] by simp
      then show ?thesis using False 5 d(5) [of m k] by (simp add: r)
    qed
  next
    case (6 q)
    have "new_place L (tb_key t) ?i = new_place L (tb_key t) i" by (rule same_places) simp
    then show ?case using 6 d(6) [of q] n fresh place by (cases "tb_nm t q = n") (auto split: if_splits)
  next
    case (7 q)
    show ?case using 7 d(7) [of q] n fresh by (cases "tb_tm t q = n") auto
  qed (use n fresh in \<open>simp_all add: d(1,2) d(8,9) ids_upd ids_mem insert_absorb\<close>)
qed

text \<open>An address without a place is forgotten.\<close>

lemma tab_delete:
  assumes t: "tab_ok L X dn t" and n: "tb_mi t n = Some i" and fresh: "\<not> ep_is_tried i" and none: "refs (tb_nm t) n = {}"
  shows "tab_ok L (X - {n}) dn (t\<lparr>tb_mi := (tb_mi t)(n := None), tb_nc := tb_nc t - 1\<rparr>)"
proof -
  note d = tab_okD [OF t]
  have nm: "tb_nm t q \<noteq> n" for q using none unfolding refs_def by blast
  have tm: "tb_tm t q \<noteq> n" for q using d(7) [of q] d(3) [OF n] n fresh by auto
  have fin: "finite (fresh_ids (tb_mi t))" and mem: "n \<in> fresh_ids (tb_mi t)" "n \<notin> tried_ids (tb_mi t)"
    using finite_ids d(2) n fresh by (simp_all add: ids_mem)
  then have "card (fresh_ids (tb_mi t)) > 0" by (auto simp: card_gt_0_iff)
  then have card: "int (card (fresh_ids (tb_mi t) - {n})) = int (card (fresh_ids (tb_mi t))) - 1" using fin mem by simp
  show ?thesis
  proof (rule tab_okI, goal_cases)
    case (3 m k)
    then show ?case using d(3) [of m k] by (simp split: if_splits)
  next
    case (4 m k)
    then show ?case using d(4) [of m k] by (simp split: if_splits)
  next
    case (5 m k)
    then show ?case using d(5) [of m k] by (simp split: if_splits)
  next
    case (6 q)
    then show ?case using d(6) [of q] nm [of q] by simp
  next
    case (7 q)
    then show ?case using d(7) [of q] tm [of q] by simp
  next
    case 8
    then show ?case using d(8) card by (simp add: ids_upd)
  qed (simp_all add: d(1,2) d(9) ids_upd mem)
qed

text \<open>A new address.\<close>

lemma tab_create:
  assumes t: "tab_ok L X dn t" and n: "tb_mi t n = None" "n \<noteq> -1" and i: "\<not> ep_is_tried i" "ep_ref_count i = 0" "info_ok L i"
  shows "tab_ok L (insert n X) (dn + 1) (t\<lparr>tb_mi := (tb_mi t)(n \<mapsto> i)\<rparr>)"
proof -
  note d = tab_okD [OF t]
  have nm: "tb_nm t q \<noteq> n" for q using d(6) [of q] n by auto
  have tm: "tb_tm t q \<noteq> n" for q using d(7) [of q] n by auto
  have none: "refs (tb_nm t) n = {}" using nm by (auto simp: refs_def)
  show ?thesis
  proof (rule tab_okI, goal_cases)
    case (3 m k)
    then show ?case using d(3) [of m k] n i by (auto split: if_splits)
  next
    case (4 m k)
    then show ?case using d(4) [of m k] i by (auto split: if_splits)
  next
    case (5 m k)
    then show ?case using d(5) [of m k] i none by (cases "m = n") auto
  next
    case (6 q)
    then show ?case using d(6) [of q] nm [of q] by simp
  next
    case (7 q)
    then show ?case using d(7) [of q] tm [of q] by simp
  qed (use n i finite_ids [OF d(2)] d(8) in \<open>simp_all add: d(1,2) d(9) ids_upd ids_mem\<close>)
qed

text \<open>An address leaves the tried table, and one enters it.\<close>

lemma tried_place_unique: "tried_place L key i bp \<Longrightarrow> tried_place L key i q \<Longrightarrow> q = bp"
  by (auto simp: tried_place_def prod_eq_iff)

lemma tab_untry:
  assumes t: "tab_ok L X dn t" and bp: "tb_tm t bp = n" and n: "n \<noteq> -1"
  shows "\<exists>i. tb_mi t n = Some i \<and> ep_is_tried i \<and> refs (tb_nm t) n = {} \<and>
    tab_ok L (insert n X) (dn + 1)
      (t\<lparr>tb_mi := (tb_mi t)(n \<mapsto> i\<lparr>ep_is_tried := False\<rparr>), tb_tm := (tb_tm t)(bp := -1), tb_tc := tb_tc t - 1\<rparr>)"
proof -
  note d = tab_okD [OF t]
  obtain i where i: "tb_mi t n = Some i" "ep_is_tried i" "tried_place L (tb_key t) i bp" using d(7) [of bp] bp n by auto
  have nm: "tb_nm t q \<noteq> n" for q using d(6) [of q] i n by auto
  then have none: "refs (tb_nm t) n = {}" unfolding refs_def by blast
  have only: "q = bp" if "tb_tm t q = n" for q using d(7) [of q] that i n tried_place_unique by auto
  have fin: "finite (fresh_ids (tb_mi t))" "finite (tried_ids (tb_mi t))" using finite_ids [OF d(2)] by simp_all
  have mem: "n \<notin> fresh_ids (tb_mi t)" "n \<in> tried_ids (tb_mi t)" using i by (simp_all add: ids_mem)
  then have "card (tried_ids (tb_mi t)) > 0" using fin by (auto simp: card_gt_0_iff)
  then have card: "int (card (tried_ids (tb_mi t) - {n})) = int (card (tried_ids (tb_mi t))) - 1" using fin mem by simp
  have "tab_ok L (insert n X) (dn + 1)
      (t\<lparr>tb_mi := (tb_mi t)(n \<mapsto> i\<lparr>ep_is_tried := False\<rparr>), tb_tm := (tb_tm t)(bp := -1), tb_tc := tb_tc t - 1\<rparr>)"
  proof (rule tab_okI, goal_cases)
    case (3 m k)
    then show ?case using d(3) [of m k] d(3) [OF i(1)] by (auto simp: info_ok_def split: if_splits)
  next
    case (4 m k)
    then have m: "m \<noteq> n" "tb_mi t m = Some k" "ep_is_tried k" by (auto split: if_splits)
    then obtain q where "ep_ref_count k = 0" "tb_tm t q = m" using d(4) [of m k] by auto
    moreover from this have "((tb_tm t)(bp := -1)) q = m" using m bp by auto
    ultimately show ?case using m by (auto simp del: split_paired_Ex fun_upd_apply)
  next
    case (5 m k)
    then show ?case using d(5) [of m k] d(4) [OF i(1,2)] none by (cases "m = n") auto
  next
    case (6 q)
    then show ?case using d(6) [of q] nm [of q] by simp
  next
    case (7 q)
    then show ?case using d(7) [of q] only [of q] by (cases "q = bp") auto
  next
    case 8
    then show ?case using d(8) fin mem by (simp add: ids_upd)
  next
    case 9
    then show ?case using d(9) card by (simp add: ids_upd)
  qed (simp_all add: d(1,2))
  then show ?thesis using i none by blast
qed

lemma tab_try:
  assumes t: "tab_ok L X dn t" and bp: "tb_tm t bp = -1" and n: "tb_mi t n = Some i" and fresh: "\<not> ep_is_tried i"
    and none: "refs (tb_nm t) n = {}" and place: "tried_place L (tb_key t) i bp"
  shows "tab_ok L (X - {n}) (dn - 1)
    (t\<lparr>tb_mi := (tb_mi t)(n \<mapsto> i\<lparr>ep_is_tried := True\<rparr>), tb_tm := (tb_tm t)(bp := n), tb_tc := tb_tc t + 1\<rparr>)"
proof -
  note d = tab_okD [OF t]
  have n1: "n \<noteq> -1" using d(3) n by blast
  have nm: "tb_nm t q \<noteq> n" for q using none unfolding refs_def by blast
  have tm: "tb_tm t q \<noteq> n" for q using d(7) [of q] n1 n fresh by auto
  have fin: "finite (fresh_ids (tb_mi t))" "finite (tried_ids (tb_mi t))" using finite_ids [OF d(2)] by simp_all
  have mem: "n \<in> fresh_ids (tb_mi t)" "n \<notin> tried_ids (tb_mi t)" using n fresh by (simp_all add: ids_mem)
  then have "card (fresh_ids (tb_mi t)) > 0" using fin by (auto simp: card_gt_0_iff)
  then have card: "int (card (fresh_ids (tb_mi t) - {n})) = int (card (fresh_ids (tb_mi t))) - 1" using fin mem by simp
  have same: "tried_place L (tb_key t) (i\<lparr>ep_is_tried := True\<rparr>) = tried_place L (tb_key t) i" by (rule same_places) simp
  show ?thesis
  proof (rule tab_okI, goal_cases)
    case (3 m k)
    then show ?case using d(3) [of m k] d(3) [OF n] by (auto simp: info_ok_def split: if_splits)
  next
    case (4 m k)
    show ?case
    proof (cases "m = n")
      case True
      moreover have "((tb_tm t)(bp := n)) bp = n" by simp
      ultimately show ?thesis using 4 d(5) [OF n fresh] none by (auto simp del: split_paired_Ex)
    next
      case False
      then obtain q where "ep_ref_count k = 0" "tb_tm t q = m" "m \<noteq> -1" using 4 d(3,4) [of m k] by auto
      moreover from this have "((tb_tm t)(bp := n)) q = m" using bp by auto
      ultimately show ?thesis by (auto simp del: split_paired_Ex fun_upd_apply)
    qed
  next
    case (5 m k)
    then show ?case using d(5) [of m k] by (cases "m = n") auto
  next
    case (6 q)
    then show ?case using d(6) [of q] nm [of q] by simp
  next
    case (7 q)
    then show ?case using d(7) [of q] tm [of q] place same by (cases "q = bp") auto
  next
    case 8
    then show ?case using d(8) card by (simp add: ids_upd)
  next
    case 9
    then show ?case using d(9) fin mem by (simp add: ids_upd)
  qed (simp_all add: d(1,2))
qed

end
