(* ===== verification/AddressManagerCorrect.thy ===== *)
theory AddressManagerCorrect
  imports AddressTables
begin

text \<open>
  The address manager keeps its tables, its index of hosts, its list for the random choice and its counters consistent: an
  invariant that every operation keeps, and with which no assertion and no lookup of the code fails.
\<close>

declare split_paired_All [simp del] split_paired_Ex [simp del]

section \<open>The list for the random choice and the index of hosts\<close>

definition roster_ok :: "(int \<rightharpoonup> extended_peer_info) \<Rightarrow> (string \<rightharpoonup> int) \<Rightarrow> int list \<Rightarrow> int \<Rightarrow> bool" where
  "roster_ok mi ma rp idc \<longleftrightarrow>
     distinct rp \<and> set rp = dom mi \<and> 0 \<le> idc \<and>
     (\<forall>n i. mi n = Some i \<longrightarrow> 1 \<le> n \<and> n \<le> idc) \<and>
     (\<forall>n i. mi n = Some i \<longrightarrow> (\<exists>k < length rp. rp ! k = n \<and> ep_random_pos i = Some (int k))) \<and>
     (\<forall>n i. mi n = Some i \<longrightarrow> ma (pi_host (ep_peer_info i)) = Some n) \<and>
     (\<forall>h n. ma h = Some n \<longrightarrow> (\<exists>i. mi n = Some i \<and> pi_host (ep_peer_info i) = h))"

lemma roster_okD:
  assumes "roster_ok mi ma rp idc"
  shows "distinct rp" "set rp = dom mi" "0 \<le> idc" "\<And>n i. mi n = Some i \<Longrightarrow> 1 \<le> n \<and> n \<le> idc"
    "\<And>n i. mi n = Some i \<Longrightarrow> \<exists>k < length rp. rp ! k = n \<and> ep_random_pos i = Some (int k)"
    "\<And>n i. mi n = Some i \<Longrightarrow> ma (pi_host (ep_peer_info i)) = Some n"
    "\<And>h n. ma h = Some n \<Longrightarrow> \<exists>i. mi n = Some i \<and> pi_host (ep_peer_info i) = h"
  using assms unfolding roster_ok_def by blast+

lemma roster_okI:
  assumes "distinct rp" "set rp = dom mi" "0 \<le> idc" "\<And>n i. mi n = Some i \<Longrightarrow> 1 \<le> n \<and> n \<le> idc"
    "\<And>n i. mi n = Some i \<Longrightarrow> \<exists>k < length rp. rp ! k = n \<and> ep_random_pos i = Some (int k)"
    "\<And>n i. mi n = Some i \<Longrightarrow> ma (pi_host (ep_peer_info i)) = Some n"
    "\<And>h n. ma h = Some n \<Longrightarrow> \<exists>i. mi n = Some i \<and> pi_host (ep_peer_info i) = h"
  shows "roster_ok mi ma rp idc"
  using assms unfolding roster_ok_def by blast

lemma roster_modify:
  assumes r: "roster_ok mi ma rp idc" and n: "mi n = Some i"
    and j: "ep_peer_info j = ep_peer_info i" "ep_random_pos j = ep_random_pos i"
  shows "roster_ok (mi(n \<mapsto> j)) ma rp idc"
proof -
  note d = roster_okD [OF r]
  show ?thesis
  proof (rule roster_okI, goal_cases)
    case (4 m k)
    then show ?case using d(4) [of m k] d(4) [OF n] by (simp split: if_splits)
  next
    case (5 m k)
    then show ?case using d(5) [of m k] d(5) [OF n] j by (cases "m = n") simp_all
  next
    case (6 m k)
    then show ?case using d(6) [of m k] d(6) [OF n] j by (cases "m = n") simp_all
  next
    case (7 h m)
    then show ?case using d(7) [of h m] n j by (cases "m = n") auto
  qed (use d(1,2,3) n in auto)
qed

lemma roster_swap:
  assumes r: "roster_ok mi ma rp idc" and pq: "p < length rp" "q < length rp" "p \<noteq> q"
    and i: "mi (rp ! p) = Some i" "mi (rp ! q) = Some j"
  shows "roster_ok (mi(rp ! p \<mapsto> i\<lparr>ep_random_pos := Some (int q)\<rparr>, rp ! q \<mapsto> j\<lparr>ep_random_pos := Some (int p)\<rparr>)) ma
    (rp[p := rp ! q, q := rp ! p]) idc"
proof -
  note d = roster_okD [OF r]
  have ne: "rp ! p \<noteq> rp ! q" using d(1) pq by (simp add: nth_eq_iff_index_eq)
  show ?thesis
  proof (rule roster_okI, goal_cases)
    case 1
    then show ?case using d(1) pq by (simp add: distinct_swap)
  next
    case 2
    then show ?case using d(2) pq i by (auto simp: set_swap)
  next
    case (4 m k)
    then show ?case using d(4) [of m k] d(4) [OF i(1)] d(4) [OF i(2)] by (simp split: if_splits)
  next
    case (5 m k)
    consider "m = rp ! p" | "m = rp ! q" | "m \<noteq> rp ! p" "m \<noteq> rp ! q" by blast
    then show ?case
    proof cases
      case 1
      then show ?thesis using 5 ne pq by (intro exI [of _ q]) auto
    next
      case 2
      then show ?thesis using 5 ne pq by (intro exI [of _ p]) auto
    next
      case 3
      then obtain a where "a < length rp" "rp ! a = m" "ep_random_pos k = Some (int a)" using 5 d(5) [of m k] by auto
      then show ?thesis using 3 by (intro exI [of _ a]) (cases "a = p"; cases "a = q"; auto)
    qed
  next
    case (6 m k)
    then show ?case using d(6) [of m k] d(6) [OF i(1)] d(6) [OF i(2)] by (auto split: if_splits)
  next
    case (7 h m)
    then show ?case using d(7) [of h m] i by (cases "m = rp ! p"; cases "m = rp ! q") auto
  qed (use d(3) in simp)
qed

lemma roster_drop:
  assumes r: "roster_ok mi ma (rp @ [n]) idc" and n: "mi n = Some i"
  shows "roster_ok (mi(n := None)) (ma(pi_host (ep_peer_info i) := None)) rp idc"
proof -
  note d = roster_okD [OF r]
  show ?thesis
  proof (rule roster_okI, goal_cases)
    case 2
    then show ?case using d(1,2) by auto
  next
    case (4 m k)
    then show ?case using d(4) [of m k] by (simp split: if_splits)
  next
    case (5 m k)
    then have m: "m \<noteq> n" "mi m = Some k" by (auto split: if_splits)
    then obtain a where a: "a < length (rp @ [n])" "(rp @ [n]) ! a = m" "ep_random_pos k = Some (int a)" using d(5) [of m k] by auto
    then have "a < length rp" using m(1) by (cases "a = length rp") auto
    then show ?case using a by (auto simp: nth_append)
  next
    case (6 m k)
    then show ?case using d(6) [of m k] d(6) [OF n] by (auto split: if_splits)
  next
    case (7 h m)
    then show ?case using d(7) [of h m] n by (auto split: if_splits)
  qed (use d(1,3) in auto)
qed

lemma roster_create:
  assumes r: "roster_ok mi ma rp idc" and h: "ma (pi_host (ep_peer_info i)) = None" and i: "ep_random_pos i = Some (int (length rp))"
  shows "roster_ok (mi(idc + 1 \<mapsto> i)) (ma(pi_host (ep_peer_info i) \<mapsto> idc + 1)) (rp @ [idc + 1]) (idc + 1)"
proof -
  note d = roster_okD [OF r]
  have new: "mi (idc + 1) = None" using d(4) [of "idc + 1"] by (cases "mi (idc + 1)") auto
  show ?thesis
  proof (rule roster_okI, goal_cases)
    case (4 m k)
    then show ?case using d(3) d(4) [of m k] by (auto split: if_splits)
  next
    case (5 m k)
    show ?case
    proof (cases "m = idc + 1")
      case True
      then show ?thesis using 5 i by (intro exI [of _ "length rp"]) auto
    next
      case False
      then obtain a where "a < length rp" "rp ! a = m" "ep_random_pos k = Some (int a)" using 5 d(5) [of m k] by auto
      then show ?thesis by (intro exI [of _ a]) (auto simp: nth_append)
    qed
  next
    case (6 m k)
    then show ?case using d(6) [of m k] h by (auto split: if_splits)
  next
    case (7 a m)
    then show ?case using d(7) [of a m] new by (auto split: if_splits)
  qed (use d(1,2,3) new in auto)
qed

section \<open>The whole state\<close>

definition used_ok :: "address_manager \<Rightarrow> bool" where
  "used_ok s \<longleftrightarrow> am_used_new_matrix_positions s = {bp. am_new_matrix s bp \<noteq> -1} \<and>
     am_used_tried_matrix_positions s = {bp. am_tried_matrix s bp \<noteq> -1}"

definition am_inv :: "peer_lib \<Rightarrow> int set \<Rightarrow> int \<Rightarrow> address_manager \<Rightarrow> bool" where
  "am_inv L X dn s \<longleftrightarrow> tab_ok L X dn (tables_of s) \<and>
     roster_ok (dict_get (am_map_info s)) (dict_get (am_map_addr s)) (am_random_pos s) (am_id_count s) \<and> used_ok s"

definition coll_ok :: "peer_lib \<Rightarrow> address_manager \<Rightarrow> bool" where
  "coll_ok L s \<longleftrightarrow> distinct (am_tried_collisions s) \<and>
     (\<forall>n \<in> set (am_tried_collisions s). n \<le> am_id_count s \<and>
        (\<forall>i bp. dict_get (am_map_info s) n = Some i \<longrightarrow> tried_place L (am_key s) i bp \<longrightarrow> am_tried_matrix s bp \<noteq> -1))"

text \<open>What no operation changes, and that a place in the tried table stays occupied.\<close>

definition keeps :: "address_manager \<Rightarrow> address_manager \<Rightarrow> bool" where
  "keeps s s' \<longleftrightarrow> am_key s' = am_key s \<and> am_allow_private_subnets s' = am_allow_private_subnets s \<and>
     am_tried_collisions s' = am_tried_collisions s \<and> am_id_count s \<le> am_id_count s' \<and>
     (\<forall>bp. am_tried_matrix s bp \<noteq> -1 \<longrightarrow> am_tried_matrix s' bp \<noteq> -1) \<and>
     (\<forall>n i. n \<le> am_id_count s \<longrightarrow> dict_get (am_map_info s') n = Some i \<longrightarrow>
        (\<exists>j. dict_get (am_map_info s) n = Some j \<and> ep_peer_info j = ep_peer_info i))"

lemma keeps_refl [simp]: "keeps s s"
  by (simp add: keeps_def)

lemma keeps_trans:
  assumes "keeps s s'" "keeps s' s''"
  shows "keeps s s''"
proof -
  have "\<exists>j. dict_get (am_map_info s) n = Some j \<and> ep_peer_info j = ep_peer_info i"
    if n: "n \<le> am_id_count s" and i: "dict_get (am_map_info s'') n = Some i" for n i
  proof -
    have "n \<le> am_id_count s'" using assms(1) n by (simp add: keeps_def)
    then obtain k where "dict_get (am_map_info s') n = Some k" "ep_peer_info k = ep_peer_info i"
      using assms(2) i unfolding keeps_def by blast
    then show ?thesis using assms(1) n unfolding keeps_def by metis
  qed
  moreover have "am_id_count s \<le> am_id_count s''" using assms unfolding keeps_def by linarith
  moreover have "am_tried_matrix s'' bp \<noteq> -1" if "am_tried_matrix s bp \<noteq> -1" for bp
    using assms that unfolding keeps_def by blast
  ultimately show ?thesis using assms by (simp add: keeps_def)
qed

lemma coll_keeps:
  assumes c: "coll_ok L s" and k: "keeps s s'"
  shows "coll_ok L s'"
proof -
  have "am_tried_matrix s' bp \<noteq> -1"
    if n: "n \<in> set (am_tried_collisions s)" and i: "dict_get (am_map_info s') n = Some i" and bp: "tried_place L (am_key s) i bp"
    for n i bp
  proof -
    obtain j where "dict_get (am_map_info s) n = Some j" "ep_peer_info j = ep_peer_info i"
      using c k n i unfolding coll_ok_def keeps_def by blast
    then have "am_tried_matrix s bp \<noteq> -1" using c n bp same_places(2) [of i j L "am_key s"] unfolding coll_ok_def by auto
    then show ?thesis using k unfolding keeps_def by blast
  qed
  then show ?thesis using c k unfolding coll_ok_def keeps_def by fastforce
qed

lemma dict_get_fun:
  "dict_get (dict_set d k v) = (dict_get d)(k \<mapsto> v)" "dict_get (dict_pop d k) = (dict_get d)(k := None)"
  by (simp_all add: fun_eq_iff dict_get_set dict_get_pop)

lemma getitem_Some: "dict_get d k = Some v \<Longrightarrow> dict_getitem d k = Inr v"
  by (simp add: dict_getitem_def)

lemma del_Some: "dict_get d k = Some v \<Longrightarrow> dict_del d k = Inr (dict_pop d k)"
  by (simp add: dict_del_def dict_mem_def)

lemma tables_sel [simp]:
  "tb_mi (tables_of s) = dict_get (am_map_info s)" "tb_nm (tables_of s) = am_new_matrix s" "tb_tm (tables_of s) = am_tried_matrix s"
  "tb_key (tables_of s) = am_key s" "tb_nc (tables_of s) = am_new_count s" "tb_tc (tables_of s) = am_tried_count s"
  by (simp_all add: tables_of_def)

lemma modify_eq:
  "dict_get (am_map_info s) n = Some i \<Longrightarrow> modify_info s n f = Inr (s\<lparr>am_map_info := dict_set (am_map_info s) n (f i)\<rparr>)"
  by (simp add: modify_info_def getitem_Some)

lemma tables_modify:
  "tables_of (s\<lparr>am_map_info := dict_set (am_map_info s) n j\<rparr>) =
     (tables_of s)\<lparr>tb_mi := (tb_mi (tables_of s))(n \<mapsto> j)\<rparr>"
  by (simp add: tables_of_def dict_get_fun)

lemma keeps_modify:
  "dict_get (am_map_info s) n = Some i \<Longrightarrow> ep_peer_info j = ep_peer_info i \<Longrightarrow> keeps s (s\<lparr>am_map_info := dict_set (am_map_info s) n j\<rparr>)"
  by (simp add: keeps_def dict_get_fun)

lemma modify_inv:
  assumes inv: "am_inv L X dn s" and n: "dict_get (am_map_info s) n = Some i"
    and j: "same_entry i j" "info_ok L j" "ep_random_pos j = ep_random_pos i"
  shows "am_inv L X dn (s\<lparr>am_map_info := dict_set (am_map_info s) n j\<rparr>)"
proof -
  have t: "tab_ok L X dn (tables_of s)" and r: "roster_ok (dict_get (am_map_info s)) (dict_get (am_map_addr s)) (am_random_pos s) (am_id_count s)"
    and u: "used_ok s"
    using inv by (simp_all add: am_inv_def)
  have p: "ep_peer_info j = ep_peer_info i" using j(1) by (simp add: same_entry_def)
  show ?thesis
    using tab_modify [OF t _ j(1,2), of n] roster_modify [OF r n p j(3)] u n
    by (simp add: am_inv_def tables_modify dict_get_fun used_ok_def)
qed

text \<open>An entry stays, at another position of the list.\<close>

definition entry_kept :: "address_manager \<Rightarrow> address_manager \<Rightarrow> int \<Rightarrow> bool" where
  "entry_kept s s' n \<longleftrightarrow> (\<forall>i. dict_get (am_map_info s) n = Some i \<longrightarrow> (\<exists>k. dict_get (am_map_info s') n = Some (i\<lparr>ep_random_pos := k\<rparr>)))"

lemma entry_kept_refl: "entry_kept s s n"
proof -
  have "i\<lparr>ep_random_pos := ep_random_pos i\<rparr> = i" for i :: extended_peer_info by simp
  then show ?thesis unfolding entry_kept_def by metis
qed

definition same_tables :: "address_manager \<Rightarrow> address_manager \<Rightarrow> bool" where
  "same_tables s s' \<longleftrightarrow> am_new_matrix s' = am_new_matrix s \<and> am_tried_matrix s' = am_tried_matrix s"

lemma swap_random_inv:
  assumes inv: "am_inv L X dn s" and pq: "p < length (am_random_pos s)" "q < length (am_random_pos s)"
  shows "\<exists>s'. swap_random s (int p) (int q) = Inr s' \<and> am_inv L X dn s' \<and> keeps s s' \<and> same_tables s s' \<and>
    am_map_addr s' = am_map_addr s \<and> am_random_pos s' = (am_random_pos s)[p := am_random_pos s ! q, q := am_random_pos s ! p] \<and>
    (\<forall>n. entry_kept s s' n)"
proof (cases "p = q")
  case True
  then show ?thesis using inv by (intro exI [of _ s]) (simp add: swap_random_def same_tables_def entry_kept_refl)
next
  case False
  let ?rp = "am_random_pos s" and ?mi = "dict_get (am_map_info s)"
  have t: "tab_ok L X dn (tables_of s)" and r: "roster_ok ?mi (dict_get (am_map_addr s)) ?rp (am_id_count s)" and u: "used_ok s"
    using inv by (simp_all add: am_inv_def)
  have "?rp ! p \<in> set ?rp" "?rp ! q \<in> set ?rp" using pq by simp_all
  then obtain i j where i: "?mi (?rp ! p) = Some i" and j: "?mi (?rp ! q) = Some j" using roster_okD(2) [OF r] by auto
  have ne: "?rp ! p \<noteq> ?rp ! q" using roster_okD(1) [OF r] pq False by (simp add: nth_eq_iff_index_eq)
  let ?i = "i\<lparr>ep_random_pos := Some (int q)\<rparr>" and ?j = "j\<lparr>ep_random_pos := Some (int p)\<rparr>"
  let ?m = "dict_set (dict_set (am_map_info s) (?rp ! p) ?i) (?rp ! q) ?j"
  let ?s = "s\<lparr>am_map_info := ?m, am_random_pos := ?rp[p := ?rp ! q, q := ?rp ! p]\<rparr>"
  have "swap_random s (int p) (int q) = Inr ?s"
    using False pq i j ne by (simp add: swap_random_def py_index_def modify_eq dict_get_fun)
  moreover have "am_inv L X dn ?s"
  proof -
    have ok: "info_ok L ?i" "info_ok L ?j" using tab_okD(3) [OF t, of "?rp ! p" i] tab_okD(3) [OF t, of "?rp ! q" j] i j by (simp_all add: info_ok_def)
    have t1: "tab_ok L X dn ((tables_of s)\<lparr>tb_mi := ?mi(?rp ! p \<mapsto> ?i)\<rparr>)"
      using tab_modify [OF t, of "?rp ! p" i ?i] i ok by (simp add: same_entry_def)
    have "tab_ok L X dn ((tables_of s)\<lparr>tb_mi := ?mi(?rp ! p \<mapsto> ?i, ?rp ! q \<mapsto> ?j)\<rparr>)"
      using tab_modify [OF t1, of "?rp ! q" j ?j] j ok ne by (simp add: same_entry_def)
    then show ?thesis using roster_swap [OF r pq False i j] u by (simp add: am_inv_def used_ok_def dict_get_fun tables_of_def)
  qed
  moreover have "keeps s ?s" using i j by (simp add: keeps_def dict_get_fun)
  moreover have "entry_kept s ?s n" for n
    using entry_kept_refl [of s n] i j ne unfolding entry_kept_def
    by (cases "n = ?rp ! p"; cases "n = ?rp ! q") (auto simp: dict_get_fun intro: exI [of _ "Some (int q)"] exI [of _ "Some (int p)"])
  ultimately show ?thesis by (intro exI [of _ ?s]) (simp add: same_tables_def)
qed

lemma delete_inv:
  assumes inv: "am_inv L X dn s" and n: "dict_get (am_map_info s) n = Some i" and fresh: "\<not> ep_is_tried i"
    and none: "refs (am_new_matrix s) n = {}"
  shows "\<exists>s'. delete_new_entry s n = Inr s' \<and> am_inv L (X - {n}) dn s' \<and> keeps s s' \<and> same_tables s s' \<and> (\<forall>m. m \<noteq> n \<longrightarrow> entry_kept s s' m)"
proof -
  let ?rp = "am_random_pos s" and ?h = "pi_host (ep_peer_info i)"
  have r: "roster_ok (dict_get (am_map_info s)) (dict_get (am_map_addr s)) ?rp (am_id_count s)" using inv by (simp add: am_inv_def)
  obtain k where k: "k < length ?rp" "?rp ! k = n" "ep_random_pos i = Some (int k)" using roster_okD(5) [OF r n] by blast
  let ?q = "length ?rp - 1"
  have q: "?q < length ?rp" using k by simp
  obtain s1 where s1: "swap_random s (int k) (int ?q) = Inr s1" "am_inv L X dn s1" "keeps s s1" "same_tables s s1"
    "am_map_addr s1 = am_map_addr s" "am_random_pos s1 = ?rp[k := ?rp ! ?q, ?q := ?rp ! k]" "\<forall>m. entry_kept s s1 m"
    using swap_random_inv [OF inv k(1) q] by blast
  obtain a where n1: "dict_get (am_map_info s1) n = Some (i\<lparr>ep_random_pos := a\<rparr>)" using s1(7) n unfolding entry_kept_def by blast
  have ma: "dict_get (am_map_addr s1) ?h = Some n" using roster_okD(6) [OF r n] s1(5) by simp
  let ?s = "s1\<lparr>am_random_pos := butlast (am_random_pos s1), am_map_addr := dict_pop (am_map_addr s1) ?h,
    am_map_info := dict_pop (am_map_info s1) n, am_new_count := am_new_count s1 - 1\<rparr>"
  have "delete_new_entry s n = Inr ?s"
    using n k s1(1) n1 ma q by (simp add: delete_new_entry_def getitem_Some del_Some of_nat_diff)
  moreover have "am_inv L (X - {n}) dn ?s"
  proof -
    have t1: "tab_ok L X dn (tables_of s1)" and u1: "used_ok s1" and r1: "roster_ok (dict_get (am_map_info s1)) (dict_get (am_map_addr s1)) (am_random_pos s1) (am_id_count s1)"
      using s1(2) by (simp_all add: am_inv_def)
    have "am_random_pos s1 \<noteq> []" "am_random_pos s1 ! ?q = n" "length (am_random_pos s1) = length ?rp" using s1(6) k by auto
    then have last: "am_random_pos s1 = butlast (am_random_pos s1) @ [n]" by (metis append_butlast_last_id last_conv_nth)
    have none1: "refs (am_new_matrix s1) n = {}" using none s1(4) by (simp add: same_tables_def)
    have "roster_ok ((dict_get (am_map_info s1))(n := None)) ((dict_get (am_map_addr s1))(?h := None)) (butlast (am_random_pos s1)) (am_id_count s1)"
      using roster_drop [of "dict_get (am_map_info s1)" "dict_get (am_map_addr s1)" "butlast (am_random_pos s1)" n "am_id_count s1"] r1 last n1
      by (metis extended_peer_info.simps(1) extended_peer_info.update_convs(4) extended_peer_info.surjective)
    moreover have "tab_ok L (X - {n}) dn (tables_of ?s)"
      using tab_delete [OF t1, of n] n1 fresh none1 by (simp add: tables_of_def dict_get_fun)
    ultimately show ?thesis using u1 by (simp add: am_inv_def used_ok_def dict_get_fun)
  qed
  moreover have "keeps s ?s" by (rule keeps_trans [OF s1(3)]) (simp add: keeps_def dict_get_fun)
  moreover have "entry_kept s ?s m" if "m \<noteq> n" for m using s1(7) that by (simp add: entry_kept_def dict_get_fun)
  moreover have "same_tables s ?s" using s1(4) by (simp add: same_tables_def)
  ultimately show ?thesis by blast
qed

text \<open>The place \<open>bp\<close> of the entry \<open>i\<close> is left.\<close>

abbreviation left_place :: "address_manager \<Rightarrow> int \<times> int \<Rightarrow> int \<Rightarrow> extended_peer_info \<Rightarrow> address_manager" where
  "left_place s bp n i \<equiv>
     set_new_matrix (s\<lparr>am_map_info := dict_set (am_map_info s) n (i\<lparr>ep_ref_count := ep_ref_count i - 1\<rparr>)\<rparr>) (fst bp) (snd bp) (-1)"

lemma leave_inv:
  assumes inv: "am_inv L X dn s" and bp: "am_new_matrix s bp = n" and n: "dict_get (am_map_info s) n = Some i"
  shows "am_inv L (insert n X) dn (left_place s bp n i)" "keeps s (left_place s bp n i)" "\<not> ep_is_tried i" "ep_ref_count i > 0"
    "ep_ref_count i - 1 = int (card (refs ((am_new_matrix s)(bp := -1)) n))"
    "m \<noteq> n \<Longrightarrow> entry_kept s (left_place s bp n i) m"
proof -
  have t: "tab_ok L X dn (tables_of s)" and r: "roster_ok (dict_get (am_map_info s)) (dict_get (am_map_addr s)) (am_random_pos s) (am_id_count s)"
    and u: "used_ok s"
    using inv by (simp_all add: am_inv_def)
  note l = tab_leave [OF t, of bp n i, simplified, OF bp n]
  have "roster_ok ((dict_get (am_map_info s))(n \<mapsto> i\<lparr>ep_ref_count := ep_ref_count i - 1\<rparr>)) (dict_get (am_map_addr s)) (am_random_pos s) (am_id_count s)"
    by (rule roster_modify [OF r n]) simp_all
  then show "am_inv L (insert n X) dn (left_place s bp n i)"
    using l(1) u by (simp add: am_inv_def set_new_matrix_def used_ok_def dict_get_fun tables_of_def) blast
  show "keeps s (left_place s bp n i)" using n by (simp add: keeps_def set_new_matrix_def dict_get_fun)
  show "\<not> ep_is_tried i" "ep_ref_count i > 0" "ep_ref_count i - 1 = int (card (refs ((am_new_matrix s)(bp := -1)) n))"
    using l(3-5) by simp_all
  show "m \<noteq> n \<Longrightarrow> entry_kept s (left_place s bp n i) m"
    using entry_kept_refl [of s m] by (simp add: entry_kept_def set_new_matrix_def dict_get_fun)
qed

lemma inv_settle:
  assumes "am_inv L X dn s" "\<And>i. dict_get (am_map_info s) n = Some i \<Longrightarrow> \<not> ep_is_tried i \<Longrightarrow> refs (am_new_matrix s) n \<noteq> {}"
  shows "am_inv L (X - {n}) dn s"
  using assms tab_settle [of L X dn "tables_of s" n] by (simp add: am_inv_def)

lemma inv_weaken: "am_inv L X dn s \<Longrightarrow> X \<subseteq> Y \<Longrightarrow> am_inv L Y dn s"
  using tab_weaken by (auto simp: am_inv_def)

lemma new_owner:
  assumes "am_inv L X dn s" "am_new_matrix s bp \<noteq> -1"
  shows "\<exists>i. dict_get (am_map_info s) (am_new_matrix s bp) = Some i \<and> \<not> ep_is_tried i \<and> new_place L (am_key s) i bp"
  using assms tab_okD(6) [of L X dn "tables_of s" bp] by (simp add: am_inv_def)

lemma entry_kept_trans: "entry_kept s s1 n \<Longrightarrow> entry_kept s1 s2 n \<Longrightarrow> entry_kept s s2 n"
  unfolding entry_kept_def by fastforce

lemma clear_inv:
  assumes inv: "am_inv L X dn s"
  shows "\<exists>s'. clear_new s b p = Inr s' \<and> am_inv L X dn s' \<and> keeps s s' \<and> am_new_matrix s' = (am_new_matrix s)((b, p) := -1) \<and>
    am_tried_matrix s' = am_tried_matrix s \<and> (\<forall>m. m \<noteq> am_new_matrix s (b, p) \<longrightarrow> entry_kept s s' m)"
proof (cases "am_new_matrix s (b, p) = -1")
  case True
  then have "(am_new_matrix s)((b, p) := -1) = am_new_matrix s" by (metis fun_upd_triv)
  then show ?thesis using True inv by (simp add: clear_new_def entry_kept_refl)
next
  case False
  let ?n = "am_new_matrix s (b, p)"
  obtain i where n: "dict_get (am_map_info s) ?n = Some i" using new_owner [OF inv False] by blast
  note l = leave_inv [OF inv refl n]
  let ?s = "left_place s (b, p) ?n i"
  have nm: "am_new_matrix ?s = (am_new_matrix s)((b, p) := -1)" "am_tried_matrix ?s = am_tried_matrix s"
    "dict_get (am_map_info ?s) ?n = Some (i\<lparr>ep_ref_count := ep_ref_count i - 1\<rparr>)"
    by (simp_all add: set_new_matrix_def dict_get_fun)
  have clear: "clear_new s b p = (if ep_ref_count i - 1 = 0 then delete_new_entry ?s ?n else Inr ?s)"
    using False n l(4) by (simp add: clear_new_def Let_def getitem_Some modify_eq)
  show ?thesis
  proof (cases "ep_ref_count i - 1 = 0")
    case True
    have "finite (refs (am_new_matrix ?s) ?n)"
      using finite_refs [of L "insert ?n X" dn "tables_of ?s"] l(1) False by (simp add: am_inv_def)
    then have "refs (am_new_matrix ?s) ?n = {}" using l(5) True nm(1) by simp
    then obtain s' where s': "delete_new_entry ?s ?n = Inr s'" "am_inv L (insert ?n X - {?n}) dn s'" "keeps ?s s'" "same_tables ?s s'"
      "\<forall>m. m \<noteq> ?n \<longrightarrow> entry_kept ?s s' m"
      using delete_inv [OF l(1) nm(3)] l(3) by auto
    have "am_inv L X dn s'" using s'(2) by (rule inv_weaken) blast
    moreover have "keeps s s'" using keeps_trans l(2) s'(3) by blast
    moreover have "entry_kept s s' m" if "m \<noteq> ?n" for m using entry_kept_trans [OF l(6)] s'(5) that by blast
    ultimately show ?thesis using s'(1,4) clear True nm by (auto simp: same_tables_def)
  next
    case False
    then have "refs (am_new_matrix ?s) ?n \<noteq> {}" using l(5) nm(1) by auto
    then have "am_inv L (insert ?n X - {?n}) dn ?s" using inv_settle [OF l(1)] by blast
    then have "am_inv L X dn ?s" by (rule inv_weaken) blast
    then show ?thesis using False clear l(2,6) nm by (intro exI [of _ ?s]) auto
  qed
qed

section \<open>Moving between the tables\<close>

text \<open>\<open>leaving\<close>: the entry \<open>n\<close> of the peer \<open>p\<close> on its way out of the new table.\<close>

definition leaving :: "peer_lib \<Rightarrow> int set \<Rightarrow> int \<Rightarrow> int \<Rightarrow> peer_info \<Rightarrow> address_manager \<Rightarrow> bool" where
  "leaving L X dn n p s \<longleftrightarrow> am_inv L (insert n X) dn s \<and> (\<exists>i. dict_get (am_map_info s) n = Some i \<and> ep_peer_info i = p \<and> \<not> ep_is_tried i)"

lemma inv_position:
  assumes "am_inv L X dn s" "dict_get (am_map_info s) n = Some i" "ep_peer_info i = ep_peer_info info" "0 \<le> b" "b < NEW_BUCKET_COUNT"
  shows "\<exists>p. get_bucket_position L (am_key s) info is_new b = Inr p \<and> 0 \<le> p \<and> p < BUCKET_SIZE"
proof -
  have "key_ok (am_key s)" "info_ok L i" using assms(1,2) tab_okD(1,3) [of L X dn "tables_of s"] by (auto simp: am_inv_def)
  then show ?thesis using position_total [of "am_key s" L i b is_new] assms(3-5) buckets_of_peer(2) [of info i]
    by (simp add: NEW_BUCKET_COUNT_def)
qed

lemma leave_step:
  assumes lv: "leaving L X dn n (ep_peer_info info) s" and b: "0 \<le> b" "b < NEW_BUCKET_COUNT"
  shows "\<exists>s'. leave_bucket L info n s b = Inr s' \<and> leaving L X dn n (ep_peer_info info) s' \<and> keeps s s' \<and>
    am_tried_matrix s' = am_tried_matrix s \<and> (\<forall>p. am_new_matrix s' (b, p) \<noteq> n) \<and>
    (\<forall>q. am_new_matrix s' q = n \<longrightarrow> am_new_matrix s q = n)"
proof -
  have inv: "am_inv L (insert n X) dn s" using lv by (simp add: leaving_def)
  obtain i where i: "dict_get (am_map_info s) n = Some i" "ep_peer_info i = ep_peer_info info" "\<not> ep_is_tried i"
    using lv by (auto simp: leaving_def)
  obtain pos where pos: "get_bucket_position L (am_key s) info True b = Inr pos" using inv_position [OF inv i(1,2) b] by blast
  have n1: "n \<noteq> -1" using inv i(1) tab_okD(3) [of L "insert n X" dn "tables_of s" n i] by (simp add: am_inv_def)
  have only: "p = pos" if "am_new_matrix s (b, p) = n" for p
    using new_owner [OF inv, of "(b, p)"] that i(1,2) n1 pos buckets_of_peer(2) [of info i L "am_key s"] by (auto simp: new_place_def)
  show ?thesis
  proof (cases "am_new_matrix s (b, pos) = n")
    case True
    note l = leave_inv [OF inv True i(1)]
    let ?s = "left_place s (b, pos) n i"
    have "leave_bucket L info n s b = Inr ?s"
      using pos True i(1) by (simp add: leave_bucket_def modify_eq set_new_matrix_def)
    moreover have "leaving L X dn n (ep_peer_info info) ?s" using l(1) i by (simp add: leaving_def set_new_matrix_def dict_get_fun)
    moreover have "am_new_matrix ?s = (am_new_matrix s)((b, pos) := -1)" "am_tried_matrix ?s = am_tried_matrix s"
      by (simp_all add: set_new_matrix_def)
    ultimately show ?thesis using l(2) only n1 by (intro exI [of _ ?s]) auto
  next
    case False
    then show ?thesis using lv pos only by (intro exI [of _ s]) (auto simp: leave_bucket_def)
  qed
qed

lemma leave_loop:
  assumes "leaving L X dn n (ep_peer_info info) s" "\<forall>b \<in> set bs. 0 \<le> b \<and> b < NEW_BUCKET_COUNT"
  shows "\<exists>s'. rfold (leave_bucket L info n) s bs = Inr s' \<and> leaving L X dn n (ep_peer_info info) s' \<and> keeps s s' \<and>
    am_tried_matrix s' = am_tried_matrix s \<and> (\<forall>b \<in> set bs. \<forall>p. am_new_matrix s' (b, p) \<noteq> n) \<and>
    (\<forall>q. am_new_matrix s' q = n \<longrightarrow> am_new_matrix s q = n)"
  using assms
proof (induction bs arbitrary: s)
  case Nil
  then show ?case by simp
next
  case (Cons b bs)
  obtain s1 where s1: "leave_bucket L info n s b = Inr s1" "leaving L X dn n (ep_peer_info info) s1" "keeps s s1"
    "am_tried_matrix s1 = am_tried_matrix s" "\<forall>p. am_new_matrix s1 (b, p) \<noteq> n" "\<forall>q. am_new_matrix s1 q = n \<longrightarrow> am_new_matrix s q = n"
    using leave_step [OF Cons.prems(1), of b] Cons.prems(2) by auto
  obtain s2 where s2: "rfold (leave_bucket L info n) s1 bs = Inr s2" "leaving L X dn n (ep_peer_info info) s2" "keeps s1 s2"
    "am_tried_matrix s2 = am_tried_matrix s1" "\<forall>b \<in> set bs. \<forall>p. am_new_matrix s2 (b, p) \<noteq> n"
    "\<forall>q. am_new_matrix s2 q = n \<longrightarrow> am_new_matrix s1 q = n"
    using Cons.IH [OF s1(2)] Cons.prems(2) by auto
  have "keeps s s2" using keeps_trans s1(3) s2(3) by blast
  then show ?case using s1 s2 by (intro exI [of _ s2]) auto
qed

lemma leave_all:
  assumes "leaving L X dn n (ep_peer_info info) s"
  shows "\<exists>s' i. rfold (leave_bucket L info n) s [0..NEW_BUCKET_COUNT - 1] = Inr s' \<and> am_inv L (insert n X) dn s' \<and> keeps s s' \<and>
    am_tried_matrix s' = am_tried_matrix s \<and> dict_get (am_map_info s') n = Some i \<and> ep_peer_info i = ep_peer_info info \<and>
    \<not> ep_is_tried i \<and> ep_ref_count i = 0 \<and> refs (am_new_matrix s') n = {}"
proof -
  obtain s' where s': "rfold (leave_bucket L info n) s [0..NEW_BUCKET_COUNT - 1] = Inr s'" "leaving L X dn n (ep_peer_info info) s'" "keeps s s'"
    "am_tried_matrix s' = am_tried_matrix s" "\<forall>b \<in> set [0..NEW_BUCKET_COUNT - 1]. \<forall>p. am_new_matrix s' (b, p) \<noteq> n"
    using leave_loop [OF assms, of "[0..NEW_BUCKET_COUNT - 1]"] by auto
  obtain i where i: "dict_get (am_map_info s') n = Some i" "ep_peer_info i = ep_peer_info info" "\<not> ep_is_tried i"
    using s'(2) by (auto simp: leaving_def)
  have inv: "am_inv L (insert n X) dn s'" and t: "tab_ok L (insert n X) dn (tables_of s')" using s'(2) by (simp_all add: leaving_def am_inv_def)
  have "n \<noteq> -1" using tab_okD(3) [OF t, of n i] i(1) by simp
  have "am_new_matrix s' bp \<noteq> n" for bp
    using new_owner [OF inv, of bp] s'(5) \<open>n \<noteq> -1\<close> by (cases bp) (force simp: new_place_def)
  then have none: "refs (am_new_matrix s') n = {}" unfolding refs_def by blast
  then have "ep_ref_count i = 0" using tab_okD(5) [OF t, of n i] i by simp
  then show ?thesis using s' i inv none by blast
qed

abbreviation joined :: "address_manager \<Rightarrow> int \<times> int \<Rightarrow> int \<Rightarrow> extended_peer_info \<Rightarrow> address_manager" where
  "joined s bp n i \<equiv>
     set_new_matrix (s\<lparr>am_map_info := dict_set (am_map_info s) n (i\<lparr>ep_ref_count := ep_ref_count i + 1\<rparr>)\<rparr>) (fst bp) (snd bp) n"

lemma join_inv:
  assumes inv: "am_inv L X dn s" and bp: "am_new_matrix s bp = -1" and n: "dict_get (am_map_info s) n = Some i"
    and fresh: "\<not> ep_is_tried i" and place: "new_place L (am_key s) i bp"
  shows "am_inv L (X - {n}) dn (joined s bp n i)" "keeps s (joined s bp n i)"
proof -
  have t: "tab_ok L X dn (tables_of s)" and r: "roster_ok (dict_get (am_map_info s)) (dict_get (am_map_addr s)) (am_random_pos s) (am_id_count s)"
    and u: "used_ok s"
    using inv by (simp_all add: am_inv_def)
  have n1: "n \<noteq> -1" using tab_okD(3) [OF t, of n i] n by simp
  have "roster_ok ((dict_get (am_map_info s))(n \<mapsto> i\<lparr>ep_ref_count := ep_ref_count i + 1\<rparr>)) (dict_get (am_map_addr s)) (am_random_pos s) (am_id_count s)"
    by (rule roster_modify [OF r n]) simp_all
  then show "am_inv L (X - {n}) dn (joined s bp n i)"
    using tab_join [OF t, of bp n i, simplified, OF bp n fresh place] u n1
    by (simp add: am_inv_def set_new_matrix_def used_ok_def dict_get_fun tables_of_def) blast
  show "keeps s (joined s bp n i)" using n by (simp add: keeps_def set_new_matrix_def dict_get_fun)
qed

lemma inv_count: "am_inv L X dn s \<Longrightarrow> am_inv L X (dn - k) (s\<lparr>am_new_count := am_new_count s + k\<rparr>)"
  using tab_count [of L X dn "tables_of s" k] by (simp add: am_inv_def tables_of_def used_ok_def)

lemma keeps_count [simp]: "keeps s (s'\<lparr>am_new_count := c\<rparr>) = keeps s s'"
  by (simp add: keeps_def)

lemma inv_new_place:
  assumes inv: "am_inv L X dn s" and n: "dict_get (am_map_info s) n = Some i" and q: "\<forall>q. source = Some q \<longrightarrow> (\<exists>g. get_group L q = Inr g)"
  shows "\<exists>b p. get_new_bucket L (am_key s) i source = Inr b \<and> get_bucket_position L (am_key s) i True b = Inr p \<and> new_place L (am_key s) i (b, p)"
proof -
  have ok: "key_ok (am_key s)" "info_ok L i" using inv n tab_okD(1,3) [of L X dn "tables_of s"] by (auto simp: am_inv_def)
  obtain b where b: "get_new_bucket L (am_key s) i source = Inr b" "0 \<le> b" "b < NEW_BUCKET_COUNT" using new_bucket_total [OF ok q] by blast
  obtain p where "get_bucket_position L (am_key s) i True b = Inr p" "0 \<le> p" "p < BUCKET_SIZE"
    using inv_position [OF inv n refl b(2,3), of True] by blast
  then show ?thesis using b by (auto simp: new_place_def)
qed

lemma inv_tried_place:
  assumes inv: "am_inv L X dn s" and n: "dict_get (am_map_info s) n = Some i" "ep_peer_info i = ep_peer_info info"
  shows "\<exists>b p. get_tried_bucket L (am_key s) info = Inr b \<and> get_bucket_position L (am_key s) info False b = Inr p \<and> tried_place L (am_key s) i (b, p)"
proof -
  have ok: "key_ok (am_key s)" "info_ok L i" using inv n tab_okD(1,3) [of L X dn "tables_of s"] by (auto simp: am_inv_def)
  obtain b where b: "get_tried_bucket L (am_key s) i = Inr b" "0 \<le> b" "b < TRIED_BUCKET_COUNT" using tried_bucket_total [OF ok] by blast
  then obtain p where "get_bucket_position L (am_key s) i False b = Inr p"
    using inv_position [OF inv n(1) refl, of b False] by (auto simp: TRIED_BUCKET_COUNT_def NEW_BUCKET_COUNT_def)
  then show ?thesis using b buckets_of_peer [OF n(2), of L "am_key s"] by (auto simp: tried_place_def)
qed

lemma untry_inv:
  assumes inv: "am_inv L X dn s" and e: "am_tried_matrix s (b, p) = e" "e \<noteq> -1"
  shows "\<exists>i. dict_get (am_map_info s) e = Some i \<and> refs (am_new_matrix s) e = {} \<and>
    am_inv L (insert e X) (dn + 1)
      ((set_tried_matrix (s\<lparr>am_map_info := dict_set (am_map_info s) e (i\<lparr>ep_is_tried := False\<rparr>)\<rparr>) b p (-1))
         \<lparr>am_tried_count := am_tried_count s - 1\<rparr>)"
proof -
  have t: "tab_ok L X dn (tables_of s)" and r: "roster_ok (dict_get (am_map_info s)) (dict_get (am_map_addr s)) (am_random_pos s) (am_id_count s)"
    and u: "used_ok s"
    using inv by (simp_all add: am_inv_def)
  obtain i where i: "dict_get (am_map_info s) e = Some i" "refs (am_new_matrix s) e = {}"
    "tab_ok L (insert e X) (dn + 1) ((tables_of s)\<lparr>tb_mi := (dict_get (am_map_info s))(e \<mapsto> i\<lparr>ep_is_tried := False\<rparr>),
       tb_tm := (am_tried_matrix s)((b, p) := -1), tb_tc := am_tried_count s - 1\<rparr>)"
    using tab_untry [OF t, of "(b, p)" e] e by auto
  have "roster_ok ((dict_get (am_map_info s))(e \<mapsto> i\<lparr>ep_is_tried := False\<rparr>)) (dict_get (am_map_addr s)) (am_random_pos s) (am_id_count s)"
    by (rule roster_modify [OF r i(1)]) simp_all
  then show ?thesis
    using i u by (intro exI [of _ i]) (auto simp: am_inv_def set_tried_matrix_def used_ok_def dict_get_fun tables_of_def)
qed

lemma evict_inv:
  assumes inv: "am_inv L X dn s"
  shows "\<exists>s'. evict_tried L s b p = Inr s' \<and> am_inv L X dn s' \<and> keeps s (s'\<lparr>am_tried_matrix := am_tried_matrix s\<rparr>) \<and>
    am_tried_matrix s' = (am_tried_matrix s)((b, p) := -1) \<and>
    (\<forall>m. m \<noteq> am_tried_matrix s (b, p) \<longrightarrow> refs (am_new_matrix s) m = {} \<longrightarrow> entry_kept s s' m \<and> refs (am_new_matrix s') m = {})"
proof (cases "am_tried_matrix s (b, p) = -1")
  case True
  then have "(am_tried_matrix s)((b, p) := -1) = am_tried_matrix s" by (metis fun_upd_triv)
  then show ?thesis using True inv by (simp add: evict_tried_def entry_kept_refl)
next
  case False
  let ?e = "am_tried_matrix s (b, p)"
  obtain i where i: "dict_get (am_map_info s) ?e = Some i" "refs (am_new_matrix s) ?e = {}"
    and inv2: "am_inv L (insert ?e X) (dn + 1)
      ((set_tried_matrix (s\<lparr>am_map_info := dict_set (am_map_info s) ?e (i\<lparr>ep_is_tried := False\<rparr>)\<rparr>) b p (-1))
         \<lparr>am_tried_count := am_tried_count s - 1\<rparr>)"
    using untry_inv [OF inv refl False] by blast
  let ?i = "i\<lparr>ep_is_tried := False\<rparr>"
  let ?s2 = "(set_tried_matrix (s\<lparr>am_map_info := dict_set (am_map_info s) ?e ?i\<rparr>) b p (-1))\<lparr>am_tried_count := am_tried_count s - 1\<rparr>"
  have s2: "dict_get (am_map_info ?s2) = (dict_get (am_map_info s))(?e \<mapsto> ?i)" "am_new_matrix ?s2 = am_new_matrix s"
    "am_tried_matrix ?s2 = (am_tried_matrix s)((b, p) := -1)" "am_key ?s2 = am_key s"
    by (simp_all add: set_tried_matrix_def dict_get_fun)
  obtain nb np where place: "get_new_bucket L (am_key s) ?i None = Inr nb" "get_bucket_position L (am_key s) ?i True nb = Inr np"
    "new_place L (am_key s) ?i (nb, np)"
    using inv_new_place [OF inv2, of ?e ?i None] s2 by auto
  obtain s3 where s3: "clear_new ?s2 nb np = Inr s3" "am_inv L (insert ?e X) (dn + 1) s3" "keeps ?s2 s3"
    "am_new_matrix s3 = (am_new_matrix s)((nb, np) := -1)" "am_tried_matrix s3 = (am_tried_matrix s)((b, p) := -1)"
    "\<forall>m. m \<noteq> am_new_matrix s (nb, np) \<longrightarrow> entry_kept ?s2 s3 m"
    using clear_inv [OF inv2, of nb np] unfolding s2 by blast
  have ne: "m \<noteq> am_new_matrix s (nb, np)" if "refs (am_new_matrix s) m = {}" for m using that unfolding refs_def by blast
  obtain k where k: "dict_get (am_map_info s3) ?e = Some (?i\<lparr>ep_random_pos := k\<rparr>)"
    using s3(6) ne [OF i(2)] s2(1) unfolding entry_kept_def by fastforce
  let ?k = "?i\<lparr>ep_random_pos := k\<rparr>"
  have key3: "am_key s3 = am_key s" using s3(3) s2(4) by (simp add: keeps_def)
  have none3: "refs (am_new_matrix s3) ?e = {}" using i(2) False s3(4) by (auto simp: refs_def)
  have rc: "ep_ref_count i = 0" using tab_okD(5) [of L "insert ?e X" "dn + 1" "tables_of s3" ?e ?k] s3(2) k none3 by (simp add: am_inv_def)
  have place3: "new_place L (am_key s3) ?k (nb, np)" using place(3) same_places(1) [of ?k ?i] key3 by simp
  note j = join_inv [OF s3(2), of "(nb, np)" ?e ?k, OF _ k _ place3]
  let ?s4 = "joined s3 (nb, np) ?e ?k"
  have j1: "am_inv L (insert ?e X - {?e}) (dn + 1) ?s4" "keeps s3 ?s4" using j s3(4) by simp_all
  let ?s5 = "?s4\<lparr>am_new_count := am_new_count ?s4 + 1\<rparr>"
  have nc: "am_new_count ?s4 = am_new_count s3" by (simp add: set_new_matrix_def)
  have "evict_tried L s b p = Inr ?s5"
    using False i(1) place s3(1) k rc
    by (simp add: evict_tried_def Let_def dict_mem_def modify_eq s2 getitem_Some set_tried_matrix_def dict_get_fun set_new_matrix_def)
  moreover have "am_inv L X dn ?s5"
    using inv_weaken [OF inv_count [OF j1(1), of 1], of X] by auto
  moreover have "am_tried_matrix ?s5 = (am_tried_matrix s)((b, p) := -1)" using s3(5) by (simp add: set_new_matrix_def)
  moreover have "keeps s (?s5\<lparr>am_tried_matrix := am_tried_matrix s\<rparr>)"
  proof -
    have "keeps s (?s2\<lparr>am_tried_matrix := am_tried_matrix s\<rparr>)" using i(1) by (simp add: keeps_def set_tried_matrix_def dict_get_fun)
    moreover have "keeps (?s2\<lparr>am_tried_matrix := am_tried_matrix s\<rparr>) (?s5\<lparr>am_tried_matrix := am_tried_matrix s\<rparr>)"
      using keeps_trans [OF s3(3) j1(2)] by (simp add: keeps_def)
    ultimately show ?thesis by (rule keeps_trans)
  qed
  moreover have "entry_kept s ?s5 m \<and> refs (am_new_matrix ?s5) m = {}" if m: "m \<noteq> ?e" "refs (am_new_matrix s) m = {}" for m
  proof -
    have "entry_kept ?s2 s3 m" using s3(6) ne [OF m(2)] by blast
    then have "entry_kept s ?s5 m" using m(1) by (simp add: entry_kept_def set_tried_matrix_def set_new_matrix_def dict_get_fun)
    moreover have "refs (am_new_matrix ?s5) m = {}" using m s3(4) by (auto simp: refs_def set_new_matrix_def)
    ultimately show ?thesis by blast
  qed
  ultimately show ?thesis by blast
qed

lemma keeps_tried:
  "keeps s (s'\<lparr>am_tried_matrix := f\<rparr>) \<Longrightarrow> (\<And>bp. am_tried_matrix s bp \<noteq> -1 \<Longrightarrow> am_tried_matrix s' bp \<noteq> -1) \<Longrightarrow> keeps s s'"
  by (simp add: keeps_def)

lemma try_inv:
  assumes inv: "am_inv L X dn s" and bp: "am_tried_matrix s (b, p) = -1" and n: "dict_get (am_map_info s) n = Some i"
    and fresh: "\<not> ep_is_tried i" and none: "refs (am_new_matrix s) n = {}" and place: "tried_place L (am_key s) i (b, p)"
  shows "am_inv L (X - {n}) (dn - 1)
    ((set_tried_matrix s b p n)\<lparr>am_tried_count := am_tried_count s + 1, am_map_info := dict_set (am_map_info s) n (i\<lparr>ep_is_tried := True\<rparr>)\<rparr>)"
proof -
  have t: "tab_ok L X dn (tables_of s)" and r: "roster_ok (dict_get (am_map_info s)) (dict_get (am_map_addr s)) (am_random_pos s) (am_id_count s)"
    and u: "used_ok s"
    using inv by (simp_all add: am_inv_def)
  have n1: "n \<noteq> -1" using tab_okD(3) [OF t, of n i] n by simp
  have "roster_ok ((dict_get (am_map_info s))(n \<mapsto> i\<lparr>ep_is_tried := True\<rparr>)) (dict_get (am_map_addr s)) (am_random_pos s) (am_id_count s)"
    by (rule roster_modify [OF r n]) simp_all
  then show ?thesis
    using tab_try [OF t, of "(b, p)" n i, simplified, OF bp n fresh none place] u n1
    by (auto simp: am_inv_def set_tried_matrix_def used_ok_def dict_get_fun tables_of_def)
qed

lemma make_tried_inv:
  assumes inv: "am_inv L {} 0 s" and n: "dict_get (am_map_info s) n = Some info" and fresh: "\<not> ep_is_tried info"
  shows "\<exists>s' i. make_tried L s n = Inr s' \<and> am_inv L {} 0 s' \<and> keeps s s' \<and> dict_get (am_map_info s') n = Some i \<and> ep_is_tried i"
proof -
  have "leaving L {} 0 n (ep_peer_info info) s" using inv_weaken [OF inv, of "{n}"] n fresh by (simp add: leaving_def)
  then obtain s1 i1 where s1: "rfold (leave_bucket L info n) s [0..NEW_BUCKET_COUNT - 1] = Inr s1" "am_inv L {n} 0 s1" "keeps s s1"
    "am_tried_matrix s1 = am_tried_matrix s" "dict_get (am_map_info s1) n = Some i1" "ep_peer_info i1 = ep_peer_info info"
    "\<not> ep_is_tried i1" "ep_ref_count i1 = 0" "refs (am_new_matrix s1) n = {}"
    using leave_all [of L "{}" 0 n info s] by auto
  let ?s2 = "s1\<lparr>am_new_count := am_new_count s1 - 1\<rparr>"
  have inv2: "am_inv L {n} 1 ?s2" using inv_count [OF s1(2), of "-1"] by simp
  have n2: "dict_get (am_map_info ?s2) n = Some i1" using s1(5) by simp
  obtain b p where bp: "get_tried_bucket L (am_key s1) info = Inr b" "get_bucket_position L (am_key s1) info False b = Inr p"
    "tried_place L (am_key s1) i1 (b, p)"
    using inv_tried_place [OF inv2 n2 s1(6)] by auto
  obtain s3 where s3: "evict_tried L ?s2 b p = Inr s3" "am_inv L {n} 1 s3" "keeps ?s2 (s3\<lparr>am_tried_matrix := am_tried_matrix s1\<rparr>)"
    "am_tried_matrix s3 = (am_tried_matrix s1)((b, p) := -1)"
    "\<forall>m. m \<noteq> am_tried_matrix s1 (b, p) \<longrightarrow> refs (am_new_matrix s1) m = {} \<longrightarrow> entry_kept ?s2 s3 m \<and> refs (am_new_matrix s3) m = {}"
    using evict_inv [OF inv2, of b p] by auto
  have n1: "n \<noteq> -1" using s1(2,5) tab_okD(3) [of L "{n}" 0 "tables_of s1" n i1] by (simp add: am_inv_def)
  have "n \<noteq> am_tried_matrix s1 (b, p)"
    using s1(2,5,7) n1 tab_okD(7) [of L "{n}" 0 "tables_of s1" "(b, p)"] by (auto simp: am_inv_def)
  then obtain k where k: "dict_get (am_map_info s3) n = Some (i1\<lparr>ep_random_pos := k\<rparr>)" "refs (am_new_matrix s3) n = {}"
    using s3(5) s1(9) n2 unfolding entry_kept_def by blast
  have key3: "am_key s3 = am_key s1" using s3(3) by (simp add: keeps_def)
  have place3: "tried_place L (am_key s3) (i1\<lparr>ep_random_pos := k\<rparr>) (b, p)" using bp(3) same_places(2) [of "i1\<lparr>ep_random_pos := k\<rparr>" i1] key3 by simp
  let ?s4 = "(set_tried_matrix s3 b p n)\<lparr>am_tried_count := am_tried_count s3 + 1,
    am_map_info := dict_set (am_map_info s3) n (i1\<lparr>ep_random_pos := k, ep_is_tried := True\<rparr>)\<rparr>"
  have "make_tried L s n = Inr ?s4"
    using n s1(1,5,8) bp(1,2) s3(1) k(1)
    by (simp add: make_tried_def getitem_Some Let_def modify_eq set_tried_matrix_def)
  moreover have "am_inv L ({n} - {n}) (1 - 1) ?s4"
    using try_inv [OF s3(2) _ k(1) _ k(2) place3] s3(4) s1(7) by simp
  moreover have "keeps s ?s4"
  proof -
    have "keeps s1 ?s2" by simp
    then have "keeps s (s3\<lparr>am_tried_matrix := am_tried_matrix s1\<rparr>)" using keeps_trans s1(3) s3(3) by blast
    then have "keeps s (?s4\<lparr>am_tried_matrix := am_tried_matrix s1\<rparr>)"
      using k(1) by (elim keeps_trans) (simp add: keeps_def set_tried_matrix_def dict_get_fun)
    then show ?thesis
      by (rule keeps_tried) (use s1(4) s3(4) n1 in \<open>simp add: set_tried_matrix_def\<close>)
  qed
  moreover have "dict_get (am_map_info ?s4) n = Some (i1\<lparr>ep_random_pos := k, ep_is_tried := True\<rparr>)" by (simp add: dict_get_fun)
  ultimately show ?thesis by (intro exI [of _ ?s4] exI [of _ "i1\<lparr>ep_random_pos := k, ep_is_tried := True\<rparr>"]) simp
qed

section \<open>The operations\<close>

definition manager_ok :: "peer_lib \<Rightarrow> address_manager \<Rightarrow> bool" where
  "manager_ok L s \<longleftrightarrow> am_inv L {} 0 s \<and> coll_ok L s"

lemma manager_inv: "manager_ok L s \<Longrightarrow> am_inv L {} 0 s"
  by (simp add: manager_ok_def)

lemma manager_keeps: "manager_ok L s \<Longrightarrow> keeps s s' \<Longrightarrow> am_inv L {} 0 s' \<Longrightarrow> manager_ok L s'"
  using coll_keeps by (auto simp: manager_ok_def)

lemma cleared_ok: "key_ok key \<Longrightarrow> manager_ok L (cleared_manager key)"
  by (simp add: manager_ok_def am_inv_def tab_ok_def roster_ok_def used_ok_def coll_ok_def cleared_manager_def tables_of_def
      fresh_ids_def tried_ids_def dict_get_def dom_def)

lemma private_ok: "manager_ok L s \<Longrightarrow> manager_ok L (make_private_subnets_valid s)"
  by (simp add: manager_ok_def am_inv_def used_ok_def coll_ok_def make_private_subnets_valid_def tables_of_def)

lemma entry_info_ok: "am_inv L X dn s \<Longrightarrow> dict_get (am_map_info s) n = Some i \<Longrightarrow> info_ok L i"
  using tab_okD(3) [of L X dn "tables_of s" n i] by (simp add: am_inv_def)

lemma modify_ok:
  assumes ok: "manager_ok L s" and n: "dict_get (am_map_info s) n = Some i"
    and f: "same_entry i (f i)" "info_ok L (f i)" "ep_random_pos (f i) = ep_random_pos i"
  shows "\<exists>s'. modify_info s n f = Inr s' \<and> manager_ok L s' \<and> keeps s s' \<and>
    dict_get (am_map_info s') n = Some (f i) \<and> same_tables s s' \<and> am_random_pos s' = am_random_pos s"
proof -
  let ?s = "s\<lparr>am_map_info := dict_set (am_map_info s) n (f i)\<rparr>"
  have "keeps s ?s" using keeps_modify [OF n] f(1) by (simp add: same_entry_def)
  moreover have "manager_ok L ?s" by (rule manager_keeps [OF ok \<open>keeps s ?s\<close> modify_inv [OF manager_inv [OF ok] n f]])
  ultimately show ?thesis using modify_eq [OF n, of f] by (simp add: dict_get_fun same_tables_def)
qed

lemma attempt_ok:
  assumes "manager_ok L s"
  shows "\<exists>s'. attempt_inner s addr cf ts = Inr s' \<and> manager_ok L s' \<and> keeps s s'"
proof (cases "find_entry s addr")
  case (Pair a b)
  show ?thesis
  proof (cases "\<exists>info n. a = Some info \<and> b = Some n \<and> same_peer info addr")
    case True
    then obtain info n where e: "a = Some info" "b = Some n" "same_peer info addr" by blast
    then have n: "dict_get (am_map_info s) n = Some info" using Pair by (auto simp: find_entry_def split: option.splits)
    let ?f = "\<lambda>i. if cf \<and> ep_last_count_attempt i < am_last_good s
      then i\<lparr>ep_last_try := ts, ep_last_count_attempt := ts, ep_num_attempts := ep_num_attempts i + 1\<rparr> else i\<lparr>ep_last_try := ts\<rparr>"
    have "same_entry info (?f info)" "info_ok L (?f info)" "ep_random_pos (?f info) = ep_random_pos info"
      using entry_info_ok [OF manager_inv [OF assms] n] by (simp_all add: same_entry_def info_ok_def)
    from modify_ok [where f = ?f, OF assms n this] show ?thesis using e Pair by (auto simp: attempt_inner_def)
  next
    case False
    then show ?thesis using assms Pair by (auto simp: attempt_inner_def split: option.splits)
  qed
qed

lemma connect_ok:
  assumes "manager_ok L s" "0 \<le> ts" "ts < 2 ^ 64"
  shows "\<exists>s'. connect_inner s addr ts = Inr s' \<and> manager_ok L s' \<and> keeps s s'"
proof (cases "find_entry s addr")
  case (Pair a b)
  show ?thesis
  proof (cases "\<exists>info n. a = Some info \<and> b = Some n \<and> same_peer info addr")
    case True
    then obtain info n where e: "a = Some info" "b = Some n" "same_peer info addr" by blast
    then have n: "dict_get (am_map_info s) n = Some info" using Pair by (auto simp: find_entry_def split: option.splits)
    let ?f = "\<lambda>i. if ts - ep_timestamp i > 20 * 60 then i\<lparr>ep_timestamp := ts\<rparr> else i"
    have "same_entry info (?f info)" "info_ok L (?f info)" "ep_random_pos (?f info) = ep_random_pos info"
      using entry_info_ok [OF manager_inv [OF assms(1)] n] assms(2,3) by (simp_all add: same_entry_def info_ok_def)
    from modify_ok [where f = ?f, OF assms(1) n this] show ?thesis using e Pair by (auto simp: connect_inner_def)
  next
    case False
    then show ?thesis using assms Pair by (auto simp: connect_inner_def split: option.splits)
  qed
qed

lemma find_new_bucket_total:
  assumes "am_inv L X dn s" "dict_get (am_map_info s) n = Some i" "ep_peer_info i = ep_peer_info info"
    "\<forall>b \<in> set bs. 0 \<le> b \<and> b < NEW_BUCKET_COUNT"
  shows "\<exists>r. find_new_bucket L s info n bs = Inr r \<and> (r = None \<longrightarrow> (\<forall>b \<in> set bs. \<forall>p. am_new_matrix s (b, p) \<noteq> n))"
  using assms(4)
proof (induction bs)
  case Nil
  then show ?case by simp
next
  case (Cons b bs)
  obtain pos where pos: "get_bucket_position L (am_key s) info True b = Inr pos" using inv_position [OF assms(1-3), of b True] Cons.prems by auto
  have n1: "n \<noteq> -1" using assms(1,2) tab_okD(3) [of L X dn "tables_of s" n i] by (simp add: am_inv_def)
  have only: "p = pos" if "am_new_matrix s (b, p) = n" for p
    using new_owner [OF assms(1), of "(b, p)"] that assms(2,3) n1 pos buckets_of_peer(2) [of info i L "am_key s"] by (auto simp: new_place_def)
  then show ?case using Cons pos by fastforce
qed

lemma all_buckets: "0 \<le> b \<Longrightarrow> b < NEW_BUCKET_COUNT \<Longrightarrow> b \<in> set (map (\<lambda>n. (n + r) mod NEW_BUCKET_COUNT) [0..NEW_BUCKET_COUNT - 1])"
proof -
  assume b: "0 \<le> b" "b < NEW_BUCKET_COUNT"
  have "0 < NEW_BUCKET_COUNT" by (simp add: NEW_BUCKET_COUNT_def)
  then have "(b - r) mod NEW_BUCKET_COUNT \<in> set [0..NEW_BUCKET_COUNT - 1]" by simp
  moreover have "((b - r) mod NEW_BUCKET_COUNT + r) mod NEW_BUCKET_COUNT = b" using b by (simp add: mod_simps)
  ultimately show ?thesis unfolding set_map by (intro image_eqI [where x = "(b - r) mod NEW_BUCKET_COUNT"]) simp_all
qed

lemma bucket_found:
  assumes inv: "am_inv L X dn s" and n: "dict_get (am_map_info s) n = Some i" "ep_peer_info i = ep_peer_info info"
    and fresh: "\<not> ep_is_tried i" "n \<notin> X"
  shows "\<exists>b. find_new_bucket L s info n (map (\<lambda>n. (n + r) mod NEW_BUCKET_COUNT) [0..NEW_BUCKET_COUNT - 1]) = Inr (Some b)"
proof -
  let ?bs = "map (\<lambda>n. (n + r) mod NEW_BUCKET_COUNT) [0..NEW_BUCKET_COUNT - 1]"
  have "0 < NEW_BUCKET_COUNT" by (simp add: NEW_BUCKET_COUNT_def)
  then have "\<forall>b \<in> set ?bs. 0 \<le> b \<and> b < NEW_BUCKET_COUNT" by auto
  from find_new_bucket_total [OF inv n this] obtain x where
    x: "find_new_bucket L s info n ?bs = Inr x" "x = None \<longrightarrow> (\<forall>b \<in> set ?bs. \<forall>p. am_new_matrix s (b, p) \<noteq> n)" by blast
  obtain bp where bp: "am_new_matrix s bp = n"
    using inv n(1) fresh tab_okD(5) [of L X dn "tables_of s" n i] by (auto simp: am_inv_def refs_def)
  have "n \<noteq> -1" using inv n(1) tab_okD(3) [of L X dn "tables_of s" n i] by (simp add: am_inv_def)
  then have "fst bp \<in> set ?bs" using new_owner [OF inv, of bp] bp by (intro all_buckets) (auto simp: new_place_def)
  then have "x \<noteq> None" using x(2) bp by (metis prod.collapse)
  then show ?thesis using x(1) by auto
qed

lemma find_split:
  assumes "am_inv L X dn s"
  obtains (known) info n where "find_entry s addr = (Some info, Some n)" "dict_get (am_map_info s) n = Some info"
      "dict_get (am_map_addr s) (pi_host addr) = Some n" "pi_host (ep_peer_info info) = pi_host addr"
    | (unknown) "find_entry s addr = (None, None)" "dict_get (am_map_addr s) (pi_host addr) = None"
proof (cases "dict_get (am_map_addr s) (pi_host addr)")
  case None
  then show ?thesis using unknown by (simp add: find_entry_def)
next
  case (Some n)
  obtain i where "dict_get (am_map_info s) n = Some i" "pi_host (ep_peer_info i) = pi_host addr"
    using assms Some roster_okD(7) [of "dict_get (am_map_info s)" "dict_get (am_map_addr s)" "am_random_pos s" "am_id_count s"]
    unfolding am_inv_def by blast
  then show ?thesis using known Some by (simp add: find_entry_def)
qed

lemma collision_ok:
  assumes ok: "manager_ok L s" and n: "dict_get (am_map_info s) n = Some i" "n \<notin> set (am_tried_collisions s)"
    and bp: "tried_place L (am_key s) i bp" "am_tried_matrix s bp \<noteq> -1"
  shows "manager_ok L (s\<lparr>am_tried_collisions := am_tried_collisions s @ [n]\<rparr>)"
proof -
  have "n \<le> am_id_count s"
    using ok n(1) roster_okD(4) [of "dict_get (am_map_info s)" "dict_get (am_map_addr s)" "am_random_pos s" "am_id_count s" n i]
    by (simp add: manager_ok_def am_inv_def)
  moreover have "am_tried_matrix s q \<noteq> -1" if "tried_place L (am_key s) i q" for q using tried_place_unique [OF that bp(1)] bp(2) by simp
  ultimately show ?thesis using ok n by (auto simp: manager_ok_def am_inv_def used_ok_def coll_ok_def tables_of_def)
qed

lemma last_good_ok: "manager_ok L s \<Longrightarrow> manager_ok L (s\<lparr>am_last_good := ts\<rparr>)" "keeps s (s\<lparr>am_last_good := ts\<rparr>)"
  by (simp_all add: manager_ok_def am_inv_def used_ok_def coll_ok_def tables_of_def keeps_def)

lemma find_last_good [simp]: "find_entry (s\<lparr>am_last_good := ts\<rparr>) addr = find_entry s addr"
  by (simp add: find_entry_def split: option.splits)

lemma mark_known_ok:
  assumes ok: "manager_ok L s" and n: "find_entry s addr = (Some info, Some n)" "dict_get (am_map_info s) n = Some info"
    and addr: "peer_is_valid L (am_allow_private_subnets s) addr" "same_peer info addr"
  shows "\<exists>s'. mark_good_inner L r s addr tbe ts = Inr s' \<and> manager_ok L s' \<and>
    (\<not> tbe \<longrightarrow> keeps s s' \<and> (\<exists>i. dict_get (am_map_info s') n = Some i \<and> ep_is_tried i))"
proof -
  let ?s0 = "s\<lparr>am_last_good := ts\<rparr>" and ?f = "\<lambda>i. i\<lparr>ep_last_success := ts, ep_last_try := ts, ep_num_attempts := 0\<rparr>"
  have ok0: "manager_ok L ?s0" "keeps s ?s0" using last_good_ok ok by auto
  have n0: "dict_get (am_map_info ?s0) n = Some info" using n(2) by simp
  have "same_entry info (?f info)" "info_ok L (?f info)" "ep_random_pos (?f info) = ep_random_pos info"
    using entry_info_ok [OF manager_inv [OF ok] n(2)] by (simp_all add: same_entry_def info_ok_def)
  from modify_ok [where f = ?f, OF ok0(1) n0 this] obtain s1 where s1: "modify_info ?s0 n ?f = Inr s1" "manager_ok L s1" "keeps ?s0 s1"
    "dict_get (am_map_info s1) n = Some (?f info)" by blast
  have k1: "keeps s s1" using keeps_trans ok0(2) s1(3) by blast
  have find: "find_entry ?s0 addr = (Some info, Some n)" using n(1) by simp
  show ?thesis
  proof (cases "ep_is_tried info")
    case True
    then have "mark_good_inner L r s addr tbe ts = Inr s1" using addr find s1(1) by (simp add: mark_good_inner_def Let_def)
    then show ?thesis using s1(2,4) k1 True by simp
  next
    case False
    have inv1: "am_inv L {} 0 s1" using s1(2) by (rule manager_inv)
    have p1: "ep_peer_info (?f info) = ep_peer_info info" "\<not> ep_is_tried (?f info)" using False by simp_all
    obtain nb where nb: "find_new_bucket L s1 info n (map (\<lambda>n. (n + r) mod NEW_BUCKET_COUNT) [0..NEW_BUCKET_COUNT - 1]) = Inr (Some nb)"
      using bucket_found [OF inv1 s1(4) p1] by blast
    obtain b p where bp: "get_tried_bucket L (am_key s1) info = Inr b" "get_bucket_position L (am_key s1) info False b = Inr p"
      "tried_place L (am_key s1) (?f info) (b, p)"
      using inv_tried_place [OF inv1 s1(4) p1(1)] by blast
    obtain s2 i where s2: "make_tried L s1 n = Inr s2" "am_inv L {} 0 s2" "keeps s1 s2" "dict_get (am_map_info s2) n = Some i" "ep_is_tried i"
      using make_tried_inv [OF inv1 s1(4) p1(2)] by blast
    have eq: "mark_good_inner L r s addr tbe ts =
      (if tbe \<and> am_tried_matrix s1 (b, p) \<noteq> -1
       then Inr (if int (length (am_tried_collisions s1)) < TRIED_COLLISION_SIZE \<and> n \<notin> set (am_tried_collisions s1)
                 then s1\<lparr>am_tried_collisions := am_tried_collisions s1 @ [n]\<rparr> else s1)
       else make_tried L s1 n)"
      using addr find s1(1) False nb bp(1,2) by (simp add: mark_good_inner_def Let_def)
    show ?thesis
    proof (cases "tbe \<and> am_tried_matrix s1 (b, p) \<noteq> -1")
      case True
      then show ?thesis using eq s1(2) collision_ok [OF s1(2,4) _ bp(3)] by auto
    next
      case False
      then have "manager_ok L s2" "keeps s s2" using manager_keeps [OF s1(2) s2(3,2)] keeps_trans [OF k1 s2(3)] by auto
      then show ?thesis using eq False s2 by auto
    qed
  qed
qed

lemma mark_good_ok:
  assumes ok: "manager_ok L s"
  shows "\<exists>s'. mark_good_inner L r s addr tbe ts = Inr s' \<and> manager_ok L s' \<and> (\<not> tbe \<longrightarrow> keeps s s')"
  using manager_inv [OF ok]
proof (cases rule: find_split [where addr = addr])
  case (known info n)
  let ?s0 = "s\<lparr>am_last_good := ts\<rparr>"
  have find: "find_entry ?s0 addr = (Some info, Some n)" using known(1) by simp
  show ?thesis
  proof (cases "peer_is_valid L (am_allow_private_subnets s) addr \<and> same_peer info addr")
    case True
    then show ?thesis using mark_known_ok [OF ok known(1,2), of r tbe ts] by blast
  next
    case False
    then have "mark_good_inner L r s addr tbe ts = Inr ?s0" using find by (auto simp: mark_good_inner_def Let_def)
    then show ?thesis using last_good_ok ok by auto
  qed
next
  case unknown
  then have "mark_good_inner L r s addr tbe ts = Inr (s\<lparr>am_last_good := ts\<rparr>)"
    by (simp add: mark_good_inner_def Let_def)
  then show ?thesis using last_good_ok ok by auto
qed

definition source_ok :: "peer_lib \<Rightarrow> peer_info option \<Rightarrow> bool" where
  "source_ok L source \<longleftrightarrow> (\<forall>q. source = Some q \<longrightarrow> (\<exists>g. get_group L q = Inr g))"

definition addr_ok :: "timestamped_peer_info \<Rightarrow> bool" where
  "addr_ok a \<longleftrightarrow> 0 \<le> tp_port a \<and> tp_port a < 65536 \<and> 0 \<le> tp_timestamp a \<and> tp_timestamp a < 2 ^ 64"

lemma place_ok:
  assumes inv: "am_inv L {n} 0 s" and n: "dict_get (am_map_info s) n = Some info" "\<not> ep_is_tried info" and src: "source_ok L source"
  shows "\<exists>s'. place_in_new L now s n source = Inr s' \<and> am_inv L {} 0 s' \<and> keeps s s'"
proof -
  obtain b p where bp: "get_new_bucket L (am_key s) info source = Inr b" "get_bucket_position L (am_key s) info True b = Inr p"
    "new_place L (am_key s) info (b, p)"
    using inv_new_place [OF inv n(1), of source] src unfolding source_ok_def by blast
  let ?here = "am_new_matrix s (b, p)"
  have rc: "ep_ref_count info = int (card (refs (am_new_matrix s) n))" and n1: "n \<noteq> -1"
    using inv n tab_okD(3,5) [of L "{n}" 0 "tables_of s" n info] by (simp_all add: am_inv_def)
  have fin: "finite (refs (am_new_matrix s) n)" using finite_refs [of L "{n}" 0 "tables_of s" n] inv n1 by (simp add: am_inv_def)
  have settled: "am_inv L {} 0 s" if "refs (am_new_matrix s) n \<noteq> {}" using inv_settle [OF inv, of n] that by simp
  have add: "\<exists>s1 s2. clear_new s b p = Inr s1 \<and> modify_info s1 n (\<lambda>i. i\<lparr>ep_ref_count := ep_ref_count i + 1\<rparr>) = Inr s2 \<and>
    am_inv L {} 0 (set_new_matrix s2 b p n) \<and> keeps s (set_new_matrix s2 b p n)" if ne: "?here \<noteq> n"
  proof -
    obtain s1 where s1: "clear_new s b p = Inr s1" "am_inv L {n} 0 s1" "keeps s s1" "am_new_matrix s1 = (am_new_matrix s)((b, p) := -1)"
      "\<forall>m. m \<noteq> ?here \<longrightarrow> entry_kept s s1 m"
      using clear_inv [OF inv, of b p] by blast
    obtain k where k: "dict_get (am_map_info s1) n = Some (info\<lparr>ep_random_pos := k\<rparr>)"
      using s1(5) ne n(1) unfolding entry_kept_def by metis
    have "am_key s1 = am_key s" using s1(3) by (simp add: keeps_def)
    then have place: "new_place L (am_key s1) (info\<lparr>ep_random_pos := k\<rparr>) (b, p)"
      using bp(3) same_places(1) [of "info\<lparr>ep_random_pos := k\<rparr>" info] by simp
    have j: "am_inv L ({n} - {n}) 0 (joined s1 (b, p) n (info\<lparr>ep_random_pos := k\<rparr>))" "keeps s1 (joined s1 (b, p) n (info\<lparr>ep_random_pos := k\<rparr>))"
      using join_inv [OF s1(2) _ k _ place] s1(4) n(2) by simp_all
    then show ?thesis using s1(1) k modify_eq [OF k] keeps_trans [OF s1(3) j(2)] by auto
  qed
  have place: "place_in_new L now s n source =
    (if ?here = n then Inr s
     else rbind (if ?here = -1 then Inr True
              else rbind (dict_getitem (am_map_info s) ?here) (\<lambda>info_existing.
                Inr (is_terrible info_existing \<lfloor>now\<rfloor> \<or> ep_ref_count info_existing > 1 \<and> ep_ref_count info = 0))) (\<lambda>add_to_new.
       if add_to_new then
         rbind (clear_new s b p) (\<lambda>s1.
         rbind (modify_info s1 n (\<lambda>i. i\<lparr>ep_ref_count := ep_ref_count i + 1\<rparr>)) (\<lambda>s2. Inr (set_new_matrix s2 b p n)))
       else if ep_ref_count info = 0 then delete_new_entry s n
       else Inr s))"
    using n(1) bp(1,2) by (simp add: place_in_new_def getitem_Some Let_def)
  consider "?here = n" | "?here \<noteq> n" "?here = -1" | j where "?here \<noteq> n" "?here \<noteq> -1" "dict_get (am_map_info s) ?here = Some j"
    using new_owner [OF inv, of "(b, p)"] by blast
  then show ?thesis
  proof cases
    case 1
    then have "refs (am_new_matrix s) n \<noteq> {}" by (auto simp: refs_def)
    then show ?thesis using 1 settled place by simp
  next
    case 2
    then show ?thesis using add place by auto
  next
    case 3
    show ?thesis
    proof (cases "is_terrible j \<lfloor>now\<rfloor> \<or> ep_ref_count j > 1 \<and> ep_ref_count info = 0")
      case True
      then show ?thesis using 3 add place by (auto simp: getitem_Some)
    next
      case False
      show ?thesis
      proof (cases "ep_ref_count info = 0")
        case True
        then have "refs (am_new_matrix s) n = {}" using rc fin by simp
        then show ?thesis using delete_inv [OF inv n] 3 False True place by (auto simp: getitem_Some)
      next
        case ne: False
        then have "refs (am_new_matrix s) n \<noteq> {}" using rc by auto
        then show ?thesis using settled 3 False ne place by (auto simp: getitem_Some)
      qed
    qed
  qed
qed

lemma create_inv:
  assumes inv: "am_inv L {} 0 s" and h: "dict_get (am_map_addr s) (tp_host addr) = None" and a: "addr_ok addr" "source_ok L source"
    and valid: "peer_is_valid L allow \<lparr>pi_host = tp_host addr, pi_port = tp_port addr\<rparr>"
    and s1: "create_entry s addr source = (s1, n)"
  shows "am_inv L {n} 1 s1 \<and> keeps s s1 \<and> (\<exists>i. dict_get (am_map_info s1) n = Some i \<and> \<not> ep_is_tried i \<and> info_ok L i \<and> ep_timestamp i = tp_timestamp addr)"
proof -
  let ?i = "(new_extended addr source)\<lparr>ep_random_pos := Some (int (length (am_random_pos s)))\<rparr>"
  let ?p = "\<lparr>pi_host = tp_host addr, pi_port = tp_port addr\<rparr>"
  have t: "tab_ok L {} 0 (tables_of s)" and r: "roster_ok (dict_get (am_map_info s)) (dict_get (am_map_addr s)) (am_random_pos s) (am_id_count s)"
    and u: "used_ok s"
    using inv by (simp_all add: am_inv_def)
  have n: "n = am_id_count s + 1" and s1: "s1 = s\<lparr>am_id_count := n, am_map_info := dict_set (am_map_info s) n ?i,
      am_map_addr := dict_set (am_map_addr s) (tp_host addr) n, am_random_pos := am_random_pos s @ [n]\<rparr>"
    using s1 by (auto simp: create_entry_def Let_def)
  have peer: "peer_ok L ?p" using valid a(1) by (intro peer_ok_valid) (auto simp: addr_ok_def)
  have i: "\<not> ep_is_tried ?i" "ep_ref_count ?i = 0" "ep_peer_info ?i = ?p" "ep_timestamp ?i = tp_timestamp addr" "info_ok L ?i"
    using peer a by (auto simp: new_extended_def Let_def info_ok_def peer_ok_def addr_ok_def source_ok_def split: option.splits)
  have new: "dict_get (am_map_info s) n = None" using roster_okD(4) [OF r, of n] n by (cases "dict_get (am_map_info s) n") auto
  have n1: "n \<noteq> -1" using roster_okD(3) [OF r] n by simp
  have "tab_ok L {n} 1 (tables_of s1)"
    using tab_create [OF t, of n ?i] new n1 i s1 by (simp add: tables_of_def dict_get_fun)
  moreover have "roster_ok (dict_get (am_map_info s1)) (dict_get (am_map_addr s1)) (am_random_pos s1) (am_id_count s1)"
    using roster_create [OF r, of ?i] h i(3) n s1 by (simp add: dict_get_fun)
  moreover have "keeps s s1" using n by (simp add: s1 keeps_def dict_get_fun)
  ultimately show ?thesis using u i s1 by (simp add: am_inv_def used_ok_def dict_get_fun)
qed

lemma updated_range: "0 \<le> old \<Longrightarrow> old < 2 ^ 64 \<Longrightarrow> new < 2 ^ 64 \<Longrightarrow> 0 \<le> penalty \<Longrightarrow>
    0 \<le> updated_timestamp now old new penalty \<and> updated_timestamp now old new penalty < 2 ^ 64"
  by (auto simp: updated_timestamp_def Let_def)

lemma add_known_ok:
  assumes ok: "manager_ok L s" and n: "dict_get (am_map_info s) n = Some info" and a: "addr_ok addr" "source_ok L source" "0 \<le> pen"
  shows "\<exists>s1. modify_info s n (\<lambda>_. info\<lparr>ep_timestamp := updated_timestamp now (ep_timestamp info) (tp_timestamp addr) pen\<rparr>) = Inr s1 \<and>
    manager_ok L s1 \<and> keeps s s1 \<and> (\<not> ep_is_tried info \<longrightarrow> (\<exists>s2. place_in_new L now s1 n source = Inr s2 \<and> manager_ok L s2 \<and> keeps s s2))"
proof -
  let ?f = "\<lambda>_ :: extended_peer_info. info\<lparr>ep_timestamp := updated_timestamp now (ep_timestamp info) (tp_timestamp addr) pen\<rparr>"
  have "same_entry info (?f info)" "info_ok L (?f info)" "ep_random_pos (?f info) = ep_random_pos info"
    using entry_info_ok [OF manager_inv [OF ok] n] updated_range [of "ep_timestamp info" "tp_timestamp addr" pen now] a
    by (simp_all add: same_entry_def info_ok_def addr_ok_def)
  from modify_ok [where f = ?f, OF ok n this] obtain s1 where s1: "modify_info s n ?f = Inr s1" "manager_ok L s1" "keeps s s1"
    "dict_get (am_map_info s1) n = Some (?f info)" by blast
  have "\<exists>s2. place_in_new L now s1 n source = Inr s2 \<and> manager_ok L s2 \<and> keeps s s2" if fresh: "\<not> ep_is_tried info"
  proof -
    have inv1: "am_inv L {n} 0 s1" using inv_weaken [OF manager_inv [OF s1(2)], of "{n}"] by simp
    obtain s2 where s2: "place_in_new L now s1 n source = Inr s2" "am_inv L {} 0 s2" "keeps s1 s2"
      using place_ok [OF inv1 s1(4) _ a(2), of now] fresh by auto
    then show ?thesis using manager_keeps [OF s1(2) s2(3,2)] keeps_trans [OF s1(3) s2(3)] by blast
  qed
  then show ?thesis using s1 by blast
qed

lemma add_unknown_ok:
  assumes ok: "manager_ok L s" and h: "dict_get (am_map_addr s) (tp_host addr) = None" and a: "addr_ok addr" "source_ok L source" "0 \<le> pen"
    and valid: "peer_is_valid L allow \<lparr>pi_host = tp_host addr, pi_port = tp_port addr\<rparr>"
    and s1: "create_entry s addr source = (s1, n)"
  shows "\<exists>s2 s3. modify_info s1 n (\<lambda>i. i\<lparr>ep_timestamp := max 0 (ep_timestamp i - pen)\<rparr>) = Inr s2 \<and>
    place_in_new L now (s2\<lparr>am_new_count := am_new_count s2 + 1\<rparr>) n source = Inr s3 \<and> manager_ok L s3 \<and> keeps s s3"
proof -
  obtain i where i: "am_inv L {n} 1 s1" "keeps s s1" "dict_get (am_map_info s1) n = Some i" "\<not> ep_is_tried i" "info_ok L i"
    using create_inv [OF manager_inv [OF ok] h a(1,2) valid s1] by blast
  let ?i = "i\<lparr>ep_timestamp := max 0 (ep_timestamp i - pen)\<rparr>"
  let ?s2 = "s1\<lparr>am_map_info := dict_set (am_map_info s1) n ?i\<rparr>"
  let ?s3 = "?s2\<lparr>am_new_count := am_new_count ?s2 + 1\<rparr>"
  have "same_entry i ?i" "info_ok L ?i" "ep_random_pos ?i = ep_random_pos i"
    using i(5) a by (auto simp: same_entry_def info_ok_def)
  then have "am_inv L {n} (1 - 1) ?s3" by (intro inv_count modify_inv [OF i(1,3)])
  moreover have n3: "dict_get (am_map_info ?s3) n = Some ?i" by (simp add: dict_get_fun)
  ultimately obtain s4 where s4: "place_in_new L now ?s3 n source = Inr s4" "am_inv L {} 0 s4" "keeps ?s3 s4"
    using place_ok [of L n ?s3 ?i source now] i(4) a(2) by auto
  have "keeps s1 ?s3" using keeps_modify [OF i(3), of ?i] by simp
  then have "keeps s s4" using keeps_trans i(2) s4(3) by blast
  then have "manager_ok L s4" using manager_keeps [OF ok _ s4(2)] by blast
  then show ?thesis using modify_eq [OF i(3)] s4(1) \<open>keeps s s4\<close> by auto
qed

lemma add_ok:
  assumes ok: "manager_ok L s" and a: "addr_ok addr" "source_ok L source" "0 \<le> pen"
  shows "\<exists>added s'. add_to_new_table_inner L now c s addr source pen = Inr (added, s') \<and> manager_ok L s' \<and> keeps s s'"
proof -
  let ?p = "\<lparr>pi_host = tp_host addr, pi_port = tp_port addr\<rparr>"
  show ?thesis
  proof (cases "peer_is_valid L (am_allow_private_subnets s) ?p")
    case False
    then show ?thesis using ok by (auto simp: add_to_new_table_inner_def)
  next
    case True
    have "am_inv L {} 0 s" using ok by (rule manager_inv)
    then show ?thesis
    proof (cases rule: find_split [where addr = ?p])
      case (known info n)
      let ?pen = "if same_peer info ?p then 0 else pen"
      have "0 \<le> ?pen" using a(3) by simp
      from add_known_ok [OF ok known(2) a(1,2) this, of now] show ?thesis
        using True known(1) by (auto simp: add_to_new_table_inner_def Let_def may_add_reference_def)
    next
      case unknown
      obtain s1 n where s1: "create_entry s addr source = (s1, n)" by fastforce
      show ?thesis
        using add_unknown_ok [OF ok _ a True s1, of now] unknown True s1 by (auto simp: add_to_new_table_inner_def Let_def)
    qed
  qed
qed

end
