(* ===== verification/AddressManagerSafe.thy ===== *)
theory AddressManagerSafe
  imports AddressManagerCorrect
begin

text \<open>
  The remaining operations of the address manager (collisions, the answer to a request for peers, cleanup), the states that
  sequences of operations reach, and the properties of the whole component.
\<close>

section \<open>Collisions\<close>

lemma remove_collision_ok:
  assumes "manager_ok L s"
  shows "manager_ok L (s\<lparr>am_tried_collisions := remove1 n (am_tried_collisions s)\<rparr>)"
  using assms notin_set_remove1 [of _ "am_tried_collisions s" n] 
  by (auto simp: manager_ok_def am_inv_def used_ok_def coll_ok_def tables_of_def dest: set_mp [OF set_remove1_subset])

lemma tried_owner:
  assumes "am_inv L X dn s" "am_tried_matrix s bp \<noteq> -1"
  shows "\<exists>i. dict_get (am_map_info s) (am_tried_matrix s bp) = Some i \<and> ep_is_tried i \<and> tried_place L (am_key s) i bp"
  using assms tab_okD(7) [of L X dn "tables_of s" bp] by (simp add: am_inv_def)

lemma resolve_collision_ok:
  assumes ok: "manager_ok L s"
  shows "\<exists>resolved s'. resolve_collision L now rnd s n = Inr (resolved, s') \<and> manager_ok L s' \<and> keeps s s'"
proof (cases "dict_get (am_map_info s) n")
  case None
  then show ?thesis using ok by (auto simp: resolve_collision_def)
next
  case (Some info)
  obtain b p where bp: "get_tried_bucket L (am_key s) info = Inr b" "get_bucket_position L (am_key s) info False b = Inr p"
    using inv_tried_place [OF manager_inv [OF ok] Some refl] by blast
  obtain s1 where s1: "mark_good_inner L (rnd n) s (ep_peer_info info) False \<lfloor>now\<rfloor> = Inr s1" "manager_ok L s1" "keeps s s1"
    using mark_good_ok [OF ok, of "rnd n" "ep_peer_info info" False "\<lfloor>now\<rfloor>"] by auto
  show ?thesis
  proof (cases "am_tried_matrix s (b, p) = -1")
    case True
    then show ?thesis using Some bp s1 by (auto simp: resolve_collision_def)
  next
    case False
    then obtain old where "dict_get (am_map_info s) (am_tried_matrix s (b, p)) = Some old" using tried_owner [OF manager_inv [OF ok]] by blast
    then show ?thesis using Some bp s1 ok False by (auto simp: resolve_collision_def getitem_Some Let_def)
  qed
qed

lemma resolve_step_ok:
  assumes ok: "manager_ok L s" and n: "n \<in> set (am_tried_collisions s)"
  shows "\<exists>s'. resolve_step L now rnd s n = Inr s' \<and> manager_ok L s' \<and> set (am_tried_collisions s) - {n} \<subseteq> set (am_tried_collisions s')"
proof -
  obtain resolved s1 where s1: "resolve_collision L now rnd s n = Inr (resolved, s1)" "manager_ok L s1" "keeps s s1"
    using resolve_collision_ok [OF ok] by blast
  have c: "am_tried_collisions s1 = am_tried_collisions s" using s1(3) by (simp add: keeps_def)
  have "distinct (am_tried_collisions s)" using ok by (simp add: manager_ok_def coll_ok_def)
  then show ?thesis using s1(1,2) c n remove_collision_ok [OF s1(2), of n] by (cases resolved) (auto simp: resolve_step_def)
qed

lemma resolve_ok:
  assumes "manager_ok L s"
  shows "\<exists>s'. resolve_tried_collisions L now rnd s = Inr s' \<and> manager_ok L s'"
proof -
  have "\<exists>s'. rfold (resolve_step L now rnd) s ns = Inr s' \<and> manager_ok L s'"
    if "manager_ok L s" "distinct ns" "set ns \<subseteq> set (am_tried_collisions s)" for ns
    using that
  proof (induction ns arbitrary: s)
    case Nil
    then show ?case by simp
  next
    case (Cons n ns)
    then obtain s1 where s1: "resolve_step L now rnd s n = Inr s1" "manager_ok L s1"
      "set (am_tried_collisions s) - {n} \<subseteq> set (am_tried_collisions s1)"
      using resolve_step_ok [of L s n now rnd] by auto
    then have "set ns \<subseteq> set (am_tried_collisions s1)" using Cons.prems by auto
    then show ?case using Cons s1 by auto
  qed
  moreover have "distinct (am_tried_collisions s)" using assms by (simp add: manager_ok_def coll_ok_def)
  ultimately show ?thesis using assms by (simp add: resolve_tried_collisions_def)
qed

lemma select_collision_ok:
  assumes ok: "manager_ok L s" and n: "am_tried_collisions s \<noteq> [] \<Longrightarrow> n \<in> set (am_tried_collisions s)"
  shows "\<exists>r s'. select_tried_collision L n s = Inr (r, s') \<and> manager_ok L s' \<and> (\<forall>i. r = Some i \<longrightarrow> ep_is_tried i)"
proof (cases "am_tried_collisions s = []")
  case True
  then show ?thesis using ok by (simp add: select_tried_collision_def)
next
  case False
  show ?thesis
  proof (cases "dict_get (am_map_info s) n")
    case None
    then show ?thesis using False remove_collision_ok [OF ok, of n] by (simp add: select_tried_collision_def)
  next
    case (Some info)
    obtain b p where bp: "get_tried_bucket L (am_key s) info = Inr b" "get_bucket_position L (am_key s) info False b = Inr p"
      "tried_place L (am_key s) info (b, p)"
      using inv_tried_place [OF manager_inv [OF ok] Some refl] by blast
    then have "am_tried_matrix s (b, p) \<noteq> -1" using ok n [OF False] Some by (auto simp: manager_ok_def coll_ok_def)
    then obtain old where "dict_get (am_map_info s) (am_tried_matrix s (b, p)) = Some old" "ep_is_tried old"
      using tried_owner [OF manager_inv [OF ok]] by blast
    then show ?thesis using False Some bp ok by (simp add: select_tried_collision_def getitem_Some)
  qed
qed

section \<open>Cleanup\<close>

lemma rfold_keeps_ok:
  assumes "\<And>s x. manager_ok L s \<Longrightarrow> \<exists>s'. f s x = Inr s' \<and> manager_ok L s'" "manager_ok L s"
  shows "\<exists>s'. rfold f s xs = Inr s' \<and> manager_ok L s'"
  using assms(2)
proof (induction xs arbitrary: s)
  case (Cons x xs)
  obtain s1 where "f s x = Inr s1" "manager_ok L s1" using assms(1) [OF Cons.prems] by blast
  then show ?case using Cons.IH by simp
qed simp

lemma cleanup_ok:
  assumes "manager_ok L s"
  shows "\<exists>s'. cleanup now s d f = Inr s' \<and> manager_ok L s'"
  unfolding cleanup_def
proof (rule rfold_keeps_ok [OF _ assms])
  fix s bp
  assume ok: "manager_ok L s"
  obtain s1 where "clear_new s (fst bp) (snd bp) = Inr s1" "am_inv L {} 0 s1" "keeps s s1"
    using clear_inv [OF manager_inv [OF ok], of "fst bp" "snd bp"] by blast
  moreover from this have "manager_ok L s1" using manager_keeps [OF ok] by blast
  moreover have "am_new_matrix s bp \<noteq> -1 \<Longrightarrow> \<exists>i. dict_get (am_map_info s) (am_new_matrix s bp) = Some i"
    using new_owner [OF manager_inv [OF ok]] by blast
  ultimately show "\<exists>s'. cleanup_step \<lfloor>now\<rfloor> d f s bp = Inr s' \<and> manager_ok L s'"
    using ok by (cases "am_new_matrix s bp = -1") (auto simp: cleanup_step_def getitem_Some Let_def)
qed

section \<open>Adding a list of addresses\<close>

lemma add_all_ok:
  assumes "manager_ok L s" "\<forall>a \<in> set addrs. addr_ok a" "source_ok L source" "0 \<le> pen"
  shows "\<exists>added s'. add_to_new_table L now c s addrs source pen = Inr (added, s') \<and> manager_ok L s'"
  using assms(1,2)
proof (induction addrs arbitrary: s)
  case Nil
  then show ?case by auto
next
  case (Cons a addrs)
  obtain b s1 where s1: "add_to_new_table_inner L now (c (length addrs)) s a source pen = Inr (b, s1)" "manager_ok L s1"
    using add_ok [OF Cons.prems(1) _ assms(3,4), of a now "c (length addrs)"] Cons.prems(2) by auto
  obtain b' s2 where "add_to_new_table L now c s1 addrs source pen = Inr (b', s2)" "manager_ok L s2"
    using Cons.IH [OF s1(2)] Cons.prems(2) by auto
  then show ?case using s1 by auto
qed

section \<open>The answer to a request for peers\<close>

lemma peer_port:
  assumes "info_ok L i"
  shows "uint16 (pi_port (ep_peer_info i)) = Inr (pi_port (ep_peer_info i))" "uint64 (ep_timestamp i) = Inr (ep_timestamp i)"
proof -
  have port: "0 \<le> pi_port (ep_peer_info i)" "pi_port (ep_peer_info i) < 65536"
    using assms by (auto simp: info_ok_def peer_ok_def get_key_def bytes_of_ints_def rbind_eq_Inr split: if_splits)
  then show "uint16 (pi_port (ep_peer_info i)) = Inr (pi_port (ep_peer_info i))"
    by (simp add: uint16_def struct_init_def uint16_class_def)
  show "uint64 (ep_timestamp i) = Inr (ep_timestamp i)"
    using assms by (simp add: uint64_def struct_init_def uint64_class_def info_ok_def)
qed

text \<open>An answer: the peer is the entry of an id of the list, valid and not terrible.\<close>

definition answers :: "peer_lib \<Rightarrow> rat \<Rightarrow> address_manager \<Rightarrow> int set \<Rightarrow> timestamped_peer_info \<Rightarrow> bool" where
  "answers L now s ns a \<longleftrightarrow> (\<exists>n \<in> ns. \<exists>i. dict_get (am_map_info s) n = Some i \<and>
     peer_is_valid L (am_allow_private_subnets s) (ep_peer_info i) \<and> \<not> is_terrible i \<lfloor>now\<rfloor> \<and>
     a = \<lparr>tp_host = pi_host (ep_peer_info i), tp_port = pi_port (ep_peer_info i), tp_timestamp = ep_timestamp i\<rparr>)"

lemma terrible_moved [simp]: "is_terrible (i\<lparr>ep_random_pos := k\<rparr>) now = is_terrible i now"
  by (simp add: is_terrible_def)

lemma answers_moved:
  assumes "answers L now s ns a" "\<forall>n. entry_kept s s' n" "keeps s s'" "ns \<subseteq> ms"
  shows "answers L now s' ms a"
proof -
  obtain n i where n: "n \<in> ns" "dict_get (am_map_info s) n = Some i" "peer_is_valid L (am_allow_private_subnets s) (ep_peer_info i)"
    "\<not> is_terrible i \<lfloor>now\<rfloor>" "a = \<lparr>tp_host = pi_host (ep_peer_info i), tp_port = pi_port (ep_peer_info i), tp_timestamp = ep_timestamp i\<rparr>"
    using assms(1) by (auto simp: answers_def)
  obtain k where "dict_get (am_map_info s') n = Some (i\<lparr>ep_random_pos := k\<rparr>)" using assms(2) n(2) by (auto simp: entry_kept_def)
  moreover have "am_allow_private_subnets s' = am_allow_private_subnets s" using assms(3) by (simp add: keeps_def)
  ultimately show ?thesis unfolding answers_def using n assms(4)
    by (intro bexI [of _ n] exI [of _ "i\<lparr>ep_random_pos := k\<rparr>"]) auto
qed

lemma answer_host:
  assumes "am_inv L X dn s" "answers L now s ns a" "dict_get (am_map_info s) m = Some j" "tp_host a = pi_host (ep_peer_info j)"
  shows "m \<in> ns"
proof -
  obtain n i where n: "n \<in> ns" "dict_get (am_map_info s) n = Some i" "tp_host a = pi_host (ep_peer_info i)"
    using assms(2) by (auto simp: answers_def)
  have r: "roster_ok (dict_get (am_map_info s)) (dict_get (am_map_addr s)) (am_random_pos s) (am_id_count s)" using assms(1) by (simp add: am_inv_def)
  show ?thesis using roster_okD(6) [OF r n(2)] roster_okD(6) [OF r assms(3)] n assms(4) by simp
qed

lemma collect_ok:
  assumes "manager_ok L s" "k \<le> length (am_random_pos s)"
    and "\<forall>n. int k \<le> n \<and> n < int (length (am_random_pos s)) \<longrightarrow> 0 \<le> rnd n \<and> rnd n < int (length (am_random_pos s)) - n"
    and "\<forall>a \<in> set addr. answers L now s (set (take k (am_random_pos s))) a" "distinct (map tp_host addr)" "int (length addr) \<le> max 0 num"
  shows "\<exists>addrs s'. collect_peers L now rnd num s addr [int k..int (length (am_random_pos s)) - 1] = Inr (addrs, s') \<and> manager_ok L s' \<and>
    keeps s s' \<and> (\<forall>a \<in> set addrs. answers L now s' (set (am_random_pos s')) a) \<and> distinct (map tp_host addrs) \<and> int (length addrs) \<le> max 0 num"
  using assms
proof (induction "length (am_random_pos s) - k" arbitrary: s k addr)
  case 0
  then have "k = length (am_random_pos s)" by simp
  then show ?case using 0 by auto
next
  case (Suc d)
  let ?N = "length (am_random_pos s)"
  have k: "k < ?N" using Suc.hyps(2) by simp
  then have ns: "[int k..int ?N - 1] = int k # [int (k + 1)..int ?N - 1]" by (simp add: upto_rec1 add.commute)
  show ?case
  proof (cases "int (length addr) \<ge> num")
    case True
    have "answers L now s (set (am_random_pos s)) a" if "a \<in> set addr" for a
      using Suc.prems(4) that answers_moved [OF _ _ keeps_refl set_take_subset] entry_kept_refl by blast
    then show ?thesis using True Suc.prems by (simp add: ns)
  next
    case False
    define q where "q = nat (rnd (int k) + int k)"
    have q: "rnd (int k) + int k = int q" "q < ?N" "k \<le> q" using Suc.prems(3) k by (auto simp: q_def)
    obtain s1 where s1: "swap_random s (int k) (int q) = Inr s1" "am_inv L {} 0 s1" "keeps s s1"
      "am_random_pos s1 = (am_random_pos s)[k := am_random_pos s ! q, q := am_random_pos s ! k]" "\<forall>n. entry_kept s s1 n"
      using swap_random_inv [OF manager_inv [OF Suc.prems(1)] k q(2)] by blast
    have ok1: "manager_ok L s1" by (rule manager_keeps [OF Suc.prems(1) s1(3,2)])
    have len: "length (am_random_pos s1) = ?N" using s1(4) by simp
    let ?n = "am_random_pos s1 ! k"
    have take: "take k (am_random_pos s1) = take k (am_random_pos s)" using s1(4) q(3) by simp
    have take1: "set (take (k + 1) (am_random_pos s1)) = insert ?n (set (take k (am_random_pos s)))"
      using k len take by (simp add: take_Suc_conv_app_nth)
    have r1: "roster_ok (dict_get (am_map_info s1)) (dict_get (am_map_addr s1)) (am_random_pos s1) (am_id_count s1)" using s1(2) by (simp add: am_inv_def)
    have "?n \<in> set (am_random_pos s1)" using k len by simp
    then obtain i where i: "dict_get (am_map_info s1) ?n = Some i" using roster_okD(2) [OF r1] by auto
    have info: "info_ok L i" using entry_info_ok [OF s1(2) i] .
    have old: "\<forall>a \<in> set addr. answers L now s1 (set (take (k + 1) (am_random_pos s1))) a"
      using answers_moved [OF _ s1(5,3)] Suc.prems(4) take1 by blast
    have rnd1: "\<forall>n. int (k + 1) \<le> n \<and> n < int (length (am_random_pos s1)) \<longrightarrow> 0 \<le> rnd n \<and> rnd n < int (length (am_random_pos s1)) - n"
      using Suc.prems(3) len by simp
    have hyps: "d = length (am_random_pos s1) - (k + 1)" "k + 1 \<le> length (am_random_pos s1)" using Suc.hyps(2) len k by simp_all
    let ?skip = "\<not> peer_is_valid L (am_allow_private_subnets s1) (ep_peer_info i) \<or> is_terrible i \<lfloor>now\<rfloor>"
    let ?a = "\<lparr>tp_host = pi_host (ep_peer_info i), tp_port = pi_port (ep_peer_info i), tp_timestamp = ep_timestamp i\<rparr>"
    let ?addr = "if ?skip then addr else addr @ [?a]"
    have step: "collect_peers L now rnd num s addr [int k..int ?N - 1] =
        collect_peers L now rnd num s1 ?addr [int (k + 1)..int (length (am_random_pos s1)) - 1]"
      unfolding ns using False q(1) s1(1) k len i info by (simp add: py_index_def getitem_Some peer_port)
    have fresh: "tp_host a \<noteq> pi_host (ep_peer_info i)" if a: "a \<in> set addr" for a
    proof
      assume "tp_host a = pi_host (ep_peer_info i)"
      moreover have "answers L now s1 (set (take k (am_random_pos s1))) a"
        using answers_moved [OF _ s1(5,3) subset_refl] Suc.prems(4) a take by simp
      ultimately have "?n \<in> set (take k (am_random_pos s1))" using answer_host [OF s1(2) _ i] by blast
      then obtain m where "m < k" "am_random_pos s1 ! m = ?n" by (auto simp: in_set_conv_nth)
      then show False using roster_okD(1) [OF r1] k len by (simp add: nth_eq_iff_index_eq)
    qed
    have new: "pi_host (ep_peer_info i) \<notin> tp_host ` set addr" using fresh by force
    have a: "\<not> ?skip \<Longrightarrow> answers L now s1 (set (take (k + 1) (am_random_pos s1))) ?a"
      unfolding answers_def take1 using i by blast
    have p: "\<forall>a \<in> set ?addr. answers L now s1 (set (take (k + 1) (am_random_pos s1))) a" "distinct (map tp_host ?addr)"
      "int (length ?addr) \<le> max 0 num"
      using old a new Suc.prems(5,6) False by simp_all
    obtain addrs s' where s': "collect_peers L now rnd num s1 ?addr [int (k + 1)..int (length (am_random_pos s1)) - 1] = Inr (addrs, s')"
      "manager_ok L s'" "keeps s1 s'" "\<forall>a \<in> set addrs. answers L now s' (set (am_random_pos s')) a" "distinct (map tp_host addrs)"
      "int (length addrs) \<le> max 0 num"
      using Suc.hyps(1) [OF hyps(1) ok1 hyps(2) rnd1 p] by blast
    then show ?thesis using step keeps_trans [OF s1(3) s'(3)] by auto
  qed
qed

lemma get_peers_ok:
  assumes ok: "manager_ok L s"
    and rnd: "\<forall>n. 0 \<le> n \<and> n < int (length (am_random_pos s)) \<longrightarrow> 0 \<le> rnd n \<and> rnd n < int (length (am_random_pos s)) - n"
  shows "\<exists>addrs s'. get_peers L now rnd s = Inr (addrs, s') \<and> manager_ok L s' \<and> keeps s s' \<and>
    (\<forall>a \<in> set addrs. answers L now s' (set (am_random_pos s')) a) \<and> distinct (map tp_host addrs) \<and>
    int (length addrs) \<le> min 1000 ((23 * int (length (am_random_pos s)) + 99) div 100)"
  using collect_ok [of L s 0 rnd "[]" now "min 1000 ((23 * int (length (am_random_pos s)) + 99) div 100)"] ok rnd
  by (simp add: get_peers_def Let_def)

section \<open>Reachable managers\<close>

inductive reachable_manager :: "peer_lib \<Rightarrow> address_manager \<Rightarrow> bool" for L where
  rm_clear: "0 \<le> key \<Longrightarrow> key < 2 ^ 256 \<Longrightarrow> reachable_manager L (cleared_manager key)"
| rm_private: "reachable_manager L s \<Longrightarrow> reachable_manager L (make_private_subnets_valid s)"
| rm_add: "reachable_manager L s \<Longrightarrow> \<forall>a \<in> set addrs. addr_ok a \<Longrightarrow> source_ok L source \<Longrightarrow> 0 \<le> penalty \<Longrightarrow>
    add_to_new_table L now chance s addrs source penalty = Inr (added, s') \<Longrightarrow> reachable_manager L s'"
| rm_mark_good: "reachable_manager L s \<Longrightarrow> mark_good L now r s addr test_before_evict t = Inr s' \<Longrightarrow> reachable_manager L s'"
| rm_attempt: "reachable_manager L s \<Longrightarrow> attempt now s addr count_failures t = Inr s' \<Longrightarrow> reachable_manager L s'"
| rm_connect: "reachable_manager L s \<Longrightarrow> 0 \<le> timestamp_or_now now t \<Longrightarrow> timestamp_or_now now t < 2 ^ 64 \<Longrightarrow>
    connect now s addr t = Inr s' \<Longrightarrow> reachable_manager L s'"
| rm_resolve: "reachable_manager L s \<Longrightarrow> resolve_tried_collisions L now rnd s = Inr s' \<Longrightarrow> reachable_manager L s'"
| rm_select: "reachable_manager L s \<Longrightarrow> n \<in> set (am_tried_collisions s) \<Longrightarrow> select_tried_collision L n s = Inr (r, s') \<Longrightarrow>
    reachable_manager L s'"
| rm_peers: "reachable_manager L s \<Longrightarrow>
    \<forall>n. 0 \<le> n \<and> n < int (length (am_random_pos s)) \<longrightarrow> 0 \<le> rnd n \<and> rnd n < int (length (am_random_pos s)) - n \<Longrightarrow>
    get_peers L now rnd s = Inr (addrs, s') \<Longrightarrow> reachable_manager L s'"
| rm_cleanup: "reachable_manager L s \<Longrightarrow> cleanup now s d f = Inr s' \<Longrightarrow> reachable_manager L s'"

lemma reachable_ok: "reachable_manager L s \<Longrightarrow> manager_ok L s"
proof (induction rule: reachable_manager.induct)
  case (rm_clear key)
  then show ?case by (intro cleared_ok) (simp add: key_ok_def)
next
  case (rm_private s)
  then show ?case by (intro private_ok)
next
  case (rm_add s addrs source penalty now chance added s')
  then show ?case using add_all_ok [of L s addrs source penalty now chance] by auto
next
  case (rm_mark_good s now r addr tbe t s')
  then show ?case using mark_good_ok [of L s r addr tbe "timestamp_or_now now t"] by (auto simp: mark_good_def)
next
  case (rm_attempt s now addr cf t s')
  then show ?case using attempt_ok [of L s addr cf "timestamp_or_now now t"] by (auto simp: attempt_def)
next
  case (rm_connect s now t addr s')
  then show ?case using connect_ok [of L s "timestamp_or_now now t" addr] by (auto simp: connect_def)
next
  case (rm_resolve s now rnd s')
  then show ?case using resolve_ok [of L s now rnd] by auto
next
  case (rm_select s n r s')
  then show ?case using select_collision_ok [of L s n] by auto
next
  case (rm_peers s rnd now addrs s')
  then show ?case using get_peers_ok [of L s rnd now] by auto
next
  case (rm_cleanup s now d f s')
  then show ?case using cleanup_ok [of L s now d f] by auto
qed

section \<open>Properties\<close>

lemma ids_partition: "fresh_ids mi \<union> tried_ids mi = dom mi" "fresh_ids mi \<inter> tried_ids mi = {}"
  by (auto simp: fresh_ids_def tried_ids_def)

lemma manager_counts:
  assumes "manager_ok L s"
  shows "am_new_count s + am_tried_count s = int (length (am_random_pos s))"
proof -
  have t: "tab_ok L {} 0 (tables_of s)" and r: "roster_ok (dict_get (am_map_info s)) (dict_get (am_map_addr s)) (am_random_pos s) (am_id_count s)"
    using assms by (simp_all add: manager_ok_def am_inv_def)
  let ?mi = "dict_get (am_map_info s)"
  have "card (fresh_ids ?mi \<union> tried_ids ?mi) = card (fresh_ids ?mi) + card (tried_ids ?mi)"
    using finite_ids [of ?mi] tab_okD(2) [OF t] by (intro card_Un_disjoint) (simp_all add: ids_partition)
  moreover have "card (dom ?mi) = length (am_random_pos s)" using roster_okD(1,2) [OF r] distinct_card by metis
  ultimately show ?thesis using tab_okD(8,9) [OF t] by (simp add: ids_partition)
qed

lemma tried_entry:
  assumes "manager_ok L s" "dict_get (am_map_info s) n = Some i" "ep_is_tried i"
  shows "\<exists>!bp. am_tried_matrix s bp = n" "am_new_matrix s bp \<noteq> n"
proof -
  have inv: "am_inv L {} 0 s" and t: "tab_ok L {} 0 (tables_of s)" using assms(1) by (simp_all add: manager_ok_def am_inv_def)
  have n1: "n \<noteq> -1" using tab_okD(3) [OF t, of n i] assms(2) by simp
  obtain q where q: "am_tried_matrix s q = n" using tab_okD(4) [OF t, of n i] assms(2,3) by auto
  have "p = q" if "am_tried_matrix s p = n" for p
    using tried_owner [OF inv, of p] tried_owner [OF inv, of q] that q n1 assms(2) tried_place_unique by auto
  then show "\<exists>!bp. am_tried_matrix s bp = n" using q by blast
  show "am_new_matrix s bp \<noteq> n" using new_owner [OF inv, of bp] assms(2,3) n1 by auto
qed

lemma fresh_entry:
  assumes "manager_ok L s" "dict_get (am_map_info s) n = Some i" "\<not> ep_is_tried i"
  shows "ep_ref_count i = int (card {bp. am_new_matrix s bp = n})" "0 < ep_ref_count i" "am_tried_matrix s bp \<noteq> n"
proof -
  have inv: "am_inv L {} 0 s" and t: "tab_ok L {} 0 (tables_of s)" using assms(1) by (simp_all add: manager_ok_def am_inv_def)
  have n1: "n \<noteq> -1" using tab_okD(3) [OF t, of n i] assms(2) by simp
  show rc: "ep_ref_count i = int (card {bp. am_new_matrix s bp = n})"
    using tab_okD(5) [OF t, of n i] assms(2,3) by (simp add: refs_def)
  have "refs (am_new_matrix s) n \<noteq> {}" "finite (refs (am_new_matrix s) n)"
    using tab_okD(5) [OF t, of n i] assms(2,3) finite_refs [OF t n1] by simp_all
  then show "0 < ep_ref_count i" using rc by (simp add: refs_def card_gt_0_iff)
  show "am_tried_matrix s bp \<noteq> n" using tried_owner [OF inv, of bp] assms(2,3) n1 by auto
qed

text \<open>A concrete library and a manager with one new address.\<close>

definition demo_lib :: peer_lib where
  "demo_lib = \<lparr>pl_std_hash = \<lambda>_. replicate 32 0, pl_ipv4 = \<lambda>_. Some ([1, 2, 3, 4], False), pl_ipv6 = \<lambda>_. None\<rparr>"

definition demo_addr :: timestamped_peer_info where
  "demo_addr = \<lparr>tp_host = ''1.2.3.4'', tp_port = 9699, tp_timestamp = 999000\<rparr>"

lemma demo_added:
  "\<exists>s. add_to_new_table demo_lib 1000000 (\<lambda>_. 0) (cleared_manager 5) [demo_addr] None 0 = Inr (True, s) \<and> am_random_pos s = [1] \<and>
     find_entry s \<lparr>pi_host = ''1.2.3.4'', pi_port = 9699\<rparr> \<noteq> (None, None)"
proof -
  have "(case add_to_new_table demo_lib 1000000 (\<lambda>_. 0) (cleared_manager 5) [demo_addr] None 0 of
      Inl _ \<Rightarrow> False
    | Inr (added, s) \<Rightarrow> added \<and> am_random_pos s = [1] \<and> find_entry s \<lparr>pi_host = ''1.2.3.4'', pi_port = 9699\<rparr> \<noteq> (None, None))"
    by code_simp
  then show ?thesis by (auto split: sum.split_asm)
qed

lemma demo_reachable: "\<exists>s. reachable_manager demo_lib s \<and> am_random_pos s = [1]"
proof -
  obtain s where s: "add_to_new_table demo_lib 1000000 (\<lambda>_. 0) (cleared_manager 5) [demo_addr] None 0 = Inr (True, s)" "am_random_pos s = [1]"
    using demo_added by blast
  have start: "reachable_manager demo_lib (cleared_manager 5)" by (rule rm_clear) simp_all
  have "reachable_manager demo_lib s"
    by (rule rm_add [OF start _ _ _ s(1)]) (simp_all add: addr_ok_def demo_addr_def source_ok_def)
  then show ?thesis using s(2) by blast
qed

text \<open>C38. However its operations are called, the address manager stays consistent: the list for the random choice holds every
  entry once and its length is the sum of the two counters; a host is indexed exactly if it has an entry, under the id of that
  entry; a tried address has exactly one place in the tried table and none in the new table, any other address has as many
  places in the new table as its reference count says, at least one, and none in the tried table; the sets of used positions
  are the occupied places.\<close>

theorem manager_consistent:
  assumes "reachable_manager L s"
  shows "distinct (am_random_pos s) \<and> (\<forall>n. n \<in> set (am_random_pos s) \<longleftrightarrow> dict_mem (am_map_info s) n) \<and>
    am_new_count s + am_tried_count s = am_size s \<and>
    (\<forall>h n. dict_get (am_map_addr s) h = Some n \<longleftrightarrow> (\<exists>i. dict_get (am_map_info s) n = Some i \<and> pi_host (ep_peer_info i) = h)) \<and>
    (\<forall>n i. dict_get (am_map_info s) n = Some i \<longrightarrow>
       (if ep_is_tried i then (\<exists>!bp. am_tried_matrix s bp = n) \<and> (\<forall>bp. am_new_matrix s bp \<noteq> n)
        else ep_ref_count i = int (card {bp. am_new_matrix s bp = n}) \<and> 0 < ep_ref_count i \<and> (\<forall>bp. am_tried_matrix s bp \<noteq> n))) \<and>
    am_used_new_matrix_positions s = {bp. am_new_matrix s bp \<noteq> -1} \<and>
    am_used_tried_matrix_positions s = {bp. am_tried_matrix s bp \<noteq> -1}"
proof -
  have ok: "manager_ok L s" using assms by (rule reachable_ok)
  then have r: "roster_ok (dict_get (am_map_info s)) (dict_get (am_map_addr s)) (am_random_pos s) (am_id_count s)" and u: "used_ok s"
    by (simp_all add: manager_ok_def am_inv_def)
  have "dict_get (am_map_addr s) h = Some n \<longleftrightarrow> (\<exists>i. dict_get (am_map_info s) n = Some i \<and> pi_host (ep_peer_info i) = h)" for h n
    using roster_okD(6,7) [OF r] by blast
  moreover have "if ep_is_tried i then (\<exists>!bp. am_tried_matrix s bp = n) \<and> (\<forall>bp. am_new_matrix s bp \<noteq> n)
      else ep_ref_count i = int (card {bp. am_new_matrix s bp = n}) \<and> 0 < ep_ref_count i \<and> (\<forall>bp. am_tried_matrix s bp \<noteq> n)"
    if n: "dict_get (am_map_info s) n = Some i" for n i
    using tried_entry [OF ok n] fresh_entry [OF ok n] by (cases "ep_is_tried i") simp_all
  moreover have "n \<in> set (am_random_pos s) \<longleftrightarrow> dict_mem (am_map_info s) n" for n
    using roster_okD(2) [OF r] by (simp add: dict_mem_def dom_def)
  ultimately show ?thesis
    using roster_okD(1) [OF r] manager_counts [OF ok] u unfolding used_ok_def am_size_def by blast
qed

theorem manager_consistent_witness:
  "\<exists>s. reachable_manager demo_lib s \<and> am_random_pos s = [1] \<and> am_new_count s + am_tried_count s = 1"
proof -
  obtain s where s: "reachable_manager demo_lib s" "am_random_pos s = [1]" using demo_reachable by blast
  from manager_consistent [OF s(1)] have "am_new_count s + am_tried_count s = am_size s" by blast
  then show ?thesis using s by (auto simp: am_size_def)
qed

text \<open>C39. No operation of a reachable address manager raises an exception: no assertion, lookup or conversion fails.\<close>

theorem manager_never_raises:
  assumes "reachable_manager L s"
  shows "((\<forall>a \<in> set addrs. addr_ok a) \<and> source_ok L source \<and> 0 \<le> penalty \<longrightarrow>
      (\<exists>r. add_to_new_table L now chance s addrs source penalty = Inr r)) \<and>
    (\<exists>r. mark_good L now b s addr test_before_evict t = Inr r) \<and>
    (\<exists>r. attempt now s addr count_failures t = Inr r) \<and>
    (0 \<le> timestamp_or_now now t \<and> timestamp_or_now now t < 2 ^ 64 \<longrightarrow> (\<exists>r. connect now s addr t = Inr r)) \<and>
    (\<exists>r. resolve_tried_collisions L now rnd s = Inr r) \<and>
    (am_tried_collisions s = [] \<or> n \<in> set (am_tried_collisions s) \<longrightarrow> (\<exists>r. select_tried_collision L n s = Inr r)) \<and>
    (\<exists>r. cleanup now s d f = Inr r)"
proof -
  have ok: "manager_ok L s" using assms by (rule reachable_ok)
  show ?thesis
    unfolding mark_good_def attempt_def connect_def
  proof (intro conjI impI, goal_cases)
    case 1
    then show ?case using add_all_ok [OF ok, of addrs source penalty now chance] by blast
  next
    case 2
    then show ?case using mark_good_ok [OF ok] by blast
  next
    case 3
    then show ?case using attempt_ok [OF ok] by blast
  next
    case 4
    then show ?case using connect_ok [OF ok, of "timestamp_or_now now t" addr] by blast
  next
    case 5
    then show ?case using resolve_ok [OF ok] by blast
  next
    case 6
    then show ?case using select_collision_ok [OF ok, of n] by blast
  next
    case 7
    then show ?case using cleanup_ok [OF ok] by blast
  qed
qed

theorem manager_never_raises_witness:
  "\<exists>s. reachable_manager demo_lib s \<and> am_random_pos s = [1] \<and> (\<exists>r. add_to_new_table demo_lib 7 (\<lambda>_. 0) s [demo_addr] None 0 = Inr r)"
proof -
  obtain s where s: "reachable_manager demo_lib s" "am_random_pos s = [1]" using demo_reachable by blast
  have "(\<forall>a \<in> set [demo_addr]. addr_ok a) \<and> source_ok demo_lib None \<and> (0 :: int) \<le> 0" by (simp add: addr_ok_def demo_addr_def source_ok_def)
  then show ?thesis using manager_never_raises [OF s(1), of "[demo_addr]" None 0 7 "\<lambda>_. 0"] s by blast
qed

text \<open>C40. \<open>get_peers\<close> of a reachable manager never raises; it answers at most 1000 and at most 23 percent (rounded up) of the
  addresses, each from an entry that is valid and not terrible, with its port and timestamp, and no host twice, whatever the
  random numbers.\<close>

theorem get_peers_answers:
  assumes "reachable_manager L s"
    and "\<forall>n. 0 \<le> n \<and> n < am_size s \<longrightarrow> 0 \<le> rnd n \<and> rnd n < am_size s - n"
  shows "\<exists>addrs s'. get_peers L now rnd s = Inr (addrs, s') \<and> distinct (map tp_host addrs) \<and>
    length addrs \<le> 1000 \<and> 100 * int (length addrs) \<le> 23 * am_size s + 99 \<and>
    (\<forall>a \<in> set addrs. \<exists>n i. dict_get (am_map_info s') n = Some i \<and>
       peer_is_valid L (am_allow_private_subnets s) (ep_peer_info i) \<and> \<not> is_terrible i \<lfloor>now\<rfloor> \<and>
       a = \<lparr>tp_host = pi_host (ep_peer_info i), tp_port = pi_port (ep_peer_info i), tp_timestamp = ep_timestamp i\<rparr>)"
proof -
  obtain addrs s' where s': "get_peers L now rnd s = Inr (addrs, s')" "keeps s s'"
    "\<forall>a \<in> set addrs. answers L now s' (set (am_random_pos s')) a" "distinct (map tp_host addrs)"
    "int (length addrs) \<le> min 1000 ((23 * am_size s + 99) div 100)"
    using get_peers_ok [OF reachable_ok [OF assms(1)], of rnd now] assms(2) by (auto simp: am_size_def)
  have "am_allow_private_subnets s' = am_allow_private_subnets s" using s'(2) by (simp add: keeps_def)
  moreover have "length addrs \<le> 1000 \<and> 100 * int (length addrs) \<le> 23 * am_size s + 99" using s'(5) by linarith
  ultimately show ?thesis using s'(1,3,4) unfolding answers_def by (intro exI [of _ addrs] exI [of _ s']) (simp, blast)
qed

theorem get_peers_answers_witness:
  "\<exists>s addrs s'. reachable_manager demo_lib s \<and> am_size s = 1 \<and> get_peers demo_lib 1000000 (\<lambda>_. 0) s = Inr (addrs, s') \<and> length addrs \<le> 1"
proof -
  obtain s where s: "reachable_manager demo_lib s" "am_size s = 1" using demo_reachable by (auto simp: am_size_def)
  then have "\<forall>n. 0 \<le> n \<and> n < am_size s \<longrightarrow> 0 \<le> (0 :: int) \<and> (0 :: int) < am_size s - n" by simp
  from get_peers_answers [OF s(1) this, of 1000000] obtain addrs s' where
    "get_peers demo_lib 1000000 (\<lambda>_. 0) s = Inr (addrs, s')" "100 * int (length addrs) \<le> 23 * am_size s + 99" by blast
  then show ?thesis using s by (intro exI [of _ s] exI [of _ addrs] exI [of _ s']) simp
qed

text \<open>A known address with a positive timestamp that is announced again, with the same port and a positive timestamp, only gets
  the announced timestamp, even an older one, and never a further place: the condition \<open>info.timestamp > 0\<close> sets the timestamp
  at once, after which \<open>addr.timestamp <= info.timestamp\<close> holds.\<close>

lemma known_address_only_retimed:
  assumes "peer_is_valid L (am_allow_private_subnets s) \<lparr>pi_host = tp_host addr, pi_port = tp_port addr\<rparr>"
    and "find_entry s \<lparr>pi_host = tp_host addr, pi_port = tp_port addr\<rparr> = (Some info, Some n)"
    and "pi_port (ep_peer_info info) = tp_port addr" "pi_host (ep_peer_info info) = tp_host addr"
    and "0 < ep_timestamp info" "0 < tp_timestamp addr"
  shows "add_to_new_table_inner L now chance s addr source penalty =
    Inr (False, s\<lparr>am_map_info := dict_set (am_map_info s) n (info\<lparr>ep_timestamp := tp_timestamp addr\<rparr>)\<rparr>)"
proof -
  have "dict_get (am_map_info s) n = Some info" using assms(2) by (auto simp: find_entry_def split: option.splits)
  then show ?thesis
    using assms by (simp add: add_to_new_table_inner_def same_peer_def updated_timestamp_def may_add_reference_def modify_eq)
qed

text \<open>A valid address that the manager knows under the same port is in the tried table after \<open>mark_good\<close> without a test.\<close>

lemma mark_good_tries:
  assumes "reachable_manager L s" "find_entry s addr = (Some info, Some n)" "same_peer info addr"
    and "peer_is_valid L (am_allow_private_subnets s) addr"
  shows "\<exists>s' i. mark_good L now b s addr False t = Inr s' \<and> dict_get (am_map_info s') n = Some i \<and> ep_is_tried i"
proof -
  have "dict_get (am_map_info s) n = Some info" using assms(2) by (auto simp: find_entry_def split: option.splits)
  then show ?thesis
    using mark_known_ok [OF reachable_ok [OF assms(1)] assms(2) _ assms(4,3), of b False "timestamp_or_now now t"] by (auto simp: mark_good_def)
qed

text \<open>Loading the used positions again finds the ones that were kept.\<close>

lemma load_used_same:
  assumes "reachable_manager L s"
  shows "load_used_table_positions s = s"
proof -
  have ok: "manager_ok L s" and inv: "am_inv L {} 0 s" and u: "used_ok s"
    using reachable_ok [OF assms] by (simp_all add: manager_ok_def am_inv_def)
  have new: "am_new_matrix s bp \<noteq> -1 \<Longrightarrow> bp \<in> set (positions NEW_BUCKET_COUNT)" for bp
    using new_owner [OF inv, of bp] by (auto simp: positions_def new_place_def mem_Times_iff)
  have tried: "bp \<in> set (positions TRIED_BUCKET_COUNT)" if tm: "am_tried_matrix s bp \<noteq> -1" for bp
  proof -
    obtain n i where n: "dict_get (am_map_info s) n = Some i" "tried_place L (am_key s) i bp" using tried_owner [OF inv tm] by blast
    have "key_ok (am_key s)" "info_ok L i" using inv n(1) tab_okD(1,3) [of L "{}" 0 "tables_of s"] by (auto simp: am_inv_def)
    then have b: "0 \<le> fst bp" "fst bp < TRIED_BUCKET_COUNT" using tried_bucket_total n(2) by (fastforce simp: tried_place_def)+
    then have "fst bp < NEW_BUCKET_COUNT" by (simp add: TRIED_BUCKET_COUNT_def NEW_BUCKET_COUNT_def)
    then have "0 \<le> snd bp" "snd bp < BUCKET_SIZE" using inv_position [OF inv n(1) refl b(1), of False] n(2) by (auto simp: tried_place_def)
    then show ?thesis using b by (auto simp: positions_def mem_Times_iff)
  qed
  have "set (filter (\<lambda>bp. am_new_matrix s bp \<noteq> -1) (positions NEW_BUCKET_COUNT)) = am_used_new_matrix_positions s"
    "set (filter (\<lambda>bp. am_tried_matrix s bp \<noteq> -1) (positions TRIED_BUCKET_COUNT)) = am_used_tried_matrix_positions s"
    using u new tried unfolding used_ok_def set_filter by blast+
  then show ?thesis by (simp add: load_used_table_positions_def)
qed

end
