(* ===== verification/Spec2Isabelle.thy ===== *)
theory Spec2Isabelle
  imports MerkleSetCorrect ChainState HeaderCorrect FullNodeStoreCorrect SyncStore Bech32m CoinSelection AddressManagerSafe
begin

text \<open>
  A verification development of the consensus core of the Chives blockchain node, the Python package \<open>chives\<close>.

  \<^bold>\<open>The program.\<close>  A node receives blocks from the network.  \<open>Blockchain.receive_block\<close>
  (\<open>consensus/blockchain.py\<close>) validates the body of a block against the coin store
  (\<open>consensus/block_body_validation.py\<close>, \<open>full_node/coin_store.py\<close>; its header was validated before by
  \<open>consensus/block_header_validation.py\<close>), makes the block's record
  (\<open>consensus/full_block_to_block_record.py\<close>, which calls the difficulty, deficit and sub-epoch code), writes block and
  record to the block store (\<open>full_node/block_store.py\<close>) and decides whether the block is the new peak.  If it is, the
  coin store is rolled back to the fork point, the blocks of the new branch are applied to it, and the main-chain flags,
  the peak and the height map (\<open>full_node/block_height_map.py\<close>) follow.  Transactions that are not in a block yet wait
  in the mempool (\<open>full_node/mempool_manager.py\<close>, \<open>full_node/mempool.py\<close>), which each new peak updates.  Around the
  peak the node keeps the finished sub-slots, signage points and unfinished blocks that the next blocks will use
  (\<open>full_node/full_node_store.py\<close>), and while it syncs what its peers announce (\<open>full_node/sync_store.py\<close>); which
  peers it may connect to it keeps in \<open>server/address_manager.py\<close>.  All data is
  serialised by \<open>util/streamable.py\<close>; light clients check membership of coins with the proofs of
  \<open>util/merkle_set.py\<close>.

  \<^bold>\<open>Conventions.\<close>  \<open>Prelude\<close> has the vocabulary: code that may raise returns \<open>exn + 'a\<close> (\<open>'a res\<close>), \<open>rbind\<close>
  sequences it, \<open>rfold\<close> and \<open>rmap\<close> are \<open>for\<close> loops, \<open>loop_while\<close> is the \<open>while\<close> statement (a run that never leaves
  the loop is the error \<open>Diverges\<close>, so that returning is always something to prove; there is no fuel anywhere), and a
  \<open>dict\<close> is an association list in insertion order.  Python integers are \<open>int\<close>, and the classes \<open>uint8\<close> to \<open>int512\<close>
  are their range checks (\<open>Ints\<close>).  Python floats are exact 53-bit arithmetic with correct rounding (\<open>Floats\<close>).
  SQL tables are lists of rows.  A class is a record with its fields in order, a method a function on it; where a
  method both changes state and may raise, the model returns the state that the exception leaves behind if later code
  depends on it.  Code outside the repository is a parameter: the hash (\<open>hasher\<close>; where it must be SHA-256 it is
  computed in \<open>Sha256\<close>), the curve operations of \<open>blspy\<close> (\<open>bls\<close>), \<open>zstd\<close> and \<open>serialized_length\<close>
  (\<open>store_lib\<close>), the CLVM, \<open>chia_rs\<close> and \<open>chiabip158\<close> (\<open>body_lib\<close>), \<open>chiavdf\<close>, \<open>chiapos\<close> and the clock
  (\<open>header_lib\<close>), the parser of IP addresses (\<open>peer_lib\<close>), and Python's \<open>random\<close>.  What a
  theorem needs of a parameter is one of its hypotheses, and its witness has an instance.

  \<^bold>\<open>The theories.\<close>
  \<^item> \<open>Ints\<close>, \<open>Floats\<close>, \<open>Sha256\<close>, \<open>Errors\<close>, \<open>Constants\<close>: the number and byte classes, rounding, the hash, the error
    codes and the consensus constants with their mainnet values.
  \<^item> \<open>Streamable\<close>: parsing and streaming of every field type.  What is written is read back, and nothing else is
    accepted: encodings are canonical.
  \<^item> \<open>MerkleSet\<close>, \<open>MerkleSetCorrect\<close>: the Merkle set and its proofs.  Proofs are sound and complete, and the root is a
    function of the set.
  \<^item> \<open>Rewards\<close>: the reward schedule, coins and reward coins.  The float products are exact.
  \<^item> \<open>PotIterations\<close>, \<open>Blocks\<close>, \<open>Difficulty\<close>, \<open>SubEpoch\<close>: iterations and deficit, walks over block records and the
    fork point, the difficulty adjustment at the end of an epoch, and sub-epoch summaries.  The locale \<open>block_source\<close>
    states what a chain of records promises and shows that walks along parents end; it is interpreted for
    \<open>BlockCache\<close> and for \<open>Blockchain\<close>.
  \<^item> \<open>CoinStore\<close>: the coin table.  A block is accepted exactly when it creates new coins and spends unspent ones, and
    rolling back undoes blocks exactly.
  \<^item> \<open>Spends\<close>, \<open>Mempool\<close>, \<open>MempoolManager\<close>: conditions of spends, the pool and its manager.  The four dictionaries of
    the pool agree, no coin is spent twice in it, a replacement pays more, and block creation takes the best fee rates
    within the cost limit.
  \<^item> \<open>CachedBls\<close>: the LRU cache and the cache of pairings, which never changes the answer of a verification.
  \<^item> \<open>BlockTypes\<close>, \<open>BlockRecords\<close>, \<open>BlockBytes\<close>, \<open>FullBlockUtils\<close>: the data of a block, its record, its bytes, and
    finding the generator in the bytes without parsing them.
  \<^item> \<open>BodyValidation\<close>: the numbered checks of \<open>validate_block_body\<close>.  An accepted body conserves value, spends existing
    coins once, claims no more than the scheduled rewards, and is accepted by the coin store.
  \<^item> \<open>ProofChecks\<close>, \<open>HeaderValidation\<close>, \<open>HeaderCorrect\<close>: the numbered checks of \<open>validate_unfinished_header_block\<close>
    and \<open>validate_finished_header_block\<close> (\<open>consensus/block_header_validation.py\<close>) with the VDF and proof of space checks
    they make.  An accepted header stands one height above its parent with the expected weight, its iterations add up,
    its proof of space gives the iterations that are returned, it is a transaction block exactly when its signage point
    asks for it and timestamps rise, its hash identifies it, and its record keeps the chain linked, which is what the
    walks of \<open>Blocks\<close> rely on.
  \<^item> \<open>BlockStore\<close>, \<open>HeightMap\<close>: the block table with its cache, and the map from heights to hashes with its files.
    Reads do not depend on the cache, blocks are read back as written, and the byte buffer implements a list of hashes.
  \<^item> \<open>Blockchain\<close>, \<open>ChainState\<close>: the chain of a node.  \<open>chain_inv\<close> says that the block table, the flags, the peak, the
    height map, the records in memory and the coin store all describe one list of main-chain entries.
    \<open>receive_block\<close> keeps it, for genesis, for a block on the peak, for a reorganisation and for an orphan, and is
    atomic if it raises.

  \<^item> \<open>FullNodeStore\<close>, \<open>FullNodeStoreCorrect\<close>: the slots, signage points and early objects around the peak.  The slots are
    linked, an accepted signage point is found again and a refused one remembered, the slots handed out for a new block
    connect it to its parent, and an end of slot that comes before its block is taken up when the block becomes the peak.
  \<^item> \<open>SyncStore\<close>: what peers announce while the node syncs.  The table is bounded, keeps the sync target, and gives the
    heaviest known peak.
  \<^item> \<open>CoinSelection\<close>: which coins a wallet spends (\<open>wallet/coin_selection.py\<close>).  They are usable, cover the amount, are at
    most one more than the limit, and are found whenever a coin covers the amount or there are fewer than 500.
  \<^item> \<open>AddressManager\<close>, \<open>AddressTables\<close>, \<open>AddressManagerCorrect\<close>, \<open>AddressManagerSafe\<close>: the addresses of peers
    (\<open>server/address_manager.py\<close>, \<open>types/peer_info.py\<close>).  The tables of new and of tried addresses, the index of hosts, the
    list for the random choice and the counters stay consistent under every operation, no operation raises, and an answer
    to a request for peers has no host twice.
  \<^item> \<open>Bech32m\<close>: addresses.  They round trip, and damage to up to six neighbouring characters is detected.

  \<^bold>\<open>Bounds.\<close>  Heights are \<open>uint32\<close> and amounts \<open>uint64\<close>; where the code checks a range the model raises, and where it
  does not (a dataclass does not enforce its annotations) the model computes on.  The schedule of \<open>Rewards\<close> is proved
  for every height.  Lists in serialised objects are shorter than \<open>2 ^ 32\<close>.

  \<^bold>\<open>Not modelled.\<close>  Weight proofs; the parts of \<open>Blockchain\<close> that hand work to other processes (\<open>pre_validate_blocks_multiprocessing\<close>,
  \<open>validate_unfinished_block\<close>, \<open>run_generator\<close>); version 1 databases; JSON conversion; the asyncio interleaving of tasks
  (\<open>receive_block\<close> runs under the blockchain lock); the full node's message handlers, wallets, masternode, farmer,
  harvester, timelord, RPC, daemon and command line, which are input and output around this core.
\<close>

end
